(* ===== verification/Prelude.thy ===== *)
theory Prelude
  imports Main "HOL-Library.Word"
begin

text \<open>
  Shared vocabulary of the development: the fixed-width integer conversions of C, its
  truncating division and shifts, and the generic lemmas on lists and on \<open>for\<close> loops
  that the component theories use.

  C integers are HOL integers together with a conversion for every point where C stores a
  value in a narrower type: \<open>to_i16\<close> is the conversion to \<open>int16_t\<close>, \<open>to_u32\<close> the one to
  \<open>uint32_t\<close>, and so on (two's complement, the behaviour of the compilers the
  repository builds with). Where 32-bit signed arithmetic of the source can leave the range,
  the model wraps it with \<open>to_i32\<close>; the bounds lemmas of the components show where it cannot.
  A \<open>for\<close> loop over \<open>i = a, \<dots>, b - 1\<close> is \<open>fold body [a..<b] state\<close>.
\<close>

unbundle bit_operations_syntax

named_theorems c_int \<open>definitions of the C integer conversions, for evaluation\<close>
named_theorems c_range \<open>range facts of the C integer conversions\<close>

section \<open>Conversions to the integer types of C\<close>

definition to_i16 :: "int \<Rightarrow> int" where
  "to_i16 x = (x + 32768) mod 65536 - 32768"

definition to_i32 :: "int \<Rightarrow> int" where
  "to_i32 x = (x + 2147483648) mod 4294967296 - 2147483648"

definition to_u8 :: "int \<Rightarrow> int" where
  "to_u8 x = x mod 256"

definition to_u16 :: "int \<Rightarrow> int" where
  "to_u16 x = x mod 65536"

definition to_u32 :: "int \<Rightarrow> int" where
  "to_u32 x = x mod 4294967296"

declare to_i16_def [c_int] to_i32_def [c_int] to_u8_def [c_int] to_u16_def [c_int]
  to_u32_def [c_int]

definition is_i16 :: "int \<Rightarrow> bool" where
  "is_i16 x \<longleftrightarrow> - 32768 \<le> x \<and> x \<le> 32767"

definition is_i32 :: "int \<Rightarrow> bool" where
  "is_i32 x \<longleftrightarrow> - 2147483648 \<le> x \<and> x \<le> 2147483647"

definition is_u8 :: "int \<Rightarrow> bool" where
  "is_u8 x \<longleftrightarrow> 0 \<le> x \<and> x \<le> 255"

definition is_u32 :: "int \<Rightarrow> bool" where
  "is_u32 x \<longleftrightarrow> 0 \<le> x \<and> x \<le> 4294967295"

lemma is_i16_to_i16 [simp, c_range]: "is_i16 (to_i16 x)"
proof -
  have "0 \<le> (x + 32768) mod 65536" "(x + 32768) mod 65536 < 65536" by simp_all
  then show ?thesis unfolding is_i16_def to_i16_def by linarith
qed

lemma is_i32_to_i32 [simp, c_range]: "is_i32 (to_i32 x)"
proof -
  have "0 \<le> (x + 2147483648) mod 4294967296" "(x + 2147483648) mod 4294967296 < 4294967296"
    by simp_all
  then show ?thesis unfolding is_i32_def to_i32_def by linarith
qed

lemma is_u32_to_u32 [simp, c_range]: "is_u32 (to_u32 x)"
proof -
  have "0 \<le> x mod 4294967296" "x mod 4294967296 < 4294967296" by simp_all
  then show ?thesis unfolding is_u32_def to_u32_def by linarith
qed

lemma is_u8_to_u8 [simp, c_range]: "is_u8 (to_u8 x)"
proof -
  have "0 \<le> x mod 256" "x mod 256 < 256" by simp_all
  then show ?thesis unfolding is_u8_def to_u8_def by linarith
qed

lemma to_i16_id: "is_i16 x \<Longrightarrow> to_i16 x = x"
  by (simp add: to_i16_def is_i16_def)

lemma to_i32_id: "is_i32 x \<Longrightarrow> to_i32 x = x"
  by (simp add: to_i32_def is_i32_def)

lemma to_u32_id: "is_u32 x \<Longrightarrow> to_u32 x = x"
  by (simp add: to_u32_def is_u32_def)

lemma to_u8_id: "is_u8 x \<Longrightarrow> to_u8 x = x"
  by (simp add: to_u8_def is_u8_def)

lemma to_i16_bounds: "- 32768 \<le> to_i16 x" "to_i16 x \<le> 32767"
  using is_i16_to_i16 [of x] by (simp_all add: is_i16_def)

lemma to_i32_bounds: "- 2147483648 \<le> to_i32 x" "to_i32 x \<le> 2147483647"
  using is_i32_to_i32 [of x] by (simp_all add: is_i32_def)

lemma to_i16_to_i16 [simp]: "to_i16 (to_i16 x) = to_i16 x"
  by (simp add: to_i16_id)

lemma to_i32_to_i32 [simp]: "to_i32 (to_i32 x) = to_i32 x"
  by (simp add: to_i32_id)

lemma is_i16_imp_is_i32: "is_i16 x \<Longrightarrow> is_i32 x"
  by (simp add: is_i16_def is_i32_def)

lemma is_u8_imp_is_u32: "is_u8 x \<Longrightarrow> is_u32 x"
  by (simp add: is_u8_def is_u32_def)

text \<open>The conversions agree with the machine words of the library.\<close>

lemma to_i16_word: "to_i16 x = sint (word_of_int x :: 16 word)"
  by (simp add: to_i16_def signed_of_int signed_take_bit_eq_take_bit_shift take_bit_eq_mod)

lemma to_i32_word: "to_i32 x = sint (word_of_int x :: 32 word)"
  by (simp add: to_i32_def signed_of_int signed_take_bit_eq_take_bit_shift take_bit_eq_mod)

lemma to_u32_word: "to_u32 x = uint (word_of_int x :: 32 word)"
  by (simp add: to_u32_def unsigned_of_int take_bit_eq_mod)

section \<open>C operators\<close>

text \<open>Division truncates towards zero. A right shift of a signed value is arithmetic, of an
  unsigned (non-negative) value logical: both are the floor of the quotient.\<close>

definition c_div :: "int \<Rightarrow> int \<Rightarrow> int" where
  "c_div a b = sgn a * sgn b * (\<bar>a\<bar> div \<bar>b\<bar>)"

definition shr :: "int \<Rightarrow> nat \<Rightarrow> int" where
  "shr x n = x div 2 ^ n"

definition shl :: "int \<Rightarrow> nat \<Rightarrow> int" where
  "shl x n = x * 2 ^ n"

declare c_div_def [c_int] shr_def [c_int] shl_def [c_int]

lemma shr_nonneg: "0 \<le> x \<Longrightarrow> 0 \<le> shr x n"
  by (simp add: shr_def pos_imp_zdiv_nonneg_iff)

lemma int_div_le: "0 \<le> (x :: int) \<Longrightarrow> 0 < b \<Longrightarrow> x div b \<le> x"
  using zdiv_mono2 [of x 1 b] by simp

lemma int_div_less:
  assumes "(n :: int) < m * d" "0 < d" shows "n div d < m"
proof -
  have "n div d * d \<le> n"
    using div_mult_mod_eq [of n d] pos_mod_sign [OF assms(2), of n] by linarith
  with assms(1) have "n div d * d < m * d" by linarith
  then show ?thesis using assms(2) by simp
qed

lemma int_le_div:
  assumes "m * d \<le> (n :: int)" "0 < d" shows "m \<le> n div d"
  using zdiv_mono1 [OF assms] assms(2) by simp

lemma shr_le: "0 \<le> x \<Longrightarrow> shr x n \<le> x"
  by (simp add: shr_def int_div_le)

lemma shr_mono: "x \<le> y \<Longrightarrow> shr x n \<le> shr y n"
  by (simp add: shr_def zdiv_mono1)

lemma shr_zero [simp]: "shr 0 n = 0" "shr x 0 = x"
  by (simp_all add: shr_def)

lemma shr_is_i32:
  assumes "is_i32 x" shows "is_i32 (shr x n)"
proof -
  have "shr (- 2147483648) n \<le> shr x n" "shr x n \<le> shr 2147483647 n"
    using assms by (auto simp: is_i32_def intro: shr_mono)
  moreover have "shr 2147483647 n \<le> 2147483647" by (rule shr_le) simp
  moreover have "- 2147483648 \<le> shr (- 2147483648) n"
  proof -
    have "(- 2147483648 :: int) * 2 ^ n \<le> - 2147483648" by simp
    then have "(- 2147483648 :: int) * 2 ^ n div 2 ^ n \<le> - 2147483648 div 2 ^ n"
      by (intro zdiv_mono1) simp_all
    moreover have "(- 2147483648 :: int) * 2 ^ n div 2 ^ n = - 2147483648"
      by (rule nonzero_mult_div_cancel_right) simp
    ultimately show ?thesis by (simp add: shr_def)
  qed
  ultimately show ?thesis unfolding is_i32_def by linarith
qed

lemma c_div_pos: "0 \<le> a \<Longrightarrow> 0 < b \<Longrightarrow> c_div a b = a div b"
  by (cases "a = 0") (simp_all add: c_div_def)

lemma c_div_abs_le: "\<bar>c_div a b\<bar> \<le> \<bar>a\<bar>"
proof -
  have "\<bar>a\<bar> div \<bar>b\<bar> \<le> \<bar>a\<bar>"
    by (cases "b = 0") (auto intro: int_div_le)
  moreover have "0 \<le> \<bar>a\<bar> div \<bar>b\<bar>"
    by (cases "b = 0") (simp_all add: pos_imp_zdiv_nonneg_iff)
  ultimately show ?thesis
    by (cases a rule: linorder_cases [of _ 0]; cases b rule: linorder_cases [of _ 0])
       (simp_all add: c_div_def abs_mult sgn_if)
qed

text \<open>Subtraction and multiplication of \<open>size_t\<close> (64 bits, modulo \<open>2\<^sup>6\<^sup>4\<close>).\<close>

definition sz_sub :: "nat \<Rightarrow> nat \<Rightarrow> nat" where
  "sz_sub a b = (if b \<le> a then a - b else a + 18446744073709551616 - b)"

definition sz_mul :: "nat \<Rightarrow> nat \<Rightarrow> nat" where
  "sz_mul a b = (a * b) mod 18446744073709551616"

lemma sz_sub_le [simp]: "b \<le> a \<Longrightarrow> sz_sub a b = a - b"
  by (simp add: sz_sub_def)

lemma sz_mul_less [simp]: "a * b < 18446744073709551616 \<Longrightarrow> sz_mul a b = a * b"
  by (simp add: sz_mul_def)

section \<open>Loops as folds over index ranges\<close>

lemma fold_upt_inv:
  assumes "P a s" and "\<And>i s. a \<le> i \<Longrightarrow> i < b \<Longrightarrow> P i s \<Longrightarrow> P (Suc i) (f i s)" and "a \<le> b"
  shows "P b (fold f [a..<b] s)"
  using assms(3)
proof (induction rule: dec_induct)
  case base
  then show ?case using assms(1) by simp
next
  case (step n)
  then show ?case using assms(2) [of n] by simp
qed

lemma fold_pres:
  assumes "P s" and "\<And>i s. i \<in> set is \<Longrightarrow> P s \<Longrightarrow> P (f i s)"
  shows "P (fold f is s)"
  using assms by (induction "is" arbitrary: s) auto

lemma fold_max_spec:
  "fold (\<lambda>x m. if m < x then x else m) xs (m :: int) = Max (insert m (set xs))"
proof (induction xs arbitrary: m)
  case (Cons x xs)
  have "Max (insert (if m < x then x else m) (set xs)) = Max (insert m (insert x (set xs)))"
    by (cases "set xs = {}") (auto simp: max_def)
  with Cons show ?case by (simp add: insert_commute)
qed simp

lemma fold_min_spec:
  "fold (\<lambda>x m. if x < m then x else m) xs (m :: int) = Min (insert m (set xs))"
proof (induction xs arbitrary: m)
  case (Cons x xs)
  have "Min (insert (if x < m then x else m) (set xs)) = Min (insert m (insert x (set xs)))"
    by (cases "set xs = {}") (auto simp: min_def)
  with Cons show ?case by (simp add: insert_commute)
qed simp

lemma fold_upt_nth:
  "n \<le> length xs \<Longrightarrow> fold (\<lambda>i. g (xs ! i)) [0..<n] s = fold g (take n xs) s"
proof (induction n)
  case (Suc n)
  then show ?case by (simp add: take_Suc_conv_app_nth)
qed simp

lemma fold_add_sum:
  "fold (\<lambda>i s. s + g i) [a..<b] (s :: int) = s + (\<Sum>i = a..<b. g i)"
proof (cases "a \<le> b")
  case True
  then show ?thesis
    by (induction rule: dec_induct) (simp_all add: sum.atLeastLessThan_Suc add.assoc)
qed simp

lemma fold_pair:
  "fold (\<lambda>j (a, b). (f j a, g j b)) xs (a, b) = (fold f xs a, fold g xs b)"
  by (induction xs arbitrary: a b) simp_all

lemma upt_split: "a \<le> b \<Longrightarrow> b \<le> c \<Longrightarrow> [a..<c] = [a..<b] @ [b..<c]"
  by (metis le_add_diff_inverse upt_add_eq_append)

text \<open>Wrapping accumulation is the wrapped sum.\<close>

lemma to_i32_add_left [simp]: "to_i32 (to_i32 a + b) = to_i32 (a + b)"
proof -
  have "to_i32 a + b + 2147483648 = (a + 2147483648) mod 4294967296 + b"
    by (simp add: to_i32_def)
  then have "to_i32 (to_i32 a + b) = ((a + 2147483648) mod 4294967296 + b) mod 4294967296 - 2147483648"
    by (simp only: to_i32_def [of "to_i32 a + b"])
  also have "\<dots> = (a + 2147483648 + b) mod 4294967296 - 2147483648" by (simp only: mod_add_left_eq)
  also have "a + 2147483648 + b = a + b + 2147483648" by simp
  finally show ?thesis by (simp only: to_i32_def)
qed

lemma to_i32_add_right [simp]: "to_i32 (b + to_i32 a) = to_i32 (b + a)"
  using to_i32_add_left [of a b] by (simp add: add.commute)

lemma to_i32_diff_left [simp]: "to_i32 (to_i32 a - b) = to_i32 (a - b)"
  using to_i32_add_left [of a "- b"] by simp

lemma to_i32_0 [simp]: "to_i32 0 = 0"
  by (simp add: to_i32_def)

lemma fold_to_i32_add:
  "fold (\<lambda>j s. to_i32 (s + g j)) js (to_i32 s) = to_i32 (s + sum_list (map g js))"
  by (induction js arbitrary: s) (simp_all add: add.assoc)

lemma fold_to_i32_sub:
  "fold (\<lambda>j s. to_i32 (s - g j)) js (to_i32 s) = to_i32 (s - sum_list (map g js))"
  by (induction js arbitrary: s) (simp_all add: algebra_simps)

section \<open>Lists\<close>

text \<open>\<open>memcpy\<close> of \<open>xs\<close> to offset \<open>off\<close> of an array.\<close>

definition blit :: "nat \<Rightarrow> 'a list \<Rightarrow> 'a list \<Rightarrow> 'a list" where
  "blit off xs d = take off d @ xs @ drop (off + length xs) d"

lemma length_blit: "off + length xs \<le> length d \<Longrightarrow> length (blit off xs d) = length d"
  by (simp add: blit_def)

lemma blit_Nil [simp]: "blit off [] d = d"
  by (simp add: blit_def)

lemma nth_blit:
  "off + length xs \<le> length d \<Longrightarrow> i < length d \<Longrightarrow>
   blit off xs d ! i = (if off \<le> i \<and> i < off + length xs then xs ! (i - off) else d ! i)"
  by (auto simp: blit_def nth_append min_def)

lemma list_of_6:
  assumes "length s = 6" shows "s = [s ! 0, s ! 1, s ! 2, s ! 3, s ! 4, s ! 5]"
proof (rule nth_equalityI)
  fix i assume "i < length s"
  then have "i = 0 \<or> i = 1 \<or> i = 2 \<or> i = 3 \<or> i = 4 \<or> i = 5" using assms by linarith
  then show "s ! i = [s ! 0, s ! 1, s ! 2, s ! 3, s ! 4, s ! 5] ! i" by auto
qed (simp add: assms)

end
