(* ===== verification/RingBuffer.thy ===== *)
theory RingBuffer
  imports Prelude
begin

text \<open>
  The ring buffer of \<open>webrtc/common_audio/ring_buffer.c\<close>: \<open>element_count\<close> slots of
  \<open>element_size\<close> bytes, a read and a write position, and a flag that tells an empty buffer
  from a full one. The model works on the bytes of \<open>data\<close>, as the code does. A null handle
  is \<open>None\<close>. Pointers into \<open>data\<close> are byte offsets.

  The abstract view is a \<open>tape\<close> (the bytes of the buffer from the read position on, all the
  way round) with the number of readable elements; writing overwrites the tape behind the
  readable part, moving the read pointer rotates it.
\<close>

section \<open>Data and operations\<close>

datatype wrap = SAME_WRAP | DIFF_WRAP

record ring_buffer =
  read_pos :: nat
  write_pos :: nat
  element_count :: nat
  element_size :: nat
  rw_wrap :: wrap
  data :: "int list"

definition WebRtc_available_read :: "ring_buffer option \<Rightarrow> nat" where
  "WebRtc_available_read self =
     (case self of
        None \<Rightarrow> 0
      | Some b \<Rightarrow>
          if rw_wrap b = SAME_WRAP then sz_sub (write_pos b) (read_pos b)
          else sz_sub (element_count b) (read_pos b) + write_pos b)"

definition WebRtc_available_write :: "ring_buffer option \<Rightarrow> nat" where
  "WebRtc_available_write self =
     (case self of
        None \<Rightarrow> 0
      | Some b \<Rightarrow> sz_sub (element_count b) (WebRtc_available_read self))"

definition WebRtc_InitBuffer :: "ring_buffer \<Rightarrow> ring_buffer" where
  "WebRtc_InitBuffer b =
     b\<lparr>read_pos := 0, write_pos := 0, rw_wrap := SAME_WRAP,
       data := blit 0 (replicate (sz_mul (element_count b) (element_size b)) 0) (data b)\<rparr>"

text \<open>The two calls of \<open>malloc\<close> may fail; the second one returns a block of \<open>raw\<close> bytes.\<close>

definition WebRtc_CreateBuffer ::
    "bool \<Rightarrow> (nat \<Rightarrow> int list option) \<Rightarrow> nat \<Rightarrow> nat \<Rightarrow> ring_buffer option" where
  "WebRtc_CreateBuffer malloc_struct malloc_data count sz =
     (if count = 0 \<or> sz = 0 then None
      else if \<not> malloc_struct then None
      else (case malloc_data (sz_mul count sz) of
              None \<Rightarrow> None
            | Some raw \<Rightarrow>
                Some (WebRtc_InitBuffer
                  \<lparr>read_pos = 0, write_pos = 0, element_count = count, element_size = sz,
                   rw_wrap = SAME_WRAP, data = raw\<rparr>)))"

text \<open>The regions: number of elements, first region (offset, bytes), second region
  (\<open>None\<close> for the null pointer, with its number of bytes).\<close>

definition GetBufferReadRegions ::
    "ring_buffer \<Rightarrow> nat \<Rightarrow> nat \<times> (nat \<times> nat) \<times> (nat option \<times> nat)" where
  "GetBufferReadRegions buf count =
     (let readable_elements = WebRtc_available_read (Some buf);
          read_elements = (if readable_elements < count then readable_elements else count);
          margin = sz_sub (element_count buf) (read_pos buf)
      in if read_elements > margin
         then (read_elements,
               (read_pos buf * element_size buf, margin * element_size buf),
               (Some 0, (read_elements - margin) * element_size buf))
         else (read_elements,
               (read_pos buf * element_size buf, read_elements * element_size buf),
               (None, 0)))"

definition WebRtc_MoveReadPtr ::
    "ring_buffer option \<Rightarrow> int \<Rightarrow> ring_buffer option \<times> int" where
  "WebRtc_MoveReadPtr self count =
     (case self of
        None \<Rightarrow> (None, 0)
      | Some b \<Rightarrow>
          (let free_elements = to_i32 (int (WebRtc_available_write self));
               readable_elements = to_i32 (int (WebRtc_available_read self));
               pos = to_i32 (int (read_pos b));
               n = (if count > readable_elements then readable_elements else count);
               n = (if n < - free_elements then - free_elements else n);
               pos = to_i32 (pos + n);
               (pos, wrap) =
                 (if pos > to_i32 (int (element_count b))
                  then (to_i32 (pos - to_i32 (int (element_count b))), SAME_WRAP)
                  else (pos, rw_wrap b));
               (pos, wrap) =
                 (if pos < 0 then (to_i32 (pos + to_i32 (int (element_count b))), DIFF_WRAP)
                  else (pos, wrap))
           in (Some (b\<lparr>read_pos := nat pos, rw_wrap := wrap\<rparr>), n)))"

text \<open>Where the caller's \<open>data_ptr\<close> points after a read: nowhere, at the caller's own
  \<open>data\<close>, or into the buffer at a byte offset.\<close>

datatype read_ptr = PtrNull | PtrData | PtrInternal nat

text \<open>Arguments: the buffer, whether \<open>data_ptr\<close> is non-null, the caller's \<open>data\<close> (\<open>None\<close> for
  null) and the number of elements. Result: buffer, \<open>data\<close>, \<open>*data_ptr\<close>, elements read.\<close>

definition WebRtc_ReadBuffer ::
    "ring_buffer option \<Rightarrow> bool \<Rightarrow> int list option \<Rightarrow> nat
     \<Rightarrow> ring_buffer option \<times> int list option \<times> read_ptr option \<times> nat" where
  "WebRtc_ReadBuffer self data_ptr dest count =
     (case (self, dest) of
        (Some b, Some dst) \<Rightarrow>
          (let (read_count, (ptr1, bytes1), (ptr2, bytes2)) = GetBufferReadRegions b count;
               region1 = take bytes1 (drop ptr1 (data b));
               (dst', buf_ptr_1) =
                 (if bytes2 > 0
                  then (blit bytes1 (take bytes2 (drop (the ptr2) (data b))) (blit 0 region1 dst),
                        PtrData)
                  else if \<not> data_ptr then (blit 0 region1 dst, PtrInternal ptr1)
                  else (dst, PtrInternal ptr1));
               out_ptr = (if data_ptr
                          then Some (if read_count = 0 then PtrNull else buf_ptr_1)
                          else None);
               (self', moved) = WebRtc_MoveReadPtr self (to_i32 (int read_count))
           in (self', Some dst', out_ptr, read_count))
      | _ \<Rightarrow> (self, dest, None, 0))"

definition WebRtc_WriteBuffer ::
    "ring_buffer option \<Rightarrow> int list option \<Rightarrow> nat \<Rightarrow> ring_buffer option \<times> nat" where
  "WebRtc_WriteBuffer self src count =
     (case (self, src) of
        (Some b, Some xs) \<Rightarrow>
          (let free_elements = WebRtc_available_write self;
               write_elements = (if free_elements < count then free_elements else count);
               margin = sz_sub (element_count b) (write_pos b);
               es = element_size b;
               (b1, n) =
                 (if write_elements > margin
                  then (b\<lparr>data := blit (write_pos b * es) (take (margin * es) xs) (data b),
                          write_pos := 0, rw_wrap := DIFF_WRAP\<rparr>,
                        write_elements - margin)
                  else (b, write_elements));
               b2 = b1\<lparr>data := blit (write_pos b1 * es)
                               (take (n * es) (drop ((write_elements - n) * es) xs)) (data b1),
                       write_pos := write_pos b1 + n\<rparr>
           in (Some b2, write_elements))
      | _ \<Rightarrow> (self, 0))"

section \<open>Invariant and abstraction\<close>

definition rb_inv :: "ring_buffer \<Rightarrow> bool" where
  "rb_inv b \<longleftrightarrow>
     0 < element_count b \<and> 0 < element_size b \<and> element_count b \<le> 1073741823 \<and>
     length (data b) = element_count b * element_size b \<and>
     read_pos b \<le> element_count b \<and> write_pos b \<le> element_count b \<and>
     (if rw_wrap b = SAME_WRAP then read_pos b \<le> write_pos b else write_pos b \<le> read_pos b)"

definition rb_avail :: "ring_buffer \<Rightarrow> nat" where
  "rb_avail b = WebRtc_available_read (Some b)"

definition rb_tape :: "ring_buffer \<Rightarrow> int list" where
  "rb_tape b = drop (read_pos b * element_size b) (data b)
             @ take (read_pos b * element_size b) (data b)"

definition rb_content :: "ring_buffer \<Rightarrow> int list" where
  "rb_content b = take (rb_avail b * element_size b) (rb_tape b)"

lemma rb_invD:
  assumes "rb_inv b"
  shows "0 < element_count b" "0 < element_size b" "element_count b \<le> 1073741823"
    "length (data b) = element_count b * element_size b"
    "read_pos b \<le> element_count b" "write_pos b \<le> element_count b"
    "rw_wrap b = SAME_WRAP \<Longrightarrow> read_pos b \<le> write_pos b"
    "rw_wrap b = DIFF_WRAP \<Longrightarrow> write_pos b \<le> read_pos b"
  using assms by (auto simp: rb_inv_def)

lemma rb_avail_eq:
  "rb_inv b \<Longrightarrow> rb_avail b =
     (if rw_wrap b = SAME_WRAP then write_pos b - read_pos b
      else element_count b - read_pos b + write_pos b)"
  by (simp add: rb_avail_def WebRtc_available_read_def rb_inv_def)

lemma rb_avail_le: "rb_inv b \<Longrightarrow> rb_avail b \<le> element_count b"
  by (cases "rw_wrap b") (auto simp: rb_avail_eq rb_inv_def)

lemma rb_free_eq: "rb_inv b \<Longrightarrow> WebRtc_available_write (Some b) = element_count b - rb_avail b"
  using rb_avail_le [of b] by (simp add: WebRtc_available_write_def rb_avail_def)

lemma length_rb_tape: "rb_inv b \<Longrightarrow> length (rb_tape b) = element_count b * element_size b"
  by (simp add: rb_tape_def rb_inv_def)

lemma length_rb_content: "rb_inv b \<Longrightarrow> length (rb_content b) = rb_avail b * element_size b"
  using rb_avail_le [of b] by (simp add: rb_content_def length_rb_tape)

section \<open>The tape\<close>

text \<open>Byte-level facts about the tape \<open>drop R d @ take R d\<close>: a block written behind the
  readable part, in front of the read position, or split over the end of the array.\<close>

lemma tape_write_after:
  assumes "R + A + length xs \<le> length d"
  shows "drop R (blit (R + A) xs d) @ take R (blit (R + A) xs d)
       = blit A xs (drop R d @ take R d)"
  using assms by (simp add: blit_def take_drop min_def add.commute add.left_commute)

lemma tape_write_before:
  assumes "W + length xs \<le> R" "R \<le> length d"
  shows "drop R (blit W xs d) @ take R (blit W xs d)
       = blit (length d - R + W) xs (drop R d @ take R d)"
proof (cases "xs = []")
  case False
  then have "0 < length xs" by simp
  with assms have "W < R" by linarith
  with assms show ?thesis
    by (simp add: blit_def take_drop min_def add.commute add.left_commute)
qed simp

lemma blit_append:
  assumes "off + length xs + length ys \<le> length d"
  shows "blit off (xs @ ys) d = blit (off + length xs) ys (blit off xs d)"
proof (cases "xs = []")
  case False
  then have "0 < length xs" by simp
  with assms have "off < length d" by linarith
  with assms show ?thesis by (simp add: blit_def min_def add.commute add.left_commute)
qed simp

lemma tape_write_wrap:
  assumes "R \<le> length d" "R + A \<le> length d" "length d \<le> R + A + length xs" "A + length xs \<le> length d"
  shows "drop R (blit 0 (drop (length d - (R + A)) xs) (blit (R + A) (take (length d - (R + A)) xs) d))
       @ take R (blit 0 (drop (length d - (R + A)) xs) (blit (R + A) (take (length d - (R + A)) xs) d))
       = blit A xs (drop R d @ take R d)"
proof -
  let ?m = "length d - (R + A)"
  let ?d1 = "blit (R + A) (take ?m xs) d"
  have len: "length ?d1 = length d" using assms by (subst length_blit) auto
  have "drop R (blit 0 (drop ?m xs) ?d1) @ take R (blit 0 (drop ?m xs) ?d1)
      = blit (length d - R + 0) (drop ?m xs) (drop R ?d1 @ take R ?d1)"
    using tape_write_before [of 0 "drop ?m xs" R ?d1] assms by (simp add: len)
  also have "drop R ?d1 @ take R ?d1 = blit A (take ?m xs) (drop R d @ take R d)"
    using assms by (intro tape_write_after) auto
  also have "blit (length d - R + 0) (drop ?m xs) (blit A (take ?m xs) (drop R d @ take R d))
           = blit A (take ?m xs @ drop ?m xs) (drop R d @ take R d)"
    using assms by (subst blit_append) (auto simp: min_def)
  finally show ?thesis by simp
qed

lemma tape_rotate:
  assumes "R + k \<le> length d"
  shows "drop (R + k) d @ take (R + k) d = rotate k (drop R d @ take R d)"
proof (cases "k = length d")
  case False
  with assms show ?thesis by (simp add: rotate_drop_take take_add add.commute)
qed (use assms in simp)

section \<open>Refinement of the operations\<close>

lemma mult_le_cancel: "a \<le> b \<Longrightarrow> a * (e :: nat) \<le> b * e" by simp


lemma min_if: "(if a < b then a else b) = min a (b :: nat)" by (simp add: min_def)

lemma mult_diff_le: "a \<le> b \<Longrightarrow> b * e - a * e = (b - a) * (e :: nat)"
  by (simp add: diff_mult_distrib)

text \<open>Writing: the accepted elements go behind the readable part of the tape.\<close>

lemma WriteBuffer_wrapped:
  assumes inv: "rb_inv b" and k: "rb_avail b + k \<le> element_count b"
    and wrap: "element_count b - write_pos b < k" and kxs: "k * element_size b \<le> length xs"
  defines "m \<equiv> element_count b - write_pos b"
  defines "b' \<equiv> b\<lparr>rw_wrap := DIFF_WRAP,
    data := blit 0 (take ((k - m) * element_size b) (drop (m * element_size b) xs))
      (blit (write_pos b * element_size b) (take (m * element_size b) xs) (data b)),
    write_pos := k - m\<rparr>"
  shows "rb_inv b' \<and> rb_avail b' = rb_avail b + k \<and>
    rb_tape b' = blit (rb_avail b * element_size b) (take (k * element_size b) xs) (rb_tape b)"
proof -
  note D = rb_invD [OF inv]
  let ?N = "element_count b" and ?e = "element_size b" and ?r = "read_pos b" and ?w = "write_pos b"
  have same: "rw_wrap b = SAME_WRAP" "?r \<le> ?w" "rb_avail b = ?w - ?r"
    using wrap k D by (cases "rw_wrap b"; auto simp: rb_avail_eq [OF inv])+
  have mk: "m \<le> k" "k - m \<le> ?r" "m + ?w = ?N" using wrap k same D by (auto simp: m_def)
  have "k - m \<le> ?N" using mk D(5) by linarith
  then have "(k - m) * ?e \<le> ?N * ?e" by (rule mult_le_mono1)
  with mk(1) have me: "(k - m) * ?e \<le> ?N * ?e" "m * ?e \<le> k * ?e" "(k - m) * ?e = k * ?e - m * ?e"
    by (simp_all add: diff_mult_distrib)
  have "?r + rb_avail b = ?w" using same by simp
  then have we: "?r * ?e + rb_avail b * ?e = ?w * ?e" by (simp flip: add_mult_distrib)
  have we': "?N * ?e - ?w * ?e = m * ?e" "?r * ?e \<le> ?w * ?e" "?w * ?e \<le> ?N * ?e"
    using same D by (simp_all add: m_def diff_mult_distrib)
  have wm: "?w * ?e + m * ?e = ?N * ?e" using mk(3) by (simp add: add.commute flip: add_mult_distrib)
  have ke: "rb_avail b * ?e + k * ?e \<le> ?N * ?e"
    using k by (simp flip: add_mult_distrib)
  have len: "length (blit (?w * ?e) (take (m * ?e) xs) (data b)) = length (data b)"
    using wm D(4) by (subst length_blit) auto
  have inv': "rb_inv b'"
    using D mk me kxs by (auto simp: rb_inv_def b'_def len length_blit)
  have av: "rb_avail b' = rb_avail b + k"
    using mk same D by (subst rb_avail_eq [OF inv']) (auto simp: b'_def m_def)
  have tk: "take ((k - m) * ?e) (drop (m * ?e) xs) = drop (m * ?e) (take (k * ?e) xs)"
    by (simp add: me drop_take)
  have tk2: "take (m * ?e) xs = take (m * ?e) (take (k * ?e) xs)"
    using me by (simp add: min_absorb1)
  have "rb_tape b' = blit (rb_avail b * ?e) (take (k * ?e) xs) (rb_tape b)"
  proof -
    have lk: "length (take (k * ?e) xs) = k * ?e" using kxs by simp
    have lm: "length (data b) - (?r * ?e + rb_avail b * ?e) = m * ?e"
      by (simp only: we we' D(4))
    have "?w * ?e + m * ?e \<le> ?w * ?e + k * ?e" using me(2) by (rule add_left_mono)
    then have "length (data b) \<le> ?r * ?e + rb_avail b * ?e + length (take (k * ?e) xs)"
      by (simp only: wm D(4) we lk)
    moreover have "?r * ?e \<le> length (data b)" "?r * ?e + rb_avail b * ?e \<le> length (data b)"
        "rb_avail b * ?e + length (take (k * ?e) xs) \<le> length (data b)"
      using we'(2,3) ke by (simp_all only: D(4) we lk)
    ultimately show ?thesis
      using tape_write_wrap [of "?r * ?e" "data b" "rb_avail b * ?e" "take (k * ?e) xs"]
      unfolding lm unfolding we by (simp add: rb_tape_def b'_def tk tk2)
  qed
  with inv' av show ?thesis by blast
qed

lemma WriteBuffer_straight:
  assumes inv: "rb_inv b" and k: "rb_avail b + k \<le> element_count b"
    and wrap: "k \<le> element_count b - write_pos b" and kxs: "k * element_size b \<le> length xs"
  defines "b' \<equiv> b\<lparr>data := blit (write_pos b * element_size b) (take (k * element_size b) xs) (data b),
    write_pos := write_pos b + k\<rparr>"
  shows "rb_inv b' \<and> rb_avail b' = rb_avail b + k \<and>
    rb_tape b' = blit (rb_avail b * element_size b) (take (k * element_size b) xs) (rb_tape b)"
proof -
  note D = rb_invD [OF inv]
  let ?N = "element_count b" and ?e = "element_size b" and ?r = "read_pos b" and ?w = "write_pos b"
  have fit: "?w + k \<le> ?N" using wrap D by linarith
  then have fite: "?w * ?e + k * ?e \<le> length (data b)" by (simp add: D(4) flip: add_mult_distrib)
  have diff: "?w + k \<le> ?r" if "rw_wrap b = DIFF_WRAP"
    using that k D(5,8) by (simp add: rb_avail_eq [OF inv])
  have inv': "rb_inv b'"
    using D fit fite kxs diff by (cases "rw_wrap b") (auto simp: rb_inv_def b'_def length_blit)
  have av: "rb_avail b' = rb_avail b + k"
    using D by (subst rb_avail_eq [OF inv'], subst rb_avail_eq [OF inv]) (auto simp: b'_def)
  have "rb_tape b' = blit (rb_avail b * ?e) (take (k * ?e) xs) (rb_tape b)"
  proof (cases "rw_wrap b")
    case SAME_WRAP
    then have "?r * ?e + rb_avail b * ?e = ?w * ?e"
      using D(7) by (simp add: rb_avail_eq [OF inv] flip: add_mult_distrib)
    then show ?thesis
      using tape_write_after [of "?r * ?e" "rb_avail b * ?e" "take (k * ?e) xs" "data b"] fite kxs
      by (simp add: rb_tape_def b'_def)
  next
    case DIFF_WRAP
    then have "?w * ?e + k * ?e \<le> ?r * ?e" using diff by (simp flip: add_mult_distrib)
    moreover have "rb_avail b * ?e = ?N * ?e - ?r * ?e + ?w * ?e"
      using DIFF_WRAP by (simp add: rb_avail_eq [OF inv] diff_mult_distrib add_mult_distrib)
    ultimately show ?thesis
      using tape_write_before [of "?w * ?e" "take (k * ?e) xs" "?r * ?e" "data b"] kxs D(4,5)
      by (simp add: rb_tape_def b'_def)
  qed
  with inv' av show ?thesis by blast
qed

lemma WriteBuffer_refines:
  assumes inv: "rb_inv b" and len: "count * element_size b \<le> length xs"
  defines "k \<equiv> min (element_count b - rb_avail b) count"
  shows "\<exists>b'. WebRtc_WriteBuffer (Some b) (Some xs) count = (Some b', k) \<and>
    rb_inv b' \<and> element_count b' = element_count b \<and> element_size b' = element_size b \<and>
    rb_avail b' = rb_avail b + k \<and>
    rb_tape b' = blit (rb_avail b * element_size b) (take (k * element_size b) xs) (rb_tape b)"
proof -
  note D = rb_invD [OF inv]
  have k: "rb_avail b + k \<le> element_count b" using rb_avail_le [OF inv] by (auto simp: k_def)
  have kxs: "k * element_size b \<le> length xs"
  proof -
    have "k \<le> count" by (simp add: k_def)
    then have "k * element_size b \<le> count * element_size b" by (rule mult_le_mono1)
    with len show ?thesis by linarith
  qed
  have kk: "(if WebRtc_available_write (Some b) < count
             then WebRtc_available_write (Some b) else count) = k"
    by (simp add: rb_free_eq [OF inv] k_def)
  show ?thesis
  proof (cases "element_count b - write_pos b < k")
    case True
    then show ?thesis
      using WriteBuffer_wrapped [OF inv k True kxs] D(6)
      by (simp add: WebRtc_WriteBuffer_def kk Let_def del: diff_diff_right)
  next
    case False
    then show ?thesis
      using WriteBuffer_straight [OF inv k _ kxs] D(6)
      by (simp add: WebRtc_WriteBuffer_def kk Let_def)
  qed
qed

text \<open>Moving the read pointer rotates the tape: forwards when flushing, backwards when
  stuffing.\<close>

definition move_clamp :: "ring_buffer \<Rightarrow> int \<Rightarrow> int" where
  "move_clamp b m = max (- int (element_count b - rb_avail b)) (min (int (rb_avail b)) m)"

lemma int_i32: "n \<le> 2147483647 \<Longrightarrow> to_i32 (int n) = int n"
  by (simp add: to_i32_id is_i32_def)

lemma MoveReadPtr_fwd:
  assumes inv: "rb_inv b" and k: "k \<le> rb_avail b"
  defines "p \<equiv> (if element_count b < read_pos b + k then read_pos b + k - element_count b
                 else read_pos b + k)"
  defines "b' \<equiv> b\<lparr>read_pos := p,
    rw_wrap := (if element_count b < read_pos b + k then SAME_WRAP else rw_wrap b)\<rparr>"
  shows "rb_inv b' \<and> rb_avail b' = rb_avail b - k \<and>
    rb_tape b' = rotate (k * element_size b) (rb_tape b)"
proof -
  note D = rb_invD [OF inv]
  let ?N = "element_count b" and ?e = "element_size b" and ?r = "read_pos b"
  have inv': "rb_inv b'"
    using D k by (cases "rw_wrap b") (auto simp: rb_inv_def b'_def p_def rb_avail_eq [OF inv])
  have av: "rb_avail b' = rb_avail b - k"
    using D k by (subst rb_avail_eq [OF inv'], cases "rw_wrap b")
      (auto simp: b'_def p_def rb_avail_eq [OF inv])
  have tape: "rb_tape b' = drop (p * ?e) (data b) @ take (p * ?e) (data b)"
    by (simp add: rb_tape_def b'_def)
  have "rb_tape b' = rotate (k * ?e) (rb_tape b)"
  proof (cases "?N < ?r + k")
    case False
    then have "?r * ?e + k * ?e \<le> length (data b)"
      using D(4) by (simp flip: add_mult_distrib)
    then have "drop (?r * ?e + k * ?e) (data b) @ take (?r * ?e + k * ?e) (data b)
        = rotate (k * ?e) (rb_tape b)"
      unfolding rb_tape_def by (rule tape_rotate)
    with False show ?thesis by (simp add: tape p_def add_mult_distrib)
  next
    case True
    have "p + (?N - ?r) = k" "?r + (?N - ?r) = ?N" "p \<le> ?N"
      using True D k rb_avail_le [OF inv] by (auto simp: p_def)
    then have eqs: "p * ?e + (?N - ?r) * ?e = k * ?e" "?r * ?e + (?N - ?r) * ?e = length (data b)"
        "p * ?e \<le> length (data b)"
      by (simp_all only: D(4) mult_le_mono1 flip: add_mult_distrib)
    have "rotate (k * ?e) (rb_tape b) = rotate (p * ?e) (rotate ((?N - ?r) * ?e) (rb_tape b))"
      by (simp add: rotate_rotate eqs)
    also have "rotate ((?N - ?r) * ?e) (rb_tape b) = data b"
      using tape_rotate [of "?r * ?e" "(?N - ?r) * ?e" "data b"]
      by (simp add: eqs rb_tape_def)
    also have "rotate (p * ?e) (data b) = rb_tape b'"
      using tape_rotate [of 0 "p * ?e" "data b"] eqs by (simp add: tape)
    finally show ?thesis by simp
  qed
  with inv' av show ?thesis by blast
qed

lemma MoveReadPtr_back:
  assumes inv: "rb_inv b" and k: "k \<le> element_count b - rb_avail b"
  defines "p \<equiv> (if read_pos b < k then read_pos b + element_count b - k else read_pos b - k)"
  defines "b' \<equiv> b\<lparr>read_pos := p, rw_wrap := (if read_pos b < k then DIFF_WRAP else rw_wrap b)\<rparr>"
  shows "rb_inv b' \<and> rb_avail b' = rb_avail b + k \<and>
    rotate (k * element_size b) (rb_tape b') = rb_tape b"
proof -
  note D = rb_invD [OF inv]
  let ?N = "element_count b" and ?e = "element_size b" and ?r = "read_pos b"
  have inv': "rb_inv b'"
    using D k by (cases "rw_wrap b") (auto simp: rb_inv_def b'_def p_def rb_avail_eq [OF inv])
  have av: "rb_avail b' = rb_avail b + k"
    using D k by (subst rb_avail_eq [OF inv'], cases "rw_wrap b")
      (auto simp: b'_def p_def rb_avail_eq [OF inv])
  have tape: "rb_tape b' = drop (p * ?e) (data b) @ take (p * ?e) (data b)"
    by (simp add: rb_tape_def b'_def)
  have "rotate (k * ?e) (rb_tape b') = rb_tape b"
  proof (cases "?r < k")
    case False
    then have "p + k = ?r" by (simp add: p_def)
    then have pk: "p * ?e + k * ?e = ?r * ?e" by (simp flip: add_mult_distrib)
    moreover have "?r * ?e \<le> length (data b)" using D(4,5) by simp
    ultimately have "drop (?r * ?e) (data b) @ take (?r * ?e) (data b)
        = rotate (k * ?e) (drop (p * ?e) (data b) @ take (p * ?e) (data b))"
      using tape_rotate [of "p * ?e" "k * ?e" "data b"] by simp
    then show ?thesis by (simp only: tape rb_tape_def [of b])
  next
    case True
    have "?r + (?N - p) = k" "p + (?N - p) = ?N"
      using True D k by (auto simp: p_def)
    then have eqs: "?r * ?e + (?N - p) * ?e = k * ?e" "p * ?e + (?N - p) * ?e = length (data b)"
      by (simp_all only: D(4) flip: add_mult_distrib)
    have "rotate (k * ?e) (rb_tape b') = rotate (?r * ?e) (rotate ((?N - p) * ?e) (rb_tape b'))"
      by (simp add: rotate_rotate eqs)
    also have "rotate ((?N - p) * ?e) (rb_tape b') = data b"
      using tape_rotate [of "p * ?e" "(?N - p) * ?e" "data b"] by (simp add: eqs tape)
    also have "rotate (?r * ?e) (data b) = rb_tape b"
      using tape_rotate [of 0 "?r * ?e" "data b"] D(4,5) by (simp add: rb_tape_def)
    finally show ?thesis .
  qed
  with inv' av show ?thesis by blast
qed

lemma MoveReadPtr_refines:
  assumes inv: "rb_inv b" and m: "- 1073741824 \<le> m" "m \<le> 1073741824"
  shows "\<exists>b'. WebRtc_MoveReadPtr (Some b) m = (Some b', move_clamp b m) \<and> rb_inv b' \<and>
    element_count b' = element_count b \<and> element_size b' = element_size b \<and>
    int (rb_avail b') = int (rb_avail b) - move_clamp b m \<and>
    (if 0 \<le> move_clamp b m
     then rb_tape b' = rotate (nat (move_clamp b m) * element_size b) (rb_tape b)
     else rotate (nat (- move_clamp b m) * element_size b) (rb_tape b') = rb_tape b)"
proof -
  note D = rb_invD [OF inv]
  let ?N = "element_count b" and ?r = "read_pos b" and ?c = "move_clamp b m"
  have A: "rb_avail b \<le> ?N" by (rule rb_avail_le [OF inv])
  have c: "- int (?N - rb_avail b) \<le> ?c" "?c \<le> int (rb_avail b)" by (auto simp: move_clamp_def)
  have i32: "to_i32 (int (WebRtc_available_write (Some b))) = int (?N - rb_avail b)"
      "to_i32 (int (WebRtc_available_read (Some b))) = int (rb_avail b)"
      "to_i32 (int ?r) = int ?r" "to_i32 (int ?N) = int ?N"
    using D A by (simp_all add: rb_free_eq [OF inv] int_i32 del: of_nat_diff flip: rb_avail_def)
  have clamp: "(if (if m > int (rb_avail b) then int (rb_avail b) else m) < - int (?N - rb_avail b)
      then - int (?N - rb_avail b) else (if m > int (rb_avail b) then int (rb_avail b) else m)) = ?c"
    by (auto simp: move_clamp_def)
  have sum: "to_i32 (int ?r + ?c) = int ?r + ?c"
      "to_i32 (int ?r + ?c - int ?N) = int ?r + ?c - int ?N"
      "int ?r + ?c < 0 \<Longrightarrow> to_i32 (int ?r + ?c + int ?N) = int ?r + ?c + int ?N"
    using c D A by (auto intro!: to_i32_id simp: is_i32_def)
  show ?thesis
  proof (cases "0 \<le> ?c")
    case True
    then obtain k where k: "?c = int k" "k \<le> rb_avail b" using c(2) by (metis nonneg_int_cases of_nat_le_iff)
    note s = sum [unfolded k(1)]
    have "nat (int ?r + int k - int ?N) = ?r + k - ?N" "nat (int ?r + int k) = ?r + k"
        "int ?N < int ?r + int k \<longleftrightarrow> ?N < ?r + k" "?N < ?r + k \<Longrightarrow> \<not> int ?r + int k - int ?N < 0"
      by linarith+
    then have "WebRtc_MoveReadPtr (Some b) m = (Some (b
        \<lparr>read_pos := (if ?N < ?r + k then ?r + k - ?N else ?r + k),
         rw_wrap := (if ?N < ?r + k then SAME_WRAP else rw_wrap b)\<rparr>), int k)"
      by (simp add: WebRtc_MoveReadPtr_def Let_def i32 clamp k(1) s(1,2))
    with MoveReadPtr_fwd [OF inv k(2)] k show ?thesis by simp
  next
    case False
    then obtain k where k: "?c = - int k" "0 < k" "k \<le> ?N - rb_avail b"
      using c(1) by (metis linorder_not_le neg_int_cases neg_le_iff_le of_nat_le_iff)
    note s = sum [unfolded k(1)]
    have "nat (int ?r - int k + int ?N) = ?r + ?N - k" "nat (int ?r - int k) = ?r - k"
        "int ?r - int k < 0 \<longleftrightarrow> ?r < k" "\<not> int ?N < int ?r - int k"
      using D(5) k(3) by linarith+
    then have "WebRtc_MoveReadPtr (Some b) m = (Some (b
        \<lparr>read_pos := (if ?r < k then ?r + ?N - k else ?r - k),
         rw_wrap := (if ?r < k then DIFF_WRAP else rw_wrap b)\<rparr>), - int k)"
      using s by (simp add: WebRtc_MoveReadPtr_def Let_def i32 clamp k(1))
    with MoveReadPtr_back [OF inv k(3)] k show ?thesis by simp
  qed
qed

text \<open>Reading: the caller sees the first elements of the content, either through
  \<open>*data_ptr\<close> or in its own buffer.\<close>

definition read_view :: "ring_buffer \<Rightarrow> int list \<Rightarrow> read_ptr option \<Rightarrow> nat \<Rightarrow> int list" where
  "read_view b dst ptr n =
     (case ptr of
        None \<Rightarrow> take n dst
      | Some PtrNull \<Rightarrow> []
      | Some PtrData \<Rightarrow> take n dst
      | Some (PtrInternal off) \<Rightarrow> take n (drop off (data b)))"

lemma rb_content_drop:
  assumes "rb_inv b" "rb_inv b'" "k \<le> rb_avail b" "rb_avail b' = rb_avail b - k"
    "element_size b' = element_size b" "rb_tape b' = rotate (k * element_size b) (rb_tape b)"
  shows "rb_content b' = drop (k * element_size b) (rb_content b)"
proof (cases "k * element_size b = length (rb_tape b)")
  case True
  have "rb_avail b * element_size b \<le> element_count b * element_size b"
    by (rule mult_le_mono1) (rule rb_avail_le [OF assms(1)])
  then have "rb_avail b * element_size b \<le> k * element_size b"
    by (simp only: True length_rb_tape [OF assms(1)])
  then have "rb_avail b' = 0" using assms(3,4) rb_invD(2) [OF assms(1)] by simp
  moreover have "length (rb_content b) \<le> k * element_size b"
    using length_rb_content [OF assms(1)] \<open>rb_avail b * element_size b \<le> k * element_size b\<close> by simp
  ultimately show ?thesis by (simp add: rb_content_def [of b'])
next
  case False
  have "k * element_size b \<le> rb_avail b * element_size b" using assms(3) by simp
  moreover have "rb_avail b * element_size b \<le> length (rb_tape b)"
    using rb_avail_le [OF assms(1)] by (simp add: length_rb_tape [OF assms(1)])
  ultimately have "k * element_size b < length (rb_tape b)"
    using False by linarith
  moreover have "(rb_avail b - k) * element_size b \<le> length (rb_tape b) - k * element_size b"
    using \<open>rb_avail b * element_size b \<le> length (rb_tape b)\<close>
    by (simp only: diff_mult_distrib diff_le_mono)
  ultimately have "k * element_size b < length (rb_tape b)"
      "(rb_avail b - k) * element_size b \<le> length (rb_tape b) - k * element_size b" by blast+
  then have "take ((rb_avail b - k) * element_size b) (rotate (k * element_size b) (rb_tape b))
      = take ((rb_avail b - k) * element_size b) (drop (k * element_size b) (rb_tape b))"
    by (simp add: rotate_drop_take)
  then show ?thesis
    using assms by (simp add: rb_content_def drop_take diff_mult_distrib)
qed

lemma regions_view:
  assumes inv: "rb_inv b" and k: "k \<le> rb_avail b"
  shows "k \<le> element_count b - read_pos b \<Longrightarrow>
      take (k * element_size b) (drop (read_pos b * element_size b) (data b))
      = take (k * element_size b) (rb_content b)"
    and "element_count b - read_pos b < k \<Longrightarrow>
      take ((element_count b - read_pos b) * element_size b)
        (drop (read_pos b * element_size b) (data b))
      @ take ((k - (element_count b - read_pos b)) * element_size b) (data b)
      = take (k * element_size b) (rb_content b)"
proof -
  note D = rb_invD [OF inv]
  let ?e = "element_size b" and ?m = "element_count b - read_pos b"
  have c: "take (k * ?e) (rb_content b) = take (k * ?e) (rb_tape b)"
    using k by (simp add: rb_content_def min_def)
  have l: "length (drop (read_pos b * ?e) (data b)) = ?m * ?e"
    using D(4,5) by (simp add: diff_mult_distrib)
  show "take (k * ?e) (drop (read_pos b * ?e) (data b)) = take (k * ?e) (rb_content b)" if "k \<le> ?m"
  proof -
    have "k * ?e \<le> ?m * ?e" using that by (rule mult_le_mono1)
    then show ?thesis using l by (simp add: c rb_tape_def)
  qed
  show "take (?m * ?e) (drop (read_pos b * ?e) (data b)) @ take ((k - ?m) * ?e) (data b)
      = take (k * ?e) (rb_content b)" if less: "?m < k"
  proof -
    have "k \<le> element_count b" using k rb_avail_le [OF inv] by linarith
    then have "k - ?m \<le> read_pos b" using D(5) by linarith
    then have "(k - ?m) * ?e \<le> read_pos b * ?e" by (rule mult_le_mono1)
    moreover have "k * ?e - ?m * ?e = (k - ?m) * ?e" by (simp only: diff_mult_distrib)
    moreover have "?m * ?e \<le> k * ?e" using less by (intro mult_le_mono1) simp
    moreover have "take (k * ?e) (drop (read_pos b * ?e) (data b)) = drop (read_pos b * ?e) (data b)"
      using \<open>?m * ?e \<le> k * ?e\<close> by (intro take_all) (simp only: l)
    moreover have "take (?m * ?e) (drop (read_pos b * ?e) (data b)) = drop (read_pos b * ?e) (data b)"
      by (intro take_all) (simp only: l)
    ultimately show ?thesis
      unfolding c rb_tape_def take_append l by (simp add: min_absorb1 del: mult_le_cancel2)
  qed
qed

lemma ReadBuffer_refines:
  assumes inv: "rb_inv b" and dst: "count * element_size b \<le> length dst"
  defines "k \<equiv> min (rb_avail b) count"
  shows "\<exists>b' dst' ptr. WebRtc_ReadBuffer (Some b) dp (Some dst) count = (Some b', Some dst', ptr, k) \<and>
    rb_inv b' \<and> element_count b' = element_count b \<and> element_size b' = element_size b \<and>
    rb_avail b' = rb_avail b - k \<and> length dst' = length dst \<and> (ptr = None \<longleftrightarrow> \<not> dp) \<and>
    rb_tape b' = rotate (k * element_size b) (rb_tape b) \<and>
    rb_content b' = drop (k * element_size b) (rb_content b) \<and>
    read_view b' dst' ptr (k * element_size b) = take (k * element_size b) (rb_content b)"
proof -
  note D = rb_invD [OF inv]
  let ?e = "element_size b" and ?m = "element_count b - read_pos b" and ?r = "read_pos b"
  have A: "rb_avail b \<le> element_count b" by (rule rb_avail_le [OF inv])
  have k: "k \<le> rb_avail b" "k \<le> count" by (auto simp: k_def)
  have ki: "to_i32 (int k) = int k" using k A D(3) by (intro int_i32) linarith
  have cl: "move_clamp b (int k) = int k" using k by (simp add: move_clamp_def)
  obtain b' where b': "WebRtc_MoveReadPtr (Some b) (int k) = (Some b', int k)" "rb_inv b'"
      "element_count b' = element_count b" "element_size b' = ?e" "rb_avail b' = rb_avail b - k"
      "rb_tape b' = rotate (k * ?e) (rb_tape b)"
    using MoveReadPtr_refines [OF inv, of "int k"] k A D(3) by (auto simp: cl)
  have kk: "(if rb_avail b < count then rb_avail b else count) = k" by (simp add: k_def)
  have data': "data b' = data b" using b'(1)
    by (auto simp: WebRtc_MoveReadPtr_def Let_def split: if_splits)
  have kd: "k * ?e \<le> length dst" using k(2) dst mult_le_mono1 [of k count ?e] by linarith
  have content: "rb_content b' = drop (k * ?e) (rb_content b)"
    by (rule rb_content_drop [OF inv b'(2) k(1) b'(5,4,6)])
  show ?thesis
  proof (cases "?m < k")
    case True
    have len: "?m * ?e + (k - ?m) * ?e = k * ?e" using True by (simp flip: add_mult_distrib)
    define dst' where "dst' = blit (?m * ?e) (take ((k - ?m) * ?e) (data b))
        (blit 0 (take (?m * ?e) (drop (?r * ?e) (data b))) dst)"
    have l1: "length (take (?m * ?e) (drop (?r * ?e) (data b))) = ?m * ?e"
      using D(4,5) by (simp add: diff_mult_distrib)
    have "k - ?m \<le> element_count b" using k A by linarith
    then have l2: "length (take ((k - ?m) * ?e) (data b)) = (k - ?m) * ?e" using D(4) by (simp add: mult_le_mono1)
    have dl: "length (blit 0 (take (?m * ?e) (drop (?r * ?e) (data b))) dst) = length dst"
    proof (rule length_blit)
      show "0 + length (take (?m * ?e) (drop (?r * ?e) (data b))) \<le> length dst"
        unfolding l1 using len kd by linarith
    qed
    have "length dst' = length dst"
      unfolding dst'_def dl [symmetric] by (rule length_blit) (simp only: dl l2 len kd)
    moreover have "take (k * ?e) dst' = take (k * ?e) (rb_content b)"
    proof -
      have "dst' = (take (?m * ?e) (drop (?r * ?e) (data b)) @ take ((k - ?m) * ?e) (data b))
          @ drop (k * ?e) (blit 0 (take (?m * ?e) (drop (?r * ?e) (data b))) dst)"
        unfolding dst'_def blit_def [of "?m * ?e"] l2 len
        by (simp only: blit_def [of 0] take_0 append_Nil append_assoc take_append l1 diff_self_eq_0
            append_Nil2 take_all l1 order_refl)
      also have "take (k * ?e) \<dots> = take (k * ?e) (rb_content b)"
        unfolding regions_view(2) [OF inv k(1) True] using length_rb_content [OF inv] k by (simp add: mult_le_mono1)
      finally show ?thesis .
    qed
    moreover have "WebRtc_ReadBuffer (Some b) dp (Some dst) count
        = (Some b', Some dst', (if dp then Some PtrData else None), k)"
    proof -
      have "element_count b < k + ?r" using True by linarith
      then show ?thesis
        using True D(2,5) by (simp add: WebRtc_ReadBuffer_def GetBufferReadRegions_def kk ki b'(1)
          Let_def dst'_def flip: rb_avail_def)
    qed
    ultimately show ?thesis using b' content by (simp add: read_view_def)
  next
    case False
    then have v: "take (k * ?e) (drop (?r * ?e) (data b)) = take (k * ?e) (rb_content b)"
      by (intro regions_view(1) [OF inv k(1)]) simp
    have l: "length (take (k * ?e) (rb_content b)) = k * ?e"
      using length_rb_content [OF inv] k by (simp add: mult_le_mono1)
    show ?thesis
    proof (cases dp)
      case True
      have "WebRtc_ReadBuffer (Some b) dp (Some dst) count
        = (Some b', Some dst, Some (if k = 0 then PtrNull else PtrInternal (?r * ?e)), k)"
        using False True D(2,5) by (simp add: WebRtc_ReadBuffer_def GetBufferReadRegions_def kk ki b'(1)
        Let_def flip: rb_avail_def)
      then show ?thesis using b' content True v by (simp add: read_view_def data')
    next
      case no: False
      have "WebRtc_ReadBuffer (Some b) dp (Some dst) count
        = (Some b', Some (blit 0 (take (k * ?e) (rb_content b)) dst), None, k)"
        using False no D(2,5) by (simp add: WebRtc_ReadBuffer_def GetBufferReadRegions_def kk ki b'(1)
        Let_def v flip: rb_avail_def)
      moreover have "length (blit 0 (take (k * ?e) (rb_content b)) dst) = length dst"
        by (rule length_blit) (simp only: l kd add_0)
      ultimately show ?thesis using b' content no l by (simp add: read_view_def blit_def)
    qed
  qed
qed

section \<open>The queue interface\<close>

text \<open>
  What the users of the buffer rely on: \<open>put\<close> appends a prefix of what it is offered to the
  content, \<open>get\<close> removes and returns a prefix of the content, and a \<open>rewind\<close> straight after
  a \<open>get\<close> gives the removed elements back. Everything else about sequences of calls follows
  once, in the locales.
\<close>

datatype 'a fifo_op = Put "'a list" | Get nat

fun fifo_run :: "('s \<Rightarrow> 'a list \<Rightarrow> 's \<times> nat) \<Rightarrow> ('s \<Rightarrow> nat \<Rightarrow> 's \<times> 'a list) \<Rightarrow> 's \<Rightarrow> 'a fifo_op list
    \<Rightarrow> 's \<times> 'a list \<times> 'a list" where
  "fifo_run put get s [] = (s, [], [])"
| "fifo_run put get s (Put xs # ops) =
     (let (s1, n) = put s xs; (s2, ins, outs) = fifo_run put get s1 ops
      in (s2, take n xs @ ins, outs))"
| "fifo_run put get s (Get n # ops) =
     (let (s1, ys) = get s n; (s2, ins, outs) = fifo_run put get s1 ops
      in (s2, ins, ys @ outs))"

locale byte_fifo =
  fixes put :: "'s \<Rightarrow> 'a list \<Rightarrow> 's \<times> nat"
    and get :: "'s \<Rightarrow> nat \<Rightarrow> 's \<times> 'a list"
    and content :: "'s \<Rightarrow> 'a list"
    and inv :: "'s \<Rightarrow> bool"
  assumes put_law: "inv s \<Longrightarrow> put s xs = (s', n) \<Longrightarrow>
      inv s' \<and> content s' = content s @ take n xs"
    and get_law: "inv s \<Longrightarrow> get s m = (s', ys) \<Longrightarrow> inv s' \<and> content s = ys @ content s'"
begin

lemma run_conserves:
  "inv s \<Longrightarrow> fifo_run put get s ops = (s', ins, outs) \<Longrightarrow>
   inv s' \<and> content s @ ins = outs @ content s'"
proof (induction ops arbitrary: s ins outs)
  case (Cons op ops)
  show ?case
  proof (cases op)
    case (Put xs)
    obtain s1 n where p: "put s xs = (s1, n)" by fastforce
    obtain ins1 where r: "fifo_run put get s1 ops = (s', ins1, outs)" "ins = take n xs @ ins1"
      using Cons.prems Put p by (auto split: prod.splits)
    from put_law [OF Cons.prems(1) p] Cons.IH [OF _ r(1)] r(2) show ?thesis by simp
  next
    case (Get n)
    obtain s1 ys where g: "get s n = (s1, ys)" by fastforce
    obtain outs1 where r: "fifo_run put get s1 ops = (s', ins, outs1)" "outs = ys @ outs1"
      using Cons.prems Get g by (auto split: prod.splits)
    from get_law [OF Cons.prems(1) g] Cons.IH [OF _ r(1)] r(2) show ?thesis by simp
  qed
qed simp

end

locale rewindable_fifo = byte_fifo put get content inv
  for put :: "'s \<Rightarrow> 'a list \<Rightarrow> 's \<times> nat" and get :: "'s \<Rightarrow> nat \<Rightarrow> 's \<times> 'a list"
    and content :: "'s \<Rightarrow> 'a list" and inv :: "'s \<Rightarrow> bool" +
  fixes rewind :: "'s \<Rightarrow> 'a list \<Rightarrow> 's"
  assumes rewind_law: "inv s \<Longrightarrow> get s m = (s', ys) \<Longrightarrow>
      inv (rewind s' ys) \<and> content (rewind s' ys) = content s"
begin

lemma get_rewind_get:
  assumes "inv s" "get s m = (s1, ys)" "get (rewind s1 ys) m' = (s2, zs)"
  shows "content s = zs @ content s2"
  using rewind_law [OF assms(1,2)] get_law [OF _ assms(3)] by auto

end

definition rb_put :: "ring_buffer \<Rightarrow> int list \<Rightarrow> ring_buffer \<times> nat" where
  "rb_put b xs =
     (case WebRtc_WriteBuffer (Some b) (Some xs) (length xs div element_size b) of
        (b', k) \<Rightarrow> (the b', k * element_size b))"

definition rb_get :: "ring_buffer \<Rightarrow> nat \<Rightarrow> ring_buffer \<times> int list" where
  "rb_get b n =
     (case WebRtc_ReadBuffer (Some b) True (Some (replicate (n * element_size b) 0)) n of
        (b', dst, ptr, k) \<Rightarrow> (the b', read_view (the b') (the dst) ptr (k * element_size b)))"

definition rb_rewind :: "ring_buffer \<Rightarrow> int list \<Rightarrow> ring_buffer" where
  "rb_rewind b ys =
     the (fst (WebRtc_MoveReadPtr (Some b) (- int (length ys div element_size b))))"

lemma rb_content_write:
  assumes "rb_inv b" "rb_inv b'" "k * element_size b \<le> length xs" "element_size b' = element_size b"
    "element_count b' = element_count b" "rb_avail b' = rb_avail b + k"
    "rb_tape b' = blit (rb_avail b * element_size b) (take (k * element_size b) xs) (rb_tape b)"
  shows "rb_content b' = rb_content b @ take (k * element_size b) xs"
proof -
  have "(rb_avail b + k) * element_size b \<le> length (rb_tape b)"
    using rb_avail_le [OF assms(2)] mult_le_mono1 [of "rb_avail b + k" "element_count b" "element_size b"]
    by (simp add: length_rb_tape [OF assms(1)] assms(5,6))
  then have "rb_avail b * element_size b + k * element_size b \<le> length (rb_tape b)"
    by (simp add: add_mult_distrib)
  then have l: "length (take (rb_avail b * element_size b) (rb_tape b)) = rb_avail b * element_size b"
    by simp
  have l2: "length (take (k * element_size b) xs) = k * element_size b" using assms(3) by simp
  show ?thesis
    unfolding rb_content_def assms(4,6,7) blit_def add_mult_distrib take_append l l2
    by (simp add: min_absorb2 l2 del: length_take)
qed

lemma rb_put_law:
  assumes "rb_inv b" "rb_put b xs = (b', n)"
  shows "rb_inv b' \<and> rb_content b' = rb_content b @ take n xs"
proof -
  let ?c = "length xs div element_size b"
  define k where "k = min (element_count b - rb_avail b) ?c"
  have c: "?c * element_size b \<le> length xs" by (rule div_times_less_eq_dividend)
  have "k \<le> ?c" by (simp add: k_def)
  then have "k * element_size b \<le> ?c * element_size b" by (rule mult_le_mono1)
  with c have k: "k * element_size b \<le> length xs" by linarith
  from WriteBuffer_refines [OF assms(1) c] rb_content_write [OF assms(1) _ k] assms(2)
  show ?thesis by (auto simp: rb_put_def k_def)
qed

lemma rb_get_law:
  assumes "rb_inv b" "rb_get b n = (b', ys)"
  shows "rb_inv b' \<and> rb_content b = ys @ rb_content b' \<and>
    ys = take (min (rb_avail b) n * element_size b) (rb_content b) \<and>
    rb_avail b' = rb_avail b - min (rb_avail b) n \<and> element_size b' = element_size b \<and>
    element_count b' = element_count b \<and>
    rb_tape b' = rotate (min (rb_avail b) n * element_size b) (rb_tape b)"
  using ReadBuffer_refines [OF assms(1), of n "replicate (n * element_size b) 0" True] assms(2)
  by (auto simp: rb_get_def)

lemma inj_rotate: "rotate n xs = rotate n ys \<Longrightarrow> xs = ys"
proof -
  assume eq: "rotate n xs = rotate n ys"
  then have "rotate (length xs - n mod length xs) (rotate (n mod length xs) xs)
           = rotate (length xs - n mod length xs) (rotate (n mod length ys) ys)"
    by (metis rotate_conv_mod)
  moreover have len: "length xs = length ys" using eq by (metis length_rotate)
  moreover have "length ys - n mod length ys + n mod length ys = length ys" if "ys \<noteq> []"
    using that by simp
  ultimately show ?thesis
    by (cases "ys = []") (auto simp: rotate_rotate)
qed

lemma rb_rewind_law:
  assumes inv: "rb_inv b" and get: "rb_get b m = (b1, ys)"
  shows "rb_inv (rb_rewind b1 ys) \<and> rb_content (rb_rewind b1 ys) = rb_content b"
proof -
  define k where "k = min (rb_avail b) m"
  have g: "rb_inv b1" "ys = take (k * element_size b) (rb_content b)" "rb_avail b1 = rb_avail b - k"
      "element_size b1 = element_size b" "element_count b1 = element_count b"
      "rb_tape b1 = rotate (k * element_size b) (rb_tape b)"
    using rb_get_law [OF inv get, folded k_def] by blast+
  have k: "k \<le> rb_avail b" by (simp add: k_def)
  have "k * element_size b \<le> rb_avail b * element_size b" using k by (rule mult_le_mono1)
  moreover have "length ys = min (length (rb_content b)) (k * element_size b)"
    unfolding g(2) by (rule length_take)
  ultimately have "length ys = k * element_size b"
    using length_rb_content [OF inv] by simp
  then have n: "length ys div element_size b1 = k" using g(4) rb_invD(2) [OF inv] by simp
  have A: "rb_avail b \<le> element_count b" "element_count b \<le> 1073741823"
    using rb_avail_le [OF inv] rb_invD(3) [OF inv] by auto
  have cl: "move_clamp b1 (- int k) = - int k" using g(3,5) k A by (simp add: move_clamp_def)
  obtain b' where b': "WebRtc_MoveReadPtr (Some b1) (- int k) = (Some b', - int k)" "rb_inv b'"
      "element_size b' = element_size b" "rb_avail b' = rb_avail b"
      "rotate (k * element_size b) (rb_tape b') = rb_tape b1"
    using MoveReadPtr_refines [of b1 "- int k", unfolded cl] g(1,3,4,5) k A
    by (cases "k = 0") auto
  have "rb_tape b' = rb_tape b" using b'(5) unfolding g(6) by (rule inj_rotate)
  with b' show ?thesis by (simp add: rb_rewind_def n rb_content_def)
qed

interpretation ring: rewindable_fifo rb_put rb_get rb_content rb_inv rb_rewind
  by unfold_locales (blast dest: rb_put_law rb_get_law rb_rewind_law)+

section \<open>Properties\<close>

text \<open>A three-element buffer of two-byte elements whose readable part wraps around the end.\<close>

definition sample_ring :: ring_buffer where
  "sample_ring = \<lparr>read_pos = 2, write_pos = 1, element_count = 3, element_size = 2,
     rw_wrap = DIFF_WRAP, data = [5, 6, 0, 0, 3, 4]\<rparr>"

lemma sample_ring_facts:
  "rb_inv sample_ring" "rb_avail sample_ring = 2" "element_count sample_ring = 3"
  "element_size sample_ring = 2" "rb_content sample_ring = [3, 4, 5, 6]"
  by (simp_all add: sample_ring_def rb_inv_def rb_avail_def WebRtc_available_read_def
      rb_content_def rb_tape_def)

text \<open>C33: writing to a well-formed buffer accepts the smaller of the free and the offered
  number of elements, appends exactly those to the readable content, returns their number and
  keeps the buffer well formed.\<close>

theorem ring_write_appends:
  assumes "rb_inv b" and "count * element_size b \<le> length xs"
  shows "\<exists>b'. WebRtc_WriteBuffer (Some b) (Some xs) count
        = (Some b', min (WebRtc_available_write (Some b)) count) \<and>
      rb_inv b' \<and> element_count b' = element_count b \<and> element_size b' = element_size b \<and>
      rb_content b' = rb_content b
        @ take (min (WebRtc_available_write (Some b)) count * element_size b) xs"
proof -
  define k where "k = min (element_count b - rb_avail b) count"
  have "k \<le> count" by (simp add: k_def)
  then have "k * element_size b \<le> length xs"
    using assms(2) mult_le_mono1 [of k count "element_size b"] by linarith
  moreover obtain b' where b': "WebRtc_WriteBuffer (Some b) (Some xs) count = (Some b', k)"
      "rb_inv b'" "element_count b' = element_count b" "element_size b' = element_size b"
      "rb_avail b' = rb_avail b + k"
      "rb_tape b' = blit (rb_avail b * element_size b) (take (k * element_size b) xs) (rb_tape b)"
    using WriteBuffer_refines [OF assms] by (auto simp: k_def)
  ultimately have "rb_content b' = rb_content b @ take (k * element_size b) xs"
    using rb_content_write [OF assms(1)] by blast
  with b' show ?thesis by (auto simp: k_def rb_free_eq [OF assms(1)])
qed

theorem ring_write_appends_witness:
  "\<exists>b'. WebRtc_WriteBuffer (Some sample_ring) (Some [7, 8, 9, 9]) 2 = (Some b', 1) \<and>
     rb_content b' = [3, 4, 5, 6, 7, 8]"
  using ring_write_appends [of sample_ring 2 "[7, 8, 9, 9]"]
  by (auto simp: sample_ring_facts rb_free_eq)

text \<open>C34: reading from a well-formed buffer delivers the oldest elements, in order, whether
  the caller asked for a pointer into the buffer or for a copy, and removes exactly those.\<close>

theorem ring_read_delivers:
  assumes "rb_inv b" and "count * element_size b \<le> length dst"
  shows "\<exists>b' dst' ptr. WebRtc_ReadBuffer (Some b) want_ptr (Some dst) count
        = (Some b', Some dst', ptr, min (WebRtc_available_read (Some b)) count) \<and>
      rb_inv b' \<and>
      read_view b' dst' ptr (min (WebRtc_available_read (Some b)) count * element_size b)
        = take (count * element_size b) (rb_content b) \<and>
      rb_content b' = drop (count * element_size b) (rb_content b)"
proof -
  have *: "take (min (rb_avail b) count * element_size b) (rb_content b)
        = take (count * element_size b) (rb_content b)"
      "drop (min (rb_avail b) count * element_size b) (rb_content b)
        = drop (count * element_size b) (rb_content b)"
    using length_rb_content [OF assms(1)] by (simp_all add: min_def)
  show ?thesis
    using ReadBuffer_refines [OF assms, of want_ptr] unfolding * by (auto simp: rb_avail_def)
qed

theorem ring_read_delivers_witness:
  "\<exists>b' dst' ptr. WebRtc_ReadBuffer (Some sample_ring) True (Some [0, 0]) 1
      = (Some b', Some dst', ptr, 1) \<and> read_view b' dst' ptr 2 = [3, 4] \<and>
    rb_content b' = [5, 6]"
  using ring_read_delivers [of sample_ring 1 "[0, 0]" True]
  by (auto simp: sample_ring_facts simp flip: rb_avail_def)

text \<open>\<open>WebRtc_MoveReadPtr\<close> clamps the request to what can be flushed or stuffed and
  rotates the bytes of the buffer by that many elements: flushing drops the oldest elements,
  stuffing makes the same number of already read elements readable again.\<close>

theorem ring_move_rotates:
  assumes "rb_inv b" and "- 1073741824 \<le> m" and "m \<le> 1073741824"
  shows "\<exists>b'. WebRtc_MoveReadPtr (Some b) m
        = (Some b', max (- int (WebRtc_available_write (Some b)))
                        (min (int (WebRtc_available_read (Some b))) m)) \<and>
      rb_inv b' \<and> int (rb_avail b') = int (rb_avail b) - move_clamp b m \<and>
      (0 \<le> m \<longrightarrow> rb_tape b' = rotate (nat (move_clamp b m) * element_size b) (rb_tape b)) \<and>
      (m < 0 \<longrightarrow> rotate (nat (- move_clamp b m) * element_size b) (rb_tape b') = rb_tape b)"
proof -
  obtain b' where b': "WebRtc_MoveReadPtr (Some b) m = (Some b', move_clamp b m)" "rb_inv b'"
    "int (rb_avail b') = int (rb_avail b) - move_clamp b m"
    "if 0 \<le> move_clamp b m
     then rb_tape b' = rotate (nat (move_clamp b m) * element_size b) (rb_tape b)
     else rotate (nat (- move_clamp b m) * element_size b) (rb_tape b') = rb_tape b"
    using MoveReadPtr_refines [OF assms] by blast
  have "0 \<le> m \<Longrightarrow> 0 \<le> move_clamp b m" "m < 0 \<Longrightarrow> move_clamp b m \<le> 0"
    by (auto simp: move_clamp_def)
  moreover have "max (- int (WebRtc_available_write (Some b)))
      (min (int (WebRtc_available_read (Some b))) m) = move_clamp b m"
    by (simp add: move_clamp_def rb_free_eq [OF assms(1)] rb_avail_def)
  ultimately show ?thesis
    using b' by (cases "move_clamp b m = 0") auto
qed

theorem ring_move_rotates_witness:
  "\<exists>b'. WebRtc_MoveReadPtr (Some sample_ring) (- 5) = (Some b', - 1) \<and> rb_avail b' = 3"
  using ring_move_rotates [of sample_ring "- 5"]
  by (auto simp: sample_ring_facts rb_free_eq move_clamp_def simp flip: rb_avail_def)

text \<open>C32: over any sequence of writes and reads the buffer is a queue of bytes: what was in
  it, followed by what the writes accepted, is what the reads delivered followed by what is
  left.\<close>

theorem ring_fifo_conserves:
  assumes "rb_inv b" and "fifo_run rb_put rb_get b ops = (b', ins, outs)"
  shows "rb_inv b' \<and> rb_content b @ ins = outs @ rb_content b'"
  using assms by (rule ring.run_conserves)

theorem ring_fifo_conserves_witness:
  "fifo_run rb_put rb_get sample_ring [Put [7, 8], Get 2, Put [9, 9]]
     = (\<lparr>read_pos = 1, write_pos = 3, element_count = 3, element_size = 2,
         rw_wrap = SAME_WRAP, data = [5, 6, 7, 8, 9, 9]\<rparr>, [7, 8, 9, 9], [3, 4, 5, 6]) \<and>
   rb_content sample_ring @ [7, 8, 9, 9] = [3, 4, 5, 6] @ [7, 8, 9, 9]"
proof -
  have run: "fifo_run rb_put rb_get sample_ring [Put [7, 8], Get 2, Put [9, 9]]
     = (\<lparr>read_pos = 1, write_pos = 3, element_count = 3, element_size = 2,
         rw_wrap = SAME_WRAP, data = [5, 6, 7, 8, 9, 9]\<rparr>, [7, 8, 9, 9], [3, 4, 5, 6])"
    by code_simp
  from ring_fifo_conserves [OF sample_ring_facts(1) run] run show ?thesis
    by (simp add: rb_content_def rb_tape_def rb_avail_def WebRtc_available_read_def)
qed

text \<open>\<open>WebRtc_CreateBuffer\<close> fails exactly when a size is zero or an allocation fails;
  otherwise the new buffer is well formed, empty and has the requested room. The product of the
  sizes is assumed not to wrap around \<open>size_t\<close>, and \<open>malloc\<close> to return a block of the size it
  was asked for.\<close>

theorem ring_create_spec:
  assumes "count * sz < 18446744073709551616" and "count \<le> 1073741823"
    and "\<And>n raw. malloc_data n = Some raw \<Longrightarrow> length raw = n"
  shows "(WebRtc_CreateBuffer malloc_struct malloc_data count sz = None \<longleftrightarrow>
      count = 0 \<or> sz = 0 \<or> \<not> malloc_struct \<or> malloc_data (count * sz) = None) \<and>
    (\<forall>b. WebRtc_CreateBuffer malloc_struct malloc_data count sz = Some b \<longrightarrow>
      rb_inv b \<and> rb_content b = [] \<and> element_count b = count \<and> element_size b = sz \<and>
      WebRtc_available_write (Some b) = count)"
  using assms
  by (auto simp: WebRtc_CreateBuffer_def WebRtc_InitBuffer_def rb_inv_def rb_content_def
      rb_avail_def WebRtc_available_read_def WebRtc_available_write_def length_blit
      split: option.splits if_splits)

theorem ring_create_spec_witness:
  "WebRtc_CreateBuffer True (\<lambda>n. Some (replicate n 9)) 2 3 \<noteq> None \<and>
   WebRtc_CreateBuffer True (\<lambda>n. Some (replicate n 9)) 2 0 = None"
  using ring_create_spec [of 2 3 "\<lambda>n. Some (replicate n 9)" True]
    ring_create_spec [of 2 0 "\<lambda>n. Some (replicate n 9)" True] by simp

end
