(* ===== verification/SplInline.thy ===== *)
theory SplInline
  imports Prelude
begin

text \<open>
  The inline arithmetic of \<open>webrtc/common_audio/signal_processing\<close>: leading zeros
  (\<open>spl_inl.h\<close>, with the lookup table of \<open>spl_inl.c\<close>), saturating additions, normalisation
  shifts, and the macros of \<open>signal_processing_library.h\<close> the C files use. The generic C
  branches are modelled, not the ARM, MIPS and Neon replacements.
\<close>

section \<open>Leading zeros\<close>

definition kWebRtcSpl_CountLeadingZeros32_Table :: "int list" where
  "kWebRtcSpl_CountLeadingZeros32_Table = [
    32, 8,  17, -1, -1, 14, -1, -1, -1, 20, -1, -1, -1, 28, -1, 18,
    -1, -1, -1, -1, -1, -1, -1, -1, -1, -1, -1, -1, 0,  26, 25, 24,
    4,  11, 23, 31, 3,  7,  10, 16, 22, 30, -1, -1, 2,  6,  13, 9,
    -1, 15, -1, 21, -1, 29, 19, -1, -1, -1, -1, -1, 1,  27, 5,  12]"

definition WebRtcSpl_CountLeadingZeros32_NotBuiltin :: "int \<Rightarrow> int" where
  "WebRtcSpl_CountLeadingZeros32_NotBuiltin n =
     (let n = n OR shr n 1;
          n = n OR shr n 2;
          n = n OR shr n 4;
          n = n OR shr n 8;
          n = n OR shr n 16
      in kWebRtcSpl_CountLeadingZeros32_Table ! nat (shr (to_u32 (n * 0x8c0b2891)) 26))"

definition WebRtcSpl_CountLeadingZeros64_NotBuiltin :: "int \<Rightarrow> int" where
  "WebRtcSpl_CountLeadingZeros64_NotBuiltin n =
     (let leading_zeros = (if shr n 32 = 0 then 32 else 0)
      in leading_zeros
         + WebRtcSpl_CountLeadingZeros32_NotBuiltin (to_u32 (shr n (nat (32 - leading_zeros)))))"

text \<open>The compiler builtins \<open>__builtin_clz\<close> and \<open>__builtin_clzll\<close> count the zero bits above
  the highest set bit of a non-zero word of the given width.\<close>

fun bit_size :: "nat \<Rightarrow> nat" where
  "bit_size n = (if n = 0 then 0 else Suc (bit_size (n div 2)))"

declare bit_size.simps [simp del]

definition builtin_clz :: "nat \<Rightarrow> int \<Rightarrow> int" where
  "builtin_clz width n = int width - int (bit_size (nat n))"

text \<open>Evaluation works on integers; naturals are evaluated in unary.\<close>

function int_bits :: "int \<Rightarrow> nat" where
  "int_bits n = (if n \<le> 0 then 0 else Suc (int_bits (n div 2)))"
  by pat_completeness auto
termination
  by (relation "measure nat") auto

declare int_bits.simps [simp del]

lemma int_bits_eq: "int_bits n = bit_size (nat n)"
proof (induction n rule: int_bits.induct)
  case (1 n)
  then show ?case
    by (subst int_bits.simps, subst bit_size.simps) (auto simp: nat_div_distrib)
qed

lemma builtin_clz_code [code]: "builtin_clz width n = int width - int (int_bits n)"
  by (simp add: builtin_clz_def int_bits_eq)

definition WebRtcSpl_CountLeadingZeros32 :: "int \<Rightarrow> int" where
  "WebRtcSpl_CountLeadingZeros32 n = (if n = 0 then 32 else builtin_clz 32 n)"

definition WebRtcSpl_CountLeadingZeros64 :: "int \<Rightarrow> int" where
  "WebRtcSpl_CountLeadingZeros64 n = (if n = 0 then 64 else builtin_clz 64 n)"

section \<open>Saturation and normalisation\<close>

definition WebRtcSpl_SatW32ToW16 :: "int \<Rightarrow> int" where
  "WebRtcSpl_SatW32ToW16 value32 =
     (if value32 > 32767 then 32767 else if value32 < - 32768 then - 32768 else to_i16 value32)"

definition WebRtcSpl_AddSatW32 :: "int \<Rightarrow> int \<Rightarrow> int" where
  "WebRtcSpl_AddSatW32 a b =
     (let sum = to_i32 (to_u32 (to_u32 a + to_u32 b))
      in if (a < 0) = (b < 0) \<and> (a < 0) \<noteq> (sum < 0)
         then (if sum < 0 then 2147483647 else - 2147483648)
         else sum)"

definition WebRtcSpl_SubSatW32 :: "int \<Rightarrow> int \<Rightarrow> int" where
  "WebRtcSpl_SubSatW32 a b =
     (let diff = to_i32 (to_u32 (to_u32 a - to_u32 b))
      in if (a < 0) \<noteq> (b < 0) \<and> (a < 0) \<noteq> (diff < 0)
         then (if diff < 0 then 2147483647 else - 2147483648)
         else diff)"

definition WebRtcSpl_AddSatW16 :: "int \<Rightarrow> int \<Rightarrow> int" where
  "WebRtcSpl_AddSatW16 a b = WebRtcSpl_SatW32ToW16 (a + b)"

definition WebRtcSpl_SubSatW16 :: "int \<Rightarrow> int \<Rightarrow> int" where
  "WebRtcSpl_SubSatW16 a b = WebRtcSpl_SatW32ToW16 (a - b)"

definition WebRtcSpl_GetSizeInBits :: "int \<Rightarrow> int" where
  "WebRtcSpl_GetSizeInBits n = to_i16 (32 - WebRtcSpl_CountLeadingZeros32 n)"

definition WebRtcSpl_NormW32 :: "int \<Rightarrow> int" where
  "WebRtcSpl_NormW32 a =
     to_i16 (if a = 0 then 0
             else WebRtcSpl_CountLeadingZeros32 (to_u32 (if a < 0 then NOT a else a)) - 1)"

definition WebRtcSpl_NormU32 :: "int \<Rightarrow> int" where
  "WebRtcSpl_NormU32 a = to_i16 (if a = 0 then 0 else WebRtcSpl_CountLeadingZeros32 a)"

definition WebRtcSpl_NormW16 :: "int \<Rightarrow> int" where
  "WebRtcSpl_NormW16 a =
     to_i16 (if a = 0 then 0
             else WebRtcSpl_CountLeadingZeros32 (to_u32 (if a < 0 then NOT a else a)) - 17)"

definition WebRtc_MulAccumW16 :: "int \<Rightarrow> int \<Rightarrow> int \<Rightarrow> int" where
  "WebRtc_MulAccumW16 a b c = to_i32 (a * b + c)"

text \<open>Macros of \<open>signal_processing_library.h\<close>.\<close>

definition SPL_SAT :: "int \<Rightarrow> int \<Rightarrow> int \<Rightarrow> int" where
  "SPL_SAT a b c = (if b > a then a else if b < c then c else b)"

definition SPL_SCALEDIFF32 :: "int \<Rightarrow> int \<Rightarrow> int \<Rightarrow> int" where
  "SPL_SCALEDIFF32 A B C =
     to_i32 (to_u32 (C + shr B 16 * A + shr (to_u32 ((B AND 0xFFFF) * A)) 16))"

definition SPL_SHIFT_W32 :: "int \<Rightarrow> int \<Rightarrow> int" where
  "SPL_SHIFT_W32 x c = (if c \<ge> 0 then to_i32 (x * 2 ^ nat c) else shr x (nat (- c)))"

text \<open>The same macro on a \<open>uint32_t\<close>. The shift counts of C are below 32; the model gives larger ones their arithmetic
  meaning.\<close>

definition SPL_SHIFT_U32 :: "int \<Rightarrow> int \<Rightarrow> int" where
  "SPL_SHIFT_U32 x c = (if c \<ge> 0 then to_u32 (x * 2 ^ nat c) else shr x (nat (- c)))"

definition SPL_UMUL_32_16 :: "int \<Rightarrow> int \<Rightarrow> int" where
  "SPL_UMUL_32_16 a b = to_u32 (to_u32 a * to_u16 b)"

definition SPL_MUL_16_U16 :: "int \<Rightarrow> int \<Rightarrow> int" where
  "SPL_MUL_16_U16 a b = to_i32 (to_i16 a * to_u16 b)"

definition SPL_MUL_16_16_RSFT_WITH_ROUND :: "int \<Rightarrow> int \<Rightarrow> nat \<Rightarrow> int" where
  "SPL_MUL_16_16_RSFT_WITH_ROUND a b c = shr (to_i32 (to_i16 a * to_i16 b + shl 1 (c - 1))) c"

definition SPL_ABS_W16 :: "int \<Rightarrow> int" where
  "SPL_ABS_W16 a = (if to_i16 a \<ge> 0 then to_i16 a else - to_i16 a)"

definition SPL_ABS_W32 :: "int \<Rightarrow> int" where
  "SPL_ABS_W32 a = to_i32 (if to_i32 a \<ge> 0 then to_i32 a else - to_i32 a)"

section \<open>Facts\<close>

lemma bit_size_0 [simp]: "bit_size 0 = 0"
  by (simp add: bit_size.simps)

lemma bit_size_pos: "n \<noteq> 0 \<Longrightarrow> bit_size n = Suc (bit_size (n div 2))"
  by (simp add: bit_size.simps [of n])

lemma bit_size_less: "n < 2 ^ bit_size n"
proof (induction n rule: bit_size.induct)
  case (1 n)
  show ?case
  proof (cases "n = 0")
    case False
    with 1 have "n div 2 < 2 ^ bit_size (n div 2)" by simp
    with False show ?thesis by (simp add: bit_size_pos)
  qed simp
qed

lemma bit_size_ge: "n \<noteq> 0 \<Longrightarrow> 2 ^ (bit_size n - 1) \<le> n"
proof (induction n rule: bit_size.induct)
  case (1 n)
  show ?case
  proof (cases "n div 2 = 0")
    case True
    with 1 show ?thesis by (simp add: bit_size_pos)
  next
    case False
    then have "2 ^ (bit_size (n div 2) - 1) \<le> n div 2" using 1 by blast
    moreover have "bit_size (n div 2) = Suc (bit_size (n div 2) - 1)"
      using False by (simp add: bit_size_pos)
    ultimately have "2 ^ bit_size (n div 2) \<le> 2 * (n div 2)"
      by (metis mult_le_mono2 power_Suc)
    with False show ?thesis using 1(2) by (simp add: bit_size_pos)
  qed
qed

lemma bit_size_le_iff: "bit_size n \<le> k \<longleftrightarrow> n < 2 ^ k"
proof
  assume "bit_size n \<le> k"
  then have "(2::nat) ^ bit_size n \<le> 2 ^ k" by simp
  with bit_size_less [of n] show "n < 2 ^ k" by linarith
next
  assume less: "n < 2 ^ k"
  show "bit_size n \<le> k"
  proof (cases "n = 0")
    case False
    then have "(2::nat) ^ (bit_size n - 1) < 2 ^ k" using bit_size_ge [of n] less by linarith
    then show ?thesis by simp
  qed simp
qed

lemma bit_size_mono: "m \<le> n \<Longrightarrow> bit_size m \<le> bit_size n"
  by (meson bit_size_le_iff bit_size_less order_le_less_trans order_refl)

lemma shr_bit: "bit (shr x k) i = bit (x :: int) (k + i)"
  by (simp add: shr_def bit_drop_bit_eq flip: drop_bit_eq_div)

lemma bit_size_top:
  assumes "0 < n" shows "bit (n :: int) (bit_size (nat n) - 1)"
proof -
  let ?m = "bit_size (nat n) - 1"
  have m: "bit_size (nat n) = Suc ?m" using assms by (simp add: bit_size_pos)
  have "2 ^ ?m \<le> nat n" using assms bit_size_ge [of "nat n"] by simp
  then have "2 ^ ?m \<le> n" using assms by (simp add: le_nat_iff)
  moreover have "nat n < 2 ^ Suc ?m" using bit_size_less [of "nat n"] m by simp
  then have "n < 2 ^ Suc ?m" using assms by (simp add: nat_less_iff)
  ultimately have "n div 2 ^ ?m = 1"
    by (intro int_div_pos_eq [of _ _ _ "n - 2 ^ ?m"]) auto
  then show ?thesis by (simp add: bit_iff_odd)
qed

lemma bit_size_above:
  assumes "0 \<le> n" "bit (n :: int) i" shows "i < bit_size (nat n)"
proof (rule ccontr)
  assume "\<not> i < bit_size (nat n)"
  then have "nat n < 2 ^ i" by (simp flip: bit_size_le_iff)
  then have "n < 2 ^ i" using assms(1) by (simp add: nat_less_iff)
  with assms show False by (simp add: bit_iff_odd)
qed

text \<open>The five shifts smear the highest set bit over all lower positions.\<close>

definition smear :: "int \<Rightarrow> int" where
  "smear n = (let n = n OR shr n 1; n = n OR shr n 2; n = n OR shr n 4; n = n OR shr n 8
              in n OR shr n 16)"

lemma smear_bit: "bit (smear n) i \<longleftrightarrow> (\<exists>j<32. bit n (i + j))"
proof -
  have 1: "bit (n OR shr n 1) i \<longleftrightarrow> (\<exists>j<2. bit n (i + j))" for n :: int and i
    by (auto simp: bit_or_iff shr_bit numeral_2_eq_2 less_Suc_eq)
  have step: "bit (n OR shr n k) i \<longleftrightarrow> (\<exists>j<2 * k. bit m (i + j))"
    if "\<And>i. bit n i \<longleftrightarrow> (\<exists>j<k. bit m (i + j))" for m n :: int and k i
  proof -
    have "(\<exists>j<2 * k. bit m (i + j)) \<longleftrightarrow> (\<exists>j<k. bit m (i + j)) \<or> (\<exists>j<k. bit m (k + i + j))"
    proof safe
      fix j assume "j < 2 * k" "bit m (i + j)" "\<not> (\<exists>j<k. bit m (k + i + j))"
      then show "\<exists>j<k. bit m (i + j)"
        by (cases "j < k") (auto dest: spec [of _ "j - k"] simp: add.commute)
    next
      fix j assume "j < k" "bit m (i + j)" then show "\<exists>j<2 * k. bit m (i + j)" by (intro exI [of _ j]) auto
    next
      fix j assume "j < k" "bit m (k + i + j)"
      then show "\<exists>j<2 * k. bit m (i + j)" by (intro exI [of _ "k + j"]) (auto simp: ac_simps)
    qed
    then show ?thesis by (simp add: bit_or_iff shr_bit that)
  qed
  show ?thesis
    unfolding smear_def Let_def
    by (subst step [of _ 16 n]; (subst step [of _ 8 n])?; (subst step [of _ 4 n])?; (subst step [of _ 2 n])?; (subst 1)?; simp)
qed

lemma smear_eq_mask:
  assumes "0 \<le> n" "n < 4294967296" shows "smear n = 2 ^ bit_size (nat n) - 1"
proof -
  have m32: "bit_size (nat n) \<le> 32" using assms by (simp add: bit_size_le_iff nat_less_iff)
  have "smear n = mask (bit_size (nat n))"
  proof (rule bit_eqI)
    fix i
    show "bit (smear n) i = bit (mask (bit_size (nat n)) :: int) i"
    proof (cases "i < bit_size (nat n)")
      case True
      then have "0 < n" using assms by (cases "n = 0") auto
      then have "bit n (i + (bit_size (nat n) - 1 - i))" using bit_size_top [of n] True by simp
      moreover have "bit_size (nat n) - 1 - i < 32" using m32 True by linarith
      ultimately show ?thesis using True by (auto simp: smear_bit bit_mask_iff)
    next
      case False
      then show ?thesis using bit_size_above [OF assms(1)] by (fastforce simp: smear_bit bit_mask_iff)
    qed
  qed
  then show ?thesis by (simp add: mask_eq_exp_minus_1)
qed

lemma clz_table:
  "\<forall>m \<in> set [0..<33]. kWebRtcSpl_CountLeadingZeros32_Table
      ! nat (shr (to_u32 ((2 ^ m - 1) * 0x8c0b2891)) 26) = 32 - int m"
  by code_simp

lemma clz32_eq:
  assumes "0 \<le> n" "n < 4294967296"
  shows "WebRtcSpl_CountLeadingZeros32_NotBuiltin n = 32 - int (bit_size (nat n))"
proof -
  have "bit_size (nat n) \<le> 32" using assms by (simp add: bit_size_le_iff nat_less_iff)
  then have "bit_size (nat n) \<in> set [0..<33]" by simp
  from bspec [OF clz_table this] show ?thesis
    using smear_eq_mask [OF assms]
    by (simp add: WebRtcSpl_CountLeadingZeros32_NotBuiltin_def smear_def Let_def)
qed

lemma clz32_builtin:
  assumes "0 \<le> n" "n < 4294967296"
  shows "WebRtcSpl_CountLeadingZeros32 n = 32 - int (bit_size (nat n))"
  using assms by (auto simp: WebRtcSpl_CountLeadingZeros32_def builtin_clz_def)

lemma bit_size_shift:
  assumes "0 \<le> n" "n div 2 ^ k \<noteq> 0"
  shows "bit_size (nat n) = k + bit_size (nat (n div 2 ^ k))"
  using assms
proof (induction k)
  case (Suc k)
  have e: "n div 2 ^ Suc k = n div 2 ^ k div 2" by (simp add: power_Suc2 zdiv_zmult2_eq del: power_Suc)
  then have "n div 2 ^ k \<noteq> 0" using Suc.prems by auto
  moreover have "0 \<le> n div 2 ^ k" using Suc.prems by (simp add: pos_imp_zdiv_nonneg_iff)
  ultimately show ?case
    using Suc e bit_size_pos [of "nat (n div 2 ^ k)"] by (simp add: nat_div_distrib [of _ 2] del: power_Suc)
qed simp

lemma clz64_eq:
  assumes "0 \<le> n" "n < 18446744073709551616"
  shows "WebRtcSpl_CountLeadingZeros64_NotBuiltin n = 64 - int (bit_size (nat n))"
proof (cases "shr n 32 = 0")
  case True
  then have "n < 4294967296"
    using mult_div_mod_eq [of 4294967296 n] pos_mod_bound [of 4294967296 n] by (simp add: shr_def)
  with True assms show ?thesis
    by (simp add: WebRtcSpl_CountLeadingZeros64_NotBuiltin_def clz32_eq to_u32_def)
next
  case False
  have "n div 2 ^ 32 < 4294967296" 
    using assms mult_div_mod_eq [of 4294967296 n] pos_mod_bound [of 4294967296 n]
      pos_mod_sign [of 4294967296 n] by simp
  moreover have "0 \<le> n div 2 ^ 32" using assms by (simp add: pos_imp_zdiv_nonneg_iff)
  ultimately show ?thesis
    using False assms bit_size_shift [of n 32]
    by (simp add: WebRtcSpl_CountLeadingZeros64_NotBuiltin_def clz32_eq to_u32_def shr_def)
qed

lemma to_i16_small: "- 32768 \<le> x \<Longrightarrow> x \<le> 32767 \<Longrightarrow> to_i16 x = x"
  by (simp add: to_i16_id is_i16_def)

lemma not_int: "NOT (a :: int) = - a - 1"
  by (simp add: not_int_def)

lemma GetSizeInBits_eq:
  assumes "0 \<le> n" "n < 4294967296"
  shows "WebRtcSpl_GetSizeInBits n = int (bit_size (nat n))"
proof -
  have "bit_size (nat n) \<le> 32" using assms by (simp add: bit_size_le_iff nat_less_iff)
  then show ?thesis by (simp add: WebRtcSpl_GetSizeInBits_def clz32_builtin assms to_i16_small)
qed

lemma NormW32_eq:
  assumes "is_i32 a" "a \<noteq> 0"
  shows "WebRtcSpl_NormW32 a = 31 - int (bit_size (nat (if a < 0 then - a - 1 else a)))"
proof -
  let ?u = "if a < 0 then - a - 1 else a"
  have u: "0 \<le> ?u" "?u < 2147483648" using assms by (auto simp: is_i32_def)
  then have "bit_size (nat ?u) \<le> 31" by (simp add: bit_size_le_iff nat_less_iff)
  moreover have "to_u32 (if a < 0 then NOT a else a) = ?u"
    using u by (auto simp: to_u32_def not_int)
  ultimately show ?thesis
    using u assms by (simp add: WebRtcSpl_NormW32_def clz32_builtin to_i16_small)
qed

lemma NormW32_bounds:
  assumes "is_i32 a" shows "0 \<le> WebRtcSpl_NormW32 a" "WebRtcSpl_NormW32 a \<le> 31"
proof -
  let ?u = "if a < 0 then - a - 1 else a"
  have "nat ?u < 2 ^ 31" using assms by (auto simp: is_i32_def nat_less_iff)
  then have "bit_size (nat ?u) \<le> 31" unfolding bit_size_le_iff .
  then show "0 \<le> WebRtcSpl_NormW32 a" "WebRtcSpl_NormW32 a \<le> 31"
    using NormW32_eq [OF assms] by (cases "a = 0"; simp add: WebRtcSpl_NormW32_def to_i16_small)+
qed

lemma NormU32_eq:
  assumes "is_u32 a" "a \<noteq> 0"
  shows "WebRtcSpl_NormU32 a = 32 - int (bit_size (nat a))"
proof -
  have "bit_size (nat a) \<le> 32" using assms by (simp add: bit_size_le_iff is_u32_def nat_less_iff)
  then show ?thesis
    using assms by (simp add: WebRtcSpl_NormU32_def clz32_builtin is_u32_def to_i16_small)
qed

lemma bit_size_int:
  assumes "0 < u"
  shows "2 ^ (bit_size (nat u) - 1) \<le> u" "u < 2 ^ bit_size (nat u)" "0 < bit_size (nat u)"
proof -
  show "2 ^ (bit_size (nat u) - 1) \<le> u" using assms bit_size_ge [of "nat u"] by (simp add: le_nat_iff)
  show "u < 2 ^ bit_size (nat u)" using assms bit_size_less [of "nat u"] by (simp add: nat_less_iff)
  show "0 < bit_size (nat u)" using assms by (simp add: bit_size_pos)
qed

text \<open>The normalisation shift is the largest one without overflow.\<close>

lemma NormW32_largest:
  assumes "is_i32 a" "a \<noteq> 0" "a \<noteq> - 1"
  defines "k \<equiv> nat (WebRtcSpl_NormW32 a)"
  shows "is_i32 (a * 2 ^ k)" "\<not> is_i32 (a * 2 ^ Suc k)"
proof -
  let ?u = "if a < 0 then - a - 1 else a"
  let ?b = "bit_size (nat ?u)"
  have u: "0 < ?u" using assms by (auto simp: is_i32_def)
  have b31: "?b \<le> 31"
    using assms(1) by (simp add: bit_size_le_iff nat_less_iff is_i32_def)
  have k: "k = 31 - ?b" "k + ?b = 31" using NormW32_eq [OF assms(1,2)] b31 by (auto simp: k_def)
  have lo: "2 ^ (?b - 1) * 2 ^ Suc k \<le> ?u * 2 ^ Suc k" using bit_size_int(1) [OF u] by (intro mult_right_mono) auto
  have hi: "(?u + 1) * 2 ^ k \<le> 2 ^ ?b * 2 ^ k" using bit_size_int(2) [OF u] by (intro mult_right_mono) auto
  have e1: "(2::int) ^ ?b * 2 ^ k = 2147483648" using k(2) by (simp flip: power_add add: add.commute)
  have "?b - 1 + Suc k = 31" using k(2) bit_size_int(3) [OF u] by linarith
  then have "(2::int) ^ (?b - 1) * 2 ^ Suc k = 2 ^ 31" by (simp only: power_add [symmetric])
  then have e2: "(2::int) ^ (?b - 1) * 2 ^ Suc k = 2147483648" by simp
  have p: "(0::int) < 2 ^ k" by simp
  have sgn: "a < 0 \<Longrightarrow> a * 2 ^ k \<le> 0" "\<not> a < 0 \<Longrightarrow> 0 \<le> a * 2 ^ k"
    using p by (auto simp: mult_le_0_iff)
  show "is_i32 (a * 2 ^ k)"
  proof (cases "a < 0")
    case True
    then have "- (a * 2 ^ k) \<le> 2147483648" using hi [unfolded e1] by simp
    with sgn True show ?thesis unfolding is_i32_def by linarith
  next
    case False
    then have "a * 2 ^ k + 2 ^ k \<le> 2147483648" using hi [unfolded e1] by (simp add: distrib_right)
    with sgn False p show ?thesis unfolding is_i32_def by linarith
  qed
  show "\<not> is_i32 (a * 2 ^ Suc k)"
  proof (cases "a < 0")
    case True
    then have "2147483648 \<le> - (a * 2 ^ Suc k) - 2 ^ Suc k"
      using lo [unfolded e2] by (simp add: left_diff_distrib)
    then show ?thesis using p unfolding is_i32_def power_Suc by linarith
  next
    case False
    then have "2147483648 \<le> a * 2 ^ Suc k" using lo [unfolded e2] by simp
    then show ?thesis unfolding is_i32_def by linarith
  qed
qed

text \<open>Saturating arithmetic clamps the exact result.\<close>

lemma SatW32ToW16_clamp: "WebRtcSpl_SatW32ToW16 x = max (- 32768) (min 32767 x)"
  by (auto simp: WebRtcSpl_SatW32ToW16_def to_i16_small)

lemma SatW32ToW16_i16 [simp]: "is_i16 (WebRtcSpl_SatW32ToW16 x)"
  by (auto simp: SatW32ToW16_clamp is_i16_def)

lemma to_i32_cong:
  assumes "x mod 4294967296 = y mod 4294967296" shows "to_i32 x = to_i32 y"
proof -
  have "(x + 2147483648) mod 4294967296 = (y + 2147483648) mod 4294967296"
    using assms by (rule mod_add_cong) simp
  then show ?thesis by (simp add: to_i32_def)
qed

lemma to_i32_to_u32 [simp]: "to_i32 (to_u32 x) = to_i32 x"
  by (simp add: to_i32_def to_u32_def mod_simps)

lemma to_i32_u32_add: "to_i32 (to_u32 a + to_u32 b) = to_i32 (a + b)"
  by (rule to_i32_cong) (simp add: to_u32_def mod_simps)

lemma to_i32_u32_sub: "to_i32 (to_u32 a - to_u32 b) = to_i32 (a - b)"
  by (rule to_i32_cong) (simp add: to_u32_def mod_simps)

lemma to_i32_over: "2147483648 \<le> x \<Longrightarrow> x < 6442450944 \<Longrightarrow> to_i32 x = x - 4294967296"
proof -
  assume "2147483648 \<le> x" "x < 6442450944"
  then have "(x - 2147483648) mod 4294967296 = x - 2147483648"
    by (intro mod_pos_pos_trivial) auto
  moreover have "(x + 2147483648) mod 4294967296 = (x - 2147483648 + 4294967296) mod 4294967296"
    by (simp add: add.commute)
  ultimately have "(x + 2147483648) mod 4294967296 = x - 2147483648"
    by (simp only: mod_add_self2)
  then show ?thesis by (simp add: to_i32_def)
qed

lemma to_i32_under: "- 6442450944 \<le> x \<Longrightarrow> x < - 2147483648 \<Longrightarrow> to_i32 x = x + 4294967296"
proof -
  assume "- 6442450944 \<le> x" "x < - 2147483648"
  then have "(x + 6442450944) mod 4294967296 = x + 6442450944"
    by (intro mod_pos_pos_trivial) auto
  moreover have "(x + 6442450944) mod 4294967296 = (x + 2147483648 + 4294967296) mod 4294967296"
    by (simp add: add.commute)
  ultimately have "(x + 2147483648) mod 4294967296 = x + 6442450944"
    by (simp only: mod_add_self2)
  then show ?thesis by (simp add: to_i32_def)
qed

lemma AddSatW32_clamp:
  assumes "is_i32 a" "is_i32 b"
  shows "WebRtcSpl_AddSatW32 a b = max (- 2147483648) (min 2147483647 (a + b))"
proof -
  consider "is_i32 (a + b)" | "2147483648 \<le> a + b" | "a + b < - 2147483648"
    unfolding is_i32_def by linarith
  then show ?thesis
    using assms
    by cases (auto simp: WebRtcSpl_AddSatW32_def Let_def to_i32_u32_add to_i32_id to_i32_over to_i32_under is_i32_def)
qed

lemma SubSatW32_clamp:
  assumes "is_i32 a" "is_i32 b"
  shows "WebRtcSpl_SubSatW32 a b = max (- 2147483648) (min 2147483647 (a - b))"
proof -
  consider "is_i32 (a - b)" | "2147483648 \<le> a - b" | "a - b < - 2147483648"
    unfolding is_i32_def by linarith
  then show ?thesis
    using assms
    by cases (auto simp: WebRtcSpl_SubSatW32_def Let_def to_i32_u32_sub to_i32_id to_i32_over to_i32_under is_i32_def)
qed
section \<open>Properties\<close>

text \<open>the multiply-and-look-up implementation of the leading-zero count, used where the
  compiler has no builtin, agrees with the builtin on every 32-bit and every 64-bit value.\<close>

theorem clz_lookup_equals_builtin:
  assumes "is_u32 n" and "0 \<le> m" and "m < 18446744073709551616"
  shows "WebRtcSpl_CountLeadingZeros32_NotBuiltin n = WebRtcSpl_CountLeadingZeros32 n \<and>
    WebRtcSpl_CountLeadingZeros64_NotBuiltin m = WebRtcSpl_CountLeadingZeros64 m"
  using assms clz32_eq [of n] clz32_builtin [of n] clz64_eq [of m]
  by (auto simp: is_u32_def WebRtcSpl_CountLeadingZeros64_def builtin_clz_def)

theorem clz_lookup_equals_builtin_witness:
  "WebRtcSpl_CountLeadingZeros32_NotBuiltin 40000 = WebRtcSpl_CountLeadingZeros32 40000 \<and>
   WebRtcSpl_CountLeadingZeros64_NotBuiltin 5000000000 = WebRtcSpl_CountLeadingZeros64 5000000000"
  using clz_lookup_equals_builtin [of 40000 5000000000] by (simp add: is_u32_def)

text \<open>\<open>WebRtcSpl_NormW32\<close> is the largest left shift that keeps a 32-bit value in range: by
  that amount the shifted value still fits, by one more it does not. (For \<open>0\<close> and \<open>-1\<close> every
  shift fits; the code answers 0 and 31.)\<close>

theorem norm_w32_is_largest_shift:
  assumes "is_i32 a" and "a \<noteq> 0" and "a \<noteq> - 1"
  shows "0 \<le> WebRtcSpl_NormW32 a \<and> is_i32 (a * 2 ^ nat (WebRtcSpl_NormW32 a)) \<and>
    \<not> is_i32 (a * 2 ^ Suc (nat (WebRtcSpl_NormW32 a)))"
  using NormW32_largest [OF assms] NormW32_bounds(1) [OF assms(1)] by blast

theorem norm_w32_is_largest_shift_witness:
  "WebRtcSpl_NormW32 (- 5) = 28 \<and> is_i32 (- 5 * 2 ^ 28) \<and> \<not> is_i32 (- 5 * 2 ^ 29)"
proof -
  have n: "WebRtcSpl_NormW32 (- 5) = 28" by code_simp
  with norm_w32_is_largest_shift [of "- 5"] show ?thesis by (simp add: is_i32_def)
qed

text \<open>the saturating 32-bit addition and subtraction return the exact result clamped to the
  range of \<open>int32_t\<close>, although they compute it modulo \<open>2\<^sup>3\<^sup>2\<close>.\<close>

theorem saturating_add_sub_clamp:
  assumes "is_i32 a" and "is_i32 b"
  shows "WebRtcSpl_AddSatW32 a b = max (- 2147483648) (min 2147483647 (a + b)) \<and>
    WebRtcSpl_SubSatW32 a b = max (- 2147483648) (min 2147483647 (a - b))"
  using AddSatW32_clamp [OF assms] SubSatW32_clamp [OF assms] by simp

theorem saturating_add_sub_clamp_witness:
  "WebRtcSpl_AddSatW32 2147483647 1 = 2147483647 \<and>
   WebRtcSpl_SubSatW32 (- 2147483648) 1 = - 2147483648 \<and>
   WebRtcSpl_SubSatW32 5 7 = - 2"
  using saturating_add_sub_clamp [of 2147483647 1] saturating_add_sub_clamp [of "- 2147483648" 1]
    saturating_add_sub_clamp [of 5 7]
  by (simp add: is_i32_def)

end
