(* ===== verification/SplVectors.thy ===== *)
theory SplVectors
  imports SplInline
begin

text \<open>
  The vector operations of \<open>webrtc/common_audio/signal_processing\<close>: copy and fill
  (\<open>copy_set_operations.c\<close>), extreme values and their positions (\<open>min_max_operations.c\<close>),
  scaling with shifts and saturation (\<open>vector_scaling_operations.c\<close>) and the element-wise
  products and affine maps of \<open>ilbc_specific_functions.c\<close>. An array argument is the list of
  its elements; functions that write an output array element by element return the list of the
  values written.
\<close>

section \<open>Copy and fill\<close>

definition WebRtcSpl_MemSetW16 :: "int list \<Rightarrow> int \<Rightarrow> nat \<Rightarrow> int list" where
  "WebRtcSpl_MemSetW16 arr set_value n = fold (\<lambda>j arr. arr[j := set_value]) [0..<n] arr"

definition WebRtcSpl_MemSetW32 :: "int list \<Rightarrow> int \<Rightarrow> nat \<Rightarrow> int list" where
  "WebRtcSpl_MemSetW32 arr set_value n = fold (\<lambda>j arr. arr[j := set_value]) [0..<n] arr"

text \<open>\<open>dest\<close> points at position \<open>d\<close> of an array and is decremented.\<close>

definition WebRtcSpl_MemCpyReversedOrder :: "int list \<Rightarrow> nat \<Rightarrow> int list \<Rightarrow> nat \<Rightarrow> int list" where
  "WebRtcSpl_MemCpyReversedOrder arr d source n =
     fold (\<lambda>j arr. arr[d - j := source ! j]) [0..<n] arr"

definition WebRtcSpl_CopyFromEndW16 :: "int list \<Rightarrow> nat \<Rightarrow> nat \<Rightarrow> int list \<Rightarrow> int list" where
  "WebRtcSpl_CopyFromEndW16 vector_in n samples vector_out =
     blit 0 (take samples (drop (sz_sub n samples) vector_in)) vector_out"

definition WebRtcSpl_ZerosArrayW16 :: "int list \<Rightarrow> nat \<Rightarrow> int list" where
  "WebRtcSpl_ZerosArrayW16 arr n = WebRtcSpl_MemSetW16 arr 0 n"

definition WebRtcSpl_ZerosArrayW32 :: "int list \<Rightarrow> nat \<Rightarrow> int list" where
  "WebRtcSpl_ZerosArrayW32 arr n = WebRtcSpl_MemSetW32 arr 0 n"

section \<open>Extreme values\<close>

definition WebRtcSpl_MaxAbsValueW16C :: "int list \<Rightarrow> nat \<Rightarrow> int" where
  "WebRtcSpl_MaxAbsValueW16C vector n =
     (let maximum = fold (\<lambda>i maximum. let absolute = \<bar>vector ! i\<bar>
                                      in if absolute > maximum then absolute else maximum)
                      [0..<n] 0;
          maximum = (if maximum > 32767 then 32767 else maximum)
      in to_i16 maximum)"

text \<open>\<open>abs\<close> of the smallest \<open>int\<close> is that \<open>int\<close> again, stored in a \<open>uint32_t\<close> as \<open>2\<^sup>3\<^sup>1\<close>.\<close>

definition WebRtcSpl_MaxAbsValueW32C :: "int list \<Rightarrow> nat \<Rightarrow> int" where
  "WebRtcSpl_MaxAbsValueW32C vector n =
     (let maximum = fold (\<lambda>i maximum. let absolute = to_u32 (to_i32 \<bar>vector ! i\<bar>)
                                      in if absolute > maximum then absolute else maximum)
                      [0..<n] 0;
          maximum = (if maximum < 2147483647 then maximum else 2147483647)
      in to_i32 maximum)"

definition WebRtcSpl_MaxValueW16C :: "int list \<Rightarrow> nat \<Rightarrow> int" where
  "WebRtcSpl_MaxValueW16C vector n =
     fold (\<lambda>i maximum. if vector ! i > maximum then vector ! i else maximum) [0..<n] (- 32768)"

definition WebRtcSpl_MaxValueW32C :: "int list \<Rightarrow> nat \<Rightarrow> int" where
  "WebRtcSpl_MaxValueW32C vector n =
     fold (\<lambda>i maximum. if vector ! i > maximum then vector ! i else maximum) [0..<n] (- 2147483648)"

definition WebRtcSpl_MinValueW16C :: "int list \<Rightarrow> nat \<Rightarrow> int" where
  "WebRtcSpl_MinValueW16C vector n =
     fold (\<lambda>i minimum. if vector ! i < minimum then vector ! i else minimum) [0..<n] 32767"

definition WebRtcSpl_MinValueW32C :: "int list \<Rightarrow> nat \<Rightarrow> int" where
  "WebRtcSpl_MinValueW32C vector n =
     fold (\<lambda>i minimum. if vector ! i < minimum then vector ! i else minimum) [0..<n] 2147483647"

text \<open>The index functions keep the pair of the best value so far and its index.\<close>

definition WebRtcSpl_MaxAbsIndexW16 :: "int list \<Rightarrow> nat \<Rightarrow> nat" where
  "WebRtcSpl_MaxAbsIndexW16 vector n =
     snd (fold (\<lambda>i (maximum, index). let absolute = \<bar>vector ! i\<bar>
                                     in if absolute > maximum then (absolute, i)
                                        else (maximum, index))
            [0..<n] (0, 0))"

definition WebRtcSpl_MaxIndexW16 :: "int list \<Rightarrow> nat \<Rightarrow> nat" where
  "WebRtcSpl_MaxIndexW16 vector n =
     snd (fold (\<lambda>i (maximum, index). if vector ! i > maximum then (vector ! i, i)
                                     else (maximum, index))
            [0..<n] (- 32768, 0))"

definition WebRtcSpl_MaxIndexW32 :: "int list \<Rightarrow> nat \<Rightarrow> nat" where
  "WebRtcSpl_MaxIndexW32 vector n =
     snd (fold (\<lambda>i (maximum, index). if vector ! i > maximum then (vector ! i, i)
                                     else (maximum, index))
            [0..<n] (- 2147483648, 0))"

definition WebRtcSpl_MinIndexW16 :: "int list \<Rightarrow> nat \<Rightarrow> nat" where
  "WebRtcSpl_MinIndexW16 vector n =
     snd (fold (\<lambda>i (minimum, index). if vector ! i < minimum then (vector ! i, i)
                                     else (minimum, index))
            [0..<n] (32767, 0))"

definition WebRtcSpl_MinIndexW32 :: "int list \<Rightarrow> nat \<Rightarrow> nat" where
  "WebRtcSpl_MinIndexW32 vector n =
     snd (fold (\<lambda>i (minimum, index). if vector ! i < minimum then (vector ! i, i)
                                     else (minimum, index))
            [0..<n] (2147483647, 0))"

section \<open>Scaling\<close>

definition WebRtcSpl_VectorBitShiftW16 :: "nat \<Rightarrow> int list \<Rightarrow> int \<Rightarrow> int list" where
  "WebRtcSpl_VectorBitShiftW16 n xs right_shifts =
     (if right_shifts > 0
      then map (\<lambda>x. to_i16 (shr x (nat right_shifts))) (take n xs)
      else map (\<lambda>x. to_i16 (to_i32 (x * to_i32 (shl 1 (nat (- right_shifts)))))) (take n xs))"

definition WebRtcSpl_VectorBitShiftW32 :: "nat \<Rightarrow> int list \<Rightarrow> int \<Rightarrow> int list" where
  "WebRtcSpl_VectorBitShiftW32 n xs right_shifts =
     (if right_shifts > 0
      then map (\<lambda>x. shr x (nat right_shifts)) (take n xs)
      else map (\<lambda>x. to_i32 (shl x (nat (- right_shifts)))) (take n xs))"

definition WebRtcSpl_VectorBitShiftW32ToW16 :: "nat \<Rightarrow> int list \<Rightarrow> int \<Rightarrow> int list" where
  "WebRtcSpl_VectorBitShiftW32ToW16 n xs right_shifts =
     (if right_shifts \<ge> 0
      then map (\<lambda>x. WebRtcSpl_SatW32ToW16 (shr x (nat right_shifts))) (take n xs)
      else let left_shifts = - right_shifts
           in map (\<lambda>x. WebRtcSpl_SatW32ToW16 (to_i32 (shl x (nat left_shifts)))) (take n xs))"

definition WebRtcSpl_ScaleVector :: "int list \<Rightarrow> int \<Rightarrow> nat \<Rightarrow> nat \<Rightarrow> int list" where
  "WebRtcSpl_ScaleVector xs gain n right_shifts =
     map (\<lambda>x. to_i16 (shr (to_i32 (x * gain)) right_shifts)) (take n xs)"

definition WebRtcSpl_ScaleVectorWithSat :: "int list \<Rightarrow> int \<Rightarrow> nat \<Rightarrow> nat \<Rightarrow> int list" where
  "WebRtcSpl_ScaleVectorWithSat xs gain n right_shifts =
     map (\<lambda>x. WebRtcSpl_SatW32ToW16 (shr (to_i32 (x * gain)) right_shifts)) (take n xs)"

definition WebRtcSpl_ScaleAndAddVectors ::
    "int list \<Rightarrow> int \<Rightarrow> nat \<Rightarrow> int list \<Rightarrow> int \<Rightarrow> nat \<Rightarrow> nat \<Rightarrow> int list" where
  "WebRtcSpl_ScaleAndAddVectors in1 gain1 shift1 in2 gain2 shift2 n =
     map (\<lambda>i. to_i16 (to_i16 (shr (to_i32 (gain1 * in1 ! i)) shift1)
                      + to_i16 (shr (to_i32 (gain2 * in2 ! i)) shift2))) [0..<n]"

text \<open>\<open>None\<close> is the return value \<open>-1\<close> with nothing written, \<open>Some out\<close> the return value 0.
  A null pointer is \<open>None\<close>; \<open>out_ok\<close> says that the output pointer is not null.\<close>

definition WebRtcSpl_ScaleAndAddVectorsWithRoundC ::
    "int list option \<Rightarrow> int \<Rightarrow> int list option \<Rightarrow> int \<Rightarrow> int \<Rightarrow> bool \<Rightarrow> nat \<Rightarrow> int list option" where
  "WebRtcSpl_ScaleAndAddVectorsWithRoundC v1 scale1 v2 scale2 right_shifts out_ok n =
     (let round_value = shr (to_i32 (shl 1 (nat right_shifts))) 1
      in case (v1, v2) of
           (Some xs, Some ys) \<Rightarrow>
             if \<not> out_ok \<or> n = 0 \<or> right_shifts < 0 then None
             else Some (map (\<lambda>i. to_i16 (shr (to_i32 (xs ! i * scale1 + ys ! i * scale2
                                                      + round_value))
                                             (nat right_shifts))) [0..<n])
         | _ \<Rightarrow> None)"

section \<open>Element-wise products and affine maps\<close>

text \<open>\<open>win\<close> points at position \<open>w\<close> of its array and is decremented.\<close>

definition WebRtcSpl_ReverseOrderMultArrayElements ::
    "int list \<Rightarrow> int list \<Rightarrow> nat \<Rightarrow> nat \<Rightarrow> nat \<Rightarrow> int list" where
  "WebRtcSpl_ReverseOrderMultArrayElements xs win w n right_shifts =
     map (\<lambda>i. to_i16 (shr (to_i32 (xs ! i * win ! (w - i))) right_shifts)) [0..<n]"

definition WebRtcSpl_ElementwiseVectorMult ::
    "int list \<Rightarrow> int list \<Rightarrow> nat \<Rightarrow> nat \<Rightarrow> int list" where
  "WebRtcSpl_ElementwiseVectorMult xs win n right_shifts =
     map (\<lambda>i. to_i16 (shr (to_i32 (xs ! i * win ! i)) right_shifts)) [0..<n]"

definition WebRtcSpl_AddVectorsAndShift ::
    "int list \<Rightarrow> int list \<Rightarrow> nat \<Rightarrow> nat \<Rightarrow> int list" where
  "WebRtcSpl_AddVectorsAndShift in1 in2 n right_shifts =
     map (\<lambda>i. to_i16 (shr (in1 ! i + in2 ! i) right_shifts)) [0..<n]"

definition WebRtcSpl_AddAffineVectorToVector ::
    "int list \<Rightarrow> int list \<Rightarrow> int \<Rightarrow> int \<Rightarrow> nat \<Rightarrow> nat \<Rightarrow> int list" where
  "WebRtcSpl_AddAffineVectorToVector out xs gain add_constant right_shifts n =
     map (\<lambda>i. to_i16 (out ! i + to_i16 (shr (to_i32 (xs ! i * gain + add_constant)) right_shifts)))
       [0..<n]"

definition WebRtcSpl_AffineTransformVector ::
    "int list \<Rightarrow> int \<Rightarrow> int \<Rightarrow> nat \<Rightarrow> nat \<Rightarrow> int list" where
  "WebRtcSpl_AffineTransformVector xs gain add_constant right_shifts n =
     map (\<lambda>i. to_i16 (shr (to_i32 (xs ! i * gain + add_constant)) right_shifts)) [0..<n]"


section \<open>Facts about extremes\<close>

lemma fold_fill:
  "n \<le> length arr \<Longrightarrow> fold (\<lambda>j arr. arr[j := v]) [0..<n] arr = replicate n v @ drop n arr"
proof (induction n)
  case (Suc n)
  then show ?case
    by (simp add: list_update_append Cons_nth_drop_Suc [symmetric] replicate_append_same [symmetric])
qed simp

lemma MemSetW16_eq: "n \<le> length arr \<Longrightarrow> WebRtcSpl_MemSetW16 arr v n = replicate n v @ drop n arr"
  by (simp add: WebRtcSpl_MemSetW16_def fold_fill)

lemma MemSetW32_eq: "n \<le> length arr \<Longrightarrow> WebRtcSpl_MemSetW32 arr v n = replicate n v @ drop n arr"
  by (simp add: WebRtcSpl_MemSetW32_def fold_fill)

lemma MemCpyReversedOrder_eq:
  assumes "n \<le> Suc d" "d < length arr"
  shows "length (WebRtcSpl_MemCpyReversedOrder arr d src n) = length arr \<and>
    (\<forall>i < length arr. WebRtcSpl_MemCpyReversedOrder arr d src n ! i
       = (if d < i + n \<and> i \<le> d then src ! (d - i) else arr ! i))"
  using assms(1)
proof (induction n)
  case 0
  then show ?case by (simp add: WebRtcSpl_MemCpyReversedOrder_def)
next
  case (Suc n)
  then show ?case using assms(2)
    by (auto simp: WebRtcSpl_MemCpyReversedOrder_def nth_list_update)
qed

text \<open>The two accumulation patterns of the extreme value functions.\<close>

lemma fold_max_upt:
  "fold (\<lambda>i m. if g i > m then g i else m) [0..<n] (m :: int) = Max (insert m (g ` {0..<n}))"
proof (induction n)
  case (Suc n)
  have "Max (insert m (g ` {0..<Suc n})) = max (g n) (Max (insert m (g ` {0..<n})))"
  proof -
    have "insert m (g ` {0..<Suc n}) = insert (g n) (insert m (g ` {0..<n}))"
      by (auto simp: less_Suc_eq)
    then show ?thesis by (simp only:) (rule Max_insert; simp)
  qed
  moreover define M where "M = Max (insert m (g ` {0..<n}))"
  ultimately have eq: "Max (insert m (g ` {0..<Suc n})) = max (g n) M" by simp
  show ?case unfolding eq using Suc [folded M_def] by (simp add: max_def)
qed simp

lemma fold_min_upt:
  "fold (\<lambda>i m. if g i < m then g i else m) [0..<n] (m :: int) = Min (insert m (g ` {0..<n}))"
proof (induction n)
  case (Suc n)
  have "Min (insert m (g ` {0..<Suc n})) = min (g n) (Min (insert m (g ` {0..<n})))"
  proof -
    have "insert m (g ` {0..<Suc n}) = insert (g n) (insert m (g ` {0..<n}))"
      by (auto simp: less_Suc_eq)
    then show ?thesis by (simp only:) (rule Min_insert; simp)
  qed
  moreover define M where "M = Min (insert m (g ` {0..<n}))"
  ultimately have eq: "Min (insert m (g ` {0..<Suc n})) = min (g n) M" by simp
  show ?case unfolding eq using Suc [folded M_def] by (simp add: min_def)
qed simp

lemma fold_argmax:
  assumes "0 < n" and "\<And>i. i < n \<Longrightarrow> m0 \<le> (g i :: int)"
  defines "r \<equiv> snd (fold (\<lambda>i (m, k). if g i > m then (g i, i) else (m, k)) [0..<n] (m0, 0))"
  shows "r < n" "\<forall>j<n. g j \<le> g r" "\<forall>j<r. g j < g r"
proof -
  let ?f = "\<lambda>i (m, k). if g i > m then (g i, i) else (m, k)"
  define P where "P k s \<longleftrightarrow> (case s of (m, i) \<Rightarrow> (\<forall>j<k. g j \<le> m) \<and>
    (m = m0 \<and> i = 0 \<or> i < k \<and> g i = m \<and> m0 \<le> m \<and> (\<forall>j<i. g j < m)))" for k and s :: "int \<times> nat"
  have "P n (fold ?f [0..<n] (m0, 0))"
  proof (rule fold_upt_inv)
    show "P 0 (m0, 0)" by (simp add: P_def)
  next
    fix i and s :: "int \<times> nat" assume "P i s"
    then show "P (Suc i) (?f i s)"
      by (cases s) (auto simp: P_def less_Suc_eq)
  qed simp
  moreover obtain m where "fold ?f [0..<n] (m0, 0) = (m, r)"
    by (cases "fold ?f [0..<n] (m0, 0)") (simp add: r_def)
  ultimately have "P n (m, r)" by simp
  then show "r < n" "\<forall>j<n. g j \<le> g r" "\<forall>j<r. g j < g r"
    using assms(1,2) by (auto simp: P_def order_le_less_trans intro: order_trans)
qed

lemma fold_argmin:
  assumes "0 < n" and "\<And>i. i < n \<Longrightarrow> (g i :: int) \<le> m0"
  defines "r \<equiv> snd (fold (\<lambda>i (m, k). if g i < m then (g i, i) else (m, k)) [0..<n] (m0, 0))"
  shows "r < n" "\<forall>j<n. g r \<le> g j" "\<forall>j<r. g r < g j"
proof -
  let ?f = "\<lambda>i (m, k). if g i < m then (g i, i) else (m, k)"
  define P where "P k s \<longleftrightarrow> (case s of (m, i) \<Rightarrow> (\<forall>j<k. m \<le> g j) \<and>
    (m = m0 \<and> i = 0 \<or> i < k \<and> g i = m \<and> m \<le> m0 \<and> (\<forall>j<i. m < g j)))" for k and s :: "int \<times> nat"
  have "P n (fold ?f [0..<n] (m0, 0))"
  proof (rule fold_upt_inv)
    show "P 0 (m0, 0)" by (simp add: P_def)
  next
    fix i and s :: "int \<times> nat" assume "P i s"
    then show "P (Suc i) (?f i s)"
      by (cases s) (auto simp: P_def less_Suc_eq)
  qed simp
  moreover obtain m where "fold ?f [0..<n] (m0, 0) = (m, r)"
    by (cases "fold ?f [0..<n] (m0, 0)") (simp add: r_def)
  ultimately have "P n (m, r)" by simp
  then show "r < n" "\<forall>j<n. g r \<le> g j" "\<forall>j<r. g r < g j"
    using assms(1,2) by (auto simp: P_def order_le_less_trans intro: order_trans)
qed

definition all_i16 :: "int list \<Rightarrow> bool" where
  "all_i16 xs \<longleftrightarrow> (\<forall>x \<in> set xs. is_i16 x)"

definition all_i32 :: "int list \<Rightarrow> bool" where
  "all_i32 xs \<longleftrightarrow> (\<forall>x \<in> set xs. is_i32 x)"

lemma all_i16_nth: "all_i16 xs \<Longrightarrow> i < length xs \<Longrightarrow> is_i16 (xs ! i)"
  by (simp add: all_i16_def)

lemma Max_insert_absorb:
  assumes "finite A" "A \<noteq> {}" "\<And>x. x \<in> A \<Longrightarrow> m \<le> (x :: int)"
  shows "Max (insert m A) = Max A"
proof -
  have "m \<le> Max A" using assms by (meson Max_in)
  then show ?thesis using assms(1,2) by (simp add: max_absorb2)
qed

lemma Min_insert_absorb:
  assumes "finite A" "A \<noteq> {}" "\<And>x. x \<in> A \<Longrightarrow> (x :: int) \<le> m"
  shows "Min (insert m A) = Min A"
proof -
  have "Min A \<le> m" using assms by (meson Min_in)
  then show ?thesis using assms(1,2) by (simp add: min_absorb2)
qed

lemma nth_image_take: "n \<le> length xs \<Longrightarrow> (\<lambda>i. g (xs ! i)) ` {0..<n} = g ` set (take n xs)"
  by (simp add: image_image flip: nth_image)

lemma MaxAbsValueW16C_eq:
  assumes "all_i16 xs" "0 < n" "n \<le> length xs"
  shows "WebRtcSpl_MaxAbsValueW16C xs n = min 32767 (Max (abs ` set (take n xs)))"
proof -
  have "fold (\<lambda>i m. let a = \<bar>xs ! i\<bar> in if a > m then a else m) [0..<n] 0
      = Max (insert 0 ((\<lambda>i. \<bar>xs ! i\<bar>) ` {0..<n}))"
    by (simp add: Let_def fold_max_upt)
  also have "\<dots> = Max ((\<lambda>i. \<bar>xs ! i\<bar>) ` {0..<n})"
    using assms(2) by (intro Max_insert_absorb) auto
  also have "(\<lambda>i. \<bar>xs ! i\<bar>) ` {0..<n} = abs ` set (take n xs)"
    by (rule nth_image_take) (rule assms(3))
  finally have eq: "fold (\<lambda>i m. let a = \<bar>xs ! i\<bar> in if a > m then a else m) [0..<n] 0
      = Max (abs ` set (take n xs))" .
  have "set (take n xs) \<noteq> {}" using assms(2,3) by auto
  then have "0 \<le> Max (abs ` set (take n xs))"
    by (metis (no_types, lifting) Max_in List.finite_set abs_ge_zero finite_imageI image_iff image_is_empty)
  then show ?thesis
    unfolding WebRtcSpl_MaxAbsValueW16C_def eq by (simp add: Let_def to_i16_small min_def)
qed

lemma set_take_nonempty: "0 < n \<Longrightarrow> n \<le> length xs \<Longrightarrow> set (take n xs) \<noteq> {}"
  by auto

lemma fold_max_take:
  assumes "0 < n" "n \<le> length xs" "\<forall>x \<in> set xs. m \<le> (x :: int)"
  shows "fold (\<lambda>i m. if xs ! i > m then xs ! i else m) [0..<n] m = Max (set (take n xs))"
proof -
  have "fold (\<lambda>i m. if xs ! i > m then xs ! i else m) [0..<n] m = Max (insert m ((!) xs ` {0..<n}))"
    by (rule fold_max_upt)
  also have "(!) xs ` {0..<n} = set (take n xs)" by (rule nth_image) (rule assms(2))
  also have "Max (insert m (set (take n xs))) = Max (set (take n xs))"
    using assms(3) set_take_nonempty [OF assms(1,2)] by (intro Max_insert_absorb) (auto dest: in_set_takeD)
  finally show ?thesis .
qed

lemma fold_min_take:
  assumes "0 < n" "n \<le> length xs" "\<forall>x \<in> set xs. (x :: int) \<le> m"
  shows "fold (\<lambda>i m. if xs ! i < m then xs ! i else m) [0..<n] m = Min (set (take n xs))"
proof -
  have "fold (\<lambda>i m. if xs ! i < m then xs ! i else m) [0..<n] m = Min (insert m ((!) xs ` {0..<n}))"
    by (rule fold_min_upt)
  also have "(!) xs ` {0..<n} = set (take n xs)" by (rule nth_image) (rule assms(2))
  also have "Min (insert m (set (take n xs))) = Min (set (take n xs))"
    using assms(3) set_take_nonempty [OF assms(1,2)] by (intro Min_insert_absorb) (auto dest: in_set_takeD)
  finally show ?thesis .
qed

lemma ScaleAndAddVectorsWithRoundC_eq:
  "WebRtcSpl_ScaleAndAddVectorsWithRoundC (Some xs) s1 (Some ys) s2 (int k) True n
   = (if n = 0 then None
      else Some (map (\<lambda>i. to_i16 (shr (to_i32 (xs ! i * s1 + ys ! i * s2
             + shr (to_i32 (2 ^ k)) 1)) k)) [0..<n]))"
  by (simp add: WebRtcSpl_ScaleAndAddVectorsWithRoundC_def Let_def shl_def)

section \<open>Properties\<close>

text \<open>the extreme value functions return the extremes of the first \<open>n\<close> elements; the largest
  magnitude is clamped to 32767, the only value where it matters being \<open>-32768\<close>.\<close>

theorem extreme_values_correct:
  assumes "all_i16 xs" and "0 < n" and "n \<le> length xs"
  shows "WebRtcSpl_MaxValueW16C xs n = Max (set (take n xs)) \<and>
    WebRtcSpl_MinValueW16C xs n = Min (set (take n xs)) \<and>
    WebRtcSpl_MaxValueW32C xs n = Max (set (take n xs)) \<and>
    WebRtcSpl_MinValueW32C xs n = Min (set (take n xs)) \<and>
    WebRtcSpl_MaxAbsValueW16C xs n = min 32767 (Max (abs ` set (take n xs)))"
proof -
  have b: "\<forall>x \<in> set xs. - 32768 \<le> x \<and> x \<le> 32767"
    using assms(1) by (auto simp: all_i16_def is_i16_def)
  then have "\<forall>x \<in> set xs. - 2147483648 \<le> x \<and> x \<le> 2147483647" by force
  with b show ?thesis
    using MaxAbsValueW16C_eq [OF assms] fold_max_take [OF assms(2,3)] fold_min_take [OF assms(2,3)]
    by (simp add: WebRtcSpl_MaxValueW16C_def WebRtcSpl_MinValueW16C_def
        WebRtcSpl_MaxValueW32C_def WebRtcSpl_MinValueW32C_def)
qed

theorem extreme_values_correct_witness:
  "WebRtcSpl_MaxValueW16C [3, - 32768, 9, 100] 3 = 9 \<and>
   WebRtcSpl_MinValueW16C [3, - 32768, 9, 100] 3 = - 32768 \<and>
   WebRtcSpl_MaxAbsValueW16C [3, - 32768, 9, 100] 3 = 32767"
  using extreme_values_correct [of "[3, - 32768, 9, 100]" 3]
  by (simp add: all_i16_def is_i16_def eval_nat_numeral)

text \<open>the index functions return the first position, among the first \<open>n\<close>, of the largest
  value, the smallest value and the largest magnitude.\<close>

theorem extreme_indices_first:
  assumes "all_i16 xs" and "0 < n" and "n \<le> length xs"
  shows "(let r = WebRtcSpl_MaxIndexW16 xs n
      in r < n \<and> (\<forall>j < n. xs ! j \<le> xs ! r) \<and> (\<forall>j < r. xs ! j < xs ! r)) \<and>
    (let r = WebRtcSpl_MinIndexW16 xs n
      in r < n \<and> (\<forall>j < n. xs ! r \<le> xs ! j) \<and> (\<forall>j < r. xs ! r < xs ! j)) \<and>
    (let r = WebRtcSpl_MaxAbsIndexW16 xs n
      in r < n \<and> (\<forall>j < n. \<bar>xs ! j\<bar> \<le> \<bar>xs ! r\<bar>) \<and> (\<forall>j < r. \<bar>xs ! j\<bar> < \<bar>xs ! r\<bar>))"
proof -
  have b: "- 32768 \<le> xs ! i \<and> xs ! i \<le> 32767" if "i < n" for i
    using all_i16_nth [OF assms(1), of i] that assms(3) by (simp add: is_i16_def)
  show ?thesis
    using fold_argmax [of n "- 32768" "(!) xs"] fold_argmin [of n "(!) xs" 32767]
      fold_argmax [of n 0 "\<lambda>i. \<bar>xs ! i\<bar>"] assms(2) b
    by (simp add: WebRtcSpl_MaxIndexW16_def WebRtcSpl_MinIndexW16_def WebRtcSpl_MaxAbsIndexW16_def Let_def)
qed

theorem extreme_indices_first_witness:
  "WebRtcSpl_MaxIndexW16 [3, 9, - 20, 9] 4 = 1 \<and> WebRtcSpl_MinIndexW16 [3, 9, - 20, 9] 4 = 2 \<and>
   WebRtcSpl_MaxAbsIndexW16 [3, 9, - 20, 9] 4 = 2 \<and> [3, 9, - 20, 9] ! 0 < (9 :: int)"
proof -
  have e: "WebRtcSpl_MaxIndexW16 [3, 9, - 20, 9] 4 = 1" "WebRtcSpl_MinIndexW16 [3, 9, - 20, 9] 4 = 2"
    "WebRtcSpl_MaxAbsIndexW16 [3, 9, - 20, 9] 4 = 2" by code_simp+
  have "\<forall>j < (1 :: nat). [3, 9, - 20, 9] ! j < [3, 9, - 20, 9 :: int] ! 1"
    using extreme_indices_first [of "[3, 9, - 20, 9]" 4] by (simp add: e all_i16_def is_i16_def)
  with e show ?thesis by simp
qed

end
