(* ===== verification/SplMath.thy ===== *)
theory SplMath
  imports SplVectors
begin

text \<open>
  Scalar mathematics and correlation of \<open>webrtc/common_audio/signal_processing\<close>: the guarded
  divisions (\<open>division_operations.c\<close>), the integer square root (\<open>spl_sqrt_floor.c\<close>), energies
  with their overflow-avoiding scaling (\<open>get_scaling_square.c\<close>, \<open>energy.c\<close>), correlations
  (\<open>auto_correlation.c\<close>, \<open>cross_correlation.c\<close>), the pseudo random numbers
  (\<open>randomization_functions.c\<close>) and the Hanning window (\<open>get_hanning_window.c\<close>).
\<close>

section \<open>Divisions\<close>

definition WebRtcSpl_DivU32U16 :: "int \<Rightarrow> int \<Rightarrow> int" where
  "WebRtcSpl_DivU32U16 num den = (if den \<noteq> 0 then num div den else 0xFFFFFFFF)"

definition WebRtcSpl_DivW32W16 :: "int \<Rightarrow> int \<Rightarrow> int" where
  "WebRtcSpl_DivW32W16 num den = (if den \<noteq> 0 then to_i32 (c_div num den) else 0x7FFFFFFF)"

definition WebRtcSpl_DivW32W16ResW16 :: "int \<Rightarrow> int \<Rightarrow> int" where
  "WebRtcSpl_DivW32W16ResW16 num den = (if den \<noteq> 0 then to_i16 (to_i32 (c_div num den)) else 0x7FFF)"

text \<open>The body of the loop \<open>while (k--)\<close>, on \<open>(div, L_num)\<close>.\<close>

definition div_q31_step :: "int \<Rightarrow> int \<times> int \<Rightarrow> int \<times> int" where
  "div_q31_step L_den s =
     (let (q, L_num) = s;
          q = to_i32 (shl q 1);
          L_num = to_i32 (shl L_num 1)
      in if L_num \<ge> L_den then (to_i32 (q + 1), to_i32 (L_num - L_den)) else (q, L_num))"

definition WebRtcSpl_DivResultInQ31 :: "int \<Rightarrow> int \<Rightarrow> int" where
  "WebRtcSpl_DivResultInQ31 num den =
     (if num = 0 then 0
      else let (change_sign, L_num) = (if num < 0 then (1, to_i32 (- num)) else (0 :: nat, num));
               (change_sign, L_den) = (if den < 0 then (change_sign + 1, to_i32 (- den))
                                       else (change_sign, den));
               (q, L_num) = (div_q31_step L_den ^^ 31) (0, L_num)
           in if change_sign = 1 then to_i32 (- q) else q)"

definition WebRtcSpl_DivW32HiLow :: "int \<Rightarrow> int \<Rightarrow> int \<Rightarrow> int" where
  "WebRtcSpl_DivW32HiLow num den_hi den_low =
     (let approx = to_i16 (WebRtcSpl_DivW32W16 0x1FFFFFFF den_hi);
          tmpW32 = to_i32 (shl (den_hi * approx) 1 + shl (shr (den_low * approx) 15) 1);
          tmpW32 = to_i32 (0x7fffffff - tmpW32);
          tmp_hi = to_i16 (shr tmpW32 16);
          tmp_low = to_i16 (shr (to_i32 (tmpW32 - shl tmp_hi 16)) 1);
          tmpW32 = to_i32 (shl (tmp_hi * approx + shr (tmp_low * approx) 15) 1);
          tmp_hi = to_i16 (shr tmpW32 16);
          tmp_low = to_i16 (shr (to_i32 (tmpW32 - shl tmp_hi 16)) 1);
          num_hi = to_i16 (shr num 16);
          num_low = to_i16 (shr (to_i32 (num - shl num_hi 16)) 1);
          tmpW32 = to_i32 (num_hi * tmp_hi + shr (num_hi * tmp_low) 15 + shr (num_low * tmp_hi) 15)
      in to_i32 (shl tmpW32 3))"

section \<open>Square root\<close>

text \<open>One use of the macro \<open>WEBRTC_SPL_SQRT_ITER\<close>, on \<open>(root, value)\<close>.\<close>

definition sqrt_iter :: "nat \<Rightarrow> int \<times> int \<Rightarrow> int \<times> int" where
  "sqrt_iter N s =
     (let (root, val) = s;
          try1 = to_i32 (root + shl 1 N)
      in if val \<ge> to_i32 (shl try1 N)
         then (root OR shl 2 N, to_i32 (val - to_i32 (shl try1 N)))
         else (root, val))"

definition WebRtcSpl_SqrtFloor :: "int \<Rightarrow> int" where
  "WebRtcSpl_SqrtFloor val =
     shr (fst (fold sqrt_iter [15, 14, 13, 12, 11, 10, 9, 8, 7, 6, 5, 4, 3, 2, 1, 0] (0, val))) 1"

section \<open>Energy and correlation\<close>

definition WebRtcSpl_GetScalingSquare :: "int list \<Rightarrow> nat \<Rightarrow> nat \<Rightarrow> int" where
  "WebRtcSpl_GetScalingSquare in_vector n ntimes =
     (let nbits = WebRtcSpl_GetSizeInBits (to_u32 (int ntimes));
          smax = fold (\<lambda>i smax. let sabs = to_i16 (if in_vector ! i > 0 then in_vector ! i
                                                   else - in_vector ! i)
                                in if sabs > smax then sabs else smax) [0..<n] (- 1);
          t = WebRtcSpl_NormW32 (to_i32 (smax * smax))
      in if smax = 0 then 0
         else to_i16 (if t > nbits then 0 else nbits - t))"

text \<open>Result: the energy and the scale factor.\<close>

definition WebRtcSpl_Energy :: "int list \<Rightarrow> nat \<Rightarrow> int \<times> int" where
  "WebRtcSpl_Energy vector n =
     (let scaling = WebRtcSpl_GetScalingSquare vector n n;
          en = fold (\<lambda>i en. to_i32 (en + shr (to_i32 (vector ! i * vector ! i)) (nat scaling)))
                 [0..<n] 0
      in (en, scaling))"

text \<open>The unrolled inner loop of \<open>WebRtcSpl_AutoCorrelation\<close>: result \<open>(j, sum)\<close> where it stops.\<close>

function acorr_unrolled :: "int list \<Rightarrow> nat \<Rightarrow> nat \<Rightarrow> nat \<Rightarrow> nat \<Rightarrow> int \<Rightarrow> nat \<times> int" where
  "acorr_unrolled xs n i scaling j s =
     (if i + j + 3 < n
      then let sum = to_i32 (s + shr (to_i32 (xs ! (j + 0) * xs ! (i + j + 0))) scaling);
               sum = to_i32 (sum + shr (to_i32 (xs ! (j + 1) * xs ! (i + j + 1))) scaling);
               sum = to_i32 (sum + shr (to_i32 (xs ! (j + 2) * xs ! (i + j + 2))) scaling);
               sum = to_i32 (sum + shr (to_i32 (xs ! (j + 3) * xs ! (i + j + 3))) scaling)
           in acorr_unrolled xs n i scaling (j + 4) sum
      else (j, s))"
  by pat_completeness auto
termination
  by (relation "measure (\<lambda>(xs, n, i, scaling, j, sum). n - j)") auto

declare acorr_unrolled.simps [simp del]

text \<open>Result: the correlations, the scale and the return value \<open>order + 1\<close>.\<close>

definition WebRtcSpl_AutoCorrelation :: "int list \<Rightarrow> nat \<Rightarrow> nat \<Rightarrow> int list \<times> int \<times> nat" where
  "WebRtcSpl_AutoCorrelation in_vector n order =
     (let smax = WebRtcSpl_MaxAbsValueW16C in_vector n;
          scaling = (if smax = 0 then 0
                     else let nbits = WebRtcSpl_GetSizeInBits (to_u32 (int n));
                              t = WebRtcSpl_NormW32 (to_i32 (smax * smax))
                          in if t > nbits then 0 else nbits - t);
          result = map (\<lambda>i. let (j, sum) = acorr_unrolled in_vector n i (nat scaling) 0 0
                            in fold (\<lambda>j sum. to_i32 (sum + shr (to_i32 (in_vector ! j * in_vector ! (i + j)))
                                                                (nat scaling)))
                                 [j..<n - i] sum) [0..<order + 1]
      in (result, scaling, order + 1))"

text \<open>\<open>seq2\<close> points at position \<open>off\<close> of its array and moves by \<open>step_seq2\<close> per lag.\<close>

definition WebRtcSpl_CrossCorrelationC ::
    "int list \<Rightarrow> int list \<Rightarrow> nat \<Rightarrow> nat \<Rightarrow> nat \<Rightarrow> nat \<Rightarrow> int \<Rightarrow> int list" where
  "WebRtcSpl_CrossCorrelationC seq1 seq2 off dim_seq dim_cross_correlation right_shifts step_seq2 =
     map (\<lambda>i. fold (\<lambda>j corr. to_i32 (corr + shr (to_i32 (seq1 ! j
                        * seq2 ! nat (int off + int i * step_seq2 + int j))) right_shifts))
                [0..<dim_seq] 0) [0..<dim_cross_correlation]"

section \<open>Random numbers and the Hanning window\<close>

definition kRandNTable :: "int list" where
  "kRandNTable = [
    9178, -7260, 40, 10189, 4894, -3531, -13779, 14764, -4008, -8884, -8990, 1008,
    7368, 5184, 3251, -5817, -9786, 5963, 1770, 8066, -7135, 10772, -2298, 1361,
    6484, 2241, -8633, 792, 199, -3344, 6553, -10079, -15040, 95, 11608, -12469,
    14161, -4176, 2476, 6403, 13685, -16005, 6646, 2239, 10916, -3004, -602, -3141,
    2142, 14144, -5829, 5305, 8209, 4713, 2697, -5112, 16092, -1210, -2891, -6631,
    -5360, -11878, -6781, -2739, -6392, 536, 10923, 10872, 5059, -4748, -7770, 5477,
    38, -1025, -2892, 1638, 6304, 14375, -11028, 1553, -1565, 10762, -393, 4040,
    5257, 12310, 6554, -4799, 4899, -6354, 1603, -1048, -2220, 8247, -186, -8944,
    -12004, 2332, 4801, -4933, 6371, 131, 8614, -5927, -8287, -22760, 4033, -15162,
    3385, 3246, 3153, -5250, 3766, 784, 6494, -62, 3531, -1582, 15572, 662,
    -3952, -330, -3196, 669, 7236, -2678, -6569, 23319, -8645, -741, 14830, -15976,
    4903, 315, -11342, 10311, 1858, -7777, 2145, 5436, 5677, -113, -10033, 826,
    -1353, 17210, 7768, 986, -1471, 8291, -4982, 8207, -14911, -6255, -2449, -11881,
    -7059, -11703, -4338, 8025, 7538, -2823, -12490, 9470, -1613, -2529, -10092, -7807,
    9480, 6970, -12844, 5123, 3532, 4816, 4803, -8455, -5045, 14032, -4378, -1643,
    5756, -11041, -2732, -16618, -6430, -18375, -3320, 6098, 5131, -4269, -8840, 2482,
    -7048, 1547, -21890, -6505, -7414, -424, -11722, 7955, 1653, -17299, 1823, 473,
    -9232, 3337, 1111, 873, 4018, -8982, 9889, 3531, -11763, -3799, 7373, -4539,
    3231, 7054, -8537, 7616, 6244, 16635, 447, -2915, 13967, 705, -2669, -1520,
    -1771, -16188, 5956, 5117, 6371, -9936, -1448, 2480, 5128, 7550, -8130, 5236,
    8213, -6443, 7707, -1950, -13811, 7218, 7031, -3883, 67, 5731, -2874, 13480,
    -3743, 9298, -3280, 3552, -4425, -18, -3785, -9988, -5357, 5477, -11794, 2117,
    1416, -9935, 3376, 802, -5079, -8243, 12652, 66, 3653, -2368, 6781, -21895,
    -7227, 2487, 7839, -385, 6646, -7016, -4658, 5531, -1705, 834, 129, 3694,
    -1343, 2238, -22640, -6417, -11139, 11301, -2945, -3494, -5626, 185, -3615, -2041,
    -7972, -3106, -60, -23497, -1566, 17064, 3519, 2518, 304, -6805, -10269, 2105,
    1936, -426, -736, -8122, -1467, 4238, -6939, -13309, 360, 7402, -7970, 12576,
    3287, 12194, -6289, -16006, 9171, 4042, -9193, 9123, -2512, 6388, -4734, -8739,
    1028, -5406, -1696, 5889, -666, -4736, 4971, 3565, 9362, -6292, 3876, -3652,
    -19666, 7523, -4061, 391, -11773, 7502, -3763, 4929, -9478, 13278, 2805, 4496,
    7814, 16419, 12455, -14773, 2127, -2746, 3763, 4847, 3698, 6978, 4751, -6957,
    -3581, -45, 6252, 1513, -4797, -7925, 11270, 16188, -2359, -5269, 9376, -10777,
    7262, 20031, -6515, -2208, -5353, 8085, -1341, -1303, 7333, 5576, 3625, 5763,
    -7931, 9833, -3371, -10305, 6534, -13539, -9971, 997, 8464, -4064, -1495, 1857,
    13624, 5458, 9490, -11086, -4524, 12022, -550, -198, 408, -8455, -7068, 10289,
    9712, -3366, 9028, -7621, -5243, 2362, 6909, 4672, -4933, -1799, 4709, -4563,
    -62, -566, 1624, -7010, 14730, -17791, -3697, -2344, -1741, 7099, -9509, -6855,
    -1989, 3495, -2289, 2031, 12784, 891, 14189, -3963, -5683, 421, -12575, 1724,
    -12682, -5970, -8169, 3143, -1824, -5488, -5130, 8536, 12799, 794, 5738, 3459,
    -11689, -258, -3738, -3775, -8742, 2333, 8312, -9383, 10331, 13119, 8398, 10644,
    -19433, -6446, -16277, -11793, 16284, 9345, 15222, 15834, 2009, -7349, 130, -14547,
    338, -5998, 3337, 21492, 2406, 7703, -951, 11196, -564, 3406, 2217, 4806,
    2374, -5797, 11839, 8940, -11874, 18213, 2855, 10492]"

definition IncreaseSeed :: "int \<Rightarrow> int" where
  "IncreaseSeed seed = to_u32 (to_u32 (seed * 69069) + 1) AND (0x80000000 - 1)"

text \<open>The generators return the new seed with their value.\<close>

definition WebRtcSpl_RandU :: "int \<Rightarrow> int \<times> int" where
  "WebRtcSpl_RandU seed = (let seed = IncreaseSeed seed in (seed, to_i16 (shr seed 16)))"

definition WebRtcSpl_RandN :: "int \<Rightarrow> int \<times> int" where
  "WebRtcSpl_RandN seed =
     (let seed = IncreaseSeed seed in (seed, kRandNTable ! nat (shr seed 23)))"

fun WebRtcSpl_RandUArray :: "nat \<Rightarrow> int \<Rightarrow> int \<times> int list" where
  "WebRtcSpl_RandUArray 0 seed = (seed, [])"
| "WebRtcSpl_RandUArray (Suc n) seed =
     (let (seed, v) = WebRtcSpl_RandU seed; (seed, vs) = WebRtcSpl_RandUArray n seed
      in (seed, v # vs))"

definition kHanningTable :: "int list" where
  "kHanningTable = [
    1, 2, 6, 10, 15, 22, 30, 39, 50, 62, 75, 89,
    104, 121, 138, 157, 178, 199, 222, 246, 271, 297, 324, 353,
    383, 413, 446, 479, 513, 549, 586, 624, 663, 703, 744, 787,
    830, 875, 920, 967, 1015, 1064, 1114, 1165, 1218, 1271, 1325, 1381,
    1437, 1494, 1553, 1612, 1673, 1734, 1796, 1859, 1924, 1989, 2055, 2122,
    2190, 2259, 2329, 2399, 2471, 2543, 2617, 2691, 2765, 2841, 2918, 2995,
    3073, 3152, 3232, 3312, 3393, 3475, 3558, 3641, 3725, 3809, 3895, 3980,
    4067, 4154, 4242, 4330, 4419, 4509, 4599, 4689, 4781, 4872, 4964, 5057,
    5150, 5244, 5338, 5432, 5527, 5622, 5718, 5814, 5910, 6007, 6104, 6202,
    6299, 6397, 6495, 6594, 6693, 6791, 6891, 6990, 7090, 7189, 7289, 7389,
    7489, 7589, 7690, 7790, 7890, 7991, 8091, 8192, 8293, 8393, 8494, 8594,
    8694, 8795, 8895, 8995, 9095, 9195, 9294, 9394, 9493, 9593, 9691, 9790,
    9889, 9987, 10085, 10182, 10280, 10377, 10474, 10570, 10666, 10762, 10857, 10952,
    11046, 11140, 11234, 11327, 11420, 11512, 11603, 11695, 11785, 11875, 11965, 12054,
    12142, 12230, 12317, 12404, 12489, 12575, 12659, 12743, 12826, 12909, 12991, 13072,
    13152, 13232, 13311, 13389, 13466, 13543, 13619, 13693, 13767, 13841, 13913, 13985,
    14055, 14125, 14194, 14262, 14329, 14395, 14460, 14525, 14588, 14650, 14711, 14772,
    14831, 14890, 14947, 15003, 15059, 15113, 15166, 15219, 15270, 15320, 15369, 15417,
    15464, 15509, 15554, 15597, 15640, 15681, 15721, 15760, 15798, 15835, 15871, 15905,
    15938, 15971, 16001, 16031, 16060, 16087, 16113, 16138, 16162, 16185, 16206, 16227,
    16246, 16263, 16280, 16295, 16309, 16322, 16334, 16345, 16354, 16362, 16369, 16374,
    16378, 16382, 16383, 16384]"

text \<open>\<open>None\<close> is a read outside the table.\<close>

fun hanning_loop :: "nat \<Rightarrow> int \<Rightarrow> int \<Rightarrow> int list option" where
  "hanning_loop 0 factor index = Some []"
| "hanning_loop (Suc n) factor index =
     (let index = to_i32 (index + factor); i = shr index 22
      in if 0 \<le> i \<and> i < 256
         then map_option ((#) (kHanningTable ! nat i)) (hanning_loop n factor index)
         else None)"

definition WebRtcSpl_GetHanningWindow :: "nat \<Rightarrow> int list option" where
  "WebRtcSpl_GetHanningWindow n =
     (let factor = WebRtcSpl_DivW32W16 0x40000000 (to_i16 (int n));
          index = (if n < 513 then - 0x200000 else - 0x100000)
      in hanning_loop n factor index)"


section \<open>The integer square root\<close>

lemma or_power_int:
  assumes "2 ^ Suc k dvd (x :: int)"
  shows "x OR 2 ^ k = x + 2 ^ k"
proof -
  obtain q where q: "x = 2 ^ Suc k * q" using assms by (elim dvdE)
  have "x = push_bit (Suc k) q" by (simp add: q push_bit_eq_mult)
  then have "x AND 2 ^ k = 0"
    by (intro bit_eqI) (auto simp: bit_and_iff bit_push_bit_iff bit_exp_iff simp del: push_bit_Suc)
  then show ?thesis by (simp add: disjunctive_add_eq_or)
qed

definition sqrt_inv :: "int \<Rightarrow> nat \<Rightarrow> int \<times> int \<Rightarrow> bool" where
  "sqrt_inv v N s \<longleftrightarrow> (\<exists>r. fst s = 2 * r \<and> 0 \<le> r \<and> 2 ^ N dvd r \<and> snd s = v - r * r \<and> 0 \<le> snd s
     \<and> v < (r + 2 ^ N) * (r + 2 ^ N) \<and> r + 2 ^ N \<le> 65536)"

lemma sqrt_probe_bound:
  assumes "N \<le> 15" "0 \<le> r" "r + 2 ^ Suc N \<le> 65536"
  shows "(2 * r + 2 ^ N) * 2 ^ N \<le> (2147483647 :: int)" "2 * r + 2 ^ N \<le> (131072 :: int)"
proof -
  have "N = 0 \<or> N = 1 \<or> N = 2 \<or> N = 3 \<or> N = 4 \<or> N = 5 \<or> N = 6 \<or> N = 7 \<or> N = 8 \<or> N = 9 \<or>
    N = 10 \<or> N = 11 \<or> N = 12 \<or> N = 13 \<or> N = 14 \<or> N = 15"
    using assms(1) by presburger
  then show "(2 * r + 2 ^ N) * 2 ^ N \<le> (2147483647 :: int)" "2 * r + 2 ^ N \<le> (131072 :: int)"
    using assms(2,3) by (elim disjE; simp)+
qed

lemma sqrt_iter_inv:
  assumes "v \<le> 2147483647" and "sqrt_inv v (Suc N) s" "N \<le> 15"
  shows "sqrt_inv v N (sqrt_iter N s)"
proof -
  obtain r where r: "fst s = 2 * r" "0 \<le> r" "2 ^ Suc N dvd r" "snd s = v - r * r" "0 \<le> snd s"
    "v < (r + 2 ^ Suc N) * (r + 2 ^ Suc N)" "r + 2 ^ Suc N \<le> 65536"
    using assms(2) by (auto simp: sqrt_inv_def)
  note b = sqrt_probe_bound [OF assms(3) r(2,7)]
  have "to_i32 (2 * r + shl 1 N) = 2 * r + 2 ^ N"
    using b(2) r(2) by (simp add: shl_def) (rule to_i32_id; simp add: is_i32_def order_trans [of _ 0])
  moreover have "0 \<le> (2 * r + 2 ^ N) * 2 ^ N" using r(2) by simp
  then have "to_i32 (shl (2 * r + 2 ^ N) N) = (2 * r + 2 ^ N) * 2 ^ N"
    using b(1) by (intro to_i32_id [THEN trans]) (simp_all add: shl_def is_i32_def)
  moreover have "2 ^ Suc (Suc N) dvd 2 * r" using mult_dvd_mono [OF dvd_refl [of 2] r(3)] by simp
  then have "(2 * r) OR shl 2 N = 2 * (r + 2 ^ N)"
    using or_power_int [of "Suc N" "2 * r"] by (simp add: shl_def)
  ultimately have step: "sqrt_iter N s = (if (2 * r + 2 ^ N) * 2 ^ N \<le> snd s
      then (2 * (r + 2 ^ N), to_i32 (snd s - (2 * r + 2 ^ N) * 2 ^ N)) else s)"
    using r(1) by (cases s) (simp add: sqrt_iter_def Let_def)
  have d: "2 ^ N dvd r" using r(3) by (rule dvd_trans [rotated]) (simp add: le_imp_power_dvd)
  have sq: "(r + 2 ^ N) * (r + 2 ^ N) = r * r + (2 * r + 2 ^ N) * 2 ^ N"
    by (simp add: algebra_simps)
  show ?thesis
  proof (cases "(2 * r + 2 ^ N) * 2 ^ N \<le> snd s")
    case True
    have "snd s \<le> 2147483647" using r(4) assms(1) zero_le_square [of r] by linarith
    moreover have "0 \<le> (2 * r + 2 ^ N) * 2 ^ N" using r(2) by simp
    ultimately have "to_i32 (snd s - (2 * r + 2 ^ N) * 2 ^ N) = snd s - (2 * r + 2 ^ N) * 2 ^ N"
      using True by (intro to_i32_id) (simp only: is_i32_def, linarith)
    then have "sqrt_iter N s = (2 * (r + 2 ^ N), v - (r + 2 ^ N) * (r + 2 ^ N))"
      using step True sq r(4) by simp
    moreover have "0 \<le> v - (r + 2 ^ N) * (r + 2 ^ N)" using True sq r(4) by linarith
    moreover have "v < (r + 2 ^ N + 2 ^ N) * (r + 2 ^ N + 2 ^ N)" using r(6) by (simp add: add.assoc)
    ultimately show ?thesis
      using r(2,7) d unfolding sqrt_inv_def by (intro exI [of _ "r + 2 ^ N"]) (simp add: add.assoc)
  next
    case False
    then have "v < (r + 2 ^ N) * (r + 2 ^ N)" using r(4) sq by simp
    moreover have "r + 2 ^ N \<le> 65536"
      using r(7) order_trans [of "r + 2 ^ N" "r + 2 ^ Suc N" 65536] by simp
    ultimately show ?thesis using False r d step
      by (auto simp: sqrt_inv_def intro!: exI [of _ r])
  qed
qed

lemma sqrt_fold_inv:
  "v \<le> 2147483647 \<Longrightarrow> n \<le> 16 \<Longrightarrow> sqrt_inv v n s \<Longrightarrow> sqrt_inv v 0 (fold sqrt_iter (rev [0..<n]) s)"
proof (induction n arbitrary: s)
  case (Suc n)
  then show ?case using sqrt_iter_inv [of v n s] by simp
qed simp

lemma SqrtFloor_fold: "WebRtcSpl_SqrtFloor v = shr (fst (fold sqrt_iter (rev [0..<16]) (0, v))) 1"
proof -
  have "rev [0..<16] = [15, 14, 13, 12, 11, 10, 9, 8, 7, 6, 5, 4, 3, 2, 1, 0 :: nat]"
    by (simp add: upt_rec)
  then show ?thesis by (simp only: WebRtcSpl_SqrtFloor_def)
qed

lemma sqrt_negative: "v < 0 \<Longrightarrow> set ns \<subseteq> {..15} \<Longrightarrow> fold sqrt_iter ns (0, v) = (0, v)"
proof (induction ns)
  case (Cons N ns)
  then have "N \<le> 15" by simp
  then have "to_i32 (shl 1 N) = 2 ^ N \<and> to_i32 (2 ^ N * 2 ^ N) = 2 ^ N * 2 ^ N"
    using sqrt_probe_bound [of N 0] power_increasing [of "Suc N" 16 "2 :: int"]
    by (auto simp: shl_def intro!: to_i32_id) (auto simp: is_i32_def order_trans [of _ 0])
  then have "sqrt_iter N (0, v) = (0, v)"
    using Cons.prems(1) by (simp add: sqrt_iter_def shl_def Let_def not_le less_le_trans [of v 0])
  with Cons show ?case by simp
qed simp

text \<open>C35: for every non-negative 32-bit value \<open>WebRtcSpl_SqrtFloor\<close>, computed with its 32-bit wrap-around, is the
  floor of the square root; for negative values it is 0, as documented.\<close>

theorem sqrt_floor_correct:
  assumes "is_i32 v"
  shows "0 \<le> WebRtcSpl_SqrtFloor v \<and>
    (if v < 0 then WebRtcSpl_SqrtFloor v = 0
     else WebRtcSpl_SqrtFloor v * WebRtcSpl_SqrtFloor v \<le> v \<and>
          v < (WebRtcSpl_SqrtFloor v + 1) * (WebRtcSpl_SqrtFloor v + 1))"
proof (cases "v < 0")
  case True
  then have "fold sqrt_iter (rev [0..<16]) (0, v) = (0, v)" by (intro sqrt_negative) auto
  with True show ?thesis by (simp add: SqrtFloor_fold del: upt_rec_numeral)
next
  case False
  have v: "v \<le> 2147483647" using assms by (simp add: is_i32_def)
  with False have "sqrt_inv v 16 (0, v)" by (simp add: sqrt_inv_def)
  from sqrt_fold_inv [OF v _ this]
  obtain r where "fst (fold sqrt_iter (rev [0..<16]) (0, v)) = 2 * r" "0 \<le> r" "r * r \<le> v"
    "v < (r + 1) * (r + 1)"
    by (auto simp: sqrt_inv_def simp del: upt_rec_numeral)
  with False show ?thesis by (simp add: SqrtFloor_fold shr_def del: upt_rec_numeral)
qed

theorem sqrt_floor_correct_witness:
  "WebRtcSpl_SqrtFloor 2147395601 = 46340 \<and>
   2147395601 < (WebRtcSpl_SqrtFloor 2147395601 + 1) * (WebRtcSpl_SqrtFloor 2147395601 + 1)"
proof -
  have "WebRtcSpl_SqrtFloor 2147395601 = 46340" by code_simp
  then show ?thesis using sqrt_floor_correct [of 2147395601] by (simp add: is_i32_def)
qed


section \<open>Divisions\<close>

lemma div_q31_step_inv:
  assumes "0 \<le> q" "2 * q + 1 \<le> 2147483647" "0 \<le> r" "r < d" "d \<le> 1073741824"
  shows "div_q31_step d (q, r) = ((2 * (q * d + r)) div d, (2 * (q * d + r)) mod d)"
proof -
  have *: "to_i32 (shl q 1) = 2 * q" "to_i32 (shl r 1) = 2 * r" "to_i32 (2 * q + 1) = 2 * q + 1"
    using assms by (auto simp: shl_def is_i32_def intro!: to_i32_id [THEN trans])
  show ?thesis
  proof (cases "d \<le> 2 * r")
    case True
    then have "to_i32 (2 * r - d) = 2 * r - d" using assms by (intro to_i32_id) (simp add: is_i32_def)
    moreover have "2 * (q * d + r) = (2 * q + 1) * d + (2 * r - d)" by (simp add: algebra_simps)
    moreover have "(2 * r - d) div d = 0" "(2 * r - d) mod d = 2 * r - d"
      using True assms by (simp_all only: div_pos_pos_trivial mod_pos_pos_trivial)
    then have "((2 * q + 1) * d + (2 * r - d)) div d = 2 * q + 1"
      "((2 * q + 1) * d + (2 * r - d)) mod d = 2 * r - d"
      using assms by (simp_all only: div_mult_self3 mod_mult_self3)
    ultimately show ?thesis using True * by (simp only: div_q31_step_def) simp
  next
    case False
    have "2 * (q * d + r) = (2 * q) * d + 2 * r" by (simp add: algebra_simps)
    moreover have "((2 * q) * d + 2 * r) div d = 2 * q" "((2 * q) * d + 2 * r) mod d = 2 * r"
      using False assms by (simp_all add: div_pos_pos_trivial mod_pos_pos_trivial)
    ultimately show ?thesis using False * by (simp only: div_q31_step_def) simp
  qed
qed

lemma div_q31_loop:
  assumes "0 \<le> n" "n < d" "d \<le> 1073741824" "k \<le> 31"
  shows "(div_q31_step d ^^ k) (0, n) = (n * 2 ^ k div d, n * 2 ^ k mod d)"
  using assms(4)
proof (induction k)
  case 0
  then show ?case using assms by simp
next
  case (Suc k)
  have d: "0 < d" using assms by simp
  let ?q = "n * 2 ^ k div d" and ?r = "n * 2 ^ k mod d"
  have "n * 2 ^ k < d * 2 ^ k" using assms(2) by simp
  then have "?q < 2 ^ k" using d by (intro int_div_less) (simp_all add: mult.commute)
  also have "(2 :: int) ^ k \<le> 2 ^ 30" using Suc.prems by (intro power_increasing) auto
  finally have "2 * ?q + 1 \<le> 2147483647" by simp
  moreover have "0 \<le> ?q" using assms(1) d by (simp add: pos_imp_zdiv_nonneg_iff)
  moreover have "0 \<le> ?r" "?r < d" using d by simp_all
  ultimately have "div_q31_step d (?q, ?r) = ((2 * (?q * d + ?r)) div d, (2 * (?q * d + ?r)) mod d)"
    using assms(3) by (intro div_q31_step_inv)
  moreover have "2 * (?q * d + ?r) = n * 2 ^ Suc k" by simp
  ultimately show ?case using Suc by (simp add: mult.left_commute)
qed

text \<open>\<open>WebRtcSpl_DivResultInQ31\<close> is the truncating quotient in Q31, with the sign of the
  mathematical quotient, whenever \<open>|num| < |den| \<le> 2\<^sup>3\<^sup>0\<close>; the long division then never
  overflows its 32-bit remainder.\<close>

theorem div_result_in_q31_correct:
  assumes "\<bar>num\<bar> < \<bar>den\<bar>" and "\<bar>den\<bar> \<le> 1073741824"
  shows "WebRtcSpl_DivResultInQ31 num den = c_div (num * 2147483648) den"
proof (cases "num = 0")
  case True
  then show ?thesis by (simp add: WebRtcSpl_DivResultInQ31_def c_div_def)
next
  case False
  define q where "q = \<bar>num\<bar> * 2147483648 div \<bar>den\<bar>"
  have loop: "(div_q31_step \<bar>den\<bar> ^^ 31) (0, \<bar>num\<bar>) = (q, \<bar>num\<bar> * 2147483648 mod \<bar>den\<bar>)"
    using div_q31_loop [of "\<bar>num\<bar>" "\<bar>den\<bar>" 31] assms by (simp add: q_def)
  have d: "0 < \<bar>den\<bar>" using assms by linarith
  have "\<bar>num\<bar> * 2147483648 < 2147483648 * \<bar>den\<bar>" using assms(1) by simp
  then have "q < 2147483648" unfolding q_def using d by (intro int_div_less)
  moreover have "0 \<le> q" unfolding q_def using d by (simp only: pos_imp_zdiv_nonneg_iff)
  ultimately have neg: "to_i32 (- q) = - q" by (intro to_i32_id) (simp add: is_i32_def)
  have "to_i32 (if num < 0 then - num else num) = \<bar>num\<bar>" "to_i32 (if den < 0 then - den else den) = \<bar>den\<bar>"
    using assms by (auto simp: is_i32_def intro!: to_i32_id)
  with False loop neg d show ?thesis
    by (auto simp: WebRtcSpl_DivResultInQ31_def Let_def c_div_def abs_mult q_def sgn_if
        split: if_splits)
qed

theorem div_result_in_q31_correct_witness:
  "WebRtcSpl_DivResultInQ31 (- 3) 7 = - 920350134"
  using div_result_in_q31_correct [of "- 3" 7] by (simp add: c_div_def)

lemma div_result_in_q31_overflow:
  "WebRtcSpl_DivResultInQ31 1500000000 2000000000 \<noteq> c_div (1500000000 * 2147483648) 2000000000"
  by code_simp


section \<open>Accumulation without overflow\<close>

lemma sum_abs_bound:
  fixes g :: "nat \<Rightarrow> int"
  assumes "\<And>i. a \<le> i \<Longrightarrow> i < b \<Longrightarrow> \<bar>g i\<bar> \<le> B"
  shows "\<bar>\<Sum>i = a..<b. g i\<bar> \<le> int (b - a) * B"
proof -
  have "\<bar>\<Sum>i = a..<b. g i\<bar> \<le> (\<Sum>i = a..<b. \<bar>g i\<bar>)" by (rule sum_abs)
  also have "\<dots> \<le> (\<Sum>i = a..<b. B)" using assms by (intro sum_mono) auto
  finally show ?thesis by simp
qed

lemma fold_to_i32_sum:
  fixes g :: "nat \<Rightarrow> int"
  assumes "a \<le> b" and "\<And>i. a \<le> i \<Longrightarrow> i < b \<Longrightarrow> \<bar>g i\<bar> \<le> B" and "\<bar>s\<bar> + int (b - a) * B \<le> 2147483647"
    and "0 \<le> B"
  shows "fold (\<lambda>i s. to_i32 (s + g i)) [a..<b] s = s + (\<Sum>i = a..<b. g i)"
proof -
  have "b \<le> b \<longrightarrow> fold (\<lambda>i s. to_i32 (s + g i)) [a..<b] s = s + (\<Sum>i = a..<b. g i)"
  proof (rule fold_upt_inv [where P = "\<lambda>k v. k \<le> b \<longrightarrow> v = s + (\<Sum>i = a..<k. g i)"])
    fix i v assume i: "a \<le> i" "i < b" "i \<le> b \<longrightarrow> v = s + (\<Sum>i = a..<i. g i)"
    have "\<bar>\<Sum>i = a..<Suc i. g i\<bar> \<le> int (Suc i - a) * B" using i assms(2) by (intro sum_abs_bound) auto
    also have "\<dots> \<le> int (b - a) * B" using i assms(4) by (intro mult_right_mono) auto
    finally have "is_i32 (s + (\<Sum>i = a..<Suc i. g i))"
      using assms(3) unfolding is_i32_def by linarith
    with i show "Suc i \<le> b \<longrightarrow> to_i32 (v + g i) = s + (\<Sum>i = a..<Suc i. g i)"
      by (simp add: to_i32_id add.assoc)
  qed (use assms(1) in auto)
  then show ?thesis by simp
qed

lemma shr_abs_le:
  assumes "\<bar>x\<bar> \<le> 2 ^ (a + k)" shows "\<bar>shr x k\<bar> \<le> 2 ^ a"
proof -
  have "shr x k \<le> shr (2 ^ (a + k)) k" "shr (- (2 ^ (a + k))) k \<le> shr x k"
    using assms by (intro shr_mono; linarith)+
  moreover have "shr (2 ^ (a + k)) k = 2 ^ a" "shr (- (2 ^ (a + k))) k = - (2 ^ a)"
    by (simp_all add: shr_def power_add flip: mult_minus_left)
  ultimately show ?thesis by linarith
qed

text \<open>The scale chosen from the largest product \<open>P\<close> and the number \<open>n\<close> of terms: \<open>n\<close> terms of at
  most \<open>2\<^sup>3\<^sup>1\<^sup>-\<^sup>t\<close>, \<open>t\<close> the norm of \<open>P\<close>, cannot overflow once shifted.\<close>

lemma NormW32_product:
  assumes "0 < P" "is_i32 P"
  shows "P < 2 ^ (31 - nat (WebRtcSpl_NormW32 P))" "WebRtcSpl_NormW32 P < 31"
proof -
  have b: "bit_size (nat P) \<le> 31" "0 < bit_size (nat P)"
    using assms by (simp_all add: bit_size_le_iff nat_less_iff is_i32_def bit_size_pos)
  have e: "WebRtcSpl_NormW32 P = 31 - int (bit_size (nat P))" using NormW32_eq [of P] assms by simp
  then have "31 - nat (WebRtcSpl_NormW32 P) = bit_size (nat P)" using b by simp
  then show "P < 2 ^ (31 - nat (WebRtcSpl_NormW32 P))"
    using bit_size_less [of "nat P"] assms(1) by (simp add: nat_less_iff)
  show "WebRtcSpl_NormW32 P < 31" using e b by simp
qed

lemma scaling_no_overflow:
  assumes "0 < P" "is_i32 P" "n < 2147483648"
  defines "t \<equiv> WebRtcSpl_NormW32 P" and "nb \<equiv> WebRtcSpl_GetSizeInBits (int n)"
  defines "sc \<equiv> (if t > nb then 0 else nb - t)"
  shows "\<exists>B \<ge> 0. int n * B \<le> 2147483647 \<and> (\<forall>x. \<bar>x\<bar> \<le> 2 ^ (31 - nat t) \<longrightarrow> \<bar>shr x (nat sc)\<bar> \<le> B)"
    and "0 \<le> sc" "sc \<le> 31"
proof -
  have t: "0 \<le> t" "t < 31" using NormW32_bounds [OF assms(2)] NormW32_product [OF assms(1,2)] by (simp_all add: t_def)
  have nb: "nb = int (bit_size n)" using assms(3) by (simp add: nb_def GetSizeInBits_eq)
  have n: "n < 2 ^ bit_size n" by (rule bit_size_less)
  have n31: "bit_size n \<le> 31" using assms(3) by (simp add: bit_size_le_iff)
  show "0 \<le> sc" "sc \<le> 31" using nb n31 t by (simp_all add: sc_def)
  let ?k = "31 - max (nat t) (bit_size n)"
  have k: "31 - nat t = ?k + nat sc" using t nb n31 by (auto simp: sc_def max_def)
  have "int n < 2 ^ bit_size n" using n by simp
  then have "int n * 2 ^ ?k \<le> (2 ^ bit_size n - 1) * 2 ^ ?k"
    by (intro mult_right_mono) simp_all
  also have "\<dots> < 2 ^ (bit_size n + ?k)" by (simp add: power_add algebra_simps)
  also have "\<dots> \<le> (2 :: int) ^ 31" using n31 by (intro power_increasing) auto
  finally have "int n * 2 ^ ?k \<le> 2147483647" by simp
  then show "\<exists>B \<ge> 0. int n * B \<le> 2147483647 \<and> (\<forall>x. \<bar>x\<bar> \<le> 2 ^ (31 - nat t) \<longrightarrow> \<bar>shr x (nat sc)\<bar> \<le> B)"
    by (intro exI [of _ "2 ^ ?k"]) (auto simp: k intro: shr_abs_le)
qed

lemma i16_mult_le:
  assumes "\<bar>x\<bar> \<le> M" "\<bar>y\<bar> \<le> (M :: int)"
  shows "\<bar>x * y\<bar> \<le> M * M"
  unfolding abs_mult using assms by (intro mult_mono) auto

lemma i16_mult_i32: 
  assumes "is_i16 x" "is_i16 y" shows "\<bar>x * y\<bar> \<le> 1073741824" "to_i32 (x * y) = x * y"
proof -
  show "\<bar>x * y\<bar> \<le> 1073741824" 
    using i16_mult_le [of x 32768 y] assms unfolding is_i16_def by (simp add: abs_le_iff)
  then show "to_i32 (x * y) = x * y" by (intro to_i32_id) (simp only: is_i32_def, linarith)
qed

lemma GetScalingSquare_smax:
  assumes "all_i16 xs" "- 32768 \<notin> set xs" "0 < n" "n \<le> length xs"
  shows "fold (\<lambda>i smax. let sabs = to_i16 (if xs ! i > 0 then xs ! i else - xs ! i)
          in if sabs > smax then sabs else smax) [0..<n] (- 1) = Max (abs ` set (take n xs))"
proof -
  have "to_i16 (if xs ! i > 0 then xs ! i else - xs ! i) = \<bar>xs ! i\<bar>" if "i < n" for i
  proof -
    have "is_i16 (xs ! i)" "xs ! i \<in> set xs"
      using all_i16_nth [OF assms(1), of i] assms(4) that by simp_all
    moreover from this(2) have "xs ! i \<noteq> - 32768" using assms(2) by metis
    ultimately show ?thesis by (intro to_i16_id [THEN trans]) (auto simp: is_i16_def)
  qed
  then have "fold (\<lambda>i smax. let sabs = to_i16 (if xs ! i > 0 then xs ! i else - xs ! i)
          in if sabs > smax then sabs else smax) [0..<n] (- 1)
      = fold (\<lambda>i smax. if \<bar>xs ! i\<bar> > smax then \<bar>xs ! i\<bar> else smax) [0..<n] (- 1)"
    by (intro fold_cong) auto
  also have "\<dots> = Max (insert (- 1) ((\<lambda>i. \<bar>xs ! i\<bar>) ` {0..<n}))" by (rule fold_max_upt)
  also have "\<dots> = Max ((\<lambda>i. \<bar>xs ! i\<bar>) ` {0..<n})"
    using assms(3) by (intro Max_insert_absorb) auto
  also have "(\<lambda>i. \<bar>xs ! i\<bar>) ` {0..<n} = abs ` set (take n xs)"
    by (rule nth_image_take) (rule assms(4))
  finally show ?thesis .
qed


lemma GetScalingSquare_eq:
  assumes "all_i16 xs" "- 32768 \<notin> set xs" "0 < n" "n \<le> length xs" "n < 2147483648"
  defines "M \<equiv> Max (abs ` set (take n xs))"
  shows "0 \<le> M" "M \<le> 32767" "\<And>i. i < n \<Longrightarrow> \<bar>xs ! i\<bar> \<le> M"
    "WebRtcSpl_GetScalingSquare xs n n =
      (if M = 0 then 0
       else if WebRtcSpl_NormW32 (M * M) > WebRtcSpl_GetSizeInBits (int n) then 0
       else WebRtcSpl_GetSizeInBits (int n) - WebRtcSpl_NormW32 (M * M))"
proof -
  have ne: "set (take n xs) \<noteq> {}" using assms(3,4) by auto
  have i: "xs ! i \<in> set (take n xs)" if "i < n" for i
    using that assms(4) by (metis in_set_conv_nth length_take min.absorb2 nth_take)
  have "M \<in> abs ` set (take n xs)" unfolding M_def using ne by (intro Max_in) auto
  then obtain x where x: "x \<in> set xs" "M = \<bar>x\<bar>" by (auto dest: in_set_takeD)
  then have "is_i16 x" "x \<noteq> - 32768" using assms(1,2) by (auto simp: all_i16_def)
  with x show M: "0 \<le> M" "M \<le> 32767" by (auto simp: is_i16_def)
  show "\<bar>xs ! i\<bar> \<le> M" if "i < n" for i unfolding M_def using i [OF that] by (intro Max_ge) auto
  have mm: "to_i32 (M * M) = M * M" using M by (intro i16_mult_i32) (auto simp: is_i16_def)
  have u: "to_u32 (int n) = int n" using assms(5) by (intro to_u32_id) (simp add: is_u32_def)
  have "bit_size n \<le> 31" using assms(5) by (simp add: bit_size_le_iff)
  then have nb: "0 \<le> WebRtcSpl_GetSizeInBits (int n)" "WebRtcSpl_GetSizeInBits (int n) \<le> 31"
    using assms(5) by (simp_all add: GetSizeInBits_eq)
  have "is_i32 (M * M)" using mm is_i32_to_i32 [of "M * M"] by simp
  then have t: "0 \<le> WebRtcSpl_NormW32 (M * M)" by (rule NormW32_bounds)
  show "WebRtcSpl_GetScalingSquare xs n n =
      (if M = 0 then 0
       else if WebRtcSpl_NormW32 (M * M) > WebRtcSpl_GetSizeInBits (int n) then 0
       else WebRtcSpl_GetSizeInBits (int n) - WebRtcSpl_NormW32 (M * M))"
    using nb t
    unfolding WebRtcSpl_GetScalingSquare_def u GetScalingSquare_smax [OF assms(1-4), folded M_def]
    by (simp add: Let_def mm to_i16_small)
qed

text \<open>on up to \<open>2\<^sup>3\<^sup>1\<close> samples none of which is \<open>-32768\<close> the scale chosen by
  \<open>WebRtcSpl_GetScalingSquare\<close> lets \<open>WebRtcSpl_Energy\<close> accumulate without overflow: its value is
  the sum of the shifted squares, hence not negative.\<close>

theorem energy_no_overflow:
  assumes "all_i16 xs" and "- 32768 \<notin> set xs" and "n \<le> length xs" and "n < 2147483648"
  shows "\<exists>s. 0 \<le> s \<and> s \<le> 31 \<and>
    WebRtcSpl_Energy xs n = ((\<Sum>i = 0..<n. shr (xs ! i * xs ! i) (nat s)), s) \<and>
    0 \<le> fst (WebRtcSpl_Energy xs n)"
proof (cases "n = 0")
  case True
  have "WebRtcSpl_GetScalingSquare xs 0 0 = 0" by code_simp
  with True show ?thesis by (intro exI [of _ 0]) (simp add: WebRtcSpl_Energy_def)
next
  case False
  then have n: "0 < n" by simp
  let ?s = "WebRtcSpl_GetScalingSquare xs n n"
  note sc = GetScalingSquare_eq [OF assms(1,2) n assms(3,4)]
  define M where "M = Max (abs ` set (take n xs))"
  note sc = sc [folded M_def]
  have sq: "to_i32 (xs ! i * xs ! i) = xs ! i * xs ! i" if "i < n" for i
    using all_i16_nth [OF assms(1), of i] assms(3) that by (intro i16_mult_i32) auto
  have "\<exists>B \<ge> 0. int n * B \<le> 2147483647 \<and> (\<forall>i < n. \<bar>shr (xs ! i * xs ! i) (nat ?s)\<bar> \<le> B) \<and>
      0 \<le> ?s \<and> ?s \<le> 31"
  proof (cases "M = 0")
    case True
    then have "xs ! i = 0" if "i < n" for i using sc(3) [OF that] by simp
    with True sc(4) show ?thesis by (intro exI [of _ 0]) simp
  next
    case False
    then have P: "0 < M * M" using sc(1) by (simp add: mult_pos_pos order_less_le)
    have P2: "is_i32 (M * M)"
      using i16_mult_i32(2) [of M M] sc(1,2) is_i32_to_i32 [of "M * M"] by (simp add: is_i16_def)
    obtain B where B: "0 \<le> B" "int n * B \<le> 2147483647"
      "\<And>x. \<bar>x\<bar> \<le> 2 ^ (31 - nat (WebRtcSpl_NormW32 (M * M))) \<Longrightarrow> \<bar>shr x (nat ?s)\<bar> \<le> B"
      using scaling_no_overflow(1) [OF P P2 assms(4)] sc(4) False by auto
    have "\<bar>xs ! i * xs ! i\<bar> \<le> 2 ^ (31 - nat (WebRtcSpl_NormW32 (M * M)))" if "i < n" for i
      using i16_mult_le [OF sc(3) [OF that] sc(3) [OF that]] NormW32_product(1) [OF P P2] by linarith
    with B have "\<forall>i < n. \<bar>shr (xs ! i * xs ! i) (nat ?s)\<bar> \<le> B" by blast
    moreover have "0 \<le> ?s" "?s \<le> 31" using scaling_no_overflow(2,3) [OF P P2 assms(4)] sc(4) False by simp_all
    ultimately show ?thesis using B(1,2) by blast
  qed
  then obtain B where B: "0 \<le> B" "int n * B \<le> 2147483647"
    "\<forall>i < n. \<bar>shr (xs ! i * xs ! i) (nat ?s)\<bar> \<le> B" "0 \<le> ?s" "?s \<le> 31" by blast
  have "WebRtcSpl_Energy xs n
      = (fold (\<lambda>i en. to_i32 (en + shr (xs ! i * xs ! i) (nat ?s))) [0..<n] 0, ?s)"
    unfolding WebRtcSpl_Energy_def Let_def by (intro arg_cong2 [where f = Pair] fold_cong) (auto simp: sq)
  also have "\<dots> = (0 + (\<Sum>i = 0..<n. shr (xs ! i * xs ! i) (nat ?s)), ?s)"
    using B by (subst fold_to_i32_sum [where B = B]) auto
  finally have E: "WebRtcSpl_Energy xs n = ((\<Sum>i = 0..<n. shr (xs ! i * xs ! i) (nat ?s)), ?s)" by simp
  moreover have "0 \<le> (\<Sum>i = 0..<n. shr (xs ! i * xs ! i) (nat ?s))"
    by (intro sum_nonneg shr_nonneg) simp
  ultimately show ?thesis using B(4,5) by (intro exI [of _ ?s]) simp
qed

theorem energy_no_overflow_witness:
  "fst (WebRtcSpl_Energy [32767, -32767, 32767, 5] 4) = 805257222 \<and> (0 :: int) \<le> 805257222"
proof -
  have e: "fst (WebRtcSpl_Energy [32767, -32767, 32767, 5] 4) = 805257222" by code_simp
  with energy_no_overflow [of "[32767, -32767, 32767, 5]" 4] show ?thesis
    by (auto simp: all_i16_def is_i16_def)
qed

text \<open>With the sample \<open>-32768\<close> the 16-bit negation in \<open>WebRtcSpl_GetScalingSquare\<close> wraps and
  the accumulation can overflow.\<close>

lemma energy_overflow: "WebRtcSpl_Energy [-32768, -32768, -32768] 3 = (- 1073741824, 0)"
  by code_simp

section \<open>Autocorrelation\<close>

lemma acorr_unrolled_fold:
  assumes "i \<le> n"
  shows "\<exists>k. acorr_unrolled xs n i sc j s
      = (k, fold (\<lambda>j s. to_i32 (s + shr (to_i32 (xs ! j * xs ! (i + j))) sc)) [j..<k] s)
    \<and> j \<le> k \<and> (j \<le> n - i \<longrightarrow> k \<le> n - i)"
proof (induction xs n i sc j s rule: acorr_unrolled.induct)
  case (1 xs n i sc j s)
  show ?case
  proof (cases "i + j + 3 < n")
    case True
    let ?f = "\<lambda>j s. to_i32 (s + shr (to_i32 (xs ! j * xs ! (i + j))) sc)"
    let ?s4 = "?f (j + 3) (?f (j + 2) (?f (j + 1) (?f j s)))"
    obtain k where k: "acorr_unrolled xs n i sc (j + 4) ?s4 = (k, fold ?f [j + 4..<k] ?s4)"
      "j + 4 \<le> k" "j + 4 \<le> n - i \<longrightarrow> k \<le> n - i"
      using 1 [OF True refl refl refl refl] by (auto simp: add.assoc)
    have "[j..<k] = [j, j + 1, j + 2, j + 3] @ [j + 4..<k]"
      using k(2) by (simp add: upt_conv_Cons numeral_eq_Suc)
    then have "fold ?f [j..<k] s = fold ?f [j + 4..<k] ?s4" by simp
    moreover have "acorr_unrolled xs n i sc j s = acorr_unrolled xs n i sc (j + 4) ?s4"
      using True by (subst acorr_unrolled.simps) (simp add: add.assoc)
    ultimately show ?thesis using k True by (intro exI [of _ k]) simp
  next
    case False
    then show ?thesis by (subst acorr_unrolled.simps) auto
  qed
qed

lemma AutoCorrelation_lag:
  assumes "i \<le> n"
  shows "(let (j, sum) = acorr_unrolled xs n i sc 0 0
      in fold (\<lambda>j sum. to_i32 (sum + shr (to_i32 (xs ! j * xs ! (i + j))) sc)) [j..<n - i] sum)
    = fold (\<lambda>j s. to_i32 (s + shr (to_i32 (xs ! j * xs ! (i + j))) sc)) [0..<n - i] 0"
proof -
  let ?f = "\<lambda>j s. to_i32 (s + shr (to_i32 (xs ! j * xs ! (i + j))) sc)"
  obtain k where k: "acorr_unrolled xs n i sc 0 0 = (k, fold ?f [0..<k] 0)" "k \<le> n - i"
    using acorr_unrolled_fold [OF assms, of xs sc 0 0] by auto
  have "n - i = k + (n - i - k)" using k(2) by arith
  then have "[0..<n - i] = [0..<k] @ [k..<n - i]" by (metis upt_add_eq_append le0)
  then have "fold ?f [0..<n - i] 0 = fold ?f [k..<n - i] (fold ?f [0..<k] 0)" by simp
  then show ?thesis using k(1) by (simp add: Let_def)
qed

text \<open>C36: \<open>WebRtcSpl_AutoCorrelation\<close> (its inner loop unrolled four times, its scale chosen from
  the largest magnitude) returns at every lag up to \<open>order\<close> the plain sum of shifted products; no
  sample value makes the 32-bit accumulator overflow.\<close>

theorem auto_correlation_correct:
  assumes "all_i16 xs" and "n \<le> length xs" and "n < 2147483648" and "order \<le> n"
  shows "\<exists>result s. WebRtcSpl_AutoCorrelation xs n order = (result, s, order + 1) \<and>
    length result = order + 1 \<and> 0 \<le> s \<and> s \<le> 31 \<and>
    (\<forall>i < length result. result ! i = (\<Sum>j = 0..<n - i. shr (xs ! j * xs ! (i + j)) (nat s)))"
proof -
  define M where "M = WebRtcSpl_MaxAbsValueW16C xs n"
  define s where "s = (if M = 0 then 0 else if WebRtcSpl_NormW32 (M * M) > WebRtcSpl_GetSizeInBits (int n)
    then 0 else WebRtcSpl_GetSizeInBits (int n) - WebRtcSpl_NormW32 (M * M))"
  have M: "0 \<le> M \<and> M \<le> 32767 \<and> (\<forall>i < n. \<bar>xs ! i\<bar> \<le> M \<or> M = 32767)"
  proof (cases "n = 0")
    case True
    then show ?thesis by (simp add: M_def WebRtcSpl_MaxAbsValueW16C_def to_i16_small)
  next
    case False
    then have e: "M = min 32767 (Max (abs ` set (take n xs)))"
      unfolding M_def using assms by (intro MaxAbsValueW16C_eq) auto
    have i: "\<bar>xs ! i\<bar> \<le> Max (abs ` set (take n xs))" if "i < n" for i
      using that assms(2) by (intro Max_ge) (auto simp: in_set_conv_nth intro!: exI [of _ i] image_eqI)
    have "0 \<le> Max (abs ` set (take n xs))" using i [of 0] False by linarith
    with i e show ?thesis by force
  qed
  then have mm: "to_i32 (M * M) = M * M" by (intro i16_mult_i32) (auto simp: is_i16_def)
  have P2: "is_i32 (M * M)" using mm is_i32_to_i32 [of "M * M"] by simp
  have pr: "to_i32 (xs ! j * xs ! (i + j)) = xs ! j * xs ! (i + j)" if "j < n - i" for i j
    using that assms(2) by (intro i16_mult_i32 all_i16_nth [OF assms(1)]) auto
  have "\<exists>B \<ge> 0. int n * B \<le> 2147483647 \<and>
      (\<forall>i j. j < n - i \<longrightarrow> \<bar>shr (xs ! j * xs ! (i + j)) (nat s)\<bar> \<le> B) \<and> 0 \<le> s \<and> s \<le> 31"
  proof (cases "M = 0")
    case True
    then have "xs ! i = 0" if "i < n" for i using M that by auto
    with True show ?thesis by (intro exI [of _ 0]) (simp add: s_def)
  next
    case False
    then have P: "0 < M * M" using M by (simp add: mult_pos_pos order_less_le)
    note sc = scaling_no_overflow [OF P P2 assms(3)]
    obtain B where B: "0 \<le> B" "int n * B \<le> 2147483647"
      "\<And>x. \<bar>x\<bar> \<le> 2 ^ (31 - nat (WebRtcSpl_NormW32 (M * M))) \<Longrightarrow> \<bar>shr x (nat s)\<bar> \<le> B"
      using sc(1) False by (auto simp: s_def)
    have "\<bar>xs ! j * xs ! (i + j)\<bar> \<le> 2 ^ (31 - nat (WebRtcSpl_NormW32 (M * M)))" if ij: "j < n - i" for i j
    proof (cases "M = 32767")
      case True
      then have "M * M = 1073676289" by simp
      then have "WebRtcSpl_NormW32 (M * M) = 1" by (simp only:) code_simp
      moreover have "\<bar>xs ! j * xs ! (i + j)\<bar> \<le> 1073741824"
        using ij assms(2) by (intro i16_mult_i32 all_i16_nth [OF assms(1)]) auto
      ultimately show ?thesis by simp
    next
      case False
      then have "\<bar>xs ! j\<bar> \<le> M" "\<bar>xs ! (i + j)\<bar> \<le> M" using M ij by auto
      from i16_mult_le [OF this] show ?thesis using NormW32_product(1) [OF P P2] by linarith
    qed
    with B have "\<forall>i j. j < n - i \<longrightarrow> \<bar>shr (xs ! j * xs ! (i + j)) (nat s)\<bar> \<le> B" by blast
    then show ?thesis using B(1,2) sc(2,3) False by (auto simp: s_def)
  qed
  then obtain B where B: "0 \<le> B" "int n * B \<le> 2147483647"
    "\<And>i j. j < n - i \<Longrightarrow> \<bar>shr (xs ! j * xs ! (i + j)) (nat s)\<bar> \<le> B" "0 \<le> s" "s \<le> 31" by blast
  have u: "to_u32 (int n) = int n" using assms(3) by (intro to_u32_id) (simp add: is_u32_def)
  let ?r = "map (\<lambda>i. fold (\<lambda>j s'. to_i32 (s' + shr (to_i32 (xs ! j * xs ! (i + j))) (nat s))) [0..<n - i] 0)
    [0..<order + 1]"
  have lag: "?r ! i = (\<Sum>j = 0..<n - i. shr (xs ! j * xs ! (i + j)) (nat s))" if i: "i < order + 1" for i
  proof -
    have "?r ! i = fold (\<lambda>j s'. to_i32 (s' + shr (xs ! j * xs ! (i + j)) (nat s))) [0..<n - i] 0"
      using i by (simp del: upt_Suc) (intro fold_cong; simp add: pr)
    also have "\<dots> = 0 + (\<Sum>j = 0..<n - i. shr (xs ! j * xs ! (i + j)) (nat s))"
    proof (rule fold_to_i32_sum [where B = B])
      have "int (n - i) * B \<le> int n * B" using B(1) by (intro mult_right_mono) auto
      then show "\<bar>0\<bar> + int (n - i - 0) * B \<le> 2147483647" using B(2) by simp
    qed (use B in auto)
    finally show ?thesis by simp
  qed
  have "WebRtcSpl_AutoCorrelation xs n order = (?r, s, order + 1)"
  proof -
    have sc: "(if M = 0 then 0 else if WebRtcSpl_NormW32 (to_i32 (M * M)) > WebRtcSpl_GetSizeInBits (to_u32 (int n))
        then 0 else WebRtcSpl_GetSizeInBits (to_u32 (int n)) - WebRtcSpl_NormW32 (to_i32 (M * M))) = s"
      by (simp add: s_def mm u)
    show ?thesis
      unfolding WebRtcSpl_AutoCorrelation_def Let_def M_def [symmetric] sc
      using AutoCorrelation_lag [unfolded Let_def] assms(4) by (auto simp del: upt_Suc)
  qed
  then show ?thesis using lag B(4,5)
    by (intro exI [of _ ?r] exI [of _ s]) (simp del: upt_Suc)
qed

theorem auto_correlation_correct_witness:
  "fst (WebRtcSpl_AutoCorrelation [32767, -32768, 32767, 5, 7, 8, -9] 7 2) ! 1 = - 536813566 \<and>
   length (fst (WebRtcSpl_AutoCorrelation [32767, -32768, 32767, 5, 7, 8, -9] 7 2)) = 3"
proof -
  have "fst (WebRtcSpl_AutoCorrelation [32767, -32768, 32767, 5, 7, 8, -9] 7 2) ! 1 = - 536813566"
    by code_simp
  with auto_correlation_correct [of "[32767, -32768, 32767, 5, 7, 8, -9]" 7 2] show ?thesis
    by (auto simp: all_i16_def is_i16_def)
qed


section \<open>Random numbers\<close>

lemma IncreaseSeed_eq: "IncreaseSeed seed = (seed * 69069 + 1) mod 2147483648"
proof -
  have m: "x AND 2147483647 = x mod 2147483648" for x :: int
    using take_bit_eq_mask [of 31 x] by (simp add: take_bit_eq_mod mask_eq_exp_minus_1)
  have "x mod 4294967296 mod 2147483648 = x mod 2147483648" for x :: int
    by (rule mod_mod_cancel) simp
  then show ?thesis by (simp add: IncreaseSeed_def m to_u32_def mod_add_left_eq)
qed

lemma IncreaseSeed_range: "0 \<le> IncreaseSeed seed" "IncreaseSeed seed < 2147483648"
  by (simp_all add: IncreaseSeed_eq)

lemma IncreaseSeed_inverse:
  assumes "0 \<le> seed" "seed < 2147483648"
  shows "((IncreaseSeed seed - 1) * 635610885) mod 2147483648 = seed"
proof -
  have "((IncreaseSeed seed - 1) * 635610885) mod 2147483648
      = ((seed * 69069 + 1 - 1) * 635610885) mod 2147483648"
    unfolding IncreaseSeed_eq by (intro mod_mult_cong mod_diff_cong) simp_all
  also have "(seed * 69069 + 1 - 1) * 635610885 = seed * (69069 * 635610885)" by (simp only: add_diff_cancel mult.assoc)
  also have "\<dots> mod 2147483648 = (seed * (69069 * 635610885 mod 2147483648)) mod 2147483648"
    by (simp only: mod_mult_right_eq)
  also have "\<dots> = seed" using assms by simp
  finally show ?thesis .
qed

text \<open>the seed update is the congruential generator \<open>69069 x + 1\<close> modulo \<open>2\<^sup>3\<^sup>1\<close>, a
  permutation of the seeds below \<open>2\<^sup>3\<^sup>1\<close>; \<open>WebRtcSpl_RandU\<close> returns the top 15 bits of the new seed,
  never negative, and \<open>WebRtcSpl_RandN\<close> reads its table of 512 entries at one of the first 256.\<close>

theorem random_generators:
  assumes "is_u32 seed"
  shows "IncreaseSeed seed = (seed * 69069 + 1) mod 2147483648 \<and>
    inj_on IncreaseSeed {0..<2147483648} \<and>
    WebRtcSpl_RandU seed = (IncreaseSeed seed, IncreaseSeed seed div 65536) \<and>
    0 \<le> snd (WebRtcSpl_RandU seed) \<and> snd (WebRtcSpl_RandU seed) \<le> 32767 \<and>
    length kRandNTable = 512 \<and> (\<exists>k < 256. WebRtcSpl_RandN seed = (IncreaseSeed seed, kRandNTable ! k))"
proof -
  let ?s = "IncreaseSeed seed"
  note r = IncreaseSeed_range [of seed]
  have "inj_on IncreaseSeed {0..<2147483648}"
    by (rule inj_on_inverseI [where g = "\<lambda>s. ((s - 1) * 635610885) mod 2147483648"])
       (simp add: IncreaseSeed_inverse del: left_diff_distrib_numeral)
  moreover have q: "0 \<le> ?s div 65536" "?s div 65536 \<le> 32767"
    using r int_div_less [of ?s 32768 65536] by (simp_all add: pos_imp_zdiv_nonneg_iff)
  then have "WebRtcSpl_RandU seed = (?s, ?s div 65536)"
    by (simp add: WebRtcSpl_RandU_def Let_def shr_def to_i16_small)
  moreover have "\<exists>k < 256. WebRtcSpl_RandN seed = (?s, kRandNTable ! k)"
  proof (intro exI conjI)
    show "nat (shr ?s 23) < 256"
      using r int_div_less [of ?s 256 8388608] by (simp add: shr_def nat_less_iff pos_imp_zdiv_nonneg_iff)
  qed (simp add: WebRtcSpl_RandN_def Let_def)
  moreover have "length kRandNTable = 512" by (simp add: kRandNTable_def)
  ultimately show ?thesis using q by (simp add: IncreaseSeed_eq)
qed

theorem random_generators_witness:
  "IncreaseSeed 777 = 53666614 \<and> snd (WebRtcSpl_RandU 777) = 818"
  using random_generators [of 777] by (simp add: is_u32_def)

section \<open>The Hanning window\<close>

lemma hanning_loop_Some:
  assumes "0 \<le> factor" "0 \<le> index + factor" "index + int n * factor < 1073741824" "is_i32 index"
  shows "hanning_loop n factor index
    = Some (map (\<lambda>j. kHanningTable ! nat (shr (index + int (Suc j) * factor) 22)) [0..<n])"
  using assms(2-)
proof (induction n arbitrary: index)
  case (Suc n)
  have le: "index + factor \<le> index + int (Suc n) * factor"
    using mult_right_mono [of 1 "int (Suc n)" factor] assms(1) by simp
  then have i: "to_i32 (index + factor) = index + factor"
    using Suc.prems by (intro to_i32_id) (simp add: is_i32_def)
  have s: "0 \<le> shr (index + factor) 22" "shr (index + factor) 22 < 256"
    using Suc.prems(1,2) le int_div_less [of "index + factor" 256 4194304]
    by (simp_all add: shr_nonneg) (simp add: shr_def)
  have "hanning_loop n factor (index + factor)
      = Some (map (\<lambda>j. kHanningTable ! nat (shr (index + factor + int (Suc j) * factor) 22)) [0..<n])"
  proof (rule Suc.IH)
    show "is_i32 (index + factor)" using i is_i32_to_i32 [of "index + factor"] by simp
    show "index + factor + int n * factor < 1073741824" using Suc.prems(2) by (simp add: algebra_simps)
    show "0 \<le> index + factor + factor" using Suc.prems(1) assms(1) by simp
  qed
  then show ?case using i s
    by (simp add: upt_conv_Cons map_Suc_upt [symmetric] algebra_simps comp_def del: upt_Suc)
qed simp

lemma kHanningTable_facts: "length kHanningTable = 256" "sorted kHanningTable"
  by (simp add: kHanningTable_def)
     (simp only: kHanningTable_def sorted2 sorted1 simp_thms arith_simps rel_simps)

text \<open>\<open>WebRtcSpl_GetHanningWindow\<close> reads only inside its table exactly for the window sizes up
  to 1024 (of those that fit the \<open>int16_t\<close> it casts the size to), and then gives a rising window of
  the requested length; for a larger size its first index is negative.\<close>

theorem hanning_window_in_bounds:
  assumes "0 < n" and "n \<le> 32767"
  shows "(WebRtcSpl_GetHanningWindow n = None \<longleftrightarrow> 1024 < n) \<and>
    (\<forall>w. WebRtcSpl_GetHanningWindow n = Some w \<longrightarrow> length w = n \<and> sorted w \<and> set w \<subseteq> set kHanningTable)"
proof -
  define f where "f = 1073741824 div int n"
  have f0: "0 \<le> f" using assms(1) by (simp add: f_def pos_imp_zdiv_nonneg_iff)
  have "f * int n + 1073741824 mod int n = 1073741824" unfolding f_def by (rule div_mult_mod_eq)
  moreover have "0 \<le> 1073741824 mod int n" using assms(1) by simp
  ultimately have fn: "int n * f \<le> 1073741824" by (simp only: mult.commute [of f])
  have "f \<le> 1073741824" unfolding f_def using assms(1) by (intro int_div_le) auto
  then have fac: "WebRtcSpl_DivW32W16 0x40000000 (to_i16 (int n)) = f"
    using assms f0 by (simp add: WebRtcSpl_DivW32W16_def to_i16_small c_div_pos f_def to_i32_id is_i32_def)
  define st where "st = (if n < 513 then - 0x200000 else - 0x100000 :: int)"
  have G: "WebRtcSpl_GetHanningWindow n = hanning_loop n f st"
    by (simp add: WebRtcSpl_GetHanningWindow_def fac st_def)
  show ?thesis
  proof (cases "n \<le> 1024")
    case True
    have "- st \<le> f"
    proof (cases "n < 513")
      case True
      have "2097152 * int n \<le> 1073741824" using True by simp
      then have "2097152 \<le> 1073741824 div int n"
        using assms(1) by (intro int_le_div) simp_all
      then show ?thesis using True by (simp add: st_def f_def)
    next
      case False
      have "1048576 * int n \<le> 1073741824" using \<open>n \<le> 1024\<close> by simp
      then have "1048576 \<le> 1073741824 div int n"
        using assms(1) by (intro int_le_div) simp_all
      then show ?thesis using False by (simp add: st_def f_def)
    qed
    moreover have "st < 0" "is_i32 st" by (simp_all add: st_def is_i32_def)
    ultimately have L: "hanning_loop n f st = Some (map (\<lambda>j. kHanningTable ! nat (shr (st + int (Suc j) * f) 22)) [0..<n])"
      using f0 fn by (intro hanning_loop_Some) auto
    have idx: "nat (shr (st + int (Suc j) * f) 22) < 256" if "j < n" for j
    proof -
      have "int (Suc j) * f \<le> int n * f" using that f0 by (intro mult_right_mono) auto
      then have "st + int (Suc j) * f < 256 * 4194304" using fn \<open>st < 0\<close> by linarith
      then have "shr (st + int (Suc j) * f) 22 < 256" by (simp add: shr_def int_div_less)
      then show ?thesis by linarith
    qed
    have mono: "nat (shr (st + int (Suc i) * f) 22) \<le> nat (shr (st + int (Suc j) * f) 22)" if "i \<le> j" for i j
      using that f0 by (intro nat_mono shr_mono add_left_mono mult_right_mono) auto
    have "sorted (map (\<lambda>j. kHanningTable ! nat (shr (st + int (Suc j) * f) 22)) [0..<n])"
      unfolding sorted_iff_nth_mono
      using mono idx kHanningTable_facts by (auto simp del: of_nat_Suc intro!: sorted_nth_mono)
    then show ?thesis using True idx kHanningTable_facts(1) by (auto simp: G L simp del: of_nat_Suc)
  next
    case False
    have "f < 1048576" unfolding f_def using False by (intro int_div_less) auto
    then have "to_i32 (st + f) = st + f" "st + f < 0" "- 1048576 \<le> st + f"
      using f0 False by (auto simp: st_def is_i32_def intro!: to_i32_id)
    then have "shr (to_i32 (st + f)) 22 < 0" by (simp add: shr_def)
    moreover obtain m where "n = Suc m" using assms(1) gr0_implies_Suc by blast
    ultimately have "hanning_loop n f st = None" by (simp add: Let_def)
    then show ?thesis using False by (simp add: G)
  qed
qed

theorem hanning_window_in_bounds_witness:
  "WebRtcSpl_GetHanningWindow 1025 = None \<and> WebRtcSpl_GetHanningWindow 4 = Some [2399, 8192, 13985, 16384] \<and>
   sorted [2399, 8192, 13985, 16384 :: int]"
proof -
  have "WebRtcSpl_GetHanningWindow 4 = Some [2399, 8192, 13985, 16384]" by code_simp
  with hanning_window_in_bounds [of 1025] hanning_window_in_bounds [of 4] show ?thesis by auto
qed

end
