(* ===== verification/SplFilters.thy ===== *)
theory SplFilters
  imports SplMath
begin

text \<open>
  The linear filters of \<open>webrtc/common_audio/signal_processing\<close>: the all-pole filter with
  double-precision output (\<open>filter_ar.c\<close>), the fast AR and MA filters in Q12
  (\<open>filter_ar_fast_q12.c\<close>, \<open>filter_ma_fast_q12.c\<close>), the decimating FIR filter
  (\<open>downsample_fast.c\<close>) and the two-band quadrature mirror filter bank
  (\<open>splitting_filter.c\<close>). An array with its length argument is a list; a pointer into the
  middle of an array (the filters read history before it) is the list with an offset.
\<close>

section \<open>The AR filter with low part\<close>

text \<open>One round of the outer loop for sample \<open>i\<close>: the outputs so far are \<open>f\<close> and \<open>fl\<close>.\<close>

definition ar_round :: "int list \<Rightarrow> int list \<Rightarrow> int list \<Rightarrow> int list \<Rightarrow> nat
    \<Rightarrow> int list \<times> int list \<Rightarrow> int list \<times> int list" where
  "ar_round a x state state_low i out =
     (let (filtered, filtered_low) = out;
          a_length = length a;
          state_length = length state;
          stop = (if i < a_length then i + 1 else a_length);
          (out32, oLOW) = fold (\<lambda>j (out32, oLOW). (to_i32 (out32 - a ! j * filtered ! (i - j)),
                                         to_i32 (oLOW - a ! j * filtered_low ! (i - j))))
                        [1..<stop] (to_i32 (x ! i * shl 1 12), 0);
          (out32, oLOW) = fold (\<lambda>j (out32, oLOW). (to_i32 (out32 - a ! j * state ! (state_length - 1 - (j - (i + 1)))),
                                         to_i32 (oLOW - a ! j * state_low ! (state_length - 1 - (j - (i + 1))))))
                        [i + 1..<a_length] (out32, oLOW);
          out32 = to_i32 (out32 + shr oLOW 12);
          y = to_i16 (shr (to_i32 (out32 + 2048)) 12)
      in (filtered @ [y], filtered_low @ [to_i16 (to_i32 (out32 - y * shl 1 12))]))"

text \<open>The last loop of the state update writes \<open>state\<close> twice and \<open>state_low\<close> never, as the
  source does.\<close>

definition ar_save_short :: "int list \<Rightarrow> int list \<Rightarrow> int list \<Rightarrow> int list \<Rightarrow> int list \<times> int list" where
  "ar_save_short filtered filtered_low state state_low =
     (let x_length = length filtered;
          state_length = length state;
          (state, state_low) = fold (\<lambda>i (state, state_low).
               (state[i := state ! (i + x_length)], state_low[i := state_low ! (i + x_length)]))
             [0..<state_length - x_length] (state, state_low);
          state = fold (\<lambda>i state.
               (state[state_length - x_length + i := filtered ! i])
                     [state_length - x_length + i := filtered_low ! i])
             [0..<x_length] state
      in (state, state_low))"

text \<open>Result: the two outputs, the two states and the return value. The states hold at least \<open>length a - 1\<close> samples,
  as the theorems assume; with fewer the code reads before them, which this definition does not describe.\<close>

definition WebRtcSpl_FilterAR ::
    "int list \<Rightarrow> int list \<Rightarrow> int list \<Rightarrow> int list \<Rightarrow> int list \<times> int list \<times> int list \<times> int list \<times> nat" where
  "WebRtcSpl_FilterAR a x state state_low =
     (let (filtered, filtered_low) = fold (ar_round a x state state_low) [0..<length x] ([], []);
          (state, state_low) =
            (if length x \<ge> length state
             then (WebRtcSpl_CopyFromEndW16 filtered (length x) (sz_sub (length a) 1) state,
                   WebRtcSpl_CopyFromEndW16 filtered_low (length x) (sz_sub (length a) 1) state_low)
             else ar_save_short filtered filtered_low state state_low)
      in (filtered, filtered_low, state, state_low, length x))"

section \<open>Fast filters in Q12\<close>

text \<open>The filters read \<open>m\<close> samples back from position \<open>i\<close> of a pointer to position \<open>off\<close> of an array, also before
  the pointer; \<open>None\<close> stands for a run that reads outside the array.\<close>

definition taps_inside :: "nat \<Rightarrow> nat \<Rightarrow> nat \<Rightarrow> int list \<Rightarrow> bool" where
  "taps_inside off m i xs \<longleftrightarrow> (\<forall>j \<in> set [0..<m]. 0 \<le> int off + int i - int j \<and> int off + int i - int j < int (length xs))"

text \<open>\<open>data_out\<close> points at position \<open>off\<close> of its array, the outputs of earlier calls before it.\<close>

definition WebRtcSpl_FilterARFastQ12 ::
    "int list \<Rightarrow> int list \<Rightarrow> nat \<Rightarrow> int list \<Rightarrow> nat \<Rightarrow> int list option" where
  "WebRtcSpl_FilterARFastQ12 data_in data_out off coefficients data_length =
     (if data_length \<le> length data_in \<and> (\<forall>i \<in> set [0..<data_length]. taps_inside off (length coefficients) i data_out)
      then Some (fold (\<lambda>i data_out.
         let sum = fold (\<lambda>j sum. to_i32 (sum + coefficients ! j * data_out ! (off + i - j)))
                     (rev [1..<length coefficients]) 0;
             out32 = to_i32 (coefficients ! 0 * data_in ! i);
             out32 = to_i32 (out32 - sum);
             out32 = SPL_SAT 134215679 out32 (- 134217728)
         in data_out[off + i := to_i16 (shr (to_i32 (out32 + 2048)) 12)])
       [0..<data_length] data_out)
      else None)"

text \<open>\<open>in_ptr\<close> points at position \<open>off\<close> of its array.\<close>

definition WebRtcSpl_FilterMAFastQ12 :: "int list \<Rightarrow> nat \<Rightarrow> int list \<Rightarrow> nat \<Rightarrow> int list option" where
  "WebRtcSpl_FilterMAFastQ12 in_data off B n =
     (if \<forall>i \<in> set [0..<n]. taps_inside off (length B) i in_data
      then Some (map (\<lambda>i. let out32 = fold (\<lambda>j out32. to_i32 (out32 + B ! j * in_data ! (off + i - j))) [0..<length B] 0;
                  out32 = SPL_SAT 134215679 out32 (- 134217728)
              in to_i16 (shr (to_i32 (out32 + 2048)) 12)) [0..<n])
      else None)"

section \<open>Decimation\<close>

text \<open>The loop \<open>for (i = delay; i < endpos; i += factor)\<close>; it does not end for \<open>factor = 0\<close>.
  \<open>data_in\<close> points at position \<open>off\<close> of its array.\<close>

definition downsample_value :: "int list \<Rightarrow> nat \<Rightarrow> int list \<Rightarrow> nat \<Rightarrow> int option" where
  "downsample_value data_in off coefficients i =
     (if taps_inside off (length coefficients) i data_in
      then
        let out_s32 = fold (\<lambda>j out_s32. to_i32 (out_s32 + coefficients ! j * data_in ! (off + i - j)))
                        [0..<length coefficients] 2048
        in Some (WebRtcSpl_SatW32ToW16 (shr out_s32 12))
      else None)"

partial_function (option) downsample_loop ::
    "int list \<Rightarrow> nat \<Rightarrow> int list \<Rightarrow> nat \<Rightarrow> nat \<Rightarrow> nat \<Rightarrow> int option list option" where
  "downsample_loop data_in off coefficients factor i endpos =
     (if i < endpos
      then Option.bind
             (downsample_loop data_in off coefficients factor ((i + factor) mod 18446744073709551616) endpos)
             (\<lambda>ys. Some (downsample_value data_in off coefficients i # ys))
      else Some [])"

declare downsample_loop.simps [code]

text \<open>\<open>Some (-1, Some [])\<close> is the error return, \<open>None\<close> a loop that does not end, \<open>Some (0, None)\<close> a run that reads
  outside the memory. The sizes are \<open>size_t\<close>, so \<open>data_out_length - 1\<close> wraps for 0, as does a product that exceeds
  64 bits; \<open>factor\<close> is the \<open>int\<close> of the source converted to \<open>size_t\<close>.\<close>

definition WebRtcSpl_DownsampleFastC ::
    "int list \<Rightarrow> nat \<Rightarrow> nat \<Rightarrow> nat \<Rightarrow> int list \<Rightarrow> nat \<Rightarrow> nat \<Rightarrow> (int \<times> int list option) option" where
  "WebRtcSpl_DownsampleFastC data_in off data_in_length data_out_length coefficients factor delay =
     (let endpos = (delay + sz_mul factor (sz_sub data_out_length 1) + 1) mod 18446744073709551616
      in if data_out_length = 0 \<or> length coefficients = 0 \<or> data_in_length < endpos
         then Some (- 1, Some [])
         else case downsample_loop data_in off coefficients factor delay endpos of
                None \<Rightarrow> None
              | Some ys \<Rightarrow> Some (0, those ys))"

section \<open>The quadrature mirror filter bank\<close>

definition WebRtcSpl_kAllPassFilter1 :: "int list" where
  "WebRtcSpl_kAllPassFilter1 = [6418, 36982, 57261]"

definition WebRtcSpl_kAllPassFilter2 :: "int list" where
  "WebRtcSpl_kAllPassFilter2 = [21333, 49062, 63010]"

text \<open>One cascade: the first sample uses the states \<open>x[-1]\<close>, \<open>y[-1]\<close>, the others the samples
  before them.\<close>

definition qmf_cascade :: "int \<Rightarrow> int \<Rightarrow> int \<Rightarrow> int list \<Rightarrow> int list" where
  "qmf_cascade c x1 y1 xs =
     fold (\<lambda>k ys. let diff = WebRtcSpl_SubSatW32 (xs ! k) (ys ! (k - 1))
                  in ys @ [SPL_SCALEDIFF32 c diff (xs ! (k - 1))])
       [1..<length xs]
       (let diff = WebRtcSpl_SubSatW32 (xs ! 0) y1 in [SPL_SCALEDIFF32 c diff x1])"

text \<open>Result: \<open>in_data\<close> (overwritten with the output of the second cascade), \<open>out_data\<close> and the
  filter state.\<close>

definition WebRtcSpl_AllPassQMF :: "int list \<Rightarrow> int list \<Rightarrow> int list \<Rightarrow> int list \<times> int list \<times> int list" where
  "WebRtcSpl_AllPassQMF in_data filter_coefficients filter_state =
     (let e = length in_data - 1;
          out_data = qmf_cascade (filter_coefficients ! 0) (filter_state ! 0) (filter_state ! 1) in_data;
          filter_state = filter_state[0 := in_data ! e, 1 := out_data ! e];
          in_data = qmf_cascade (filter_coefficients ! 1) (filter_state ! 2) (filter_state ! 3) out_data;
          filter_state = filter_state[2 := out_data ! e, 3 := in_data ! e];
          out_data = qmf_cascade (filter_coefficients ! 2) (filter_state ! 4) (filter_state ! 5) in_data;
          filter_state = filter_state[4 := in_data ! e, 5 := out_data ! e]
      in (in_data, out_data, filter_state))"

text \<open>The local arrays of both functions hold \<open>kMaxBandFrameLength\<close> samples per band, and the cascades use the first and
  the last sample: \<open>None\<close> stands for an access outside the arrays, which a longer band or an empty one makes.\<close>

definition kMaxBandFrameLength :: nat where
  "kMaxBandFrameLength = 320"

text \<open>Result: the low and the high band and the two filter states.\<close>

definition WebRtcSpl_AnalysisQMF ::
    "int list \<Rightarrow> int list \<Rightarrow> int list \<Rightarrow> (int list \<times> int list \<times> int list \<times> int list) option" where
  "WebRtcSpl_AnalysisQMF in_data filter_state1 filter_state2 =
     (let band_length = length in_data div 2;
          half_in2 = map (\<lambda>i. to_i32 (shl (in_data ! (2 * i)) 10)) [0..<band_length];
          half_in1 = map (\<lambda>i. to_i32 (shl (in_data ! (2 * i + 1)) 10)) [0..<band_length];
          (_, filter1, filter_state1) = WebRtcSpl_AllPassQMF half_in1 WebRtcSpl_kAllPassFilter1 filter_state1;
          (_, filter2, filter_state2) = WebRtcSpl_AllPassQMF half_in2 WebRtcSpl_kAllPassFilter2 filter_state2;
          low_band = map (\<lambda>i. WebRtcSpl_SatW32ToW16 (shr (to_i32 (filter1 ! i + filter2 ! i + 1024)) 11))
                       [0..<band_length];
          high_band = map (\<lambda>i. WebRtcSpl_SatW32ToW16 (shr (to_i32 (filter1 ! i - filter2 ! i + 1024)) 11))
                        [0..<band_length]
      in if band_length = 0 \<or> band_length > kMaxBandFrameLength then None
         else Some (low_band, high_band, filter_state1, filter_state2))"

definition WebRtcSpl_SynthesisQMF ::
    "int list \<Rightarrow> int list \<Rightarrow> int list \<Rightarrow> int list \<Rightarrow> (int list \<times> int list \<times> int list) option" where
  "WebRtcSpl_SynthesisQMF low_band high_band filter_state1 filter_state2 =
     (let band_length = length low_band;
          half_in1 = map (\<lambda>i. to_i32 ((low_band ! i + high_band ! i) * shl 1 10)) [0..<band_length];
          half_in2 = map (\<lambda>i. to_i32 ((low_band ! i - high_band ! i) * shl 1 10)) [0..<band_length];
          (_, filter1, filter_state1) = WebRtcSpl_AllPassQMF half_in1 WebRtcSpl_kAllPassFilter2 filter_state1;
          (_, filter2, filter_state2) = WebRtcSpl_AllPassQMF half_in2 WebRtcSpl_kAllPassFilter1 filter_state2;
          out_data = concat (map (\<lambda>i. [WebRtcSpl_SatW32ToW16 (shr (to_i32 (filter2 ! i + 512)) 10),
                                       WebRtcSpl_SatW32ToW16 (shr (to_i32 (filter1 ! i + 512)) 10)])
                               [0..<band_length])
      in if band_length = 0 \<or> band_length > kMaxBandFrameLength then None
         else Some (out_data, filter_state1, filter_state2))"


section \<open>The AR filter as a recursion over its history\<close>

definition ar_spec_step :: "int list \<Rightarrow> int \<Rightarrow> int list \<times> int list \<Rightarrow> int list \<times> int list" where
  "ar_spec_step a x hist =
     (let (H, HL) = hist;
          low = to_i32 (- (\<Sum>j\<leftarrow>[1..<length a]. a ! j * HL ! (length HL - j)));
          out32 = to_i32 (x * 4096 - (\<Sum>j\<leftarrow>[1..<length a]. a ! j * H ! (length H - j)) + shr low 12);
          y = to_i16 (shr (to_i32 (out32 + 2048)) 12)
      in (H @ [y], HL @ [to_i16 (to_i32 (out32 - y * 4096))]))"

lemma ar_sum_split:
  assumes "length st = p" "length a = Suc p" "length f = i"
  defines "m \<equiv> (if i < length a then i + 1 else length a)"
  shows "(\<Sum>j\<leftarrow>[1..<m]. a ! j * f ! (i - j)) + (\<Sum>j\<leftarrow>[i + 1..<length a]. a ! j * st ! (p - 1 - (j - (i + 1))))
    = (\<Sum>j\<leftarrow>[1..<length a]. a ! j * (st @ f) ! (length (st @ f) - j) :: int)"
proof -
  have A: "map (\<lambda>j. a ! j * (st @ f) ! (length (st @ f) - j)) [1..<m] = map (\<lambda>j. a ! j * f ! (i - j)) [1..<m]"
    using assms by (auto simp: nth_append intro!: arg_cong [where f = "(!) f"])
  have B: "map (\<lambda>j. a ! j * (st @ f) ! (length (st @ f) - j)) [i + 1..<length a]
      = map (\<lambda>j. a ! j * st ! (p - 1 - (j - (i + 1)))) [i + 1..<length a]"
    using assms by (auto simp: nth_append intro!: arg_cong [where f = "(!) st"])
  have "[1..<length a] = [1..<m] @ [i + 1..<length a]"
    unfolding m_def using assms(2) upt_split [of 1 "i + 1" "length a"] by auto
  then show ?thesis by (simp only: map_append sum_list_append A B)
qed

lemma ar_round_spec:
  assumes "length st = p" "length stl = p" "length a = Suc p" "length f = i" "length fl = i"
    and "ar_round a xs st stl i (f, fl) = (f', fl')"
  shows "(st @ f', stl @ fl') = ar_spec_step a (xs ! i) (st @ f, stl @ fl)"
proof -
  let ?m = "if i < length a then i + 1 else length a"
  have 1: "fold (\<lambda>j s. to_i32 (s - a ! j * g ! (p - 1 - (j - (i + 1))))) [i + 1..<length a]
      (fold (\<lambda>j s. to_i32 (s - a ! j * h ! (i - j))) [1..<?m] (to_i32 s))
    = to_i32 (s - (\<Sum>j\<leftarrow>[1..<length a]. a ! j * (g @ h) ! (length (g @ h) - j)))"
    if "length g = p" "length h = i" for g h s
    unfolding fold_to_i32_sub ar_sum_split [OF that(1) assms(3) that(2), symmetric]
    by (simp only: diff_diff_eq)
  have 2: "fold (\<lambda>j s. to_i32 (s - a ! j * g ! (p - 1 - (j - (i + 1))))) [i + 1..<length a]
      (fold (\<lambda>j s. to_i32 (s - a ! j * h ! (i - j))) [1..<?m] 0)
    = to_i32 (- (\<Sum>j\<leftarrow>[1..<length a]. a ! j * (g @ h) ! (length (g @ h) - j)))"
    if "length g = p" "length h = i" for g h
    using 1 [OF that, of 0] by simp
  have s: "shl 1 12 = (4096 :: int)" by (simp add: shl_def)
  show ?thesis
    using assms(6)
    unfolding ar_round_def ar_spec_step_def Let_def case_prod_conv fold_pair assms(1) s
    unfolding 1 [OF assms(1,4)] 2 [OF assms(2,5)]
    by (auto simp: Let_def)
qed

lemma ar_round_length: "length (fst (ar_round a xs st stl i (f, fl))) = Suc (length f) \<and>
    length (snd (ar_round a xs st stl i (f, fl))) = Suc (length fl)"
  by (simp add: ar_round_def Let_def split: prod.splits)

lemma ar_fold_spec:
  assumes "length st = p" "length stl = p" "length a = Suc p" "n \<le> length xs"
  shows "\<exists>f fl. fold (ar_round a xs st stl) [0..<n] ([], []) = (f, fl) \<and> length f = n \<and> length fl = n \<and>
    (st @ f, stl @ fl) = fold (ar_spec_step a) (take n xs) (st, stl)"
  using assms(4)
proof (induction n)
  case (Suc n)
  then obtain f fl where f: "fold (ar_round a xs st stl) [0..<n] ([], []) = (f, fl)" "length f = n" "length fl = n"
    "(st @ f, stl @ fl) = fold (ar_spec_step a) (take n xs) (st, stl)" by auto
  obtain f' fl' where f': "ar_round a xs st stl n (f, fl) = (f', fl')" by fastforce
  have "length f' = Suc n" "length fl' = Suc n" using ar_round_length [of a xs st stl n f fl] f' f by simp_all
  then show ?case
    using ar_round_spec [OF assms(1-3) f(2,3) f'] f f' Suc.prems by (simp add: take_Suc_conv_app_nth)
qed simp

lemma ar_spec_step_drop:
  assumes "length a = Suc p" "length H = length HL" "p + k \<le> length H"
  shows "ar_spec_step a x (drop k H, drop k HL)
    = (drop k (fst (ar_spec_step a x (H, HL))), drop k (snd (ar_spec_step a x (H, HL))))"
proof -
  have "map (\<lambda>j. a ! j * drop k G ! (length (drop k G) - j)) [1..<length a]
      = map (\<lambda>j. a ! j * G ! (length G - j)) [1..<length a]" if "length G = length H" for G
    using assms that by (auto intro!: arg_cong [where f = "(!) G"])
  note eqs = this [OF refl] this [OF assms(2) [symmetric]]
  show ?thesis unfolding ar_spec_step_def Let_def case_prod_conv eqs using assms(2,3) by simp
qed

lemma ar_spec_drop:
  assumes "length a = Suc p"
  shows "length H = length HL \<Longrightarrow> p + k \<le> length H \<Longrightarrow> fold (ar_spec_step a) xs (drop k H, drop k HL)
    = (drop k (fst (fold (ar_spec_step a) xs (H, HL))), drop k (snd (fold (ar_spec_step a) xs (H, HL))))"
proof (induction xs arbitrary: H HL)
  case (Cons x xs)
  obtain H' HL' where e: "ar_spec_step a x (H, HL) = (H', HL')" by fastforce
  then have "length H' = Suc (length H)" "length HL' = Suc (length HL)"
    by (auto simp: ar_spec_step_def Let_def)
  then show ?case using Cons.IH [of H' HL'] Cons.prems e ar_spec_step_drop [OF assms Cons.prems] by simp
qed simp

lemma ar_spec_append:
  "\<exists>u ul. fold (ar_spec_step a) xs (H, HL) = (H @ u, HL @ ul) \<and> length u = length xs \<and> length ul = length xs"
proof (induction xs arbitrary: H HL)
  case (Cons x xs)
  obtain y yl where e: "ar_spec_step a x (H, HL) = (H @ [y], HL @ [yl])"
    by (simp add: ar_spec_step_def Let_def)
  obtain u ul where u: "fold (ar_spec_step a) xs (H @ [y], HL @ [yl]) = (H @ [y] @ u, HL @ [yl] @ ul)"
    "length u = length xs" "length ul = length xs" using Cons [of "H @ [y]" "HL @ [yl]"] by auto
  with e show ?case by (intro exI [of _ "y # u"] exI [of _ "yl # ul"]) simp
qed simp

lemma CopyFromEnd_full:
  assumes "length st = p" "p \<le> length f"
  shows "WebRtcSpl_CopyFromEndW16 f (length f) p st = drop (length f - p) f"
  using assms by (simp add: WebRtcSpl_CopyFromEndW16_def blit_def)

lemma FilterAR_spec:
  assumes "length st = p" "length stl = p" "length a = Suc p" "p \<le> length xs"
  shows "\<exists>f fl. WebRtcSpl_FilterAR a xs st stl
      = (f, fl, drop (length xs - p) f, drop (length xs - p) fl, length xs) \<and>
    length f = length xs \<and> length fl = length xs \<and>
    (st @ f, stl @ fl) = fold (ar_spec_step a) xs (st, stl)"
proof -
  obtain f fl where f: "fold (ar_round a xs st stl) [0..<length xs] ([], []) = (f, fl)"
    "length f = length xs" "length fl = length xs" "(st @ f, stl @ fl) = fold (ar_spec_step a) xs (st, stl)"
    using ar_fold_spec [OF assms(1-3), of "length xs" xs] by auto
  then show ?thesis
    using assms CopyFromEnd_full [OF assms(1), of f] CopyFromEnd_full [OF assms(2), of fl]
    by (intro exI [of _ f] exI [of _ fl]) (simp add: WebRtcSpl_FilterAR_def)
qed

text \<open>filtering two blocks in turn with \<open>WebRtcSpl_FilterAR\<close>, the state of the first call
  passed to the second, is filtering their concatenation, when no block is shorter than the state.\<close>

theorem filter_ar_streams:
  assumes "length st = p" and "length stl = p" and "length a = Suc p"
    and "p \<le> length xs" and "p \<le> length ys"
  shows "WebRtcSpl_FilterAR a (xs @ ys) st stl =
    (let (f1, l1, st1, stl1, n1) = WebRtcSpl_FilterAR a xs st stl;
         (f2, l2, st2, stl2, n2) = WebRtcSpl_FilterAR a ys st1 stl1
     in (f1 @ f2, l1 @ l2, st2, stl2, n1 + n2))"
proof -
  obtain f fl where f: "WebRtcSpl_FilterAR a xs st stl
      = (f, fl, drop (length xs - p) f, drop (length xs - p) fl, length xs)"
    "length f = length xs" "length fl = length xs" "(st @ f, stl @ fl) = fold (ar_spec_step a) xs (st, stl)"
    using FilterAR_spec [OF assms(1-4)] by auto
  let ?s = "drop (length xs - p) f" and ?sl = "drop (length xs - p) fl"
  have s: "length ?s = p" "length ?sl = p" using f assms(4) by simp_all
  obtain g gl where g: "WebRtcSpl_FilterAR a ys ?s ?sl
      = (g, gl, drop (length ys - p) g, drop (length ys - p) gl, length ys)"
    "length g = length ys" "length gl = length ys" "(?s @ g, ?sl @ gl) = fold (ar_spec_step a) ys (?s, ?sl)"
    using FilterAR_spec [OF s assms(3,5)] by auto
  have "p \<le> length (xs @ ys)" using assms(4) by simp
  from FilterAR_spec [OF assms(1-3) this]
  obtain h hl where h: "WebRtcSpl_FilterAR a (xs @ ys) st stl
      = (h, hl, drop (length (xs @ ys) - p) h, drop (length (xs @ ys) - p) hl, length (xs @ ys))"
    "length h = length (xs @ ys)" "length hl = length (xs @ ys)"
    "(st @ h, stl @ hl) = fold (ar_spec_step a) (xs @ ys) (st, stl)" by auto
  have k: "?s = drop (length xs) (st @ f)" "?sl = drop (length xs) (stl @ fl)"
    using assms f by simp_all
  have "(st @ h, stl @ hl) = fold (ar_spec_step a) ys (st @ f, stl @ fl)" using h(4) f(4) by simp
  moreover obtain u ul where u: "fold (ar_spec_step a) ys (st @ f, stl @ fl) = ((st @ f) @ u, (stl @ fl) @ ul)"
    using ar_spec_append by blast
  ultimately have h': "h = f @ u" "hl = fl @ ul" by simp_all
  have "(?s @ g, ?sl @ gl) = (drop (length xs) ((st @ f) @ u), drop (length xs) ((stl @ fl) @ ul))"
    unfolding g(4) unfolding k
    using ar_spec_drop [OF assms(3), of "st @ f" "stl @ fl" "length xs" ys] assms(1,2) f(2,3) u by simp
  moreover have "length xs \<le> length (st @ f)" "length xs \<le> length (stl @ fl)" using f(2,3) by simp_all
  ultimately have "?s @ g = ?s @ u" "?sl @ gl = ?sl @ ul"
    unfolding k by (simp_all only: drop_append prod.inject) simp_all
  then have "g = u" "gl = ul" by simp_all
  moreover have "drop (length (xs @ ys) - p) h = drop (length ys - p) g"
    "drop (length (xs @ ys) - p) hl = drop (length ys - p) gl"
    using h' calculation f(2,3) assms(5) by simp_all
  ultimately show ?thesis using f(1) g(1) h(1) h' by simp
qed

theorem filter_ar_streams_witness:
  "WebRtcSpl_FilterAR [4096, - 2000, 500] [1000, - 200, 300, 40] [0, 0] [0, 0]
   = (let (f1, l1, st1, stl1, n1) = WebRtcSpl_FilterAR [4096, - 2000, 500] [1000, - 200] [0, 0] [0, 0];
          (f2, l2, st2, stl2, n2) = WebRtcSpl_FilterAR [4096, - 2000, 500] [300, 40] st1 stl1
      in (f1 @ f2, l1 @ l2, st2, stl2, n1 + n2))"
  using filter_ar_streams [of "[0, 0]" 2 "[0, 0]" "[4096, - 2000, 500]" "[1000, - 200]" "[300, 40]"] by simp

text \<open>For a block shorter than the state the last loop stores the low parts over the outputs in
  \<open>state\<close> and leaves \<open>state_low\<close>: here the output 1001 of the first block is lost, and the second
  block does not ring.\<close>

lemma filter_ar_short_block_state:
  "WebRtcSpl_FilterAR [4096, - 2000, 500] [1001] [0, 0] [0, 0] = ([1001], [0], [0, 0], [0, 0], 1)"
  "fst (WebRtcSpl_FilterAR [4096, - 2000, 500] [1001, 0, 0] [0, 0] [0, 0]) = [1001, 489, 116]"
  "fst (WebRtcSpl_FilterAR [4096, - 2000, 500] [0, 0] [0, 0] [0, 0]) = [0, 0]"
  by code_simp+


section \<open>Rounding and saturation in Q12\<close>

lemma q12_saturation:
  assumes "is_i32 x"
  shows "to_i16 (shr (to_i32 (SPL_SAT 134215679 x (- 134217728) + 2048)) 12)
    = max (- 32768) (min 32767 (shr (x + 2048) 12))"
proof -
  let ?s = "SPL_SAT 134215679 x (- 134217728)"
  have s: "- 134217728 \<le> ?s" "?s \<le> 134215679" by (auto simp: SPL_SAT_def)
  have "- 32768 \<le> shr (?s + 2048) 12" "shr (?s + 2048) 12 < 32768"
    using s int_div_less [of "?s + 2048" 32768 4096] int_le_div [of "- 32768" 4096 "?s + 2048"]
    by (simp_all add: shr_def)
  then have "to_i16 (shr (to_i32 (?s + 2048)) 12) = shr (?s + 2048) 12"
    using s by (subst to_i32_id) (auto simp: is_i32_def to_i16_small)
  also have "\<dots> = max (- 32768) (min 32767 (shr (x + 2048) 12))"
  proof (cases "x > 134215679")
    case True
    then have "32768 \<le> shr (x + 2048) 12" using int_le_div [of 32768 4096 "x + 2048"] by (simp add: shr_def)
    then show ?thesis using True by (simp add: SPL_SAT_def shr_def)
  next
    case False
    then have u: "shr (x + 2048) 12 < 32768" using int_div_less [of "x + 2048" 32768 4096] by (simp add: shr_def)
    show ?thesis
    proof (cases "x < - 134217728")
      case True
      then have "shr (x + 2048) 12 < - 32767" using int_div_less [of "x + 2048" "- 32767" 4096] by (simp add: shr_def)
      then show ?thesis using True by (simp add: SPL_SAT_def shr_def)
    next
      case F2: False
      then have "- 32768 \<le> shr (x + 2048) 12" using int_le_div [of "- 32768" 4096 "x + 2048"] by (simp add: shr_def)
      then show ?thesis using False F2 u by (simp add: SPL_SAT_def)
    qed
  qed
  finally show ?thesis .
qed

lemma taps_inside_iff:
  assumes "off + i < length xs" "0 < m" shows "taps_inside off m i xs \<longleftrightarrow> m \<le> off + i + 1"
proof
  assume "taps_inside off m i xs"
  moreover have "m - 1 \<in> set [0..<m]" using assms(2) by simp
  ultimately have "0 \<le> int off + int i - int (m - 1)" unfolding taps_inside_def by blast
  then show "m \<le> off + i + 1" using assms(2) by simp
next
  assume "m \<le> off + i + 1"
  then show "taps_inside off m i xs" using assms by (auto simp: taps_inside_def)
qed

text \<open>With enough samples before the first, every output of \<open>WebRtcSpl_FilterMAFastQ12\<close> is the wrapped 32-bit convolution
  sum, rounded from Q12 and clamped to the 16-bit range: the saturation limits are those at which rounding leaves the
  range.\<close>

theorem filter_ma_fast_q12_spec:
  assumes "off + n \<le> length xs" and "length B \<le> off + 1"
  shows "WebRtcSpl_FilterMAFastQ12 xs off B n = Some (map (\<lambda>i.
    max (- 32768) (min 32767 (shr (to_i32 (\<Sum>j\<leftarrow>[0..<length B]. B ! j * xs ! (off + i - j)) + 2048) 12))) [0..<n])"
proof -
  have "fold (\<lambda>j s. to_i32 (s + B ! j * xs ! (off + i - j))) [0..<length B] 0
      = to_i32 (\<Sum>j\<leftarrow>[0..<length B]. B ! j * xs ! (off + i - j))" for i
    using fold_to_i32_add [of "\<lambda>j. B ! j * xs ! (off + i - j)" "[0..<length B]" 0] by simp
  moreover have "taps_inside off (length B) i xs" if "i < n" for i
    using that assms by (auto simp: taps_inside_def)
  ultimately show ?thesis by (simp add: WebRtcSpl_FilterMAFastQ12_def Let_def q12_saturation)
qed

section \<open>Decimation\<close>

lemma downsample_loop_eq:
  assumes "0 < factor" "i + factor * n < 18446744073709551616"
    "n = 0 \<longrightarrow> endpos \<le> i" "0 < n \<longrightarrow> endpos = i + factor * (n - 1) + 1"
  shows "downsample_loop xs off cs factor i endpos
    = Some (map (\<lambda>k. downsample_value xs off cs (i + factor * k)) [0..<n])"
  using assms(2-)
proof (induction n arbitrary: i)
  case 0
  then show ?case by (subst downsample_loop.simps) simp
next
  case (Suc n)
  have lt: "i + factor < 18446744073709551616" using Suc.prems(1) by simp
  have "downsample_loop xs off cs factor (i + factor) endpos
      = Some (map (\<lambda>k. downsample_value xs off cs (i + factor + factor * k)) [0..<n])"
  proof (rule Suc.IH)
    show "i + factor + factor * n < 18446744073709551616" using Suc.prems(1) by simp
    show "n = 0 \<longrightarrow> endpos \<le> i + factor" using Suc.prems(3) assms(1) by simp
    show "0 < n \<longrightarrow> endpos = i + factor + factor * (n - 1) + 1"
      using Suc.prems(3) by (cases n) simp_all
  qed
  moreover have "i < endpos" using Suc.prems(3) by simp
  ultimately show ?case using lt
    by (subst downsample_loop.simps)
       (simp add: upt_conv_Cons map_Suc_upt [symmetric] add.assoc comp_def del: upt_Suc)
qed

text \<open>The memory that the taps of one output reach: \<open>length cs\<close> samples up to position \<open>i\<close>.\<close>

lemma downsample_value_eq:
  assumes "off + len \<le> length xs" "i < len" "cs \<noteq> []"
  shows "downsample_value xs off cs i =
    (if length cs \<le> off + i + 1
     then Some (WebRtcSpl_SatW32ToW16 (shr (to_i32 (2048 + (\<Sum>j\<leftarrow>[0..<length cs]. cs ! j * xs ! (off + i - j)))) 12))
     else None)"
proof -
  have "taps_inside off (length cs) i xs \<longleftrightarrow> length cs \<le> off + i + 1"
    using assms by (intro taps_inside_iff) auto
  moreover have "fold (\<lambda>j s. to_i32 (s + cs ! j * xs ! (off + i - j))) [0..<length cs] 2048
      = to_i32 (2048 + (\<Sum>j\<leftarrow>[0..<length cs]. cs ! j * xs ! (off + i - j)))"
    using fold_to_i32_add [of "\<lambda>j. cs ! j * xs ! (off + i - j)" "[0..<length cs]" 2048] by (simp add: to_i32_id is_i32_def)
  ultimately show ?thesis by (simp add: downsample_value_def Let_def)
qed

lemma those_map_Some: "(\<And>k. k \<in> set ks \<Longrightarrow> f k = Some (g k)) \<Longrightarrow> those (map f ks) = Some (map g ks)"
  by (induction ks) simp_all

lemma those_None: "k \<in> set ks \<Longrightarrow> f k = None \<Longrightarrow> those (map f ks) = None"
  by (induction ks) (auto split: option.split)

text \<open>C40: For a positive step, sizes whose last position fits 64 bits, and an input that lies in the memory given,
  \<open>WebRtcSpl_DownsampleFastC\<close> ends. It fails exactly when no output is asked for, there is no coefficient or the input is
  too short for the last position. Otherwise it stays inside the memory exactly when the \<open>off + delay\<close> samples before the
  first position are enough for the taps of the filter, and then returns at each of the positions \<open>delay + k * factor\<close>
  the rounded and saturated output of the filter.\<close>

theorem downsample_fast_correct:
  assumes "0 < factor" and "delay + factor * n < 18446744073709551615" and "off + len \<le> length xs"
  shows "WebRtcSpl_DownsampleFastC xs off len n cs factor delay = Some
    (if n = 0 \<or> cs = [] \<or> len \<le> delay + factor * (n - 1) then (- 1, Some [])
     else if length cs \<le> off + delay + 1 then
       (0, Some (map (\<lambda>k. WebRtcSpl_SatW32ToW16 (shr (to_i32 (2048 +
          (\<Sum>j\<leftarrow>[0..<length cs]. cs ! j * xs ! (off + (delay + factor * k) - j)))) 12)) [0..<n]))
     else (0, None))"
proof (cases "n = 0")
  case True
  then show ?thesis by (simp add: WebRtcSpl_DownsampleFastC_def Let_def)
next
  case False
  have le: "factor * (n - 1) \<le> factor * n" by simp
  then have "factor * (n - 1) < 18446744073709551616" "delay + factor * (n - 1) + 1 < 18446744073709551616"
    using assms(2) by linarith+
  then have e: "(delay + sz_mul factor (sz_sub n 1) + 1) mod 18446744073709551616 = delay + factor * (n - 1) + 1"
    using False by (simp add: sz_mul_def)
  have loop: "downsample_loop xs off cs factor delay (delay + factor * (n - 1) + 1)
      = Some (map (\<lambda>k. downsample_value xs off cs (delay + factor * k)) [0..<n])"
    using False assms by (intro downsample_loop_eq) auto
  show ?thesis
  proof (cases "cs = [] \<or> len \<le> delay + factor * (n - 1)")
    case True
    then show ?thesis using False unfolding WebRtcSpl_DownsampleFastC_def Let_def e by auto
  next
    case ok: False
    have pos: "delay + factor * k < len" if "k < n" for k
    proof -
      have "factor * k \<le> factor * (n - 1)" using that by (intro mult_le_mono2) simp
      then show ?thesis using ok by linarith
    qed
    note v = downsample_value_eq [OF assms(3) pos, of _ cs]
    have "those (map (\<lambda>k. downsample_value xs off cs (delay + factor * k)) [0..<n]) =
      (if length cs \<le> off + delay + 1 then
         Some (map (\<lambda>k. WebRtcSpl_SatW32ToW16 (shr (to_i32 (2048 +
           (\<Sum>j\<leftarrow>[0..<length cs]. cs ! j * xs ! (off + (delay + factor * k) - j)))) 12)) [0..<n])
       else None)"
    proof (cases "length cs \<le> off + delay + 1")
      case True
      then have "length cs \<le> off + (delay + factor * k) + 1" for k by simp
      then have "those (map (\<lambda>k. downsample_value xs off cs (delay + factor * k)) [0..<n]) =
          Some (map (\<lambda>k. WebRtcSpl_SatW32ToW16 (shr (to_i32 (2048 +
           (\<Sum>j\<leftarrow>[0..<length cs]. cs ! j * xs ! (off + (delay + factor * k) - j)))) 12)) [0..<n])"
        using ok v by (intro those_map_Some) simp
      then show ?thesis using True by simp
    next
      case False
      then have "downsample_value xs off cs (delay + factor * 0) = None" using v [of 0] ok \<open>n \<noteq> 0\<close> by simp
      then show ?thesis using False \<open>n \<noteq> 0\<close> by (simp add: those_None [of 0])
    qed
    then show ?thesis using False ok unfolding WebRtcSpl_DownsampleFastC_def Let_def e loop by auto
  qed
qed

theorem downsample_fast_correct_witness:
  "WebRtcSpl_DownsampleFastC [10, 20, 30, 40, 50] 1 4 2 [2048, 2048] 3 0 = Some (0, Some [15, 45]) \<and>
   WebRtcSpl_DownsampleFastC [10, 20, 30, 40, 50] 0 4 2 [2048, 2048] 3 0 = Some (0, None)"
proof -
  have "(0 :: nat) < 3" "(0 :: nat) + 3 * 2 < 18446744073709551615" by simp_all
  note d = downsample_fast_correct [OF this, of _ 4 "[10, 20, 30, 40, 50]" "[2048, 2048]"]
  show ?thesis
    using d [of 1] d [of 0] by (simp add: WebRtcSpl_SatW32ToW16_def shr_def to_i32_def to_i16_def upt_rec)
qed

section \<open>The filter bank\<close>

text \<open>A cascade as a recursion over the samples.\<close>

fun cascade_rec :: "int \<Rightarrow> int \<Rightarrow> int \<Rightarrow> int list \<Rightarrow> int list" where
  "cascade_rec c x1 y1 [] = []"
| "cascade_rec c x1 y1 (x # xs) =
     (let y = SPL_SCALEDIFF32 c (WebRtcSpl_SubSatW32 x y1) x1 in y # cascade_rec c x y xs)"

lemma length_cascade_rec [simp]: "length (cascade_rec c x1 y1 xs) = length xs"
  by (induction xs arbitrary: x1 y1) (simp_all add: Let_def)

lemma cascade_rec_Nil [simp]: "cascade_rec c x1 y1 xs = [] \<longleftrightarrow> xs = []"
  by (cases xs) (simp_all add: Let_def)

lemma cascade_rec_append:
  "cascade_rec c x1 y1 (xs @ ys) = cascade_rec c x1 y1 xs
     @ cascade_rec c (last (x1 # xs)) (last (y1 # cascade_rec c x1 y1 xs)) ys"
  by (induction xs arbitrary: x1 y1) (simp_all add: Let_def)

lemma qmf_cascade_eq:
  assumes "xs \<noteq> []"
  shows "qmf_cascade c x1 y1 xs = cascade_rec c x1 y1 xs"
proof -
  have "0 < length xs" using assms by simp
  have "qmf_cascade c x1 y1 (xs) = fold (\<lambda>k ys. let diff = WebRtcSpl_SubSatW32 (xs ! k) (ys ! (k - 1))
                  in ys @ [SPL_SCALEDIFF32 c diff (xs ! (k - 1))]) [1..<length xs] (cascade_rec c x1 y1 (take 1 xs))"
    using assms by (cases xs) (simp_all add: qmf_cascade_def Let_def)
  also have "\<dots> = cascade_rec c x1 y1 (take (length xs) xs)"
  proof (rule fold_upt_inv [where P = "\<lambda>k ys. ys = cascade_rec c x1 y1 (take k xs)"])
    fix k ys assume k: "1 \<le> k" "k < length xs" and ys: "ys = cascade_rec c x1 y1 (take k xs)"
    then have "ys \<noteq> []" "length ys = k" by (auto simp flip: length_greater_0_conv)
    moreover have "take k xs \<noteq> []" using k by auto
    ultimately have "last (y1 # ys) = ys ! (k - 1)" "last (x1 # take k xs) = xs ! (k - 1)"
      using k by (simp_all add: last_conv_nth)
    then show "(let diff = WebRtcSpl_SubSatW32 (xs ! k) (ys ! (k - 1))
                  in ys @ [SPL_SCALEDIFF32 c diff (xs ! (k - 1))]) = cascade_rec c x1 y1 (take (Suc k) xs)"
      using k ys by (simp add: take_Suc_conv_app_nth cascade_rec_append Let_def)
  qed (use \<open>0 < length xs\<close> in \<open>simp_all add: Suc_leI\<close>)
  finally show ?thesis by simp
qed


lemma AllPassQMF_eq:
  fixes cs :: "int list"
  assumes "length s = 6" "xs \<noteq> []"
  defines "y1 \<equiv> cascade_rec (cs ! 0) (s ! 0) (s ! 1) xs"
  defines "y2 \<equiv> cascade_rec (cs ! 1) (s ! 2) (s ! 3) y1"
  defines "y3 \<equiv> cascade_rec (cs ! 2) (s ! 4) (s ! 5) y2"
  shows "WebRtcSpl_AllPassQMF xs cs s = (y2, y3, [last xs, last y1, last y1, last y2, last y2, last y3])"
proof -
  have ne: "y1 \<noteq> []" "y2 \<noteq> []" "y3 \<noteq> []" and l: "length y1 = length xs" "length y2 = length xs" "length y3 = length xs"
    using assms(2) by (simp_all add: y1_def y2_def y3_def)
  have lst: "ys ! (length xs - Suc 0) = last ys" if "ys \<noteq> []" "length ys = length xs" for ys :: "int list"
    using that by (simp add: last_conv_nth)
  note s = list_of_6 [OF assms(1)]
  have e: "s[0 := u, 1 := v] ! 2 = s ! 2" "s[0 := u, 1 := v] ! 3 = s ! 3"
    "s[0 := u, 1 := v, 2 := w, 3 := z] ! 4 = s ! 4" "s[0 := u, 1 := v, 2 := w, 3 := z] ! 5 = s ! 5" for u v w z
    by simp_all
  have q: "qmf_cascade (cs ! 0) (s ! 0) (s ! 1) xs = y1" "qmf_cascade (cs ! 1) (s ! 2) (s ! 3) y1 = y2"
    "qmf_cascade (cs ! 2) (s ! 4) (s ! 5) y2 = y3"
    using assms(2) ne by (simp_all add: qmf_cascade_eq y1_def y2_def y3_def)
  show ?thesis
    unfolding WebRtcSpl_AllPassQMF_def Let_def e q
    by (subst s) (simp add: lst [OF assms(2) refl] lst [OF ne(1) l(1)] lst [OF ne(2) l(2)] lst [OF ne(3) l(3)])
qed

lemma AllPassQMF_append:
  assumes "length s = 6" "xs \<noteq> []" "ys \<noteq> []"
  shows "snd (WebRtcSpl_AllPassQMF (xs @ ys) cs s) =
    (let (_, o1, s1) = WebRtcSpl_AllPassQMF xs cs s; (_, o2, s2) = WebRtcSpl_AllPassQMF ys cs s1 in (o1 @ o2, s2))"
    and "length (snd (snd (WebRtcSpl_AllPassQMF xs cs s))) = 6"
    and "length (fst (snd (WebRtcSpl_AllPassQMF xs cs s))) = length xs"
proof -
  show "snd (WebRtcSpl_AllPassQMF (xs @ ys) cs s) =
    (let (_, o1, s1) = WebRtcSpl_AllPassQMF xs cs s; (_, o2, s2) = WebRtcSpl_AllPassQMF ys cs s1 in (o1 @ o2, s2))"
  proof -
    have n1: "xs @ ys \<noteq> []" using assms(2) by simp
    have n2: "length [a, b, c, d, e, f] = 6" for a b c d e f :: int by simp
    show ?thesis
      unfolding AllPassQMF_eq [OF assms(1,2)] AllPassQMF_eq [OF assms(1) n1] Let_def case_prod_conv
        AllPassQMF_eq [OF n2 assms(3)] cascade_rec_append
      using assms by simp
  qed
  show "length (snd (snd (WebRtcSpl_AllPassQMF xs cs s))) = 6"
    "length (fst (snd (WebRtcSpl_AllPassQMF xs cs s))) = length xs"
    using assms by (simp_all add: AllPassQMF_eq)
qed

lemma map_nth_upt_append:
  "map (\<lambda>i. f ((xs @ ys) ! i)) [0..<length xs + length ys] = map f xs @ map f ys"
  by (rule nth_equalityI) (simp_all add: nth_append)

lemma halves_append:
  assumes "length xs = 2 * n" "length ys = 2 * m" "k < 2"
  shows "map (\<lambda>i. g ((xs @ ys) ! (2 * i + k))) [0..<n + m]
    = map (\<lambda>i. g (xs ! (2 * i + k))) [0..<n] @ map (\<lambda>i. g (ys ! (2 * i + k))) [0..<m]"
proof (rule nth_equalityI)
  fix j assume j: "j < length (map (\<lambda>i. g ((xs @ ys) ! (2 * i + k))) [0..<n + m])"
  show "map (\<lambda>i. g ((xs @ ys) ! (2 * i + k))) [0..<n + m] ! j
    = (map (\<lambda>i. g (xs ! (2 * i + k))) [0..<n] @ map (\<lambda>i. g (ys ! (2 * i + k))) [0..<m]) ! j"
  proof (cases "j < n")
    case True
    then have "2 * j + k < length xs" using assms by simp
    then show ?thesis using True j by (simp add: nth_append)
  next
    case False
    then have "2 * j + k - length xs = 2 * (j - n) + k" "\<not> 2 * j + k < length xs" "j - n < m"
      using assms j by auto
    then show ?thesis using False j by (simp add: nth_append)
  qed
qed simp

lemma band_append:
  assumes "length a = n" "length c = n" "length b = m" "length d = m"
  shows "map (\<lambda>i. g ((a @ b) ! i) ((c @ d) ! i)) [0..<n + m]
    = map (\<lambda>i. g (a ! i) (c ! i)) [0..<n] @ map (\<lambda>i. g (b ! i) (d ! i)) [0..<m]"
proof (rule nth_equalityI)
  fix i assume "i < length (map (\<lambda>i. g ((a @ b) ! i) ((c @ d) ! i)) [0..<n + m])"
  then have "i < n \<or> n \<le> i \<and> i - n < m" by auto
  then show "map (\<lambda>i. g ((a @ b) ! i) ((c @ d) ! i)) [0..<n + m] ! i
    = (map (\<lambda>i. g (a ! i) (c ! i)) [0..<n] @ map (\<lambda>i. g (b ! i) (d ! i)) [0..<m]) ! i"
    using assms by (auto simp: nth_append)
qed simp

text \<open>C39: The analysis filter bank is a stream transducer: splitting two even-length frames in turn, the filter states
  passed on, gives the bands of their concatenation, for frames that are not empty and together fit the 320 samples per band
  of the local arrays.\<close>

theorem analysis_qmf_streams:
  assumes "length s1 = 6" and "length s2 = 6" and "even (length xs)" and "even (length ys)"
    and "xs \<noteq> []" and "ys \<noteq> []" and "length (xs @ ys) \<le> 2 * kMaxBandFrameLength"
  shows "\<exists>lo hi t1 t2 lo' hi' u1 u2.
    WebRtcSpl_AnalysisQMF xs s1 s2 = Some (lo, hi, t1, t2) \<and> WebRtcSpl_AnalysisQMF ys t1 t2 = Some (lo', hi', u1, u2) \<and>
    WebRtcSpl_AnalysisQMF (xs @ ys) s1 s2 = Some (lo @ lo', hi @ hi', u1, u2)"
proof -
  obtain n m where n: "length xs = 2 * n" "length ys = 2 * m" using assms(3,4) by (elim evenE)
  then have nm: "0 < n" "0 < m" using assms(5,6) by (cases n; cases m; simp)+
  define h where "h zs k l = map (\<lambda>i. to_i32 (shl (zs ! (2 * i + k)) 10)) [0..<l]" for zs and k l :: nat
  have happ: "h (xs @ ys) k (n + m) = h xs k n @ h ys k m" if "k < 2" for k
    unfolding h_def using halves_append [OF n that] .
  have hne: "h zs k l \<noteq> [] \<longleftrightarrow> 0 < l" "length (h zs k l) = l" for zs k l by (auto simp: h_def)
  have A: "WebRtcSpl_AnalysisQMF zs s s' =
     (let (o1, t1) = snd (WebRtcSpl_AllPassQMF (h zs 1 l) WebRtcSpl_kAllPassFilter1 s);
          (o2, t2) = snd (WebRtcSpl_AllPassQMF (h zs 0 l) WebRtcSpl_kAllPassFilter2 s')
      in Some (map (\<lambda>i. WebRtcSpl_SatW32ToW16 (shr (to_i32 (o1 ! i + o2 ! i + 1024)) 11)) [0..<l],
          map (\<lambda>i. WebRtcSpl_SatW32ToW16 (shr (to_i32 (o1 ! i - o2 ! i + 1024)) 11)) [0..<l], t1, t2))"
    if "length zs = 2 * l" "0 < l" "l \<le> kMaxBandFrameLength" for zs s s' l
    using that by (simp add: WebRtcSpl_AnalysisQMF_def h_def Let_def split_beta)
  obtain o1 t1 where o1: "snd (WebRtcSpl_AllPassQMF (h xs 1 n) WebRtcSpl_kAllPassFilter1 s1) = (o1, t1)" by fastforce
  obtain o2 t2 where o2: "snd (WebRtcSpl_AllPassQMF (h xs 0 n) WebRtcSpl_kAllPassFilter2 s2) = (o2, t2)" by fastforce
  have L1: "length o1 = n" "length t1 = 6" "length o2 = n" "length t2 = 6"
    using AllPassQMF_append(2,3) [OF assms(1), of "h xs 1 n" "h xs 1 n" WebRtcSpl_kAllPassFilter1]
      AllPassQMF_append(2,3) [OF assms(2), of "h xs 0 n" "h xs 0 n" WebRtcSpl_kAllPassFilter2] o1 o2 hne nm
    by simp_all
  obtain p1 u1 where p1: "snd (WebRtcSpl_AllPassQMF (h ys 1 m) WebRtcSpl_kAllPassFilter1 t1) = (p1, u1)" by fastforce
  obtain p2 u2 where p2: "snd (WebRtcSpl_AllPassQMF (h ys 0 m) WebRtcSpl_kAllPassFilter2 t2) = (p2, u2)" by fastforce
  have L2: "length p1 = m" "length p2 = m"
    using AllPassQMF_append(3) [OF L1(2), of "h ys 1 m" "h ys 1 m" WebRtcSpl_kAllPassFilter1]
      AllPassQMF_append(3) [OF L1(4), of "h ys 0 m" "h ys 0 m" WebRtcSpl_kAllPassFilter2] p1 p2 hne nm
    by simp_all
  have q1: "snd (WebRtcSpl_AllPassQMF (h (xs @ ys) 1 (n + m)) WebRtcSpl_kAllPassFilter1 s1) = (o1 @ p1, u1)"
    using AllPassQMF_append(1) [OF assms(1), of "h xs 1 n" "h ys 1 m" WebRtcSpl_kAllPassFilter1] hne nm o1 p1 happ [of 1]
    by (simp add: split_beta)
  have q2: "snd (WebRtcSpl_AllPassQMF (h (xs @ ys) 0 (n + m)) WebRtcSpl_kAllPassFilter2 s2) = (o2 @ p2, u2)"
    using AllPassQMF_append(1) [OF assms(2), of "h xs 0 n" "h ys 0 m" WebRtcSpl_kAllPassFilter2] hne nm o2 p2 happ [of 0]
    by (simp add: split_beta)
  have "length (xs @ ys) = 2 * (n + m)" "n \<le> kMaxBandFrameLength" "m \<le> kMaxBandFrameLength" "n + m \<le> kMaxBandFrameLength" "0 < n + m"
    using n nm assms(7) by simp_all
  note A = A [OF this(1,5,4)] A [OF n(1) nm(1) this(2)] A [OF n(2) nm(2) this(3)]
  define sum where "sum a b l = map (\<lambda>i. WebRtcSpl_SatW32ToW16 (shr (to_i32 (a ! i + b ! i + 1024)) 11)) [0..<l]" for a b l
  define dif where "dif a b l = map (\<lambda>i. WebRtcSpl_SatW32ToW16 (shr (to_i32 (a ! i - b ! i + 1024)) 11)) [0..<l]" for a b l
  have "sum (o1 @ p1) (o2 @ p2) (n + m) = sum o1 o2 n @ sum p1 p2 m"
    unfolding sum_def by (rule band_append [OF L1(1,3) L2])
  moreover have "dif (o1 @ p1) (o2 @ p2) (n + m) = dif o1 o2 n @ dif p1 p2 m"
    unfolding dif_def by (rule band_append [OF L1(1,3) L2])
  moreover have "WebRtcSpl_AnalysisQMF xs s1 s2 = Some (sum o1 o2 n, dif o1 o2 n, t1, t2)"
    unfolding A o1 o2 Let_def case_prod_conv sum_def dif_def ..
  moreover have "WebRtcSpl_AnalysisQMF ys t1 t2 = Some (sum p1 p2 m, dif p1 p2 m, u1, u2)"
    unfolding A p1 p2 Let_def case_prod_conv sum_def dif_def ..
  moreover have "WebRtcSpl_AnalysisQMF (xs @ ys) s1 s2
      = Some (sum (o1 @ p1) (o2 @ p2) (n + m), dif (o1 @ p1) (o2 @ p2) (n + m), u1, u2)"
    unfolding A q1 q2 Let_def case_prod_conv sum_def dif_def ..
  ultimately show ?thesis by auto
qed

theorem analysis_qmf_streams_witness:
  "\<exists>lo hi t1 t2 lo' hi' u1 u2.
    WebRtcSpl_AnalysisQMF [1000, - 300] [0, 0, 0, 0, 0, 0] [0, 0, 0, 0, 0, 0] = Some (lo, hi, t1, t2) \<and>
    WebRtcSpl_AnalysisQMF [50, 70] t1 t2 = Some (lo', hi', u1, u2) \<and>
    WebRtcSpl_AnalysisQMF ([1000, - 300] @ [50, 70]) [0, 0, 0, 0, 0, 0] [0, 0, 0, 0, 0, 0] = Some (lo @ lo', hi @ hi', u1, u2)"
  by (rule analysis_qmf_streams) (simp_all add: kMaxBandFrameLength_def)

end
