(* ===== verification/SplResample.thy ===== *)
theory SplResample
  imports SplFilters
begin

text \<open>
  The integer resamplers of \<open>webrtc/common_audio/signal_processing\<close>: the polyphase all-pass
  stages by two (\<open>resample_by_2_internal.c\<close>), the fractional stages 3:2, 4:3 and 11:8
  (\<open>resample_fractional.c\<close>) and their compositions between 8, 16 and 48 kHz
  (\<open>resample_48khz.c\<close>). The scratch array \<open>tmpmem\<close> is an explicit memory: the fractional stages
  work in place in it, so their model reads and writes one array at two offsets.
\<close>

section \<open>All-pass stages\<close>

definition kResampleAllpass :: "nat \<Rightarrow> nat \<Rightarrow> int" where
  "kResampleAllpass r c = [[821, 6110, 12382], [3050, 9368, 15063]] ! r ! c"

text \<open>The body all loops share up to where they store their result: a section of three first-order
  all-pass filters with coefficient row \<open>r\<close> on \<open>state[k..k+3]\<close>; the result is \<open>state[k+3]\<close>.\<close>

definition down_scale :: "int \<Rightarrow> int" where
  "down_scale diff = (let diff = shr diff 14 in if diff < 0 then diff + 1 else diff)"

definition allpass_body :: "nat \<Rightarrow> nat \<Rightarrow> int \<Rightarrow> int list \<Rightarrow> int list" where
  "allpass_body r k tmp0 state =
     (let diff = to_i32 (tmp0 - state ! (k + 1));
          diff = shr (to_i32 (diff + shl 1 13)) 14;
          tmp1 = to_i32 (state ! k + diff * kResampleAllpass r 0);
          state = state[k := tmp0];
          diff = down_scale (to_i32 (tmp1 - state ! (k + 2)));
          tmp0 = to_i32 (state ! (k + 1) + diff * kResampleAllpass r 1);
          state = state[k + 1 := tmp1];
          diff = down_scale (to_i32 (tmp0 - state ! (k + 3)));
          state = state[k + 3 := to_i32 (state ! (k + 2) + diff * kResampleAllpass r 2)]
      in state[k + 2 := tmp0])"

text \<open>The 16-bit inputs are shifted to Q15 with rounding offset.\<close>

definition short_in :: "int \<Rightarrow> int" where
  "short_in x = to_i32 (shl x 15 + shl 1 14)"

definition sat_short :: "int \<Rightarrow> int" where
  "sat_short tmp = (let tmp = (if tmp > 0x7FFF then 0x7FFF else tmp);
                        tmp = (if tmp < - 0x8000 then - 0x8000 else tmp) in to_i16 tmp)"

text \<open>Result: \<open>out\<close>, the overwritten \<open>in\<close>, \<open>state\<close>.\<close>

definition WebRtcSpl_DownBy2IntToShort ::
    "int list \<Rightarrow> nat \<Rightarrow> int list \<Rightarrow> int list \<times> int list \<times> int list" where
  "WebRtcSpl_DownBy2IntToShort in_data n state =
     (let len = n div 2;
          (in_data, state) = fold (\<lambda>i (in_data, state).
              let state = allpass_body 1 0 (in_data ! (2 * i)) state
              in (in_data[2 * i := shr (state ! 3) 1], state)) [0..<len] (in_data, state);
          (in_data, state) = fold (\<lambda>i (in_data, state).
              let state = allpass_body 0 4 (in_data ! (2 * i + 1)) state
              in (in_data[2 * i + 1 := shr (state ! 7) 1], state)) [0..<len] (in_data, state);
          out = concat (map (\<lambda>h. let i = 2 * h in
                  [sat_short (shr (to_i32 (in_data ! (2 * i) + in_data ! (2 * i + 1))) 15),
                   sat_short (shr (to_i32 (in_data ! (2 * i + 2) + in_data ! (2 * i + 3))) 15)])
                [0..<(len + 1) div 2])
      in (out, in_data, state))"

text \<open>Result: \<open>out\<close>, \<open>state\<close>. The first loop stores, the second adds.\<close>

definition WebRtcSpl_DownBy2ShortToInt :: "int list \<Rightarrow> nat \<Rightarrow> int list \<Rightarrow> int list \<times> int list" where
  "WebRtcSpl_DownBy2ShortToInt in_data n state =
     (let len = n div 2;
          (out, state) = fold (\<lambda>i (out, state).
              let state = allpass_body 1 0 (short_in (in_data ! (2 * i))) state
              in (out @ [shr (state ! 3) 1], state)) [0..<len] ([], state);
          (out, state) = fold (\<lambda>i (out, state).
              let state = allpass_body 0 4 (short_in (in_data ! (2 * i + 1))) state
              in (out[i := to_i32 (out ! i + shr (state ! 7) 1)], state)) [0..<len] (out, state)
      in (out, state))"

text \<open>The interpolators: \<open>out\<close> is an array of \<open>2 * len\<close> elements, of unspecified contents before.\<close>

definition WebRtcSpl_UpBy2ShortToInt :: "int list \<Rightarrow> nat \<Rightarrow> int list \<Rightarrow> int list \<Rightarrow> int list \<times> int list" where
  "WebRtcSpl_UpBy2ShortToInt in_data len out state =
     (let (out, state) = fold (\<lambda>i (out, state).
              let state = allpass_body 0 4 (short_in (in_data ! i)) state
              in (out[2 * i := shr (state ! 7) 15], state)) [0..<len] (out, state)
      in fold (\<lambda>i (out, state).
              let state = allpass_body 1 0 (short_in (in_data ! i)) state
              in (out[2 * i + 1 := shr (state ! 3) 15], state)) [0..<len] (out, state))"

definition WebRtcSpl_UpBy2IntToInt :: "int list \<Rightarrow> nat \<Rightarrow> int list \<Rightarrow> int list \<Rightarrow> int list \<times> int list" where
  "WebRtcSpl_UpBy2IntToInt in_data len out state =
     (let (out, state) = fold (\<lambda>i (out, state).
              let state = allpass_body 0 4 (in_data ! i) state
              in (out[2 * i := state ! 7], state)) [0..<len] (out, state)
      in fold (\<lambda>i (out, state).
              let state = allpass_body 1 0 (in_data ! i) state
              in (out[2 * i + 1 := state ! 3], state)) [0..<len] (out, state))"

definition WebRtcSpl_UpBy2IntToShort :: "int list \<Rightarrow> nat \<Rightarrow> int list \<Rightarrow> int list \<Rightarrow> int list \<times> int list" where
  "WebRtcSpl_UpBy2IntToShort in_data len out state =
     (let (out, state) = fold (\<lambda>i (out, state).
              let state = allpass_body 0 4 (in_data ! i) state
              in (out[2 * i := sat_short (shr (state ! 7) 15)], state)) [0..<len] (out, state)
      in fold (\<lambda>i (out, state).
              let state = allpass_body 1 0 (in_data ! i) state
              in (out[2 * i + 1 := sat_short (shr (state ! 3) 15)], state)) [0..<len] (out, state))"

text \<open>The low-pass filters; \<open>tmp0\<close> starts as the polyphase delay element \<open>state[12]\<close>.\<close>

definition WebRtcSpl_LPBy2ShortToInt :: "int list \<Rightarrow> nat \<Rightarrow> int list \<Rightarrow> int list \<Rightarrow> int list \<times> int list" where
  "WebRtcSpl_LPBy2ShortToInt in_data n out state =
     (let len = n div 2;
          (out, state, tmp0) = fold (\<lambda>i (out, state, tmp0).
              let state = allpass_body 1 0 tmp0 state
              in (out[2 * i := shr (state ! 3) 1], state, short_in (in_data ! (2 * i + 1))))
            [0..<len] (out, state, state ! 12);
          (out, state) = fold (\<lambda>i (out, state).
              let state = allpass_body 0 4 (short_in (in_data ! (2 * i))) state
              in (out[2 * i := shr (to_i32 (out ! (2 * i) + shr (state ! 7) 1)) 15], state))
            [0..<len] (out, state);
          (out, state) = fold (\<lambda>i (out, state).
              let state = allpass_body 1 8 (short_in (in_data ! (2 * i))) state
              in (out[2 * i + 1 := shr (state ! 11) 1], state)) [0..<len] (out, state)
      in fold (\<lambda>i (out, state).
              let state = allpass_body 0 12 (short_in (in_data ! (2 * i + 1))) state
              in (out[2 * i + 1 := shr (to_i32 (out ! (2 * i + 1) + shr (state ! 15) 1)) 15], state))
            [0..<len] (out, state))"

definition WebRtcSpl_LPBy2IntToInt :: "int list \<Rightarrow> nat \<Rightarrow> int list \<Rightarrow> int list \<Rightarrow> int list \<times> int list" where
  "WebRtcSpl_LPBy2IntToInt in_data n out state =
     (let len = n div 2;
          (out, state, tmp0) = fold (\<lambda>i (out, state, tmp0).
              let state = allpass_body 1 0 tmp0 state
              in (out[2 * i := shr (state ! 3) 1], state, in_data ! (2 * i + 1)))
            [0..<len] (out, state, state ! 12);
          (out, state) = fold (\<lambda>i (out, state).
              let state = allpass_body 0 4 (in_data ! (2 * i)) state
              in (out[2 * i := shr (to_i32 (out ! (2 * i) + shr (state ! 7) 1)) 15], state))
            [0..<len] (out, state);
          (out, state) = fold (\<lambda>i (out, state).
              let state = allpass_body 1 8 (in_data ! (2 * i)) state
              in (out[2 * i + 1 := shr (state ! 11) 1], state)) [0..<len] (out, state)
      in fold (\<lambda>i (out, state).
              let state = allpass_body 0 12 (in_data ! (2 * i + 1)) state
              in (out[2 * i + 1 := shr (to_i32 (out ! (2 * i + 1) + shr (state ! 15) 1)) 15], state))
            [0..<len] (out, state))"

section \<open>Fractional stages\<close>

definition kCoefficients48To32 :: "int list list" where
  "kCoefficients48To32 = [
    [778, -2050, 1087, 23285, 12903, -3783, 441, 222],
    [222, 441, -3783, 12903, 23285, 1087, -2050, 778]]"

definition kCoefficients32To24 :: "int list list" where
  "kCoefficients32To24 = [
    [767, -2362, 2434, 24406, 10620, -3838, 721, 90],
    [386, -381, -2646, 19062, 19062, -2646, -381, 386],
    [90, 721, -3838, 10620, 24406, 2434, -2362, 767]]"

definition kCoefficients44To32 :: "int list list" where
  "kCoefficients44To32 = [
    [117, -669, 2245, -6183, 26267, 13529, -3245, 845, -138],
    [-101, 612, -2283, 8532, 29790, -5138, 1789, -524, 91],
    [50, -292, 1016, -3064, 32010, 3933, -1147, 315, -53],
    [-156, 974, -3863, 18603, 21691, -6246, 2353, -712, 126]]"

text \<open>One output: \<open>tmp = 1 << 14; tmp += c[0] * In[p]; \<dots>; tmp += c[7] * In[p + 7]\<close>.\<close>

definition resamp_tap :: "int list \<Rightarrow> int list \<Rightarrow> nat \<Rightarrow> int" where
  "resamp_tap cs mem p =
     fold (\<lambda>j tmp. to_i32 (tmp + cs ! j * mem ! (p + j))) [0..<length cs] (shl 1 14)"

text \<open>\<open>In\<close> and \<open>Out\<close> point at positions \<open>i\<close> and \<open>o\<close> of the same memory.\<close>

definition WebRtcSpl_Resample48khzTo32khz :: "int list \<Rightarrow> nat \<Rightarrow> nat \<Rightarrow> nat \<Rightarrow> int list" where
  "WebRtcSpl_Resample48khzTo32khz mem i out K =
     fold (\<lambda>m mem.
         let mem = mem[out + 2 * m := resamp_tap (kCoefficients48To32 ! 0) mem (i + 3 * m)]
         in mem[out + 2 * m + 1 := resamp_tap (kCoefficients48To32 ! 1) mem (i + 3 * m + 1)])
       [0..<K] mem"

definition WebRtcSpl_Resample32khzTo24khz :: "int list \<Rightarrow> nat \<Rightarrow> nat \<Rightarrow> nat \<Rightarrow> int list" where
  "WebRtcSpl_Resample32khzTo24khz mem i out K =
     fold (\<lambda>m mem.
         let mem = mem[out + 3 * m := resamp_tap (kCoefficients32To24 ! 0) mem (i + 4 * m)];
             mem = mem[out + 3 * m + 1 := resamp_tap (kCoefficients32To24 ! 1) mem (i + 4 * m + 1)]
         in mem[out + 3 * m + 2 := resamp_tap (kCoefficients32To24 ! 2) mem (i + 4 * m + 2)])
       [0..<K] mem"

text \<open>\<open>in1\<close> is read upwards from position \<open>p1\<close>, \<open>in2\<close> downwards from \<open>p2\<close>; the outputs are
  stored by the caller after both sums (the arrays of the 11:8 stage do not overlap).\<close>

definition WebRtcSpl_ResampDotProduct :: "int list \<Rightarrow> nat \<Rightarrow> nat \<Rightarrow> int list \<Rightarrow> int \<times> int" where
  "WebRtcSpl_ResampDotProduct mem p1 p2 coef_ptr =
     fold (\<lambda>j (tmp1, tmp2). (to_i32 (tmp1 + coef_ptr ! j * mem ! (p1 + j)),
                             to_i32 (tmp2 + coef_ptr ! j * mem ! (p2 - j))))
       [0..<9] (16384, 16384)"

definition WebRtcSpl_Resample44khzTo32khz :: "int list \<Rightarrow> nat \<Rightarrow> nat \<Rightarrow> nat \<Rightarrow> int list" where
  "WebRtcSpl_Resample44khzTo32khz mem i out K =
     fold (\<lambda>m mem.
         let i = i + 11 * m; out = out + 8 * m;
             mem = mem[out := to_i32 (shl (mem ! (i + 3)) 15 + shl 1 14)];
             mem = mem[out + 4 := resamp_tap (kCoefficients44To32 ! 3) mem (i + 5)];
             (t1, t2) = WebRtcSpl_ResampDotProduct mem i (i + 17) (kCoefficients44To32 ! 0);
             mem = mem[out + 1 := t1, out + 7 := t2];
             (t1, t2) = WebRtcSpl_ResampDotProduct mem (i + 2) (i + 15) (kCoefficients44To32 ! 1);
             mem = mem[out + 2 := t1, out + 6 := t2];
             (t1, t2) = WebRtcSpl_ResampDotProduct mem (i + 3) (i + 14) (kCoefficients44To32 ! 2)
         in mem[out + 3 := t1, out + 5 := t2])
       [0..<K] mem"

section \<open>Resamplers between 8, 16 and 48 kHz\<close>

record WebRtcSpl_State48khzTo16khz =
  S_48_48 :: "int list"
  S_48_32 :: "int list"
  S_32_16 :: "int list"

record WebRtcSpl_State16khzTo48khz =
  S_16_32 :: "int list"
  S_32_24 :: "int list"
  S_24_48 :: "int list"

record WebRtcSpl_State48khzTo8khz =
  S_48_24 :: "int list"
  S_24_24 :: "int list"
  S_24_16 :: "int list"
  S_16_8 :: "int list"

record WebRtcSpl_State8khzTo48khz =
  S_8_16 :: "int list"
  S_16_12 :: "int list"
  S_12_24 :: "int list"
  S8_24_48 :: "int list"

text \<open>\<open>slice off n mem\<close> is the array part a pointer \<open>mem + off\<close> with length \<open>n\<close> stands for.\<close>

definition slice :: "nat \<Rightarrow> nat \<Rightarrow> 'a list \<Rightarrow> 'a list" where
  "slice off n mem = take n (drop off mem)"

text \<open>Result of the resamplers: \<open>out\<close>, the state and \<open>tmpmem\<close>.\<close>

definition WebRtcSpl_Resample48khzTo16khz ::
    "int list \<Rightarrow> WebRtcSpl_State48khzTo16khz \<Rightarrow> int list
     \<Rightarrow> int list \<times> WebRtcSpl_State48khzTo16khz \<times> int list" where
  "WebRtcSpl_Resample48khzTo16khz in_data state tmpmem =
     (let (o1, s1) = WebRtcSpl_LPBy2ShortToInt in_data 480 (slice 16 480 tmpmem) (S_48_48 state);
          tmpmem = blit 16 o1 tmpmem;
          state = state\<lparr>S_48_48 := s1\<rparr>;
          tmpmem = blit 8 (take 8 (S_48_32 state)) tmpmem;
          state = state\<lparr>S_48_32 := slice 488 8 tmpmem\<rparr>;
          tmpmem = WebRtcSpl_Resample48khzTo32khz tmpmem 8 0 160;
          (out, tmpmem, s3) = WebRtcSpl_DownBy2IntToShort tmpmem 320 (S_32_16 state)
      in (out, state\<lparr>S_32_16 := s3\<rparr>, tmpmem))"

definition WebRtcSpl_ResetResample48khzTo16khz :: WebRtcSpl_State48khzTo16khz where
  "WebRtcSpl_ResetResample48khzTo16khz =
     \<lparr>S_48_48 = replicate 16 0, S_48_32 = replicate 8 0, S_32_16 = replicate 8 0\<rparr>"

definition WebRtcSpl_Resample16khzTo48khz ::
    "int list \<Rightarrow> int list \<Rightarrow> WebRtcSpl_State16khzTo48khz \<Rightarrow> int list
     \<Rightarrow> int list \<times> WebRtcSpl_State16khzTo48khz \<times> int list" where
  "WebRtcSpl_Resample16khzTo48khz in_data out state tmpmem =
     (let (o1, s1) = WebRtcSpl_UpBy2ShortToInt in_data 160 (slice 16 320 tmpmem) (S_16_32 state);
          tmpmem = blit 16 o1 tmpmem;
          state = state\<lparr>S_16_32 := s1\<rparr>;
          tmpmem = blit 8 (take 8 (S_32_24 state)) tmpmem;
          state = state\<lparr>S_32_24 := slice 328 8 tmpmem\<rparr>;
          tmpmem = WebRtcSpl_Resample32khzTo24khz tmpmem 8 0 80;
          (out, s3) = WebRtcSpl_UpBy2IntToShort tmpmem 240 out (S_24_48 state)
      in (out, state\<lparr>S_24_48 := s3\<rparr>, tmpmem))"

definition WebRtcSpl_ResetResample16khzTo48khz :: WebRtcSpl_State16khzTo48khz where
  "WebRtcSpl_ResetResample16khzTo48khz =
     \<lparr>S_16_32 = replicate 8 0, S_32_24 = replicate 8 0, S_24_48 = replicate 8 0\<rparr>"

definition WebRtcSpl_Resample48khzTo8khz ::
    "int list \<Rightarrow> WebRtcSpl_State48khzTo8khz \<Rightarrow> int list
     \<Rightarrow> int list \<times> WebRtcSpl_State48khzTo8khz \<times> int list" where
  "WebRtcSpl_Resample48khzTo8khz in_data state tmpmem =
     (let (o1, s1) = WebRtcSpl_DownBy2ShortToInt in_data 480 (S_48_24 state);
          tmpmem = blit 256 o1 tmpmem;
          state = state\<lparr>S_48_24 := s1\<rparr>;
          (o2, s2) = WebRtcSpl_LPBy2IntToInt (slice 256 240 tmpmem) 240 (slice 16 240 tmpmem) (S_24_24 state);
          tmpmem = blit 16 o2 tmpmem;
          state = state\<lparr>S_24_24 := s2\<rparr>;
          tmpmem = blit 8 (take 8 (S_24_16 state)) tmpmem;
          state = state\<lparr>S_24_16 := slice 248 8 tmpmem\<rparr>;
          tmpmem = WebRtcSpl_Resample48khzTo32khz tmpmem 8 0 80;
          (out, tmpmem, s4) = WebRtcSpl_DownBy2IntToShort tmpmem 160 (S_16_8 state)
      in (out, state\<lparr>S_16_8 := s4\<rparr>, tmpmem))"

definition WebRtcSpl_ResetResample48khzTo8khz :: WebRtcSpl_State48khzTo8khz where
  "WebRtcSpl_ResetResample48khzTo8khz =
     \<lparr>S_48_24 = replicate 8 0, S_24_24 = replicate 16 0, S_24_16 = replicate 8 0, S_16_8 = replicate 8 0\<rparr>"

definition WebRtcSpl_Resample8khzTo48khz ::
    "int list \<Rightarrow> int list \<Rightarrow> WebRtcSpl_State8khzTo48khz \<Rightarrow> int list
     \<Rightarrow> int list \<times> WebRtcSpl_State8khzTo48khz \<times> int list" where
  "WebRtcSpl_Resample8khzTo48khz in_data out state tmpmem =
     (let (o1, s1) = WebRtcSpl_UpBy2ShortToInt in_data 80 (slice 264 160 tmpmem) (S_8_16 state);
          tmpmem = blit 264 o1 tmpmem;
          state = state\<lparr>S_8_16 := s1\<rparr>;
          tmpmem = blit 256 (take 8 (S_16_12 state)) tmpmem;
          state = state\<lparr>S_16_12 := slice 416 8 tmpmem\<rparr>;
          tmpmem = WebRtcSpl_Resample32khzTo24khz tmpmem 256 240 40;
          (o3, s3) = WebRtcSpl_UpBy2IntToInt (slice 240 120 tmpmem) 120 (slice 0 240 tmpmem) (S_12_24 state);
          tmpmem = blit 0 o3 tmpmem;
          state = state\<lparr>S_12_24 := s3\<rparr>;
          (out, s4) = WebRtcSpl_UpBy2IntToShort tmpmem 240 out (S8_24_48 state)
      in (out, state\<lparr>S8_24_48 := s4\<rparr>, tmpmem))"

definition WebRtcSpl_ResetResample8khzTo48khz :: WebRtcSpl_State8khzTo48khz where
  "WebRtcSpl_ResetResample8khzTo48khz =
     \<lparr>S_8_16 = replicate 8 0, S_16_12 = replicate 8 0, S_12_24 = replicate 8 0, S8_24_48 = replicate 8 0\<rparr>"


section \<open>Working in place\<close>

text \<open>A loop that stores at \<open>w k\<close> a value computed from positions not below \<open>rd k\<close>, every store
  before round \<open>k\<close> going below \<open>rd k\<close>: the values are those of the original memory.\<close>

lemma fold_in_place:
  fixes f :: "nat \<Rightarrow> int list \<Rightarrow> int"
  assumes dep: "\<And>k m m'. k < n \<Longrightarrow> length m = length m' \<Longrightarrow> (\<And>p. rd k \<le> p \<Longrightarrow> m ! p = m' ! p) \<Longrightarrow> f k m = f k m'"
    and w: "\<And>j k. j < k \<Longrightarrow> k < n \<Longrightarrow> w j < rd k" "\<And>j k. j < k \<Longrightarrow> w j < w k" "\<And>k. k < n \<Longrightarrow> w k < length mem"
  shows "length (fold (\<lambda>k m. m[w k := f k m]) [0..<n] mem) = length mem \<and>
    (\<forall>k < n. fold (\<lambda>k m. m[w k := f k m]) [0..<n] mem ! w k = f k mem) \<and>
    (\<forall>p. p \<notin> w ` {..<n} \<longrightarrow> fold (\<lambda>k m. m[w k := f k m]) [0..<n] mem ! p = mem ! p)"
proof -
  define P where "P i m \<longleftrightarrow> length m = length mem \<and> (\<forall>k < i. m ! w k = f k mem) \<and>
    (\<forall>p. p \<notin> w ` {..<i} \<longrightarrow> m ! p = mem ! p)" for i and m :: "int list"
  have "P n (fold (\<lambda>k m. m[w k := f k m]) [0..<n] mem)"
  proof (rule fold_upt_inv)
    show "P 0 mem" by (simp add: P_def)
    fix i m assume i: "0 \<le> i" "i < n" and m: "P i m"
    have "f i m = f i mem"
    proof (rule dep [OF i(2)])
      fix p assume p: "rd i \<le> p"
      have "w j < p" if "j < i" for j using w(1) [OF that i(2)] p by simp
      then have "p \<notin> w ` {..<i}" by auto
      then show "m ! p = mem ! p" using m by (simp add: P_def)
    qed (use m in \<open>simp add: P_def\<close>)
    moreover have ne: "w j \<noteq> w i" if "j < i" for j using w(2) [OF that] by simp
    moreover have "m[w i := f i m] ! w k = f k mem" if "k < Suc i" for k
      using that m w(3) [OF i(2)] ne [of k] calculation(1) by (cases "k = i") (auto simp: P_def)
    moreover have "m[w i := f i m] ! p = mem ! p" if "p \<notin> w ` {..<Suc i}" for p
    proof -
      have "p \<noteq> w i" "p \<notin> w ` {..<i}" using that by auto
      then show ?thesis using m by (simp add: P_def)
    qed
    ultimately show "P (Suc i) (m[w i := f i m])" using m by (simp add: P_def)
  qed simp
  then show ?thesis by (simp add: P_def)
qed

lemma fold_by_2: "fold (\<lambda>m s. g (2 * m + 1) (g (2 * m) s)) [0..<K] s = fold g [0..<2 * K] s"
  by (induction K) simp_all

lemma fold_by_3: "fold (\<lambda>m s. g (3 * m + 2) (g (3 * m + 1) (g (3 * m) s))) [0..<K] s = fold g [0..<3 * K] s"
  by (induction K) (simp_all add: numeral_3_eq_3)

lemma resamp_tap_cong:
  assumes "\<And>p'. p \<le> p' \<Longrightarrow> m ! p' = m' ! p'" shows "resamp_tap cs m p = resamp_tap cs m' p"
  unfolding resamp_tap_def using assms by (intro fold_cong) simp_all

lemma resamp_tap_sum:
  "resamp_tap cs m p = to_i32 (16384 + (\<Sum>j\<leftarrow>[0..<length cs]. cs ! j * m ! (p + j)))"
proof -
  have "to_i32 16384 = 16384" by (simp add: to_i32_def)
  then show ?thesis
    using fold_to_i32_add [of "\<lambda>j. cs ! j * m ! (p + j)" "[0..<length cs]" 16384]
    by (simp add: resamp_tap_def shl_def)
qed

lemma Resample48khzTo32khz_spec:
  assumes "out \<le> i" "out + 2 * K \<le> length mem"
  shows "length (WebRtcSpl_Resample48khzTo32khz mem i out K) = length mem \<and>
    (\<forall>k < 2 * K. WebRtcSpl_Resample48khzTo32khz mem i out K ! (out + k)
       = resamp_tap (kCoefficients48To32 ! (k mod 2)) mem (i + 3 * (k div 2) + k mod 2)) \<and>
    (\<forall>p. p < out \<or> out + 2 * K \<le> p \<longrightarrow> WebRtcSpl_Resample48khzTo32khz mem i out K ! p = mem ! p)"
proof -
  let ?f = "\<lambda>k m. resamp_tap (kCoefficients48To32 ! (k mod 2)) m (i + 3 * (k div 2) + k mod 2)"
  have e: "WebRtcSpl_Resample48khzTo32khz mem i out K = fold (\<lambda>k m. m[out + k := ?f k m]) [0..<2 * K] mem"
    unfolding fold_by_2 [symmetric] WebRtcSpl_Resample48khzTo32khz_def
    by (simp add: Let_def)
  have "length (fold (\<lambda>k m. m[out + k := ?f k m]) [0..<2 * K] mem) = length mem \<and>
    (\<forall>k < 2 * K. fold (\<lambda>k m. m[out + k := ?f k m]) [0..<2 * K] mem ! (out + k) = ?f k mem) \<and>
    (\<forall>p. p \<notin> (+) out ` {..<2 * K} \<longrightarrow> fold (\<lambda>k m. m[out + k := ?f k m]) [0..<2 * K] mem ! p = mem ! p)"
  proof (rule fold_in_place [where rd = "\<lambda>k. i + 3 * (k div 2) + k mod 2"])
    fix j k :: nat assume "j < k"
    then show "out + j < i + 3 * (k div 2) + k mod 2" using assms(1) div_mult_mod_eq [of k 2] by linarith
  qed (use assms(2) in \<open>auto intro!: resamp_tap_cong\<close>)
  moreover have "p \<notin> (+) out ` {..<2 * K}" if "p < out \<or> out + 2 * K \<le> p" for p using that by auto
  ultimately show ?thesis unfolding e by blast
qed

lemma Resample32khzTo24khz_spec:
  assumes "out \<le> i" "out + 3 * K \<le> length mem"
  shows "length (WebRtcSpl_Resample32khzTo24khz mem i out K) = length mem \<and>
    (\<forall>k < 3 * K. WebRtcSpl_Resample32khzTo24khz mem i out K ! (out + k)
       = resamp_tap (kCoefficients32To24 ! (k mod 3)) mem (i + 4 * (k div 3) + k mod 3)) \<and>
    (\<forall>p. p < out \<or> out + 3 * K \<le> p \<longrightarrow> WebRtcSpl_Resample32khzTo24khz mem i out K ! p = mem ! p)"
proof -
  let ?f = "\<lambda>k m. resamp_tap (kCoefficients32To24 ! (k mod 3)) m (i + 4 * (k div 3) + k mod 3)"
  have d: "(3 * m + 2) div 3 = m" "(3 * m + 1) div 3 = m" "(3 * m + 2) mod 3 = 2" "(3 * m + 1) mod 3 = 1" for m :: nat
    by presburger+
  have e: "WebRtcSpl_Resample32khzTo24khz mem i out K = fold (\<lambda>k m. m[out + k := ?f k m]) [0..<3 * K] mem"
    unfolding fold_by_3 [symmetric] WebRtcSpl_Resample32khzTo24khz_def d
    by (simp add: Let_def add.assoc)
  have "length (fold (\<lambda>k m. m[out + k := ?f k m]) [0..<3 * K] mem) = length mem \<and>
    (\<forall>k < 3 * K. fold (\<lambda>k m. m[out + k := ?f k m]) [0..<3 * K] mem ! (out + k) = ?f k mem) \<and>
    (\<forall>p. p \<notin> (+) out ` {..<3 * K} \<longrightarrow> fold (\<lambda>k m. m[out + k := ?f k m]) [0..<3 * K] mem ! p = mem ! p)"
  proof (rule fold_in_place [where rd = "\<lambda>k. i + 4 * (k div 3) + k mod 3"])
    fix j k :: nat assume "j < k"
    then show "out + j < i + 4 * (k div 3) + k mod 3" using assms(1) div_mult_mod_eq [of k 3] by linarith
  qed (use assms(2) in \<open>auto intro!: resamp_tap_cong\<close>)
  moreover have "p \<notin> (+) out ` {..<3 * K}" if "p < out \<or> out + 3 * K \<le> p" for p using that by auto
  ultimately show ?thesis unfolding e by blast
qed

text \<open>the fractional stages may work in place: with the output pointer not above the input
  pointer in the same array, every output is the rounded inner product of the original samples,
  although the loops overwrite them, and nothing else changes.\<close>

theorem fractional_stages_in_place:
  assumes "out \<le> i" and "out + 3 * K \<le> length mem"
  shows "(\<forall>k < 2 * K. WebRtcSpl_Resample48khzTo32khz mem i out K ! (out + k) = to_i32 (16384 +
        (\<Sum>j\<leftarrow>[0..<8]. kCoefficients48To32 ! (k mod 2) ! j * mem ! (i + 3 * (k div 2) + k mod 2 + j)))) \<and>
    (\<forall>k < 3 * K. WebRtcSpl_Resample32khzTo24khz mem i out K ! (out + k) = to_i32 (16384 +
        (\<Sum>j\<leftarrow>[0..<8]. kCoefficients32To24 ! (k mod 3) ! j * mem ! (i + 4 * (k div 3) + k mod 3 + j)))) \<and>
    (\<forall>p. p < out \<or> out + 3 * K \<le> p \<longrightarrow> WebRtcSpl_Resample48khzTo32khz mem i out K ! p = mem ! p \<and>
        WebRtcSpl_Resample32khzTo24khz mem i out K ! p = mem ! p)"
proof -
  have "length (kCoefficients48To32 ! (k mod 2)) = 8" for k :: nat
  proof -
    have "k mod 2 = 0 \<or> k mod 2 = 1" by presburger
    then show ?thesis by (auto simp: kCoefficients48To32_def)
  qed
  moreover have "length (kCoefficients32To24 ! (k mod 3)) = 8" for k :: nat
  proof -
    have "k mod 3 = 0 \<or> k mod 3 = 1 \<or> k mod 3 = 2" by presburger
    then show ?thesis by (auto simp: kCoefficients32To24_def)
  qed
  moreover have "out + 2 * K \<le> length mem" using assms(2) by simp
  ultimately show ?thesis
    using Resample48khzTo32khz_spec [OF assms(1), of K mem] Resample32khzTo24khz_spec [OF assms]
    by (simp add: resamp_tap_sum)
qed

theorem fractional_stages_in_place_witness:
  "WebRtcSpl_Resample48khzTo32khz [1000, 2000, 3000, 4000, 5000, 6000, 7000, 8000, 9000] 0 0 1 ! 1 = 189087384 \<and>
   WebRtcSpl_Resample48khzTo32khz [1000, 2000, 3000, 4000, 5000, 6000, 7000, 8000, 9000] 0 0 1 ! 4 = 5000"
proof -
  let ?m = "[1000, 2000, 3000, 4000, 5000, 6000, 7000, 8000, 9000] :: int list"
  have "(0 :: nat) \<le> 0" "0 + 3 * 1 \<le> length ?m" by simp_all
  note t = fractional_stages_in_place [OF this]
  have "WebRtcSpl_Resample48khzTo32khz ?m 0 0 1 ! (0 + 1) = to_i32 (16384 +
        (\<Sum>j\<leftarrow>[0..<8]. kCoefficients48To32 ! (1 mod 2) ! j * ?m ! (0 + 3 * (1 div 2) + 1 mod 2 + j)))"
    using t by simp
  also have "\<dots> = 189087384" by (simp add: upt_rec kCoefficients48To32_def to_i32_def)
  finally have "WebRtcSpl_Resample48khzTo32khz ?m 0 0 1 ! 1 = 189087384" by simp
  moreover have "WebRtcSpl_Resample48khzTo32khz ?m 0 0 1 ! 4 = ?m ! 4" using t by simp
  ultimately show ?thesis by simp
qed

section \<open>State and output ranges\<close>

lemma length_allpass_body [simp]: "length (allpass_body r k t st) = length st"
  by (simp add: allpass_body_def Let_def)

lemma all_i32_update: "all_i32 xs \<Longrightarrow> is_i32 x \<Longrightarrow> all_i32 (xs[i := x])"
  using set_update_subset_insert [of xs i x] by (auto simp: all_i32_def)

lemma all_i32_nth: "all_i32 xs \<Longrightarrow> i < length xs \<Longrightarrow> is_i32 (xs ! i)"
  by (simp add: all_i32_def)

lemma all_i32_allpass_body: "all_i32 st \<Longrightarrow> is_i32 t \<Longrightarrow> all_i32 (allpass_body r k t st)"
  by (simp add: allpass_body_def Let_def all_i32_update)

lemma sat_short_i16: "is_i16 (sat_short x)"
  by (simp add: sat_short_def Let_def)

lemma short_in_i32 [simp]: "is_i32 (short_in x)"
  by (simp add: short_in_def)

text \<open>A loop that stores 32-bit values into an array and runs the all-pass body on the state.\<close>

definition ok2 :: "nat \<Rightarrow> nat \<Rightarrow> int list \<times> int list \<Rightarrow> bool" where
  "ok2 a b s \<longleftrightarrow> length (fst s) = a \<and> length (snd s) = b \<and> all_i32 (fst s) \<and> all_i32 (snd s)"

lemma ok2_loop:
  assumes "ok2 a b s"
    and "\<And>i out st. i < n \<Longrightarrow> ok2 a b (out, st) \<Longrightarrow> is_i32 (t i out)"
    and "\<And>i out st. i < n \<Longrightarrow> ok2 a b (out, st) \<Longrightarrow> is_i32 (v i out st)"
  shows "ok2 a b (fold (\<lambda>i (out, st). let st = allpass_body r k (t i out) st in (out[w i := v i out st], st)) [0..<n] s)"
proof (rule fold_pres)
  fix i s assume i: "i \<in> set [0..<n]" and "ok2 a b s"
  moreover obtain out st where s: "s = (out, st)" by fastforce
  ultimately have ok: "ok2 a b (out, st)" "i < n" by simp_all
  then have "ok2 a b (out, allpass_body r k (t i out) st)"
    using assms(2) [OF ok(2,1)] by (simp add: ok2_def all_i32_allpass_body)
  then show "ok2 a b ((\<lambda>(out, st). let st = allpass_body r k (t i out) st in (out[w i := v i out st], st)) s)"
    using assms(3) [OF ok(2)] by (simp add: s ok2_def Let_def all_i32_update)
qed (rule assms(1))

lemma ok2_nth: "ok2 a b (out, st) \<Longrightarrow> p < a \<Longrightarrow> is_i32 (out ! p)" "ok2 a b (out, st) \<Longrightarrow> p < b \<Longrightarrow> is_i32 (st ! p)"
  by (simp_all add: ok2_def all_i32_nth)

lemma DownBy2IntToShort_ok:
  assumes "all_i32 xs" "all_i32 st" "length st = 8" "n \<le> length xs"
  shows "length (fst (WebRtcSpl_DownBy2IntToShort xs n st)) = 2 * ((n div 2 + 1) div 2) \<and>
    all_i16 (fst (WebRtcSpl_DownBy2IntToShort xs n st)) \<and>
    ok2 (length xs) 8 (snd (WebRtcSpl_DownBy2IntToShort xs n st))"
proof -
  let ?F1 = "fold (\<lambda>i (in_data, state).
              let state = allpass_body 1 0 (in_data ! (2 * i)) state
              in (in_data[2 * i := shr (state ! 3) 1], state)) [0..<n div 2] (xs, st)"
  let ?F2 = "fold (\<lambda>i (in_data, state).
              let state = allpass_body 0 4 (in_data ! (2 * i + 1)) state
              in (in_data[2 * i + 1 := shr (state ! 7) 1], state)) [0..<n div 2] ?F1"
  have "ok2 (length xs) 8 (xs, st)" using assms by (simp add: ok2_def)
  then have 1: "ok2 (length xs) 8 ?F1"
    by (rule ok2_loop) (use assms(4) in \<open>auto simp: ok2_def intro!: shr_is_i32 all_i32_nth\<close>)
  then have 2: "ok2 (length xs) 8 ?F2"
    by (rule ok2_loop) (use assms(4) in \<open>auto simp: ok2_def intro!: shr_is_i32 all_i32_nth\<close>)
  have "length (concat (map (\<lambda>h. [f h, g h]) [0..<k])) = 2 * k" for f g :: "nat \<Rightarrow> int" and k
    by (induction k) simp_all
  moreover obtain o1 s1 where F1: "?F1 = (o1, s1)" by fastforce
  moreover obtain o2 s2 where "?F2 = (o2, s2)" by fastforce
  ultimately show ?thesis using 2
    by (auto simp: WebRtcSpl_DownBy2IntToShort_def Let_def all_i16_def sat_short_i16)
qed


lemma all_i32_append [simp]: "all_i32 (xs @ ys) \<longleftrightarrow> all_i32 xs \<and> all_i32 ys"
  by (auto simp: all_i32_def)

lemma all_i32_take_drop: "all_i32 xs \<Longrightarrow> all_i32 (take n xs)" "all_i32 xs \<Longrightarrow> all_i32 (drop n xs)"
  by (auto simp: all_i32_def dest: in_set_takeD in_set_dropD)

lemma all_i32_blit: "all_i32 xs \<Longrightarrow> all_i32 d \<Longrightarrow> all_i32 (blit off xs d)"
  by (simp add: blit_def all_i32_take_drop)

lemma slice_ok: "all_i32 xs \<Longrightarrow> all_i32 (slice off n xs)" "off + n \<le> length xs \<Longrightarrow> length (slice off n xs) = n"
  by (simp_all add: slice_def all_i32_take_drop)

lemma all_i32_replicate [simp]: "all_i32 (replicate n 0)"
  by (auto simp: all_i32_def is_i32_def)

lemma DownBy2ShortToInt_ok:
  assumes "all_i32 st" "length st = 8"
  shows "ok2 (n div 2) 8 (WebRtcSpl_DownBy2ShortToInt xs n st)"
proof -
  let ?F1 = "fold (\<lambda>i (out, state).
              let state = allpass_body 1 0 (short_in (xs ! (2 * i))) state
              in (out @ [shr (state ! 3) 1], state)) [0..<n div 2] ([], st)"
  have 1: "ok2 (n div 2) 8 ?F1"
  proof (rule fold_upt_inv [where P = "\<lambda>i s. ok2 i 8 s"])
    fix i s assume "ok2 i 8 s"
    moreover obtain out s' where "s = (out, s')" by fastforce
    ultimately show "ok2 (Suc i) 8 ((\<lambda>(out, state).
              let state = allpass_body 1 0 (short_in (xs ! (2 * i))) state
              in (out @ [shr (state ! 3) 1], state)) s)"
      using all_i32_allpass_body [of s' "short_in (xs ! (2 * i))" 1 0]
      by (simp add: ok2_def Let_def) (simp add: all_i32_def shr_is_i32)
  qed (use assms in \<open>simp_all add: ok2_def all_i32_def\<close>)
  have "ok2 (n div 2) 8 (fold (\<lambda>i (out, state).
              let state = allpass_body 0 4 (short_in (xs ! (2 * i + 1))) state
              in (out[i := to_i32 (out ! i + shr (state ! 7) 1)], state)) [0..<n div 2] ?F1)"
    using 1 by (rule ok2_loop) simp_all
  then show ?thesis by (simp add: WebRtcSpl_DownBy2ShortToInt_def Let_def split_beta)
qed

lemma LPBy2IntToInt_ok:
  assumes "all_i32 xs" "n \<le> length xs" "ok2 a 16 (out, st)" "n \<le> a"
  shows "ok2 a 16 (WebRtcSpl_LPBy2IntToInt xs n out st)"
proof -
  let ?b1 = "\<lambda>i (out, state, tmp0).
              let state = allpass_body 1 0 tmp0 state
              in (out[2 * i := shr (state ! 3) 1], state, xs ! (2 * i + 1))"
  obtain o1 s1 t1 where F1: "fold ?b1 [0..<n div 2] (out, st, st ! 12) = (o1, s1, t1)"
    by (rule prod_cases3)
  define P where "P s \<longleftrightarrow> (case s of (out, st, t) \<Rightarrow> ok2 a 16 (out, st) \<and> is_i32 t)" for s :: "int list \<times> int list \<times> int"
  have "P (fold ?b1 [0..<n div 2] (out, st, st ! 12))"
  proof (rule fold_pres)
    show "P (out, st, st ! 12)" using assms(3) by (simp add: P_def ok2_def all_i32_nth)
    fix i s assume "i \<in> set [0..<n div 2]" "P s"
    moreover obtain out' st' t' where "s = (out', st', t')" by (rule prod_cases3)
    ultimately show "P (?b1 i s)" using assms(1,2)
      by (simp add: P_def ok2_def Let_def all_i32_update all_i32_allpass_body all_i32_nth shr_is_i32)
  qed
  then have 1: "ok2 a 16 (o1, s1)" unfolding F1 by (simp add: P_def)
  let ?F2 = "fold (\<lambda>i (out, state).
              let state = allpass_body 0 4 (xs ! (2 * i)) state
              in (out[2 * i := shr (to_i32 (out ! (2 * i) + shr (state ! 7) 1)) 15], state))
            [0..<n div 2] (o1, s1)"
  have 2: "ok2 a 16 ?F2"
    using 1 by (rule ok2_loop) (use assms(1,2) in \<open>auto simp: ok2_def intro!: shr_is_i32 all_i32_nth\<close>)
  let ?F3 = "fold (\<lambda>i (out, state).
              let state = allpass_body 1 8 (xs ! (2 * i)) state
              in (out[2 * i + 1 := shr (state ! 11) 1], state)) [0..<n div 2] ?F2"
  have 3: "ok2 a 16 ?F3"
    using 2 by (rule ok2_loop) (use assms(1,2) in \<open>auto simp: ok2_def intro!: shr_is_i32 all_i32_nth\<close>)
  have "ok2 a 16 (fold (\<lambda>i (out, state).
              let state = allpass_body 0 12 (xs ! (2 * i + 1)) state
              in (out[2 * i + 1 := shr (to_i32 (out ! (2 * i + 1) + shr (state ! 15) 1)) 15], state))
            [0..<n div 2] ?F3)"
    using 3 by (rule ok2_loop) (use assms(1,2) in \<open>auto simp: ok2_def intro!: shr_is_i32 all_i32_nth\<close>)
  then show ?thesis unfolding WebRtcSpl_LPBy2IntToInt_def Let_def
    unfolding F1 [unfolded Let_def] by (simp add: split_beta)
qed

lemma all_i32_Resample48khzTo32khz:
  "all_i32 mem \<Longrightarrow> all_i32 (WebRtcSpl_Resample48khzTo32khz mem i out K)"
  unfolding WebRtcSpl_Resample48khzTo32khz_def
  by (rule fold_pres) (simp_all add: Let_def all_i32_update resamp_tap_sum)

definition ok_48_8 :: "WebRtcSpl_State48khzTo8khz \<Rightarrow> bool" where
  "ok_48_8 st \<longleftrightarrow> length (S_48_24 st) = 8 \<and> length (S_24_24 st) = 16 \<and> length (S_24_16 st) = 8 \<and>
     length (S_16_8 st) = 8 \<and> all_i32 (S_48_24 st) \<and> all_i32 (S_24_24 st) \<and> all_i32 (S_24_16 st) \<and>
     all_i32 (S_16_8 st)"

lemma ok_48_8_reset: "ok_48_8 WebRtcSpl_ResetResample48khzTo8khz"
  by (simp add: ok_48_8_def WebRtcSpl_ResetResample48khzTo8khz_def)

lemma Resample48khzTo8khz_ok:
  assumes "ok_48_8 st" and "length tmpmem = 736" and "all_i32 tmpmem"
  shows "case WebRtcSpl_Resample48khzTo8khz xs st tmpmem of (out, st', tmpmem') \<Rightarrow>
    length out = 80 \<and> all_i16 out \<and> ok_48_8 st' \<and> length tmpmem' = 736 \<and> all_i32 tmpmem'"
proof -
  have st: "length (S_48_24 st) = 8" "length (S_24_24 st) = 16" "length (S_24_16 st) = 8" "length (S_16_8 st) = 8"
    "all_i32 (S_48_24 st)" "all_i32 (S_24_24 st)" "all_i32 (S_24_16 st)" "all_i32 (S_16_8 st)"
    using assms(1) by (simp_all add: ok_48_8_def)
  obtain o1 s1 where 1: "WebRtcSpl_DownBy2ShortToInt xs 480 (S_48_24 st) = (o1, s1)" by fastforce
  then have ok1: "ok2 240 8 (o1, s1)" using DownBy2ShortToInt_ok [OF st(5,1), of 480 xs] by simp
  define m1 where "m1 = blit 256 o1 tmpmem"
  have m1: "length m1 = 736" "all_i32 m1"
    using ok1 assms(2,3) by (simp_all add: m1_def ok2_def length_blit all_i32_blit)
  obtain o2 s2 where 2: "WebRtcSpl_LPBy2IntToInt (slice 256 240 m1) 240 (slice 16 240 m1) (S_24_24 st) = (o2, s2)"
    by fastforce
  have "ok2 240 16 (WebRtcSpl_LPBy2IntToInt (slice 256 240 m1) 240 (slice 16 240 m1) (S_24_24 st))"
    using m1 st by (intro LPBy2IntToInt_ok) (simp_all add: slice_ok ok2_def)
  then have ok2': "ok2 240 16 (o2, s2)" by (simp add: 2)
  define m2 where "m2 = blit 16 o2 m1"
  have m2: "length m2 = 736" "all_i32 m2"
    using ok2' m1 by (simp_all add: m2_def ok2_def length_blit all_i32_blit)
  define m3 where "m3 = blit 8 (take 8 (S_24_16 st)) m2"
  have m3: "length m3 = 736" "all_i32 m3"
    using st m2 by (simp_all add: m3_def length_blit all_i32_blit all_i32_take_drop)
  define m4 where "m4 = WebRtcSpl_Resample48khzTo32khz m3 8 0 80"
  have m4: "length m4 = 736" "all_i32 m4"
    using m3 Resample48khzTo32khz_spec [of 0 8 80 m3] by (simp_all add: m4_def all_i32_Resample48khzTo32khz)
  obtain out m5 s4 where 5: "WebRtcSpl_DownBy2IntToShort m4 160 (S_16_8 st) = (out, m5, s4)" by (rule prod_cases3)
  have ok5: "length out = 80" "all_i16 out" "ok2 736 8 (m5, s4)"
    using DownBy2IntToShort_ok [OF m4(2) st(8,4), of 160] m4(1) by (simp_all add: 5)
  have "WebRtcSpl_Resample48khzTo8khz xs st tmpmem
      = (out, st\<lparr>S_48_24 := s1, S_24_24 := s2, S_24_16 := slice 248 8 m3, S_16_8 := s4\<rparr>, m5)"
    by (simp add: WebRtcSpl_Resample48khzTo8khz_def 1 2 5 flip: m1_def m2_def m3_def m4_def)
  then show ?thesis
    using ok1 ok2' ok5 m3 by (simp add: ok_48_8_def ok2_def slice_ok)
qed

text \<open>the 48 to 8 kHz resampler turns 480 samples into 80 samples of 16 bits and keeps its
  state well formed (array lengths and 32-bit contents), whatever the scratch memory contains.\<close>

theorem resample_48_to_8_ok:
  assumes "ok_48_8 st" and "length tmpmem = 736" and "all_i32 tmpmem"
  shows "case WebRtcSpl_Resample48khzTo8khz xs st tmpmem of (out, st', tmpmem') \<Rightarrow>
    length out = 80 \<and> all_i16 out \<and> ok_48_8 st' \<and> length tmpmem' = 736 \<and> all_i32 tmpmem'"
  using assms by (rule Resample48khzTo8khz_ok)

theorem resample_48_to_8_ok_witness:
  "case WebRtcSpl_Resample48khzTo8khz (replicate 480 1000) WebRtcSpl_ResetResample48khzTo8khz (replicate 736 0)
   of (out, st', tmpmem') \<Rightarrow> length out = 80 \<and> all_i16 out \<and> ok_48_8 st' \<and> length tmpmem' = 736 \<and> all_i32 tmpmem'"
  by (rule resample_48_to_8_ok) (simp_all add: ok_48_8_reset)

end
