(* ===== verification/VadState.thy ===== *)
theory VadState
  imports SplResample
begin

text \<open>
  The state of the voice activity detector (\<open>vad_core.h\<close>), its model constants
  (\<open>vad_core.c\<close>), and the Gaussian likelihood (\<open>vad_gmm.c\<close>) with the bounds the detector
  relies on.
\<close>

section \<open>Instance and constants\<close>

definition kNumChannels :: nat where "kNumChannels = 6"
definition kNumGaussians :: nat where "kNumGaussians = 2"
definition kTableSize :: nat where "kTableSize = kNumChannels * kNumGaussians"
definition kMinEnergy :: int where "kMinEnergy = 10"

record VadInstT =
  vad :: int
  downsampling_filter_states :: "int list"
  state_48_to_8 :: WebRtcSpl_State48khzTo8khz
  noise_means :: "int list"
  speech_means :: "int list"
  noise_stds :: "int list"
  speech_stds :: "int list"
  frame_counter :: int
  over_hang :: int
  num_of_speech :: int
  index_vector :: "int list"
  low_value_vector :: "int list"
  mean_value :: "int list"
  upper_state :: "int list"
  lower_state :: "int list"
  hp_filter_state :: "int list"
  over_hang_max_1 :: "int list"
  over_hang_max_2 :: "int list"
  individual :: "int list"
  vad_total :: "int list"
  init_flag :: int

definition kSpectrumWeight :: "int list" where "kSpectrumWeight = [6, 8, 10, 12, 14, 16]"
definition kNoiseUpdateConst :: int where "kNoiseUpdateConst = 655"
definition kSpeechUpdateConst :: int where "kSpeechUpdateConst = 6554"
definition kBackEta :: int where "kBackEta = 154"
definition kMinimumDifference :: "int list" where "kMinimumDifference = [544, 544, 576, 576, 576, 576]"
definition kMaximumSpeech :: "int list" where "kMaximumSpeech = [11392, 11392, 11520, 11520, 11520, 11520]"
definition kMinimumMean :: "int list" where "kMinimumMean = [640, 768]"
definition kMaximumNoise :: "int list" where "kMaximumNoise = [9216, 9088, 8960, 8832, 8704, 8576]"
definition kNoiseDataWeights :: "int list" where
  "kNoiseDataWeights = [34, 62, 72, 66, 53, 25, 94, 66, 56, 62, 75, 103]"
definition kSpeechDataWeights :: "int list" where
  "kSpeechDataWeights = [48, 82, 45, 87, 50, 47, 80, 46, 83, 41, 78, 81]"
definition kNoiseDataMeans :: "int list" where
  "kNoiseDataMeans = [6738, 4892, 7065, 6715, 6771, 3369, 7646, 3863, 7820, 7266, 5020, 4362]"
definition kSpeechDataMeans :: "int list" where
  "kSpeechDataMeans = [8306, 10085, 10078, 11823, 11843, 6309, 9473, 9571, 10879, 7581, 8180, 7483]"
definition kNoiseDataStds :: "int list" where
  "kNoiseDataStds = [378, 1064, 493, 582, 688, 593, 474, 697, 475, 688, 421, 455]"
definition kSpeechDataStds :: "int list" where
  "kSpeechDataStds = [555, 505, 567, 524, 585, 1231, 509, 828, 492, 1540, 1079, 850]"
definition kMaxSpeechFrames :: int where "kMaxSpeechFrames = 6"
definition kMinStd :: int where "kMinStd = 384"
definition kDefaultMode :: int where "kDefaultMode = 0"
definition kInitCheck :: int where "kInitCheck = 42"

section \<open>The Gaussian likelihood\<close>

definition kCompVar :: int where "kCompVar = 22005"
definition kLog2Exp :: int where "kLog2Exp = 5909"

text \<open>Result: the probability (Q20) and \<open>delta\<close> (Q11).\<close>

definition WebRtcVad_GaussianProbability :: "int \<Rightarrow> int \<Rightarrow> int \<Rightarrow> int \<times> int" where
  "WebRtcVad_GaussianProbability input mean std =
     (let tmp32 = 131072 + shr std 1;
          inv_std = to_i16 (WebRtcSpl_DivW32W16 tmp32 std);
          tmp16 = shr inv_std 2;
          inv_std2 = to_i16 (shr (tmp16 * tmp16) 2);
          tmp16 = to_i16 (shl input 3);
          tmp16 = to_i16 (tmp16 - mean);
          delta = to_i16 (shr (inv_std2 * tmp16) 10);
          tmp32 = shr (delta * tmp16) 9;
          exp_value =
            (if tmp32 < kCompVar
             then let tmp16 = to_i16 (shr (to_i32 (kLog2Exp * tmp32)) 12);
                      tmp16 = to_i16 (- tmp16);
                      exp_value = to_i16 (0x0400 OR (tmp16 AND 0x03FF));
                      tmp16 = to_i16 (tmp16 XOR 0xFFFF);
                      tmp16 = shr tmp16 10;
                      tmp16 = to_i16 (tmp16 + 1)
                  in shr exp_value (nat tmp16)
             else 0)
      in (to_i32 (inv_std * exp_value), delta))"


lemma to_i16_signed: "to_i16 x = signed_take_bit 15 x"
  by (simp add: to_i16_def signed_take_bit_eq_take_bit_shift take_bit_eq_mod)

lemma to_i16_xor_ffff: "is_i16 x \<Longrightarrow> to_i16 (x XOR 65535) = - x - 1"
proof -
  assume "is_i16 x"
  then have "signed_take_bit 15 x = x" by (simp add: to_i16_id flip: to_i16_signed)
  moreover have "signed_take_bit 15 (x XOR 65535) = signed_take_bit 15 x XOR (- 1)"
  proof (rule bit_eqI)
    have b: "bit (65535 :: int) k" if "k < 16" for k
    proof -
      have "(65535 :: int) = mask 16" by (simp add: mask_eq_exp_minus_1)
      then show ?thesis using that by (simp only: bit_mask_iff) simp
    qed
    fix n
    show "bit (signed_take_bit 15 (x XOR 65535)) n = bit (signed_take_bit 15 x XOR (- 1)) n"
      using b [of "min 15 n"] by (simp add: bit_signed_take_bit_iff bit_xor_iff bit_not_iff)
  qed
  ultimately have "to_i16 (x XOR 65535) = x XOR (- 1)" by (simp add: to_i16_signed)
  then show ?thesis by (simp add: not_int)
qed

lemma and_3ff: "x AND 1023 = x mod (1024 :: int)"
  using take_bit_eq_mask [of 10 x] by (simp add: take_bit_eq_mod mask_eq_exp_minus_1)

lemma or_400: "0 \<le> x \<Longrightarrow> x < 1024 \<Longrightarrow> 1024 OR x = 1024 + (x :: int)"
proof -
  assume x: "0 \<le> x" "x < 1024"
  then have "take_bit 10 x = x" by (simp add: take_bit_eq_mod)
  then have "1024 AND x = 1024 AND take_bit 10 x" by simp
  also have "\<dots> = take_bit 10 1024 AND x" by (simp add: take_bit_eq_mask ac_simps)
  finally have "1024 AND x = 0" by simp
  then show ?thesis by (simp add: disjunctive_add_eq_or)
qed

text \<open>The exponential by shifts: for an exponent \<open>t\<close> in Q10 at most 1024, and 1024 only for 0.\<close>

lemma exp2_shift:
  assumes "0 \<le> t" "t \<le> 31744"
  defines "m \<equiv> to_i16 (- t)"
  defines "e \<equiv> shr (to_i16 (0x0400 OR (m AND 0x03FF))) (nat (to_i16 (shr (to_i16 (m XOR 0xFFFF)) 10 + 1)))"
  shows "0 \<le> e" "e \<le> 1024" "t = 0 \<Longrightarrow> e = 1024"
proof -
  have m: "m = - t" unfolding m_def using assms(1,2) by (intro to_i16_id) (simp add: is_i16_def)
  have "is_i16 (- t)" using assms(1,2) by (simp add: is_i16_def)
  then have x: "to_i16 (m XOR 0xFFFF) = t - 1" unfolding m by (subst to_i16_xor_ffff) simp_all
  have "to_i16 (1024 + (- t) mod 1024) = 1024 + (- t) mod 1024"
  proof -
    have "0 \<le> (- t) mod 1024" "(- t) mod 1024 < 1024" by simp_all
    then show ?thesis by (intro to_i16_id) (simp only: is_i16_def, linarith)
  qed
  then have v: "to_i16 (0x0400 OR (m AND 0x03FF)) = 1024 + (- t) mod 1024"
    by (simp add: and_3ff or_400 m)
  have "- 1 \<le> (t - 1) div 1024" "(t - 1) div 1024 < 31"
    using assms(1,2) by (simp_all add: int_le_div int_div_less)
  then have s: "to_i16 (shr (t - 1) 10 + 1) = (t - 1) div 1024 + 1"
    by (simp add: shr_def to_i16_small)
  have e: "e = shr (1024 + (- t) mod 1024) (nat ((t - 1) div 1024 + 1))"
    unfolding e_def x v s ..
  have r: "0 \<le> (- t) mod 1024" "(- t) mod 1024 < 1024" by simp_all
  then have "0 \<le> 1024 + (- t) mod 1024" by linarith
  then show "0 \<le> e" unfolding e by (rule shr_nonneg)
  show z: "e = 1024" if "t = 0" using that by (simp add: e)
  show "e \<le> 1024"
  proof (cases "t = 0")
    case False
    then have "0 \<le> (t - 1) div 1024" using assms(1) by (simp add: pos_imp_zdiv_nonneg_iff)
    then obtain n where n: "nat ((t - 1) div 1024 + 1) = Suc n" by (metis Suc_nat_eq_nat_zadd1 add.commute)
    have "e \<le> shr (1024 + (- t) mod 1024) 1"
      unfolding e n shr_def using r
      by (intro zdiv_mono2) (simp_all add: self_le_power)
    also have "\<dots> \<le> 1024" using r int_div_less [of "1024 + (- t) mod 1024" 1024 2] by (simp add: shr_def)
    finally show ?thesis .
  qed (use z in simp)
qed

text \<open>for the standard deviations the detector uses and a feature within \<open>16384\<close> (Q7) of the mean,
  no value of the computation overflows: the probability lies between 0 and \<open>1 / std\<close>, which it
  reaches at the mean, and \<open>delta\<close> has the sign of the deviation.\<close>

theorem gaussian_probability_bounds:
  assumes "378 \<le> std" and "std \<le> 32767" and "- 4096 \<le> input" and "input \<le> 4095"
    and "\<bar>8 * input - mean\<bar> \<le> 16384"
  shows "case WebRtcVad_GaussianProbability input mean std of (p, delta) \<Rightarrow>
    0 \<le> p \<and> p \<le> 1024 * ((131072 + std div 2) div std) \<and> p \<le> 355328 \<and>
    (8 * input = mean \<longrightarrow> p = 1024 * ((131072 + std div 2) div std) \<and> delta = 0) \<and>
    0 \<le> delta * (8 * input - mean) \<and> \<bar>delta\<bar> \<le> 29584"
proof -
  define inv where "inv = (131072 + std div 2) div std"
  define d where "d = 8 * input - mean"
  define i2 where "i2 = (inv div 4) * (inv div 4) div 4"
  define de where "de = i2 * d div 1024"
  have h: "std div 2 < 16384" "0 \<le> std div 2" using assms(1,2) by simp_all
  have "2 * (std div 2) \<le> std" by simp
  then have "131072 + std div 2 < 348 * std" using assms(1) by linarith
  then have inv: "0 \<le> inv" "inv < 348"
    unfolding inv_def using assms(1) h by (simp_all add: pos_imp_zdiv_nonneg_iff int_div_less)
  have "is_i32 (c_div (131072 + std div 2) std)"
    using inv assms(1) h by (simp add: c_div_pos inv_def is_i32_def)
  then have invC: "to_i16 (WebRtcSpl_DivW32W16 (131072 + shr std 1) std) = inv"
    using inv assms(1) h by (simp add: WebRtcSpl_DivW32W16_def shr_def to_i32_id c_div_pos inv_def to_i16_small)
  have q: "0 \<le> inv div 4" "inv div 4 \<le> 86" using inv by simp_all
  have qq: "inv div 4 * (inv div 4) \<le> 86 * 86" "0 \<le> inv div 4 * (inv div 4)"
    using q mult_mono [of "inv div 4" 86 "inv div 4" 86] mult_nonneg_nonneg [of "inv div 4" "inv div 4"] by simp_all
  then have i2: "0 \<le> i2" "i2 \<le> 1849"
    using pos_imp_zdiv_nonneg_iff [of 4 "inv div 4 * (inv div 4)"] by (simp_all add: i2_def)
  have i2C: "to_i16 (shr (shr inv 2 * shr inv 2) 2) = i2"
    using i2 by (simp add: shr_def i2_def to_i16_small)
  have dC: "to_i16 (to_i16 (shl input 3) - mean) = d"
    using assms(3-5) by (simp add: shl_def to_i16_small d_def mult.commute)
  have ad: "\<bar>d\<bar> \<le> 16384" using assms(5) by (simp add: d_def)
  have "\<bar>i2 * d\<bar> \<le> 1849 * 16384" unfolding abs_mult using i2 ad by (intro mult_mono) simp_all
  then have de: "\<bar>de\<bar> \<le> 29584"
    using int_le_div [of "- 29584" 1024 "i2 * d"] int_div_less [of "i2 * d" 29585 1024] by (simp add: de_def abs_le_iff)
  have deC: "to_i16 (shr (i2 * d) 10) = de" using de by (simp add: shr_def de_def to_i16_small)
  have sgn: "0 \<le> de * d"
  proof (cases "0 \<le> d")
    case True
    then have "0 \<le> de" using i2 by (simp add: de_def pos_imp_zdiv_nonneg_iff)
    then show ?thesis using True by simp
  next
    case False
    then have "i2 * d \<le> 0" using i2 by (simp add: mult_nonneg_nonpos)
    then have "de < 1" unfolding de_def by (intro int_div_less) simp_all
    then show ?thesis using False by (simp add: mult_nonpos_nonpos)
  qed
  define t32 where "t32 = de * d div 512"
  have t32: "0 \<le> t32" "shr (de * d) 9 = t32" using sgn by (simp_all add: t32_def pos_imp_zdiv_nonneg_iff shr_def)
  define t where "t = 5909 * t32 div 4096"
  define e where "e = (if t32 < kCompVar then shr (to_i16 (0x0400 OR (to_i16 (- t) AND 0x03FF)))
    (nat (to_i16 (shr (to_i16 (to_i16 (- t) XOR 0xFFFF)) 10 + 1))) else 0)"
  have tC: "to_i16 (shr (to_i32 (kLog2Exp * t32)) 12) = t" "0 \<le> t" "t \<le> 31744" if "t32 < kCompVar"
  proof -
    have l: "t32 \<le> 22004" using that by (simp add: kCompVar_def)
    then have "to_i32 (5909 * t32) = 5909 * t32" using t32(1) by (intro to_i32_id) (simp add: is_i32_def)
    moreover show t: "0 \<le> t" "t \<le> 31744"
      using t32(1) l int_div_less [of "5909 * t32" 31745 4096] by (simp_all add: t_def pos_imp_zdiv_nonneg_iff)
    ultimately show "to_i16 (shr (to_i32 (kLog2Exp * t32)) 12) = t"
      by (simp add: kLog2Exp_def shr_def t_def to_i16_small)
  qed
  have e: "0 \<le> e" "e \<le> 1024" "d = 0 \<Longrightarrow> e = 1024"
    using exp2_shift [OF tC(2,3)] by (auto simp: e_def t_def t32_def kCompVar_def)
  have pi: "0 \<le> inv * e" "inv * e \<le> inv * 1024" "inv * 1024 \<le> 355328"
    using inv e by (simp_all add: mult_left_mono)
  then have "to_i32 (inv * e) = inv * e" by (intro to_i32_id) (simp only: is_i32_def, linarith)
  then have "WebRtcVad_GaussianProbability input mean std = (inv * e, de)"
    unfolding WebRtcVad_GaussianProbability_def Let_def invC i2C dC deC t32(2)
    using tC(1) by (auto simp: e_def)
  moreover have "d = 0 \<Longrightarrow> de = 0" by (simp add: de_def)
  ultimately show ?thesis using pi e(3) sgn de by (simp add: inv_def d_def mult.commute)
qed

theorem gaussian_probability_bounds_witness:
  "WebRtcVad_GaussianProbability 900 6738 378 = (172459, 834) \<and>
   (172459 :: int) \<le> 1024 * ((131072 + 378 div 2) div 378)"
proof -
  have "WebRtcVad_GaussianProbability 900 6738 378 = (172459, 834)" by code_simp
  with gaussian_probability_bounds [of 378 900 6738] show ?thesis by simp
qed


section \<open>Aggressiveness modes and initialisation\<close>

definition kOverHangMax1Q :: "int list" where "kOverHangMax1Q = [8, 4, 3]"
definition kOverHangMax2Q :: "int list" where "kOverHangMax2Q = [14, 7, 5]"
definition kLocalThresholdQ :: "int list" where "kLocalThresholdQ = [24, 21, 24]"
definition kGlobalThresholdQ :: "int list" where "kGlobalThresholdQ = [57, 48, 57]"
definition kOverHangMax1LBR :: "int list" where "kOverHangMax1LBR = [8, 4, 3]"
definition kOverHangMax2LBR :: "int list" where "kOverHangMax2LBR = [14, 7, 5]"
definition kLocalThresholdLBR :: "int list" where "kLocalThresholdLBR = [37, 32, 37]"
definition kGlobalThresholdLBR :: "int list" where "kGlobalThresholdLBR = [100, 80, 100]"
definition kOverHangMax1AGG :: "int list" where "kOverHangMax1AGG = [6, 3, 2]"
definition kOverHangMax2AGG :: "int list" where "kOverHangMax2AGG = [9, 5, 3]"
definition kLocalThresholdAGG :: "int list" where "kLocalThresholdAGG = [82, 78, 82]"
definition kGlobalThresholdAGG :: "int list" where "kGlobalThresholdAGG = [285, 260, 285]"
definition kOverHangMax1VAG :: "int list" where "kOverHangMax1VAG = [6, 3, 2]"
definition kOverHangMax2VAG :: "int list" where "kOverHangMax2VAG = [9, 5, 3]"
definition kLocalThresholdVAG :: "int list" where "kLocalThresholdVAG = [94, 94, 94]"
definition kGlobalThresholdVAG :: "int list" where "kGlobalThresholdVAG = [1100, 1050, 1100]"

text \<open>The \<open>memcpy\<close>s overwrite the whole arrays.\<close>

definition WebRtcVad_set_mode_core :: "VadInstT \<Rightarrow> int \<Rightarrow> int \<times> VadInstT" where
  "WebRtcVad_set_mode_core self mode =
     (if mode = 0 then
        (0, self\<lparr>over_hang_max_1 := kOverHangMax1Q, over_hang_max_2 := kOverHangMax2Q,
                 individual := kLocalThresholdQ, vad_total := kGlobalThresholdQ\<rparr>)
      else if mode = 1 then
        (0, self\<lparr>over_hang_max_1 := kOverHangMax1LBR, over_hang_max_2 := kOverHangMax2LBR,
                 individual := kLocalThresholdLBR, vad_total := kGlobalThresholdLBR\<rparr>)
      else if mode = 2 then
        (0, self\<lparr>over_hang_max_1 := kOverHangMax1AGG, over_hang_max_2 := kOverHangMax2AGG,
                 individual := kLocalThresholdAGG, vad_total := kGlobalThresholdAGG\<rparr>)
      else if mode = 3 then
        (0, self\<lparr>over_hang_max_1 := kOverHangMax1VAG, over_hang_max_2 := kOverHangMax2VAG,
                 individual := kLocalThresholdVAG, vad_total := kGlobalThresholdVAG\<rparr>)
      else (- 1, self))"

text \<open>A null handle is \<open>None\<close>. The members not assigned keep their values; \<open>memset\<close> and the loops
  assign all of the arrays they name.\<close>

definition WebRtcVad_InitCore :: "VadInstT option \<Rightarrow> int \<times> VadInstT option" where
  "WebRtcVad_InitCore handle =
     (case handle of None \<Rightarrow> (- 1, None)
      | Some self \<Rightarrow>
          let self = self\<lparr>vad := 1, frame_counter := 0, over_hang := 0, num_of_speech := 0,
                downsampling_filter_states := replicate 4 0,
                state_48_to_8 := WebRtcSpl_ResetResample48khzTo8khz,
                noise_means := kNoiseDataMeans, speech_means := kSpeechDataMeans,
                noise_stds := kNoiseDataStds, speech_stds := kSpeechDataStds,
                low_value_vector := replicate (16 * kNumChannels) 10000,
                index_vector := replicate (16 * kNumChannels) 0,
                upper_state := replicate 5 0, lower_state := replicate 5 0,
                hp_filter_state := replicate 4 0,
                mean_value := replicate kNumChannels 1600\<rparr>;
              (r, self) = WebRtcVad_set_mode_core self kDefaultMode
          in if r \<noteq> 0 then (- 1, Some self)
             else (0, Some (self\<lparr>init_flag := kInitCheck\<rparr>)))"

text \<open>A concrete instance, memory of zeros before its initialisation.\<close>

definition vad_memory :: VadInstT where
  "vad_memory =
     \<lparr>vad = 0, downsampling_filter_states = [], state_48_to_8 = WebRtcSpl_ResetResample48khzTo8khz,
      noise_means = [], speech_means = [], noise_stds = [], speech_stds = [], frame_counter = 0,
      over_hang = 0, num_of_speech = 0, index_vector = [], low_value_vector = [], mean_value = [],
      upper_state = [], lower_state = [], hp_filter_state = [], over_hang_max_1 = [],
      over_hang_max_2 = [], individual = [], vad_total = [], init_flag = 0\<rparr>"

definition vad_start :: VadInstT where
  "vad_start = the (snd (WebRtcVad_InitCore (Some vad_memory)))"

end
