(* ===== verification/VadFeatures.thy ===== *)
theory VadFeatures
  imports VadState "HOL-Library.Multiset"
begin

text \<open>
  The features of the voice activity detector: the halving filter and the minimum tracker of
  \<open>vad_sp.c\<close>, and the filter bank of \<open>vad_filterbank.c\<close> that turns a frame into the logarithmic
  energies of six bands.
\<close>

section \<open>Downsampling by two\<close>

definition kAllPassCoefsQ13 :: "int list" where "kAllPassCoefsQ13 = [5243, 1392]"
definition kSmoothingDown :: int where "kSmoothingDown = 6553"
definition kSmoothingUp :: int where "kSmoothingUp = 32439"

text \<open>Result: the output and the two filter states.\<close>

definition WebRtcVad_Downsampling :: "int list \<Rightarrow> int list \<Rightarrow> nat \<Rightarrow> int list \<times> int list" where
  "WebRtcVad_Downsampling signal_in filter_state in_length =
     (let (out, tmp32_1, tmp32_2) = fold (\<lambda>n (out, tmp32_1, tmp32_2).
            let x1 = signal_in ! (2 * n);
                tmp16_1 = to_i16 (shr tmp32_1 1 + shr (kAllPassCoefsQ13 ! 0 * x1) 14);
                tmp32_1 = to_i32 (x1 - shr (kAllPassCoefsQ13 ! 0 * tmp16_1) 12);
                x2 = signal_in ! (2 * n + 1);
                tmp16_2 = to_i16 (shr tmp32_2 1 + shr (kAllPassCoefsQ13 ! 1 * x2) 14);
                tmp32_2 = to_i32 (x2 - shr (kAllPassCoefsQ13 ! 1 * tmp16_2) 12)
            in (out @ [to_i16 (tmp16_1 + tmp16_2)], tmp32_1, tmp32_2))
          [0..<in_length div 2] ([], filter_state ! 0, filter_state ! 1)
      in (out, [tmp32_1, tmp32_2]))"

section \<open>The minimum tracker\<close>

text \<open>Ageing of one entry: \<open>age\<close> and \<open>smallest_values\<close> are the parts of \<open>index_vector\<close> and
  \<open>low_value_vector\<close> from \<open>16 * channel\<close> on. The inner loop reads position 16, one beyond the
  channel: the next channel's first entry or, for the last channel, the struct member behind the
  array (\<open>low_value_vector\<close> behind \<open>index_vector\<close>, \<open>mean_value\<close> behind \<open>low_value_vector\<close>); what it
  read there is overwritten at once.\<close>

definition age_entry :: "int list \<Rightarrow> nat \<Rightarrow> nat \<Rightarrow> int list \<times> int list \<Rightarrow> int list \<times> int list" where
  "age_entry means off i s =
     (let (ages, vals) = s
      in if ages ! (off + i) \<noteq> 100 then (ages[off + i := to_i16 (ages ! (off + i) + 1)], vals)
         else let (ages, vals) = fold (\<lambda>j (ages, vals).
                      (ages[off + j := (ages @ vals) ! (off + j + 1)],
                       vals[off + j := (vals @ means) ! (off + j + 1)])) [i..<16] (ages, vals)
              in (ages[off + 15 := 101], vals[off + 15 := 10000]))"

text \<open>The nested comparisons that find the insertion position; \<open>-1\<close> is none.\<close>

definition insert_position :: "(nat \<Rightarrow> int) \<Rightarrow> int \<Rightarrow> int" where
  "insert_position s x =
     (if x < s 7 then
        if x < s 3 then
          if x < s 1 then (if x < s 0 then 0 else 1)
          else if x < s 2 then 2 else 3
        else if x < s 5 then (if x < s 4 then 4 else 5)
        else if x < s 6 then 6 else 7
      else if x < s 15 then
        if x < s 11 then
          if x < s 9 then (if x < s 8 then 8 else 9)
          else if x < s 10 then 10 else 11
        else if x < s 13 then (if x < s 12 then 12 else 13)
        else if x < s 14 then 14 else 15
      else - 1)"

definition insert_entry :: "nat \<Rightarrow> int \<Rightarrow> nat \<Rightarrow> int list \<times> int list \<Rightarrow> int list \<times> int list" where
  "insert_entry off x position s =
     (let (ages, vals) = fold (\<lambda>i (ages, vals).
              (ages[off + i := ages ! (off + i - 1)], vals[off + i := vals ! (off + i - 1)]))
            (rev [position + 1..<16]) s
      in (ages[off + position := 1], vals[off + position := x]))"

definition WebRtcVad_FindMinimum :: "VadInstT \<Rightarrow> int \<Rightarrow> nat \<Rightarrow> int \<times> VadInstT" where
  "WebRtcVad_FindMinimum self feature_value channel =
     (let off = 16 * channel;
          (ages, vals) = fold (age_entry (mean_value self) off) [0..<16]
                           (index_vector self, low_value_vector self);
          position = insert_position (\<lambda>i. vals ! (off + i)) feature_value;
          (ages, vals) = (if position > - 1 then insert_entry off feature_value (nat position) (ages, vals)
                          else (ages, vals));
          current_median = (if frame_counter self > 2 then vals ! (off + 2)
                            else if frame_counter self > 0 then vals ! off
                            else 1600);
          alpha = (if frame_counter self > 0
                   then if current_median < mean_value self ! channel then kSmoothingDown else kSmoothingUp
                   else 0);
          tmp32 = to_i32 ((alpha + 1) * mean_value self ! channel);
          tmp32 = to_i32 (tmp32 + (32767 - alpha) * current_median);
          tmp32 = to_i32 (tmp32 + 16384);
          m = to_i16 (shr tmp32 15)
      in (m, self\<lparr>index_vector := ages, low_value_vector := vals,
                  mean_value := (mean_value self)[channel := m]\<rparr>))"

section \<open>The filter bank\<close>

definition kLogConst :: int where "kLogConst = 24660"
definition kLogEnergyIntPart :: int where "kLogEnergyIntPart = 14336"
definition kHpZeroCoefs :: "int list" where "kHpZeroCoefs = [6631, -13262, 6631]"
definition kHpPoleCoefs :: "int list" where "kHpPoleCoefs = [16384, -7756, 5620]"
definition kAllPassCoefsQ15 :: "int list" where "kAllPassCoefsQ15 = [20972, 5571]"
definition kOffsetVector :: "int list" where "kOffsetVector = [368, 368, 272, 176, 176, 176]"

text \<open>Result: the filter state and the output.\<close>

definition HighPassFilter :: "int list \<Rightarrow> nat \<Rightarrow> int list \<Rightarrow> int list \<times> int list" where
  "HighPassFilter data_in data_length filter_state =
     fold (\<lambda>i (filter_state, out).
         let tmp32 = to_i32 (kHpZeroCoefs ! 0 * data_in ! i);
             tmp32 = to_i32 (tmp32 + kHpZeroCoefs ! 1 * filter_state ! 0);
             tmp32 = to_i32 (tmp32 + kHpZeroCoefs ! 2 * filter_state ! 1);
             filter_state = filter_state[1 := filter_state ! 0];
             filter_state = filter_state[0 := data_in ! i];
             tmp32 = to_i32 (tmp32 - kHpPoleCoefs ! 1 * filter_state ! 2);
             tmp32 = to_i32 (tmp32 - kHpPoleCoefs ! 2 * filter_state ! 3);
             filter_state = filter_state[3 := filter_state ! 2];
             filter_state = filter_state[2 := to_i16 (shr tmp32 14)]
         in (filter_state, out @ [filter_state ! 2]))
       [0..<data_length] (filter_state, [])"

text \<open>\<open>data_in\<close> starts at position \<open>off\<close> and is read at every second sample. Result: the filter state
  and the output.\<close>

definition AllPassFilter :: "int list \<Rightarrow> nat \<Rightarrow> nat \<Rightarrow> int \<Rightarrow> int \<Rightarrow> int \<times> int list" where
  "AllPassFilter data_in off data_length filter_coefficient filter_state =
     (let (state32, out) = fold (\<lambda>i (state32, out).
            let x = data_in ! (off + 2 * i);
                tmp32 = to_i32 (state32 + filter_coefficient * x);
                tmp16 = to_i16 (shr tmp32 16);
                state32 = to_i32 (shl x 14 - filter_coefficient * tmp16);
                state32 = to_i32 (shl state32 1)
            in (state32, out @ [tmp16]))
          [0..<data_length] (to_i32 (shl filter_state 16), [])
      in (to_i16 (shr state32 16), out))"

text \<open>Result: the two filter states, the high-pass and the low-pass signal.\<close>

definition SplitFilter :: "int list \<Rightarrow> nat \<Rightarrow> int \<Rightarrow> int \<Rightarrow> int \<times> int \<times> int list \<times> int list" where
  "SplitFilter data_in data_length upper lower =
     (let half_length = data_length div 2;
          (upper, hp) = AllPassFilter data_in 0 half_length (kAllPassCoefsQ15 ! 0) upper;
          (lower, lp) = AllPassFilter data_in 1 half_length (kAllPassCoefsQ15 ! 1) lower
      in (upper, lower,
          map (\<lambda>i. to_i16 (hp ! i - lp ! i)) [0..<half_length],
          map (\<lambda>i. to_i16 (lp ! i + hp ! i)) [0..<half_length]))"

text \<open>Result: \<open>total_energy\<close> and \<open>log_energy\<close>.\<close>

definition LogOfEnergy :: "int list \<Rightarrow> nat \<Rightarrow> int \<Rightarrow> int \<Rightarrow> int \<times> int" where
  "LogOfEnergy data_in data_length offset total_energy =
     (let (en, tot_rshifts) = WebRtcSpl_Energy data_in data_length;
          energy = to_u32 en
      in if energy \<noteq> 0
         then let normalizing_rshifts = 17 - WebRtcSpl_NormU32 energy;
                  log2_energy = kLogEnergyIntPart;
                  tot_rshifts = tot_rshifts + normalizing_rshifts;
                  energy = (if normalizing_rshifts < 0 then to_u32 (shl energy (nat (- normalizing_rshifts)))
                            else shr energy (nat normalizing_rshifts));
                  log2_energy = to_i16 (log2_energy + to_i16 (shr (energy AND 0x3FFF) 4));
                  log_energy = to_i16 (shr (to_i32 (kLogConst * log2_energy)) 19
                                       + shr (to_i32 (tot_rshifts * kLogConst)) 9);
                  log_energy = (if log_energy < 0 then 0 else log_energy);
                  log_energy = to_i16 (log_energy + offset);
                  total_energy =
                    (if total_energy \<le> kMinEnergy
                     then if tot_rshifts \<ge> 0 then to_i16 (total_energy + (kMinEnergy + 1))
                          else to_i16 (total_energy + to_i16 (shr energy (nat (- tot_rshifts))))
                     else total_energy)
              in (total_energy, log_energy)
         else (total_energy, offset))"

text \<open>One use of \<open>SplitFilter\<close> with the states of a frequency band.\<close>

definition split_band :: "nat \<Rightarrow> int list \<Rightarrow> nat \<Rightarrow> VadInstT \<Rightarrow> VadInstT \<times> int list \<times> int list" where
  "split_band band xs n self =
     (let (u, l, hp, lp) = SplitFilter xs n (upper_state self ! band) (lower_state self ! band)
      in (self\<lparr>upper_state := (upper_state self)[band := u], lower_state := (lower_state self)[band := l]\<rparr>, hp, lp))"

text \<open>Result: \<open>total_energy\<close>, the features and the instance.\<close>

definition WebRtcVad_CalculateFeatures :: "VadInstT \<Rightarrow> int list \<Rightarrow> nat \<Rightarrow> int \<times> int list \<times> VadInstT" where
  "WebRtcVad_CalculateFeatures self data_in data_length =
     (let half_data_length = data_length div 2;
          (self, hp_120, lp_120) = split_band 0 data_in data_length self;
          (self, hp_60, lp_60) = split_band 1 hp_120 half_data_length self;
          len = half_data_length div 2;
          (total_energy, f5) = LogOfEnergy hp_60 len (kOffsetVector ! 5) 0;
          (total_energy, f4) = LogOfEnergy lp_60 len (kOffsetVector ! 4) total_energy;
          (self, hp_60, lp_60) = split_band 2 lp_120 half_data_length self;
          (total_energy, f3) = LogOfEnergy hp_60 len (kOffsetVector ! 3) total_energy;
          (self, hp_120, lp_120) = split_band 3 lp_60 len self;
          len = len div 2;
          (total_energy, f2) = LogOfEnergy hp_120 len (kOffsetVector ! 2) total_energy;
          (self, hp_60, lp_60) = split_band 4 lp_120 len self;
          len = len div 2;
          (total_energy, f1) = LogOfEnergy hp_60 len (kOffsetVector ! 1) total_energy;
          (hp_state, hp_120) = HighPassFilter lp_60 len (hp_filter_state self);
          self = self\<lparr>hp_filter_state := hp_state\<rparr>;
          (total_energy, f0) = LogOfEnergy hp_120 len (kOffsetVector ! 0) total_energy
      in (total_energy, [f0, f1, f2, f3, f4, f5], self))"


section \<open>The minimum tracker keeps a sorted window\<close>

lemma fold_snd:
  "snd (fold (\<lambda>j (a, v). (F j a v, G j v)) xs (a, v)) = fold G xs v"
  by (induction xs arbitrary: a v) simp_all

lemma fold_fst_length:
  assumes "\<And>j a v. length (F j a v) = length a"
  shows "length (fst (fold (\<lambda>j (a, v). (F j a v, G j v)) xs (a, v))) = length a"
  by (induction xs arbitrary: a v) (simp_all add: assms)

lemma fold_fst:
  "fst (fold (\<lambda>j (a, v). (F j a, G j a v)) xs (a, v)) = fold F xs a"
  by (induction xs arbitrary: a v) simp_all

text \<open>Shifting an array part down and up by one.\<close>

lemma fold_shift_down:
  assumes "i \<le> k" "off + k \<le> length v"
  shows "length (fold (\<lambda>j v. v[off + j := (v @ m) ! (off + j + 1)]) [i..<k] v) = length v \<and>
    (\<forall>p < length v. fold (\<lambda>j v. v[off + j := (v @ m) ! (off + j + 1)]) [i..<k] v ! p
       = (if off + i \<le> p \<and> p < off + k then (v @ m) ! (p + 1) else v ! p))"
  using assms
proof (induction k rule: dec_induct)
  case (step k)
  let ?w = "fold (\<lambda>j v. v[off + j := (v @ m) ! (off + j + 1)]) [i..<k] v"
  have w: "length ?w = length v" "\<forall>p < length v. ?w ! p
      = (if off + i \<le> p \<and> p < off + k then (v @ m) ! (p + 1) else v ! p)"
    using step by simp_all
  have "(?w @ m) ! (off + k + 1) = (v @ m) ! (off + k + 1)"
    using w step(4) by (simp add: nth_append)
  moreover have "fold (\<lambda>j v. v[off + j := (v @ m) ! (off + j + 1)]) [i..<Suc k] v
      = ?w[off + k := (?w @ m) ! (off + k + 1)]"
    using step by simp
  ultimately show ?case using w step(4) step.hyps(1) by (auto simp: nth_list_update)
qed auto

lemma fold_shift_up:
  assumes "i \<le> k" "off + k \<le> length v"
  shows "length (fold (\<lambda>j v. v[off + j := v ! (off + j - 1)]) (rev [Suc i..<k]) v) = length v \<and>
    (\<forall>p < length v. fold (\<lambda>j v. v[off + j := v ! (off + j - 1)]) (rev [Suc i..<k]) v ! p
       = (if off + i < p \<and> p < off + k then v ! (p - 1) else v ! p))"
  using assms
proof (induction "k - i" arbitrary: k v)
  case (Suc d)
  show ?case
  proof (cases "Suc i < k")
    case True
    then obtain k' where k: "k = Suc k'" "i < k'" by (cases k) auto
    let ?v = "v[off + k' := v ! (off + k' - 1)]"
    have "rev [Suc i..<k] = k' # rev [Suc i..<k']" using k by simp
    then have e: "fold (\<lambda>j v. v[off + j := v ! (off + j - 1)]) (rev [Suc i..<k]) v
        = fold (\<lambda>j v. v[off + j := v ! (off + j - 1)]) (rev [Suc i..<k']) ?v" by simp
    have IH: "length (fold (\<lambda>j v. v[off + j := v ! (off + j - 1)]) (rev [Suc i..<k']) ?v) = length ?v"
      "\<forall>p < length ?v. fold (\<lambda>j v. v[off + j := v ! (off + j - 1)]) (rev [Suc i..<k']) ?v ! p
         = (if off + i < p \<and> p < off + k' then ?v ! (p - 1) else ?v ! p)"
      using Suc.hyps(1) [of k' ?v] Suc.hyps(2) Suc.prems k by auto
    let ?z = "fold (\<lambda>j v. v[off + j := v ! (off + j - 1)]) (rev [Suc i..<k']) ?v"
    have "?z ! p = (if off + i < p \<and> p < off + k then v ! (p - 1) else v ! p)" if "p < length v" for p
      using IH(2) that k Suc.prems by (cases p "off + k'" rule: linorder_cases) auto
    then show ?thesis unfolding e using IH(1) by simp
  next
    case False
    then have "[Suc i..<k] = []" by simp
    then show ?thesis using False by (auto simp del: upt_Suc)
  qed
qed auto

definition chan :: "nat \<Rightarrow> int list \<Rightarrow> int list" where
  "chan channel v = slice (16 * channel) 16 v"

lemma chan_nth: "length v = 96 \<Longrightarrow> c < 6 \<Longrightarrow> i < 16 \<Longrightarrow> chan c v ! i = v ! (16 * c + i)"
  by (simp add: chan_def slice_def)

lemma length_chan: "length v = 96 \<Longrightarrow> c < 6 \<Longrightarrow> length (chan c v) = 16"
  by (simp add: chan_def slice_def)

text \<open>A sorted window of 16 values not above 10000.\<close>

definition window_ok :: "(nat \<Rightarrow> int) \<Rightarrow> bool" where
  "window_ok s \<longleftrightarrow> (\<forall>i j. i \<le> j \<longrightarrow> j < 16 \<longrightarrow> s i \<le> s j) \<and> (\<forall>i < 16. s i \<le> 10000)"

lemma window_ok_cong: "(\<And>i. i < 16 \<Longrightarrow> s i = t i) \<Longrightarrow> window_ok s \<longleftrightarrow> window_ok t"
  by (simp add: window_ok_def)

lemma window_ok_remove:
  assumes "window_ok s"
  shows "window_ok (\<lambda>j. if j = 15 then 10000 else if i \<le> j then s (j + 1) else s j)"
proof -
  have m: "s i \<le> s j" if "i \<le> j" "j < 16" for i j using assms that by (simp add: window_ok_def)
  have b: "s i \<le> 10000" if "i < 16" for i using assms that by (simp add: window_ok_def)
  show ?thesis unfolding window_ok_def by (auto intro!: m b)
qed

lemma window_ok_insert:
  assumes "window_ok s" "p < 16" "x < s p" "\<forall>j < p. s j \<le> x"
  shows "window_ok (\<lambda>j. if p < j then s (j - 1) else if j = p then x else s j)"
proof -
  have m: "s i \<le> s j" if "i \<le> j" "j < 16" for i j using assms(1) that by (simp add: window_ok_def)
  have b: "s i \<le> 10000" if "i < 16" for i using assms(1) that by (simp add: window_ok_def)
  have x: "x \<le> s j" if "p \<le> j" "j < 16" for j using m [OF that] assms(3) by simp
  have "x \<le> 10000" using assms(3) b [OF assms(2)] by simp
  then show ?thesis unfolding window_ok_def using assms(2,4) by (auto intro!: m b x)
qed

lemma window_ok_sorted:
  assumes "length v = 96" "c < 6" "window_ok (\<lambda>i. v ! (16 * c + i))"
  shows "sorted (chan c v)" "\<forall>x \<in> set (chan c v). x \<le> 10000"
  using assms by (auto simp: sorted_iff_nth_mono length_chan chan_nth window_ok_def in_set_conv_nth)

lemma age_entry_spec:
  assumes "length ages = 96" "length vals = 96" "c < 6" "i < 16" "window_ok (\<lambda>i. vals ! (16 * c + i))"
    and "age_entry means (16 * c) i (ages, vals) = (ages', vals')"
  shows "length ages' = 96 \<and> length vals' = 96 \<and> window_ok (\<lambda>i. vals' ! (16 * c + i)) \<and>
    (\<forall>j < 16. vals' ! (16 * c + j) \<in> {vals ! (16 * c + k) | k. k < 16} \<union> {10000}) \<and>
    (\<forall>p < 96. p div 16 \<noteq> c \<longrightarrow> vals' ! p = vals ! p)"
proof (cases "ages ! (16 * c + i) \<noteq> 100")
  case True
  then show ?thesis using assms by (auto simp: age_entry_def)
next
  case False
  let ?o = "16 * c"
  let ?w = "fold (\<lambda>j v. v[?o + j := (v @ means) ! (?o + j + 1)]) [i..<16] vals"
  have w: "length ?w = 96" "\<forall>p < 96. ?w ! p
      = (if ?o + i \<le> p \<and> p < ?o + 16 then (vals @ means) ! (p + 1) else vals ! p)"
    using fold_shift_down [of i 16 ?o vals means] assms(2-4) by simp_all
  define W where "W = ?w[?o + 15 := 10000]"
  have "vals' = W" "length ages' = 96"
    using assms(1,6) False fold_snd [where F = "\<lambda>j ages vals. ages[?o + j := (ages @ vals) ! (?o + j + 1)]"
        and G = "\<lambda>j v. v[?o + j := (v @ means) ! (?o + j + 1)]" and xs = "[i..<16]" and a = ages and v = vals]
      fold_fst_length [where F = "\<lambda>j ages vals. ages[?o + j := (ages @ vals) ! (?o + j + 1)]"
        and G = "\<lambda>j v. v[?o + j := (v @ means) ! (?o + j + 1)]" and xs = "[i..<16]" and a = ages and v = vals]
    by (auto simp: age_entry_def Let_def split_beta W_def)
  moreover have v: "W ! (?o + j)
      = (if j = 15 then 10000 else if i \<le> j then vals ! (?o + (j + 1)) else vals ! (?o + j))" if "j < 16" for j
    using w that assms(2,3) by (auto simp: W_def nth_list_update nth_append)
  moreover have "window_ok (\<lambda>j. W ! (?o + j))"
    using window_ok_remove [OF assms(5), of i]
    by (rule iffD2 [OF window_ok_cong, rotated]) (simp add: v)
  moreover have "W ! (?o + j) \<in> {vals ! (?o + k) | k. k < 16} \<union> {10000}" if "j < 16" for j
    using that v [OF that] by (auto intro: exI [of _ "j + 1"])
  moreover have "W ! p = vals ! p" if "p < 96" "p div 16 \<noteq> c" for p
  proof -
    have "\<not> (?o \<le> p \<and> p < ?o + 16)" using that(2) by auto
    then show ?thesis using w that(1) by (auto simp: W_def nth_list_update)
  qed
  moreover have "length W = 96" using w(1) by (simp add: W_def)
  ultimately show ?thesis by auto
qed

lemma age_loop_spec:
  assumes "length ages = 96" "length vals = 96" "c < 6" "window_ok (\<lambda>i. vals ! (16 * c + i))"
    and "fold (age_entry means (16 * c)) [0..<16] (ages, vals) = (ages', vals')"
  shows "length ages' = 96 \<and> length vals' = 96 \<and> window_ok (\<lambda>i. vals' ! (16 * c + i)) \<and>
    (\<forall>j < 16. vals' ! (16 * c + j) \<in> {vals ! (16 * c + k) | k. k < 16} \<union> {10000}) \<and>
    (\<forall>p < 96. p div 16 \<noteq> c \<longrightarrow> vals' ! p = vals ! p)"
proof -
  define P where "P s \<longleftrightarrow> (case s of (a, v) \<Rightarrow> length a = 96 \<and> length v = 96 \<and> window_ok (\<lambda>i. v ! (16 * c + i)) \<and>
    (\<forall>j < 16. v ! (16 * c + j) \<in> {vals ! (16 * c + k) | k. k < 16} \<union> {10000}) \<and>
    (\<forall>p < 96. p div 16 \<noteq> c \<longrightarrow> v ! p = vals ! p))" for s :: "int list \<times> int list"
  have "P (fold (age_entry means (16 * c)) [0..<16] (ages, vals))"
  proof (rule fold_pres)
    show "P (ages, vals)" using assms(1-4) by (auto simp: P_def)
    fix i s assume i: "i \<in> set [0..<16]" and s: "P s"
    obtain a v where av: "s = (a, v)" by fastforce
    obtain a' v' where av': "age_entry means (16 * c) i (a, v) = (a', v')" by fastforce
    have p: "length a = 96" "length v = 96" "window_ok (\<lambda>i. v ! (16 * c + i))"
      "\<forall>j < 16. v ! (16 * c + j) \<in> {vals ! (16 * c + k) | k. k < 16} \<union> {10000}"
      "\<forall>p < 96. p div 16 \<noteq> c \<longrightarrow> v ! p = vals ! p" using s av by (simp_all add: P_def)
    have i: "i < 16" using i by simp
    have sp: "length a' = 96" "length v' = 96" "window_ok (\<lambda>i. v' ! (16 * c + i))"
      "\<forall>j < 16. v' ! (16 * c + j) \<in> {v ! (16 * c + k) | k. k < 16} \<union> {10000}"
      "\<forall>p < 96. p div 16 \<noteq> c \<longrightarrow> v' ! p = v ! p"
      using age_entry_spec [OF p(1,2) assms(3) i p(3) av'] by simp_all
    have "{v ! (16 * c + k) | k. k < 16} \<subseteq> {vals ! (16 * c + k) | k. k < 16} \<union> {10000}" using p(4) by blast
    with sp(4) have "\<forall>j < 16. v' ! (16 * c + j) \<in> {vals ! (16 * c + k) | k. k < 16} \<union> {10000}" by blast
    with sp p(5) show "P (age_entry means (16 * c) i s)" by (simp add: P_def av av')
  qed
  then show ?thesis unfolding assms(5) P_def by simp
qed

text \<open>The entries of a channel, a value with its age each, and what the ageing loop does with them: an
  entry of age 100 leaves, the larger ones move down, and \<open>(10000, 101)\<close> fills up. The entry that
  moved into the place of a removed one is passed over: it does not age in this call.\<close>

definition zip_chan :: "nat \<Rightarrow> int list \<times> int list \<Rightarrow> (int \<times> int) list" where
  "zip_chan c s = zip (chan c (snd s)) (chan c (fst s))"

definition entries :: "nat \<Rightarrow> VadInstT \<Rightarrow> (int \<times> int) list" where
  "entries c self = zip_chan c (index_vector self, low_value_vector self)"

definition free_entry :: "int \<times> int" where "free_entry = (10000, 101)"

function aged :: "(int \<times> int) list \<Rightarrow> (int \<times> int) list" where
  "aged [] = []"
| "aged (e # es) =
     (if snd e \<noteq> 100 then (fst e, to_i16 (snd e + 1)) # aged es
      else hd (es @ [free_entry]) # aged (tl (es @ [free_entry])))"
  by pat_completeness auto
termination by (relation "measure length") auto

definition insert_min :: "int \<Rightarrow> (int \<times> int) list \<Rightarrow> (int \<times> int) list" where
  "insert_min x es = take 16 (takeWhile (\<lambda>e. fst e \<le> x) es @ (x, 1) # dropWhile (\<lambda>e. fst e \<le> x) es)"

lemma length_aged [simp]: "length (aged es) = length es"
  by (induction es rule: aged.induct) auto

lemma aged_no_removal: "\<forall>e \<in> set es. snd e \<noteq> 100 \<Longrightarrow> aged es = map (\<lambda>e. (fst e, to_i16 (snd e + 1))) es"
  by (induction es) auto

definition age_step :: "nat \<Rightarrow> (int \<times> int) list \<Rightarrow> (int \<times> int) list" where
  "age_step i es = (if snd (es ! i) \<noteq> 100 then es[i := (fst (es ! i), to_i16 (snd (es ! i) + 1))]
     else take i es @ drop (Suc i) es @ [free_entry])"

lemma length_age_step [simp]: "i < length es \<Longrightarrow> length (age_step i es) = length es"
  by (auto simp: age_step_def)

lemma take_drop_Suc_append:
  assumes "length xs = i" "r \<noteq> []"
  shows "take (Suc i) (xs @ r) = xs @ [hd r]" "drop (Suc i) (xs @ r) = tl r"
  using assms by (cases r; simp)+

lemma age_step_aged:
  assumes "i < length es"
  shows "take (Suc i) (age_step i es) @ aged (drop (Suc i) (age_step i es)) = take i es @ aged (drop i es)"
proof -
  have d: "drop i es = es ! i # drop (Suc i) es" using assms by (simp add: Cons_nth_drop_Suc)
  show ?thesis
  proof (cases "snd (es ! i) = 100")
    case True
    let ?r = "drop (Suc i) es @ [free_entry]"
    have "take (Suc i) (take i es @ ?r) = take i es @ [hd ?r]" "drop (Suc i) (take i es @ ?r) = tl ?r"
      using assms by (intro take_drop_Suc_append; simp)+
    then show ?thesis using True by (simp add: age_step_def d)
  next
    case False
    then show ?thesis using assms by (simp add: age_step_def d take_Suc_conv_app_nth)
  qed
qed

lemma age_steps: "length es = n \<Longrightarrow> fold age_step [0..<n] es = aged es"
proof -
  assume n: "length es = n"
  let ?P = "\<lambda>i w. length w = n \<and> take i w @ aged (drop i w) = aged es"
  have "?P n (fold age_step [0..<n] es)"
  proof (rule fold_upt_inv [where P = ?P])
    fix i w assume "i < n" "?P i w"
    then show "?P (Suc i) (age_step i w)" using age_step_aged [of i w] by simp
  qed (use n in simp_all)
  then have "length (fold age_step [0..<n] es) = n"
    "take n (fold age_step [0..<n] es) @ aged (drop n (fold age_step [0..<n] es)) = aged es"
    by blast+
  then show ?thesis by simp
qed

lemma zip_chan_length: "length a = 96 \<Longrightarrow> length v = 96 \<Longrightarrow> c < 6 \<Longrightarrow> length (zip_chan c (a, v)) = 16"
  by (simp add: zip_chan_def length_chan)

lemma zip_chan_nth:
  "length a = 96 \<Longrightarrow> length v = 96 \<Longrightarrow> c < 6 \<Longrightarrow> i < 16 \<Longrightarrow>
   zip_chan c (a, v) ! i = (v ! (16 * c + i), a ! (16 * c + i))"
  by (simp add: zip_chan_def length_chan chan_nth)

lemma map_fst_zip_chan: "length a = 96 \<Longrightarrow> length v = 96 \<Longrightarrow> c < 6 \<Longrightarrow> map fst (zip_chan c (a, v)) = chan c v"
  by (simp add: zip_chan_def length_chan)

lemma chan_div: "i < 16 \<Longrightarrow> (16 * d + i) div 16 = (d :: nat)"
  by simp

lemma zip_chan_cong:
  assumes "length a = 96" "length v = 96" "length a' = 96" "length v' = 96" "d < 6"
    and "\<And>p. p < 96 \<Longrightarrow> p div 16 = d \<Longrightarrow> a' ! p = a ! p \<and> v' ! p = v ! p"
  shows "zip_chan d (a', v') = zip_chan d (a, v)"
  using assms by (intro nth_equalityI) (simp_all add: zip_chan_length zip_chan_nth)

lemma age_shift:
  fixes means :: "int list"
  assumes "length a = 96" "length v = 96" "c < 6" "i < 16"
    and "fold (\<lambda>j (a, v). (a[16 * c + j := (a @ v) ! (16 * c + j + 1)], v[16 * c + j := (v @ means) ! (16 * c + j + 1)]))
           [i..<16] (a, v) = (a', v')"
  shows "length a' = 96 \<and> length v' = 96 \<and> (\<forall>p < 96. p \<noteq> 16 * c + 15 \<longrightarrow>
    a' ! p = (if 16 * c + i \<le> p \<and> p < 16 * c + 16 then a ! (p + 1) else a ! p) \<and>
    v' ! p = (if 16 * c + i \<le> p \<and> p < 16 * c + 16 then v ! (p + 1) else v ! p))"
proof -
  let ?P = "\<lambda>k (a', v'). length a' = 96 \<and> length v' = 96 \<and> (\<forall>p < 96. p \<noteq> 16 * c + 15 \<or> k \<le> 15 \<longrightarrow>
    a' ! p = (if 16 * c + i \<le> p \<and> p < 16 * c + k then a ! (p + 1) else a ! p) \<and>
    v' ! p = (if 16 * c + i \<le> p \<and> p < 16 * c + k then v ! (p + 1) else v ! p))"
  have "?P 16 (fold (\<lambda>j (a, v). (a[16 * c + j := (a @ v) ! (16 * c + j + 1)], v[16 * c + j := (v @ means) ! (16 * c + j + 1)]))
           [i..<16] (a, v))"
  proof (rule fold_upt_inv [where P = ?P])
    fix k and s :: "int list \<times> int list"
    assume k: "i \<le> k" "k < 16" and P: "?P k s"
    obtain a1 v1 where s: "s = (a1, v1)" by fastforce
    have P1: "length a1 = 96" "length v1 = 96"
      and P2: "\<And>p. p < 96 \<Longrightarrow> a1 ! p = (if 16 * c + i \<le> p \<and> p < 16 * c + k then a ! (p + 1) else a ! p) \<and>
        v1 ! p = (if 16 * c + i \<le> p \<and> p < 16 * c + k then v ! (p + 1) else v ! p)"
      using P k by (simp_all add: s)
    show "?P (Suc k) (case s of (a, v) \<Rightarrow>
        (a[16 * c + k := (a @ v) ! (16 * c + k + 1)], v[16 * c + k := (v @ means) ! (16 * c + k + 1)]))"
    proof (cases "k = 15")
      case True
      then show ?thesis using P1 P2 k assms(3) by (auto simp: s nth_list_update)
    next
      case False
      then have "16 * c + k + 1 < 96" using k assms(3) by simp
      then show ?thesis using P1 P2 k by (auto simp: s nth_list_update nth_append less_Suc_eq)
    qed
  qed (use assms in auto)
  then show ?thesis unfolding assms(5) by simp
qed

lemma age_entry_entries:
  assumes "length a = 96" "length v = 96" "c < 6" "i < 16"
    and "age_entry means (16 * c) i (a, v) = (a', v')"
  shows "length a' = 96 \<and> length v' = 96 \<and> zip_chan c (a', v') = age_step i (zip_chan c (a, v)) \<and>
    (\<forall>p < 96. p div 16 \<noteq> c \<longrightarrow> a' ! p = a ! p \<and> v' ! p = v ! p)"
proof (cases "a ! (16 * c + i) \<noteq> 100")
  case True
  then have e: "a' = a[16 * c + i := to_i16 (a ! (16 * c + i) + 1)]" "v' = v"
    using assms(5) by (simp_all add: age_entry_def)
  have "zip_chan c (a', v') = age_step i (zip_chan c (a, v))"
    using True assms(1-4)
    by (intro nth_equalityI)
      (auto simp: e age_step_def zip_chan_length zip_chan_nth nth_list_update)
  then show ?thesis using assms(1-4) by (auto simp: e nth_list_update)
next
  case False
  obtain a1 v1 where f: "fold (\<lambda>j (a, v). (a[16 * c + j := (a @ v) ! (16 * c + j + 1)],
      v[16 * c + j := (v @ means) ! (16 * c + j + 1)])) [i..<16] (a, v) = (a1, v1)" by fastforce
  have e: "a' = a1[16 * c + 15 := 101]" "v' = v1[16 * c + 15 := 10000]"
    using False assms(5) unfolding age_entry_def Let_def prod.case f by simp_all
  note sh = age_shift [OF assms(1-4) f]
  have "zip_chan c (a', v') = age_step i (zip_chan c (a, v))"
  proof (rule nth_equalityI)
    fix j assume "j < length (zip_chan c (a', v'))"
    then have j: "j < 16" using sh assms(3) by (simp add: e zip_chan_length)
    have "zip_chan c (a', v') ! j = (if j = 15 then free_entry else if i \<le> j then (v ! (16 * c + (j + 1)), a ! (16 * c + (j + 1)))
        else (v ! (16 * c + j), a ! (16 * c + j)))"
      using sh j assms(3) by (auto simp: e zip_chan_nth nth_list_update free_entry_def)
    also have "\<dots> = age_step i (zip_chan c (a, v)) ! j"
      using False j assms(1-4)
      by (auto simp: age_step_def zip_chan_nth zip_chan_length nth_append nth_Cons')
    finally show "zip_chan c (a', v') ! j = age_step i (zip_chan c (a, v)) ! j" .
  qed (use sh assms(1-4) in \<open>simp add: e zip_chan_length\<close>)
  moreover have "a' ! p = a ! p \<and> v' ! p = v ! p" if "p < 96" "p div 16 \<noteq> c" for p
  proof -
    have "\<not> (16 * c \<le> p \<and> p < 16 * c + 16)" using that(2) by auto
    then show ?thesis using sh that(1) by (auto simp: e nth_list_update)
  qed
  ultimately show ?thesis using sh by (simp add: e)
qed

lemma age_loop_entries:
  assumes "length a = 96" "length v = 96" "c < 6"
    and "fold (age_entry means (16 * c)) [0..<16] (a, v) = (a', v')"
  shows "zip_chan c (a', v') = aged (zip_chan c (a, v)) \<and>
    (\<forall>p < 96. p div 16 \<noteq> c \<longrightarrow> a' ! p = a ! p \<and> v' ! p = v ! p)"
proof -
  let ?P = "\<lambda>i (a', v'). length a' = 96 \<and> length v' = 96 \<and>
    zip_chan c (a', v') = fold age_step [0..<i] (zip_chan c (a, v)) \<and>
    (\<forall>p < 96. p div 16 \<noteq> c \<longrightarrow> a' ! p = a ! p \<and> v' ! p = v ! p)"
  have "?P 16 (fold (age_entry means (16 * c)) [0..<16] (a, v))"
  proof (rule fold_upt_inv [where P = ?P])
    fix i and s :: "int list \<times> int list"
    assume i: "i < 16" and P: "?P i s"
    obtain a1 v1 where s: "s = (a1, v1)" by fastforce
    obtain a2 v2 where 2: "age_entry means (16 * c) i (a1, v1) = (a2, v2)" by fastforce
    show "?P (Suc i) (age_entry means (16 * c) i s)"
      using age_entry_entries [OF _ _ assms(3) i 2] P by (simp add: s 2)
  qed (use assms in simp_all)
  then show ?thesis unfolding assms(4) using age_steps [OF zip_chan_length [OF assms(1-3)]] by simp
qed

text \<open>The comparison tree is a search in a sorted window.\<close>

lemma insert_position_spec:
  assumes "window_ok s"
  shows "insert_position s x = - 1 \<and> s 15 \<le> x \<or>
    (\<exists>p < 16. insert_position s x = int p \<and> x < s p \<and> (\<forall>j < p. s j \<le> x))"
proof -
  have m: "s i \<le> s j" if "i \<le> j" "j < 16" for i j using assms that by (simp add: window_ok_def)
  have *: "\<exists>p < 16. int q = int p \<and> x < s p \<and> (\<forall>j < p. s j \<le> x)"
    if "q < 16" "x < s q" "q = 0 \<or> s (q - 1) \<le> x" for q
  proof -
    have "s j \<le> x" if "j < q" for j
    proof -
      have "s j \<le> s (q - 1)" by (rule m) (use that \<open>q < 16\<close> in auto)
      then show ?thesis using \<open>q = 0 \<or> s (q - 1) \<le> x\<close> that by auto
    qed
    then show ?thesis using that by blast
  qed
  define G where "G v \<longleftrightarrow> v = - 1 \<and> s 15 \<le> x \<or> (\<exists>p < 16. v = int p \<and> x < s p \<and> (\<forall>j < p. s j \<le> x))" for v
  have g: "G (int q)" if "q < 16" "x < s q" "q = 0 \<or> s (q - 1) \<le> x" for q
    using * [OF that] by (simp add: G_def)
 have F: "x < s 0 \<Longrightarrow> G 0" "s 0 \<le> x \<Longrightarrow> x < s 1 \<Longrightarrow> G 1" "s 1 \<le> x \<Longrightarrow> x < s 2 \<Longrightarrow> G 2"
    "s 2 \<le> x \<Longrightarrow> x < s 3 \<Longrightarrow> G 3" "s 3 \<le> x \<Longrightarrow> x < s 4 \<Longrightarrow> G 4" "s 4 \<le> x \<Longrightarrow> x < s 5 \<Longrightarrow> G 5"
    "s 5 \<le> x \<Longrightarrow> x < s 6 \<Longrightarrow> G 6" "s 6 \<le> x \<Longrightarrow> x < s 7 \<Longrightarrow> G 7" "s 7 \<le> x \<Longrightarrow> x < s 8 \<Longrightarrow> G 8"
    "s 8 \<le> x \<Longrightarrow> x < s 9 \<Longrightarrow> G 9" "s 9 \<le> x \<Longrightarrow> x < s 10 \<Longrightarrow> G 10" "s 10 \<le> x \<Longrightarrow> x < s 11 \<Longrightarrow> G 11"
    "s 11 \<le> x \<Longrightarrow> x < s 12 \<Longrightarrow> G 12" "s 12 \<le> x \<Longrightarrow> x < s 13 \<Longrightarrow> G 13" "s 13 \<le> x \<Longrightarrow> x < s 14 \<Longrightarrow> G 14"
    "s 14 \<le> x \<Longrightarrow> x < s 15 \<Longrightarrow> G 15"
    using g [of 0] g [of 1] g [of 2] g [of 3] g [of 4] g [of 5] g [of 6] g [of 7] g [of 8] g [of 9]
      g [of 10] g [of 11] g [of 12] g [of 13] g [of 14] g [of 15] by simp_all
  have F': "s 15 \<le> x \<Longrightarrow> G (- 1)" by (simp add: G_def)
  have ifG: "(c \<Longrightarrow> G a) \<Longrightarrow> (\<not> c \<Longrightarrow> G b) \<Longrightarrow> G (if c then a else b)" for a b c by simp
  have "G (insert_position s x)"
    unfolding insert_position_def
    by (intro ifG; (unfold not_less)?; rule F F'; assumption)
  then show ?thesis by (simp add: G_def)
qed

lemma insert_entry_spec:
  assumes "length ages = 96" "length vals = 96" "c < 6" "p < 16"
    and "window_ok (\<lambda>i. vals ! (16 * c + i))" "x < vals ! (16 * c + p)" "\<forall>j < p. vals ! (16 * c + j) \<le> x"
    and "insert_entry (16 * c) x p (ages, vals) = (ages', vals')"
  shows "length ages' = 96 \<and> length vals' = 96 \<and> window_ok (\<lambda>i. vals' ! (16 * c + i)) \<and>
    (\<forall>j < 16. vals' ! (16 * c + j) \<in> {vals ! (16 * c + k) | k. k < 16} \<union> {x}) \<and>
    vals' ! (16 * c + p) = x \<and> (\<forall>q < 96. q div 16 \<noteq> c \<longrightarrow> vals' ! q = vals ! q)"
proof -
  let ?o = "16 * c"
  let ?w = "fold (\<lambda>j v. v[?o + j := v ! (?o + j - 1)]) (rev [Suc p..<16]) vals"
  have w: "length ?w = 96" "\<forall>q < 96. ?w ! q = (if ?o + p < q \<and> q < ?o + 16 then vals ! (q - 1) else vals ! q)"
    using fold_shift_up [of p 16 ?o vals] assms(2-4) by simp_all
  define W where "W = ?w[?o + p := x]"
  have "vals' = W" "length ages' = 96"
    using assms(1,8) fold_snd [where F = "\<lambda>j ages vals. ages[?o + j := ages ! (?o + j - 1)]"
        and G = "\<lambda>j v. v[?o + j := v ! (?o + j - 1)]" and xs = "rev [Suc p..<16]" and a = ages and v = vals]
      fold_fst_length [where F = "\<lambda>j ages vals. ages[?o + j := ages ! (?o + j - 1)]"
        and G = "\<lambda>j v. v[?o + j := v ! (?o + j - 1)]" and xs = "rev [Suc p..<16]" and a = ages and v = vals]
    by (auto simp: insert_entry_def Let_def split_beta W_def)
  moreover have v: "W ! (?o + j) = (if p < j then vals ! (?o + (j - 1)) else if j = p then x else vals ! (?o + j))"
    if "j < 16" for j
    using w that assms(2-4) by (auto simp: W_def nth_list_update)
  moreover have "window_ok (\<lambda>j. W ! (?o + j))"
    using window_ok_insert [OF assms(5,4,6,7)]
    by (rule iffD2 [OF window_ok_cong, rotated]) (simp add: v)
  moreover have "W ! (?o + j) \<in> {vals ! (?o + k) | k. k < 16} \<union> {x}" if "j < 16" for j
    using that v [OF that] by (auto intro: exI [of _ "j - 1"])
  moreover have "W ! q = vals ! q" if "q < 96" "q div 16 \<noteq> c" for q
  proof -
    have "\<not> (?o \<le> q \<and> q < ?o + 16)" using that(2) by auto
    then show ?thesis using w that(1) assms(4) by (auto simp: W_def nth_list_update)
  qed
  moreover have "length W = 96" using w(1) by (simp add: W_def)
  ultimately show ?thesis using assms(4) by auto
qed

text \<open>The insertion on entries.\<close>

lemma insert_entry_entries:
  assumes "length a = 96" "length v = 96" "c < 6" "p < 16"
    and "insert_entry (16 * c) x p (a, v) = (a', v')"
  shows "zip_chan c (a', v') = take 16 (take p (zip_chan c (a, v)) @ (x, 1) # drop p (zip_chan c (a, v))) \<and>
    (\<forall>q < 96. q div 16 \<noteq> c \<longrightarrow> a' ! q = a ! q \<and> v' ! q = v ! q)"
proof -
  let ?o = "16 * c" and ?z = "zip_chan c (a, v)"
  define S where "S v = fold (\<lambda>j v. v[?o + j := v ! (?o + j - 1)]) (rev [Suc p..<16]) v" for v :: "int list"
  have S: "length (S w) = 96" "\<And>q. q < 96 \<Longrightarrow> S w ! q = (if ?o + p < q \<and> q < ?o + 16 then w ! (q - 1) else w ! q)"
    if "length w = 96" for w
    using fold_shift_up [of p 16 ?o w] assms(3,4) that by (simp_all add: S_def)
  have e: "a' = (S a)[?o + p := 1]" "v' = (S v)[?o + p := x]"
    using assms(5) fold_snd [where F = "\<lambda>j ages vals. ages[?o + j := ages ! (?o + j - 1)]"
        and G = "\<lambda>j v. v[?o + j := v ! (?o + j - 1)]" and xs = "rev [Suc p..<16]" and a = a and v = v]
      fold_fst [where F = "\<lambda>j ages. ages[?o + j := ages ! (?o + j - 1)]"
        and G = "\<lambda>j ages v. v[?o + j := v ! (?o + j - 1)]" and xs = "rev [Suc p..<16]" and a = a and v = v]
    by (auto simp: insert_entry_def Let_def split_beta S_def)
  note len = assms(1,2) S(1) [OF assms(1)] S(1) [OF assms(2)]
  have "zip_chan c (a', v') = take 16 (take p ?z @ (x, 1) # drop p ?z)"
  proof (rule nth_equalityI)
    fix j assume "j < length (zip_chan c (a', v'))"
    then have j: "j < 16" using len assms(3) by (simp add: e zip_chan_length)
    show "zip_chan c (a', v') ! j = take 16 (take p ?z @ (x, 1) # drop p ?z) ! j"
      using j len assms(3,4) S(2) [OF assms(1)] S(2) [OF assms(2)]
      by (cases j p rule: linorder_cases)
        (auto simp: e zip_chan_nth zip_chan_length nth_append nth_Cons' nth_list_update)
  qed (use len assms(3,4) in \<open>simp add: e zip_chan_length\<close>)
  moreover have "a' ! q = a ! q \<and> v' ! q = v ! q" if "q < 96" "q div 16 \<noteq> c" for q
  proof -
    have "\<not> (?o \<le> q \<and> q < ?o + 16)" using that(2) by auto
    then show ?thesis using that(1) assms(4) S(2) [OF assms(1)] S(2) [OF assms(2)] by (auto simp: e nth_list_update)
  qed
  ultimately show ?thesis by blast
qed

lemma insert_min_at:
  assumes "p < length w" "x < fst (w ! p)" "\<And>j. j < p \<Longrightarrow> fst (w ! j) \<le> x"
  shows "insert_min x w = take 16 (take p w @ (x, 1) # drop p w)"
proof -
  have "takeWhile (\<lambda>e. fst e \<le> x) w = take p w"
    by (rule takeWhile_eq_take_P_nth) (use assms in auto)
  moreover from this have "dropWhile (\<lambda>e. fst e \<le> x) w = drop p w"
    using assms(1) by (simp add: dropWhile_eq_drop)
  ultimately show ?thesis by (simp add: insert_min_def)
qed

lemma insert_min_none:
  assumes "\<And>j. j < 16 \<Longrightarrow> fst (w ! j) \<le> x" "length w = 16"
  shows "insert_min x w = w"
proof -
  have "\<forall>e \<in> set w. fst e \<le> x"
    using assms by (metis in_set_conv_nth)
  then have "takeWhile (\<lambda>e. fst e \<le> x) w = w" "dropWhile (\<lambda>e. fst e \<le> x) w = []"
    unfolding takeWhile_eq_all_conv dropWhile_eq_Nil_conv by blast+
  then show ?thesis unfolding insert_min_def using assms(2) by (simp only: take_append) simp
qed

text \<open>The comparison tree and the shift together insert into the sorted window.\<close>

lemma insert_step_entries:
  assumes "length a = 96" "length v = 96" "c < 6" "window_ok (\<lambda>i. v ! (16 * c + i))"
    and "position = insert_position (\<lambda>i. v ! (16 * c + i)) x"
    and "(if position > - 1 then insert_entry (16 * c) x (nat position) (a, v) else (a, v)) = (a', v')"
  shows "zip_chan c (a', v') = insert_min x (zip_chan c (a, v)) \<and>
    (\<forall>q < 96. q div 16 \<noteq> c \<longrightarrow> a' ! q = a ! q \<and> v' ! q = v ! q)"
  using insert_position_spec [OF assms(4), of x]
proof (elim disjE conjE exE)
  assume none: "insert_position (\<lambda>i. v ! (16 * c + i)) x = - 1" "v ! (16 * c + 15) \<le> x"
  have "v ! (16 * c + j) \<le> x" if "j < 16" for j
  proof -
    have "v ! (16 * c + j) \<le> v ! (16 * c + 15)" using assms(4) that unfolding window_ok_def by simp
    then show ?thesis using none(2) by simp
  qed
  then have "insert_min x (zip_chan c (a, v)) = zip_chan c (a, v)"
    using assms(1-3) by (intro insert_min_none) (simp_all add: zip_chan_nth zip_chan_length)
  then show ?thesis using assms(5,6) none(1) by simp
next
  fix p assume p: "p < 16" "insert_position (\<lambda>i. v ! (16 * c + i)) x = int p" "x < v ! (16 * c + p)"
    "\<forall>j < p. v ! (16 * c + j) \<le> x"
  have "insert_entry (16 * c) x p (a, v) = (a', v')" using assms(5,6) p(2) by simp
  moreover have "insert_min x (zip_chan c (a, v)) = take 16 (take p (zip_chan c (a, v)) @ (x, 1) # drop p (zip_chan c (a, v)))"
    using assms(1-3) p by (intro insert_min_at) (simp_all add: zip_chan_nth zip_chan_length)
  ultimately show ?thesis using insert_entry_entries [OF assms(1-3) p(1)] by simp
qed

text \<open>Read on the values alone, the insertion keeps the sixteen smallest.\<close>

lemma sorted_between:
  "sorted l \<Longrightarrow> sorted r \<Longrightarrow> \<forall>a \<in> set l. a \<le> x \<Longrightarrow> \<forall>b \<in> set r. x \<le> b \<Longrightarrow> sorted (l @ (x :: int) # r)"
  by (fastforce simp: sorted_append)

lemma insert_min_values:
  assumes "sorted (map fst w)"
  shows "map fst (insert_min x w) = take 16 (sort (x # map fst w))"
proof -
  let ?l = "takeWhile (\<lambda>e. fst e \<le> x) w" and ?r = "dropWhile (\<lambda>e. fst e \<le> x) w"
  have "sorted (map fst ?l @ map fst ?r)" using assms by (simp flip: map_append)
  then have s: "sorted (map fst ?l)" "sorted (map fst ?r)" by (simp_all only: sorted_append)
  have "\<forall>e \<in> set ?r. x \<le> fst e"
  proof (cases ?r)
    case (Cons e r)
    then have "x < fst e" by (metis dropWhile_eq_Cons_conv not_le)
    then show ?thesis using s(2) by (auto simp: Cons)
  next
    case Nil
    show ?thesis unfolding Nil by simp
  qed
  moreover have "\<forall>e \<in> set ?l. fst e \<le> x" by (auto dest: set_takeWhileD)
  ultimately have "sorted (map fst (?l @ (x, 1) # ?r))"
    using s unfolding map_append list.map fst_conv by (intro sorted_between) simp_all
  moreover have "mset (map fst (?l @ (x, 1) # ?r)) = mset (x # map fst w)"
  proof -
    have "mset (map fst (?l @ ?r)) = mset (map fst w)" by simp
    then show ?thesis unfolding map_append mset_append by simp
  qed
  ultimately have "sort (x # map fst w) = map fst (?l @ (x, 1) # ?r)"
    by (intro properties_for_sort) simp_all
  then show ?thesis unfolding insert_min_def by (simp only: take_map)
qed

text \<open>The smoothed median is a rounded convex combination.\<close>

lemma smooth_bounds:
  assumes "is_i16 m" "is_i16 c" "0 \<le> a" "a \<le> 32767"
  defines "r \<equiv> to_i16 (shr (to_i32 (to_i32 (to_i32 ((a + 1) * m) + (32767 - a) * c) + 16384)) 15)"
  shows "min m c \<le> r" "r \<le> max m c"
proof -
  let ?t = "(a + 1) * m + (32767 - a) * c"
  have le: "(a + 1) * min m c \<le> (a + 1) * m" "(32767 - a) * min m c \<le> (32767 - a) * c"
    "(a + 1) * m \<le> (a + 1) * max m c" "(32767 - a) * c \<le> (32767 - a) * max m c"
    using assms(3,4) by (auto intro!: mult_left_mono)
  have s: "(a + 1) * y + (32767 - a) * y = 32768 * y" for y :: int by (simp add: algebra_simps)
  have b: "32768 * min m c \<le> ?t" "?t \<le> 32768 * max m c"
    using le s [of "min m c"] s [of "max m c"] by linarith+
  have "- 32768 \<le> min m c" "max m c \<le> 32767" using assms(1,2) by (auto simp: is_i16_def)
  then have "to_i32 (?t + 16384) = ?t + 16384"
    using b by (intro to_i32_id) (simp only: is_i32_def, linarith)
  then have e: "to_i32 (to_i32 (to_i32 ((a + 1) * m) + (32767 - a) * c) + 16384) = ?t + 16384"
    by simp
  have q: "min m c \<le> (?t + 16384) div 32768" "(?t + 16384) div 32768 < max m c + 1"
  proof -
    show "min m c \<le> (?t + 16384) div 32768" by (rule int_le_div) (use b in simp_all)
    have "32768 * max m c = max m c * 32768" by simp
    with b(2) have "?t + 16384 < (max m c + 1) * 32768" unfolding distrib_right by simp
    then show "(?t + 16384) div 32768 < max m c + 1" by (rule int_div_less) simp
  qed
  then have "to_i16 ((?t + 16384) div 32768) = (?t + 16384) div 32768"
    using \<open>- 32768 \<le> min m c\<close> \<open>max m c \<le> 32767\<close> by (intro to_i16_small) linarith+
  then show "min m c \<le> r" "r \<le> max m c" using q unfolding r_def e by (simp_all add: shr_def)
qed

definition tracker_ok :: "VadInstT \<Rightarrow> bool" where
  "tracker_ok self \<longleftrightarrow> length (index_vector self) = 96 \<and> length (low_value_vector self) = 96 \<and>
     length (mean_value self) = 6 \<and> all_i16 (mean_value self) \<and> all_i16 (low_value_vector self) \<and>
     (\<forall>c < 6. window_ok (\<lambda>i. low_value_vector self ! (16 * c + i)))"

lemma all_i16_update: "all_i16 xs \<Longrightarrow> is_i16 x \<Longrightarrow> all_i16 (xs[i := x])"
  using set_update_subset_insert [of xs i x] by (auto simp: all_i16_def)


lemma set_chan: "length v = 96 \<Longrightarrow> c < 6 \<Longrightarrow> set (chan c v) = {v ! (16 * c + k) | k. k < 16}"
proof -
  assume a: "length v = 96" "c < 6"
  have "set (chan c v) = (!) (chan c v) ` {..<16}" using a by (auto simp: in_set_conv_nth length_chan)
  also have "\<dots> = (\<lambda>k. v ! (16 * c + k)) ` {..<16}" by (rule image_cong) (use a chan_nth in auto)
  finally show ?thesis by auto
qed

lemma FindMinimum_spec:
  assumes "tracker_ok self" "c < 6" "is_i16 x" and F: "WebRtcVad_FindMinimum self x c = (m, self')"
  shows "tracker_ok self'"
    and "\<exists>a v mv. self' = self\<lparr>index_vector := a, low_value_vector := v, mean_value := mv\<rparr>"
    and "set (chan c (low_value_vector self')) \<subseteq> set (chan c (low_value_vector self)) \<union> {x, 10000}"
    and "sorted (chan c (low_value_vector self'))"
    and "\<And>d. d < 6 \<Longrightarrow> d \<noteq> c \<Longrightarrow> chan d (low_value_vector self') = chan d (low_value_vector self)"
    and "\<exists>med \<in> set (chan c (low_value_vector self')) \<union> {1600}.
      min (mean_value self ! c) med \<le> m \<and> m \<le> max (mean_value self ! c) med"
    and "is_i16 m"
    and "entries c self' = insert_min x (aged (entries c self))"
    and "\<And>d. d < 6 \<Longrightarrow> d \<noteq> c \<Longrightarrow> entries d self' = entries d self"
    and "sorted (map fst (aged (entries c self)))"
    and "let vs = chan c (low_value_vector self');
           med = (if frame_counter self > 2 then vs ! 2 else if frame_counter self > 0 then vs ! 0 else 1600)
         in min (mean_value self ! c) med \<le> m \<and> m \<le> max (mean_value self ! c) med"
proof -
  let ?o = "16 * c"
  have ok: "length (index_vector self) = 96" "length (low_value_vector self) = 96" "length (mean_value self) = 6"
    "all_i16 (mean_value self)" "all_i16 (low_value_vector self)"
    "\<And>c. c < 6 \<Longrightarrow> window_ok (\<lambda>i. low_value_vector self ! (16 * c + i))"
    using assms(1) by (simp_all add: tracker_ok_def)
  obtain a1 v1 where 1: "fold (age_entry (mean_value self) ?o) [0..<16] (index_vector self, low_value_vector self) = (a1, v1)"
    by fastforce
  note s1 = age_loop_spec [OF ok(1,2) assms(2) ok(6) [OF assms(2)] 1]
  define pos where "pos = insert_position (\<lambda>i. v1 ! (?o + i)) x"
  obtain a2 v2 where 2: "(if pos > - 1 then insert_entry ?o x (nat pos) (a1, v1) else (a1, v1)) = (a2, v2)"
    by fastforce
  have s2: "length a2 = 96 \<and> length v2 = 96 \<and> window_ok (\<lambda>i. v2 ! (?o + i)) \<and>
      (\<forall>j < 16. v2 ! (?o + j) \<in> {v1 ! (?o + k) | k. k < 16} \<union> {x}) \<and> (\<forall>q < 96. q div 16 \<noteq> c \<longrightarrow> v2 ! q = v1 ! q)"
  proof (cases "pos > - 1")
    case True
    then obtain p where p: "p < 16" "pos = int p" "x < v1 ! (?o + p)" "\<forall>j < p. v1 ! (?o + j) \<le> x"
      using insert_position_spec [of "\<lambda>i. v1 ! (?o + i)" x] s1 unfolding pos_def by auto
    then have "insert_entry ?o x p (a1, v1) = (a2, v2)" using 2 by simp
    from insert_entry_spec [OF _ _ assms(2) p(1) _ p(3,4) this] s1 show ?thesis by blast
  next
    case False
    then show ?thesis using 2 s1 by auto
  qed
  have w1: "length a1 = 96" "length v1 = 96" "window_ok (\<lambda>i. v1 ! (?o + i))" using s1 by blast+
  note e1 = age_loop_entries [OF ok(1,2) assms(2) 1]
  note e2 = insert_step_entries [OF w1(1,2) assms(2) w1(3) pos_def 2]
  define med where "med = (if frame_counter self > 2 then v2 ! (?o + 2) else if frame_counter self > 0 then v2 ! ?o else 1600)"
  define al where "al = (if frame_counter self > 0 then if med < mean_value self ! c then kSmoothingDown else kSmoothingUp else 0)"
  have R: "m = to_i16 (shr (to_i32 (to_i32 (to_i32 ((al + 1) * mean_value self ! c) + (32767 - al) * med) + 16384)) 15)"
    "self' = self\<lparr>index_vector := a2, low_value_vector := v2, mean_value := (mean_value self)[c := m]\<rparr>"
    using F unfolding WebRtcVad_FindMinimum_def Let_def 1 case_prod_conv pos_def [symmetric] 2
      med_def [symmetric] al_def [symmetric] by auto
  show "\<exists>a v mv. self' = self\<lparr>index_vector := a, low_value_vector := v, mean_value := mv\<rparr>" using R(2) by blast
  show im: "is_i16 m" by (simp add: R(1))
  show "entries c self' = insert_min x (aged (entries c self))"
    using conjunct1 [OF e1] conjunct1 [OF e2] by (simp add: entries_def R(2))
  show "sorted (map fst (aged (entries c self)))"
    unfolding entries_def conjunct1 [OF e1, symmetric] map_fst_zip_chan [OF w1(1,2) assms(2)]
    by (rule window_ok_sorted(1) [OF w1(2) assms(2) w1(3)])
  show "entries d self' = entries d self" if "d < 6" "d \<noteq> c" for d
  proof -
    have "a2 ! q = index_vector self ! q \<and> v2 ! q = low_value_vector self ! q" if "q < 96" "q div 16 = d" for q
      using conjunct2 [OF e1] conjunct2 [OF e2] that \<open>d \<noteq> c\<close> by simp
    then have "zip_chan d (a2, v2) = zip_chan d (index_vector self, low_value_vector self)"
      using s2 ok(1,2) \<open>d < 6\<close> by (intro zip_chan_cong) simp_all
    then show ?thesis by (simp add: entries_def R(2))
  qed
  have sub: "set (chan c v2) \<subseteq> set (chan c (low_value_vector self)) \<union> {x, 10000}"
  proof -
    have "{v2 ! (?o + k) | k. k < 16} \<subseteq> {v1 ! (?o + k) | k. k < 16} \<union> {x}" using s2 by blast
    moreover have "{v1 ! (?o + k) | k. k < 16} \<subseteq> {low_value_vector self ! (?o + k) | k. k < 16} \<union> {10000}"
      using s1 by blast
    ultimately show ?thesis using s2 ok(2) assms(2) by (simp add: set_chan) blast
  qed
  then show "set (chan c (low_value_vector self')) \<subseteq> set (chan c (low_value_vector self)) \<union> {x, 10000}"
    by (simp add: R(2))
  show "sorted (chan c (low_value_vector self'))" using s2 window_ok_sorted(1) [of v2 c] assms(2) by (simp add: R(2))
  have keep: "v2 ! q = low_value_vector self ! q" if "q < 96" "q div 16 \<noteq> c" for q using that s1 s2 by simp
  have kc: "v2 ! (16 * d + i) = low_value_vector self ! (16 * d + i)" if "d < 6" "d \<noteq> c" "i < 16" for d i
  proof (rule keep)
    have "(16 * d + i) div 16 = d" using that(3) by simp
    then show "(16 * d + i) div 16 \<noteq> c" using that(2) by simp
  qed (use that in simp)
  show "chan d (low_value_vector self') = chan d (low_value_vector self)" if "d < 6" "d \<noteq> c" for d
    using that s2 ok(2) kc by (intro nth_equalityI) (simp_all add: R(2) length_chan chan_nth)
  have i16: "is_i16 y" if "y \<in> set (chan c v2)" for y
  proof -
    have "set (chan c (low_value_vector self)) \<subseteq> set (low_value_vector self)"
      by (auto simp: chan_def slice_def dest: in_set_takeD in_set_dropD)
    then have "y \<in> set (low_value_vector self) \<or> y = x \<or> y = 10000" using sub that by blast
    then show ?thesis using ok(5) assms(3) by (auto simp: all_i16_def) (simp add: is_i16_def)
  qed
  have "all_i16 v2"
    unfolding all_i16_def
  proof
    fix y assume "y \<in> set v2"
    then obtain q where q: "q < 96" "y = v2 ! q" using s2 by (auto simp: in_set_conv_nth)
    show "is_i16 y"
    proof (cases "q div 16 = c")
      case True
      then have "q = 16 * c + q mod 16" by (metis div_mult_mod_eq mult.commute)
      then have "y \<in> set (chan c v2)" using q s2 assms(2) by (auto simp: set_chan intro!: exI [of _ "q mod 16"])
      then show ?thesis by (rule i16)
    next
      case False
      then show ?thesis using q keep all_i16_nth [OF ok(5)] ok(2) by simp
    qed
  qed
  moreover have "window_ok (\<lambda>i. v2 ! (16 * d + i))" if "d < 6" for d
    using that s2 ok(6) [of d] kc [of d] window_ok_cong [of "\<lambda>i. v2 ! (16 * d + i)"] by (cases "d = c") auto
  ultimately show "tracker_ok self'"
    using s2 ok im by (simp add: tracker_ok_def R(2) all_i16_update)
  have "med \<in> set (chan c v2) \<union> {1600}"
    using s2 assms(2) by (auto simp: med_def set_chan intro: exI [of _ 2] exI [of _ 0])
  moreover from this have "is_i16 med" using i16 by (auto simp: is_i16_def)
  then have mb: "min (mean_value self ! c) med \<le> m \<and> m \<le> max (mean_value self ! c) med"
    unfolding R(1) using all_i16_nth [OF ok(4)] ok(3) assms(2)
    by (intro conjI smooth_bounds) (auto simp: al_def kSmoothingDown_def kSmoothingUp_def)
  moreover have "med = (if frame_counter self > 2 then chan c v2 ! 2 else if frame_counter self > 0 then chan c v2 ! 0 else 1600)"
    using s2 assms(2) chan_nth [of v2 c 2] chan_nth [of v2 c 0] by (simp add: med_def)
  with mb show "let vs = chan c (low_value_vector self');
           med = (if frame_counter self > 2 then vs ! 2 else if frame_counter self > 0 then vs ! 0 else 1600)
         in min (mean_value self ! c) med \<le> m \<and> m \<le> max (mean_value self ! c) med"
    by (simp add: R(2))
  ultimately show "\<exists>med \<in> set (chan c (low_value_vector self')) \<union> {1600}.
      min (mean_value self ! c) med \<le> m \<and> m \<le> max (mean_value self ! c) med"
    by (auto simp: R(2))
qed

text \<open>C3: \<open>WebRtcVad_FindMinimum\<close> does to a channel's sixteen (value, age) entries exactly this. First they
  are \<open>aged\<close>: an entry of age 100 leaves, the larger ones move down and (10000, 101) fills up; every other
  entry grows one older, except one that moves into the place of a removed one, which the loop passes over.
  Then the new feature enters with age 1 behind the values not above it, and the last of the seventeen
  leaves; so the values kept are the sixteen smallest of the aged ones and the new one, in order. The other
  channels keep values and ages, and the result lies between the channel's previous mean and the third
  smallest value (the smallest while the frame counter is 1 or 2, and 1600 while it is 0).\<close>

theorem find_minimum_correct:
  assumes "tracker_ok self" and "c < 6" and "is_i16 x"
  shows "case WebRtcVad_FindMinimum self x c of (m, self') \<Rightarrow>
    let old = aged (entries c self);
        vs = chan c (low_value_vector self');
        med = (if frame_counter self > 2 then vs ! 2 else if frame_counter self > 0 then vs ! 0 else 1600)
    in tracker_ok self' \<and>
       entries c self' = take 16 (takeWhile (\<lambda>e. fst e \<le> x) old @ (x, 1) # dropWhile (\<lambda>e. fst e \<le> x) old) \<and>
       vs = take 16 (sort (x # map fst old)) \<and> sorted vs \<and>
       set vs \<subseteq> set (chan c (low_value_vector self)) \<union> {x, 10000} \<and>
       (\<forall>d < 6. d \<noteq> c \<longrightarrow> entries d self' = entries d self) \<and>
       min (mean_value self ! c) med \<le> m \<and> m \<le> max (mean_value self ! c) med"
proof -
  obtain m self' where F: "WebRtcVad_FindMinimum self x c = (m, self')" by fastforce
  note sp = FindMinimum_spec [OF assms F]
  have "length (index_vector self') = 96" "length (low_value_vector self') = 96"
    using sp(1) by (simp_all add: tracker_ok_def)
  then have "chan c (low_value_vector self') = map fst (entries c self')"
    using assms(2) by (simp add: entries_def map_fst_zip_chan)
  also have "\<dots> = take 16 (sort (x # map fst (aged (entries c self))))"
    unfolding sp(8) by (rule insert_min_values [OF sp(10)])
  finally have vs: "chan c (low_value_vector self') = take 16 (sort (x # map fst (aged (entries c self))))" .
  show ?thesis unfolding F prod.case Let_def
    using sp(1,3,4,9) sp(8) [unfolded insert_min_def] sp(11) [unfolded Let_def] vs by blast
qed


lemma tracker_ok_start: "tracker_ok vad_start"
proof -
  have "all_i16 (replicate n (1600 :: int))" "all_i16 (replicate n (10000 :: int))" for n
    by (auto simp: all_i16_def is_i16_def)
  then show ?thesis
    by (simp add: tracker_ok_def vad_start_def WebRtcVad_InitCore_def WebRtcVad_set_mode_core_def
        kDefaultMode_def kNumChannels_def window_ok_def)
qed

theorem find_minimum_correct_witness:
  "case WebRtcVad_FindMinimum vad_start 500 5 of (m, self') \<Rightarrow> tracker_ok self' \<and>
     entries 5 self' = (500, 1) # replicate 15 (10000, 1) \<and> entries 0 self' = replicate 16 (10000, 0)"
proof -
  have e: "entries 5 vad_start = replicate 16 (10000, 0)" "entries 0 vad_start = replicate 16 (10000, 0)"
    by (simp_all add: entries_def zip_chan_def chan_def slice_def vad_start_def WebRtcVad_InitCore_def
        WebRtcVad_set_mode_core_def kDefaultMode_def kNumChannels_def zip_replicate)
  have a: "aged (replicate 16 (10000, 0)) = replicate 16 (10000, 1)"
    by (simp add: aged_no_removal to_i16_id is_i16_def)
  show ?thesis
    using find_minimum_correct [OF tracker_ok_start, of 5 500]
    unfolding Let_def e a by (auto simp: is_i16_def e numeral_eq_Suc)
qed

end
