(* ===== verification/VadCore.thy ===== *)
theory VadCore
  imports VadFeatures
begin

text \<open>
  The decision of the voice activity detector: the Gaussian mixture test, the adaptation of the two
  models, the hangover and the entry points for the four sampling rates (\<open>vad_core.c\<close>), and the
  public interface (\<open>webrtc_vad.c\<close>). \<open>GmmProbability\<close> is split along its blocks: thresholds,
  test of one channel, update of one Gaussian, separation of the models, hangover.
\<close>

section \<open>The mixture test\<close>

text \<open>\<open>data\<close> and \<open>weights\<close> point at the channel's first entry. Result: the average and the array.\<close>

definition WeightedAverage :: "int list \<Rightarrow> nat \<Rightarrow> int \<Rightarrow> int list \<Rightarrow> int \<times> int list" where
  "WeightedAverage xs channel offset weights =
     fold (\<lambda>k (weighted_average, xs).
         let p = channel + k * kNumChannels;
             xs = xs[p := to_i16 (xs ! p + offset)]
         in (to_i32 (weighted_average + xs ! p * weights ! p), xs))
       [0..<kNumGaussians] (0, xs)"

definition OverflowingMulS16ByS32ToS32 :: "int \<Rightarrow> int \<Rightarrow> int" where
  "OverflowingMulS16ByS32ToS32 a b = to_i32 (a * b)"

text \<open>\<open>(overhead1, overhead2, individualTest, totalTest)\<close> for the frame length.\<close>

definition gmm_thresholds :: "VadInstT \<Rightarrow> nat \<Rightarrow> int \<times> int \<times> int \<times> int" where
  "gmm_thresholds self frame_length =
     (let i = (if frame_length = 80 then 0 else if frame_length = 160 then 1 else 2)
      in (over_hang_max_1 self ! i, over_hang_max_2 self ! i, individual self ! i, vad_total self ! i))"

text \<open>The local variables the test of the channels fills.\<close>

record gmm_locals =
  deltaN :: "int list"
  deltaS :: "int list"
  ngprvec :: "int list"
  sgprvec :: "int list"
  sum_log_likelihood_ratios :: int
  vadflag :: int

text \<open>The inner loop over the Gaussians: \<open>(h0_test, h1_test, noise_probability, speech_probability,
  deltaN, deltaS)\<close>.\<close>

definition gmm_likelihoods :: "VadInstT \<Rightarrow> int list \<Rightarrow> nat \<Rightarrow> int list \<Rightarrow> int list
    \<Rightarrow> int \<times> int \<times> int list \<times> int list \<times> int list \<times> int list" where
  "gmm_likelihoods self features channel dN dS =
     fold (\<lambda>k (h0_test, h1_test, noise_p, speech_p, dN, dS).
         let gaussian = channel + k * kNumChannels;
             (tmp1, d) = WebRtcVad_GaussianProbability (features ! channel)
                           (noise_means self ! gaussian) (noise_stds self ! gaussian);
             dN = dN[gaussian := d];
             np = to_i32 (kNoiseDataWeights ! gaussian * tmp1);
             h0_test = to_i32 (h0_test + np);
             (tmp1, d) = WebRtcVad_GaussianProbability (features ! channel)
                           (speech_means self ! gaussian) (speech_stds self ! gaussian);
             dS = dS[gaussian := d];
             sp = to_i32 (kSpeechDataWeights ! gaussian * tmp1);
             h1_test = to_i32 (h1_test + sp)
         in (h0_test, h1_test, noise_p @ [np], speech_p @ [sp], dN, dS))
       [0..<kNumGaussians] (0, 0, [], [], dN, dS)"

definition gmm_test_channel :: "VadInstT \<Rightarrow> int list \<Rightarrow> int \<Rightarrow> nat \<Rightarrow> gmm_locals \<Rightarrow> gmm_locals" where
  "gmm_test_channel self features individualTest channel L =
     (let (h0_test, h1_test, noise_p, speech_p, dN, dS) =
            gmm_likelihoods self features channel (deltaN L) (deltaS L);
          shifts_h0 = (if h0_test = 0 then 31 else WebRtcSpl_NormW32 h0_test);
          shifts_h1 = (if h1_test = 0 then 31 else WebRtcSpl_NormW32 h1_test);
          log_likelihood_ratio = to_i16 (shifts_h0 - shifts_h1);
          sum = to_i32 (sum_log_likelihood_ratios L + log_likelihood_ratio * kSpectrumWeight ! channel);
          flag = (if shl log_likelihood_ratio 2 > individualTest then 1 else vadflag L);
          h0 = to_i16 (shr h0_test 12);
          ng = (if h0 > 0
                then let tmp1 = to_i32 (to_u32 (shl (to_u32 (noise_p ! 0) AND 0xFFFFF000) 2));
                         g = to_i16 (WebRtcSpl_DivW32W16 tmp1 h0)
                     in (ngprvec L)[channel := g, channel + kNumChannels := to_i16 (16384 - g)]
                else (ngprvec L)[channel := 16384]);
          h1 = to_i16 (shr h1_test 12);
          sg = (if h1 > 0
                then let tmp1 = to_i32 (to_u32 (shl (to_u32 (speech_p ! 0) AND 0xFFFFF000) 2));
                         g = to_i16 (WebRtcSpl_DivW32W16 tmp1 h1)
                     in (sgprvec L)[channel := g, channel + kNumChannels := to_i16 (16384 - g)]
                else sgprvec L)
      in \<lparr>deltaN = dN, deltaS = dS, ngprvec = ng, sgprvec = sg, sum_log_likelihood_ratios = sum, vadflag = flag\<rparr>)"

section \<open>Adaptation of the models\<close>

text \<open>The noise mean of one Gaussian.\<close>

definition gmm_noise_mean :: "gmm_locals \<Rightarrow> int \<Rightarrow> int \<Rightarrow> nat \<Rightarrow> nat \<Rightarrow> int \<Rightarrow> int" where
  "gmm_noise_mean L feature_minimum tmp1_s16 channel k nmk =
     (let gaussian = channel + k * kNumChannels;
          nmk2 = (if vadflag L = 0
                  then let delt = to_i16 (shr (to_i32 (ngprvec L ! gaussian * deltaN L ! gaussian)) 11)
                       in to_i16 (nmk + to_i16 (shr (delt * kNoiseUpdateConst) 22))
                  else nmk);
          ndelt = to_i16 (shl feature_minimum 4 - tmp1_s16);
          nmk3 = to_i16 (nmk2 + to_i16 (shr (ndelt * kBackEta) 9));
          tmp_s16 = to_i16 (shl (int k + 5) 7);
          nmk3 = (if nmk3 < tmp_s16 then tmp_s16 else nmk3);
          tmp_s16 = to_i16 (shl (72 + int k - int channel) 7)
      in if nmk3 > tmp_s16 then tmp_s16 else nmk3)"

text \<open>The speech mean and standard deviation of one Gaussian, for a speech frame; the divisor
  \<open>ssk * 10\<close> is converted to the \<open>int16_t\<close> parameter of \<open>WebRtcSpl_DivW32W16\<close>.\<close>

definition gmm_speech_mean :: "gmm_locals \<Rightarrow> int \<Rightarrow> nat \<Rightarrow> nat \<Rightarrow> int \<Rightarrow> int" where
  "gmm_speech_mean L maxspe channel k smk =
     (let gaussian = channel + k * kNumChannels;
          delt = to_i16 (shr (to_i32 (sgprvec L ! gaussian * deltaS L ! gaussian)) 11);
          tmp_s16 = to_i16 (shr (delt * kSpeechUpdateConst) 21);
          smk2 = to_i16 (smk + shr (tmp_s16 + 1) 1);
          maxmu = to_i16 (maxspe + 640);
          smk2 = (if smk2 < kMinimumMean ! k then kMinimumMean ! k else smk2)
      in if smk2 > maxmu then maxmu else smk2)"

definition gmm_speech_std :: "gmm_locals \<Rightarrow> int \<Rightarrow> nat \<Rightarrow> int \<Rightarrow> int \<Rightarrow> int" where
  "gmm_speech_std L feature gaussian smk ssk =
     (let tmp_s16 = to_i16 (shr (smk + 4) 3);
          tmp_s16 = to_i16 (feature - tmp_s16);
          tmp1_s32 = shr (to_i32 (deltaS L ! gaussian * tmp_s16)) 3;
          tmp2_s32 = to_i32 (tmp1_s32 - 4096);
          tmp_s16 = shr (sgprvec L ! gaussian) 2;
          tmp1_s32 = to_i32 (tmp_s16 * tmp2_s32);
          tmp2_s32 = shr tmp1_s32 4;
          tmp_s16 = (if tmp2_s32 > 0
                     then to_i16 (WebRtcSpl_DivW32W16 tmp2_s32 (to_i16 (ssk * 10)))
                     else to_i16 (- to_i16 (WebRtcSpl_DivW32W16 (to_i32 (- tmp2_s32)) (to_i16 (ssk * 10)))));
          tmp_s16 = to_i16 (tmp_s16 + 128);
          ssk = to_i16 (ssk + shr tmp_s16 8)
      in if ssk < kMinStd then kMinStd else ssk)"

definition gmm_noise_std :: "gmm_locals \<Rightarrow> int \<Rightarrow> nat \<Rightarrow> int \<Rightarrow> int \<Rightarrow> int" where
  "gmm_noise_std L feature gaussian nmk nsk =
     (let tmp_s16 = to_i16 (feature - shr nmk 3);
          tmp1_s32 = shr (to_i32 (deltaN L ! gaussian * tmp_s16)) 3;
          tmp1_s32 = to_i32 (tmp1_s32 - 4096);
          tmp_s16 = to_i16 (shr (ngprvec L ! gaussian + 2) 2);
          tmp2_s32 = OverflowingMulS16ByS32ToS32 tmp_s16 tmp1_s32;
          tmp1_s32 = shr tmp2_s32 14;
          tmp_s16 = (if tmp1_s32 > 0
                     then to_i16 (WebRtcSpl_DivW32W16 tmp1_s32 nsk)
                     else to_i16 (- to_i16 (WebRtcSpl_DivW32W16 (to_i32 (- tmp1_s32)) nsk)));
          tmp_s16 = to_i16 (tmp_s16 + 32);
          nsk = to_i16 (nsk + shr tmp_s16 6)
      in if nsk < kMinStd then kMinStd else nsk)"

text \<open>One round of the loop over the Gaussians of a channel.\<close>

definition gmm_update_gaussian ::
    "gmm_locals \<Rightarrow> int list \<Rightarrow> int \<Rightarrow> int \<Rightarrow> int \<Rightarrow> nat \<Rightarrow> nat \<Rightarrow> VadInstT \<Rightarrow> VadInstT" where
  "gmm_update_gaussian L features feature_minimum tmp1_s16 maxspe channel k self =
     (let gaussian = channel + k * kNumChannels;
          nmk = noise_means self ! gaussian;
          smk = speech_means self ! gaussian;
          nsk = noise_stds self ! gaussian;
          ssk = speech_stds self ! gaussian;
          self = self\<lparr>noise_means := (noise_means self)[gaussian :=
                   gmm_noise_mean L feature_minimum tmp1_s16 channel k nmk]\<rparr>
      in if vadflag L \<noteq> 0
         then self\<lparr>speech_means := (speech_means self)[gaussian := gmm_speech_mean L maxspe channel k smk],
                   speech_stds := (speech_stds self)[gaussian :=
                     gmm_speech_std L (features ! channel) gaussian smk ssk]\<rparr>
         else self\<lparr>noise_stds := (noise_stds self)[gaussian :=
                     gmm_noise_std L (features ! channel) gaussian nmk nsk]\<rparr>)"

text \<open>Result of the separation: the two global means and the instance.\<close>

definition gmm_separate :: "nat \<Rightarrow> VadInstT \<Rightarrow> int \<times> int \<times> VadInstT" where
  "gmm_separate channel self =
     (let (noise_global_mean, nm) = WeightedAverage (noise_means self) channel 0 kNoiseDataWeights;
          (speech_global_mean, sm) = WeightedAverage (speech_means self) channel 0 kSpeechDataWeights;
          self = self\<lparr>noise_means := nm, speech_means := sm\<rparr>;
          diff = to_i16 (to_i16 (shr speech_global_mean 9) - to_i16 (shr noise_global_mean 9))
      in if diff < kMinimumDifference ! channel
         then let tmp_s16 = to_i16 (kMinimumDifference ! channel - diff);
                  tmp1_s16 = to_i16 (shr (13 * tmp_s16) 2);
                  tmp2_s16 = to_i16 (shr (3 * tmp_s16) 2);
                  (speech_global_mean, sm) = WeightedAverage (speech_means self) channel tmp1_s16 kSpeechDataWeights;
                  (noise_global_mean, nm) = WeightedAverage (noise_means self) channel (to_i16 (- tmp2_s16)) kNoiseDataWeights
              in (noise_global_mean, speech_global_mean, self\<lparr>noise_means := nm, speech_means := sm\<rparr>)
         else (noise_global_mean, speech_global_mean, self))"

text \<open>\<open>xs[channel + k * kNumChannels] -= d\<close> for both Gaussians.\<close>

definition lower_means :: "nat \<Rightarrow> int \<Rightarrow> int list \<Rightarrow> int list" where
  "lower_means channel d xs =
     fold (\<lambda>k xs. xs[channel + k * kNumChannels := to_i16 (xs ! (channel + k * kNumChannels) - d)])
       [0..<kNumGaussians] xs"

definition gmm_limit_means :: "nat \<Rightarrow> int \<times> int \<times> VadInstT \<Rightarrow> VadInstT" where
  "gmm_limit_means channel s =
     (let (noise_global_mean, speech_global_mean, self) = s;
          maxspe = kMaximumSpeech ! channel;
          tmp2_s16 = to_i16 (shr speech_global_mean 7);
          self = (if tmp2_s16 > maxspe
                  then self\<lparr>speech_means := lower_means channel (to_i16 (tmp2_s16 - maxspe)) (speech_means self)\<rparr>
                  else self);
          tmp2_s16 = to_i16 (shr noise_global_mean 7)
      in if tmp2_s16 > kMaximumNoise ! channel
         then self\<lparr>noise_means := lower_means channel (to_i16 (tmp2_s16 - kMaximumNoise ! channel)) (noise_means self)\<rparr>
         else self)"

text \<open>One round of the update loop; \<open>maxspe\<close> is the limit of the channel before (12800 for the first).\<close>

definition gmm_update_channel :: "gmm_locals \<Rightarrow> int list \<Rightarrow> nat \<Rightarrow> VadInstT \<times> int \<Rightarrow> VadInstT \<times> int" where
  "gmm_update_channel L features channel s =
     (let (self, maxspe) = s;
          (feature_minimum, self) = WebRtcVad_FindMinimum self (features ! channel) channel;
          (noise_global_mean, nm) = WeightedAverage (noise_means self) channel 0 kNoiseDataWeights;
          self = self\<lparr>noise_means := nm\<rparr>;
          tmp1_s16 = to_i16 (shr noise_global_mean 6);
          self = fold (gmm_update_gaussian L features feature_minimum tmp1_s16 maxspe channel)
                   [0..<kNumGaussians] self
      in (gmm_limit_means channel (gmm_separate channel self), kMaximumSpeech ! channel))"

section \<open>Decision and hangover\<close>

definition gmm_hangover :: "int \<Rightarrow> int \<Rightarrow> int \<Rightarrow> VadInstT \<Rightarrow> int \<times> VadInstT" where
  "gmm_hangover overhead1 overhead2 flag self =
     (if flag = 0
      then let (flag, self) = (if over_hang self > 0
                 then (to_i16 (2 + over_hang self), self\<lparr>over_hang := to_i16 (over_hang self - 1)\<rparr>)
                 else (flag, self))
           in (flag, self\<lparr>num_of_speech := 0\<rparr>)
      else let self = self\<lparr>num_of_speech := to_i16 (num_of_speech self + 1)\<rparr>
           in if num_of_speech self > kMaxSpeechFrames
              then (flag, self\<lparr>num_of_speech := kMaxSpeechFrames, over_hang := overhead2\<rparr>)
              else (flag, self\<lparr>over_hang := overhead1\<rparr>))"

text \<open>The contents of \<open>deltaN\<close> and \<open>deltaS\<close> before they are assigned do not matter.\<close>

definition gmm_start :: gmm_locals where
  "gmm_start = \<lparr>deltaN = replicate kTableSize 0, deltaS = replicate kTableSize 0,
     ngprvec = replicate kTableSize 0, sgprvec = replicate kTableSize 0,
     sum_log_likelihood_ratios = 0, vadflag = 0\<rparr>"

definition gmm_test :: "VadInstT \<Rightarrow> int list \<Rightarrow> int \<Rightarrow> int \<Rightarrow> gmm_locals" where
  "gmm_test self features individualTest totalTest =
     (let L = fold (gmm_test_channel self features individualTest) [0..<kNumChannels] gmm_start
      in L\<lparr>vadflag := vadflag L OR (if sum_log_likelihood_ratios L \<ge> totalTest then 1 else 0)\<rparr>)"

definition gmm_adapt :: "gmm_locals \<Rightarrow> int list \<Rightarrow> VadInstT \<Rightarrow> VadInstT" where
  "gmm_adapt L features self =
     (let (self, maxspe) = fold (gmm_update_channel L features) [0..<kNumChannels] (self, 12800)
      in self\<lparr>frame_counter := to_i32 (frame_counter self + 1)\<rparr>)"

definition GmmProbability :: "VadInstT \<Rightarrow> int list \<Rightarrow> int \<Rightarrow> nat \<Rightarrow> int \<times> VadInstT" where
  "GmmProbability self features total_power frame_length =
     (let (overhead1, overhead2, individualTest, totalTest) = gmm_thresholds self frame_length;
          (flag, self) =
            (if total_power > kMinEnergy
             then let L = gmm_test self features individualTest totalTest
                  in (vadflag L, gmm_adapt L features self)
             else (0, self))
      in gmm_hangover overhead1 overhead2 flag self)"

definition WebRtcVad_CalcVad8khz :: "VadInstT \<Rightarrow> int list \<Rightarrow> nat \<Rightarrow> int \<times> VadInstT" where
  "WebRtcVad_CalcVad8khz inst speech_frame frame_length =
     (let (total_power, feature_vector, inst) = WebRtcVad_CalculateFeatures inst speech_frame frame_length;
          (v, inst) = GmmProbability inst feature_vector total_power frame_length
      in (v, inst\<lparr>vad := v\<rparr>))"

definition WebRtcVad_CalcVad16khz :: "VadInstT \<Rightarrow> int list \<Rightarrow> nat \<Rightarrow> int \<times> VadInstT" where
  "WebRtcVad_CalcVad16khz inst speech_frame frame_length =
     (let (speechNB, s) = WebRtcVad_Downsampling speech_frame (take 2 (downsampling_filter_states inst)) frame_length;
          inst = inst\<lparr>downsampling_filter_states := blit 0 s (downsampling_filter_states inst)\<rparr>;
          len = frame_length div 2
      in WebRtcVad_CalcVad8khz inst speechNB len)"

definition WebRtcVad_CalcVad32khz :: "VadInstT \<Rightarrow> int list \<Rightarrow> nat \<Rightarrow> int \<times> VadInstT" where
  "WebRtcVad_CalcVad32khz inst speech_frame frame_length =
     (let (speechWB, s) = WebRtcVad_Downsampling speech_frame (drop 2 (downsampling_filter_states inst)) frame_length;
          inst = inst\<lparr>downsampling_filter_states := blit 2 s (downsampling_filter_states inst)\<rparr>;
          len = frame_length div 2;
          (speechNB, s) = WebRtcVad_Downsampling speechWB (take 2 (downsampling_filter_states inst)) len;
          inst = inst\<lparr>downsampling_filter_states := blit 0 s (downsampling_filter_states inst)\<rparr>;
          len = len div 2
      in WebRtcVad_CalcVad8khz inst speechNB len)"

text \<open>Every 10 ms block is resampled from the start of \<open>speech_frame\<close>: the source does not advance
  the pointer.\<close>

definition WebRtcVad_CalcVad48khz :: "VadInstT \<Rightarrow> int list \<Rightarrow> nat \<Rightarrow> int \<times> VadInstT" where
  "WebRtcVad_CalcVad48khz inst speech_frame frame_length =
     (let num_10ms_frames = frame_length div 480;
          (speech_nb, inst, tmp_mem) = fold (\<lambda>i (speech_nb, inst, tmp_mem).
              let (out, st, tmp_mem) = WebRtcSpl_Resample48khzTo8khz speech_frame (state_48_to_8 inst) tmp_mem
              in (blit (i * 80) out speech_nb, inst\<lparr>state_48_to_8 := st\<rparr>, tmp_mem))
            [0..<num_10ms_frames] (replicate 240 0, inst, replicate (480 + 256) 0)
      in WebRtcVad_CalcVad8khz inst speech_nb (frame_length div 6))"

section \<open>The public interface\<close>

definition kValidRates :: "int list" where "kValidRates = [8000, 16000, 32000, 48000]"
definition kMaxFrameLengthMs :: int where "kMaxFrameLengthMs = 30"

text \<open>\<open>fresh\<close> is the memory \<open>malloc\<close> returns, of unspecified contents.\<close>

definition WebRtcVad_Create :: "VadInstT \<Rightarrow> VadInstT" where
  "WebRtcVad_Create fresh = fresh\<lparr>init_flag := 0\<rparr>"

definition WebRtcVad_Init :: "VadInstT option \<Rightarrow> int \<times> VadInstT option" where
  "WebRtcVad_Init handle = WebRtcVad_InitCore handle"

definition WebRtcVad_set_mode :: "VadInstT option \<Rightarrow> int \<Rightarrow> int \<times> VadInstT option" where
  "WebRtcVad_set_mode handle mode =
     (case handle of None \<Rightarrow> (- 1, None)
      | Some self \<Rightarrow>
          if init_flag self \<noteq> kInitCheck then (- 1, Some self)
          else let (r, self) = WebRtcVad_set_mode_core self mode in (r, Some self))"

fun valid_length :: "int \<Rightarrow> int \<Rightarrow> int list \<Rightarrow> int" where
  "valid_length rate frame_length [] = - 1"
| "valid_length rate frame_length (ms # mss) =
     (if frame_length = c_div rate 1000 * ms then 0 else valid_length rate frame_length mss)"

fun valid_rate :: "int \<Rightarrow> nat \<Rightarrow> int list \<Rightarrow> int" where
  "valid_rate rate frame_length [] = - 1"
| "valid_rate rate frame_length (r # rs) =
     (if r = rate then valid_length r (int frame_length) [10, 20, 30]
      else valid_rate rate frame_length rs)"

definition WebRtcVad_ValidRateAndFrameLength :: "int \<Rightarrow> nat \<Rightarrow> int" where
  "WebRtcVad_ValidRateAndFrameLength rate frame_length = valid_rate rate frame_length kValidRates"

definition WebRtcVad_Process ::
    "VadInstT option \<Rightarrow> int \<Rightarrow> int list option \<Rightarrow> nat \<Rightarrow> int \<times> VadInstT option" where
  "WebRtcVad_Process handle fs audio_frame frame_length =
     (case handle of None \<Rightarrow> (- 1, None)
      | Some self \<Rightarrow>
          if init_flag self \<noteq> kInitCheck then (- 1, Some self)
          else case audio_frame of None \<Rightarrow> (- 1, Some self)
          | Some frame \<Rightarrow>
              if WebRtcVad_ValidRateAndFrameLength fs frame_length \<noteq> 0 then (- 1, Some self)
              else let (v, self) =
                         (if fs = 48000 then WebRtcVad_CalcVad48khz self frame frame_length
                          else if fs = 32000 then WebRtcVad_CalcVad32khz self frame frame_length
                          else if fs = 16000 then WebRtcVad_CalcVad16khz self frame frame_length
                          else if fs = 8000 then WebRtcVad_CalcVad8khz self frame frame_length
                          else (- 1, self));
                       v = (if v > 0 then 1 else v)
                   in (v, Some self))"


section \<open>The invariant of an initialised instance\<close>

definition all_std :: "int list \<Rightarrow> bool" where
  "all_std xs \<longleftrightarrow> (\<forall>s \<in> set xs. 378 \<le> s \<and> s \<le> 32767)"

definition gmm_ok :: "VadInstT \<Rightarrow> bool" where
  "gmm_ok self \<longleftrightarrow> length (noise_means self) = 12 \<and> length (speech_means self) = 12 \<and>
     length (noise_stds self) = 12 \<and> length (speech_stds self) = 12 \<and>
     all_i16 (noise_means self) \<and> all_i16 (speech_means self) \<and>
     all_std (noise_stds self) \<and> all_std (speech_stds self)"

definition filters_ok :: "VadInstT \<Rightarrow> bool" where
  "filters_ok self \<longleftrightarrow> length (upper_state self) = 5 \<and> length (lower_state self) = 5 \<and>
     length (hp_filter_state self) = 4 \<and> length (downsampling_filter_states self) = 4 \<and>
     ok_48_8 (state_48_to_8 self)"

definition mode_ok :: "VadInstT \<Rightarrow> bool" where
  "mode_ok self \<longleftrightarrow> length (over_hang_max_1 self) = 3 \<and> length (over_hang_max_2 self) = 3 \<and>
     length (individual self) = 3 \<and> length (vad_total self) = 3 \<and>
     (\<forall>x \<in> set (over_hang_max_1 self) \<union> set (over_hang_max_2 self). 2 \<le> x \<and> x \<le> 14)"

definition count_ok :: "VadInstT \<Rightarrow> bool" where
  "count_ok self \<longleftrightarrow> 0 \<le> over_hang self \<and> over_hang self \<le> 14 \<and>
     0 \<le> num_of_speech self \<and> num_of_speech self \<le> 6 \<and> init_flag self = kInitCheck"

definition vad_ok :: "VadInstT \<Rightarrow> bool" where
  "vad_ok self \<longleftrightarrow> tracker_ok self \<and> gmm_ok self \<and> filters_ok self \<and> mode_ok self \<and> count_ok self"

lemmas ok_defs = tracker_ok_def gmm_ok_def filters_ok_def mode_ok_def count_ok_def

lemma vad_ok_update [simp]:
  "vad_ok (self\<lparr>vad := v\<rparr>) = vad_ok self"
  "vad_ok (self\<lparr>frame_counter := f\<rparr>) = vad_ok self"
  by (simp_all add: vad_ok_def ok_defs)

lemma set_mode_core_ok:
  assumes "tracker_ok self" "gmm_ok self" "filters_ok self" "count_ok self" "mode \<in> {0, 1, 2, 3}"
  shows "fst (WebRtcVad_set_mode_core self mode) = 0 \<and> vad_ok (snd (WebRtcVad_set_mode_core self mode))"
  using assms
  by (auto simp: WebRtcVad_set_mode_core_def vad_ok_def ok_defs kOverHangMax1Q_def kOverHangMax2Q_def
      kLocalThresholdQ_def kGlobalThresholdQ_def kOverHangMax1LBR_def kOverHangMax2LBR_def
      kLocalThresholdLBR_def kGlobalThresholdLBR_def kOverHangMax1AGG_def kOverHangMax2AGG_def
      kLocalThresholdAGG_def kGlobalThresholdAGG_def kOverHangMax1VAG_def kOverHangMax2VAG_def
      kLocalThresholdVAG_def kGlobalThresholdVAG_def)

lemma set_mode_core_error:
  "mode \<notin> {0, 1, 2, 3} \<Longrightarrow> WebRtcVad_set_mode_core self mode = (- 1, self)"
  by (simp add: WebRtcVad_set_mode_core_def)

lemma InitCore_ok: "\<exists>self'. WebRtcVad_InitCore (Some self) = (0, Some self') \<and> vad_ok self'"
proof -
  have "all_i16 (replicate n (1600 :: int))" "all_i16 (replicate n (10000 :: int))" for n
    by (auto simp: all_i16_def is_i16_def)
  then show ?thesis
    by (auto simp: WebRtcVad_InitCore_def WebRtcVad_set_mode_core_def kDefaultMode_def vad_ok_def ok_defs
        kNumChannels_def window_ok_def kNoiseDataMeans_def kSpeechDataMeans_def kNoiseDataStds_def
        kSpeechDataStds_def all_std_def ok_48_8_reset kInitCheck_def kOverHangMax1Q_def kOverHangMax2Q_def
        kLocalThresholdQ_def kGlobalThresholdQ_def all_i16_def is_i16_def)
qed

text \<open>C38: \<open>WebRtcVad_Init\<close> turns any memory into a well-formed instance (array lengths, standard
  deviations of at least 378, sorted minimum windows, hangover tables of at most 14 frames), and
  \<open>WebRtcVad_set_mode\<close> succeeds on it exactly for the modes 0 to 3, keeping it well formed and
  leaving it untouched otherwise.\<close>

theorem vad_init_and_mode:
  "\<exists>self'. WebRtcVad_Init (Some self) = (0, Some self') \<and> vad_ok self' \<and>
     (if mode = 0 \<or> mode = 1 \<or> mode = 2 \<or> mode = 3
      then \<exists>self''. WebRtcVad_set_mode (Some self') mode = (0, Some self'') \<and> vad_ok self''
      else WebRtcVad_set_mode (Some self') mode = (- 1, Some self'))"
proof -
  obtain self' where s: "WebRtcVad_InitCore (Some self) = (0, Some self')" "vad_ok self'"
    using InitCore_ok by blast
  then have ok: "tracker_ok self'" "gmm_ok self'" "filters_ok self'" "count_ok self'"
    by (simp_all add: vad_ok_def)
  then have f: "init_flag self' = kInitCheck" by (simp add: count_ok_def)
  show ?thesis
  proof (cases "mode \<in> {0, 1, 2, 3}")
    case True
    then show ?thesis using s f set_mode_core_ok [OF ok True]
      by (auto simp: WebRtcVad_Init_def WebRtcVad_set_mode_def split_beta)
  next
    case False
    then show ?thesis using s f set_mode_core_error [OF False]
      by (auto simp: WebRtcVad_Init_def WebRtcVad_set_mode_def)
  qed
qed

section \<open>Every frame keeps the invariant\<close>

lemma WeightedAverage_ok:
  assumes "all_i16 xs"
  shows "length (snd (WeightedAverage xs c off w)) = length xs" "all_i16 (snd (WeightedAverage xs c off w))"
proof -
  have "(\<lambda>s. length (snd s) = length xs \<and> all_i16 (snd s)) (WeightedAverage xs c off w)"
    unfolding WeightedAverage_def
    by (rule fold_pres) (use assms in \<open>auto simp: Let_def all_i16_update\<close>)
  then show "length (snd (WeightedAverage xs c off w)) = length xs" "all_i16 (snd (WeightedAverage xs c off w))"
    by simp_all
qed

lemma lower_means_ok:
  "all_i16 xs \<Longrightarrow> length (lower_means c d xs) = length xs \<and> all_i16 (lower_means c d xs)"
  unfolding lower_means_def
  by (rule fold_pres [where P = "\<lambda>ys. length ys = length xs \<and> all_i16 ys"]) (simp_all add: all_i16_update)

lemma all_std_update: "all_std xs \<Longrightarrow> 378 \<le> x \<Longrightarrow> x \<le> 32767 \<Longrightarrow> all_std (xs[i := x])"
  using set_update_subset_insert [of xs i x] by (auto simp: all_std_def)

lemma gmm_noise_mean_i16: "is_i16 nmk \<Longrightarrow> is_i16 (gmm_noise_mean L m t c k nmk)"
  by (simp add: gmm_noise_mean_def Let_def)

lemma gmm_speech_mean_i16: "k < 2 \<Longrightarrow> is_i16 (gmm_speech_mean L m c k smk)"
  by (auto simp: gmm_speech_mean_def Let_def less_2_cases_iff kMinimumMean_def)
     (auto simp: is_i16_def)

lemma gmm_speech_std_bounds: "378 \<le> gmm_speech_std L f g smk ssk" "gmm_speech_std L f g smk ssk \<le> 32767"
  by (auto simp: gmm_speech_std_def Let_def kMinStd_def to_i16_bounds)

lemma gmm_noise_std_bounds: "378 \<le> gmm_noise_std L f g nmk nsk" "gmm_noise_std L f g nmk nsk \<le> 32767"
  by (auto simp: gmm_noise_std_def Let_def kMinStd_def to_i16_bounds)

lemma gmm_update_gaussian_ok:
  assumes "vad_ok self" "c < 6" "k < 2"
  shows "vad_ok (gmm_update_gaussian L fs m t ms c k self)"
proof -
  have g: "gmm_ok self" and p: "c + k * 6 < 12" using assms by (auto simp: vad_ok_def)
  then have "is_i16 (noise_means self ! (c + k * 6))" by (simp add: gmm_ok_def all_i16_nth)
  then have "gmm_ok (gmm_update_gaussian L fs m t ms c k self)"
    using g assms(3) by (simp add: gmm_update_gaussian_def Let_def gmm_ok_def kNumChannels_def
        all_i16_update all_std_update gmm_noise_mean_i16 gmm_speech_mean_i16
        gmm_speech_std_bounds gmm_noise_std_bounds)
  moreover have "tracker_ok (gmm_update_gaussian L fs m t ms c k self)"
    "filters_ok (gmm_update_gaussian L fs m t ms c k self)" "mode_ok (gmm_update_gaussian L fs m t ms c k self)"
    "count_ok (gmm_update_gaussian L fs m t ms c k self)"
    using assms(1) by (simp_all add: vad_ok_def tracker_ok_def filters_ok_def mode_ok_def count_ok_def
        gmm_update_gaussian_def Let_def)
  ultimately show ?thesis by (simp add: vad_ok_def)
qed


lemma vad_ok_means:
  assumes "vad_ok self" "length nm = 12" "length sm = 12" "all_i16 nm" "all_i16 sm"
  shows "vad_ok (self\<lparr>noise_means := nm, speech_means := sm\<rparr>)"
  using assms by (simp add: vad_ok_def ok_defs)

lemma vad_ok_noise_means: "vad_ok self \<Longrightarrow> length nm = 12 \<Longrightarrow> all_i16 nm \<Longrightarrow> vad_ok (self\<lparr>noise_means := nm\<rparr>)"
  by (simp add: vad_ok_def ok_defs)

lemma vad_ok_speech_means: "vad_ok self \<Longrightarrow> length sm = 12 \<Longrightarrow> all_i16 sm \<Longrightarrow> vad_ok (self\<lparr>speech_means := sm\<rparr>)"
  by (simp add: vad_ok_def ok_defs)

lemma vad_okD:
  assumes "vad_ok self"
  shows "length (noise_means self) = 12" "length (speech_means self) = 12"
    "all_i16 (noise_means self)" "all_i16 (speech_means self)"
  using assms by (simp_all add: vad_ok_def gmm_ok_def)

lemma gmm_separate_ok: "vad_ok self \<Longrightarrow> vad_ok (snd (snd (gmm_separate c self)))"
  by (simp add: gmm_separate_def Let_def split_beta vad_ok_means WeightedAverage_ok vad_okD)

lemma gmm_limit_means_ok:
  assumes "vad_ok (snd (snd s))" shows "vad_ok (gmm_limit_means c s)"
proof -
  obtain n sp self where s: "s = (n, sp, self)" by (rule prod_cases3)
  define self1 where "self1 = (if to_i16 (shr sp 7) > kMaximumSpeech ! c
    then self\<lparr>speech_means := lower_means c (to_i16 (to_i16 (shr sp 7) - kMaximumSpeech ! c)) (speech_means self)\<rparr>
    else self)"
  have "vad_ok self" using assms by (simp add: s)
  then have 1: "vad_ok self1"
    by (simp add: self1_def vad_ok_speech_means lower_means_ok vad_okD)
  then show ?thesis
    unfolding s gmm_limit_means_def Let_def case_prod_conv self1_def [symmetric]
    by (simp add: vad_ok_noise_means lower_means_ok vad_okD)
qed

lemma gmm_update_channel_ok:
  assumes "vad_ok self" "c < 6" "is_i16 (fs ! c)"
  shows "vad_ok (fst (gmm_update_channel L fs c (self, ms)))"
proof -
  obtain m s1 where F: "WebRtcVad_FindMinimum self (fs ! c) c = (m, s1)" by fastforce
  have t: "tracker_ok self" using assms(1) by (simp add: vad_ok_def)
  note sp = FindMinimum_spec [OF t assms(2,3) F]
  obtain a v mv where s1: "s1 = self\<lparr>index_vector := a, low_value_vector := v, mean_value := mv\<rparr>"
    using sp(2) by blast
  have ok1: "vad_ok s1"
    using sp(1) assms(1) by (simp add: vad_ok_def gmm_ok_def filters_ok_def mode_ok_def count_ok_def s1)
  obtain w nm where W: "WeightedAverage (noise_means s1) c 0 kNoiseDataWeights = (w, nm)" by fastforce
  have ok2: "vad_ok (s1\<lparr>noise_means := nm\<rparr>)"
    using WeightedAverage_ok [OF vad_okD(3) [OF ok1], of c 0 kNoiseDataWeights] ok1
    by (simp add: W vad_ok_noise_means vad_okD)
  have "vad_ok (fold (gmm_update_gaussian L fs m (to_i16 (shr w 6)) ms c) [0..<kNumGaussians] (s1\<lparr>noise_means := nm\<rparr>))"
    by (rule fold_pres) (use ok2 assms(2) in \<open>simp_all add: gmm_update_gaussian_ok kNumGaussians_def\<close>)
  then show ?thesis
    by (simp add: gmm_update_channel_def F W Let_def gmm_limit_means_ok gmm_separate_ok)
qed

lemma gmm_test_channel_flag:
  "vadflag L \<in> {0, 1} \<Longrightarrow> vadflag (gmm_test_channel self fs t c L) \<in> {0, 1}"
  by (simp add: gmm_test_channel_def Let_def split_beta)

lemma vad_ok_counts:
  assumes "vad_ok self"
  shows "0 \<le> h \<Longrightarrow> h \<le> 14 \<Longrightarrow> 0 \<le> n \<Longrightarrow> n \<le> 6 \<Longrightarrow> vad_ok (self\<lparr>over_hang := h, num_of_speech := n\<rparr>)"
    and "0 \<le> n \<Longrightarrow> n \<le> 6 \<Longrightarrow> vad_ok (self\<lparr>num_of_speech := n\<rparr>)"
  using assms by (simp_all add: vad_ok_def tracker_ok_def gmm_ok_def filters_ok_def mode_ok_def count_ok_def)

lemma gmm_hangover_ok:
  assumes "vad_ok self" "flag \<in> {0, 1}" "2 \<le> o1" "o1 \<le> 14" "2 \<le> o2" "o2 \<le> 14"
    and "gmm_hangover o1 o2 flag self = (v, self')"
  shows "vad_ok self'" "0 \<le> v"
proof -
  have "0 \<le> over_hang self" "over_hang self \<le> 14" "0 \<le> num_of_speech self" "num_of_speech self \<le> 6"
    using assms(1) by (simp_all add: vad_ok_def count_ok_def)
  then have e: "to_i16 (2 + over_hang self) = 2 + over_hang self" "to_i16 (over_hang self - 1) = over_hang self - 1"
    "to_i16 (num_of_speech self + 1) = num_of_speech self + 1" by (simp_all add: to_i16_small)
  have b: "0 \<le> over_hang self" "over_hang self \<le> 14" "0 \<le> num_of_speech self" "num_of_speech self \<le> 6" by fact+
  consider "flag = 0" "over_hang self > 0" | "flag = 0" "over_hang self = 0" | "flag = 1" "num_of_speech self = 6"
    | "flag = 1" "num_of_speech self < 6" using assms(2) b by fastforce
  then have "vad_ok self' \<and> 0 \<le> v"
  proof cases
    case 1
    then have "v = 2 + over_hang self" "self' = self\<lparr>over_hang := over_hang self - 1, num_of_speech := 0\<rparr>"
      using assms(7) by (simp_all add: gmm_hangover_def e)
    then show ?thesis using vad_ok_counts(1) [OF assms(1)] b 1 by simp
  next
    case 2
    then have "v = 0" "self' = self\<lparr>num_of_speech := 0\<rparr>"
      using assms(7) by (simp_all add: gmm_hangover_def)
    then show ?thesis using vad_ok_counts(2) [OF assms(1)] by simp
  next
    case 3
    then have "v = 1" "self' = self\<lparr>num_of_speech := 6, over_hang := o2\<rparr>"
      using assms(7) e by (simp_all add: gmm_hangover_def Let_def kMaxSpeechFrames_def)
    moreover have "self\<lparr>num_of_speech := 6, over_hang := o2\<rparr> = self\<lparr>over_hang := o2, num_of_speech := 6\<rparr>" by simp
    ultimately show ?thesis using vad_ok_counts(1) [OF assms(1), of o2 6] assms(5,6) by simp
  next
    case 4
    then have "v = 1" "self' = self\<lparr>num_of_speech := num_of_speech self + 1, over_hang := o1\<rparr>"
      using assms(7) e by (simp_all add: gmm_hangover_def Let_def kMaxSpeechFrames_def)
    moreover have "self\<lparr>num_of_speech := num_of_speech self + 1, over_hang := o1\<rparr>
      = self\<lparr>over_hang := o1, num_of_speech := num_of_speech self + 1\<rparr>" by simp
    ultimately show ?thesis using vad_ok_counts(1) [OF assms(1), of o1 "num_of_speech self + 1"] assms(3,4) b 4 by simp
  qed
  then show "vad_ok self'" "0 \<le> v" by simp_all
qed

lemma GmmProbability_ok:
  assumes "vad_ok self" "all_i16 fs" "length fs = 6" "GmmProbability self fs p n = (v, self')"
  shows "vad_ok self'" "0 \<le> v"
proof -
  obtain o1 o2 it tt where T: "gmm_thresholds self n = (o1, o2, it, tt)" by (metis prod_cases4)
  have o: "2 \<le> o1 \<and> o1 \<le> 14 \<and> 2 \<le> o2 \<and> o2 \<le> 14"
  proof -
    have m: "\<forall>x \<in> set (over_hang_max_1 self) \<union> set (over_hang_max_2 self). 2 \<le> x \<and> x \<le> 14"
      "length (over_hang_max_1 self) = 3" "length (over_hang_max_2 self) = 3"
      using assms(1) by (simp_all add: vad_ok_def mode_ok_def)
    then have "\<forall>i < 3. 2 \<le> over_hang_max_1 self ! i \<and> over_hang_max_1 self ! i \<le> 14"
      "\<forall>i < 3. 2 \<le> over_hang_max_2 self ! i \<and> over_hang_max_2 self ! i \<le> 14" by simp_all
    then show ?thesis using T by (auto simp: gmm_thresholds_def Let_def split: if_splits)
  qed
  define L where "L = gmm_test self fs it tt"
  have "vadflag (fold (gmm_test_channel self fs it) [0..<kNumChannels] gmm_start) \<in> {0, 1}"
  proof (rule fold_pres)
    show "vadflag gmm_start \<in> {0, 1}" by (simp add: gmm_start_def)
  qed (rule gmm_test_channel_flag)
  then have flag: "vadflag L \<in> {0, 1}" by (auto simp: L_def gmm_test_def Let_def)
  obtain s1 ms where S: "fold (gmm_update_channel L fs) [0..<kNumChannels] (self, 12800) = (s1, ms)" by fastforce
  have "vad_ok (fst (fold (gmm_update_channel L fs) [0..<kNumChannels] (self, 12800)))"
  proof (rule fold_pres)
    fix c and s :: "VadInstT \<times> int" assume "c \<in> set [0..<kNumChannels]" "vad_ok (fst s)"
    then show "vad_ok (fst (gmm_update_channel L fs c s))"
      using assms(2,3) gmm_update_channel_ok [of "fst s" c fs L "snd s"] by (simp add: kNumChannels_def all_i16_nth)
  qed (use assms(1) in simp)
  then have s1: "vad_ok (gmm_adapt L fs self)" by (simp add: S gmm_adapt_def)
  define fl s2 where "fl = (if p > kMinEnergy then vadflag L else 0)"
    and "s2 = (if p > kMinEnergy then gmm_adapt L fs self else self)"
  have "gmm_hangover o1 o2 fl s2 = (v, self')"
    using assms(4) by (simp add: GmmProbability_def T L_def fl_def s2_def Let_def split: if_splits)
  note H = this
  have "vad_ok s2" "fl \<in> {0, 1}" using s1 assms(1) flag by (auto simp: fl_def s2_def)
  then show "vad_ok self'" "0 \<le> v" using gmm_hangover_ok [OF _ _ _ _ _ _ H] o by simp_all
qed

section \<open>Features\<close>

lemma AllPassFilter_length [simp]: "length (snd (AllPassFilter xs off n c st)) = n"
proof -
  have "length (snd (fold f [0..<n] (a, []))) = n"
    if "\<And>i s. length (snd (f i s)) = Suc (length (snd s))" for f :: "nat \<Rightarrow> int \<times> int list \<Rightarrow> int \<times> int list" and a
    by (induction n) (simp_all add: that)
  then show ?thesis by (simp add: AllPassFilter_def Let_def split_beta)
qed

lemma LogOfEnergy_i16: "is_i16 off \<Longrightarrow> is_i16 (snd (LogOfEnergy xs n off t))"
  by (simp add: LogOfEnergy_def Let_def split_beta)

lemma split_band_ok: "vad_ok self \<Longrightarrow> vad_ok (fst (split_band b xs n self))"
  by (simp add: split_band_def Let_def split_beta vad_ok_def ok_defs)

lemma HighPassFilter_length: "length (fst (HighPassFilter xs n st)) = length st"
  unfolding HighPassFilter_def
  by (rule fold_pres [where P = "\<lambda>s. length (fst s) = length st"]) (auto simp: Let_def)

lemma CalculateFeatures_ok:
  assumes "vad_ok self" "WebRtcVad_CalculateFeatures self xs n = (p, fs, self')"
  shows "vad_ok self'" "all_i16 fs" "length fs = 6"
proof -
  obtain s0 h0 l0 where 0: "split_band 0 xs n self = (s0, h0, l0)" by (rule prod_cases3)
  obtain s1 h1 l1 where 1: "split_band 1 h0 (n div 2) s0 = (s1, h1, l1)" by (rule prod_cases3)
  obtain s2 h2 l2 where 2: "split_band 2 l0 (n div 2) s1 = (s2, h2, l2)" by (rule prod_cases3)
  obtain s3 h3 l3 where 3: "split_band 3 l2 (n div 2 div 2) s2 = (s3, h3, l3)" by (rule prod_cases3)
  obtain s4 h4 l4 where 4: "split_band 4 l3 (n div 2 div 2 div 2) s3 = (s4, h4, l4)" by (rule prod_cases3)
  have ok4: "vad_ok s4"
    using split_band_ok [of s3 4 l3 "n div 2 div 2 div 2"] split_band_ok [of s2 3 l2 "n div 2 div 2"]
      split_band_ok [of s1 2 l0 "n div 2"] split_band_ok [of s0 1 h0 "n div 2"] split_band_ok [OF assms(1), of 0 xs n]
    by (simp add: 0 1 2 3 4 del: One_nat_def)
  have o: "is_i16 (kOffsetVector ! i)" if "i < 6" for i
  proof -
    have "i = 0 \<or> i = 1 \<or> i = 2 \<or> i = 3 \<or> i = 4 \<or> i = 5" using that by linarith
    then show ?thesis by (auto simp: kOffsetVector_def is_i16_def)
  qed
  let ?m = "n div 2 div 2"
  obtain t5 f5 where 5: "LogOfEnergy h1 ?m (kOffsetVector ! 5) 0 = (t5, f5)" by fastforce
  obtain t6 f6 where 6: "LogOfEnergy l1 ?m (kOffsetVector ! 4) t5 = (t6, f6)" by fastforce
  obtain t7 f7 where 7: "LogOfEnergy h2 ?m (kOffsetVector ! 3) t6 = (t7, f7)" by fastforce
  obtain t8 f8 where 8: "LogOfEnergy h3 (?m div 2) (kOffsetVector ! 2) t7 = (t8, f8)" by fastforce
  obtain t9 f9 where 9: "LogOfEnergy h4 (?m div 2 div 2) (kOffsetVector ! 1) t8 = (t9, f9)" by fastforce
  obtain hs hp where hp: "HighPassFilter l4 (?m div 2 div 2) (hp_filter_state s4) = (hs, hp)" by fastforce
  obtain t10 f10 where 10: "LogOfEnergy hp (?m div 2 div 2) (kOffsetVector ! 0) t9 = (t10, f10)" by fastforce
  have "is_i16 f5 \<and> is_i16 f6 \<and> is_i16 f7 \<and> is_i16 f8 \<and> is_i16 f9 \<and> is_i16 f10"
    using LogOfEnergy_i16 [OF o, of 5 h1 ?m 0] LogOfEnergy_i16 [OF o, of 4 l1 ?m t5]
      LogOfEnergy_i16 [OF o, of 3 h2 ?m t6] LogOfEnergy_i16 [OF o, of 2 h3 "?m div 2" t7]
      LogOfEnergy_i16 [OF o, of 1 h4 "?m div 2 div 2" t8] LogOfEnergy_i16 [OF o, of 0 hp "?m div 2 div 2" t9]
    unfolding 5 6 7 8 9 10 by simp
  moreover have "length hs = length (hp_filter_state s4)"
    using HighPassFilter_length [of l4 "?m div 2 div 2" "hp_filter_state s4"] by (simp add: hp)
  moreover have "self' = s4\<lparr>hp_filter_state := hs\<rparr>" "fs = [f10, f9, f8, f7, f6, f5]"
    using assms(2) unfolding WebRtcVad_CalculateFeatures_def Let_def 0 1 2 3 4 5 6 7 8 9 10 hp case_prod_conv
    by simp_all
  ultimately have R: "self' = s4\<lparr>hp_filter_state := hs\<rparr>" "length fs = 6" "all_i16 fs"
    "length hs = length (hp_filter_state s4)" by (simp_all add: all_i16_def)
  then show "vad_ok self'" "all_i16 fs" "length fs = 6"
    using ok4 by (simp_all add: vad_ok_def tracker_ok_def gmm_ok_def filters_ok_def mode_ok_def count_ok_def)
qed


section \<open>The entry points\<close>

lemma CalcVad8khz_ok:
  assumes "vad_ok self" "WebRtcVad_CalcVad8khz self xs n = (v, self')"
  shows "vad_ok self'" "0 \<le> v"
proof -
  obtain p fs s1 where F: "WebRtcVad_CalculateFeatures self xs n = (p, fs, s1)" by (rule prod_cases3)
  obtain w s2 where G: "GmmProbability s1 fs p n = (w, s2)" by fastforce
  note f = CalculateFeatures_ok [OF assms(1) F]
  have "v = w" "self' = s2\<lparr>vad := w\<rparr>" using assms(2) by (auto simp: WebRtcVad_CalcVad8khz_def F G)
  then show "vad_ok self'" "0 \<le> v" using GmmProbability_ok [OF f(1-3) G] by simp_all
qed

lemma vad_ok_downsampling:
  assumes "vad_ok self" "length s = 2" "off \<in> {0, 2}"
  shows "vad_ok (self\<lparr>downsampling_filter_states := blit off s (downsampling_filter_states self)\<rparr>)"
  using assms by (auto simp: vad_ok_def tracker_ok_def gmm_ok_def filters_ok_def mode_ok_def count_ok_def length_blit)

lemma length_Downsampling_state: "length (snd (WebRtcVad_Downsampling xs st n)) = 2"
  by (simp add: WebRtcVad_Downsampling_def split_beta)

lemma CalcVad16khz_ok:
  assumes "vad_ok self" "WebRtcVad_CalcVad16khz self xs n = (v, self')"
  shows "vad_ok self'" "0 \<le> v"
proof -
  obtain ys s where D: "WebRtcVad_Downsampling xs (take 2 (downsampling_filter_states self)) n = (ys, s)" by fastforce
  let ?s = "self\<lparr>downsampling_filter_states := blit 0 s (downsampling_filter_states self)\<rparr>"
  have "length s = 2" using length_Downsampling_state [of xs "take 2 (downsampling_filter_states self)" n] by (simp add: D)
  then have "vad_ok ?s" using assms(1) by (intro vad_ok_downsampling) auto
  moreover have "WebRtcVad_CalcVad8khz ?s ys (n div 2) = (v, self')"
    using assms(2) by (simp add: WebRtcVad_CalcVad16khz_def D)
  ultimately show "vad_ok self'" "0 \<le> v" using CalcVad8khz_ok by blast+
qed

lemma CalcVad32khz_ok:
  assumes "vad_ok self" "WebRtcVad_CalcVad32khz self xs n = (v, self')"
  shows "vad_ok self'" "0 \<le> v"
proof -
  obtain ys s where D: "WebRtcVad_Downsampling xs (drop 2 (downsampling_filter_states self)) n = (ys, s)" by fastforce
  let ?s = "self\<lparr>downsampling_filter_states := blit 2 s (downsampling_filter_states self)\<rparr>"
  obtain zs u where E: "WebRtcVad_Downsampling ys (take 2 (downsampling_filter_states ?s)) (n div 2) = (zs, u)" by fastforce
  let ?u = "?s\<lparr>downsampling_filter_states := blit 0 u (downsampling_filter_states ?s)\<rparr>"
  have "length s = 2" using length_Downsampling_state [of xs "drop 2 (downsampling_filter_states self)" n] by (simp add: D)
  then have s: "vad_ok ?s" using assms(1) by (intro vad_ok_downsampling) auto
  have "length u = 2" using length_Downsampling_state [of ys "take 2 (downsampling_filter_states ?s)" "n div 2"]
    unfolding E by simp
  then have "vad_ok ?u" by (intro vad_ok_downsampling [OF s]) auto
  moreover have "WebRtcVad_CalcVad8khz ?u zs (n div 2 div 2) = (v, self')"
    using assms(2) unfolding WebRtcVad_CalcVad32khz_def D Let_def case_prod_conv E by simp
  ultimately show "vad_ok self'" "0 \<le> v" using CalcVad8khz_ok by blast+
qed

definition vad48_step :: "int list \<Rightarrow> nat \<Rightarrow> int list \<times> VadInstT \<times> int list \<Rightarrow> int list \<times> VadInstT \<times> int list" where
  "vad48_step xs i s =
     (let (speech_nb, inst, tmp_mem) = s;
          (out, st, tmp_mem) = WebRtcSpl_Resample48khzTo8khz xs (state_48_to_8 inst) tmp_mem
      in (blit (i * 80) out speech_nb, inst\<lparr>state_48_to_8 := st\<rparr>, tmp_mem))"

lemma CalcVad48khz_steps:
  "WebRtcVad_CalcVad48khz self xs n =
     (let (nb, inst, tmp) = fold (vad48_step xs) [0..<n div 480] (replicate 240 0, self, replicate 736 0)
      in WebRtcVad_CalcVad8khz inst nb (n div 6))"
proof -
  have "vad48_step xs = (\<lambda>i (speech_nb, inst, tmp_mem).
              let (out, st, tmp_mem) = WebRtcSpl_Resample48khzTo8khz xs (state_48_to_8 inst) tmp_mem
              in (blit (i * 80) out speech_nb, inst\<lparr>state_48_to_8 := st\<rparr>, tmp_mem))"
    by (auto simp: vad48_step_def fun_eq_iff)
  then show ?thesis by (simp add: WebRtcVad_CalcVad48khz_def)
qed

lemma CalcVad48khz_ok:
  assumes "vad_ok self" "WebRtcVad_CalcVad48khz self xs n = (v, self')"
  shows "vad_ok self'" "0 \<le> v"
proof -
  define P where "P s \<longleftrightarrow> (case s of (nb, inst, tmp) \<Rightarrow> vad_ok inst \<and> length tmp = 736 \<and> all_i32 tmp)"
    for s :: "int list \<times> VadInstT \<times> int list"
  obtain nb inst tmp where S: "fold (vad48_step xs) [0..<n div 480] (replicate 240 0, self, replicate 736 0) = (nb, inst, tmp)"
    by (rule prod_cases3)
  have "P (fold (vad48_step xs) [0..<n div 480] (replicate 240 0, self, replicate 736 0))"
  proof (rule fold_pres)
    show "P (replicate 240 0, self, replicate 736 0)" using assms(1) by (simp add: P_def)
    fix i s assume "P s"
    moreover obtain nb inst tmp where s: "s = (nb, inst, tmp)" by (rule prod_cases3)
    ultimately have p: "vad_ok inst" "length tmp = 736" "all_i32 tmp" by (simp_all add: P_def)
    obtain out st tmp' where R: "WebRtcSpl_Resample48khzTo8khz xs (state_48_to_8 inst) tmp = (out, st, tmp')"
      by (rule prod_cases3)
    have "ok_48_8 (state_48_to_8 inst)" using p(1) by (simp add: vad_ok_def filters_ok_def)
    from Resample48khzTo8khz_ok [OF this p(2,3), of xs]
    have "ok_48_8 st" "length tmp' = 736" "all_i32 tmp'" by (simp_all add: R)
    then show "P (vad48_step xs i s)"
      using p(1) by (simp add: P_def s R vad48_step_def vad_ok_def tracker_ok_def gmm_ok_def filters_ok_def mode_ok_def count_ok_def)
  qed
  then have "vad_ok inst" by (simp add: S P_def)
  moreover have "WebRtcVad_CalcVad8khz inst nb (n div 6) = (v, self')"
    using assms(2) by (simp add: CalcVad48khz_steps S)
  ultimately show "vad_ok self'" "0 \<le> v" using CalcVad8khz_ok by blast+
qed

text \<open>the accepted sampling rates and frame lengths are exactly 8, 16, 32 and 48 kHz with 10, 20
  or 30 ms.\<close>

theorem valid_rate_and_frame_length:
  "WebRtcVad_ValidRateAndFrameLength rate n =
     (if rate \<in> {8000, 16000, 32000, 48000} \<and> int n \<in> {rate div 100, 2 * (rate div 100), 3 * (rate div 100)} then 0 else - 1)"
proof -
  have "c_div 8000 1000 = 8" "c_div 16000 1000 = 16" "c_div 32000 1000 = 32" "c_div 48000 1000 = 48"
    by (simp_all add: c_div_def)
  then show ?thesis
    by (auto simp: WebRtcVad_ValidRateAndFrameLength_def kValidRates_def)
qed

lemma Process_valid:
  assumes "vad_ok self" "WebRtcVad_ValidRateAndFrameLength fs n = 0"
  shows "\<exists>self'. WebRtcVad_Process (Some self) fs (Some xs) n \<in> {(0, Some self'), (1, Some self')} \<and> vad_ok self'"
proof -
  have i: "init_flag self = kInitCheck" using assms(1) by (simp add: vad_ok_def count_ok_def)
  have "fs \<in> {8000, 16000, 32000, 48000}"
    using assms(2) by (auto simp: WebRtcVad_ValidRateAndFrameLength_def kValidRates_def split: if_splits)
  moreover obtain v s where V: "(if fs = 48000 then WebRtcVad_CalcVad48khz self xs n
       else if fs = 32000 then WebRtcVad_CalcVad32khz self xs n
       else if fs = 16000 then WebRtcVad_CalcVad16khz self xs n
       else if fs = 8000 then WebRtcVad_CalcVad8khz self xs n else (- 1, self)) = (v, s)" by fastforce
  ultimately have "vad_ok s \<and> 0 \<le> v"
    using CalcVad8khz_ok [OF assms(1), of xs n v s] CalcVad16khz_ok [OF assms(1), of xs n v s]
      CalcVad32khz_ok [OF assms(1), of xs n v s] CalcVad48khz_ok [OF assms(1), of xs n v s] by auto
  moreover have "WebRtcVad_Process (Some self) fs (Some xs) n = (if v > 0 then 1 else v, Some s)"
    using V i assms(2) by (simp add: WebRtcVad_Process_def)
  ultimately show ?thesis by (intro exI [of _ s]) auto
qed

text \<open>C2: on a well-formed instance \<open>WebRtcVad_Process\<close> returns 0 or 1 and keeps the instance well
  formed for every frame of a valid rate and length, and returns \<open>-1\<close> with the instance unchanged
  for a null frame or an invalid rate or length; without an initialised instance it returns \<open>-1\<close>.\<close>

theorem vad_process_total:
  assumes "vad_ok self"
  shows "(WebRtcVad_ValidRateAndFrameLength fs n = 0 \<longrightarrow>
      (\<exists>r self'. WebRtcVad_Process (Some self) fs (Some xs) n = (r, Some self') \<and> r \<in> {0, 1} \<and> vad_ok self')) \<and>
    (WebRtcVad_ValidRateAndFrameLength fs n \<noteq> 0 \<longrightarrow>
      WebRtcVad_Process (Some self) fs (Some xs) n = (- 1, Some self)) \<and>
    WebRtcVad_Process (Some self) fs None n = (- 1, Some self) \<and>
    WebRtcVad_Process None fs (Some xs) n = (- 1, None) \<and>
    WebRtcVad_Process (Some (WebRtcVad_Create self)) fs (Some xs) n = (- 1, Some (WebRtcVad_Create self))"
proof -
  have i: "init_flag self = kInitCheck" using assms by (simp add: vad_ok_def count_ok_def)
  show ?thesis
  proof (intro conjI impI)
    assume "WebRtcVad_ValidRateAndFrameLength fs n = 0"
    from Process_valid [OF assms this]
    show "\<exists>r self'. WebRtcVad_Process (Some self) fs (Some xs) n = (r, Some self') \<and> r \<in> {0, 1} \<and> vad_ok self'"
      by blast
  qed (use i in \<open>simp_all add: WebRtcVad_Process_def WebRtcVad_Create_def kInitCheck_def\<close>)
qed

lemma vad_ok_start: "vad_ok vad_start"
  using InitCore_ok [of vad_memory] by (auto simp: vad_start_def)

theorem vad_process_total_witness:
  "(\<exists>r self'. WebRtcVad_Process (Some vad_start) 16000 (Some (replicate 160 1000)) 160 = (r, Some self') \<and>
      r \<in> {0, 1} \<and> vad_ok self') \<and>
   WebRtcVad_Process (Some vad_start) 16000 (Some (replicate 160 1000)) 100 = (- 1, Some vad_start)"
proof -
  have "WebRtcVad_ValidRateAndFrameLength 16000 160 = 0" "WebRtcVad_ValidRateAndFrameLength 16000 100 \<noteq> 0"
    by (simp_all add: WebRtcVad_ValidRateAndFrameLength_def kValidRates_def c_div_def)
  with vad_process_total [OF vad_ok_start, of 16000 160 "replicate 160 1000"]
    vad_process_total [OF vad_ok_start, of 16000 100 "replicate 160 1000"]
  show ?thesis by blast
qed


section \<open>Hangover\<close>

text \<open>The decisions reported for a sequence of raw decisions.\<close>

fun hangover_run :: "int \<Rightarrow> int \<Rightarrow> int list \<Rightarrow> VadInstT \<Rightarrow> int list" where
  "hangover_run o1 o2 [] self = []"
| "hangover_run o1 o2 (f # fs) self =
     (let (v, self') = gmm_hangover o1 o2 f self in v # hangover_run o1 o2 fs self')"

lemma hangover_noise:
  assumes "0 \<le> over_hang self" "over_hang self \<le> 14"
  shows "map (\<lambda>v. v > 0) (hangover_run o1 o2 (replicate m 0) self)
    = map (\<lambda>j. int j < over_hang self) [0..<m]"
  using assms
proof (induction m arbitrary: self)
  case (Suc m)
  show ?case
  proof (cases "over_hang self = 0")
    case True
    let ?s = "self\<lparr>num_of_speech := 0\<rparr>"
    have "map (\<lambda>v. v > 0) (hangover_run o1 o2 (replicate m 0) ?s) = map (\<lambda>j. int j < over_hang ?s) [0..<m]"
      using Suc.prems by (intro Suc.IH) simp_all
    then show ?thesis using True
      by (simp add: gmm_hangover_def upt_conv_Cons map_Suc_upt [symmetric] comp_def del: upt_Suc)
  next
    case False
    let ?s = "self\<lparr>over_hang := over_hang self - 1, num_of_speech := 0\<rparr>"
    have "map (\<lambda>v. v > 0) (hangover_run o1 o2 (replicate m 0) ?s) = map (\<lambda>j. int j < over_hang ?s) [0..<m]"
      using Suc.prems False by (intro Suc.IH) simp_all
    moreover have "to_i16 (over_hang self - 1) = over_hang self - 1" "to_i16 (2 + over_hang self) = 2 + over_hang self"
      using Suc.prems by (simp_all add: to_i16_small)
    moreover have "(int j < over_hang self - 1) = (int (Suc j) < over_hang self)" for j by auto
    ultimately show ?thesis using False Suc.prems
      by (simp add: gmm_hangover_def upt_conv_Cons map_Suc_upt [symmetric] comp_def del: upt_Suc of_nat_Suc)
  qed
qed simp

lemma hangover_speech:
  assumes "0 \<le> num_of_speech self" "num_of_speech self \<le> 6"
  shows "\<exists>self'. hangover_run o1 o2 (replicate k 1 @ fs) self = replicate k 1 @ hangover_run o1 o2 fs self' \<and>
    num_of_speech self' = min 6 (num_of_speech self + int k) \<and>
    over_hang self' = (if k = 0 then over_hang self else if num_of_speech self + int k \<le> 6 then o1 else o2)"
  using assms
proof (induction k arbitrary: self)
  case (Suc k)
  have e: "to_i16 (num_of_speech self + 1) = num_of_speech self + 1"
    using Suc.prems by (simp add: to_i16_small)
  define s where "s = snd (gmm_hangover o1 o2 1 self)"
  have s: "gmm_hangover o1 o2 1 self = (1, s)" "num_of_speech s = min 6 (num_of_speech self + 1)"
    "over_hang s = (if num_of_speech self + 1 \<le> 6 then o1 else o2)"
    using e Suc.prems by (auto simp: s_def gmm_hangover_def Let_def kMaxSpeechFrames_def)
  then obtain s' where s': "hangover_run o1 o2 (replicate k 1 @ fs) s = replicate k 1 @ hangover_run o1 o2 fs s'"
    "num_of_speech s' = min 6 (num_of_speech s + int k)"
    "over_hang s' = (if k = 0 then over_hang s else if num_of_speech s + int k \<le> 6 then o1 else o2)"
    using Suc.IH [of s] Suc.prems by auto
  have "num_of_speech s' = min 6 (num_of_speech self + int (Suc k))"
    "over_hang s' = (if num_of_speech self + int (Suc k) \<le> 6 then o1 else o2)"
    using s(2,3) s'(2,3) by (auto simp: min_def split: if_splits)
  then show ?case using s(1) s'(1) by (intro exI [of _ s']) simp
qed auto

text \<open>C4: after a run of \<open>k\<close> frames decided speech, the first \<open>overhead1\<close> noise frames (\<open>overhead2\<close>
  when the run was longer than six frames) are still reported active, and no more than these.\<close>

theorem hangover_length:
  assumes "num_of_speech self = 0" and "0 < k" and "0 \<le> o1" and "o1 \<le> 14" and "0 \<le> o2" and "o2 \<le> 14"
  shows "map (\<lambda>v. v > 0) (hangover_run o1 o2 (replicate k 1 @ replicate m 0) self)
    = replicate k True @ map (\<lambda>j. int j < (if k \<le> 6 then o1 else o2)) [0..<m]"
proof -
  obtain s where s: "hangover_run o1 o2 (replicate k 1 @ replicate m 0) self = replicate k 1 @ hangover_run o1 o2 (replicate m 0) s"
    "over_hang s = (if k \<le> 6 then o1 else o2)"
    using hangover_speech [of self o1 o2 k "replicate m 0"] assms(1,2) by auto
  then have "0 \<le> over_hang s" "over_hang s \<le> 14" using assms(3-6) by auto
  from hangover_noise [OF this] s show ?thesis by simp
qed

theorem hangover_length_witness:
  "map (\<lambda>v. v > 0) (hangover_run 3 5 (replicate 2 1 @ replicate 4 0) vad_memory)
     = [True, True, True, True, True, False]"
  using hangover_length [of vad_memory 2 3 5 4] by (simp add: vad_memory_def upt_rec numeral_2_eq_2)

section \<open>The 48 kHz path\<close>

lemma DownBy2ShortToInt_cong:
  assumes "\<And>i. i < n \<Longrightarrow> xs ! i = ys ! i"
  shows "WebRtcSpl_DownBy2ShortToInt xs n st = WebRtcSpl_DownBy2ShortToInt ys n st"
proof -
  have e: "xs ! (2 * i) = ys ! (2 * i)" "xs ! (2 * i + 1) = ys ! (2 * i + 1)" if "i < n div 2" for i
    using that by (auto intro!: assms)
  have 1: "fold (\<lambda>i (out, state). let state = allpass_body 1 0 (short_in (xs ! (2 * i))) state
              in (out @ [shr (state ! 3) 1], state)) [0..<n div 2] s
    = fold (\<lambda>i (out, state). let state = allpass_body 1 0 (short_in (ys ! (2 * i))) state
              in (out @ [shr (state ! 3) 1], state)) [0..<n div 2] s" for s
    by (rule fold_cong) (auto simp: e)
  have 2: "fold (\<lambda>i (out, state). let state = allpass_body 0 4 (short_in (xs ! (2 * i + 1))) state
              in (out[i := to_i32 (out ! i + shr (state ! 7) 1)], state)) [0..<n div 2] s
    = fold (\<lambda>i (out, state). let state = allpass_body 0 4 (short_in (ys ! (2 * i + 1))) state
              in (out[i := to_i32 (out ! i + shr (state ! 7) 1)], state)) [0..<n div 2] s" for s
    by (rule fold_cong) (auto simp: e simp del: One_nat_def)
  show ?thesis unfolding WebRtcSpl_DownBy2ShortToInt_def Let_def
    using 1 2 by (simp add: Let_def)
qed

text \<open>C37: the decision and the new state for a 48 kHz frame depend on its first 10 ms only: a 20 or
  30 ms frame with any other continuation is treated the same, since the resampling loop never moves
  on in the frame.\<close>

theorem vad_48khz_ignores_rest:
  assumes "take 480 xs = take 480 ys" and "480 \<le> length xs" and "480 \<le> length ys"
  shows "WebRtcVad_CalcVad48khz self xs n = WebRtcVad_CalcVad48khz self ys n"
proof -
  have "xs ! i = ys ! i" if "i < 480" for i
    using assms(1) that by (metis nth_take)
  then have "WebRtcSpl_Resample48khzTo8khz xs st tmp = WebRtcSpl_Resample48khzTo8khz ys st tmp" for st tmp
    unfolding WebRtcSpl_Resample48khzTo8khz_def using DownBy2ShortToInt_cong [of 480 xs ys] by simp
  then have "vad48_step xs = vad48_step ys" by (simp add: vad48_step_def fun_eq_iff)
  then show ?thesis by (simp add: CalcVad48khz_steps)
qed

theorem vad_48khz_ignores_rest_witness:
  "WebRtcVad_CalcVad48khz vad_start (replicate 480 0 @ replicate 480 9000) 960
     = WebRtcVad_CalcVad48khz vad_start (replicate 960 0) 960"
  by (rule vad_48khz_ignores_rest) (simp_all flip: replicate_add)

end
