(* ===== verification/IsacStream.thy ===== *)
theory IsacStream
  imports Prelude
begin

text \<open>
  The byte stream of the iSAC arithmetic coder (\<open>isac/fix/source/structs.h\<close>, \<open>arith_routines.c\<close> and
  the parts the coders of \<open>arith_routines_hist.c\<close> and \<open>arith_routines_logist.c\<close> share): the stream
  records, the scaling of the interval, the propagation of a carry into bytes already written, the
  renormalisation of encoder and decoder, and the termination of a stream.

  A stream is an array of 16-bit words that holds two bytes each, the high one first; \<open>full = 0\<close> says
  that the high byte of the current word is taken. \<open>None\<close> is an access outside an array (undefined
  behaviour in C). The lemmas read the stream as one big number: the encoder keeps the lower end of an
  interval and its width, the decoder the distance of the code from the lower end.
\<close>

section \<open>Stream records\<close>

record Bitstr_enc =
  stream :: "int list"
  W_upper :: int
  streamval :: int
  stream_index :: nat
  full :: int

record Bitstr_dec = Bitstr_enc +
  stream_size :: nat

definition STREAM_MAXW16_60MS :: nat where "STREAM_MAXW16_60MS = 200"
definition INTERNAL_STREAM_SIZE_W16 :: nat where "INTERNAL_STREAM_SIZE_W16 = 305"
definition ISAC_DISALLOWED_BITSTREAM_LENGTH :: int where "ISAC_DISALLOWED_BITSTREAM_LENGTH = 6440"

text \<open>A 32-bit interval width times a 16-bit cumulative frequency, in two 16-bit halves.\<close>

definition scale_W :: "int \<Rightarrow> int \<Rightarrow> int" where
  "scale_W W cdf = (let W_upper_LSB = W AND 0x0000FFFF; W_upper_MSB = shr W 16;
       r = to_u32 (W_upper_MSB * cdf)
     in to_u32 (r + shr (to_u32 (W_upper_LSB * cdf)) 16))"

section \<open>Encoder\<close>

text \<open>\<open>while (!(++(*--ptr)))\<close>: the carry goes back until a word does not overflow.\<close>

fun carry_back :: "int list \<Rightarrow> nat \<Rightarrow> int list option" where
  "carry_back s 0 = None"
| "carry_back s (Suc p) =
     (if p < length s
      then let w = to_u16 (s ! p + 1); s = s[p := w]
           in if w = 0 then carry_back s p else Some s
      else None)"

definition propagate_carry :: "nat \<Rightarrow> Bitstr_enc \<Rightarrow> Bitstr_enc option" where
  "propagate_carry p sd =
     (if full sd = 0
      then if p < length (stream sd)
           then let negCarry = to_u16 (stream sd ! p + 0x0100); s = (stream sd)[p := negCarry]
                in map_option (\<lambda>s. sd\<lparr>stream := s\<rparr>) (if negCarry = 0 then carry_back s p else Some s)
           else None
      else map_option (\<lambda>s. sd\<lparr>stream := s\<rparr>) (carry_back (stream sd) p))"

text \<open>Store the most significant byte of \<open>streamval\<close>.\<close>

definition put_byte :: "nat \<Rightarrow> Bitstr_enc \<Rightarrow> (nat \<times> Bitstr_enc) option" where
  "put_byte p sd =
     (if p < length (stream sd)
      then if full sd = 0
           then Some (p + 1, sd\<lparr>stream := (stream sd)[p := to_u16 (stream sd ! p + to_u16 (shr (streamval sd) 24))],
                                full := 1\<rparr>)
           else Some (p, sd\<lparr>stream := (stream sd)[p := to_u16 (shl (shr (streamval sd) 24) 8)], full := 0\<rparr>)
      else None)"

definition put_left :: "nat \<Rightarrow> Bitstr_enc \<Rightarrow> nat" where
  "put_left p sd = 2 * (STREAM_MAXW16_60MS - p) + (if full sd = 0 then 0 else 1)"

text \<open>The renormalisation loop of the encoders; the first result is the return value so far.\<close>

function enc_renorm :: "int \<Rightarrow> nat \<Rightarrow> Bitstr_enc \<Rightarrow> (int \<times> int \<times> nat \<times> Bitstr_enc) option" where
  "enc_renorm W p sd =
     (if W AND 0xFF000000 = 0
      then let W = to_u32 (shl W 8)
           in case put_byte p sd of None \<Rightarrow> None
           | Some (p, sd) \<Rightarrow>
               if p > STREAM_MAXW16_60MS - 1 then Some (- ISAC_DISALLOWED_BITSTREAM_LENGTH, W, p, sd)
               else enc_renorm W p (sd\<lparr>streamval := to_u32 (shl (streamval sd) 8)\<rparr>)
      else Some (0, W, p, sd))"
  by pat_completeness auto

termination
  by (relation "measure (\<lambda>(W, p, sd). put_left p sd)")
     (auto simp: put_byte_def put_left_def STREAM_MAXW16_60MS_def split: if_splits)

declare enc_renorm.simps [simp del]

text \<open>One symbol, given by its interval of cumulative frequencies.\<close>

definition enc_symbol :: "int \<Rightarrow> int \<Rightarrow> int \<times> nat \<times> Bitstr_enc \<Rightarrow> (int \<times> int \<times> nat \<times> Bitstr_enc) option" where
  "enc_symbol cdfLo cdfHi L =
     (let (W, p, sd) = L;
          W_lower = scale_W W cdfLo;
          W = scale_W W cdfHi;
          W_lower = to_u32 (W_lower + 1);
          W = to_u32 (W - W_lower);
          sd = sd\<lparr>streamval := to_u32 (streamval sd + W_lower)\<rparr>
      in case (if streamval sd < W_lower then propagate_carry p sd else Some sd) of
           None \<Rightarrow> None
         | Some sd \<Rightarrow> enc_renorm W p sd)"

text \<open>Termination of a stream: as few bytes as the width of the interval allows.\<close>

definition WebRtcIsacfix_EncTerminate :: "Bitstr_enc \<Rightarrow> (int \<times> Bitstr_enc) option" where
  "WebRtcIsacfix_EncTerminate sd =
     (let p = stream_index sd
      in if W_upper sd > 0x01FFFFFF
         then let sd = sd\<lparr>streamval := to_u32 (streamval sd + 0x01000000)\<rparr>
              in case (if streamval sd < 0x01000000 then propagate_carry p sd else Some sd) of
                   None \<Rightarrow> None
                 | Some sd \<Rightarrow>
                     (case put_byte p sd of None \<Rightarrow> None
                      | Some (p, sd) \<Rightarrow>
                          Some (to_i16 (int p * 2 + (if full sd = 0 then 1 else 0)), sd))
         else let sd = sd\<lparr>streamval := to_u32 (streamval sd + 0x00010000)\<rparr>
              in case (if streamval sd < 0x00010000 then propagate_carry p sd else Some sd) of
                   None \<Rightarrow> None
                 | Some sd \<Rightarrow>
                     if full sd \<noteq> 0
                     then if p < length (stream sd)
                          then Some (to_i16 (int (p + 1) * 2 + 0),
                                 sd\<lparr>stream := (stream sd)[p := to_u16 (shr (streamval sd) 16)]\<rparr>)
                          else None
                     else if p + 1 < length (stream sd)
                          then Some (to_i16 (int (p + 1) * 2 + 1),
                                 sd\<lparr>stream := (stream sd)
                                       [p := stream sd ! p OR to_u16 (shr (streamval sd) 24),
                                        p + 1 := to_u16 (shr (streamval sd) 8) AND 0xFF00]\<rparr>)
                          else None)"

section \<open>Decoder\<close>

text \<open>The first call for a stream reads two words.\<close>

definition dec_start :: "Bitstr_dec \<Rightarrow> (int \<times> nat) option" where
  "dec_start sd =
     (if stream_index sd = 0
      then if 1 < length (stream sd)
           then Some (to_u32 (shl (stream sd ! 0) 16) OR stream sd ! 1, 2)
           else None
      else Some (streamval sd, stream_index sd))"

definition get_byte :: "int \<Rightarrow> nat \<Rightarrow> Bitstr_dec \<Rightarrow> (int \<times> nat \<times> Bitstr_dec) option" where
  "get_byte sv p sd =
     (if p < length (stream sd)
      then if full sd = 0
           then Some (to_u32 (shl sv 8) OR (stream sd ! p AND 0x00FF), p + 1, sd\<lparr>full := 1\<rparr>)
           else Some (to_u32 (shl sv 8) OR shr (stream sd ! p) 8, p, sd\<lparr>full := 0\<rparr>)
      else None)"

definition get_left :: "nat \<Rightarrow> Bitstr_dec \<Rightarrow> nat" where
  "get_left p sd = 2 * (length (stream sd) - p) + (if full sd = 0 then 0 else 1)"

function dec_renorm :: "int \<Rightarrow> int \<Rightarrow> nat \<Rightarrow> Bitstr_dec \<Rightarrow> (int \<times> int \<times> nat \<times> Bitstr_dec) option" where
  "dec_renorm W sv p sd =
     (if W AND 0xFF000000 = 0
      then case get_byte sv p sd of None \<Rightarrow> None
           | Some (sv, p, sd) \<Rightarrow> dec_renorm (to_u32 (shl W 8)) sv p sd
      else Some (W, sv, p, sd))"
  by pat_completeness auto

termination
  by (relation "measure (\<lambda>(W, sv, p, sd). get_left p sd)")
     (auto simp: get_byte_def get_left_def split: if_splits)

declare dec_renorm.simps [simp del]

text \<open>The number of bytes of the stream that the decoded symbols account for.\<close>

definition dec_length :: "Bitstr_dec \<Rightarrow> int" where
  "dec_length sd =
     (if W_upper sd > 0x01FFFFFF then int (stream_index sd) * 2 - 3 + (if full sd = 0 then 1 else 0)
      else int (stream_index sd) * 2 - 2 + (if full sd = 0 then 1 else 0))"

section \<open>Arithmetic of the interval\<close>

lemma top_byte_zero:
  fixes W :: int
  assumes "0 \<le> W" "W < 4294967296" shows "W AND 0xFF000000 = 0 \<longleftrightarrow> W < 16777216"
proof -
  have m: "(0xFF000000 :: int) = push_bit 24 (mask 8)" by (simp add: mask_eq_exp_minus_1 push_bit_eq_mult)
  have "W AND push_bit 24 (mask 8) = push_bit 24 (take_bit 8 (drop_bit 24 W))"
    by (rule bit_eqI) (auto simp: bit_simps)
  then have "W AND 0xFF000000 = 16777216 * (W div 16777216 mod 256)"
    by (simp add: m push_bit_eq_mult drop_bit_eq_div take_bit_eq_mod)
  moreover have "W div 16777216 < 256" using assms by (intro int_div_less) auto
  moreover have "0 \<le> W div 16777216" using assms by (simp add: pos_imp_zdiv_nonneg_iff)
  ultimately have "W AND 0xFF000000 = 0 \<longleftrightarrow> W div 16777216 = 0" by simp
  then show ?thesis using assms(1) by (auto simp: div_eq_0_iff)
qed

lemma low_half: "W AND 65535 = W mod 65536" for W :: int
  using take_bit_eq_mask [of 16 W] unfolding take_bit_eq_mod mask_eq_exp_minus_1 by simp

lemma low_byte: "W AND 255 = W mod 256" for W :: int
  using take_bit_eq_mask [of 8 W] unfolding take_bit_eq_mod mask_eq_exp_minus_1 by simp

lemma or_low_byte:
  assumes "(0 :: int) \<le> b" "b < 256" shows "256 * k OR b = 256 * k + b"
proof -
  have b: "take_bit 8 b = b" using assms by (simp add: take_bit_eq_mod)
  have "push_bit 8 k AND take_bit 8 b = 0"
    by (rule bit_eqI) (auto simp: bit_simps)
  then have "256 * k AND b = 0" by (simp add: b push_bit_eq_mult mult.commute)
  then show ?thesis by (simp add: disjunctive_add_eq_or)
qed


lemma scale_W_eq:
  assumes "0 \<le> W" "W < 4294967296" "0 \<le> c" "c < 65536"
  shows "scale_W W c = W * c div 65536"
proof -
  define m l where "m = W div 65536" and "l = W mod 65536"
  have W: "W = m * 65536 + l" by (simp add: m_def l_def)
  have l: "0 \<le> l" "l < 65536" by (simp_all add: l_def)
  have m: "0 \<le> m" "m < 65536" using assms(1,2) by (simp_all add: m_def pos_imp_zdiv_nonneg_iff int_div_less)
  have mc: "m * c \<le> 65535 * 65535" using m assms(3,4) by (intro mult_mono) auto
  have lc: "l * c \<le> 65535 * 65535" using l assms(3,4) by (intro mult_mono) auto
  have lc0: "0 \<le> l * c" using l assms(3) by simp
  have "l * c div 65536 < 65536" using lc by (intro int_div_less) auto
  moreover have "0 \<le> l * c div 65536" using lc0 by (simp add: pos_imp_zdiv_nonneg_iff)
  moreover have "0 \<le> m * c" using m assms(3) by simp
  moreover have "m * c + l * c div 65536 < 4294967296" using mc \<open>l * c div 65536 < 65536\<close> by linarith
  ultimately have "scale_W W c = m * c + l * c div 65536"
    using mc lc lc0 by (simp add: scale_W_def Let_def low_half shr_def to_u32_def m_def [symmetric] l_def [symmetric])
  also have "\<dots> = (m * c * 65536 + l * c) div 65536" by simp
  also have "m * c * 65536 + l * c = W * c" by (simp add: W algebra_simps)
  finally show ?thesis .
qed

section \<open>The stream as a number\<close>

definition all_u16 :: "int list \<Rightarrow> bool" where
  "all_u16 xs \<longleftrightarrow> (\<forall>x \<in> set xs. 0 \<le> x \<and> x < 65536)"

definition stream_byte :: "int list \<Rightarrow> nat \<Rightarrow> int" where
  "stream_byte s i = (if even i then s ! (i div 2) div 256 else s ! (i div 2) mod 256)"

fun code_num :: "int list \<Rightarrow> nat \<Rightarrow> int" where
  "code_num s 0 = 0"
| "code_num s (Suc t) = 256 * code_num s t + stream_byte s t"

lemma all_u16_nth: "all_u16 s \<Longrightarrow> i < length s \<Longrightarrow> 0 \<le> s ! i \<and> s ! i < 65536"
  by (simp add: all_u16_def)

lemma all_u16_update: "all_u16 s \<Longrightarrow> 0 \<le> w \<Longrightarrow> w < 65536 \<Longrightarrow> all_u16 (s[i := w])"
  using set_update_subset_insert [of s i w] by (auto simp: all_u16_def)

lemma stream_byte_range:
  assumes "all_u16 s" "i < 2 * length s" shows "0 \<le> stream_byte s i \<and> stream_byte s i < 256"
proof -
  have "i div 2 < length s" using assms(2) by simp
  with all_u16_nth [OF assms(1)] have "0 \<le> s ! (i div 2)" "s ! (i div 2) < 256 * 256" by force+
  then show ?thesis by (auto simp: stream_byte_def pos_imp_zdiv_nonneg_iff intro: int_div_less)
qed

lemma code_num_cong: "(\<And>i. i < t \<Longrightarrow> stream_byte s i = stream_byte s' i) \<Longrightarrow> code_num s t = code_num s' t"
  by (induction t) auto

lemma code_num_words:
  assumes "\<And>i. i < p \<Longrightarrow> s ! i = s' ! i" "t \<le> 2 * p" shows "code_num s t = code_num s' t"
proof (rule code_num_cong)
  fix i assume "i < t"
  then have "i div 2 < p" using assms(2) by linarith
  then show "stream_byte s i = stream_byte s' i" using assms(1) by (simp add: stream_byte_def)
qed

lemma code_num_update: "t \<le> 2 * p \<Longrightarrow> code_num (s[p := w]) t = code_num s t"
  by (rule code_num_words [of p]) auto

lemma code_num_word: "code_num s (2 * Suc p) = 65536 * code_num s (2 * p) + s ! p"
proof -
  have "s ! p div 256 * 256 + s ! p mod 256 = s ! p" by (rule div_mult_mod_eq)
  then show ?thesis by (simp add: stream_byte_def)
qed

lemma code_num_extend:
  assumes "all_u16 s" "t + k \<le> 2 * length s"
  shows "256 ^ k * code_num s t \<le> code_num s (t + k) \<and> code_num s (t + k) < 256 ^ k * (code_num s t + 1)"
  using assms(2)
proof (induction k)
  case (Suc k)
  have b: "0 \<le> stream_byte s (t + k)" "stream_byte s (t + k) < 256"
    using stream_byte_range [OF assms(1), of "t + k"] Suc.prems by auto
  have IH: "256 ^ k * code_num s t \<le> code_num s (t + k)" "code_num s (t + k) + 1 \<le> 256 ^ k * (code_num s t + 1)"
    using Suc by auto
  have e: "256 ^ Suc k * x = 256 * (256 ^ k * x)" for x :: int by simp
  have n: "code_num s (t + Suc k) = 256 * code_num s (t + k) + stream_byte s (t + k)" by simp
  show ?case unfolding e n using IH b by linarith
qed simp

section \<open>Carries and stored bytes\<close>

lemma u16_inc: "0 \<le> x \<Longrightarrow> x < 65536 \<Longrightarrow> to_u16 (x + 1) = (if x = 65535 then 0 else x + 1)"
  by (simp add: to_u16_def)

lemma u16_inc_high: "0 \<le> h \<Longrightarrow> h < 256 \<Longrightarrow> to_u16 (256 * h + 256) = (if h = 255 then 0 else 256 * (h + 1))"
  by (simp add: to_u16_def)

lemma carry_back_spec:
  assumes "all_u16 s" "p \<le> length s" "code_num s (2 * p) + 1 < 256 ^ (2 * p)"
  shows "\<exists>s'. carry_back s p = Some s' \<and> all_u16 s' \<and> length s' = length s \<and>
    code_num s' (2 * p) = code_num s (2 * p) + 1 \<and> (\<forall>i \<ge> p. s' ! i = s ! i)"
  using assms
proof (induction p arbitrary: s)
  case (Suc p)
  define c where "c = code_num s (2 * p)"
  define w where "w = to_u16 (s ! p + 1)"
  have n: "code_num s (2 * Suc p) = 65536 * c + s ! p" unfolding c_def by (rule code_num_word)
  have sp: "0 \<le> s ! p" "s ! p < 65536" using all_u16_nth [OF Suc.prems(1), of p] Suc.prems(2) by auto
  have w: "0 \<le> w" "w < 65536" by (simp_all add: w_def to_u16_def)
  have pow: "(256 :: int) ^ (2 * Suc p) = 65536 * 256 ^ (2 * p)" by simp
  have u: "all_u16 (s[p := w])" by (rule all_u16_update [OF Suc.prems(1) w])
  show ?case
  proof (cases "w = 0")
    case True
    then have s: "s ! p = 65535" using u16_inc [OF sp] sp by (simp add: w_def split: if_splits)
    have "c + 1 < 256 ^ (2 * p)" using Suc.prems(3) unfolding n pow s by linarith
    moreover have "code_num (s[p := w]) (2 * p) = c" by (simp add: c_def code_num_update)
    ultimately obtain s' where s': "carry_back (s[p := w]) p = Some s'" "all_u16 s'" "length s' = length s"
        "code_num s' (2 * p) = c + 1" "\<forall>i \<ge> p. s' ! i = s[p := w] ! i"
      using Suc.IH [OF u] Suc.prems(2) by auto
    have "s' ! p = 0" using s'(5) Suc.prems(2) True by simp
    then have "code_num s' (2 * Suc p) = 65536 * (c + 1)" unfolding code_num_word s'(4) by simp
    also have "\<dots> = code_num s (2 * Suc p) + 1" unfolding n s by simp
    finally show ?thesis using s' Suc.prems(2) True by (auto simp: w_def Let_def)
  next
    case False
    then have "w = s ! p + 1" using u16_inc [OF sp] by (simp add: w_def split: if_splits)
    then have "code_num (s[p := w]) (2 * Suc p) = code_num s (2 * Suc p) + 1"
      unfolding code_num_word n using Suc.prems(2) by (simp add: code_num_update c_def)
    then show ?thesis using False u Suc.prems(2) by (auto simp: w_def Let_def)
  qed
qed simp

text \<open>Bytes in the stream, the number they form, and the lower end of the encoder's interval.\<close>

definition bytes_used :: "int \<Rightarrow> nat \<Rightarrow> nat" where
  "bytes_used f p = 2 * p + (if f = 0 then 1 else 0)"

definition enc_num :: "nat \<Rightarrow> Bitstr_enc \<Rightarrow> int" where
  "enc_num p sd = code_num (stream sd) (bytes_used (full sd) p)"

definition enc_lower :: "nat \<Rightarrow> Bitstr_enc \<Rightarrow> int" where
  "enc_lower p sd = enc_num p sd * 4294967296 + streamval sd"

definition store_ok :: "nat \<Rightarrow> Bitstr_enc \<Rightarrow> bool" where
  "store_ok p sd \<longleftrightarrow> all_u16 (stream sd) \<and> length (stream sd) = STREAM_MAXW16_60MS \<and> (full sd = 0 \<or> full sd = 1) \<and>
     (full sd = 0 \<longrightarrow> stream sd ! p mod 256 = 0) \<and> 0 \<le> streamval sd \<and> streamval sd < 4294967296"

lemma propagate_carry_spec:
  assumes "store_ok p sd" "p < 200" "enc_num p sd + 1 < 256 ^ bytes_used (full sd) p"
  shows "\<exists>s. propagate_carry p sd = Some (sd\<lparr>stream := s\<rparr>) \<and> store_ok p (sd\<lparr>stream := s\<rparr>) \<and>
    enc_num p (sd\<lparr>stream := s\<rparr>) = enc_num p sd + 1"
proof (cases "full sd = 0")
  case True
  let ?s = "stream sd"
  define c where "c = code_num ?s (2 * p)"
  define h where "h = ?s ! p div 256"
  have len: "length ?s = 200" and u: "all_u16 ?s"
    using assms(1) by (simp_all add: store_ok_def STREAM_MAXW16_60MS_def)
  have sp: "?s ! p = 256 * h" using assms(1) True by (auto simp: store_ok_def h_def)
  have h: "0 \<le> h" "h < 256" using all_u16_nth [OF u, of p] len assms(2) sp by auto
  have n: "enc_num p sd = 256 * c + h" by (simp add: enc_num_def True bytes_used_def stream_byte_def c_def h_def)
  define w where "w = to_u16 (?s ! p + 0x0100)"
  have w: "0 \<le> w" "w < 65536" by (simp_all add: w_def to_u16_def)
  have uw: "all_u16 (?s[p := w])" by (rule all_u16_update [OF u w])
  have wh: "w = (if h = 255 then 0 else 256 * (h + 1))" using u16_inc_high [OF h] by (simp add: w_def sp)
  have m: "w mod 256 = 0" by (simp add: wh)
  show ?thesis
  proof (cases "w = 0")
    case w0: True
    then have h255: "h = 255" using h by (simp add: wh split: if_splits)
    have "c + 1 < 256 ^ (2 * p)" using assms(3) by (simp add: n h255 True bytes_used_def)
    then obtain s' where s': "carry_back (?s[p := w]) p = Some s'" "all_u16 s'" "length s' = 200"
        "code_num s' (2 * p) = c + 1" "\<forall>i \<ge> p. s' ! i = ?s[p := w] ! i"
      using carry_back_spec [OF uw, of p] len assms(2) by (auto simp: code_num_update c_def)
    have sp': "s' ! p = 0" using s'(5) len assms(2) w0 by simp
    have "propagate_carry p sd = Some (sd\<lparr>stream := s'\<rparr>)"
      using True s'(1) w0 len assms(2) by (simp add: propagate_carry_def Let_def w_def)
    moreover have "enc_num p (sd\<lparr>stream := s'\<rparr>) = enc_num p sd + 1"
      unfolding n using s'(4) sp' by (simp add: enc_num_def True bytes_used_def stream_byte_def h255)
    ultimately show ?thesis using s' sp' assms(1) True
      by (intro exI [of _ s']) (simp add: store_ok_def STREAM_MAXW16_60MS_def)
  next
    case w0: False
    have "w = 256 * (h + 1)" using w0 by (simp add: wh split: if_splits)
    then have "enc_num p (sd\<lparr>stream := ?s[p := w]\<rparr>) = enc_num p sd + 1"
      unfolding n using len assms(2)
      by (simp add: enc_num_def True bytes_used_def stream_byte_def code_num_update c_def)
    moreover have "propagate_carry p sd = Some (sd\<lparr>stream := ?s[p := w]\<rparr>)"
      using True w0 len assms(2) by (simp add: propagate_carry_def Let_def w_def)
    moreover have "store_ok p (sd\<lparr>stream := ?s[p := w]\<rparr>)"
      using assms(1,2) True uw m len by (simp add: store_ok_def)
    ultimately show ?thesis by blast
  qed
next
  case False
  let ?s = "stream sd"
  have len: "length ?s = 200" and u: "all_u16 ?s"
    using assms(1) by (simp_all add: store_ok_def STREAM_MAXW16_60MS_def)
  obtain s' where s': "carry_back ?s p = Some s'" "all_u16 s'" "length s' = 200"
      "code_num s' (2 * p) = code_num ?s (2 * p) + 1" "\<forall>i \<ge> p. s' ! i = ?s ! i"
    using carry_back_spec [OF u, of p] len assms(2,3) False by (auto simp: enc_num_def bytes_used_def)
  have "propagate_carry p sd = Some (sd\<lparr>stream := s'\<rparr>)"
    using False s'(1) by (simp add: propagate_carry_def)
  moreover have "enc_num p (sd\<lparr>stream := s'\<rparr>) = enc_num p sd + 1"
    using s'(4) by (simp add: enc_num_def False bytes_used_def)
  ultimately show ?thesis using s' assms(1) False
    by (intro exI [of _ s']) (simp add: store_ok_def STREAM_MAXW16_60MS_def)
qed

lemma put_byte_spec:
  assumes "store_ok p sd" "p < 200"
  shows "\<exists>p' s f. put_byte p sd = Some (p', sd\<lparr>stream := s, full := f\<rparr>) \<and> p' \<le> 200 \<and>
    bytes_used f p' = bytes_used (full sd) p + 1 \<and>
    code_num s (bytes_used f p') = 256 * enc_num p sd + streamval sd div 16777216 \<and>
    (p' < 200 \<longrightarrow> store_ok p' (sd\<lparr>stream := s, full := f\<rparr>)) \<and> all_u16 s \<and> length s = 200 \<and>
    (f = 0 \<longrightarrow> s ! p' mod 256 = 0) \<and> (f = 0 \<or> f = 1)"
proof -
  let ?s = "stream sd"
  have len: "length ?s = 200" and u: "all_u16 ?s" and f: "full sd = 0 \<or> full sd = 1"
    and lo: "full sd = 0 \<longrightarrow> ?s ! p mod 256 = 0" and sv: "0 \<le> streamval sd" "streamval sd < 4294967296"
    using assms(1) by (auto simp: store_ok_def STREAM_MAXW16_60MS_def)
  define b where "b = streamval sd div 16777216"
  have b: "0 \<le> b" "b < 256" using sv by (auto simp: b_def pos_imp_zdiv_nonneg_iff intro: int_div_less)
  have sh: "shr (streamval sd) 24 = b" by (simp add: shr_def b_def)
  show ?thesis
  proof (cases "full sd = 0")
    case True
    have sp: "?s ! p mod 256 = 0" "0 \<le> ?s ! p" "?s ! p < 65536"
      using lo True all_u16_nth [OF u, of p] len assms(2) by auto
    have "?s ! p div 256 < 256" "?s ! p div 256 * 256 = ?s ! p"
      using sp by (auto intro: int_div_less)
    then have le: "?s ! p \<le> 65280" by linarith
    have e: "to_u16 (?s ! p + to_u16 b) = ?s ! p + b" using sp b le by (simp add: to_u16_def)
    have "?s ! p + b = 256 * (?s ! p div 256) + b" using \<open>?s ! p div 256 * 256 = ?s ! p\<close> by linarith
    then have d: "(?s ! p + b) div 256 = ?s ! p div 256" "(?s ! p + b) mod 256 = b"
      using b by (simp_all only: div_mult_self4 mod_mult_self4) simp_all
    have uw: "all_u16 (?s[p := ?s ! p + b])" using sp b le by (intro all_u16_update [OF u]) auto
    have "code_num (?s[p := ?s ! p + b]) (2 * Suc p) = 256 * enc_num p sd + b"
      using len assms(2) d by (simp add: enc_num_def True bytes_used_def stream_byte_def code_num_update)
    then show ?thesis using True len assms uw
      by (intro exI [of _ "p + 1"] exI [of _ "?s[p := ?s ! p + b]"] exI [of _ 1])
         (auto simp: put_byte_def sh e bytes_used_def store_ok_def b_def [symmetric])
  next
    case False
    have e: "to_u16 (shl b 8) = 256 * b" using b by (simp add: to_u16_def shl_def)
    have uw: "all_u16 (?s[p := 256 * b])" using b by (intro all_u16_update [OF u]) auto
    have "code_num (?s[p := 256 * b]) (Suc (2 * p)) = 256 * enc_num p sd + b"
      using len assms(2) by (simp add: enc_num_def False bytes_used_def stream_byte_def code_num_update)
    then show ?thesis using False len assms uw
      by (intro exI [of _ p] exI [of _ "?s[p := 256 * b]"] exI [of _ 0])
         (auto simp: put_byte_def sh e bytes_used_def store_ok_def b_def [symmetric])
  qed
qed

section \<open>What a symbol does to the interval\<close>

definition enc_ok :: "int \<Rightarrow> nat \<Rightarrow> Bitstr_enc \<Rightarrow> bool" where
  "enc_ok W p sd \<longleftrightarrow> store_ok p sd \<and> p < 200 \<and> 0 < W \<and> W < 4294967296 \<and>
     enc_lower p sd + W < 256 ^ (bytes_used (full sd) p + 4)"

text \<open>The outcome of encoding: nothing is accessed outside the stream, and on success the interval
  \<open>[X, X + W]\<close> has been scaled by the \<open>k\<close> bytes written.\<close>

definition enc_result :: "int \<Rightarrow> int \<Rightarrow> nat \<Rightarrow> (int \<times> int \<times> nat \<times> Bitstr_enc) option \<Rightarrow> bool" where
  "enc_result X W t r \<longleftrightarrow> (\<exists>ret W' p' sd'. r = Some (ret, W', p', sd') \<and> (ret = 0 \<or> ret = - 6440) \<and>
     (ret = 0 \<longrightarrow> (\<exists>k. enc_ok W' p' sd' \<and> 16777216 \<le> W' \<and> W' = 256 ^ k * W \<and>
        enc_lower p' sd' = 256 ^ k * X \<and> bytes_used (full sd') p' = t + k)))"

lemma enc_num_fields [simp]:
  "enc_num p (sd\<lparr>streamval := v\<rparr>) = enc_num p sd"
  "enc_lower p (sd\<lparr>streamval := v\<rparr>) = enc_num p sd * 4294967296 + v"
  by (simp_all add: enc_num_def enc_lower_def)

lemma shift_bytes:
  "q * 16777216 + r = x \<Longrightarrow> (256 * n + q) * 4294967296 + 256 * r = 256 * (n * 4294967296 + x)" for q r x n :: int
  by (simp add: algebra_simps)

lemma enc_renorm_spec:
  assumes "enc_ok W p sd"
  shows "enc_result (enc_lower p sd) W (bytes_used (full sd) p) (enc_renorm W p sd)"
  using assms
proof (induction W p sd rule: enc_renorm.induct)
  case (1 W p sd)
  have W: "0 < W" "W < 4294967296" and st: "store_ok p sd" "p < 200"
    and bound: "enc_lower p sd + W < 256 ^ (bytes_used (full sd) p + 4)"
    using "1.prems" by (auto simp: enc_ok_def)
  show ?case
  proof (cases "W < 16777216")
    case False
    then have "W AND 0xFF000000 \<noteq> 0" using top_byte_zero [of W] W by simp
    then have "enc_renorm W p sd = Some (0, W, p, sd)" by (simp add: enc_renorm.simps)
    then show ?thesis using "1.prems" False unfolding enc_result_def
      by (auto intro!: exI [of _ "0 :: nat"])
  next
    case True
    then have z: "W AND 0xFF000000 = 0" using top_byte_zero [of W] W by simp
    have W8: "to_u32 (shl W 8) = 256 * W" using W True by (simp add: to_u32_def shl_def)
    obtain p' s f where pb: "put_byte p sd = Some (p', sd\<lparr>stream := s, full := f\<rparr>)" "p' \<le> 200"
        "bytes_used f p' = bytes_used (full sd) p + 1"
        "code_num s (bytes_used f p') = 256 * enc_num p sd + streamval sd div 16777216"
        "p' < 200 \<longrightarrow> store_ok p' (sd\<lparr>stream := s, full := f\<rparr>)"
      using put_byte_spec [OF st] by blast
    define sd1 where "sd1 = sd\<lparr>stream := s, full := f\<rparr>"
    define sv where "sv = to_u32 (shl (streamval sd1) 8)"
    have sv1: "streamval sd1 = streamval sd" by (simp add: sd1_def)
    show ?thesis
    proof (cases "p' = 200")
      case True
      then have "enc_renorm W p sd = Some (- 6440, 256 * W, p', sd1)"
        unfolding enc_renorm.simps [of W] using z pb(1) W8
        by (simp add: STREAM_MAXW16_60MS_def ISAC_DISALLOWED_BITSTREAM_LENGTH_def sd1_def)
      then show ?thesis by (simp add: enc_result_def)
    next
      case False
      then have p': "p' < 200" using pb(2) by simp
      have e: "enc_renorm W p sd = enc_renorm (256 * W) p' (sd1\<lparr>streamval := sv\<rparr>)"
        unfolding enc_renorm.simps [of W] using z pb(1) W8 p'
        by (simp add: STREAM_MAXW16_60MS_def sd1_def [symmetric] sv_def [symmetric])
      have sv: "sv = 256 * (streamval sd mod 16777216)" by (simp add: sv_def sv1 to_u32_def shl_def mult_mod_right mult.commute [of "streamval sd"])
      have "streamval sd mod 16777216 < 16777216" "0 \<le> streamval sd mod 16777216" by simp_all
      then have sv_range: "0 \<le> sv" "sv < 4294967296" unfolding sv by linarith+
      have num: "enc_num p' sd1 = 256 * enc_num p sd + streamval sd div 16777216"
        using pb(4) by (simp add: enc_num_def sd1_def)
      have "streamval sd div 16777216 * 16777216 + streamval sd mod 16777216 = streamval sd"
        by (rule div_mult_mod_eq)
      then have low: "enc_lower p' (sd1\<lparr>streamval := sv\<rparr>) = 256 * enc_lower p sd"
        unfolding enc_num_fields(2) num unfolding sv enc_lower_def by (rule shift_bytes)
      have full: "full sd1 = f" by (simp add: sd1_def)
      have pow: "(256 :: int) ^ (bytes_used f p' + 4) = 256 * 256 ^ (bytes_used (full sd) p + 4)"
        unfolding pb(3) by (simp only: power_add power_one_right mult.assoc mult.commute mult.left_commute)
      have "store_ok p' (sd1\<lparr>streamval := sv\<rparr>)"
        using pb(5) p' sv_range by (simp add: store_ok_def sd1_def)
      then have ok: "enc_ok (256 * W) p' (sd1\<lparr>streamval := sv\<rparr>)"
        using p' W True low bound pow by (simp add: enc_ok_def full)
      have "enc_result (256 * enc_lower p sd) (256 * W) (bytes_used (full sd) p + 1)
          (enc_renorm (256 * W) p' (sd1\<lparr>streamval := sv\<rparr>))"
        using "1.IH" [OF z refl pb(1) refl _, unfolded W8] ok p'
        by (simp add: STREAM_MAXW16_60MS_def sd1_def [symmetric] sv_def [symmetric] low full pb(3) del: enc_num_fields)
      then obtain ret W' p2 sd' where r: "enc_renorm (256 * W) p' (sd1\<lparr>streamval := sv\<rparr>) = Some (ret, W', p2, sd')"
          "ret = 0 \<or> ret = - 6440"
          "ret = 0 \<Longrightarrow> \<exists>k. enc_ok W' p2 sd' \<and> 16777216 \<le> W' \<and> W' = 256 ^ k * (256 * W) \<and>
             enc_lower p2 sd' = 256 ^ k * (256 * enc_lower p sd) \<and>
             bytes_used (full sd') p2 = bytes_used (full sd) p + 1 + k"
        unfolding enc_result_def by blast
      have "\<exists>k. enc_ok W' p2 sd' \<and> 16777216 \<le> W' \<and> W' = 256 ^ k * W \<and>
             enc_lower p2 sd' = 256 ^ k * enc_lower p sd \<and> bytes_used (full sd') p2 = bytes_used (full sd) p + k"
        if r0: "ret = 0"
      proof -
        obtain k where "enc_ok W' p2 sd'" "16777216 \<le> W'" "W' = 256 ^ k * (256 * W)"
             "enc_lower p2 sd' = 256 ^ k * (256 * enc_lower p sd)"
             "bytes_used (full sd') p2 = bytes_used (full sd) p + 1 + k"
          using r(3) [OF r0] by blast
        then show ?thesis by (intro exI [of _ "Suc k"]) simp
      qed
      with r(1,2) show ?thesis unfolding e enc_result_def by blast
    qed
  qed
qed

lemma scale_W_gap:
  assumes "16777216 \<le> W" "W < 4294967296" "0 \<le> lo" "lo < hi" "hi < 65536"
  shows "0 \<le> scale_W W lo" "scale_W W lo + 256 \<le> scale_W W hi" "scale_W W hi < W"
proof -
  have e: "scale_W W lo = W * lo div 65536" "scale_W W hi = W * hi div 65536"
    using assms by (simp_all add: scale_W_eq)
  show "0 \<le> scale_W W lo" using assms by (simp add: e pos_imp_zdiv_nonneg_iff)
  have "W * (lo + 1) \<le> W * hi" using assms by (intro mult_left_mono) auto
  then have "W * lo + 16777216 \<le> W * hi" using assms(1) by (simp add: distrib_left)
  then have "(W * lo + 256 * 65536) div 65536 \<le> W * hi div 65536" by (intro zdiv_mono1) auto
  then show "scale_W W lo + 256 \<le> scale_W W hi" unfolding e by simp
  have "W * hi < W * 65536" using assms by (intro mult_strict_left_mono) auto
  then show "scale_W W hi < W" unfolding e by (intro int_div_less) auto
qed

lemma add_streamval_spec:
  assumes "enc_ok W p sd" "0 < a" "a \<le> W"
  shows "\<exists>s v. (if streamval (sd\<lparr>streamval := to_u32 (streamval sd + a)\<rparr>) < a
      then propagate_carry p (sd\<lparr>streamval := to_u32 (streamval sd + a)\<rparr>)
      else Some (sd\<lparr>streamval := to_u32 (streamval sd + a)\<rparr>)) = Some (sd\<lparr>stream := s, streamval := v\<rparr>) \<and>
    store_ok p (sd\<lparr>stream := s, streamval := v\<rparr>) \<and>
    enc_lower p (sd\<lparr>stream := s, streamval := v\<rparr>) = enc_lower p sd + a"
proof -
  define v where "v = to_u32 (streamval sd + a)"
  have st: "store_ok p sd" "p < 200" and W: "W < 4294967296"
    and bound: "enc_lower p sd + W < 256 ^ (bytes_used (full sd) p + 4)"
    using assms(1) by (auto simp: enc_ok_def)
  have sv: "0 \<le> streamval sd" "streamval sd < 4294967296" using st by (auto simp: store_ok_def)
  have v: "v = (if streamval sd + a < 4294967296 then streamval sd + a else streamval sd + a - 4294967296)"
  proof (cases "streamval sd + a < 4294967296")
    case False
    have "(streamval sd + a - 4294967296) mod 4294967296 = streamval sd + a - 4294967296"
      using False sv assms W by (intro mod_pos_pos_trivial) auto
    then show ?thesis using False by (simp add: v_def to_u32_def)
  qed (use sv assms in \<open>simp add: v_def to_u32_def\<close>)
  have st': "store_ok p (sd\<lparr>streamval := v\<rparr>)"
    using st(1) sv assms(2,3) W by (auto simp: store_ok_def v)
  show ?thesis unfolding v_def [symmetric]
  proof (cases "streamval sd + a < 4294967296")
    case True
    then have "v = streamval sd + a" by (simp add: v)
    then show "\<exists>s v'. (if streamval (sd\<lparr>streamval := v\<rparr>) < a then propagate_carry p (sd\<lparr>streamval := v\<rparr>)
        else Some (sd\<lparr>streamval := v\<rparr>)) = Some (sd\<lparr>stream := s, streamval := v'\<rparr>) \<and>
      store_ok p (sd\<lparr>stream := s, streamval := v'\<rparr>) \<and>
      enc_lower p (sd\<lparr>stream := s, streamval := v'\<rparr>) = enc_lower p sd + a"
      using st' sv by (intro exI [of _ "stream sd"] exI [of _ v]) (simp add: enc_lower_def)
  next
    case False
    then have vf: "v = streamval sd + a - 4294967296" by (simp add: v)
    then have lt: "v < a" using sv by simp
    have "enc_num p sd * 4294967296 + streamval sd + a < 256 ^ bytes_used (full sd) p * 4294967296"
      using bound assms(3) by (simp add: enc_lower_def power_add)
    then have "(enc_num p sd + 1) * 4294967296 < 256 ^ bytes_used (full sd) p * 4294967296"
      using False by simp
    then have "enc_num p sd + 1 < 256 ^ bytes_used (full sd) p" by simp
    then obtain s where s: "propagate_carry p (sd\<lparr>streamval := v\<rparr>) = Some (sd\<lparr>streamval := v, stream := s\<rparr>)"
        "store_ok p (sd\<lparr>streamval := v, stream := s\<rparr>)"
        "enc_num p (sd\<lparr>streamval := v, stream := s\<rparr>) = enc_num p sd + 1"
      using propagate_carry_spec [OF st' st(2)] by auto
    have c: "sd\<lparr>streamval := v, stream := s\<rparr> = sd\<lparr>stream := s, streamval := v\<rparr>" by simp
    have "enc_lower p (sd\<lparr>stream := s, streamval := v\<rparr>) = enc_lower p sd + a"
      using s(3) unfolding c by (simp add: enc_lower_def vf)
    then show "\<exists>s v'. (if streamval (sd\<lparr>streamval := v\<rparr>) < a then propagate_carry p (sd\<lparr>streamval := v\<rparr>)
        else Some (sd\<lparr>streamval := v\<rparr>)) = Some (sd\<lparr>stream := s, streamval := v'\<rparr>) \<and>
      store_ok p (sd\<lparr>stream := s, streamval := v'\<rparr>) \<and>
      enc_lower p (sd\<lparr>stream := s, streamval := v'\<rparr>) = enc_lower p sd + a"
      using s lt unfolding c by (intro exI [of _ s] exI [of _ v]) simp
  qed
qed

lemma enc_symbol_spec:
  assumes "enc_ok W p sd" "16777216 \<le> W" "0 \<le> lo" "lo < hi" "hi < 65536"
  shows "enc_result (enc_lower p sd + scale_W W lo + 1) (scale_W W hi - scale_W W lo - 1)
    (bytes_used (full sd) p) (enc_symbol lo hi (W, p, sd))"
proof -
  have W: "W < 4294967296" using assms(1) by (simp add: enc_ok_def)
  note g = scale_W_gap [OF assms(2) W assms(3-5)]
  have l: "to_u32 (scale_W W lo + 1) = scale_W W lo + 1" using g W by (simp add: to_u32_def)
  have w: "to_u32 (scale_W W hi - (scale_W W lo + 1)) = scale_W W hi - scale_W W lo - 1"
    using g W by (simp add: to_u32_def)
  obtain s v where c: "(if streamval (sd\<lparr>streamval := to_u32 (streamval sd + (scale_W W lo + 1))\<rparr>) < scale_W W lo + 1
      then propagate_carry p (sd\<lparr>streamval := to_u32 (streamval sd + (scale_W W lo + 1))\<rparr>)
      else Some (sd\<lparr>streamval := to_u32 (streamval sd + (scale_W W lo + 1))\<rparr>)) = Some (sd\<lparr>stream := s, streamval := v\<rparr>)"
    "store_ok p (sd\<lparr>stream := s, streamval := v\<rparr>)"
    "enc_lower p (sd\<lparr>stream := s, streamval := v\<rparr>) = enc_lower p sd + (scale_W W lo + 1)"
    using add_streamval_spec [OF assms(1), of "scale_W W lo + 1"] g by auto
  have e: "enc_symbol lo hi (W, p, sd)
      = enc_renorm (scale_W W hi - scale_W W lo - 1) p (sd\<lparr>stream := s, streamval := v\<rparr>)"
    unfolding enc_symbol_def Let_def case_prod_conv l w c(1) by simp
  have "enc_ok (scale_W W hi - scale_W W lo - 1) p (sd\<lparr>stream := s, streamval := v\<rparr>)"
    using assms(1) c(2,3) g W by (simp add: enc_ok_def)
  from enc_renorm_spec [OF this] c(3) show ?thesis by (simp add: e enc_result_def add.assoc)
qed

section \<open>Termination of a stream\<close>

lemma high_byte:
  fixes x :: int
  shows "x AND 0xFF00 = 256 * (x div 256 mod 256)"
proof -
  have m: "(0xFF00 :: int) = push_bit 8 (mask 8)" by (simp add: mask_eq_exp_minus_1 push_bit_eq_mult)
  have "x AND push_bit 8 (mask 8) = push_bit 8 (take_bit 8 (drop_bit 8 x))"
    by (rule bit_eqI) (auto simp: bit_simps)
  then show ?thesis by (simp add: m push_bit_eq_mult drop_bit_eq_div take_bit_eq_mod)
qed

lemma div_byte: "0 \<le> r \<Longrightarrow> r < 256 \<Longrightarrow> (256 * q + r) div 256 = q" for q r :: int
  by simp

lemma lower_div:
  "(n * 4294967296 + v) div 16777216 = 256 * n + v div 16777216"
  "(n * 4294967296 + v) div 65536 = 65536 * n + v div 65536" for n v :: int
proof -
  have "n * 4294967296 + v = (256 * n) * 16777216 + v" "n * 4294967296 + v = (65536 * n) * 65536 + v"
    by simp_all
  then show "(n * 4294967296 + v) div 16777216 = 256 * n + v div 16777216"
    "(n * 4294967296 + v) div 65536 = 65536 * n + v div 65536"
    by (simp_all only: div_mult_self3)
qed

text \<open>The number of bytes and the number they form once the stream is terminated.\<close>

definition final_bytes :: "int \<Rightarrow> nat \<Rightarrow> nat" where
  "final_bytes W t = (if W > 0x01FFFFFF then t + 1 else t + 2)"

definition final_code :: "int \<Rightarrow> int \<Rightarrow> int" where
  "final_code W X = (if W > 0x01FFFFFF then (X + 16777216) div 16777216 else (X + 65536) div 65536)"

lemma terminate_wide:
  assumes "enc_ok (W_upper sd) (stream_index sd) sd" and "W_upper sd > 0x01FFFFFF"
  shows "\<exists>sd'. WebRtcIsacfix_EncTerminate sd = Some (int (bytes_used (full sd) (stream_index sd) + 1), sd') \<and>
    code_num (stream sd') (bytes_used (full sd) (stream_index sd) + 1)
      = (enc_lower (stream_index sd) sd + 16777216) div 16777216"
proof -
  let ?p = "stream_index sd"
  have p: "?p < 200" using assms(1) by (simp add: enc_ok_def)
  obtain s v where c: "(if streamval (sd\<lparr>streamval := to_u32 (streamval sd + 16777216)\<rparr>) < 16777216
      then propagate_carry ?p (sd\<lparr>streamval := to_u32 (streamval sd + 16777216)\<rparr>)
      else Some (sd\<lparr>streamval := to_u32 (streamval sd + 16777216)\<rparr>)) = Some (sd\<lparr>stream := s, streamval := v\<rparr>)"
    "store_ok ?p (sd\<lparr>stream := s, streamval := v\<rparr>)"
    "enc_lower ?p (sd\<lparr>stream := s, streamval := v\<rparr>) = enc_lower ?p sd + 16777216"
    using add_streamval_spec [OF assms(1), of 16777216] assms(2) by auto
  define sd1 where "sd1 = sd\<lparr>stream := s, streamval := v\<rparr>"
  obtain p' s' f where pb: "put_byte ?p sd1 = Some (p', sd1\<lparr>stream := s', full := f\<rparr>)" "p' \<le> 200"
      "bytes_used f p' = bytes_used (full sd1) ?p + 1"
      "code_num s' (bytes_used f p') = 256 * enc_num ?p sd1 + streamval sd1 div 16777216" "f = 0 \<or> f = 1"
    using put_byte_spec [OF c(2) p] unfolding sd1_def by metis
  have full: "full sd1 = full sd" by (simp add: sd1_def)
  have n: "int p' * 2 + (if f = 0 then 1 else 0) = int (bytes_used (full sd) ?p + 1)"
    using pb(3) by (simp add: bytes_used_def full split: if_splits)
  have small: "bytes_used (full sd) ?p + 1 < 1000" using p by (simp add: bytes_used_def)
  have "WebRtcIsacfix_EncTerminate sd
      = Some (to_i16 (int p' * 2 + (if f = 0 then 1 else 0)), sd1\<lparr>stream := s', full := f\<rparr>)"
    unfolding WebRtcIsacfix_EncTerminate_def Let_def using assms(2) c(1) pb(1)
    by (simp add: sd1_def [symmetric])
  moreover have "to_i16 (int (bytes_used (full sd) ?p + 1)) = int (bytes_used (full sd) ?p + 1)"
    using small by (simp add: to_i16_def)
  moreover have "enc_lower ?p sd1 = enc_lower ?p sd + 16777216" using c(3) by (simp add: sd1_def)
  then have "(enc_lower ?p sd + 16777216) div 16777216 = 256 * enc_num ?p sd1 + streamval sd1 div 16777216"
    by (simp only: enc_lower_def [of ?p sd1] lower_div(1) [symmetric])
  ultimately show ?thesis using pb(3,4) full by (simp add: n)
qed

lemma terminate_narrow:
  assumes "enc_ok (W_upper sd) (stream_index sd) sd" and "16777216 \<le> W_upper sd" "W_upper sd \<le> 0x01FFFFFF"
    and "full sd \<noteq> 0 \<or> stream_index sd < 199"
  shows "\<exists>sd'. WebRtcIsacfix_EncTerminate sd = Some (int (bytes_used (full sd) (stream_index sd) + 2), sd') \<and>
    code_num (stream sd') (bytes_used (full sd) (stream_index sd) + 2)
      = (enc_lower (stream_index sd) sd + 65536) div 65536"
proof -
  let ?p = "stream_index sd"
  have p: "?p < 200" using assms(1) by (simp add: enc_ok_def)
  obtain s v where c: "(if streamval (sd\<lparr>streamval := to_u32 (streamval sd + 65536)\<rparr>) < 65536
      then propagate_carry ?p (sd\<lparr>streamval := to_u32 (streamval sd + 65536)\<rparr>)
      else Some (sd\<lparr>streamval := to_u32 (streamval sd + 65536)\<rparr>)) = Some (sd\<lparr>stream := s, streamval := v\<rparr>)"
    "store_ok ?p (sd\<lparr>stream := s, streamval := v\<rparr>)"
    "enc_lower ?p (sd\<lparr>stream := s, streamval := v\<rparr>) = enc_lower ?p sd + 65536"
    using add_streamval_spec [OF assms(1), of 65536] assms(2) by auto
  define sd1 where "sd1 = sd\<lparr>stream := s, streamval := v\<rparr>"
  have sel: "full sd1 = full sd" "stream sd1 = s" "streamval sd1 = v" by (simp_all add: sd1_def)
  have len: "length s = 200" and u: "all_u16 s" and v: "0 \<le> v" "v < 4294967296"
    and lo: "full sd = 0 \<Longrightarrow> s ! ?p mod 256 = 0"
    using c(2) by (auto simp: store_ok_def STREAM_MAXW16_60MS_def)
  have code: "(enc_lower ?p sd + 65536) div 65536 = 65536 * enc_num ?p sd1 + v div 65536"
    using c(3) by (simp only: sd1_def [symmetric] enc_lower_def [of ?p sd1] sel lower_div(2) [symmetric])
  have v16: "0 \<le> v div 65536" "v div 65536 < 65536"
    using v by (auto simp: pos_imp_zdiv_nonneg_iff intro: int_div_less)
  show ?thesis
  proof (cases "full sd = 0")
    case False
    have "WebRtcIsacfix_EncTerminate sd
        = Some (to_i16 (int (?p + 1) * 2 + 0), sd1\<lparr>stream := s[?p := to_u16 (shr v 16)]\<rparr>)"
      unfolding WebRtcIsacfix_EncTerminate_def Let_def using assms(3) c(1) False p len
      by (simp add: sd1_def)
    moreover have "to_i16 (int (?p + 1) * 2 + 0) = int (bytes_used (full sd) ?p + 2)"
      using p False by (simp add: to_i16_def bytes_used_def)
    moreover have "to_u16 (shr v 16) = v div 65536" using v16 by (simp add: to_u16_def shr_def)
    moreover have "code_num (s[?p := v div 65536]) (2 * Suc ?p) = 65536 * enc_num ?p sd1 + v div 65536"
      unfolding code_num_word using len p by (simp add: code_num_update enc_num_def sel False bytes_used_def)
    ultimately show ?thesis using False by (simp add: code bytes_used_def)
  next
    case True
    then have p1: "?p + 1 < 200" using assms(4) by simp
    define h b c where "h = s ! ?p div 256" and "b = v div 16777216" and "c = v div 65536 mod 256"
    have sp: "s ! ?p = 256 * h" using lo [OF True] by (auto simp: h_def)
    have b: "0 \<le> b" "b < 256" using v by (auto simp: b_def pos_imp_zdiv_nonneg_iff intro: int_div_less)
    have w1: "s ! ?p OR to_u16 (shr v 24) = 256 * h + b"
      using b by (simp add: sp or_low_byte shr_def to_u16_def b_def [symmetric])
    have "to_u16 (shr v 8) div 256 mod 256 = c"
    proof -
      have e: "v div 256 mod (256 * 256) = 256 * (v div 256 div 256 mod 256) + v div 256 mod 256"
        by (rule zmod_zmult2_eq) simp
      have "v div 256 mod (256 * 256) div 256 = v div 256 div 256 mod 256"
        unfolding e by (rule div_byte) simp_all
      moreover have "(256 * 256 :: int) = 65536" by simp
      ultimately have "v div 256 mod 65536 div 256 = v div 256 div 256 mod 256" by (simp only:)
      moreover have "to_u16 (shr v 8) = v div 256 mod 65536" unfolding to_u16_def shr_def by simp
      moreover have "v div 256 div 256 = v div 65536" using zdiv_zmult2_eq [of 256 v 256] by simp
      ultimately show ?thesis by (simp only: c_def mod_mod_trivial)
    qed
    then have w2: "to_u16 (shr v 8) AND 0xFF00 = 256 * c" by (simp only: high_byte)
    define s' where "s' = s[?p := 256 * h + b, ?p + 1 := 256 * c]"
    have "WebRtcIsacfix_EncTerminate sd = Some (to_i16 (int (?p + 1) * 2 + 1), sd1\<lparr>stream := s'\<rparr>)"
      unfolding WebRtcIsacfix_EncTerminate_def Let_def using assms(3) c(1) True p1 len
      by (simp add: sd1_def s'_def w1 w2)
    moreover have "to_i16 (int (?p + 1) * 2 + 1) = int (bytes_used (full sd) ?p + 2)"
      using p True by (simp add: to_i16_def bytes_used_def)
    moreover have "code_num s' (Suc (2 * Suc ?p)) = 65536 * enc_num ?p sd1 + v div 65536"
    proof -
      have n1: "code_num s' (2 * Suc ?p) = 65536 * code_num s (2 * ?p) + (256 * h + b)"
        unfolding code_num_word using len p1 by (simp add: s'_def code_num_update)
      have n2: "stream_byte s' (2 * Suc ?p) = c"
        using len p1 by (simp add: stream_byte_def s'_def c_def)
      have e: "enc_num ?p sd1 = 256 * code_num s (2 * ?p) + h"
        by (simp add: enc_num_def sel True bytes_used_def stream_byte_def h_def)
      have "v div 65536 = 256 * b + c"
      proof -
        have "v div 65536 div 256 = b" using zdiv_zmult2_eq [of 256 v 65536] by (simp add: b_def)
        then show ?thesis using div_mult_mod_eq [of "v div 65536" 256] by (simp add: c_def)
      qed
      then show ?thesis unfolding code_num.simps(2) n1 n2 e by simp
    qed
    ultimately show ?thesis using True by (simp add: code bytes_used_def)
  qed
qed

text \<open>In the last word, with its high byte taken and a narrow interval, a word is written past the end.\<close>

lemma terminate_overrun:
  assumes "enc_ok (W_upper sd) (stream_index sd) sd" and "16777216 \<le> W_upper sd"
    and "\<not> W_upper sd > 0x01FFFFFF" "full sd = 0" "stream_index sd = 199"
  shows "WebRtcIsacfix_EncTerminate sd = None"
proof -
  obtain s v where "(if streamval (sd\<lparr>streamval := to_u32 (streamval sd + 65536)\<rparr>) < 65536
    then propagate_carry (stream_index sd) (sd\<lparr>streamval := to_u32 (streamval sd + 65536)\<rparr>)
    else Some (sd\<lparr>streamval := to_u32 (streamval sd + 65536)\<rparr>)) = Some (sd\<lparr>stream := s, streamval := v\<rparr>)"
    "store_ok (stream_index sd) (sd\<lparr>stream := s, streamval := v\<rparr>)"
    using add_streamval_spec [OF assms(1), of 65536] assms(2) by auto
  then show ?thesis
    unfolding WebRtcIsacfix_EncTerminate_def Let_def using assms(3-5)
    by (simp add: store_ok_def STREAM_MAXW16_60MS_def)
qed

lemma terminate_spec:
  assumes "enc_ok (W_upper sd) (stream_index sd) sd" and "16777216 \<le> W_upper sd"
    and "WebRtcIsacfix_EncTerminate sd = Some (n, sd')"
  defines "t \<equiv> bytes_used (full sd) (stream_index sd)"
  shows "n = int (final_bytes (W_upper sd) t) \<and>
    code_num (stream sd') (final_bytes (W_upper sd) t) = final_code (W_upper sd) (enc_lower (stream_index sd) sd)"
proof (cases "W_upper sd > 0x01FFFFFF")
  case True
  then show ?thesis using terminate_wide [OF assms(1) True] assms(3)
    by (auto simp: final_bytes_def final_code_def t_def)
next
  case False
  have "full sd \<noteq> 0 \<or> stream_index sd < 199"
    using terminate_overrun [OF assms(1,2) False] assms(1,3) by (force simp: enc_ok_def)
  then show ?thesis using terminate_narrow [OF assms(1,2)] False assms(3)
    by (auto simp: final_bytes_def final_code_def t_def)
qed

section \<open>The loops of encoder and decoder\<close>

text \<open>The encoders code a list of items: \<open>f\<close> gives the datum stored and its interval. The decoders
  search the interval of each symbol, remove it and read the bytes the renormalisation asks for; the
  position \<open>'p\<close> is the stream pointer, \<open>check\<close> says whether the width is tested for zero after each
  symbol. A call starts from the stream record and stores the state back when it succeeds.\<close>

fun enc_loop :: "('a \<Rightarrow> (int \<times> int \<times> int) option) \<Rightarrow> 'a list \<Rightarrow> int \<times> nat \<times> Bitstr_enc
    \<Rightarrow> (int \<times> int list \<times> int \<times> nat \<times> Bitstr_enc) option" where
  "enc_loop f [] L = Some (0, [], L)"
| "enc_loop f (x # xs) L =
     (case f x of None \<Rightarrow> None
      | Some (d, cdfLo, cdfHi) \<Rightarrow>
          (case enc_symbol cdfLo cdfHi L of None \<Rightarrow> None
           | Some (ret, L) \<Rightarrow>
               if ret \<noteq> 0 then Some (ret, [d], L)
               else map_option (\<lambda>(ret, ds, L). (ret, d # ds, L)) (enc_loop f xs L)))"

fun dec_loop :: "('m \<Rightarrow> int \<Rightarrow> int \<Rightarrow> int \<Rightarrow> (int + int \<times> int \<times> int) option)
    \<Rightarrow> (int \<Rightarrow> int \<Rightarrow> 'p \<Rightarrow> Bitstr_dec \<Rightarrow> (int \<times> int \<times> 'p \<times> Bitstr_dec) option)
    \<Rightarrow> bool \<Rightarrow> 'm list \<Rightarrow> int \<times> int \<times> int \<times> 'p \<times> Bitstr_dec
    \<Rightarrow> (int \<times> int list \<times> int \<times> int \<times> int \<times> 'p \<times> Bitstr_dec) option" where
  "dec_loop search refill check [] L = Some (0, [], L)"
| "dec_loop search refill check (m # ms) L =
     (let (W_lower, W, sv, p, sd) = L
      in case search m W_lower W sv of None \<Rightarrow> None
         | Some (Inl err) \<Rightarrow> Some (err, [], L)
         | Some (Inr (W_lower, W_hi, d)) \<Rightarrow>
             (let W_lower = to_u32 (W_lower + 1)
              in case refill (to_u32 (W_hi - W_lower)) (to_u32 (sv - W_lower)) p sd of None \<Rightarrow> None
                 | Some (W, sv, p, sd) \<Rightarrow>
                     if check \<and> W = 0 then Some (- 2, [d], W_lower, W, sv, p, sd)
                     else map_option (\<lambda>(ret, ds, L). (ret, d # ds, L))
                       (dec_loop search refill check ms (W_lower, W, sv, p, sd))))"

definition enc_call :: "('a \<Rightarrow> (int \<times> int \<times> int) option) \<Rightarrow> 'a list \<Rightarrow> Bitstr_enc \<Rightarrow> (int \<times> int list \<times> Bitstr_enc) option" where
  "enc_call f xs sd =
     (case enc_loop f xs (W_upper sd, stream_index sd, sd) of None \<Rightarrow> None
      | Some (ret, ds, W, p, sd) \<Rightarrow> Some (ret, ds, if ret = 0 then sd\<lparr>stream_index := p, W_upper := W\<rparr> else sd))"

definition dec_call :: "('m \<Rightarrow> int \<Rightarrow> int \<Rightarrow> int \<Rightarrow> (int + int \<times> int \<times> int) option)
    \<Rightarrow> (int \<Rightarrow> int \<Rightarrow> 'p \<Rightarrow> Bitstr_dec \<Rightarrow> (int \<times> int \<times> 'p \<times> Bitstr_dec) option) \<Rightarrow> bool
    \<Rightarrow> (nat \<Rightarrow> 'p) \<Rightarrow> ('p \<Rightarrow> nat) \<Rightarrow> 'm list \<Rightarrow> Bitstr_dec \<Rightarrow> (int \<times> int list \<times> Bitstr_dec) option" where
  "dec_call search refill check start words ms sd =
     (case dec_start sd of None \<Rightarrow> None
      | Some (sv, p) \<Rightarrow>
          (case dec_loop search refill check ms (0, W_upper sd, sv, start p, sd) of None \<Rightarrow> None
           | Some (ret, ds, W_lower, W, sv, p, sd) \<Rightarrow>
               Some (ret, ds, if ret = 0 then sd\<lparr>stream_index := words p, W_upper := W, streamval := sv\<rparr> else sd)))"

section \<open>The decoder follows the encoder\<close>

text \<open>The first \<open>t\<close> bytes of the code lie in the encoder's interval; this is inherited backwards.\<close>

definition inside :: "int list \<Rightarrow> nat \<Rightarrow> int \<Rightarrow> int \<Rightarrow> bool" where
  "inside s t X W \<longleftrightarrow> X \<le> code_num s t \<and> code_num s t \<le> X + W"

lemma full_self: "full sd = f \<Longrightarrow> sd\<lparr>full := f\<rparr> = sd" for sd :: Bitstr_dec
  by (cases sd) simp

lemma inside_back:
  assumes "all_u16 s" "t + k \<le> 2 * length s" "inside s (t + k) (256 ^ k * X) (256 ^ k * W)"
  shows "inside s t X W"
proof -
  have e: "256 ^ k * code_num s t \<le> code_num s (t + k)" "code_num s (t + k) < 256 ^ k * (code_num s t + 1)"
    using code_num_extend [OF assms(1,2)] by auto
  have i: "256 ^ k * X \<le> code_num s (t + k)" "code_num s (t + k) \<le> 256 ^ k * (X + W)"
    using assms(3) by (simp_all add: inside_def distrib_left)
  have "256 ^ k * X < 256 ^ k * (code_num s t + 1)" by (rule le_less_trans [OF i(1) e(2)])
  moreover have "256 ^ k * code_num s t \<le> 256 ^ k * (X + W)" by (rule order_trans [OF e(1) i(2)])
  ultimately show ?thesis unfolding inside_def by (auto simp: mult_less_cancel_left_pos mult_le_cancel_left_pos)
qed

lemma renorm_unique:
  assumes "16777216 \<le> 256 ^ j * (W :: int)" "256 ^ j * W < 4294967296"
    and "16777216 \<le> 256 ^ k * W" "256 ^ k * W < 4294967296" and "0 < W"
  shows "j = k"
proof -
  have *: "\<not> j < k" if "16777216 \<le> 256 ^ j * W" "256 ^ k * W < 4294967296" for j k
  proof
    assume "j < k"
    then obtain i where k: "k = Suc (j + i)" by (metis less_imp_Suc_add)
    have "1 * (256 * (256 ^ j * W)) \<le> 256 ^ i * (256 * (256 ^ j * W))"
      using assms(5) by (intro mult_right_mono) auto
    then have "256 * (256 ^ j * W) \<le> 256 ^ k * W" by (simp add: k power_add mult.assoc mult.left_commute)
    with that show False by linarith
  qed
  show ?thesis using *[of j k] *[of k j] assms by linarith
qed

lemma bytes_used_inj:
  assumes "bytes_used f p = bytes_used f' p'" "f = 0 \<or> f = 1" "f' = 0 \<or> f' = 1"
  shows "f = f' \<and> p = p'"
  using assms by (auto simp: bytes_used_def split: if_splits) presburger+

lemma get_byte_spec:
  assumes "all_u16 (stream sd)" "p < length (stream sd)" "full sd = 0 \<or> full sd = 1" "0 \<le> sv" "sv < 16777216"
  shows "\<exists>p' f. get_byte sv p sd = Some (256 * sv + stream_byte (stream sd) (bytes_used (full sd) p), p', sd\<lparr>full := f\<rparr>) \<and>
    bytes_used f p' = bytes_used (full sd) p + 1 \<and> (f = 0 \<or> f = 1)"
proof -
  have b: "0 \<le> stream sd ! p mod 256" "stream sd ! p mod 256 < 256" by simp_all
  have h: "0 \<le> stream sd ! p div 256" "stream sd ! p div 256 < 256"
    using all_u16_nth [OF assms(1,2)] by (auto simp: pos_imp_zdiv_nonneg_iff intro: int_div_less)
  have s8: "to_u32 (shl sv 8) = 256 * sv" using assms(4,5) by (simp add: to_u32_def shl_def)
  have o: "256 * sv OR (stream sd ! p AND 0x00FF) = 256 * sv + stream sd ! p mod 256"
    "256 * sv OR shr (stream sd ! p) 8 = 256 * sv + stream sd ! p div 256"
    using or_low_byte [OF b] or_low_byte [OF h] by (simp_all add: low_byte shr_def)
  show ?thesis
  proof (cases "full sd = 0")
    case True
    then show ?thesis using assms(2)
      by (intro exI [of _ "p + 1"] exI [of _ 1]) (simp add: get_byte_def s8 o bytes_used_def stream_byte_def)
  next
    case False
    then show ?thesis using assms(2)
      by (intro exI [of _ p] exI [of _ 0]) (simp add: get_byte_def s8 o bytes_used_def stream_byte_def)
  qed
qed

lemma dec_renorm_spec:
  assumes "0 < W" "16777216 \<le> 256 ^ k * W" "256 ^ k * W < 4294967296"
    and "all_u16 (stream sd)" "full sd = 0 \<or> full sd = 1"
    and "bytes_used (full sd) p + k \<le> 2 * length (stream sd)"
    and "inside (stream sd) (bytes_used (full sd) p + k) (256 ^ k * X) (256 ^ k * W)"
  shows "\<exists>p' f. dec_renorm W (code_num (stream sd) (bytes_used (full sd) p) - X) p sd
      = Some (256 ^ k * W, code_num (stream sd) (bytes_used (full sd) p + k) - 256 ^ k * X, p', sd\<lparr>full := f\<rparr>) \<and>
    bytes_used f p' = bytes_used (full sd) p + k \<and> (f = 0 \<or> f = 1)"
  using assms
proof (induction k arbitrary: W X p sd)
  case 0
  then have "W AND 0xFF000000 \<noteq> 0" using top_byte_zero [of W] by simp
  then show ?case using 0(5)
    by (intro exI [of _ p] exI [of _ "full sd"]) (simp add: dec_renorm.simps)
next
  case (Suc k)
  let ?s = "stream sd" and ?t = "bytes_used (full sd) p"
  have "W \<le> 256 ^ k * W" using Suc.prems(1) by simp
  moreover have "256 ^ Suc k * W = 256 * (256 ^ k * W)" by simp
  ultimately have W: "W < 16777216" using Suc.prems(3) by linarith
  then have z: "W AND 0xFF000000 = 0" using top_byte_zero [of W] Suc.prems(1) by simp
  have W8: "to_u32 (shl W 8) = 256 * W" using W Suc.prems(1) by (simp add: to_u32_def shl_def)
  have "inside ?s ?t X W" by (rule inside_back [OF Suc.prems(4,6,7)])
  then have sv: "0 \<le> code_num ?s ?t - X" "code_num ?s ?t - X < 16777216"
    using W by (auto simp: inside_def)
  have p: "p < length ?s" using Suc.prems(6) by (simp add: bytes_used_def split: if_splits)
  obtain p' f where g: "get_byte (code_num ?s ?t - X) p sd
      = Some (256 * (code_num ?s ?t - X) + stream_byte ?s ?t, p', sd\<lparr>full := f\<rparr>)"
      "bytes_used f p' = ?t + 1" "f = 0 \<or> f = 1"
    using get_byte_spec [OF Suc.prems(4) p Suc.prems(5) sv] by blast
  have e: "256 * (code_num ?s ?t - X) + stream_byte ?s ?t = code_num ?s (?t + 1) - 256 * X" by simp
  define sd1 where "sd1 = sd\<lparr>full := f\<rparr>"
  have sd1: "stream sd1 = ?s" "full sd1 = f" "sd1\<lparr>full := f'\<rparr> = sd\<lparr>full := f'\<rparr>" for f' by (simp_all add: sd1_def)
  have "\<exists>p2 f2. dec_renorm (256 * W) (code_num (stream sd1) (bytes_used (full sd1) p') - 256 * X) p' sd1
      = Some (256 ^ k * (256 * W), code_num (stream sd1) (bytes_used (full sd1) p' + k) - 256 ^ k * (256 * X),
          p2, sd1\<lparr>full := f2\<rparr>) \<and>
    bytes_used f2 p2 = bytes_used (full sd1) p' + k \<and> (f2 = 0 \<or> f2 = 1)"
    using Suc.prems g(2,3)
    by (intro Suc.IH) (simp_all add: sd1 mult.assoc mult.left_commute [of _ 256])
  then obtain p2 f2 where r: "dec_renorm (256 * W) (code_num ?s (?t + 1) - 256 * X) p' sd1
      = Some (256 ^ k * (256 * W), code_num ?s (?t + 1 + k) - 256 ^ k * (256 * X), p2, sd\<lparr>full := f2\<rparr>)"
    "bytes_used f2 p2 = ?t + 1 + k" "f2 = 0 \<or> f2 = 1"
    by (auto simp only: sd1 g(2))
  have "dec_renorm W (code_num ?s ?t - X) p sd = dec_renorm (256 * W) (code_num ?s (?t + 1) - 256 * X) p' sd1"
    unfolding dec_renorm.simps [of W] using z g(1) by (simp only: simp_thms if_True option.case prod.case W8 e sd1_def)
  then show ?case using r by (intro exI [of _ p2] exI [of _ f2]) (simp add: mult.assoc mult.left_commute [of _ 256])
qed

text \<open>Between two calls: the encoder is ready, the decoder's record corresponds to the encoder's.\<close>

definition enc_ready :: "Bitstr_enc \<Rightarrow> bool" where
  "enc_ready e \<longleftrightarrow> enc_ok (W_upper e) (stream_index e) e \<and> 16777216 \<le> W_upper e"

definition code_inside :: "int list \<Rightarrow> Bitstr_enc \<Rightarrow> bool" where
  "code_inside s e \<longleftrightarrow>
     inside s (bytes_used (full e) (stream_index e) + 4) (enc_lower (stream_index e) e) (W_upper e)"

definition coded :: "Bitstr_enc \<Rightarrow> Bitstr_dec \<Rightarrow> bool" where
  "coded e d \<longleftrightarrow> W_upper d = W_upper e \<and> full d = full e \<and>
     (if stream_index d = 0 then stream_index e = 0 \<and> full e = 1 \<and> streamval e = 0
      else stream_index d = stream_index e + 2 \<and>
        streamval d = code_num (stream d) (bytes_used (full e) (stream_index e) + 4) - enc_lower (stream_index e) e)"

lemma enc_fields [simp]:
  "store_ok p (sd\<lparr>stream_index := i\<rparr>) = store_ok p sd" "store_ok p (sd\<lparr>W_upper := w\<rparr>) = store_ok p sd"
  "enc_lower p (sd\<lparr>stream_index := i\<rparr>) = enc_lower p sd" "enc_lower p (sd\<lparr>W_upper := w\<rparr>) = enc_lower p sd"
  by (simp_all add: store_ok_def enc_lower_def enc_num_def)

lemma dec_start_coded:
  assumes "coded e d" "all_u16 (stream d)" "203 \<le> length (stream d)"
  shows "dec_start d = Some (code_num (stream d) (bytes_used (full e) (stream_index e) + 4) - enc_lower (stream_index e) e,
    stream_index e + 2)"
proof (cases "stream_index d = 0")
  case True
  then have e: "stream_index e = 0" "full e = 1" "streamval e = 0" using assms(1) by (auto simp: coded_def)
  have w: "0 \<le> stream d ! 0" "stream d ! 0 < 65536" "0 \<le> stream d ! 1" "stream d ! 1 < 65536"
    using all_u16_nth [OF assms(2), of 0] all_u16_nth [OF assms(2), of 1] assms(3) by force+
  have t: "take_bit 16 (stream d ! 1) = stream d ! 1" using w by (simp add: take_bit_eq_mod)
  have "push_bit 16 (stream d ! 0) AND take_bit 16 (stream d ! 1) = 0"
    by (rule bit_eqI) (auto simp: bit_simps)
  then have "stream d ! 0 * 65536 AND stream d ! 1 = 0" unfolding t by (simp add: push_bit_eq_mult)
  from disjunctive_add_eq_or [OF this]
  have "stream d ! 0 * 65536 OR stream d ! 1 = stream d ! 0 * 65536 + stream d ! 1" by (rule sym)
  then have "to_u32 (shl (stream d ! 0) 16) OR stream d ! 1 = 65536 * stream d ! 0 + stream d ! 1"
    using w by (simp add: to_u32_def shl_def)
  moreover have "code_num (stream d) 4 = 65536 * stream d ! 0 + stream d ! 1"
    using code_num_word [of "stream d" 0] code_num_word [of "stream d" 1] by (simp add: numeral_eq_Suc)
  moreover have "bytes_used (1 :: int) 0 + 4 = 4" by (simp add: bytes_used_def)
  ultimately show ?thesis using assms(3) True
    by (simp add: dec_start_def e enc_lower_def enc_num_def bytes_used_def)
next
  case False
  then show ?thesis using assms(1) by (simp add: dec_start_def coded_def)
qed

section \<open>The interface of the symbol searches\<close>

text \<open>What a decoder needs: the search finds the symbol in whose interval the code lies, and refilling
  reads the next bytes of the code. \<open>interval m d\<close> is the interval of the symbol \<open>d\<close> in the model \<open>m\<close>,
  \<open>words\<close> the stream position of the decoder's pointer, \<open>view\<close> what refilling needs of the stream.\<close>

locale symbol_decoder =
  fixes search :: "'m \<Rightarrow> int \<Rightarrow> int \<Rightarrow> int \<Rightarrow> (int + int \<times> int \<times> int) option"
    and refill :: "int \<Rightarrow> int \<Rightarrow> 'p \<Rightarrow> Bitstr_dec \<Rightarrow> (int \<times> int \<times> 'p \<times> Bitstr_dec) option"
    and interval :: "'m \<Rightarrow> int \<Rightarrow> (int \<times> int) option"
    and start :: "nat \<Rightarrow> 'p"
    and words :: "'p \<Rightarrow> nat"
    and view :: "'p \<Rightarrow> Bitstr_dec \<Rightarrow> bool"
  assumes words_start: "words (start n) = n"
    and interval_range: "interval m d = Some (lo, hi) \<Longrightarrow> 0 \<le> lo \<and> lo < hi \<and> hi < 65536"
    and search_finds: "interval m d = Some (lo, hi) \<Longrightarrow> 16777216 \<le> W \<Longrightarrow> W < 4294967296 \<Longrightarrow>
      scale_W W lo < sv \<Longrightarrow> sv \<le> scale_W W hi \<Longrightarrow> search m W_lower W sv = Some (Inr (scale_W W lo, scale_W W hi, d))"
    and refill_reads: "0 < W \<Longrightarrow> 16777216 \<le> 256 ^ k * W \<Longrightarrow> 256 ^ k * W < 4294967296 \<Longrightarrow>
      all_u16 (stream sd) \<Longrightarrow> full sd = 0 \<or> full sd = 1 \<Longrightarrow> view p sd \<Longrightarrow>
      bytes_used (full sd) (words p) + k \<le> 2 * length (stream sd) \<Longrightarrow>
      inside (stream sd) (bytes_used (full sd) (words p) + k) (256 ^ k * X) (256 ^ k * W) \<Longrightarrow>
      \<exists>p' f. refill W (code_num (stream sd) (bytes_used (full sd) (words p)) - X) p sd
        = Some (256 ^ k * W, code_num (stream sd) (bytes_used (full sd) (words p) + k) - 256 ^ k * X, p', sd\<lparr>full := f\<rparr>) \<and>
      bytes_used f (words p') = bytes_used (full sd) (words p) + k \<and> (f = 0 \<or> f = 1) \<and> view p' (sd\<lparr>full := f\<rparr>)"
begin

text \<open>Decoding follows encoding symbol by symbol, as long as the code lies in the final interval.\<close>

lemma dec_loop_follows:
  assumes "enc_loop f xs (W, p, e) = Some (0, ds, W', p', e')"
    and "enc_ok W p e" "16777216 \<le> W" and "length ms = length xs"
    and "\<And>i d lo hi. i < length xs \<Longrightarrow> f (xs ! i) = Some (d, lo, hi) \<Longrightarrow> interval (ms ! i) d = Some (lo, hi)"
    and "all_u16 s" "203 \<le> length s"
  shows "enc_ok W' p' e' \<and> 16777216 \<le> W' \<and> bytes_used (full e) p \<le> bytes_used (full e') p' \<and>
    (inside s (bytes_used (full e') p' + 4) (enc_lower p' e') W' \<longrightarrow>
      inside s (bytes_used (full e) p + 4) (enc_lower p e) W \<and>
      (\<forall>q sd wl. stream sd = s \<longrightarrow> view q sd \<longrightarrow> full sd = full e \<longrightarrow> words q = p + 2 \<longrightarrow>
        (\<exists>wl' q' fl. dec_loop search refill check ms (wl, W, code_num s (bytes_used (full e) p + 4) - enc_lower p e, q, sd)
          = Some (0, ds, wl', W', code_num s (bytes_used (full e') p' + 4) - enc_lower p' e', q', sd\<lparr>full := fl\<rparr>) \<and>
          fl = full e' \<and> words q' = p' + 2 \<and> view q' (sd\<lparr>full := fl\<rparr>))))"
  using assms(1-5)
proof (induction xs arbitrary: W p e ds ms)
  case Nil
  then show ?case by (auto simp: full_self)
next
  case (Cons x xs)
  obtain m ms' where ms: "ms = m # ms'" using Cons.prems(4) by (cases ms) auto
  obtain d lo hi where fx: "f x = Some (d, lo, hi)"
    using Cons.prems(1) by (auto split: option.splits)
  have iv: "interval m d = Some (lo, hi)" using Cons.prems(5) [of 0] fx by (simp add: ms)
  note r = interval_range [OF iv]
  have W: "W < 4294967296" using Cons.prems(2) by (simp add: enc_ok_def)
  define sl sh where "sl = scale_W W lo" and "sh = scale_W W hi"
  have g: "0 \<le> sl" "sl + 256 \<le> sh" "sh < W"
    using scale_W_gap [OF Cons.prems(3) W] r by (auto simp: sl_def sh_def)
  let ?t = "bytes_used (full e) p"
  obtain ret W1 p1 e1 where es: "enc_symbol lo hi (W, p, e) = Some (ret, W1, p1, e1)"
    and k_ex: "ret = 0 \<Longrightarrow> \<exists>k. enc_ok W1 p1 e1 \<and> 16777216 \<le> W1 \<and> W1 = 256 ^ k * (sh - sl - 1) \<and>
        enc_lower p1 e1 = 256 ^ k * (enc_lower p e + sl + 1) \<and> bytes_used (full e1) p1 = ?t + k"
    using enc_symbol_spec [OF Cons.prems(2,3)] r unfolding enc_result_def sl_def sh_def by blast
  have ret: "ret = 0" using Cons.prems(1) fx es by (auto split: if_splits)
  obtain k where k: "enc_ok W1 p1 e1" "16777216 \<le> W1" "W1 = 256 ^ k * (sh - sl - 1)"
      "enc_lower p1 e1 = 256 ^ k * (enc_lower p e + sl + 1)" "bytes_used (full e1) p1 = ?t + k"
    using k_ex [OF ret] by blast
  obtain ds' where rest: "enc_loop f xs (W1, p1, e1) = Some (0, ds', W', p', e')" "ds = d # ds'"
    using Cons.prems(1) fx es ret by (auto split: option.splits)
  have len: "length ms' = length xs" using Cons.prems(4) ms by simp
  have iv': "interval (ms' ! i) d = Some (lo, hi)" if "i < length xs" "f (xs ! i) = Some (d, lo, hi)" for i d lo hi
    using Cons.prems(5) [of "Suc i"] that by (simp add: ms)
  note IH = Cons.IH [OF rest(1) k(1,2) len iv']
  have fe: "full e = 0 \<or> full e = 1" "full e1 = 0 \<or> full e1 = 1" "p1 < 200" "p < 200"
    using Cons.prems(2) k(1) by (auto simp: enc_ok_def store_ok_def)
  have b4: "bytes_used v (n + 2) = bytes_used v n + 4" for v n by (simp add: bytes_used_def)
  have tk: "?t + 4 + k \<le> 2 * length s"
    using k(5) fe(3) assms(7) by (simp add: bytes_used_def split: if_splits)
  define X1 where "X1 = enc_lower p e + sl + 1"
  have follows: "inside s (?t + 4) (enc_lower p e) W \<and>
      (\<forall>q sd wl. stream sd = s \<longrightarrow> view q sd \<longrightarrow> full sd = full e \<longrightarrow> words q = p + 2 \<longrightarrow>
        (\<exists>wl' q' fl. dec_loop search refill check ms (wl, W, code_num s (?t + 4) - enc_lower p e, q, sd)
          = Some (0, ds, wl', W', code_num s (bytes_used (full e') p' + 4) - enc_lower p' e', q', sd\<lparr>full := fl\<rparr>) \<and>
          fl = full e' \<and> words q' = p' + 2 \<and> view q' (sd\<lparr>full := fl\<rparr>)))"
    if fin: "inside s (bytes_used (full e') p' + 4) (enc_lower p' e') W'"
  proof -
    have in1: "inside s (?t + 4 + k) (256 ^ k * X1) (256 ^ k * (sh - sl - 1))"
      using IH fin unfolding X1_def k(3,4) [symmetric] by (simp add: k(5) add.commute add.left_commute)
    have in0: "inside s (?t + 4) X1 (sh - sl - 1)"
      by (rule inside_back [OF assms(6) tk in1])
    have all_q: "\<And>sd q wl. stream sd = s \<Longrightarrow> view q sd \<Longrightarrow> full sd = full e1 \<Longrightarrow> words q = p1 + 2 \<Longrightarrow>
        \<exists>wl' q' fl. dec_loop search refill check ms' (wl, W1, code_num s (bytes_used (full e1) p1 + 4) - enc_lower p1 e1, q, sd)
          = Some (0, ds', wl', W', code_num s (bytes_used (full e') p' + 4) - enc_lower p' e', q', sd\<lparr>full := fl\<rparr>) \<and>
          fl = full e' \<and> words q' = p' + 2 \<and> view q' (sd\<lparr>full := fl\<rparr>)"
      using IH fin by blast
    define c where "c = code_num s (?t + 4)"
    have c: "X1 \<le> c" "c \<le> X1 + (sh - sl - 1)" using in0 by (auto simp: inside_def c_def)
    have sv: "sl < c - enc_lower p e" "c - enc_lower p e \<le> sh" using c by (simp_all add: X1_def)
    show ?thesis
    proof (intro conjI allI impI)
      show "inside s (?t + 4) (enc_lower p e) W"
        using sv g unfolding inside_def c_def [symmetric] by linarith
      fix q sd wl
      assume sd: "stream sd = s" "view q sd" "full sd = full e" "words q = p + 2"
      have bt: "bytes_used (full sd) (words q) = ?t + 4" by (simp only: sd b4)
      have sf: "search m wl W (c - enc_lower p e) = Some (Inr (sl, sh, d))"
        using search_finds [OF iv Cons.prems(3) W] sv by (simp add: sl_def sh_def)
      have u: "to_u32 (sl + 1) = sl + 1" "to_u32 (sh - (sl + 1)) = sh - sl - 1"
        "to_u32 (c - enc_lower p e - (sl + 1)) = c - X1"
        using g W c by (simp_all add: to_u32_def X1_def)
      have k256: "16777216 \<le> 256 ^ k * (sh - sl - 1)" "256 ^ k * (sh - sl - 1) < 4294967296"
        using k(1-3) by (simp_all add: enc_ok_def)
      obtain q1 f1 where rf: "refill (sh - sl - 1) (c - X1) q sd
          = Some (W1, code_num s (?t + 4 + k) - 256 ^ k * X1, q1, sd\<lparr>full := f1\<rparr>)"
          "bytes_used f1 (words q1) = ?t + 4 + k" "f1 = 0 \<or> f1 = 1" "view q1 (sd\<lparr>full := f1\<rparr>)"
        using refill_reads [of "sh - sl - 1" k sd q X1] g k256 assms(6) fe(1) sd(2,3) tk in1
        unfolding bt sd(1) k(3) c_def by auto
      have "bytes_used f1 (words q1) = bytes_used (full e1) (p1 + 2)" by (simp only: rf(2) b4 k(5) add.commute add.left_commute)
      then have pos: "f1 = full e1" "words q1 = p1 + 2"
        using bytes_used_inj [OF _ rf(3) fe(2)] by blast+
      have low1: "code_num s (?t + 4 + k) - 256 ^ k * X1 = code_num s (bytes_used (full e1) p1 + 4) - enc_lower p1 e1"
        by (simp add: k(4,5) X1_def add.commute add.left_commute)
      obtain wl' q' fl where dl: "dec_loop search refill check ms'
          (sl + 1, W1, code_num s (bytes_used (full e1) p1 + 4) - enc_lower p1 e1, q1, sd\<lparr>full := f1\<rparr>)
          = Some (0, ds', wl', W', code_num s (bytes_used (full e') p' + 4) - enc_lower p' e', q',
              sd\<lparr>full := f1, full := fl\<rparr>)" "fl = full e'" "words q' = p' + 2" "view q' (sd\<lparr>full := f1, full := fl\<rparr>)"
        using all_q [of "sd\<lparr>full := f1\<rparr>" q1 "sl + 1"] sd(1) rf(4) pos by auto
      show "\<exists>wl' q' fl. dec_loop search refill check ms (wl, W, code_num s (?t + 4) - enc_lower p e, q, sd)
          = Some (0, ds, wl', W', code_num s (bytes_used (full e') p' + 4) - enc_lower p' e', q', sd\<lparr>full := fl\<rparr>) \<and>
          fl = full e' \<and> words q' = p' + 2 \<and> view q' (sd\<lparr>full := fl\<rparr>)"
      proof (intro exI conjI)
        show "dec_loop search refill check ms (wl, W, code_num s (?t + 4) - enc_lower p e, q, sd)
          = Some (0, ds, wl', W', code_num s (bytes_used (full e') p' + 4) - enc_lower p' e', q', sd\<lparr>full := fl\<rparr>)"
          using dl(1) unfolding ms c_def [symmetric] dec_loop.simps Let_def case_prod_conv sf
          using k(2) by (simp add: u rf(1) low1 rest(2))
      qed (use dl in auto)
    qed
  qed
  then show ?case using IH k(5) by auto
qed


lemma call_follows:
  assumes "enc_call f xs e = Some (0, ds, e')" and "enc_ready e" and "length ms = length xs"
    and "\<And>i d lo hi. i < length xs \<Longrightarrow> f (xs ! i) = Some (d, lo, hi) \<Longrightarrow> interval (ms ! i) d = Some (lo, hi)"
    and "all_u16 s" "203 \<le> length s"
  shows "enc_ready e'" and "code_inside s e' \<Longrightarrow> code_inside s e"
    and "code_inside s e' \<Longrightarrow> stream d = s \<Longrightarrow> coded e d \<Longrightarrow> (\<And>n. view (start n) d) \<Longrightarrow>
      \<exists>d'. dec_call search refill check start words ms d = Some (0, ds, d') \<and> coded e' d' \<and>
        stream d' = s \<and> stream_size d' = stream_size d \<and> 0 < stream_index d'"
proof -
  obtain W p e1 where el: "enc_loop f xs (W_upper e, stream_index e, e) = Some (0, ds, W, p, e1)"
    and e': "e' = e1\<lparr>stream_index := p, W_upper := W\<rparr>"
    using assms(1) by (auto simp: enc_call_def split: option.splits if_splits)
  note r = assms(2) [unfolded enc_ready_def]
  note F = dec_loop_follows [OF el r [THEN conjunct1] r [THEN conjunct2] assms(3-6), of check]
  have sel: "full e' = full e1" "W_upper e' = W" "stream_index e' = p" "enc_lower p e' = enc_lower p e1"
    by (simp_all add: e')
  show "enc_ready e'" using F sel by (simp add: enc_ready_def enc_ok_def e')
  show "code_inside s e' \<Longrightarrow> code_inside s e" using F sel by (simp add: code_inside_def)
  assume a: "code_inside s e'" "stream d = s" "coded e d" "\<And>n. view (start n) d"
  have ds: "dec_start d = Some (code_num s (bytes_used (full e) (stream_index e) + 4) - enc_lower (stream_index e) e,
      stream_index e + 2)"
    using dec_start_coded [OF a(3)] assms(5,6) a(2) by simp
  have fd: "full d = full e" "W_upper d = W_upper e" using a(3) by (auto simp: coded_def)
  obtain wl' q' fl where dl: "dec_loop search refill check ms (0, W_upper e,
        code_num s (bytes_used (full e) (stream_index e) + 4) - enc_lower (stream_index e) e, start (stream_index e + 2), d)
      = Some (0, ds, wl', W, code_num s (bytes_used (full e1) p + 4) - enc_lower p e1, q', d\<lparr>full := fl\<rparr>)"
      "fl = full e1" "words q' = p + 2"
    using F a(1,2,4) fd(1) words_start sel unfolding code_inside_def by metis
  show "\<exists>d'. dec_call search refill check start words ms d = Some (0, ds, d') \<and> coded e' d' \<and>
        stream d' = s \<and> stream_size d' = stream_size d \<and> 0 < stream_index d'"
    using dl a(2) sel by (simp add: dec_call_def ds fd(2) coded_def)
qed

end

section \<open>Facts about whole calls\<close>

text \<open>Encoding accesses nothing outside the stream and fails only for want of space.\<close>

lemma enc_loop_total:
  assumes "enc_ok W p e" "16777216 \<le> W"
    and "\<And>x. x \<in> set xs \<Longrightarrow> \<exists>d lo hi. f x = Some (d, lo, hi) \<and> 0 \<le> lo \<and> lo < hi \<and> hi < 65536"
  shows "\<exists>ret ds W' p' e'. enc_loop f xs (W, p, e) = Some (ret, ds, W', p', e') \<and> (ret = 0 \<or> ret = - 6440) \<and>
    (ret = 0 \<longrightarrow> enc_ok W' p' e' \<and> 16777216 \<le> W')"
  using assms
proof (induction xs arbitrary: W p e)
  case (Cons x xs)
  obtain d lo hi where fx: "f x = Some (d, lo, hi)" "0 \<le> lo" "lo < hi" "hi < 65536"
    using Cons.prems(3) by fastforce
  obtain ret W1 p1 e1 where es: "enc_symbol lo hi (W, p, e) = Some (ret, W1, p1, e1)" "ret = 0 \<or> ret = - 6440"
    "ret = 0 \<longrightarrow> enc_ok W1 p1 e1 \<and> 16777216 \<le> W1"
    using enc_symbol_spec [OF Cons.prems(1,2) fx(2-4)] unfolding enc_result_def by blast
  show ?case
  proof (cases "ret = 0")
    case True
    then obtain ret' ds W' p' e' where "enc_loop f xs (W1, p1, e1) = Some (ret', ds, W', p', e')"
      "ret' = 0 \<or> ret' = - 6440" "ret' = 0 \<longrightarrow> enc_ok W' p' e' \<and> 16777216 \<le> W'"
      using Cons.IH [of W1 p1 e1] es(3) Cons.prems(3) by (meson list.set_intros(2))
    then show ?thesis using fx(1) es(1) True by simp
  next
    case False
    then show ?thesis using fx(1) es(1,2) by simp
  qed
qed simp

lemma enc_call_total:
  assumes "enc_ready e"
    and "\<And>x. x \<in> set xs \<Longrightarrow> \<exists>d lo hi. f x = Some (d, lo, hi) \<and> 0 \<le> lo \<and> lo < hi \<and> hi < 65536"
  shows "\<exists>ret ds e'. enc_call f xs e = Some (ret, ds, e') \<and> (ret = 0 \<or> ret = - 6440) \<and> (ret = 0 \<longrightarrow> enc_ready e')"
proof -
  obtain ret ds W' p' e' where "enc_loop f xs (W_upper e, stream_index e, e) = Some (ret, ds, W', p', e')"
    "ret = 0 \<or> ret = - 6440" "ret = 0 \<longrightarrow> enc_ok W' p' e' \<and> 16777216 \<le> W'"
    using enc_loop_total [of "W_upper e" "stream_index e" e xs f] assms unfolding enc_ready_def by blast
  then show ?thesis by (auto simp: enc_call_def enc_ready_def enc_ok_def)
qed

text \<open>The first \<open>n\<close> bytes of two streams are the same.\<close>

definition same_bytes :: "nat \<Rightarrow> int list \<Rightarrow> int list \<Rightarrow> bool" where
  "same_bytes n s s' \<longleftrightarrow> (\<forall>i < n. stream_byte s i = stream_byte s' i)"

lemma terminate_inside:
  assumes "enc_ready e" "WebRtcIsacfix_EncTerminate e = Some (n, e2)"
    and "all_u16 s" "203 \<le> length s" "same_bytes (nat n) (stream e2) s"
  shows "code_inside s e"
proof -
  let ?W = "W_upper e" and ?X = "enc_lower (stream_index e) e"
  define t where "t = bytes_used (full e) (stream_index e)"
  have ok: "enc_ok ?W (stream_index e) e" "16777216 \<le> ?W" using assms(1) by (auto simp: enc_ready_def)
  have T: "n = int (final_bytes ?W t)" "code_num (stream e2) (final_bytes ?W t) = final_code ?W ?X"
    using terminate_spec [OF ok assms(2)] by (auto simp: t_def)
  have c: "code_num s (final_bytes ?W t) = final_code ?W ?X"
    using code_num_cong [of "final_bytes ?W t" s "stream e2"] assms(5) T by (auto simp: same_bytes_def)
  have t: "t + 4 \<le> 2 * length s" using ok(1) assms(4) by (simp add: enc_ok_def t_def bytes_used_def)
  show ?thesis
  proof (cases "?W > 0x01FFFFFF")
    case True
    have m: "t + 1 + 3 = t + 4" by simp
    have e: "256 ^ 3 * code_num s (t + 1) \<le> code_num s (t + 4)" "code_num s (t + 4) < 256 ^ 3 * (code_num s (t + 1) + 1)"
      using code_num_extend [OF assms(3), of "t + 1" 3] t unfolding m by auto
    have "code_num s (t + 1) = (?X + 16777216) div 16777216"
      using c True by (simp add: final_bytes_def final_code_def)
    then have "code_num s (t + 1) * 16777216 \<le> ?X + 16777216" "?X < code_num s (t + 1) * 16777216"
      using div_mult_mod_eq [of "?X + 16777216" 16777216] pos_mod_bound [of 16777216 "?X + 16777216"]
        pos_mod_sign [of 16777216 "?X + 16777216"] by linarith+
    then show ?thesis using e True by (simp add: code_inside_def inside_def t_def [symmetric])
  next
    case False
    have m: "t + 2 + 2 = t + 4" by simp
    have e: "256 ^ 2 * code_num s (t + 2) \<le> code_num s (t + 4)" "code_num s (t + 4) < 256 ^ 2 * (code_num s (t + 2) + 1)"
      using code_num_extend [OF assms(3), of "t + 2" 2] t unfolding m by auto
    have "code_num s (t + 2) = (?X + 65536) div 65536"
      using c False by (simp add: final_bytes_def final_code_def)
    then have "code_num s (t + 2) * 65536 \<le> ?X + 65536" "?X < code_num s (t + 2) * 65536"
      using div_mult_mod_eq [of "?X + 65536" 65536] pos_mod_bound [of 65536 "?X + 65536"]
        pos_mod_sign [of 65536 "?X + 65536"] by linarith+
    then show ?thesis using e ok(2) by (simp add: code_inside_def inside_def t_def [symmetric])
  qed
qed

lemma dec_length_coded:
  assumes "coded e d" "0 < stream_index d"
  shows "dec_length d = int (final_bytes (W_upper e) (bytes_used (full e) (stream_index e)))"
  using assms by (auto simp: coded_def dec_length_def final_bytes_def bytes_used_def)

end
