(* ===== verification/IsacHist.thy ===== *)
theory IsacHist
  imports IsacStream
begin

text \<open>
  The histogram coders of \<open>arith_routines_hist.c\<close>: \<open>WebRtcIsacfix_EncHistMulti\<close> and the two decoders,
  one that searches the cumulative table by bisection and one that steps from a start index. Both
  searches are shown to provide the interface \<open>symbol_decoder\<close>.
\<close>

section \<open>Encoder\<close>

text \<open>Reading outside a table is \<open>None\<close>.\<close>

definition hist_item :: "int list \<Rightarrow> int list list \<Rightarrow> nat \<Rightarrow> (int \<times> int \<times> int) option" where
  "hist_item dat cdf k =
     (if k < length dat \<and> k < length cdf \<and> 0 \<le> dat ! k \<and> nat (dat ! k) + 1 < length (cdf ! k)
      then Some (dat ! k, cdf ! k ! nat (dat ! k), cdf ! k ! (nat (dat ! k) + 1))
      else None)"

definition WebRtcIsacfix_EncHistMulti ::
    "Bitstr_enc \<Rightarrow> int list \<Rightarrow> int list list \<Rightarrow> int \<Rightarrow> (int \<times> Bitstr_enc) option" where
  "WebRtcIsacfix_EncHistMulti sd dat cdf lenData =
     map_option (\<lambda>(ret, ds, sd). (ret, sd)) (enc_call (hist_item dat cdf) [0..<nat lenData] sd)"

section \<open>Decoders\<close>

text \<open>The table and the table size (start index) of symbol \<open>k\<close>; \<open>None\<close> outside the arrays.\<close>

definition hist_model :: "int list list \<Rightarrow> nat list \<Rightarrow> nat \<Rightarrow> (int list \<times> nat) option" where
  "hist_model cdf par k = (if k < length cdf \<and> k < length par then Some (cdf ! k, par ! k) else None)"

function bisect :: "int list \<Rightarrow> int \<Rightarrow> int \<Rightarrow> int \<Rightarrow> int \<Rightarrow> nat \<Rightarrow> int \<Rightarrow> (int + int \<times> int \<times> int) option" where
  "bisect cdf W sv W_lower W_hi sizeTmp ptr =
     (if 0 \<le> ptr \<and> nat ptr < length cdf
      then let W_tmp = scale_W W (cdf ! nat ptr); sizeTmp' = sizeTmp div 2
           in if sizeTmp' = 0
              then if sv > W_tmp then Some (Inr (W_tmp, W_hi, to_i16 ptr))
                   else Some (Inr (W_lower, W_tmp, to_i16 (ptr - 1)))
              else if sv > W_tmp then bisect cdf W sv W_tmp W_hi sizeTmp' (ptr + int sizeTmp')
                   else bisect cdf W sv W_lower W_tmp sizeTmp' (ptr - int sizeTmp')
      else None)"
  by pat_completeness auto
termination
  by (relation "measure (\<lambda>(cdf, W, sv, lo, hi, size, ptr). size)") auto

declare bisect.simps [simp del]

definition bisect_search :: "(int list \<times> nat) option \<Rightarrow> int \<Rightarrow> int \<Rightarrow> int \<Rightarrow> (int + int \<times> int \<times> int) option" where
  "bisect_search m W_lower W sv =
     (case m of None \<Rightarrow> None
      | Some (cdf, cdfSize) \<Rightarrow> bisect cdf W sv W_lower W (cdfSize div 2) (int (cdfSize div 2) - 1))"

definition WebRtcIsacfix_DecHistBisectMulti ::
    "Bitstr_dec \<Rightarrow> int list list \<Rightarrow> nat list \<Rightarrow> int \<Rightarrow> (int \<times> int list \<times> Bitstr_dec) option" where
  "WebRtcIsacfix_DecHistBisectMulti sd cdf cdfSize lenData =
     (if W_upper sd = 0 then Some (- 2, [], sd)
      else map_option (\<lambda>(ret, ds, sd). (if ret = 0 then to_i16 (dec_length sd) else ret, ds, sd))
        (dec_call bisect_search dec_renorm True (\<lambda>p. p) (\<lambda>p. p) (map (hist_model cdf cdfSize) [0..<nat lenData]) sd))"

function step_up :: "int list \<Rightarrow> int \<Rightarrow> int \<Rightarrow> int \<Rightarrow> nat \<Rightarrow> (int + int \<times> int \<times> int) option" where
  "step_up cdf W sv W_tmp i =
     (if i < length cdf
      then let W_lower = W_tmp
           in if cdf ! i = 65535 then Some (Inl (- 3))
              else if i + 1 < length cdf
                   then let W_tmp = scale_W W (cdf ! (i + 1))
                        in if sv \<le> W_tmp then Some (Inr (W_lower, W_tmp, to_i16 (int i)))
                           else step_up cdf W sv W_tmp (i + 1)
                   else None
      else None)"
  by pat_completeness auto
termination
  by (relation "measure (\<lambda>(cdf, W, sv, W_tmp, i). length cdf - i)") auto

declare step_up.simps [simp del]

fun step_down :: "int list \<Rightarrow> int \<Rightarrow> int \<Rightarrow> int \<Rightarrow> nat \<Rightarrow> (int + int \<times> int \<times> int) option" where
  "step_down cdf W sv W_tmp 0 = Some (Inl (- 3))"
| "step_down cdf W sv W_tmp (Suc i) =
     (let W_hi = W_tmp
      in if i < length cdf
         then let W_tmp = scale_W W (cdf ! i)
              in if sv > W_tmp then Some (Inr (W_tmp, W_hi, to_i16 (int i)))
                 else step_down cdf W sv W_tmp i
         else None)"

definition one_step_search :: "(int list \<times> nat) option \<Rightarrow> int \<Rightarrow> int \<Rightarrow> int \<Rightarrow> (int + int \<times> int \<times> int) option" where
  "one_step_search m W_lower W sv =
     (case m of None \<Rightarrow> None
      | Some (cdf, initIndex) \<Rightarrow>
          if initIndex < length cdf
          then let W_tmp = scale_W W (cdf ! initIndex)
               in if sv > W_tmp then step_up cdf W sv W_tmp initIndex
                  else step_down cdf W sv W_tmp initIndex
          else None)"

definition WebRtcIsacfix_DecHistOneStepMulti ::
    "Bitstr_dec \<Rightarrow> int list list \<Rightarrow> nat list \<Rightarrow> int \<Rightarrow> (int \<times> int list \<times> Bitstr_dec) option" where
  "WebRtcIsacfix_DecHistOneStepMulti sd cdf initIndex lenData =
     (if W_upper sd = 0 then Some (- 2, [], sd)
      else map_option (\<lambda>(ret, ds, sd). (if ret = 0 then to_i16 (dec_length sd) else ret, ds, sd))
        (dec_call one_step_search dec_renorm False (\<lambda>p. p) (\<lambda>p. p) (map (hist_model cdf initIndex) [0..<nat lenData]) sd))"

section \<open>The searches find the symbol\<close>

definition cdf_ok :: "int list \<Rightarrow> bool" where
  "cdf_ok cdf \<longleftrightarrow> sorted cdf \<and> all_u16 cdf \<and> length cdf \<le> 32768"

definition has_symbol :: "int list \<Rightarrow> int \<Rightarrow> bool" where
  "has_symbol cdf d \<longleftrightarrow> 0 \<le> d \<and> nat d + 1 < length cdf \<and> cdf ! nat d < cdf ! (nat d + 1)"

definition one_step_interval :: "(int list \<times> nat) option \<Rightarrow> int \<Rightarrow> (int \<times> int) option" where
  "one_step_interval m d =
     (case m of None \<Rightarrow> None
      | Some (cdf, initIndex) \<Rightarrow>
          if cdf_ok cdf \<and> initIndex < length cdf \<and> has_symbol cdf d
          then Some (cdf ! nat d, cdf ! (nat d + 1)) else None)"

definition bisect_interval :: "(int list \<times> nat) option \<Rightarrow> int \<Rightarrow> (int \<times> int) option" where
  "bisect_interval m d =
     (case m of None \<Rightarrow> None
      | Some (cdf, cdfSize) \<Rightarrow>
          if cdf_ok cdf \<and> cdfSize = length cdf + 1 \<and> (\<exists>k. cdfSize = 2 ^ k) \<and> has_symbol cdf d
          then Some (cdf ! nat d, cdf ! (nat d + 1)) else None)"

lemma scale_W_mono:
  assumes "0 \<le> W" "W < 4294967296" "0 \<le> c" "c \<le> c'" "c' < 65536"
  shows "scale_W W c \<le> scale_W W c'"
  using assms by (simp add: scale_W_eq zdiv_mono1 mult_left_mono)

text \<open>The code of symbol \<open>d\<close> lies above the table entries up to \<open>d\<close> and not above the later ones.\<close>

lemma above_entry:
  assumes "cdf_ok cdf" "has_symbol cdf d" "0 \<le> W" "W < 4294967296" "i < length cdf"
    and "scale_W W (cdf ! nat d) < sv" "sv \<le> scale_W W (cdf ! (nat d + 1))"
  shows "sv > scale_W W (cdf ! i) \<longleftrightarrow> i \<le> nat d"
proof -
  have c: "sorted cdf" "\<And>j. j < length cdf \<Longrightarrow> 0 \<le> cdf ! j \<and> cdf ! j < 65536"
    using assms(1) all_u16_nth by (auto simp: cdf_ok_def)
  have d: "nat d + 1 < length cdf" using assms(2) by (simp add: has_symbol_def)
  show ?thesis
  proof (cases "i \<le> nat d")
    case True
    then have "cdf ! i \<le> cdf ! nat d" using c(1) d by (simp add: sorted_nth_mono)
    then have "scale_W W (cdf ! i) \<le> scale_W W (cdf ! nat d)"
      using c(2) [of i] c(2) [of "nat d"] d assms(3-5) by (intro scale_W_mono) auto
    with True assms(6) show ?thesis by simp
  next
    case False
    then have "cdf ! (nat d + 1) \<le> cdf ! i" using c(1) assms(5) by (simp add: sorted_nth_mono)
    then have "scale_W W (cdf ! (nat d + 1)) \<le> scale_W W (cdf ! i)"
      using c(2) [of i] c(2) [of "nat d + 1"] d assms(3-5) by (intro scale_W_mono) auto
    with False assms(7) show ?thesis by simp
  qed
qed

lemma symbol_small: "cdf_ok cdf \<Longrightarrow> has_symbol cdf d \<Longrightarrow> to_i16 d = d"
  by (intro to_i16_id) (auto simp: cdf_ok_def has_symbol_def is_i16_def)

lemma step_up_finds:
  assumes "cdf_ok cdf" "has_symbol cdf d" "0 \<le> W" "W < 4294967296"
    and "scale_W W (cdf ! nat d) < sv" "sv \<le> scale_W W (cdf ! (nat d + 1))" and "i \<le> nat d"
  shows "step_up cdf W sv (scale_W W (cdf ! i)) i
    = Some (Inr (scale_W W (cdf ! nat d), scale_W W (cdf ! (nat d + 1)), d))"
  using assms(7)
proof (induction "nat d - i" arbitrary: i)
  case 0
  then have i: "i = nat d" by simp
  have d: "0 \<le> d" "nat d + 1 < length cdf" "cdf ! nat d < cdf ! (nat d + 1)" using assms(2) by (auto simp: has_symbol_def)
  have "cdf ! (nat d + 1) < 65536" using assms(1) all_u16_nth d(2) by (auto simp: cdf_ok_def)
  then show ?case using d assms(6) symbol_small [OF assms(1,2)]
    by (simp add: i step_up.simps Let_def)
next
  case (Suc n)
  then have i: "i < nat d" by simp
  have d: "nat d + 1 < length cdf" using assms(2) by (auto simp: has_symbol_def)
  have "cdf ! i \<le> cdf ! nat d" using assms(1) i d by (simp add: cdf_ok_def sorted_nth_mono)
  moreover have "cdf ! nat d < cdf ! (nat d + 1)" "cdf ! (nat d + 1) < 65536"
    using assms(1,2) all_u16_nth d by (auto simp: cdf_ok_def has_symbol_def)
  ultimately have ne: "cdf ! i \<noteq> 65535" by simp
  have "sv > scale_W W (cdf ! (i + 1))" using above_entry [OF assms(1-4) _ assms(5,6), of "i + 1"] i d by simp
  then show ?case using Suc.hyps(1) [of "i + 1"] Suc.hyps(2) i d ne
    by (subst step_up.simps) (simp add: Let_def)
qed

lemma step_down_finds:
  assumes "cdf_ok cdf" "has_symbol cdf d" "0 \<le> W" "W < 4294967296"
    and "scale_W W (cdf ! nat d) < sv" "sv \<le> scale_W W (cdf ! (nat d + 1))" and "nat d < i" "i < length cdf"
  shows "step_down cdf W sv (scale_W W (cdf ! i)) i
    = Some (Inr (scale_W W (cdf ! nat d), scale_W W (cdf ! (nat d + 1)), d))"
  using assms(7,8)
proof (induction i)
  case (Suc i)
  have "0 \<le> d" using assms(2) by (simp add: has_symbol_def)
  then show ?case using Suc above_entry [OF assms(1-4) _ assms(5,6), of i] symbol_small [OF assms(1,2)] assms(5)
    by (cases "i = nat d") (auto simp: Let_def)
qed simp

lemma bisect_finds:
  assumes "cdf_ok cdf" "has_symbol cdf d" "0 \<le> W" "W < 4294967296"
    and "scale_W W (cdf ! nat d) < sv" "sv \<le> scale_W W (cdf ! (nat d + 1))"
    and "ptr - 2 ^ j \<le> d" "d < ptr + 2 ^ j" "- 1 \<le> ptr - 2 ^ j" "ptr + 2 ^ j \<le> int (length cdf)"
    and "ptr - 2 ^ j \<noteq> - 1 \<Longrightarrow> W_lower = scale_W W (cdf ! nat (ptr - 2 ^ j))"
    and "ptr + 2 ^ j \<noteq> int (length cdf) \<Longrightarrow> W_hi = scale_W W (cdf ! nat (ptr + 2 ^ j))"
  shows "bisect cdf W sv W_lower W_hi (2 ^ j) ptr
    = Some (Inr (scale_W W (cdf ! nat d), scale_W W (cdf ! (nat d + 1)), d))"
  using assms(7-12)
proof (induction j arbitrary: ptr W_lower W_hi)
  case 0
  have d: "0 \<le> d" "nat d + 1 < length cdf" using assms(2) by (auto simp: has_symbol_def)
  have p: "0 \<le> ptr" "nat ptr < length cdf" using 0 by auto
  note a = above_entry [OF assms(1-4) p(2) assms(5,6)]
  note sm = symbol_small [OF assms(1,2)]
  show ?case
  proof (cases "sv > scale_W W (cdf ! nat ptr)")
    case True
    then have "ptr \<le> d" using a d(1) by auto
    then have "d = ptr" using 0(2) by simp
    moreover have "W_hi = scale_W W (cdf ! (nat d + 1))" using 0(6) d \<open>d = ptr\<close> by (auto simp: nat_add_distrib)
    ultimately show ?thesis using True p sm by (simp add: bisect.simps Let_def)
  next
    case False
    then have "d = ptr - 1" using a 0(1,2) d(1) by auto
    moreover have "W_lower = scale_W W (cdf ! nat d)" using 0(5) d \<open>d = ptr - 1\<close> by auto
    moreover have "nat ptr = nat d + 1" using d(1) \<open>d = ptr - 1\<close> by auto
    ultimately show ?thesis using False p sm by (simp add: bisect.simps Let_def)
  qed
next
  case (Suc j)
  have p: "0 \<le> ptr" "nat ptr < length cdf"
    using Suc.prems by auto
  note a = above_entry [OF assms(1-4) p(2) assms(5,6)]
  have d: "0 \<le> d" using assms(2) by (auto simp: has_symbol_def)
  have h: "(2 :: nat) ^ Suc j div 2 = 2 ^ j" by simp
  have e: "(2 :: int) ^ Suc j = 2 ^ j + 2 ^ j" by simp
  show ?case
  proof (cases "sv > scale_W W (cdf ! nat ptr)")
    case True
    then have "ptr \<le> d" using a d by auto
    then have "bisect cdf W sv (scale_W W (cdf ! nat ptr)) W_hi (2 ^ j) (ptr + 2 ^ j)
        = Some (Inr (scale_W W (cdf ! nat d), scale_W W (cdf ! (nat d + 1)), d))"
      using Suc.prems p unfolding e by (intro Suc.IH) (auto simp: add.assoc)
    then show ?thesis using True p by (subst bisect.simps) (simp add: Let_def h)
  next
    case False
    then have "d < ptr" using a d by auto
    then have "bisect cdf W sv W_lower (scale_W W (cdf ! nat ptr)) (2 ^ j) (ptr - 2 ^ j)
        = Some (Inr (scale_W W (cdf ! nat d), scale_W W (cdf ! (nat d + 1)), d))"
      using Suc.prems p unfolding e by (intro Suc.IH) (auto simp: diff_diff_eq)
    then show ?thesis using False p by (subst bisect.simps) (simp add: Let_def h)
  qed
qed

section \<open>Both searches provide the interface\<close>

lemma hist_interval_range:
  "one_step_interval m d = Some (lo, hi) \<Longrightarrow> 0 \<le> lo \<and> lo < hi \<and> hi < 65536"
  "bisect_interval m d = Some (lo, hi) \<Longrightarrow> 0 \<le> lo \<and> lo < hi \<and> hi < 65536"
proof -
  have *: "0 \<le> cdf ! nat d \<and> cdf ! nat d < cdf ! (nat d + 1) \<and> cdf ! (nat d + 1) < 65536"
    if "cdf_ok cdf" "has_symbol cdf d" for cdf
    using that all_u16_nth [of cdf "nat d"] all_u16_nth [of cdf "nat d + 1"] by (auto simp: cdf_ok_def has_symbol_def)
  show "one_step_interval m d = Some (lo, hi) \<Longrightarrow> 0 \<le> lo \<and> lo < hi \<and> hi < 65536"
    using * by (fastforce simp: one_step_interval_def split: option.splits if_splits)
  show "bisect_interval m d = Some (lo, hi) \<Longrightarrow> 0 \<le> lo \<and> lo < hi \<and> hi < 65536"
    using * by (fastforce simp: bisect_interval_def split: option.splits if_splits)
qed

lemma one_step_search_finds:
  assumes "one_step_interval m d = Some (lo, hi)" "16777216 \<le> W" "W < 4294967296"
    and "scale_W W lo < sv" "sv \<le> scale_W W hi"
  shows "one_step_search m wl W sv = Some (Inr (scale_W W lo, scale_W W hi, d))"
proof -
  obtain cdf i where m: "m = Some (cdf, i)" "cdf_ok cdf" "i < length cdf" "has_symbol cdf d"
      "lo = cdf ! nat d" "hi = cdf ! (nat d + 1)"
    using assms(1) by (auto simp: one_step_interval_def split: option.splits if_splits)
  have W: "0 \<le> W" using assms(2) by simp
  note a = above_entry [OF m(2,4) W assms(3) m(3) assms(4,5) [unfolded m(5,6)]]
  show ?thesis
  proof (cases "i \<le> nat d")
    case True
    then show ?thesis using a m step_up_finds [OF m(2,4) W assms(3) assms(4,5) [unfolded m(5,6)] True]
      by (simp add: one_step_search_def Let_def)
  next
    case False
    then show ?thesis using a m step_down_finds [OF m(2,4) W assms(3) assms(4,5) [unfolded m(5,6)], of i]
      by (simp add: one_step_search_def Let_def)
  qed
qed

lemma bisect_search_finds:
  assumes "bisect_interval m d = Some (lo, hi)" "16777216 \<le> W" "W < 4294967296"
    and "scale_W W lo < sv" "sv \<le> scale_W W hi"
  shows "bisect_search m wl W sv = Some (Inr (scale_W W lo, scale_W W hi, d))"
proof -
  obtain cdf k where m: "m = Some (cdf, 2 ^ k)" "cdf_ok cdf" "2 ^ k = length cdf + 1" "has_symbol cdf d"
      "lo = cdf ! nat d" "hi = cdf ! (nat d + 1)"
    using assms(1) by (auto simp: bisect_interval_def split: option.splits if_splits)
  have W: "0 \<le> W" using assms(2) by simp
  have d: "0 \<le> d" "nat d + 1 < length cdf" using m(4) by (auto simp: has_symbol_def)
  then have "k \<noteq> 0" using m(3) by (cases k) auto
  then obtain j where k: "k = Suc j" by (cases k) auto
  have len: "int (length cdf) = 2 ^ j + 2 ^ j - 1"
  proof -
    have "int (2 ^ k) = int (length cdf + 1)" using m(3) by (simp only:)
    then show ?thesis by (simp add: k)
  qed
  have dlen: "d + 1 < int (length cdf)" using d by linarith
  have "bisect cdf W sv wl W (2 ^ j) (int (2 ^ j) - 1)
      = Some (Inr (scale_W W (cdf ! nat d), scale_W W (cdf ! (nat d + 1)), d))"
    using d(1) dlen len by (intro bisect_finds [OF m(2,4) W assms(3) assms(4,5) [unfolded m(5,6)]]) auto
  then show ?thesis using m(1,5,6) by (simp add: bisect_search_def k)
qed

interpretation one_step: symbol_decoder one_step_search dec_renorm one_step_interval "\<lambda>n. n" "\<lambda>p. p" "\<lambda>p d. True"
  using hist_interval_range(1) one_step_search_finds dec_renorm_spec
  by unfold_locales auto

interpretation bisection: symbol_decoder bisect_search dec_renorm bisect_interval "\<lambda>n. n" "\<lambda>p. p" "\<lambda>p d. True"
  using hist_interval_range(2) bisect_search_finds dec_renorm_spec
  by unfold_locales auto

section \<open>Whole calls\<close>

lemma enc_loop_hist_data:
  "enc_loop (hist_item dat cdf) ks L = Some (0, ds, L') \<Longrightarrow> ds = map ((!) dat) ks"
  by (induction ks arbitrary: L ds)
     (auto simp: hist_item_def split: option.splits if_splits prod.splits)

lemma EncHistMulti_call:
  assumes "WebRtcIsacfix_EncHistMulti e dat cdf n = Some (0, e')"
  shows "enc_call (hist_item dat cdf) [0..<nat n] e = Some (0, map ((!) dat) [0..<nat n], e')"
proof -
  obtain ds where c: "enc_call (hist_item dat cdf) [0..<nat n] e = Some (0, ds, e')"
    using assms by (auto simp: WebRtcIsacfix_EncHistMulti_def)
  then show ?thesis using enc_loop_hist_data
    by (fastforce simp: enc_call_def split: option.splits if_splits)
qed

definition one_step_tables :: "int list \<Rightarrow> int list list \<Rightarrow> nat list \<Rightarrow> int \<Rightarrow> bool" where
  "one_step_tables dat cdf init n \<longleftrightarrow> nat n \<le> length dat \<and> nat n \<le> length cdf \<and> nat n \<le> length init \<and>
     (\<forall>k < nat n. cdf_ok (cdf ! k) \<and> init ! k < length (cdf ! k) \<and> has_symbol (cdf ! k) (dat ! k))"

definition bisect_tables :: "int list \<Rightarrow> int list list \<Rightarrow> nat list \<Rightarrow> int \<Rightarrow> bool" where
  "bisect_tables dat cdf sizes n \<longleftrightarrow> nat n \<le> length dat \<and> nat n \<le> length cdf \<and> nat n \<le> length sizes \<and>
     (\<forall>k < nat n. cdf_ok (cdf ! k) \<and> sizes ! k = length (cdf ! k) + 1 \<and> (\<exists>j. sizes ! k = 2 ^ j) \<and>
        has_symbol (cdf ! k) (dat ! k))"

text \<open>What one call of an encoder and the matching call of a decoder do to the streams.\<close>

definition call_ok :: "Bitstr_enc \<Rightarrow> Bitstr_enc \<Rightarrow> int list \<Rightarrow>
    (Bitstr_dec \<Rightarrow> (int \<times> int list \<times> Bitstr_dec) option) \<Rightarrow> int list \<Rightarrow> (Bitstr_dec \<Rightarrow> bool) \<Rightarrow> bool" where
  "call_ok e e' ds dec s good \<longleftrightarrow> enc_ready e' \<and> (code_inside s e' \<longrightarrow> code_inside s e \<and>
     (\<forall>d. stream d = s \<longrightarrow> coded e d \<longrightarrow> good d \<longrightarrow>
       (\<exists>d'. dec d = Some (int (final_bytes (W_upper e') (bytes_used (full e') (stream_index e'))), ds, d') \<and>
          coded e' d' \<and> stream d' = s \<and> stream_size d' = stream_size d \<and> 0 < stream_index d')))"

lemma final_bytes_small:
  assumes "enc_ready e" shows "to_i16 (int (final_bytes (W_upper e) (bytes_used (full e) (stream_index e))))
    = int (final_bytes (W_upper e) (bytes_used (full e) (stream_index e)))"
  using assms by (intro to_i16_id) (auto simp: enc_ready_def enc_ok_def final_bytes_def bytes_used_def is_i16_def)

lemma one_step_call_ok:
  assumes "WebRtcIsacfix_EncHistMulti e dat cdf n = Some (0, e')" "enc_ready e" "one_step_tables dat cdf init n"
    and "all_u16 s" "203 \<le> length s"
  shows "call_ok e e' (take (nat n) dat) (\<lambda>d. WebRtcIsacfix_DecHistOneStepMulti d cdf init n) s (\<lambda>d. True)"
proof -
  let ?ms = "map (hist_model cdf init) [0..<nat n]"
  have ds: "map ((!) dat) [0..<nat n] = take (nat n) dat"
    using assms(3) by (intro nth_equalityI) (auto simp: one_step_tables_def)
  note c = EncHistMulti_call [OF assms(1), unfolded ds]
  have iv: "one_step_interval (?ms ! i) d = Some (lo, hi)"
    if "i < length [0..<nat n]" "hist_item dat cdf ([0..<nat n] ! i) = Some (d, lo, hi)" for i d lo hi
    using that assms(3) by (auto simp: hist_item_def hist_model_def one_step_interval_def one_step_tables_def split: if_splits)
  note F = one_step.call_follows [OF c assms(2) _ iv assms(4,5), simplified]
  have W: "W_upper e \<noteq> 0" using assms(2) by (auto simp: enc_ready_def)
  show ?thesis unfolding call_ok_def
  proof (intro conjI impI allI)
    show r: "enc_ready e'" by (rule F(1))
    assume ins: "code_inside s e'"
    then show "code_inside s e" by (rule F(2))
    fix d assume d: "stream d = s" "coded e d"
    then obtain d' where d': "dec_call one_step_search dec_renorm False (\<lambda>p. p) (\<lambda>p. p) ?ms d = Some (0, take (nat n) dat, d')"
      "coded e' d'" "stream d' = s" "stream_size d' = stream_size d" "0 < stream_index d'"
      using F(3) [OF ins] by metis
    have "W_upper d \<noteq> 0" using W d(2) by (simp add: coded_def)
    then show "\<exists>d'. WebRtcIsacfix_DecHistOneStepMulti d cdf init n
        = Some (int (final_bytes (W_upper e') (bytes_used (full e') (stream_index e'))), take (nat n) dat, d') \<and>
        coded e' d' \<and> stream d' = s \<and> stream_size d' = stream_size d \<and> 0 < stream_index d'"
      using d' dec_length_coded [OF d'(2,5)] final_bytes_small [OF r]
      by (simp add: WebRtcIsacfix_DecHistOneStepMulti_def)
  qed
qed

lemma bisect_call_ok:
  assumes "WebRtcIsacfix_EncHistMulti e dat cdf n = Some (0, e')" "enc_ready e" "bisect_tables dat cdf sizes n"
    and "all_u16 s" "203 \<le> length s"
  shows "call_ok e e' (take (nat n) dat) (\<lambda>d. WebRtcIsacfix_DecHistBisectMulti d cdf sizes n) s (\<lambda>d. True)"
proof -
  let ?ms = "map (hist_model cdf sizes) [0..<nat n]"
  have ds: "map ((!) dat) [0..<nat n] = take (nat n) dat"
    using assms(3) by (intro nth_equalityI) (auto simp: bisect_tables_def)
  note c = EncHistMulti_call [OF assms(1), unfolded ds]
  have iv: "bisect_interval (?ms ! i) d = Some (lo, hi)"
    if "i < length [0..<nat n]" "hist_item dat cdf ([0..<nat n] ! i) = Some (d, lo, hi)" for i d lo hi
  proof -
    have i: "i < nat n" using that(1) by simp
    then have "cdf_ok (cdf ! i)" "sizes ! i = length (cdf ! i) + 1" "\<exists>j. length (cdf ! i) + 1 = 2 ^ j"
      "has_symbol (cdf ! i) (dat ! i)" "i < length cdf" "i < length sizes"
      using assms(3) by (auto simp: bisect_tables_def) metis
    then show ?thesis using that i
      by (auto simp: hist_item_def hist_model_def bisect_interval_def split: if_splits)
  qed
  note F = bisection.call_follows [OF c assms(2) _ iv assms(4,5), simplified]
  have W: "W_upper e \<noteq> 0" using assms(2) by (auto simp: enc_ready_def)
  show ?thesis unfolding call_ok_def
  proof (intro conjI impI allI)
    show r: "enc_ready e'" by (rule F(1))
    assume ins: "code_inside s e'"
    then show "code_inside s e" by (rule F(2))
    fix d assume d: "stream d = s" "coded e d"
    then obtain d' where d': "dec_call bisect_search dec_renorm True (\<lambda>p. p) (\<lambda>p. p) ?ms d = Some (0, take (nat n) dat, d')"
      "coded e' d'" "stream d' = s" "stream_size d' = stream_size d" "0 < stream_index d'"
      using F(3) [OF ins] by metis
    have "W_upper d \<noteq> 0" using W d(2) by (simp add: coded_def)
    then show "\<exists>d'. WebRtcIsacfix_DecHistBisectMulti d cdf sizes n
        = Some (int (final_bytes (W_upper e') (bytes_used (full e') (stream_index e'))), take (nat n) dat, d') \<and>
        coded e' d' \<and> stream d' = s \<and> stream_size d' = stream_size d \<and> 0 < stream_index d'"
      using d' dec_length_coded [OF d'(2,5)] final_bytes_small [OF r]
      by (simp add: WebRtcIsacfix_DecHistBisectMulti_def)
  qed
qed

end
