(* ===== verification/IsacLogist.thy ===== *)
theory IsacLogist
  imports IsacHist SplInline
begin

text \<open>
  The coder of the spectrum, \<open>arith_routines_logist.c\<close>: the symbols have a logistic distribution whose
  cumulative function is piecewise linear, with a width that the envelope gives for every four
  samples. The encoder clips a sample whose probability is too small; the decoder computes the
  envelope as a square root and steps through the candidates from the dither value outwards.

  \<open>None\<close> is an access outside an array, a division by zero, or a loop that does not end (the loops
  whose end depends on the data are \<open>partial_function (option)\<close>).
\<close>

section \<open>The cumulative function\<close>

definition kHistEdges :: "int list" where
  "kHistEdges = [
  -327680, -314573, -301466, -288359, -275252, -262144, -249037, -235930, -222823, -209716,
  -196608, -183501, -170394, -157287, -144180, -131072, -117965, -104858,  -91751,  -78644,
  -65536,  -52429,  -39322,  -26215,  -13108,       0,   13107,   26214,   39321,   52428,
  65536,   78643,   91750,  104857,  117964,  131072,  144179,  157286,  170393,  183500,
  196608,  209715,  222822,  235929,  249036,  262144,  275251,  288358,  301465,  314572,
  327680]"

definition kCdfSlope :: "int list" where
  "kCdfSlope = [
  5,    5,     5,     5,     5,     5,     5,     5,    5,    5,
  5,    5,    13,    23,    47,    87,   154,   315,  700, 1088,
  2471, 6064, 14221, 21463, 36634, 36924, 19750, 13270, 5806, 2312,
  1095,  660,   316,   145,    86,    41,    32,     5,    5,    5,
  5,    5,     5,     5,     5,     5,     5,     5,    5,    2,
  0]"

definition kCdfLogistic :: "int list" where
  "kCdfLogistic = [
  0,     2,     4,     6,     8,    10,    12,    14,    16,    18,
  20,    22,    24,    29,    38,    57,    92,   153,   279,   559,
  994,  1983,  4408, 10097, 18682, 33336, 48105, 56005, 61313, 63636,
  64560, 64998, 65262, 65389, 65447, 65481, 65497, 65510, 65512, 65514,
  65516, 65518, 65520, 65522, 65524, 65526, 65528, 65530, 65532, 65534,
  65535]"

definition WebRtcIsacfix_Piecewise :: "int \<Rightarrow> int" where
  "WebRtcIsacfix_Piecewise xinQ15 =
     (let qtmp1 = SPL_SAT (kHistEdges ! 50) xinQ15 (kHistEdges ! 0);
          ind = shr (to_i32 (5 * (qtmp1 - kHistEdges ! 0))) 16;
          qtmp1 = qtmp1 - kHistEdges ! nat ind;
          qtmp2 = to_u16 (shr (to_u32 (to_u32 qtmp1 * kCdfSlope ! nat ind)) 15)
      in to_u16 (kCdfLogistic ! nat ind + qtmp2))"

definition mul_16_u16 :: "int \<Rightarrow> int \<Rightarrow> int" where
  "mul_16_u16 a b = to_i16 a * to_u16 b"

section \<open>Encoder\<close>

text \<open>The clipping loop, from a sample and its interval.\<close>

partial_function (option) logistic_clip :: "int \<Rightarrow> int \<Rightarrow> int \<Rightarrow> int \<Rightarrow> (int \<times> int \<times> int) option" where
  "logistic_clip env dataQ7 cdfLo cdfHi =
     (if cdfLo + 1 \<ge> cdfHi
      then if dataQ7 > 0
           then logistic_clip env (to_i16 (dataQ7 - 128))
                  (WebRtcIsacfix_Piecewise (mul_16_u16 (to_i16 (dataQ7 - 128) - 64) env)) cdfLo
           else logistic_clip env (to_i16 (dataQ7 + 128)) cdfHi
                  (WebRtcIsacfix_Piecewise (mul_16_u16 (to_i16 (dataQ7 + 128) + 64) env))
      else Some (dataQ7, cdfLo, cdfHi))"

text \<open>The envelope pointer advances by \<open>(k & 1) & (k >> 1)\<close>, once in four samples.\<close>

fun env_index :: "nat \<Rightarrow> nat" where
  "env_index 0 = 0"
| "env_index (Suc k) = env_index k + ((k AND 1) AND drop_bit 1 k)"

definition logistic_item :: "int list \<Rightarrow> int list \<Rightarrow> nat \<Rightarrow> (int \<times> int \<times> int) option" where
  "logistic_item dataQ7 envQ8 k =
     (if k < length dataQ7 \<and> env_index k < length envQ8
      then let d = dataQ7 ! k; env = envQ8 ! env_index k
           in logistic_clip env d (WebRtcIsacfix_Piecewise (mul_16_u16 (d - 64) env))
                (WebRtcIsacfix_Piecewise (mul_16_u16 (d + 64) env))
      else None)"

definition WebRtcIsacfix_EncLogisticMulti2 ::
    "Bitstr_enc \<Rightarrow> int list \<Rightarrow> int list \<Rightarrow> int \<Rightarrow> (int \<times> int list \<times> Bitstr_enc) option" where
  "WebRtcIsacfix_EncLogisticMulti2 sd dataQ7 envQ8 lenData =
     map_option (\<lambda>(ret, ds, sd). (ret, ds @ drop (length ds) dataQ7, sd))
       (enc_call (logistic_item dataQ7 envQ8) [0..<nat lenData] sd)"

section \<open>Decoder\<close>

text \<open>The Newton iteration for the square root, at most eleven steps.\<close>

fun newton_sqrt :: "nat \<Rightarrow> int \<Rightarrow> int \<Rightarrow> (int \<times> int) option" where
  "newton_sqrt i inSqrt newRes =
     (let res = newRes
      in if res = 0 then None
         else let newRes = shr (to_i32 (c_div inSqrt res + res)) 1
              in if newRes \<noteq> res
                 then case i of 0 \<Rightarrow> Some (res, newRes) | Suc i \<Rightarrow> newton_sqrt i inSqrt newRes
                 else Some (res, newRes))"

declare newton_sqrt.simps [simp del]

text \<open>The magnitudes of all blocks; \<open>res\<close> is carried from block to block. The list ends where a
  division by zero would occur.\<close>

fun magnitudes :: "int \<Rightarrow> int list \<Rightarrow> int list" where
  "magnitudes res [] = []"
| "magnitudes res (x # xs) =
     (let inSqrt = (if x < 0 then to_i32 (- x) else x)
      in if res = 0 then []
         else case newton_sqrt 10 inSqrt (shr (to_i32 (c_div inSqrt res + res)) 1) of
                None \<Rightarrow> []
              | Some (res, newRes) \<Rightarrow> to_u16 newRes # magnitudes res xs)"

definition envelope_magnitudes :: "int list \<Rightarrow> int list" where
  "envelope_magnitudes envQ8 =
     (case envQ8 of [] \<Rightarrow> []
      | x # xs \<Rightarrow> magnitudes (shl 1 (nat (shr (WebRtcSpl_GetSizeInBits (to_u32 x)) 1))) envQ8)"

definition logist_model :: "int list \<Rightarrow> int list \<Rightarrow> nat \<Rightarrow> (int \<times> int) option" where
  "logist_model dither mags k =
     (if k < length dither \<and> k div 4 < length mags then Some (dither ! k, mags ! (k div 4)) else None)"

partial_function (option) logist_up ::
    "int \<Rightarrow> int \<Rightarrow> int \<Rightarrow> int \<Rightarrow> int \<Rightarrow> int \<Rightarrow> (int + int \<times> int \<times> int) option" where
  "logist_up W env sv W_lower candQ7 W_tmp =
     (if sv > W_tmp
      then let W_lower = W_tmp; candQ7 = to_i16 (candQ7 + 128);
               W_tmp = scale_W W (WebRtcIsacfix_Piecewise (mul_16_u16 candQ7 env))
           in if W_lower = W_tmp then Some (Inl (- 1)) else logist_up W env sv W_lower candQ7 W_tmp
      else Some (Inr (W_lower, W_tmp, to_i16 (candQ7 - 64))))"

partial_function (option) logist_down ::
    "int \<Rightarrow> int \<Rightarrow> int \<Rightarrow> int \<Rightarrow> int \<Rightarrow> int \<Rightarrow> (int + int \<times> int \<times> int) option" where
  "logist_down W env sv W_hi candQ7 W_tmp =
     (if \<not> (sv > W_tmp)
      then let W_hi = W_tmp; candQ7 = to_i16 (candQ7 - 128);
               W_tmp = scale_W W (WebRtcIsacfix_Piecewise (mul_16_u16 candQ7 env))
           in if W_hi = W_tmp then Some (Inl (- 1)) else logist_down W env sv W_hi candQ7 W_tmp
      else Some (Inr (W_tmp, W_hi, to_i16 (candQ7 + 64))))"

definition logist_search :: "(int \<times> int) option \<Rightarrow> int \<Rightarrow> int \<Rightarrow> int \<Rightarrow> (int + int \<times> int \<times> int) option" where
  "logist_search m W_lower W sv =
     (case m of None \<Rightarrow> None
      | Some (dither, env) \<Rightarrow>
          (let candQ7 = to_i16 (- dither + 64);
               W_tmp = scale_W W (WebRtcIsacfix_Piecewise (mul_16_u16 candQ7 env))
           in if sv > W_tmp
              then let W_lower = W_tmp; candQ7 = to_i16 (candQ7 + 128)
                   in logist_up W env sv W_lower candQ7 (scale_W W (WebRtcIsacfix_Piecewise (mul_16_u16 candQ7 env)))
              else let W_hi = W_tmp; candQ7 = to_i16 (candQ7 - 128)
                   in logist_down W env sv W_hi candQ7 (scale_W W (WebRtcIsacfix_Piecewise (mul_16_u16 candQ7 env)))))"

text \<open>Refilling reads zeros past the end of the stream; the pointer stays and \<open>offset\<close> counts.\<close>

partial_function (option) logist_refill ::
    "int \<Rightarrow> int \<Rightarrow> nat \<times> nat \<Rightarrow> Bitstr_dec \<Rightarrow> (int \<times> int \<times> (nat \<times> nat) \<times> Bitstr_dec) option" where
  "logist_refill W sv p sd =
     (if W AND 0xFF000000 = 0
      then if fst p < stream_size sd
           then Option.bind (get_byte sv (fst p) sd)
                  (\<lambda>r. logist_refill (to_u32 (shl W 8)) (fst r) (fst (snd r), snd p) (snd (snd r)))
           else if full sd = 0
                then logist_refill (to_u32 (shl W 8)) (to_u32 (shl sv 8)) (fst p, snd p + 1) (sd\<lparr>full := 1\<rparr>)
                else logist_refill (to_u32 (shl W 8)) (to_u32 (shl sv 8)) p (sd\<lparr>full := 0\<rparr>)
      else Some (W, sv, p, sd))"

definition WebRtcIsacfix_DecLogisticMulti2 ::
    "int list \<Rightarrow> Bitstr_dec \<Rightarrow> int list \<Rightarrow> int \<Rightarrow> (int \<times> int list \<times> Bitstr_dec) option" where
  "WebRtcIsacfix_DecLogisticMulti2 dataQ7 sd envQ8 lenData =
     map_option (\<lambda>(ret, ds, sd). (if ret = 0 then dec_length sd else ret, ds @ drop (length ds) dataQ7, sd))
       (dec_call logist_search logist_refill False (\<lambda>n. (n, 0)) (\<lambda>(p, offset). p + offset)
          (map (logist_model dataQ7 (envelope_magnitudes envQ8)) [0..<4 * nat ((lenData + 3) div 4)]) sd)"

declare logistic_clip.simps [code] logist_up.simps [code] logist_down.simps [code] logist_refill.simps [code]

section \<open>The cumulative function is monotone\<close>

lemma logistic_tables:
  "\<forall>i \<in> set [0..<50]. kHistEdges ! i \<le> (65536 * int i + 4) div 5 - 327680 \<and> 0 \<le> kCdfSlope ! i \<and> kCdfSlope ! i < 65536 \<and>
     0 \<le> kCdfLogistic ! i \<and> (65536 * (int i + 1) + 4) div 5 - 327681 - kHistEdges ! i < 65536 \<and>
     kCdfLogistic ! i + ((65536 * (int i + 1) + 4) div 5 - 327681 - kHistEdges ! i) * kCdfSlope ! i div 32768
       \<le> kCdfLogistic ! (i + 1)"
  by code_simp


lemma logistic_segment:
  assumes "i < 50"
  shows "kHistEdges ! i \<le> (65536 * int i + 4) div 5 - 327680" "0 \<le> kCdfSlope ! i" "kCdfSlope ! i < 65536"
    "0 \<le> kCdfLogistic ! i" "(65536 * (int i + 1) + 4) div 5 - 327681 - kHistEdges ! i < 65536"
    "kCdfLogistic ! i + ((65536 * (int i + 1) + 4) div 5 - 327681 - kHistEdges ! i) * kCdfSlope ! i div 32768
       \<le> kCdfLogistic ! (i + 1)"
  using logistic_tables assms by auto

lemma logistic_sorted: "sorted kCdfLogistic" "length kCdfLogistic = 51" "kCdfLogistic ! 50 = 65535"
  by code_simp+

lemma kHistEdges_ends: "kHistEdges ! 50 = 327680" "kHistEdges ! 0 = - 327680" "kCdfSlope ! 50 = 0"
  by (simp_all add: kHistEdges_def kCdfSlope_def)

definition clamp_Q15 :: "int \<Rightarrow> int" where
  "clamp_Q15 x = max (- 327680) (min 327680 x)"

definition segment :: "int \<Rightarrow> nat" where
  "segment x = nat (5 * (clamp_Q15 x + 327680) div 65536)"

lemma segment_bounds:
  "segment x \<le> 50" "65536 * int (segment x) \<le> 5 * (clamp_Q15 x + 327680)"
  "5 * (clamp_Q15 x + 327680) < 65536 * (int (segment x) + 1)"
  "segment x = 50 \<longleftrightarrow> clamp_Q15 x = 327680"
proof -
  define y where "y = 5 * (clamp_Q15 x + 327680)"
  have y: "0 \<le> y" "y \<le> 3276800" by (auto simp: y_def clamp_Q15_def)
  have s: "int (segment x) = y div 65536"
    unfolding segment_def y_def [symmetric] using y by (simp add: pos_imp_zdiv_nonneg_iff)
  define Q r where "Q = y div 65536" and "r = y mod 65536"
  have d: "Q * 65536 + r = y" "0 \<le> r" "r < 65536" by (simp_all add: Q_def r_def)
  show "65536 * int (segment x) \<le> 5 * (clamp_Q15 x + 327680)" "5 * (clamp_Q15 x + 327680) < 65536 * (int (segment x) + 1)"
    unfolding s y_def [symmetric] Q_def [symmetric] using d(2,3) unfolding d(1) [symmetric] by (simp_all add: distrib_left)
  have "y div 65536 \<le> 3276800 div 65536" using y(2) by (rule zdiv_mono1) simp
  then show "segment x \<le> 50" using s by simp
  have "segment x = 50 \<longleftrightarrow> int (segment x) = 50" by simp
  also have "\<dots> \<longleftrightarrow> y = 3276800" using d y unfolding s Q_def [symmetric] by linarith
  finally show "segment x = 50 \<longleftrightarrow> clamp_Q15 x = 327680" by (simp add: y_def)
qed

lemma segment_mono: "x \<le> y \<Longrightarrow> segment x \<le> segment y"
  unfolding segment_def by (intro nat_mono zdiv_mono1) (auto simp: clamp_Q15_def)

lemma SPL_SAT_Q15: "SPL_SAT 327680 x (- 327680) = clamp_Q15 x"
  by (auto simp: SPL_SAT_def clamp_Q15_def)

text \<open>The value inside a segment, with its bounds.\<close>

lemma Piecewise_segment:
  fixes x
  defines "i \<equiv> segment x" and "q \<equiv> clamp_Q15 x"
  assumes "i < 50"
  shows "WebRtcIsacfix_Piecewise x = kCdfLogistic ! i + (q - kHistEdges ! i) * kCdfSlope ! i div 32768"
    "kCdfLogistic ! i \<le> WebRtcIsacfix_Piecewise x" "WebRtcIsacfix_Piecewise x \<le> kCdfLogistic ! (i + 1)"
    "0 \<le> q - kHistEdges ! i"
proof -
  note t = logistic_segment [OF assms(3)]
  have b: "65536 * int i \<le> 5 * (q + 327680)" "5 * (q + 327680) < 65536 * (int i + 1)"
    using segment_bounds(2,3) by (auto simp: i_def q_def)
  have lo: "(65536 * int i + 4) div 5 \<le> q + 327680"
  proof -
    have "(65536 * int i + 4) div 5 \<le> (5 * (q + 327680) + 4) div 5" using b(1) by (intro zdiv_mono1) auto
    also have "\<dots> = q + 327680" by simp
    finally show ?thesis .
  qed
  have hi: "q + 327680 < (65536 * (int i + 1) + 4) div 5"
  proof -
    have "(5 * (q + 327680 + 1)) div 5 \<le> (65536 * (int i + 1) + 4) div 5" using b(2) by (intro zdiv_mono1) auto
    then show ?thesis by simp
  qed
  define d s l where "d = q - kHistEdges ! i" and "s = kCdfSlope ! i" and "l = kCdfLogistic ! i"
  define D where "D = (65536 * (int i + 1) + 4) div 5 - 327681 - kHistEdges ! i"
  have d: "0 \<le> d" "d \<le> D" "D < 65536" using lo hi t(1,5) by (auto simp: d_def D_def)
  have s: "0 \<le> s" "s < 65536" using t(2,3) by (auto simp: s_def)
  have l: "0 \<le> l" using t(4) by (simp add: l_def)
  have ds: "0 \<le> d * s" "d * s \<le> D * s" using d s by (auto intro: mult_right_mono)
  have "d * s \<le> 65535 * 65535" using d s by (intro mult_mono) auto
  then have u: "to_u32 (to_u32 d * s) = d * s" using d ds by (simp add: to_u32_def)
  have v: "0 \<le> d * s div 32768" "d * s div 32768 \<le> D * s div 32768"
    using ds by (auto simp: pos_imp_zdiv_nonneg_iff intro: zdiv_mono1)
  have top: "l + D * s div 32768 \<le> kCdfLogistic ! (i + 1)" using t(6) by (simp add: D_def s_def l_def)
  have "kCdfLogistic ! (i + 1) \<le> kCdfLogistic ! 50"
    using logistic_sorted assms(3) by (intro sorted_nth_mono) auto
  then have max: "kCdfLogistic ! (i + 1) \<le> 65535" by (simp add: logistic_sorted)
  have ind: "nat (shr (to_i32 (5 * (q + 327680))) 16) = i"
  proof -
    have "0 \<le> q + 327680" "q + 327680 \<le> 655360" by (auto simp: q_def clamp_Q15_def)
    then have "to_i32 (5 * (q + 327680)) = 5 * (q + 327680)" by (intro to_i32_id) (simp add: is_i32_def)
    then show ?thesis by (simp add: shr_def i_def segment_def q_def)
  qed
  have P: "WebRtcIsacfix_Piecewise x = l + d * s div 32768"
    unfolding WebRtcIsacfix_Piecewise_def Let_def kHistEdges_ends SPL_SAT_Q15 diff_minus_eq_add q_def [symmetric] ind
      d_def [symmetric] s_def [symmetric] l_def [symmetric] u
    using v l top max by (simp add: shr_def to_u16_def)
  show "WebRtcIsacfix_Piecewise x = kCdfLogistic ! i + (q - kHistEdges ! i) * kCdfSlope ! i div 32768"
    using P by (simp add: d_def s_def l_def)
  show "kCdfLogistic ! i \<le> WebRtcIsacfix_Piecewise x" "WebRtcIsacfix_Piecewise x \<le> kCdfLogistic ! (i + 1)"
    using P v top by (auto simp: l_def)
  show "0 \<le> q - kHistEdges ! i" using d by (simp add: d_def)
qed

lemma Piecewise_top: "segment x = 50 \<Longrightarrow> WebRtcIsacfix_Piecewise x = 65535"
proof -
  assume "segment x = 50"
  then have c: "clamp_Q15 x = clamp_Q15 327680" using segment_bounds(4) [of x] by (simp add: clamp_Q15_def)
  have "WebRtcIsacfix_Piecewise x = WebRtcIsacfix_Piecewise 327680"
    unfolding WebRtcIsacfix_Piecewise_def kHistEdges_ends SPL_SAT_Q15 c by (rule refl)
  also have "\<dots> = 65535" by code_simp
  finally show ?thesis .
qed

lemma Piecewise_range: "0 \<le> WebRtcIsacfix_Piecewise x" "WebRtcIsacfix_Piecewise x < 65536"
  by (simp_all add: WebRtcIsacfix_Piecewise_def Let_def to_u16_def)

lemma Piecewise_mono:
  assumes "x \<le> y" shows "WebRtcIsacfix_Piecewise x \<le> WebRtcIsacfix_Piecewise y"
proof (cases "segment y = 50")
  case True
  then show ?thesis using Piecewise_range [of x] by (simp add: Piecewise_top)
next
  case False
  then have y: "segment y < 50" using segment_bounds(1) [of y] by simp
  show ?thesis
  proof (cases "segment x = segment y")
    case True
    have "clamp_Q15 x \<le> clamp_Q15 y" using assms by (auto simp: clamp_Q15_def)
    then have "(clamp_Q15 x - kHistEdges ! segment y) * kCdfSlope ! segment y
        \<le> (clamp_Q15 y - kHistEdges ! segment y) * kCdfSlope ! segment y"
      using logistic_segment(2) [OF y] by (intro mult_right_mono) auto
    then show ?thesis using Piecewise_segment(1) [of x] Piecewise_segment(1) [OF y] y True
      by (simp add: zdiv_mono1)
  next
    case False
    then have lt: "segment x < segment y" using segment_mono [OF assms] by simp
    then have "WebRtcIsacfix_Piecewise x \<le> kCdfLogistic ! (segment x + 1)" using y by (intro Piecewise_segment(3)) simp
    also have "\<dots> \<le> kCdfLogistic ! segment y"
      using logistic_sorted lt y by (intro sorted_nth_mono) auto
    also have "\<dots> \<le> WebRtcIsacfix_Piecewise y" by (rule Piecewise_segment(2) [OF y])
    finally show ?thesis .
  qed
qed

section \<open>Clipping ends\<close>

lemma Piecewise_centre:
  "WebRtcIsacfix_Piecewise 64 = 33408" "WebRtcIsacfix_Piecewise 0 = 33336" "WebRtcIsacfix_Piecewise (- 64) = 33264"
  by code_simp+

text \<open>A sample of at most half a step has an interval of at least 72, whatever the (positive) envelope.\<close>

lemma centre_wide:
  assumes "1 \<le> env" "- 64 \<le> d" "d \<le> 64"
  shows "WebRtcIsacfix_Piecewise ((d - 64) * env) + 1 < WebRtcIsacfix_Piecewise ((d + 64) * env)"
proof (cases "0 \<le> d")
  case True
  have "(d - 64) * env \<le> 0" using assms by (intro mult_nonpos_nonneg) auto
  moreover have "64 * 1 \<le> (d + 64) * env" using True assms by (intro mult_mono) auto
  ultimately show ?thesis
    using Piecewise_mono [of "(d - 64) * env" 0] Piecewise_mono [of 64 "(d + 64) * env"] by (simp add: Piecewise_centre)
next
  case False
  have "0 \<le> (d + 64) * env" using assms by simp
  moreover have "(d - 64) * env \<le> - 64 * 1"
  proof -
    have "64 * 1 \<le> (64 - d) * env" using False assms by (intro mult_mono) auto
    then show ?thesis by (simp add: algebra_simps)
  qed
  ultimately show ?thesis
    using Piecewise_mono [of 0 "(d + 64) * env"] Piecewise_mono [of "(d - 64) * env" "- 64"] by (simp add: Piecewise_centre)
qed

definition sample_range :: "int \<Rightarrow> bool" where
  "sample_range d \<longleftrightarrow> - 32704 \<le> d \<and> d \<le> 32703"

lemma mul_16_u16_sample:
  assumes "- 32768 \<le> a" "a \<le> 32767" "0 \<le> env" "env < 65536" shows "mul_16_u16 a env = a * env"
  using assms by (simp add: mul_16_u16_def to_i16_id is_i16_def to_u16_def)

text \<open>The clipped sample keeps its residue modulo 128 and does not grow; its interval has width two or more.\<close>

lemma logistic_clip_spec:
  assumes "1 \<le> env" "env < 65536" "sample_range d"
  shows "\<exists>d'. logistic_clip env d (WebRtcIsacfix_Piecewise ((d - 64) * env)) (WebRtcIsacfix_Piecewise ((d + 64) * env))
      = Some (d', WebRtcIsacfix_Piecewise ((d' - 64) * env), WebRtcIsacfix_Piecewise ((d' + 64) * env)) \<and>
    WebRtcIsacfix_Piecewise ((d' - 64) * env) + 1 < WebRtcIsacfix_Piecewise ((d' + 64) * env) \<and>
    sample_range d' \<and> 128 dvd d' - d \<and> (d' = d \<or> \<bar>d'\<bar> < \<bar>d\<bar>)"
  using assms(3)
proof (induction "nat \<bar>d\<bar>" arbitrary: d rule: less_induct)
  case less
  let ?P = WebRtcIsacfix_Piecewise
  show ?case
  proof (cases "?P ((d - 64) * env) + 1 < ?P ((d + 64) * env)")
    case True
    then show ?thesis using less.prems by (intro exI [of _ d]) (simp add: logistic_clip.simps)
  next
    case False
    then have far: "d < - 64 \<or> 64 < d" using centre_wide [OF assms(1), of d] by linarith
    show ?thesis
    proof (cases "d > 0")
      case True
      then have d: "64 < d" using far by simp
      have r: "sample_range (d - 128)" "nat \<bar>d - 128\<bar> < nat \<bar>d\<bar>" "to_i16 (d - 128) = d - 128"
        using less.prems d by (auto simp: sample_range_def to_i16_id is_i16_def)
      have m: "mul_16_u16 (d - 192) env = (d - 192) * env"
        using less.prems d assms by (intro mul_16_u16_sample) (auto simp: sample_range_def)
      have e: "logistic_clip env d (?P ((d - 64) * env)) (?P ((d + 64) * env))
          = logistic_clip env (d - 128) (?P ((d - 128 - 64) * env)) (?P ((d - 128 + 64) * env))"
        using False True by (subst logistic_clip.simps) (simp add: r(3) m)
      obtain d' where d': "logistic_clip env (d - 128) (?P ((d - 128 - 64) * env)) (?P ((d - 128 + 64) * env))
          = Some (d', ?P ((d' - 64) * env), ?P ((d' + 64) * env))"
          "?P ((d' - 64) * env) + 1 < ?P ((d' + 64) * env)" "sample_range d'" "128 dvd d' - (d - 128)"
          "d' = d - 128 \<or> \<bar>d'\<bar> < \<bar>d - 128\<bar>"
        using less.hyps [OF r(2,1)] by blast
      have "128 dvd d' - (d - 128) + 128 * (- 1)" using d'(4) by (intro dvd_add) simp_all
      then have "128 dvd d' - d" by simp
      then show ?thesis using d' e d by (intro exI [of _ d']) auto
    next
      case neg: False
      then have d: "d < - 64" using far by simp
      have r: "sample_range (d + 128)" "nat \<bar>d + 128\<bar> < nat \<bar>d\<bar>" "to_i16 (d + 128) = d + 128"
        using less.prems d by (auto simp: sample_range_def to_i16_id is_i16_def)
      have m: "mul_16_u16 (d + 192) env = (d + 192) * env"
        using less.prems d assms by (intro mul_16_u16_sample) (auto simp: sample_range_def)
      have e: "logistic_clip env d (?P ((d - 64) * env)) (?P ((d + 64) * env))
          = logistic_clip env (d + 128) (?P ((d + 128 - 64) * env)) (?P ((d + 128 + 64) * env))"
        using False neg by (subst logistic_clip.simps) (simp add: r(3) m add.commute)
      obtain d' where d': "logistic_clip env (d + 128) (?P ((d + 128 - 64) * env)) (?P ((d + 128 + 64) * env))
          = Some (d', ?P ((d' - 64) * env), ?P ((d' + 64) * env))"
          "?P ((d' - 64) * env) + 1 < ?P ((d' + 64) * env)" "sample_range d'" "128 dvd d' - (d + 128)"
          "d' = d + 128 \<or> \<bar>d'\<bar> < \<bar>d + 128\<bar>"
        using less.hyps [OF r(2,1)] by blast
      have "128 dvd d' - (d + 128) + 128 * 1" using d'(4) by (intro dvd_add) simp_all
      then have "128 dvd d' - d" by simp
      then show ?thesis using d' e d by (intro exI [of _ d']) auto
    qed
  qed
qed


section \<open>The search finds the symbol\<close>

text \<open>The decoder gives up (\<open>- 1\<close>) where the scaled cumulative function is flat between two candidates, so
  a symbol can only be decoded when the function rises at every step from the first candidate.\<close>

definition rises :: "int \<Rightarrow> int \<Rightarrow> nat \<Rightarrow> bool" where
  "rises env c n \<longleftrightarrow> (\<forall>i < n. WebRtcIsacfix_Piecewise ((c + 128 * int i) * env)
     < WebRtcIsacfix_Piecewise ((c + 128 * int (i + 1)) * env))"

definition decodable :: "int \<Rightarrow> int \<Rightarrow> int \<Rightarrow> bool" where
  "decodable dither env d \<longleftrightarrow> (let c = 64 - dither; n = (d + 64 - c) div 128
     in 0 \<le> env \<and> env < 65536 \<and> sample_range d \<and> is_i16 c \<and> (d + 64 - c) mod 128 = 0 \<and>
        (if n > 0 then rises env c (nat n) else rises env (d - 64) (nat (1 - n))))"

definition logist_interval :: "(int \<times> int) option \<Rightarrow> int \<Rightarrow> (int \<times> int) option" where
  "logist_interval m d =
     (case m of None \<Rightarrow> None
      | Some (dither, env) \<Rightarrow>
          if decodable dither env d
          then Some (WebRtcIsacfix_Piecewise ((d - 64) * env), WebRtcIsacfix_Piecewise ((d + 64) * env)) else None)"

lemma risesD:
  assumes "rises env c n" "c \<le> x" "x < c + 128 * int n" "(x - c) mod 128 = 0"
  shows "WebRtcIsacfix_Piecewise (x * env) < WebRtcIsacfix_Piecewise ((x + 128) * env)"
proof -
  define i where "i = nat ((x - c) div 128)"
  have "x - c = (x - c) div 128 * 128" using assms(4) div_mult_mod_eq [of "x - c" 128] by simp
  moreover have "0 \<le> (x - c) div 128" using assms(2) by (simp add: pos_imp_zdiv_nonneg_iff)
  ultimately have x: "x = c + 128 * int i" by (simp add: i_def)
  then have "i < n" using assms(3) by simp
  moreover have "x + 128 = c + 128 * int (i + 1)" using x by simp
  ultimately show ?thesis using assms(1) x unfolding rises_def by metis
qed

lemma scale_Piecewise_mono:
  assumes "0 \<le> W" "W < 4294967296" "0 \<le> env" "x \<le> y"
  shows "scale_W W (WebRtcIsacfix_Piecewise (x * env)) \<le> scale_W W (WebRtcIsacfix_Piecewise (y * env))"
  using assms Piecewise_range Piecewise_mono [of "x * env" "y * env"]
  by (intro scale_W_mono) (auto intro: mult_right_mono)

lemma scale_Piecewise_strict:
  assumes "16777216 \<le> W" "W < 4294967296" "WebRtcIsacfix_Piecewise x < WebRtcIsacfix_Piecewise y"
  shows "scale_W W (WebRtcIsacfix_Piecewise x) < scale_W W (WebRtcIsacfix_Piecewise y)"
  using scale_W_gap(2) [OF assms(1,2) _ assms(3)] Piecewise_range by auto

lemma logist_up_finds:
  assumes "16777216 \<le> W" "W < 4294967296" "0 \<le> env" "env < 65536" "sample_range d" "is_i16 c"
    and sv: "scale_W W (WebRtcIsacfix_Piecewise ((d - 64) * env)) < sv" "sv \<le> scale_W W (WebRtcIsacfix_Piecewise ((d + 64) * env))"
    and rise: "\<And>x. c \<le> x \<Longrightarrow> x < d + 64 \<Longrightarrow> (x - c) mod 128 = 0 \<Longrightarrow>
      WebRtcIsacfix_Piecewise (x * env) < WebRtcIsacfix_Piecewise ((x + 128) * env)"
    and c: "c \<le> x" "x + 128 \<le> d + 64" "(x - c) mod 128 = 0" "(d + 64 - c) mod 128 = 0"
  shows "logist_up W env sv (scale_W W (WebRtcIsacfix_Piecewise (x * env))) (x + 128)
      (scale_W W (WebRtcIsacfix_Piecewise ((x + 128) * env)))
    = Some (Inr (scale_W W (WebRtcIsacfix_Piecewise ((d - 64) * env)), scale_W W (WebRtcIsacfix_Piecewise ((d + 64) * env)), d))"
  using c(1-3)
proof (induction "nat (d + 64 - x)" arbitrary: x rule: less_induct)
  case less
  let ?T = "\<lambda>x. scale_W W (WebRtcIsacfix_Piecewise (x * env))"
  show ?case
  proof (cases "x + 128 = d + 64")
    case True
    then have x: "x = d - 64" by simp
    have "to_i16 (d + 64 - 64) = d" using assms(5) by (simp add: sample_range_def to_i16_id is_i16_def)
    then show ?thesis using sv(2) unfolding True unfolding x by (subst logist_up.simps) simp
  next
    case False
    have m: "(x + 128 - c) mod 128 = 0"
    proof -
      have "(x + 128 - c) mod 128 = (x - c + 128) mod 128" by (simp add: algebra_simps)
      then show ?thesis using less.prems(3) by simp
    qed
    have "128 dvd d + 64 - c" "128 dvd x + 128 - c" using c(4) m by (simp_all only: dvd_eq_mod_eq_0)
    then have "128 dvd (d + 64 - c) - (x + 128 - c)" by (rule dvd_diff)
    then have "128 dvd d + 64 - (x + 128)" by simp
    then obtain j where j: "d + 64 - (x + 128) = 128 * j" ..
    with False less.prems(2) have "1 \<le> j" by linarith
    then have far: "x + 128 + 128 \<le> d + 64" using j by linarith
    have r: "- 32768 \<le> x + 256" "x + 256 \<le> 32767"
      using far less.prems(1) assms(5,6) by (auto simp: sample_range_def is_i16_def)
    have to: "to_i16 (x + 256) = x + 256" "mul_16_u16 (x + 256) env = (x + 256) * env"
      using r assms(3,4) by (simp_all add: to_i16_id is_i16_def mul_16_u16_sample)
    have "?T (x + 128) \<le> ?T (d - 64)" using far assms(1-3) by (intro scale_Piecewise_mono) auto
    then have gt: "sv > ?T (x + 128)" using sv(1) by simp
    have "?T (x + 128) < ?T (x + 128 + 128)"
      using rise [of "x + 128"] less.prems(1) far m by (intro scale_Piecewise_strict [OF assms(1,2)]) auto
    then have ne: "?T (x + 128) \<noteq> ?T (x + 256)" by (simp add: add.commute)
    have "logist_up W env sv (?T (x + 128)) (x + 128 + 128) (?T (x + 128 + 128))
      = Some (Inr (?T (d - 64), ?T (d + 64), d))"
      using less.prems far m by (intro less.hyps) auto
    then show ?thesis using gt ne to by (subst logist_up.simps) (simp add: Let_def add.commute)
  qed
qed

lemma logist_down_finds:
  assumes "16777216 \<le> W" "W < 4294967296" "0 \<le> env" "env < 65536" "sample_range d" "is_i16 c"
    and sv: "scale_W W (WebRtcIsacfix_Piecewise ((d - 64) * env)) < sv" "sv \<le> scale_W W (WebRtcIsacfix_Piecewise ((d + 64) * env))"
    and rise: "\<And>x. d - 64 \<le> x \<Longrightarrow> x < c \<Longrightarrow> (x - (d - 64)) mod 128 = 0 \<Longrightarrow>
      WebRtcIsacfix_Piecewise (x * env) < WebRtcIsacfix_Piecewise ((x + 128) * env)"
    and c: "x \<le> c" "d - 64 \<le> x - 128" "(x - (d - 64)) mod 128 = 0"
  shows "logist_down W env sv (scale_W W (WebRtcIsacfix_Piecewise (x * env))) (x - 128)
      (scale_W W (WebRtcIsacfix_Piecewise ((x - 128) * env)))
    = Some (Inr (scale_W W (WebRtcIsacfix_Piecewise ((d - 64) * env)), scale_W W (WebRtcIsacfix_Piecewise ((d + 64) * env)), d))"
  using c
proof (induction "nat (x - (d - 64))" arbitrary: x rule: less_induct)
  case less
  let ?T = "\<lambda>x. scale_W W (WebRtcIsacfix_Piecewise (x * env))"
  show ?case
  proof (cases "x - 128 = d - 64")
    case True
    then have x: "x = d + 64" by simp
    have "to_i16 (d - 64 + 64) = d" using assms(5) by (simp add: sample_range_def to_i16_id is_i16_def)
    then show ?thesis using sv(1) unfolding True unfolding x by (subst logist_down.simps) simp
  next
    case False
    have "128 dvd x - (d - 64)" using less.prems(3) by (simp only: dvd_eq_mod_eq_0)
    then obtain j where j: "x - (d - 64) = 128 * j" ..
    with False less.prems(2) have "2 \<le> j" by linarith
    then have far: "d - 64 \<le> x - 128 - 128" using j by linarith
    have "x - 256 - (d - 64) = 128 * (j - 2)" "x - 128 - (d - 64) = 128 * (j - 1)" using j by simp_all
    then have m: "(x - 256 - (d - 64)) mod 128 = 0" "(x - 128 - (d - 64)) mod 128 = 0"
      by (simp_all only: mod_mult_self1_is_0)
    have r: "- 32768 \<le> x - 256" "x - 256 \<le> 32767"
      using far less.prems(1) assms(5,6) by (auto simp: sample_range_def is_i16_def)
    have to: "to_i16 (x - 256) = x - 256" "mul_16_u16 (x - 256) env = (x - 256) * env"
      using r assms(3,4) by (simp_all add: to_i16_id is_i16_def mul_16_u16_sample)
    have "?T (d + 64) \<le> ?T (x - 128)" using far assms(1-3) by (intro scale_Piecewise_mono) auto
    then have le: "\<not> sv > ?T (x - 128)" using sv(2) by simp
    have "?T (x - 256) < ?T (x - 256 + 128)"
      using rise [of "x - 256"] less.prems(1) far m(1) by (intro scale_Piecewise_strict [OF assms(1,2)]) auto
    then have ne: "?T (x - 128) \<noteq> ?T (x - 256)" by simp
    have "logist_down W env sv (?T (x - 128)) (x - 128 - 128) (?T (x - 128 - 128))
      = Some (Inr (?T (d - 64), ?T (d + 64), d))"
      using less.prems far m(2) by (intro less.hyps) auto
    then show ?thesis using le ne to by (subst logist_down.simps) (simp add: Let_def)
  qed
qed

lemma logist_search_finds:
  assumes "logist_interval m d = Some (lo, hi)" "16777216 \<le> W" "W < 4294967296"
    and "scale_W W lo < sv" "sv \<le> scale_W W hi"
  shows "logist_search m wl W sv = Some (Inr (scale_W W lo, scale_W W hi, d))"
proof -
  obtain dither env where m: "m = Some (dither, env)" "decodable dither env d"
      "lo = WebRtcIsacfix_Piecewise ((d - 64) * env)" "hi = WebRtcIsacfix_Piecewise ((d + 64) * env)"
    using assms(1) by (auto simp: logist_interval_def split: option.splits if_splits)
  define c n where "c = 64 - dither" and "n = (d + 64 - c) div 128"
  have D: "0 \<le> env" "env < 65536" "sample_range d" "is_i16 c" "(d + 64 - c) mod 128 = 0"
    "if n > 0 then rises env c (nat n) else rises env (d - 64) (nat (1 - n))"
    using m(2) unfolding decodable_def Let_def c_def [symmetric] n_def [symmetric] by blast+
  have n: "d + 64 - c = 128 * n" using D(5) div_mult_mod_eq [of "d + 64 - c" 128] by (simp add: n_def)
  let ?T = "\<lambda>x. scale_W W (WebRtcIsacfix_Piecewise (x * env))"
  note sv = assms(4,5) [unfolded m(3,4)]
  have c16: "to_i16 (- dither + 64) = c" using D(4) by (simp add: c_def to_i16_id)
  have mul: "mul_16_u16 c env = c * env" using D(1,2,4) by (intro mul_16_u16_sample) (auto simp: is_i16_def)
  show ?thesis
  proof (cases "n > 0")
    case True
    then have le: "c + 128 \<le> d + 64" using n by linarith
    have rise: "WebRtcIsacfix_Piecewise (x * env) < WebRtcIsacfix_Piecewise ((x + 128) * env)"
      if "c \<le> x" "x < d + 64" "(x - c) mod 128 = 0" for x
      using risesD [of env c "nat n" x] D(6) True that n by simp
    have "?T c \<le> ?T (d - 64)" using le D(1) assms(2,3) by (intro scale_Piecewise_mono) auto
    then have gt: "sv > ?T c" using sv(1) by simp
    have r: "- 32768 \<le> c + 128" "c + 128 \<le> 32767" using le D(3,4) by (auto simp: sample_range_def is_i16_def)
    have to: "to_i16 (c + 128) = c + 128" "mul_16_u16 (c + 128) env = (c + 128) * env"
      using r D(1,2) by (simp_all add: to_i16_id is_i16_def mul_16_u16_sample)
    have "logist_up W env sv (?T c) (c + 128) (?T (c + 128)) = Some (Inr (?T (d - 64), ?T (d + 64), d))"
      using le D(5) rise by (intro logist_up_finds [OF assms(2,3) D(1-4) sv]) auto
    then show ?thesis using gt unfolding logist_search_def m(1) Let_def
      by (simp add: c16 mul to m(3,4) del: minus_add_distrib uminus_add_conv_diff)
  next
    case False
    then have le: "d - 64 \<le> c - 128" using n by linarith
    have e: "c - (d - 64) = 128 * (1 - n)" using n by simp
    then have m0: "(c - (d - 64)) mod 128 = 0" by (simp only: mod_mult_self1_is_0)
    have rise: "WebRtcIsacfix_Piecewise (x * env) < WebRtcIsacfix_Piecewise ((x + 128) * env)"
      if "d - 64 \<le> x" "x < c" "(x - (d - 64)) mod 128 = 0" for x
      using risesD [of env "d - 64" "nat (1 - n)" x] D(6) False that e by simp
    have "?T (d + 64) \<le> ?T c" using le D(1) assms(2,3) by (intro scale_Piecewise_mono) auto
    then have ng: "\<not> sv > ?T c" using sv(2) by simp
    have r: "- 32768 \<le> c - 128" "c - 128 \<le> 32767" using le D(3,4) by (auto simp: sample_range_def is_i16_def)
    have to: "to_i16 (c - 128) = c - 128" "mul_16_u16 (c - 128) env = (c - 128) * env"
      using r D(1,2) by (simp_all add: to_i16_id is_i16_def mul_16_u16_sample)
    have "logist_down W env sv (?T c) (c - 128) (?T (c - 128)) = Some (Inr (?T (d - 64), ?T (d + 64), d))"
      using le m0 rise by (intro logist_down_finds [OF assms(2,3) D(1-4) sv]) auto
    then show ?thesis using ng unfolding logist_search_def m(1) Let_def
      by (simp add: c16 mul to m(3,4) del: minus_add_distrib uminus_add_conv_diff)
  qed
qed

lemma logist_interval_range:
  assumes "logist_interval m d = Some (lo, hi)" shows "0 \<le> lo \<and> lo < hi \<and> hi < 65536"
proof -
  obtain dither env where m: "m = Some (dither, env)" "decodable dither env d"
      "lo = WebRtcIsacfix_Piecewise ((d - 64) * env)" "hi = WebRtcIsacfix_Piecewise ((d + 64) * env)"
    using assms by (auto simp: logist_interval_def split: option.splits if_splits)
  define c n where "c = 64 - dither" and "n = (d + 64 - c) div 128"
  have D: "(d + 64 - c) mod 128 = 0" "if n > 0 then rises env c (nat n) else rises env (d - 64) (nat (1 - n))"
    using m(2) unfolding decodable_def Let_def c_def [symmetric] n_def [symmetric] by blast+
  have n: "d + 64 - c = 128 * n" using D(1) div_mult_mod_eq [of "d + 64 - c" 128] by (simp add: n_def)
  have "d - 64 - c = 128 * (n - 1)" using n by simp
  then have m0: "(d - 64 - c) mod 128 = 0" by (simp only: mod_mult_self1_is_0)
  have "lo < hi"
  proof (cases "n > 0")
    case True
    then show ?thesis using risesD [of env c "nat n" "d - 64"] D(2) n m0 m(3,4) by (simp add: add.commute)
  next
    case False
    then show ?thesis using risesD [of env "d - 64" "nat (1 - n)" "d - 64"] D(2) m(3,4) by (simp add: add.commute)
  qed
  then show ?thesis using Piecewise_range by (simp add: m(3,4))
qed


section \<open>Refilling\<close>

definition logist_view :: "nat \<times> nat \<Rightarrow> Bitstr_dec \<Rightarrow> bool" where
  "logist_view p d \<longleftrightarrow> stream_size d \<le> length (stream d) \<and>
     (\<forall>i. stream_size d \<le> i \<longrightarrow> i < length (stream d) \<longrightarrow> stream d ! i = 0) \<and> (snd p = 0 \<or> stream_size d \<le> fst p)"

lemma logist_refill_spec:
  assumes "0 < W" "16777216 \<le> 256 ^ k * W" "256 ^ k * W < 4294967296"
    and "all_u16 (stream sd)" "full sd = 0 \<or> full sd = 1" "logist_view p sd"
    and "bytes_used (full sd) (fst p + snd p) + k \<le> 2 * length (stream sd)"
    and "inside (stream sd) (bytes_used (full sd) (fst p + snd p) + k) (256 ^ k * X) (256 ^ k * W)"
  shows "\<exists>p' f. logist_refill W (code_num (stream sd) (bytes_used (full sd) (fst p + snd p)) - X) p sd
      = Some (256 ^ k * W, code_num (stream sd) (bytes_used (full sd) (fst p + snd p) + k) - 256 ^ k * X, p', sd\<lparr>full := f\<rparr>) \<and>
    bytes_used f (fst p' + snd p') = bytes_used (full sd) (fst p + snd p) + k \<and> (f = 0 \<or> f = 1) \<and>
    logist_view p' (sd\<lparr>full := f\<rparr>)"
  using assms
proof (induction k arbitrary: W X p sd)
  case 0
  then have "W AND 0xFF000000 \<noteq> 0" using top_byte_zero [of W] by simp
  then show ?case using 0(5,6)
    by (intro exI [of _ p] exI [of _ "full sd"]) (simp add: logist_refill.simps logist_view_def)
next
  case (Suc k)
  let ?s = "stream sd" and ?w = "fst p + snd p"
  let ?t = "bytes_used (full sd) ?w"
  have "W \<le> 256 ^ k * W" using Suc.prems(1) by simp
  moreover have "256 ^ Suc k * W = 256 * (256 ^ k * W)" by simp
  ultimately have W: "W < 16777216" using Suc.prems(3) by linarith
  then have z: "W AND 0xFF000000 = 0" using top_byte_zero [of W] Suc.prems(1) by simp
  have W8: "to_u32 (shl W 8) = 256 * W" using W Suc.prems(1) by (simp add: to_u32_def shl_def)
  have "inside ?s ?t X W" by (rule inside_back [OF Suc.prems(4,7,8)])
  then have sv: "0 \<le> code_num ?s ?t - X" "code_num ?s ?t - X < 16777216"
    using W by (auto simp: inside_def)
  have w: "?w < length ?s" using Suc.prems(7) by (simp add: bytes_used_def split: if_splits)
  have e: "256 * (code_num ?s ?t - X) + stream_byte ?s ?t = code_num ?s (?t + 1) - 256 * X" by simp
  obtain p' f where g: "logist_refill W (code_num ?s ?t - X) p sd
      = logist_refill (256 * W) (code_num ?s (?t + 1) - 256 * X) p' (sd\<lparr>full := f\<rparr>)"
      "bytes_used f (fst p' + snd p') = ?t + 1" "f = 0 \<or> f = 1" "logist_view p' (sd\<lparr>full := f\<rparr>)"
  proof (cases "fst p < stream_size sd")
    case True
    then have o: "snd p = 0" using Suc.prems(6) by (auto simp: logist_view_def)
    obtain q f where q: "get_byte (code_num ?s ?t - X) (fst p) sd
        = Some (256 * (code_num ?s ?t - X) + stream_byte ?s ?t, q, sd\<lparr>full := f\<rparr>)"
        "bytes_used f q = ?t + 1" "f = 0 \<or> f = 1"
      using get_byte_spec [OF Suc.prems(4) _ Suc.prems(5) sv, of "fst p"] w o by auto
    have "logist_refill W (code_num ?s ?t - X) p sd
        = logist_refill (256 * W) (code_num ?s (?t + 1) - 256 * X) (q, 0) (sd\<lparr>full := f\<rparr>)"
      using True by (subst logist_refill.simps) (simp only: z q(1) W8 e simp_thms if_True bind.bind_lunit fst_conv snd_conv, simp only: o)
    moreover have "logist_view (q, 0) (sd\<lparr>full := f\<rparr>)" using Suc.prems(6) by (simp add: logist_view_def)
    ultimately show ?thesis using q(2,3) that [of "(q, 0)" f] by simp
  next
    case False
    then have zero: "?s ! ?w = 0" using Suc.prems(6) w by (auto simp: logist_view_def)
    have "stream_byte ?s ?t = 0" using zero by (simp add: stream_byte_def bytes_used_def)
    then have sv8: "to_u32 (shl (code_num ?s ?t - X) 8) = code_num ?s (?t + 1) - 256 * X"
      using sv by (simp add: to_u32_def shl_def)
    show ?thesis
    proof (cases "full sd = 0")
      case True
      have "logist_refill W (code_num ?s ?t - X) p sd
          = logist_refill (256 * W) (code_num ?s (?t + 1) - 256 * X) (fst p, snd p + 1) (sd\<lparr>full := 1\<rparr>)"
        by (subst logist_refill.simps) (simp only: z W8 sv8 simp_thms if_True if_not_P [OF False] if_P [OF True])
      then show ?thesis using that [of "(fst p, snd p + 1)" 1] Suc.prems(6) False True
        by (simp add: bytes_used_def logist_view_def)
    next
      case f1: False
      have "logist_refill W (code_num ?s ?t - X) p sd
          = logist_refill (256 * W) (code_num ?s (?t + 1) - 256 * X) p (sd\<lparr>full := 0\<rparr>)"
        by (subst logist_refill.simps) (simp only: z W8 sv8 simp_thms if_True if_not_P [OF False] if_not_P [OF f1])
      then show ?thesis using that [of p 0] Suc.prems(6) False f1
        by (simp add: bytes_used_def logist_view_def)
    qed
  qed
  define sd1 where "sd1 = sd\<lparr>full := f\<rparr>"
  have sd1: "stream sd1 = ?s" "full sd1 = f" "sd1\<lparr>full := f'\<rparr> = sd\<lparr>full := f'\<rparr>" for f' by (simp_all add: sd1_def)
  have "\<exists>p2 f2. logist_refill (256 * W) (code_num (stream sd1) (bytes_used (full sd1) (fst p' + snd p')) - 256 * X) p' sd1
      = Some (256 ^ k * (256 * W), code_num (stream sd1) (bytes_used (full sd1) (fst p' + snd p') + k) - 256 ^ k * (256 * X),
          p2, sd1\<lparr>full := f2\<rparr>) \<and>
    bytes_used f2 (fst p2 + snd p2) = bytes_used (full sd1) (fst p' + snd p') + k \<and> (f2 = 0 \<or> f2 = 1) \<and>
    logist_view p2 (sd1\<lparr>full := f2\<rparr>)"
    using Suc.prems g(2-4)
    by (intro Suc.IH) (simp_all add: sd1 sd1_def [symmetric] mult.assoc mult.left_commute [of _ 256])
  then obtain p2 f2 where r: "logist_refill (256 * W) (code_num ?s (?t + 1) - 256 * X) p' sd1
      = Some (256 ^ k * (256 * W), code_num ?s (?t + 1 + k) - 256 ^ k * (256 * X), p2, sd\<lparr>full := f2\<rparr>)"
    "bytes_used f2 (fst p2 + snd p2) = ?t + 1 + k" "f2 = 0 \<or> f2 = 1" "logist_view p2 (sd\<lparr>full := f2\<rparr>)"
    by (auto simp only: sd1 g(2))
  then show ?case using g(1) unfolding sd1_def [symmetric]
    by (intro exI [of _ p2] exI [of _ f2]) (simp add: mult.assoc mult.left_commute [of _ 256])
qed

interpretation logistic: symbol_decoder logist_search logist_refill logist_interval "\<lambda>n. (n, 0)" "\<lambda>p. fst p + snd p" logist_view
  using logist_interval_range logist_search_finds logist_refill_spec
  by unfold_locales auto

section \<open>Whole calls\<close>

lemma and_step: "(k AND 1) AND drop_bit 1 k = (if k mod 4 = 3 then 1 else 0)" for k :: nat
proof -
  have "(k AND 1) AND drop_bit 1 k = (if odd k then 1 AND (k div 2) else 0)"
    by (simp add: and_one_eq drop_bit_eq_div mod2_eq_if)
  also have "\<dots> = (if odd k \<and> odd (k div 2) then 1 else 0)" by (simp add: one_and_eq mod2_eq_if)
  also have "odd k \<and> odd (k div 2) \<longleftrightarrow> k mod 4 = 3" by presburger
  finally show ?thesis .
qed

lemma env_index_div: "env_index k = k div 4"
proof (induction k)
  case (Suc k)
  have "Suc k div 4 = k div 4 + (if k mod 4 = 3 then 1 else 0)" by presburger
  with Suc show ?case by (simp only: env_index.simps(2) and_step)
qed simp


text \<open>The arguments of an encoder call and of the matching decoder call: the encoder is given the
  magnitudes the decoder computes from its envelope, and every stored sample \<open>out\<close> (the clipped one)
  is decodable from the dither value.\<close>

definition logistic_args :: "int list \<Rightarrow> int list \<Rightarrow> int list \<Rightarrow> int list \<Rightarrow> int \<Rightarrow> int list \<Rightarrow> bool" where
  "logistic_args dat env dither env2 n out \<longleftrightarrow> n mod 4 = 0 \<and> nat n \<le> length dat \<and> nat n \<le> length dither \<and>
     nat n div 4 \<le> length env \<and> nat n div 4 \<le> length (envelope_magnitudes env2) \<and> nat n \<le> length out \<and>
     (\<forall>k < nat n. env ! (k div 4) = envelope_magnitudes env2 ! (k div 4) \<and> 1 \<le> env ! (k div 4) \<and>
        env ! (k div 4) < 65536 \<and> sample_range (dat ! k) \<and> decodable (dither ! k) (env ! (k div 4)) (out ! k))"

definition stream_zero_padded :: "Bitstr_dec \<Rightarrow> bool" where
  "stream_zero_padded d \<longleftrightarrow> stream_size d \<le> length (stream d) \<and>
     (\<forall>i. stream_size d \<le> i \<longrightarrow> i < length (stream d) \<longrightarrow> stream d ! i = 0)"

lemma logistic_item_spec:
  assumes "k < length dat" "k div 4 < length env" "1 \<le> env ! (k div 4)" "env ! (k div 4) < 65536" "sample_range (dat ! k)"
  shows "\<exists>d. logistic_item dat env k = Some (d, WebRtcIsacfix_Piecewise ((d - 64) * env ! (k div 4)),
      WebRtcIsacfix_Piecewise ((d + 64) * env ! (k div 4))) \<and>
    WebRtcIsacfix_Piecewise ((d - 64) * env ! (k div 4)) + 1 < WebRtcIsacfix_Piecewise ((d + 64) * env ! (k div 4)) \<and>
    sample_range d \<and> 128 dvd d - dat ! k"
proof -
  have "mul_16_u16 (dat ! k - 64) (env ! (k div 4)) = (dat ! k - 64) * env ! (k div 4)"
    "mul_16_u16 (dat ! k + 64) (env ! (k div 4)) = (dat ! k + 64) * env ! (k div 4)"
    using assms(3-5) by (auto intro!: mul_16_u16_sample simp: sample_range_def)
  then show ?thesis using logistic_clip_spec [OF assms(3-5)] assms(1,2)
    by (auto simp: logistic_item_def env_index_div Let_def)
qed

lemma enc_loop_length:
  "enc_loop f xs L = Some (0, ds, L') \<Longrightarrow> length ds = length xs"
  by (induction xs arbitrary: L ds) (auto split: option.splits if_splits prod.splits)

lemma enc_loop_nth:
  "enc_loop f xs L = Some (0, ds, L') \<Longrightarrow> i < length xs \<Longrightarrow> \<exists>lo hi. f (xs ! i) = Some (ds ! i, lo, hi)"
proof (induction xs arbitrary: L ds i)
  case (Cons x xs)
  then show ?case by (cases i) (auto split: option.splits if_splits prod.splits)
qed simp

lemma logistic_call_ok:
  assumes "WebRtcIsacfix_EncLogisticMulti2 e dat env n = Some (0, out, e')" "enc_ready e"
    and "logistic_args dat env dither env2 n out" and "all_u16 s" "203 \<le> length s"
  shows "call_ok e e' (take (nat n) out @ drop (nat n) dither)
    (\<lambda>d. WebRtcIsacfix_DecLogisticMulti2 dither d env2 n) s stream_zero_padded"
proof -
  let ?mags = "envelope_magnitudes env2"
  let ?ms = "map (logist_model dither ?mags) [0..<nat n]"
  obtain ds where c: "enc_call (logistic_item dat env) [0..<nat n] e = Some (0, ds, e')"
      and out: "out = ds @ drop (length ds) dat"
    using assms(1) by (auto simp: WebRtcIsacfix_EncLogisticMulti2_def)
  obtain L where el: "enc_loop (logistic_item dat env) [0..<nat n] (W_upper e, stream_index e, e) = Some (0, ds, L)"
    using c by (auto simp: enc_call_def split: option.splits if_splits)
  have len: "length ds = nat n" using enc_loop_length [OF el] by simp
  note A = assms(3) [unfolded logistic_args_def]
  have div: "k div 4 < length env" "k div 4 < length ?mags" if "k < nat n" for k
  proof -
    have "nat n = nat n div 4 * 4"
    proof -
      have "4 dvd n" using A by (simp add: dvd_eq_mod_eq_0)
      then obtain j where "n = 4 * j" ..
      then show ?thesis by (cases "0 \<le> j") (auto simp: nat_mult_distrib)
    qed
    then have "k div 4 < nat n div 4" using that by linarith
    then show "k div 4 < length env" "k div 4 < length ?mags" using A by simp_all
  qed
  have iv: "logist_interval (?ms ! i) d = Some (lo, hi)"
    if "i < length [0..<nat n]" "logistic_item dat env ([0..<nat n] ! i) = Some (d, lo, hi)" for i d lo hi
  proof -
    have i: "i < nat n" using that(1) by simp
    have "ds ! i = d" using enc_loop_nth [OF el that(1)] that(2) by auto
    then have di: "out ! i = d" using i len by (simp add: out nth_append)
    have "logistic_item dat env i = Some (d, WebRtcIsacfix_Piecewise ((d - 64) * env ! (i div 4)),
        WebRtcIsacfix_Piecewise ((d + 64) * env ! (i div 4)))"
      using logistic_item_spec [of i dat env] A i div that(2) by auto
    then show ?thesis using that(2) A i div di by (auto simp: logist_model_def logist_interval_def)
  qed
  have m4: "4 * nat ((n + 3) div 4) = nat n"
  proof -
    have "4 dvd n" using A by (simp add: dvd_eq_mod_eq_0)
    then obtain j where "n = 4 * j" ..
    then show ?thesis by (cases "0 \<le> j") auto
  qed
  have take: "take (nat n) out = ds" using len by (simp add: out)
  note F = logistic.call_follows [OF c assms(2) _ iv assms(4,5), simplified]
  have W: "W_upper e \<noteq> 0" using assms(2) by (auto simp: enc_ready_def)
  show ?thesis unfolding call_ok_def
  proof (intro conjI impI allI)
    show r: "enc_ready e'" by (rule F(1))
    assume ins: "code_inside s e'"
    then show "code_inside s e" by (rule F(2))
    fix d assume d: "stream d = s" "coded e d" "stream_zero_padded d"
    have "logist_view (k, 0) d" for k using d(3) by (simp add: logist_view_def stream_zero_padded_def)
    then obtain d' where d': "dec_call logist_search logist_refill False (\<lambda>n. (n, 0)) (\<lambda>p. fst p + snd p) ?ms d = Some (0, ds, d')"
      "coded e' d'" "stream d' = s" "stream_size d' = stream_size d" "0 < stream_index d'"
      using F(3) [OF ins d(1,2)] by metis
    then show "\<exists>d'. WebRtcIsacfix_DecLogisticMulti2 dither d env2 n
        = Some (int (final_bytes (W_upper e') (bytes_used (full e') (stream_index e'))), take (nat n) out @ drop (nat n) dither, d') \<and>
        coded e' d' \<and> stream d' = s \<and> stream_size d' = stream_size d \<and> 0 < stream_index d'"
      using dec_length_coded [OF d'(2,5)] len take
      by (simp add: WebRtcIsacfix_DecLogisticMulti2_def m4 case_prod_beta')
  qed
qed

section \<open>Where the decoder fails\<close>

text \<open>With the envelope 1 and the dither 64 the candidates are multiples of 128, the products are less
  than the last edge of the table, and the candidate wraps around: for a code above the largest
  value the search visits \<open>0, 128, \<dots>, 32640, - 32768, - 32640, \<dots>\<close> for ever.\<close>

lemma slope_centre: "22 \<le> i \<Longrightarrow> i \<le> 27 \<Longrightarrow> 13270 \<le> kCdfSlope ! i"
proof -
  assume "22 \<le> i" "i \<le> 27"
  then have "i = 22 \<or> i = 23 \<or> i = 24 \<or> i = 25 \<or> i = 26 \<or> i = 27" by linarith
  then show ?thesis by (auto simp: kCdfSlope_def)
qed

lemma segment_centre:
  assumes "- 32768 \<le> x" "x \<le> 32767" shows "22 \<le> segment x" "segment x \<le> 27"
proof -
  have "clamp_Q15 x = x" using assms by (simp add: clamp_Q15_def)
  note b = segment_bounds(2,3) [of x, unfolded this]
  have "22 \<le> int (segment x)" using b(2) assms(1) by simp
  then show "22 \<le> segment x" by simp
  have "int (segment x) \<le> 27" using b(1) assms(2) by simp
  then show "segment x \<le> 27" by simp
qed

lemma Piecewise_rise_segment:
  assumes "- 32768 \<le> x" "x + 64 \<le> 32767" "segment x = segment (x + 64)"
  shows "WebRtcIsacfix_Piecewise x < WebRtcIsacfix_Piecewise (x + 64)"
proof -
  define i where "i = segment x"
  have i: "22 \<le> i" "i \<le> 27" using segment_centre [of x] assms by (auto simp: i_def)
  have c: "clamp_Q15 x = x" "clamp_Q15 (x + 64) = x + 64" using assms by (auto simp: clamp_Q15_def)
  define d s where "d = x - kHistEdges ! i" and "s = kCdfSlope ! i"
  have P: "WebRtcIsacfix_Piecewise x = kCdfLogistic ! i + d * s div 32768"
    "WebRtcIsacfix_Piecewise (x + 64) = kCdfLogistic ! i + (d + 64) * s div 32768"
    using Piecewise_segment(1) [of x] Piecewise_segment(1) [of "x + 64"] i
    by (simp_all add: c assms(3) [symmetric] i_def [symmetric] d_def s_def algebra_simps)
  have "13270 \<le> s" unfolding s_def by (rule slope_centre [OF i])
  then have "d * s + 1 * 32768 \<le> (d + 64) * s" by (simp add: distrib_right)
  then have "(d * s + 1 * 32768) div 32768 \<le> (d + 64) * s div 32768" by (intro zdiv_mono1) auto
  then show ?thesis by (simp add: P)
qed

lemma Piecewise_rise:
  assumes "- 32768 \<le> x" "x + 128 \<le> 32767"
  shows "WebRtcIsacfix_Piecewise x < WebRtcIsacfix_Piecewise (x + 128)"
proof (cases "segment x = segment (x + 64)")
  case True
  have "WebRtcIsacfix_Piecewise x < WebRtcIsacfix_Piecewise (x + 64)"
    using assms True by (intro Piecewise_rise_segment) auto
  also have "\<dots> \<le> WebRtcIsacfix_Piecewise (x + 128)" by (rule Piecewise_mono) simp
  finally show ?thesis .
next
  case False
  have c: "clamp_Q15 x = x" "clamp_Q15 (x + 64) = x + 64" "clamp_Q15 (x + 128) = x + 128"
    using assms by (auto simp: clamp_Q15_def)
  have "segment x < segment (x + 64)" using False segment_mono [of x "x + 64"] by simp
  moreover have "segment (x + 64) \<le> segment (x + 128)" by (rule segment_mono) simp
  moreover have "int (segment (x + 128)) \<le> int (segment x) + 1"
    using segment_bounds(3) [of x, unfolded c] segment_bounds(2) [of "x + 128", unfolded c] by simp
  ultimately have "segment (x + 64) = segment (x + 128)" by simp
  moreover have "x + 64 + 64 = x + 128" by simp
  ultimately have "segment (x + 64) = segment (x + 64 + 64)" by (simp only:)
  then have "WebRtcIsacfix_Piecewise (x + 64) < WebRtcIsacfix_Piecewise (x + 64 + 64)"
    using assms by (intro Piecewise_rise_segment) auto
  moreover have "WebRtcIsacfix_Piecewise x \<le> WebRtcIsacfix_Piecewise (x + 64)" by (rule Piecewise_mono) simp
  ultimately show ?thesis by (simp add: add.commute)
qed

lemma Piecewise_ends: "WebRtcIsacfix_Piecewise 32640 = 58607" "WebRtcIsacfix_Piecewise (- 32768) = 7252"
  by code_simp+

text \<open>A candidate that is a multiple of 128, and its successor.\<close>

lemma wrapping_step:
  fixes k :: int
  assumes "- 256 \<le> k" "k \<le> 255"
  defines "k' \<equiv> (if k = 255 then - 256 else k + 1)"
  shows "to_i16 (128 * k + 128) = 128 * k'" "- 256 \<le> k'" "k' \<le> 255"
    "WebRtcIsacfix_Piecewise (mul_16_u16 (128 * k) 1) \<le> 58607"
    "WebRtcIsacfix_Piecewise (mul_16_u16 (128 * k) 1) \<noteq> WebRtcIsacfix_Piecewise (mul_16_u16 (128 * k') 1)"
proof -
  show k': "- 256 \<le> k'" "k' \<le> 255" using assms by (auto simp: k'_def)
  show "to_i16 (128 * k + 128) = 128 * k'"
    using assms(1,2) by (cases "k = 255") (auto simp: k'_def to_i16_def)
  have m: "mul_16_u16 (128 * j) 1 = 128 * j" if "- 256 \<le> j" "j \<le> 255" for j
    using that mul_16_u16_sample [of "128 * j" 1] by simp
  have "WebRtcIsacfix_Piecewise (128 * k) \<le> WebRtcIsacfix_Piecewise 32640"
    using assms(2) by (intro Piecewise_mono) simp
  then show "WebRtcIsacfix_Piecewise (mul_16_u16 (128 * k) 1) \<le> 58607"
    by (simp add: m assms(1,2) Piecewise_ends)
  show "WebRtcIsacfix_Piecewise (mul_16_u16 (128 * k) 1) \<noteq> WebRtcIsacfix_Piecewise (mul_16_u16 (128 * k') 1)"
  proof (cases "k = 255")
    case True
    then show ?thesis using m [of 255] m [of "- 256"] by (simp add: k'_def Piecewise_ends)
  next
    case False
    then have "WebRtcIsacfix_Piecewise (128 * k) < WebRtcIsacfix_Piecewise (128 * k + 128)"
      using assms(1,2) by (intro Piecewise_rise) auto
    then show ?thesis using False k' m [of k] m [of k'] assms(1,2) by (simp add: k'_def distrib_left)
  qed
qed

lemma logist_up_returns:
  assumes "logist_up W env sv W_lower c W_tmp = Some y"
  shows "\<not> (env = 1 \<and> 16777216 \<le> W \<and> W < 4294967296 \<and> scale_W W 58607 < sv \<and>
    (\<exists>k. - 256 \<le> k \<and> k \<le> 255 \<and> c = 128 * k \<and> W_tmp = scale_W W (WebRtcIsacfix_Piecewise (mul_16_u16 c 1))))"
proof (rule logist_up.raw_induct [OF _ assms, where P = "\<lambda>W env sv W_lower c W_tmp y.
    \<not> (env = 1 \<and> 16777216 \<le> W \<and> W < 4294967296 \<and> scale_W W 58607 < sv \<and>
      (\<exists>k. - 256 \<le> k \<and> k \<le> 255 \<and> c = 128 * k \<and> W_tmp = scale_W W (WebRtcIsacfix_Piecewise (mul_16_u16 c 1))))"])
  fix logist_up' W env sv W_lower c W_tmp and y :: "int + int \<times> int \<times> int"
  assume IH: "\<And>W env sv W_lower c W_tmp y. logist_up' W env sv W_lower c W_tmp = Some y \<Longrightarrow>
      \<not> (env = 1 \<and> 16777216 \<le> W \<and> W < 4294967296 \<and> scale_W W 58607 < sv \<and>
        (\<exists>k. - 256 \<le> k \<and> k \<le> 255 \<and> c = 128 * k \<and> W_tmp = scale_W W (WebRtcIsacfix_Piecewise (mul_16_u16 c 1))))"
    and body: "(if sv > W_tmp
      then let W_lower = W_tmp; candQ7 = to_i16 (c + 128);
               W_tmp = scale_W W (WebRtcIsacfix_Piecewise (mul_16_u16 candQ7 env))
           in if W_lower = W_tmp then Some (Inl (- 1)) else logist_up' W env sv W_lower candQ7 W_tmp
      else Some (Inr (W_lower, W_tmp, to_i16 (c - 64)))) = Some y"
  show "\<not> (env = 1 \<and> 16777216 \<le> W \<and> W < 4294967296 \<and> scale_W W 58607 < sv \<and>
      (\<exists>k. - 256 \<le> k \<and> k \<le> 255 \<and> c = 128 * k \<and> W_tmp = scale_W W (WebRtcIsacfix_Piecewise (mul_16_u16 c 1))))"
  proof
    assume "env = 1 \<and> 16777216 \<le> W \<and> W < 4294967296 \<and> scale_W W 58607 < sv \<and>
      (\<exists>k. - 256 \<le> k \<and> k \<le> 255 \<and> c = 128 * k \<and> W_tmp = scale_W W (WebRtcIsacfix_Piecewise (mul_16_u16 c 1)))"
    then obtain k where a: "env = 1" "16777216 \<le> W" "W < 4294967296" "scale_W W 58607 < sv" "- 256 \<le> k" "k \<le> 255"
      "c = 128 * k" "W_tmp = scale_W W (WebRtcIsacfix_Piecewise (mul_16_u16 c 1))" by blast
    define k' where "k' = (if k = 255 then - 256 else k + 1)"
    note w = wrapping_step [OF a(5,6), folded k'_def]
    let ?P = "\<lambda>k. WebRtcIsacfix_Piecewise (mul_16_u16 (128 * k) 1)"
    have "scale_W W (?P k) \<le> scale_W W 58607"
      using a w(4) Piecewise_range by (intro scale_W_mono) auto
    then have gt: "sv > W_tmp" using a by simp
    have "scale_W W (?P k) \<noteq> scale_W W (?P k')"
      using w(5) scale_Piecewise_strict [OF a(2,3)] by (metis linorder_neqE_linordered_idom less_irrefl)
    then have "logist_up' W 1 sv W_tmp (128 * k') (scale_W W (?P k')) = Some y"
      using body gt a w(1) by (simp add: Let_def split: if_splits)
    from IH [OF this] show False using a w(2,3) by blast
  qed
qed

lemma logist_search_hangs:
  assumes "16777216 \<le> W" "W < 4294967296" "scale_W W 58607 < sv"
  shows "logist_search (Some (64, 1)) W_lower W sv = None"
proof (rule ccontr)
  have t: "to_i16 (- 64 + 64) = 128 * 0" "to_i16 (128 * 0 + 128) = 128 * 1" by (simp_all add: to_i16_def)
  have "scale_W W (WebRtcIsacfix_Piecewise (mul_16_u16 (128 * 0) 1)) \<le> scale_W W 58607"
    using assms wrapping_step(4) [of 0] Piecewise_range by (intro scale_W_mono) auto
  then have gt: "sv > scale_W W (WebRtcIsacfix_Piecewise (mul_16_u16 (128 * 0) 1))" using assms(3) by simp
  assume "logist_search (Some (64, 1)) W_lower W sv \<noteq> None"
  then obtain y where "logist_up W 1 sv (scale_W W (WebRtcIsacfix_Piecewise (mul_16_u16 (128 * 0) 1))) (128 * 1)
      (scale_W W (WebRtcIsacfix_Piecewise (mul_16_u16 (128 * 1) 1))) = Some y"
    using gt unfolding logist_search_def option.case prod.case Let_def t by auto
  from logist_up_returns [OF this] show False using assms by (auto intro!: exI [of _ 1])
qed


text \<open>A flat step on the way to the symbol: the search gives up.\<close>

lemma logist_up_flat:
  assumes "16777216 \<le> W" "W < 4294967296" "0 \<le> env" "env < 65536"
    and "WebRtcIsacfix_Piecewise (y * env) = WebRtcIsacfix_Piecewise ((y + 128) * env)"
    and "scale_W W (WebRtcIsacfix_Piecewise (y * env)) < sv" "y + 128 \<le> 32767" "- 32768 \<le> y - 128 * int (Suc n)"
  shows "logist_up W env sv (scale_W W (WebRtcIsacfix_Piecewise ((y - 128 * int (Suc n)) * env))) (y - 128 * int n)
      (scale_W W (WebRtcIsacfix_Piecewise ((y - 128 * int n) * env))) = Some (Inl (- 1))"
  using assms(8)
proof (induction n)
  case 0
  have "mul_16_u16 (y + 128) env = (y + 128) * env" "to_i16 (y + 128) = y + 128"
    using assms(3,4,7) 0 by (auto intro!: mul_16_u16_sample to_i16_id simp: is_i16_def)
  then show ?case using assms(5,6) by (subst logist_up.simps) (simp add: Let_def)
next
  case (Suc n)
  define x where "x = y - 128 * int (Suc n)"
  have x: "y - 128 * int n = x + 128" "x \<le> y" by (simp_all add: x_def)
  have xr: "- 32768 \<le> x" using Suc.prems by (simp add: x_def)
  have "mul_16_u16 (x + 128) env = (x + 128) * env" "to_i16 (x + 128) = x + 128"
    using assms(3,4,7) Suc.prems by (auto intro!: mul_16_u16_sample to_i16_id simp: is_i16_def x_def)
  moreover have "scale_W W (WebRtcIsacfix_Piecewise (x * env)) < sv"
    using scale_Piecewise_mono [of W env x y] assms(1-3,6) x(2) by simp
  moreover have "logist_up W env sv (scale_W W (WebRtcIsacfix_Piecewise (x * env))) (x + 128)
      (scale_W W (WebRtcIsacfix_Piecewise ((x + 128) * env))) = Some (Inl (- 1))"
    using Suc.IH xr unfolding x(1) x_def [symmetric] by blast
  ultimately show ?case unfolding x_def [symmetric] by (subst logist_up.simps) (simp add: Let_def)
qed

lemma logist_gap_values:
  "WebRtcIsacfix_Piecewise (18703 * 7) = WebRtcIsacfix_Piecewise (18831 * 7)"
  "WebRtcIsacfix_Piecewise (18831 * 7) + 1 < WebRtcIsacfix_Piecewise (18959 * 7)"
  by code_simp+

lemma logist_search_gap:
  assumes "16777216 \<le> W" "W < 4294967296" "scale_W W (WebRtcIsacfix_Piecewise (18831 * 7)) < sv"
  shows "logist_search (Some (49, 7)) W_lower W sv = Some (Inl (- 1))"
proof -
  have t: "to_i16 (- 49 + 64) = 15" "to_i16 (15 + 128) = 143" by (simp_all add: to_i16_def)
  have m: "mul_16_u16 15 7 = 15 * 7" "mul_16_u16 143 7 = 143 * 7" by (simp_all add: mul_16_u16_sample)
  have y: "(18703 :: int) - 128 * int (Suc 145) = 15" "(18703 :: int) - 128 * int 145 = 143" by simp_all
  have "scale_W W (WebRtcIsacfix_Piecewise (15 * 7)) \<le> scale_W W (WebRtcIsacfix_Piecewise (18831 * 7))"
    using assms by (intro scale_Piecewise_mono) auto
  then have "sv > scale_W W (WebRtcIsacfix_Piecewise (15 * 7))" using assms(3) by simp
  moreover have "logist_up W 7 sv (scale_W W (WebRtcIsacfix_Piecewise (15 * 7))) 143
      (scale_W W (WebRtcIsacfix_Piecewise (143 * 7))) = Some (Inl (- 1))"
    using logist_up_flat [of W 7 18703 sv 145, unfolded y] assms logist_gap_values(1) by simp
  ultimately show ?thesis unfolding logist_search_def option.case prod.case Let_def t m by (simp only: if_True)
qed

end
