(* ===== verification/IsacCoder.thy ===== *)
theory IsacCoder
  imports IsacLogist
begin

text \<open>
  Whole iSAC streams: the reset of the stream records (\<open>encode.c\<close>, \<open>isacfix.c\<close>), the conversion
  between 16-bit words and payload bytes (\<open>isacfix.c\<close>), and any sequence of coder calls, closed by
  \<open>WebRtcIsacfix_EncTerminate\<close>, followed by the same sequence of decoder calls on the payload.
\<close>

section \<open>Payload bytes\<close>

definition read_be16 :: "int list \<Rightarrow> nat \<Rightarrow> int list \<Rightarrow> int list" where
  "read_be16 src nbytes dest =
     (let dest = fold (\<lambda>i dest. dest[i := to_u16 (shl (src ! (2 * i)) 8 OR src ! (2 * i + 1))]) [0..<nbytes div 2] dest
      in if nbytes mod 2 = 1 then dest[nbytes div 2 := to_u16 (shl (src ! (nbytes - 1)) 8)] else dest)"

definition write_be16 :: "int list \<Rightarrow> nat \<Rightarrow> int list \<Rightarrow> int list" where
  "write_be16 src nbytes dest =
     (let dest = fold (\<lambda>i dest. dest[2 * i := to_u8 (shr (src ! i) 8), 2 * i + 1 := to_u8 (src ! i)]) [0..<nbytes div 2] dest
      in if nbytes mod 2 = 1 then dest[nbytes - 1 := to_u8 (shr (src ! (nbytes div 2)) 8), nbytes := 0] else dest)"

text \<open>The reset of the encoder's stream before a frame, and of the decoder's before a packet.\<close>

definition reset_enc_bitstream :: "Bitstr_enc \<Rightarrow> Bitstr_enc" where
  "reset_enc_bitstream sd = sd\<lparr>W_upper := 0xFFFFFFFF, streamval := 0, stream_index := 0, full := 1\<rparr>"

definition InitializeDecoderBitstream :: "nat \<Rightarrow> Bitstr_dec \<Rightarrow> Bitstr_dec" where
  "InitializeDecoderBitstream stream_size_bytes bitstream =
     bitstream\<lparr>W_upper := 0xFFFFFFFF, streamval := 0, stream_index := 0, full := 1,
       stream_size := (stream_size_bytes + 1) div 2, stream := replicate INTERNAL_STREAM_SIZE_W16 0\<rparr>"

definition load_packet :: "int list \<Rightarrow> nat \<Rightarrow> Bitstr_dec \<Rightarrow> Bitstr_dec" where
  "load_packet encoded len bitstream =
     (let d = InitializeDecoderBitstream len bitstream in d\<lparr>stream := read_be16 encoded len (stream d)\<rparr>)"

lemma length_fold_update: "length (fold (\<lambda>i d. d[i := g i]) [0..<n] d) = length d"
  by (induction n) simp_all

lemma fold_update_nth:
  "j < length d \<Longrightarrow> fold (\<lambda>i d. d[i := g i]) [0..<n] d ! j = (if j < n then g j else d ! j)"
  by (induction n) (auto simp: nth_list_update length_fold_update less_Suc_eq)

lemma read_be16_nth:
  assumes "j < length dest"
  shows "read_be16 src n dest ! j = (if j < n div 2 then to_u16 (shl (src ! (2 * j)) 8 OR src ! (2 * j + 1))
    else if j = n div 2 \<and> n mod 2 = 1 then to_u16 (shl (src ! (n - 1)) 8) else dest ! j)"
  using assms by (auto simp: read_be16_def Let_def fold_update_nth length_fold_update nth_list_update)

lemma length_read_be16: "length (read_be16 src n dest) = length dest"
  by (simp add: read_be16_def Let_def length_fold_update)

lemma length_write_loop: "length (fold (\<lambda>i d. d[2 * i := g i, 2 * i + 1 := h i]) [0..<n] d) = length d"
  by (induction n) simp_all

lemma write_loop_nth:
  assumes "2 * n \<le> length d" "j < length d"
  shows "fold (\<lambda>i d. d[2 * i := g i, 2 * i + 1 := h i]) [0..<n] d ! j
      = (if j < 2 * n then if even j then g (j div 2) else h (j div 2) else d ! j)"
  using assms
proof (induction n)
  case (Suc n)
  have "j = 2 * n \<or> j = 2 * n + 1 \<or> j < 2 * n \<or> 2 * n + 2 \<le> j" by linarith
  then show ?case using Suc length_write_loop [of g h n d] by (auto simp: nth_list_update)
qed simp

lemma write_be16_nth:
  assumes "n + n mod 2 \<le> length dest" "j < n"
  shows "write_be16 src n dest ! j = (if even j then to_u8 (shr (src ! (j div 2)) 8) else to_u8 (src ! (j div 2)))"
proof -
  have n: "n = 2 * (n div 2) + n mod 2" by simp
  define m where "m = n div 2"
  define f where "f = fold (\<lambda>i dest. dest[2 * i := to_u8 (shr (src ! i) 8), 2 * i + 1 := to_u8 (src ! i)]) [0..<m] dest"
  have le: "2 * m \<le> length dest" "j < length dest" using assms n unfolding m_def by linarith+
  have w: "f ! j = (if j < 2 * m then if even j then to_u8 (shr (src ! (j div 2)) 8) else to_u8 (src ! (j div 2)) else dest ! j)"
    unfolding f_def by (rule write_loop_nth [OF le])
  have lf: "length f = length dest" unfolding f_def by (rule length_write_loop)
  have W: "write_be16 src n dest = (if n mod 2 = 1 then f[n - 1 := to_u8 (shr (src ! m) 8), n := 0] else f)"
    by (simp add: write_be16_def Let_def f_def m_def)
  show ?thesis
  proof (cases "n mod 2 = 1")
    case True
    have e: "even (n - 1)" "(n - 1) div 2 = m" "n - 1 = 2 * m" using True unfolding m_def by presburger+
    consider "j = n - 1" | "j < 2 * m" "j \<noteq> n - 1" using assms(2) e(3) by linarith
    then show ?thesis
    proof cases
      case 1
      have "n - 1 \<noteq> n" using assms(2) by simp
      then have "write_be16 src n dest ! j = to_u8 (shr (src ! m) 8)"
        unfolding W if_P [OF True] 1 using le(2) lf 1 by simp
      then show ?thesis using e(1,2) 1 by simp
    next
      case 2
      then show ?thesis unfolding W if_P [OF True] using w assms(2) by simp
    qed
  next
    case False
    then have "j < 2 * m" using n assms(2) unfolding m_def by linarith
    then show ?thesis unfolding W if_not_P [OF False] using w by simp
  qed
qed

text \<open>The decoder sees the bytes of the encoder's words.\<close>

lemma or_byte_word:
  assumes "is_u8 a" "is_u8 b" shows "to_u16 (shl a 8 OR b) = 256 * a + b"
  using or_low_byte [of b a] assms by (simp add: is_u8_def shl_def to_u16_def mult.commute)

lemma read_be16_byte:
  assumes "\<And>i. i < n \<Longrightarrow> is_u8 (src ! i)" "j < n" "(n + 1) div 2 \<le> length dest"
  shows "stream_byte (read_be16 src n dest) j = src ! j"
proof -
  have l: "j div 2 < length dest" using assms(2,3) by linarith
  have b: "0 \<le> src ! i" "src ! i < 256" if "i < n" for i using assms(1) [OF that] by (auto simp: is_u8_def)
  show ?thesis
  proof (cases "j div 2 < n div 2")
    case True
    then have i: "2 * (j div 2) < n" "2 * (j div 2) + 1 < n" by linarith+
    have "read_be16 src n dest ! (j div 2) = 256 * src ! (2 * (j div 2)) + src ! (2 * (j div 2) + 1)"
      using read_be16_nth [OF l] True or_byte_word [OF assms(1) [OF i(1)] assms(1) [OF i(2)]] by simp
    then show ?thesis using b [OF i(2)] by (cases "even j") (auto simp: stream_byte_def elim!: evenE oddE)
  next
    case False
    then have n: "j = n - 1" "n mod 2 = 1" "j div 2 = n div 2" "even j" using assms(2) by presburger+
    have "read_be16 src n dest ! (j div 2) = 256 * src ! j"
      using read_be16_nth [OF l] n b [OF assms(2)] by (simp add: shl_def to_u16_def)
    then show ?thesis using n by (simp add: stream_byte_def)
  qed
qed

lemma load_packet_spec:
  assumes "\<And>i. i < len \<Longrightarrow> is_u8 (encoded ! i)" "len \<le> 600"
  shows "all_u16 (stream (load_packet encoded len d))" "length (stream (load_packet encoded len d)) = 305"
    "stream_zero_padded (load_packet encoded len d)"
    "\<And>j. j < len \<Longrightarrow> stream_byte (stream (load_packet encoded len d)) j = encoded ! j"
proof -
  let ?z = "replicate 305 (0 :: int)"
  have s: "stream (load_packet encoded len d) = read_be16 encoded len ?z"
    "stream_size (load_packet encoded len d) = (len + 1) div 2"
    by (simp_all add: load_packet_def InitializeDecoderBitstream_def INTERNAL_STREAM_SIZE_W16_def Let_def)
  show l: "length (stream (load_packet encoded len d)) = 305" by (simp add: s length_read_be16)
  have "0 \<le> read_be16 encoded len ?z ! j \<and> read_be16 encoded len ?z ! j < 65536" if "j < 305" for j
    using that by (simp add: read_be16_nth to_u16_def)
  then show "all_u16 (stream (load_packet encoded len d))"
    unfolding all_u16_def s by (metis in_set_conv_nth l s(1))
  have "read_be16 encoded len ?z ! i = 0" if "(len + 1) div 2 \<le> i" "i < 305" for i
  proof -
    have "\<not> i < len div 2" "\<not> (i = len div 2 \<and> len mod 2 = Suc 0)" using that(1) by presburger+
    then have "\<not> (i = len div 2 \<and> len mod 2 = 1)" by simp
    with \<open>\<not> i < len div 2\<close> that(2) show ?thesis by (simp only: read_be16_nth length_replicate if_False nth_replicate)
  qed
  then show "stream_zero_padded (load_packet encoded len d)"
    using assms(2) l by (auto simp: stream_zero_padded_def s)
  show "\<And>j. j < len \<Longrightarrow> stream_byte (stream (load_packet encoded len d)) j = encoded ! j"
    unfolding s(1) using assms by (intro read_be16_byte) auto
qed

section \<open>Sequences of calls\<close>

text \<open>A coder call with its arguments, those of the matching decoder call included.\<close>

datatype coded_block =
    Stepped "int list" "int list list" "nat list" int
  | Bisected "int list" "int list list" "nat list" int
  | Spectrum "int list" "int list" "int list" "int list" int

fun enc_block :: "coded_block \<Rightarrow> Bitstr_enc \<Rightarrow> (int \<times> int list \<times> Bitstr_enc) option" where
  "enc_block (Stepped dat cdf init n) e = map_option (\<lambda>(ret, e). (ret, take (nat n) dat, e)) (WebRtcIsacfix_EncHistMulti e dat cdf n)"
| "enc_block (Bisected dat cdf sizes n) e = map_option (\<lambda>(ret, e). (ret, take (nat n) dat, e)) (WebRtcIsacfix_EncHistMulti e dat cdf n)"
| "enc_block (Spectrum dat env dither env2 n) e = WebRtcIsacfix_EncLogisticMulti2 e dat env n"

fun dec_block :: "coded_block \<Rightarrow> Bitstr_dec \<Rightarrow> (int \<times> int list \<times> Bitstr_dec) option" where
  "dec_block (Stepped dat cdf init n) d = WebRtcIsacfix_DecHistOneStepMulti d cdf init n"
| "dec_block (Bisected dat cdf sizes n) d = WebRtcIsacfix_DecHistBisectMulti d cdf sizes n"
| "dec_block (Spectrum dat env dither env2 n) d = WebRtcIsacfix_DecLogisticMulti2 dither d env2 n"

text \<open>The arguments fit together, \<open>out\<close> being what the encoder stored; and what the decoder then returns.\<close>

fun block_ok :: "coded_block \<Rightarrow> int list \<Rightarrow> bool" where
  "block_ok (Stepped dat cdf init n) out \<longleftrightarrow> one_step_tables dat cdf init n"
| "block_ok (Bisected dat cdf sizes n) out \<longleftrightarrow> bisect_tables dat cdf sizes n"
| "block_ok (Spectrum dat env dither env2 n) out \<longleftrightarrow> logistic_args dat env dither env2 n out"

fun decoded :: "coded_block \<Rightarrow> int list \<Rightarrow> int list" where
  "decoded (Spectrum dat env dither env2 n) out = take (nat n) out @ drop (nat n) dither"
| "decoded b out = out"

fun enc_blocks :: "coded_block list \<Rightarrow> Bitstr_enc \<Rightarrow> (int list list \<times> Bitstr_enc) option" where
  "enc_blocks [] e = Some ([], e)"
| "enc_blocks (b # bs) e =
     (case enc_block b e of None \<Rightarrow> None
      | Some (ret, out, e) \<Rightarrow> if ret \<noteq> 0 then None
                           else map_option (\<lambda>(outs, e). (out # outs, e)) (enc_blocks bs e))"

fun dec_blocks :: "coded_block list \<Rightarrow> Bitstr_dec \<Rightarrow> ((int \<times> int list) list \<times> Bitstr_dec) option" where
  "dec_blocks [] d = Some ([], d)"
| "dec_blocks (b # bs) d =
     (case dec_block b d of None \<Rightarrow> None
      | Some (ret, out, d) \<Rightarrow> map_option (\<lambda>(rs, d). ((ret, out) # rs, d)) (dec_blocks bs d))"

lemma block_call_ok:
  assumes "enc_block b e = Some (0, out, e')" "enc_ready e" "block_ok b out" "all_u16 s" "203 \<le> length s"
  shows "call_ok e e' (decoded b out) (dec_block b) s stream_zero_padded"
proof (cases b)
  case (Stepped dat cdf init n)
  then show ?thesis using assms one_step_call_ok [of e dat cdf n e' init s]
    by (auto simp: call_ok_def)
next
  case (Bisected dat cdf sizes n)
  then show ?thesis using assms bisect_call_ok [of e dat cdf n e' sizes s]
    by (auto simp: call_ok_def)
next
  case (Spectrum dat env dither env2 n)
  then show ?thesis using assms logistic_call_ok [of e dat env n out e' dither env2 s]
    by (auto simp: call_ok_def)
qed

lemma blocks_follow:
  assumes "enc_blocks bs e = Some (outs, e')" "enc_ready e" "list_all2 block_ok bs outs" "all_u16 s" "203 \<le> length s"
  shows "enc_ready e' \<and> (code_inside s e' \<longrightarrow> code_inside s e \<and>
    (\<forall>d. stream d = s \<longrightarrow> coded e d \<longrightarrow> stream_zero_padded d \<longrightarrow>
      (\<exists>rs d'. dec_blocks bs d = Some (rs, d') \<and> map snd rs = map2 decoded bs outs \<and> coded e' d' \<and>
         (bs \<noteq> [] \<longrightarrow> fst (last rs) = int (final_bytes (W_upper e') (bytes_used (full e') (stream_index e')))))))"
  using assms(1-3)
proof (induction bs arbitrary: e outs)
  case (Cons b bs)
  obtain out e1 outs' where b: "enc_block b e = Some (0, out, e1)" and rest: "enc_blocks bs e1 = Some (outs', e')"
    and outs: "outs = out # outs'"
    using Cons.prems(1) by (auto split: option.splits if_splits)
  have ok: "block_ok b out" "list_all2 block_ok bs outs'" using Cons.prems(3) outs by auto
  note c = block_call_ok [OF b Cons.prems(2) ok(1) assms(4,5), unfolded call_ok_def]
  note IH = Cons.IH [OF rest c [THEN conjunct1] ok(2)]
  show ?case
  proof (intro conjI impI allI)
    show "enc_ready e'" using IH by simp
    assume ins: "code_inside s e'"
    then have ins1: "code_inside s e1" using IH by simp
    then show "code_inside s e" using c by simp
    fix d assume d: "stream d = s" "coded e d" "stream_zero_padded d"
    obtain d1 where d1: "dec_block b d
        = Some (int (final_bytes (W_upper e1) (bytes_used (full e1) (stream_index e1))), decoded b out, d1)"
        "coded e1 d1" "stream d1 = s" "stream_size d1 = stream_size d"
      using c ins1 d by blast
    have "stream_zero_padded d1" using d1(3,4) d(1,3) by (simp add: stream_zero_padded_def)
    then obtain rs d' where r: "dec_blocks bs d1 = Some (rs, d')" "map snd rs = map2 decoded bs outs'" "coded e' d'"
        "bs \<noteq> [] \<longrightarrow> fst (last rs) = int (final_bytes (W_upper e') (bytes_used (full e') (stream_index e')))"
      using IH ins d1(2,3) by blast
    have len: "length rs = length bs"
      using arg_cong [OF r(2), of length] ok(2) by (simp add: list_all2_lengthD)
    have "fst (last ((int (final_bytes (W_upper e1) (bytes_used (full e1) (stream_index e1))), decoded b out) # rs))
        = int (final_bytes (W_upper e') (bytes_used (full e') (stream_index e')))"
    proof (cases "bs = []")
      case True
      then show ?thesis using rest len by simp
    next
      case False
      then have "rs \<noteq> []" using len by auto
      then show ?thesis using r(4) False by simp
    qed
    then show "\<exists>rs d'. dec_blocks (b # bs) d = Some (rs, d') \<and> map snd rs = map2 decoded (b # bs) outs \<and> coded e' d' \<and>
         (b # bs \<noteq> [] \<longrightarrow> fst (last rs) = int (final_bytes (W_upper e') (bytes_used (full e') (stream_index e'))))"
      using d1(1) r(1-3) outs by simp
  qed
qed auto

lemma reset_ready:
  assumes "all_u16 (stream e)" "length (stream e) = 200"
  shows "enc_ready (reset_enc_bitstream e)"
  using assms by (simp add: enc_ready_def enc_ok_def store_ok_def reset_enc_bitstream_def STREAM_MAXW16_60MS_def
      enc_lower_def enc_num_def bytes_used_def)

lemma load_coded: "coded (reset_enc_bitstream e) (load_packet encoded len d)"
  by (simp add: coded_def reset_enc_bitstream_def load_packet_def InitializeDecoderBitstream_def Let_def)


section \<open>Round trip\<close>

lemma all_u16_to_u16: "all_u16 s \<Longrightarrow> all_u16 (s[p := to_u16 w])"
  by (rule all_u16_update) (simp_all add: to_u16_def)

lemma carry_back_u16:
  "carry_back s p = Some s' \<Longrightarrow> all_u16 s \<Longrightarrow> all_u16 s' \<and> length s' = length s"
proof (induction s p rule: carry_back.induct)
  case (2 s p)
  have u: "all_u16 (s[p := to_u16 (s ! p + 1)])" by (rule all_u16_to_u16 [OF 2(3)])
  show ?case using 2(1) [OF _ refl refl] 2(2) u by (auto simp: Let_def split: if_splits)
qed simp

lemma propagate_carry_u16:
  assumes "propagate_carry p sd = Some sd'" "all_u16 (stream sd)"
  shows "all_u16 (stream sd') \<and> length (stream sd') = length (stream sd)"
proof (cases "full sd = 0")
  case True
  let ?s = "(stream sd)[p := to_u16 (stream sd ! p + 0x0100)]"
  obtain s where s: "(if to_u16 (stream sd ! p + 0x0100) = 0 then carry_back ?s p else Some ?s) = Some s" "stream sd' = s"
    using assms(1) True by (auto simp: propagate_carry_def Let_def split: if_splits)
  have "all_u16 ?s" by (rule all_u16_to_u16 [OF assms(2)])
  moreover have "length ?s = length (stream sd)" by simp
  ultimately show ?thesis using s carry_back_u16 [of ?s p s] by (cases "to_u16 (stream sd ! p + 0x0100) = 0") auto
next
  case False
  then show ?thesis using assms carry_back_u16 by (auto simp: propagate_carry_def)
qed

lemma put_byte_u16:
  "put_byte p sd = Some (q, sd') \<Longrightarrow> all_u16 (stream sd) \<Longrightarrow> all_u16 (stream sd') \<and> length (stream sd') = length (stream sd)"
  by (auto simp: put_byte_def intro: all_u16_to_u16 split: if_splits)

lemma u16_or: "0 \<le> x \<Longrightarrow> x < 65536 \<Longrightarrow> 0 \<le> x OR to_u16 y \<and> x OR to_u16 y < 65536"
  using OR_upper [of x 16 "to_u16 y"] by (simp add: to_u16_def)

lemma u16_and: "0 \<le> to_u16 y AND m \<and> to_u16 y AND m < 65536"
  using AND_upper1 [of "to_u16 y" m] by (simp add: to_u16_def order_le_less_trans)

lemma terminate_u16:
  assumes "WebRtcIsacfix_EncTerminate sd = Some (n, sd')" "all_u16 (stream sd)"
  shows "all_u16 (stream sd') \<and> length (stream sd') = length (stream sd)"
proof -
  have c: "all_u16 (stream sd2) \<and> length (stream sd2) = length (stream sd)"
    if "(if b then propagate_carry p sd1 else Some sd1) = Some sd2" "stream sd1 = stream sd" for b p sd1 sd2
    using that assms(2) propagate_carry_u16 [of p sd1 sd2] by (auto split: if_splits)
  let ?p = "stream_index sd"
  show ?thesis
  proof (cases "W_upper sd > 0x01FFFFFF")
    case True
    let ?sd1 = "sd\<lparr>streamval := to_u32 (streamval sd + 0x01000000)\<rparr>"
    obtain sd2 where sd2: "(if streamval ?sd1 < 0x01000000 then propagate_carry ?p ?sd1 else Some ?sd1) = Some sd2"
      using assms(1) True unfolding WebRtcIsacfix_EncTerminate_def Let_def if_P [OF True]
      by (auto split: option.splits)
    have u: "all_u16 (stream sd2)" "length (stream sd2) = length (stream sd)" using c [OF sd2] by simp_all
    obtain q where "put_byte ?p sd2 = Some (q, sd')"
      using assms(1) unfolding WebRtcIsacfix_EncTerminate_def Let_def if_P [OF True] sd2 option.case
      by (auto split: option.splits)
    then show ?thesis using u put_byte_u16 by simp
  next
    case False
    let ?sd1 = "sd\<lparr>streamval := to_u32 (streamval sd + 0x00010000)\<rparr>"
    obtain sd2 where sd2: "(if streamval ?sd1 < 0x00010000 then propagate_carry ?p ?sd1 else Some ?sd1) = Some sd2"
      using assms(1) unfolding WebRtcIsacfix_EncTerminate_def Let_def if_not_P [OF False]
      by (auto split: option.splits)
    have u: "all_u16 (stream sd2)" "length (stream sd2) = length (stream sd)" using c [OF sd2] by simp_all
    note e = assms(1) [unfolded WebRtcIsacfix_EncTerminate_def Let_def if_not_P [OF False] sd2 option.case]
    show ?thesis
    proof (cases "full sd2 \<noteq> 0")
      case True
      then show ?thesis using e all_u16_to_u16 [OF u(1)] u(2) by (auto split: if_splits)
    next
      case f: False
      then have p: "?p + 1 < length (stream sd2)" and s: "stream sd' = (stream sd2)
          [?p := stream sd2 ! ?p OR to_u16 (shr (streamval sd2) 24), ?p + 1 := to_u16 (shr (streamval sd2) 8) AND 0xFF00]"
        using e by (auto split: if_splits)
      have "0 \<le> stream sd2 ! ?p" "stream sd2 ! ?p < 65536" using all_u16_nth [OF u(1)] p by auto
      then show ?thesis unfolding s using u16_or u16_and u by (auto intro!: all_u16_update)
    qed
  qed
qed

lemma word_bytes:
  assumes "0 \<le> w" "w < 65536" shows "to_u8 (shr w 8) = w div 256" "to_u8 w = w mod 256"
proof -
  have "w div 256 < 256" "0 \<le> w div 256" using assms by (auto simp: pos_imp_zdiv_nonneg_iff intro: int_div_less)
  then show "to_u8 (shr w 8) = w div 256" by (simp add: to_u8_def shr_def)
qed (simp add: to_u8_def)

lemma write_be16_stream_byte:
  assumes "all_u16 s" "n + n mod 2 \<le> length buf" "j < n" "(n + 1) div 2 \<le> length s"
  shows "write_be16 s n buf ! j = stream_byte s j"
proof -
  have "j div 2 < length s" using assms(3,4) by linarith
  then show ?thesis
    using write_be16_nth [OF assms(2,3)] word_bytes [of "s ! (j div 2)"] all_u16_nth [OF assms(1)]
    by (simp add: stream_byte_def)
qed

text \<open>When a stream is terminated, and how long it is then.\<close>

lemma terminate_none:
  assumes "enc_ready e"
  shows "WebRtcIsacfix_EncTerminate e = None \<longleftrightarrow> W_upper e \<le> 0x01FFFFFF \<and> full e = 0 \<and> stream_index e = 199"
proof -
  have ok: "enc_ok (W_upper e) (stream_index e) e" "16777216 \<le> W_upper e" using assms by (auto simp: enc_ready_def)
  have p: "stream_index e \<noteq> 199 \<Longrightarrow> stream_index e < 199" using ok(1) by (auto simp: enc_ok_def)
  show ?thesis
  proof (cases "W_upper e > 0x01FFFFFF")
    case True
    then show ?thesis using terminate_wide [OF ok(1) True] by auto
  next
    case False
    then have "full e = 0 \<and> stream_index e = 199" if "WebRtcIsacfix_EncTerminate e = None"
      using terminate_narrow [OF ok] p that by fastforce
    then show ?thesis using terminate_overrun [OF ok False] False by auto
  qed
qed

lemma terminate_length:
  assumes "enc_ready e" "WebRtcIsacfix_EncTerminate e = Some (n, e')"
  shows "n = int (final_bytes (W_upper e) (bytes_used (full e) (stream_index e)))" "1 \<le> n" "n \<le> 400"
proof -
  have ok: "enc_ok (W_upper e) (stream_index e) e" "16777216 \<le> W_upper e" using assms by (auto simp: enc_ready_def)
  show n: "n = int (final_bytes (W_upper e) (bytes_used (full e) (stream_index e)))"
    using terminate_spec [OF ok assms(2)] by simp
  have "\<not> (W_upper e \<le> 0x01FFFFFF \<and> full e = 0 \<and> stream_index e = 199)"
    using terminate_none [OF assms(1)] assms(2) by simp
  moreover have "stream_index e < 200" using ok(1) by (simp add: enc_ok_def)
  ultimately show "1 \<le> n" "n \<le> 400" unfolding n final_bytes_def bytes_used_def by (auto split: if_splits)
qed


text \<open>C1: Round trip of the iSAC arithmetic coder. A frame is coded from a reset stream by any
  sequence of calls of the histogram coder and the logistic coder, closed by \<open>EncTerminate\<close>, which
  returns the payload length \<open>n\<close>; the stream is written to the payload by \<open>write_be16\<close>. A packet that starts
  with the \<open>n\<close> payload bytes, whatever bytes follow, is loaded by the decoder and given to the matching
  decoder calls (one-step search, bisection, or the logistic search). They succeed, return exactly the data the
  encoder coded, and the return value of the last one is \<open>n\<close>, the length of the payload. The tables
  have to be proper (\<open>block_ok\<close>): increasing cumulative frequencies that hold the symbol, the search
  starting inside the table, for the logistic coder the same envelope magnitudes on both sides and a cumulative
  function that rises on the way from the first candidate to the symbol.\<close>

theorem isac_stream_round_trip:
  assumes "all_u16 (stream e0)" "length (stream e0) = STREAM_MAXW16_60MS"
    and "enc_blocks bs (reset_enc_bitstream e0) = Some (outs, e1)" "list_all2 block_ok bs outs"
    and "WebRtcIsacfix_EncTerminate e1 = Some (n, e2)"
    and "400 \<le> length buf" "nat n \<le> len" "len \<le> 600" "\<And>i. i < len \<Longrightarrow> is_u8 (payload ! i)"
    and "take (nat n) payload = take (nat n) (write_be16 (stream e2) (nat n) buf)" "nat n \<le> length payload"
  shows "\<exists>rs d. dec_blocks bs (load_packet payload len d0) = Some (rs, d) \<and> map snd rs = map2 decoded bs outs \<and>
    (bs \<noteq> [] \<longrightarrow> fst (last rs) = n)"
proof -
  let ?d = "load_packet payload len d0"
  note P = load_packet_spec [OF assms(9,8), where d = d0]
  have r0: "enc_ready (reset_enc_bitstream e0)"
    using reset_ready [OF assms(1)] assms(2) by (simp add: STREAM_MAXW16_60MS_def)
  have len: "203 \<le> length (stream ?d)" using P(2) by simp
  note F = blocks_follow [OF assms(3) r0 assms(4) P(1) len]
  have r1: "enc_ready e1" using F by simp
  then have s1: "all_u16 (stream e1)" "length (stream e1) = 200"
    by (auto simp: enc_ready_def enc_ok_def store_ok_def STREAM_MAXW16_60MS_def)
  note T = terminate_length [OF r1 assms(5)]
  have u2: "all_u16 (stream e2)" "length (stream e2) = 200"
    using terminate_u16 [OF assms(5) s1(1)] s1(2) by simp_all
  have "same_bytes (nat n) (stream e2) (stream ?d)"
    unfolding same_bytes_def
  proof (intro allI impI)
    fix i assume i: "i < nat n"
    have "stream_byte (stream ?d) i = payload ! i" using P(4) i assms(7) by simp
    also have "\<dots> = take (nat n) payload ! i" using i by simp
    also have "\<dots> = write_be16 (stream e2) (nat n) buf ! i" using i by (simp add: assms(10))
    also have "\<dots> = stream_byte (stream e2) i"
    proof (rule write_be16_stream_byte [OF u2(1) _ i])
      have "nat n \<le> 400" using T by simp
      then show "(nat n + 1) div 2 \<le> length (stream e2)" unfolding u2(2) by simp
      have "k + k mod 2 \<le> 400" if "k \<le> 400" for k :: nat using that by presburger
      from this [OF \<open>nat n \<le> 400\<close>]
      show "nat n + nat n mod 2 \<le> length buf" using assms(6) by simp
    qed
    finally show "stream_byte (stream e2) i = stream_byte (stream ?d) i" ..
  qed
  then have "code_inside (stream ?d) e1" using terminate_inside [OF r1 assms(5) P(1) len] by simp
  then obtain rs d where "dec_blocks bs ?d = Some (rs, d)" "map snd rs = map2 decoded bs outs"
      "bs \<noteq> [] \<longrightarrow> fst (last rs) = int (final_bytes (W_upper e1) (bytes_used (full e1) (stream_index e1)))"
    using F load_coded P(3) by blast
  then show ?thesis using T(1) by simp
qed

definition example_enc :: Bitstr_enc where
  "example_enc = \<lparr>stream = replicate 200 0, W_upper = 7, streamval = 9, stream_index = 3, full = 0\<rparr>"

definition example_dec :: Bitstr_dec where
  "example_dec = \<lparr>stream = replicate 305 1, W_upper = 7, streamval = 9, stream_index = 3, full = 0, stream_size = 4\<rparr>"

definition example_blocks :: "coded_block list" where
  "example_blocks = [Stepped [2, 0] [[0, 20000, 40000, 65535], [0, 30000, 65535]] [1, 1] 2,
     Bisected [5] [[0, 10000, 20000, 30000, 40000, 50000, 65535]] [8] 1,
     Spectrum [300, - 200, 90, - 2000] [200] [84, 72, 38, 80] [40000] 4]"

definition example_frame :: "(int list list \<times> int \<times> int list) option" where
  "example_frame = Option.bind (enc_blocks example_blocks (reset_enc_bitstream example_enc)) (\<lambda>(outs, e).
     map_option (\<lambda>(n, e). (outs, n, take 2 (stream e))) (WebRtcIsacfix_EncTerminate e))"

lemma example_frame_value:
  "example_frame = Some ([[2, 0], [5], [300, - 200, 90, - 1616]], 4, [51578, 10554])"
  by code_simp

lemma example_payload:
  assumes "take 2 s = [51578, 10554]"
  shows "take 4 (write_be16 s 4 (replicate 400 0)) = [201, 122, 41, 58]"
proof -
  obtain s' where s: "s = 51578 # 10554 # s'" using assms by (cases s; cases "tl s") auto
  have l: "length (write_be16 s 4 (replicate 400 0)) = 400"
    unfolding write_be16_def Let_def by (simp only: length_list_update if_distrib [of length] length_write_loop if_cancel length_replicate)
  have "take 4 xs = [xs ! 0, xs ! 1, xs ! 2, xs ! 3]" if "4 \<le> length xs" for xs :: "int list"
    using that by (cases xs; cases "tl xs"; cases "tl (tl xs)"; cases "tl (tl (tl xs))") auto
  from this [of "write_be16 s 4 (replicate 400 0)"] l show ?thesis
    by (simp add: write_be16_nth) (simp add: s to_u8_def shr_def)
qed

lemma example_tables:
  "decodable 84 200 300" "decodable 72 200 (- 200)" "decodable 38 200 90" "decodable 80 200 (- 1616)"
  "envelope_magnitudes [40000] = [200]"
  by code_simp+

lemma example_logistic: "logistic_args [300, - 200, 90, - 2000] [200] [84, 72, 38, 80] [40000] 4 [300, - 200, 90, - 1616]"
proof -
  have "k = 0 \<or> k = 1 \<or> k = 2 \<or> k = 3" if "k < 4" for k :: nat using that by linarith
  then show ?thesis using example_tables by (fastforce simp: logistic_args_def sample_range_def)
qed

lemma example_hist:
  "one_step_tables [2, 0] [[0, 20000, 40000, 65535], [0, 30000, 65535]] [1, 1] 2"
  "bisect_tables [5] [[0, 10000, 20000, 30000, 40000, 50000, 65535]] [8] 1"
  by (auto simp: one_step_tables_def bisect_tables_def has_symbol_def cdf_ok_def all_u16_def less_2_cases_iff intro: exI [of _ 3])

theorem isac_stream_round_trip_witness:
  "\<exists>rs d. dec_blocks example_blocks (load_packet [201, 122, 41, 58, 9, 8] 6 example_dec) = Some (rs, d) \<and>
     map snd rs = [[2, 0], [5], [300, - 200, 90, - 1616]] \<and> fst (last rs) = 4"
proof -
  obtain e1 e2 where e: "enc_blocks example_blocks (reset_enc_bitstream example_enc) = Some ([[2, 0], [5], [300, - 200, 90, - 1616]], e1)"
      "WebRtcIsacfix_EncTerminate e1 = Some (4, e2)" "take 2 (stream e2) = [51578, 10554]"
    using example_frame_value by (auto simp: example_frame_def bind_eq_Some_conv)
  note e3 = example_payload [OF e(3)]
  have b: "is_u8 ([201, 122, 41, 58, 9, 8] ! i)" if "i < 6" for i
  proof -
    have "i = 0 \<or> i = 1 \<or> i = 2 \<or> i = 3 \<or> i = 4 \<or> i = 5" using that by linarith
    then show ?thesis by (auto simp: is_u8_def)
  qed
  have ok: "list_all2 block_ok example_blocks [[2, 0], [5], [300, - 200, 90, - 1616]]"
    using example_logistic example_hist by (simp add: example_blocks_def)
  have s: "all_u16 (stream example_enc)" "length (stream example_enc) = STREAM_MAXW16_60MS"
    by (simp_all add: example_enc_def all_u16_def STREAM_MAXW16_60MS_def)
  have d: "map2 decoded example_blocks [[2, 0], [5], [300, - 200, 90, - 1616]] = [[2, 0], [5], [300, - 200, 90, - 1616]]"
    by (simp add: example_blocks_def)
  show ?thesis
    using isac_stream_round_trip [OF s e(1) ok e(2), of "replicate 400 0" 6 "[201, 122, 41, 58, 9, 8]" example_dec]
      b e3 unfolding d by (simp add: example_blocks_def)
qed

section \<open>Limits of the buffer and of the searches\<close>

lemma hist_item_spec:
  assumes "one_step_tables dat cdf init n" "k < nat n"
  shows "\<exists>d lo hi. hist_item dat cdf k = Some (d, lo, hi) \<and> 0 \<le> lo \<and> lo < hi \<and> hi < 65536"
proof -
  have k: "cdf_ok (cdf ! k)" "has_symbol (cdf ! k) (dat ! k)" "k < length dat" "k < length cdf"
    using assms by (auto simp: one_step_tables_def)
  then have "0 \<le> cdf ! k ! nat (dat ! k)" "cdf ! k ! (nat (dat ! k) + 1) < 65536"
    using all_u16_nth [of "cdf ! k" "nat (dat ! k)"] all_u16_nth [of "cdf ! k" "nat (dat ! k) + 1"]
    by (auto simp: cdf_ok_def has_symbol_def)
  then show ?thesis using k by (auto simp: hist_item_def has_symbol_def)
qed

text \<open>C17: The histogram encoder accesses nothing outside its arrays. From a reset stream, or one left by a
  successful call, and with proper tables, \<open>WebRtcIsacfix_EncHistMulti\<close> returns 0 with the stream ready for
  the next call, or -6440 when the stream is full; no carry is propagated past the first word.\<close>

theorem enc_hist_multi_safe:
  assumes "enc_ready e" "one_step_tables dat cdf init n"
  shows "\<exists>ret e'. WebRtcIsacfix_EncHistMulti e dat cdf n = Some (ret, e') \<and>
    (ret = 0 \<and> enc_ready e' \<or> ret = - ISAC_DISALLOWED_BITSTREAM_LENGTH)"
  using enc_call_total [OF assms(1), of "[0..<nat n]" "hist_item dat cdf"] hist_item_spec [OF assms(2)]
  by (fastforce simp: WebRtcIsacfix_EncHistMulti_def ISAC_DISALLOWED_BITSTREAM_LENGTH_def)

theorem enc_hist_multi_safe_witness:
  "\<exists>ret e'. WebRtcIsacfix_EncHistMulti (reset_enc_bitstream example_enc) [2, 0] [[0, 20000, 40000, 65535], [0, 30000, 65535]] 2
     = Some (ret, e') \<and> (ret = 0 \<and> enc_ready e' \<or> ret = - ISAC_DISALLOWED_BITSTREAM_LENGTH)"
proof -
  have "enc_ready (reset_enc_bitstream example_enc)"
    by (rule reset_ready) (simp_all add: example_enc_def all_u16_def)
  then show ?thesis using enc_hist_multi_safe example_hist(1) by blast
qed

text \<open>C18: \<open>WebRtcIsacfix_EncTerminate\<close> closes a stream inside its buffer, at 1 to 400 bytes, in every case but one:
  when the current word is the last one, its high byte is taken and the interval is narrow, two more
  bytes are needed and the code writes one word past the end of the stream (\<open>None\<close>).\<close>

theorem terminate_overruns_exactly:
  assumes "enc_ready e"
  shows "(WebRtcIsacfix_EncTerminate e = None \<longleftrightarrow> W_upper e \<le> 0x01FFFFFF \<and> full e = 0 \<and> stream_index e = 199) \<and>
    (case WebRtcIsacfix_EncTerminate e of None \<Rightarrow> True
     | Some (n, e') \<Rightarrow> 1 \<le> n \<and> n \<le> 2 * int STREAM_MAXW16_60MS \<and> length (stream e') = STREAM_MAXW16_60MS \<and> all_u16 (stream e'))"
proof -
  have s: "all_u16 (stream e)" "length (stream e) = STREAM_MAXW16_60MS"
    using assms by (auto simp: enc_ready_def enc_ok_def store_ok_def)
  have "1 \<le> n \<and> n \<le> 2 * int STREAM_MAXW16_60MS \<and> length (stream e') = STREAM_MAXW16_60MS \<and> all_u16 (stream e')"
    if "WebRtcIsacfix_EncTerminate e = Some (n, e')" for n e'
    using terminate_length [OF assms that] terminate_u16 [OF that s(1)] s(2) by (simp add: STREAM_MAXW16_60MS_def)
  then show ?thesis using terminate_none [OF assms] by (auto split: option.splits)
qed

definition full_enc :: Bitstr_enc where
  "full_enc = \<lparr>stream = replicate 200 0, W_upper = 0x01000000, streamval = 0, stream_index = 199, full = 0\<rparr>"

lemma code_num_zero: "t \<le> 2 * n \<Longrightarrow> code_num (replicate n 0) t = 0"
  by (induction t) (auto simp: stream_byte_def)

theorem terminate_overruns_exactly_witness: "enc_ready full_enc \<and> WebRtcIsacfix_EncTerminate full_enc = None"
proof -
  have "enc_lower 199 full_enc = 0"
    by (simp add: enc_lower_def enc_num_def full_enc_def bytes_used_def code_num_zero)
  moreover have "(16777216 :: int) < 256 ^ 4 * 256 ^ 399" by simp
  ultimately have r: "enc_ready full_enc"
    by (simp add: enc_ready_def enc_ok_def store_ok_def all_u16_def STREAM_MAXW16_60MS_def bytes_used_def full_enc_def)
  show ?thesis using r terminate_overruns_exactly [OF r] by (simp add: full_enc_def)
qed

lemma logistic_clip_flat:
  assumes "logistic_clip env d lo hi = Some y"
  shows "\<not> (env = 0 \<and> lo = WebRtcIsacfix_Piecewise 0 \<and> hi = lo)"
proof (rule logistic_clip.raw_induct [OF _ assms, where P = "\<lambda>env d lo hi y.
    \<not> (env = 0 \<and> lo = WebRtcIsacfix_Piecewise 0 \<and> hi = lo)"])
  fix clip env d lo hi and y :: "int \<times> int \<times> int"
  assume IH: "\<And>env d lo hi y. clip env d lo hi = Some y \<Longrightarrow> \<not> (env = 0 \<and> lo = WebRtcIsacfix_Piecewise 0 \<and> hi = lo)"
    and body: "(if hi \<le> lo + 1
      then if 0 < d
           then clip env (to_i16 (d - 128)) (WebRtcIsacfix_Piecewise (mul_16_u16 (to_i16 (d - 128) - 64) env)) lo
           else clip env (to_i16 (d + 128)) hi (WebRtcIsacfix_Piecewise (mul_16_u16 (to_i16 (d + 128) + 64) env))
      else Some (d, lo, hi)) = Some y"
  show "\<not> (env = 0 \<and> lo = WebRtcIsacfix_Piecewise 0 \<and> hi = lo)"
  proof
    assume a: "env = 0 \<and> lo = WebRtcIsacfix_Piecewise 0 \<and> hi = lo"
    then have m: "mul_16_u16 x env = 0" for x by (simp add: mul_16_u16_def to_u16_def)
    have "clip 0 x (WebRtcIsacfix_Piecewise 0) (WebRtcIsacfix_Piecewise 0) \<noteq> Some y" for x using IH by blast
    then show False using body m a by (simp split: if_splits)
  qed
qed

text \<open>A sample so close to the end of the 16-bit range that one end of its interval wraps around has an
  empty interval, and one step of the loop brings it into the range without wrapping.\<close>

lemma to_i16_above:
  assumes "32768 \<le> x" "x < 98304" shows "to_i16 x = x - 65536"
proof -
  have "(x + 32768) mod 65536 = (x + 32768 - 65536) mod 65536" by (rule minus_mod_self2 [symmetric])
  also have "\<dots> = x - 32768" using assms by (subst mod_pos_pos_trivial) auto
  finally show ?thesis by (simp add: to_i16_def)
qed

lemma to_i16_below:
  assumes "- 98304 \<le> x" "x < - 32768" shows "to_i16 x = x + 65536"
proof -
  have "(x + 32768) mod 65536 = (x + 32768 + 65536) mod 65536" by (rule mod_add_self2 [symmetric])
  also have "\<dots> = x + 98304" using assms by (subst mod_pos_pos_trivial) auto
  finally show ?thesis by (simp add: to_i16_def)
qed

lemma logistic_clip_wrapped:
  assumes "0 \<le> env" "env < 65536" "is_i16 d" "\<not> sample_range d"
  defines "P x \<equiv> WebRtcIsacfix_Piecewise (mul_16_u16 x env)"
  shows "\<exists>e. sample_range e \<and> 128 dvd e - d \<and> \<bar>e\<bar> < \<bar>d\<bar> \<and> \<not> P (d - 64) + 1 < P (d + 64) \<and>
    logistic_clip env d (P (d - 64)) (P (d + 64)) = logistic_clip env e (P (e - 64)) (P (e + 64))"
proof -
  have u: "to_u16 env = env" using assms(1,2) by (simp add: to_u16_def)
  show ?thesis
  proof (cases "0 < d")
    case True
    then have d: "32703 < d" "d \<le> 32767" using assms(3,4) by (auto simp: sample_range_def is_i16_def)
    then have w: "to_i16 (d + 64) = d + 64 - 65536" "to_i16 (d - 64) = d - 64" "to_i16 (d - 128) = d - 128"
      by (simp_all add: to_i16_above to_i16_id is_i16_def)
    have "mul_16_u16 (d + 64) env \<le> mul_16_u16 (d - 64) env"
      unfolding mul_16_u16_def w u using assms(1) by (intro mult_right_mono) simp_all
    then have le: "P (d + 64) \<le> P (d - 64)" unfolding P_def by (rule Piecewise_mono)
    then have "logistic_clip env d (P (d - 64)) (P (d + 64)) = logistic_clip env (d - 128) (P (d - 128 - 64)) (P (d - 64))"
      using True w(3) by (subst logistic_clip.simps) (simp add: P_def)
    moreover have "sample_range (d - 128)" using d by (simp add: sample_range_def)
    ultimately show ?thesis using le d by (intro exI [of _ "d - 128"]) (simp add: add.commute)
  next
    case False
    then have d: "- 32768 \<le> d" "d < - 32704" using assms(3,4) by (auto simp: sample_range_def is_i16_def)
    then have w: "to_i16 (d - 64) = d - 64 + 65536" "to_i16 (d + 64) = d + 64" "to_i16 (d + 128) = d + 128"
      by (simp_all add: to_i16_below to_i16_id is_i16_def)
    have "mul_16_u16 (d + 64) env \<le> mul_16_u16 (d - 64) env"
      unfolding mul_16_u16_def w u using assms(1) d by (intro mult_right_mono) simp_all
    then have le: "P (d + 64) \<le> P (d - 64)" unfolding P_def by (rule Piecewise_mono)
    then have "logistic_clip env d (P (d - 64)) (P (d + 64)) = logistic_clip env (d + 128) (P (d + 64)) (P (d + 128 + 64))"
      using False w(3) by (subst logistic_clip.simps) (simp add: P_def)
    moreover have "sample_range (d + 128)" using d by (simp add: sample_range_def)
    ultimately show ?thesis using le d by (intro exI [of _ "d + 128"]) (simp add: add.commute)
  qed
qed

text \<open>C19: For every 16-bit sample and every unsigned 16-bit envelope (also where an end of the interval,
  \<open>d - 64\<close> or \<open>d + 64\<close>, leaves the 16-bit range and wraps around in the macro's cast) the clipping loop of
  \<open>WebRtcIsacfix_EncLogisticMulti2\<close> terminates exactly when the envelope is not zero. It then moves the
  sample towards zero by a multiple of 128, to one whose interval of cumulative frequencies is at least
  two wide; a sample that has such an interval is left alone.\<close>

theorem logistic_clip_terminates:
  assumes "0 \<le> env" "env < 65536" "is_i16 d"
  defines "P x \<equiv> WebRtcIsacfix_Piecewise (mul_16_u16 x env)"
  shows "(logistic_clip env d (P (d - 64)) (P (d + 64)) = None \<longleftrightarrow> env = 0) \<and>
    (case logistic_clip env d (P (d - 64)) (P (d + 64)) of None \<Rightarrow> True
     | Some (d', lo, hi) \<Rightarrow> lo = P (d' - 64) \<and> hi = P (d' + 64) \<and> lo + 1 < hi \<and> 128 dvd d' - d \<and>
         (if P (d - 64) + 1 < P (d + 64) then d' = d else \<bar>d'\<bar> < \<bar>d\<bar>))"
proof (cases "env = 0")
  case True
  have "P x = WebRtcIsacfix_Piecewise 0" for x by (simp add: P_def True mul_16_u16_def to_u16_def)
  then have "logistic_clip env d (P (d - 64)) (P (d + 64)) = None"
    using logistic_clip_flat [of env d "P (d - 64)" "P (d + 64)"] True by (metis option.exhaust)
  then show ?thesis using True by simp
next
  case False
  then have e: "1 \<le> env" using assms(1) by simp
  have in_range: "\<exists>d'. logistic_clip env d (P (d - 64)) (P (d + 64)) = Some (d', P (d' - 64), P (d' + 64)) \<and>
      P (d' - 64) + 1 < P (d' + 64) \<and> 128 dvd d' - d \<and> (d' = d \<or> \<bar>d'\<bar> < \<bar>d\<bar>)" if "sample_range d" for d
  proof -
    have m: "P (d + 64) = WebRtcIsacfix_Piecewise ((d + 64) * env)" "P (d - 64) = WebRtcIsacfix_Piecewise ((d - 64) * env)"
      if "sample_range d" for d
      using that assms(1,2) by (simp_all add: P_def sample_range_def mul_16_u16_sample)
    show ?thesis using logistic_clip_spec [OF e assms(2) that] m that by auto
  qed
  obtain d' where d': "logistic_clip env d (P (d - 64)) (P (d + 64)) = Some (d', P (d' - 64), P (d' + 64))"
    "P (d' - 64) + 1 < P (d' + 64)" "128 dvd d' - d" "d' = d \<or> \<bar>d'\<bar> < \<bar>d\<bar>"
  proof (cases "sample_range d")
    case True
    then show thesis using in_range that by blast
  next
    case False
    then obtain e where e: "sample_range e" "128 dvd e - d" "\<bar>e\<bar> < \<bar>d\<bar>"
      "logistic_clip env d (P (d - 64)) (P (d + 64)) = logistic_clip env e (P (e - 64)) (P (e + 64))"
      using logistic_clip_wrapped [OF assms(1-3)] unfolding P_def by blast
    obtain d' where d': "logistic_clip env e (P (e - 64)) (P (e + 64)) = Some (d', P (d' - 64), P (d' + 64))"
      "P (d' - 64) + 1 < P (d' + 64)" "128 dvd d' - e" "d' = e \<or> \<bar>d'\<bar> < \<bar>e\<bar>"
      using in_range [OF e(1)] by blast
    have "128 dvd (d' - e) + (e - d)" using d'(3) e(2) by (rule dvd_add)
    then show thesis using that [of d'] d' e by auto
  qed
  moreover have "logistic_clip env d (P (d - 64)) (P (d + 64)) = Some (d, P (d - 64), P (d + 64))"
    if "P (d - 64) + 1 < P (d + 64)" using that by (subst logistic_clip.simps) simp
  ultimately show ?thesis using False by auto
qed

theorem logistic_clip_terminates_witness:
  "logistic_clip 70 300 (WebRtcIsacfix_Piecewise 16520) (WebRtcIsacfix_Piecewise 25480) \<noteq> None \<and>
   logistic_clip 70 32750 (WebRtcIsacfix_Piecewise (mul_16_u16 32686 70)) (WebRtcIsacfix_Piecewise (mul_16_u16 32814 70)) \<noteq> None"
  using logistic_clip_terminates [of 70 300] logistic_clip_terminates [of 70 32750]
  by (simp add: is_i16_def mul_16_u16_sample)

lemma load_packet_start:
  assumes "\<And>i. i < len \<Longrightarrow> is_u8 (payload ! i)" "4 \<le> len" "len \<le> 600"
  shows "\<exists>w. 0 \<le> w \<and> w < 65536 \<and> dec_start (load_packet payload len d0) = Some (65536 * (256 * payload ! 0 + payload ! 1) + w, 2)"
proof -
  let ?s = "stream (load_packet payload len d0)"
  note P = load_packet_spec [OF assms(1,3), where d = d0]
  have w: "0 \<le> ?s ! i" "?s ! i < 65536" if "i < 305" for i using all_u16_nth [OF P(1)] P(2) that by auto
  have "?s ! 0 div 256 = payload ! 0" "?s ! 0 mod 256 = payload ! 1"
    using P(4) [of 0] P(4) [of 1] assms(2) by (simp_all add: stream_byte_def)
  then have s0: "?s ! 0 = 256 * payload ! 0 + payload ! 1" using div_mult_mod_eq [of "?s ! 0" 256] by linarith
  have "to_u32 (shl (?s ! 0) 16) = push_bit 16 (?s ! 0)"
    using w [of 0] by (simp add: to_u32_def shl_def push_bit_eq_mult)
  moreover have "push_bit 16 (?s ! 0) OR ?s ! 1 = push_bit 16 (?s ! 0) + ?s ! 1"
  proof -
    have "push_bit 16 (?s ! 0) AND take_bit 16 (?s ! 1) = 0" by (rule bit_eqI) (auto simp: bit_simps)
    moreover have "take_bit 16 (?s ! 1) = ?s ! 1" using w [of 1] by (simp add: take_bit_eq_mod)
    ultimately show ?thesis by (simp add: disjunctive_add_eq_or)
  qed
  moreover have "stream_index (load_packet payload len d0) = 0"
    by (simp add: load_packet_def InitializeDecoderBitstream_def Let_def)
  ultimately have "dec_start (load_packet payload len d0) = Some (65536 * (256 * payload ! 0 + payload ! 1) + ?s ! 1, 2)"
    using P(2) s0 by (simp add: dec_start_def push_bit_eq_mult)
  then show ?thesis using w [of 1] by auto
qed

lemma envelope_magnitude_one: "hd (envelope_magnitudes [1]) = 1" "magnitudes 1 (1 # xs) = 1 # magnitudes 1 xs"
  by (code_simp, simp add: newton_sqrt.simps c_div_def shr_def to_i32_def to_u16_def Let_def)

text \<open>C20: The search of \<open>WebRtcIsacfix_DecLogisticMulti2\<close> may never end. With the dither value 64 and an
  envelope whose magnitude is 1, the candidates run through all of the 16-bit range and wrap around without ever
  reaching the code, for every packet whose first word is at least 58607: the call does not return.\<close>

theorem logistic_decoder_may_hang:
  assumes "\<And>i. i < len \<Longrightarrow> is_u8 (payload ! i)" "4 \<le> len" "len \<le> 600"
    and "58607 \<le> 256 * payload ! 0 + payload ! 1" "0 < n"
  shows "WebRtcIsacfix_DecLogisticMulti2 (64 # dither) (load_packet payload len d0) (1 # envs) n = None"
proof -
  obtain w where w: "0 \<le> w" "w < 65536"
      "dec_start (load_packet payload len d0) = Some (65536 * (256 * payload ! 0 + payload ! 1) + w, 2)"
    using load_packet_start [OF assms(1-3)] by blast
  have mags: "envelope_magnitudes (1 # envs) = 1 # magnitudes 1 envs"
  proof -
    have "shl 1 (nat (shr (WebRtcSpl_GetSizeInBits (to_u32 1)) 1)) = 1" by code_simp
    then show ?thesis by (simp add: envelope_magnitudes_def envelope_magnitude_one(2) del: magnitudes.simps)
  qed
  have "nat ((n + 3) div 4) \<noteq> 0" using assms(5) by (simp add: pos_imp_zdiv_pos_iff)
  then obtain m where "nat ((n + 3) div 4) = Suc m" using not0_implies_Suc by blast
  then have upt: "[0..<4 * nat ((n + 3) div 4)] = 0 # [1..<4 * Suc m]" by (simp add: upt_conv_Cons)
  have W: "W_upper (load_packet payload len d0) = 4294967295"
    by (simp add: load_packet_def InitializeDecoderBitstream_def Let_def)
  have "logist_search (Some (64, 1)) 0 4294967295 (65536 * (256 * payload ! 0 + payload ! 1) + w) = None"
  proof (rule logist_search_hangs)
    show "scale_W 4294967295 58607 < 65536 * (256 * payload ! 0 + payload ! 1) + w"
      using assms(4) w(1) by (simp add: scale_W_eq)
  qed simp_all
  then show ?thesis
    by (simp add: WebRtcIsacfix_DecLogisticMulti2_def dec_call_def w(3) upt W mags logist_model_def)
qed

theorem logistic_decoder_may_hang_witness:
  "WebRtcIsacfix_DecLogisticMulti2 [64, 0, 0, 0] (load_packet [255, 255, 255, 255] 4 example_dec) [1] 4 = None"
proof -
  have "is_u8 ([255, 255, 255, 255] ! i)" if "i < 4" for i
    using that by (simp add: is_u8_def less_Suc_eq numeral_eq_Suc, auto)
  then show ?thesis by (intro logistic_decoder_may_hang) auto
qed

text \<open>C21: Encoder and decoder disagree on what can be coded. At envelope 7 the encoder accepts the sample 18895
  as it is, its interval being more than one wide; but with the dither value 49 every code in that interval makes
  the decoder's search give up with -1, because the cumulative function is flat one step before the symbol.\<close>

theorem logistic_decoder_rejects:
  assumes "16777216 \<le> W" "W < 4294967296"
    and "logistic_item [18895] [7] 0 = Some (d, cdfLo, cdfHi)"
    and "scale_W W cdfLo < sv" "sv \<le> scale_W W cdfHi"
  shows "d = 18895 \<and> cdfLo + 1 < cdfHi \<and> (d + 49) mod 128 = 0 \<and>
    logist_search (Some (49, 7)) W_lower W sv = Some (Inl (- 1))"
proof -
  have m: "mul_16_u16 18831 7 = 18831 * 7" "mul_16_u16 18959 7 = 18959 * 7" by (simp_all add: mul_16_u16_sample)
  have "logistic_clip 7 18895 (WebRtcIsacfix_Piecewise (18831 * 7)) (WebRtcIsacfix_Piecewise (18959 * 7))
      = Some (18895, WebRtcIsacfix_Piecewise (18831 * 7), WebRtcIsacfix_Piecewise (18959 * 7))"
    using logist_gap_values(2) by (subst logistic_clip.simps) simp
  then have "logistic_item [18895] [7] 0 = Some (18895, WebRtcIsacfix_Piecewise (18831 * 7), WebRtcIsacfix_Piecewise (18959 * 7))"
    by (simp add: logistic_item_def m)
  then have d: "d = 18895" "cdfLo = WebRtcIsacfix_Piecewise (18831 * 7)" "cdfHi = WebRtcIsacfix_Piecewise (18959 * 7)"
    using assms(3) by auto
  then show ?thesis using logist_search_gap [OF assms(1,2)] assms(4) logist_gap_values(2) by simp
qed

theorem logistic_decoder_rejects_witness:
  "\<exists>lo hi. logistic_item [18895] [7] 0 = Some (18895, lo, hi) \<and>
    logist_search (Some (49, 7)) 0 4294967295 (scale_W 4294967295 hi) = Some (Inl (- 1))"
proof -
  have i: "logistic_item [18895] [7] 0 = Some (18895, 65481, 65483)"
    by code_simp
  have "scale_W 4294967295 65481 < scale_W 4294967295 65483" by (simp add: scale_W_eq)
  then show ?thesis using logistic_decoder_rejects [OF _ _ i, of 4294967295 "scale_W 4294967295 65483" 0] i by simp
qed

end
