(* ===== verification/SplKernels.thy ===== *)
theory SplKernels
  imports SplMath
begin

text \<open>
  Kernels of the signal processing library that the gain control uses: the Taylor square root
  (\<open>spl_sqrt.c\<close>), the 16-bit resamplers by two (\<open>resample_by_2.c\<close>) and the scaled dot product
  (\<open>dot_product_with_scale.cc\<close>).
\<close>

section \<open>Square root\<close>

definition WebRtcSpl_SqrtLocal :: "int \<Rightarrow> int" where
  "WebRtcSpl_SqrtLocal x =
     (let B = to_i32 (c_div x 2 - 0x40000000);
          x_half = to_i16 (shr B 16);
          B = to_i32 (B + 0x40000000);
          B = to_i32 (B + 0x40000000);
          x2 = to_i32 (x_half * x_half * 2);
          A = to_i32 (- x2);
          B = to_i32 (B + shr A 1);
          A = shr A 16;
          A = to_i32 (A * A * 2);
          t16 = to_i16 (shr A 16);
          B = to_i32 (B + - 20480 * t16 * 2);
          A = to_i32 (x_half * t16 * 2);
          t16 = to_i16 (shr A 16);
          B = to_i32 (B + 28672 * t16 * 2);
          t16 = to_i16 (shr x2 16);
          A = to_i32 (x_half * t16 * 2);
          B = to_i32 (B + shr A 1)
      in to_i32 (B + 32768))"

definition WebRtcSpl_Sqrt :: "int \<Rightarrow> int" where
  "WebRtcSpl_Sqrt v =
     (if v = 0 then 0
      else let A = (if v < 0 then if v = - 2147483648 then 2147483647 else - v else v);
               sh = WebRtcSpl_NormW32 A;
               A = to_i32 (shl A (nat sh));
               A = (if A < 2147483647 - 32767 then to_i32 (A + 32768) else 2147483647);
               x_norm = to_i16 (shr A 16);
               nshift = c_div sh 2;
               A = to_i32 (shl x_norm 16);
               A = (if A \<ge> 0 then A else to_i32 (- A));
               A = WebRtcSpl_SqrtLocal A;
               A = (if 2 * nshift = sh
                    then shr (to_i32 (to_i32 (23170 * to_i16 (shr A 16) * 2) + 32768) AND 0x7fff0000) 15
                    else shr A 16)
           in shr (A AND 0xffff) (nat nshift))"

section \<open>Resampling by two\<close>

definition kResampleAllpass1 :: "int list" where "kResampleAllpass1 = [3284, 24441, 49528]"
definition kResampleAllpass2 :: "int list" where "kResampleAllpass2 = [12199, 37471, 60255]"

text \<open>Three all-pass sections with the coefficients \<open>c\<close> on \<open>filtState[k..k+3]\<close>.\<close>

definition allpass3 :: "int list \<Rightarrow> nat \<Rightarrow> int \<Rightarrow> int list \<Rightarrow> int list" where
  "allpass3 c k in32 st =
     (let tmp1 = SPL_SCALEDIFF32 (c ! 0) (to_i32 (in32 - st ! (k + 1))) (st ! k);
          tmp2 = SPL_SCALEDIFF32 (c ! 1) (to_i32 (tmp1 - st ! (k + 2))) (st ! (k + 1));
          s3 = SPL_SCALEDIFF32 (c ! 2) (to_i32 (tmp2 - st ! (k + 3))) (st ! (k + 2))
      in st[k := in32, k + 1 := tmp1, k + 2 := tmp2, k + 3 := s3])"

definition WebRtcSpl_DownsampleBy2 :: "int list \<Rightarrow> nat \<Rightarrow> int list \<Rightarrow> int list \<times> int list" where
  "WebRtcSpl_DownsampleBy2 in_data n filtState =
     fold (\<lambda>i (out, st).
        let st = allpass3 kResampleAllpass2 0 (to_i32 (shl (in_data ! (2 * i)) 10)) st;
            st = allpass3 kResampleAllpass1 4 (to_i32 (shl (in_data ! (2 * i + 1)) 10)) st;
            out32 = shr (to_i32 (st ! 3 + st ! 7 + 1024)) 11
        in (out @ [WebRtcSpl_SatW32ToW16 out32], st)) [0..<n div 2] ([], filtState)"

definition WebRtcSpl_UpsampleBy2 :: "int list \<Rightarrow> nat \<Rightarrow> int list \<Rightarrow> int list \<times> int list" where
  "WebRtcSpl_UpsampleBy2 in_data n filtState =
     fold (\<lambda>i (out, st).
        let in32 = to_i32 (shl (in_data ! i) 10);
            st = allpass3 kResampleAllpass1 0 in32 st;
            out = out @ [WebRtcSpl_SatW32ToW16 (shr (to_i32 (st ! 3 + 512)) 10)];
            st = allpass3 kResampleAllpass2 4 in32 st;
            out = out @ [WebRtcSpl_SatW32ToW16 (shr (to_i32 (st ! 7 + 512)) 10)]
        in (out, st)) [0..<n] ([], filtState)"

section \<open>Dot product\<close>

definition to_i64 :: "int \<Rightarrow> int" where
  "to_i64 x = (x + 2 ^ 63) mod 2 ^ 64 - 2 ^ 63"

definition saturated_cast_i32 :: "int \<Rightarrow> int" where
  "saturated_cast_i32 x = (if x > 2147483647 then 2147483647 else if x < - 2147483648 then - 2147483648 else x)"

definition WebRtcSpl_DotProductWithScale :: "int list \<Rightarrow> int list \<Rightarrow> nat \<Rightarrow> nat \<Rightarrow> int" where
  "WebRtcSpl_DotProductWithScale vector1 vector2 n scaling =
     (let term = (\<lambda>i. shr (vector1 ! i * vector2 ! i) scaling);
          sum = fold (\<lambda>j sum. let i = 4 * j;
                                 sum = to_i64 (sum + term (i + 0));
                                 sum = to_i64 (sum + term (i + 1));
                                 sum = to_i64 (sum + term (i + 2))
                             in to_i64 (sum + term (i + 3))) [0..<n div 4] 0;
          sum = fold (\<lambda>i sum. to_i64 (sum + term i)) [4 * (n div 4)..<n] sum
      in saturated_cast_i32 sum)"

end
