(* ===== verification/SplFft.thy ===== *)
theory SplFft
  imports Complex_Main SplVectors
begin

text \<open>
  The Fourier transforms of the signal processing library: \<open>complex_bit_reverse.c\<close>,
  \<open>complex_fft.c\<close>, \<open>complex_fft_tables.h\<close> and \<open>real_fft.c\<close>.

  A complex array is the list of its 16-bit numbers, real and imaginary parts alternating, as in the code.
  The bit reversal moves both parts of an element with one 32-bit access, here \<open>swap_complex\<close>.
\<close>

section \<open>Tables\<close>

definition index_7 :: "nat list" where
  "index_7 = [
    1, 64, 2, 32, 3, 96, 4, 16, 5, 80, 6, 48, 7, 112, 9, 72, 10, 40, 11, 104, 12, 24, 13, 88, 14, 56, 15, 120,
    17, 68, 18, 36, 19, 100, 21, 84, 22, 52, 23, 116, 25, 76, 26, 44, 27, 108, 29, 92, 30, 60, 31, 124, 33,
    66, 35, 98, 37, 82, 38, 50, 39, 114, 41, 74, 43, 106, 45, 90, 46, 58, 47, 122, 49, 70, 51, 102, 53, 86,
    55, 118, 57, 78, 59, 110, 61, 94, 63, 126, 67, 97, 69, 81, 71, 113, 75, 105, 77, 89, 79, 121, 83, 101, 87,
    117, 91, 109, 95, 125, 103, 115, 111, 123]"

definition index_8 :: "nat list" where
  "index_8 = [
    1, 128, 2, 64, 3, 192, 4, 32, 5, 160, 6, 96, 7, 224, 8, 16, 9, 144, 10, 80, 11, 208, 12, 48, 13, 176, 14,
    112, 15, 240, 17, 136, 18, 72, 19, 200, 20, 40, 21, 168, 22, 104, 23, 232, 25, 152, 26, 88, 27, 216, 28,
    56, 29, 184, 30, 120, 31, 248, 33, 132, 34, 68, 35, 196, 37, 164, 38, 100, 39, 228, 41, 148, 42, 84, 43,
    212, 44, 52, 45, 180, 46, 116, 47, 244, 49, 140, 50, 76, 51, 204, 53, 172, 54, 108, 55, 236, 57, 156, 58,
    92, 59, 220, 61, 188, 62, 124, 63, 252, 65, 130, 67, 194, 69, 162, 70, 98, 71, 226, 73, 146, 74, 82, 75,
    210, 77, 178, 78, 114, 79, 242, 81, 138, 83, 202, 85, 170, 86, 106, 87, 234, 89, 154, 91, 218, 93, 186,
    94, 122, 95, 250, 97, 134, 99, 198, 101, 166, 103, 230, 105, 150, 107, 214, 109, 182, 110, 118, 111, 246,
    113, 142, 115, 206, 117, 174, 119, 238, 121, 158, 123, 222, 125, 190, 127, 254, 131, 193, 133, 161, 135,
    225, 137, 145, 139, 209, 141, 177, 143, 241, 147, 201, 149, 169, 151, 233, 155, 217, 157, 185, 159, 249,
    163, 197, 167, 229, 171, 213, 173, 181, 175, 245, 179, 205, 183, 237, 187, 221, 191, 253, 199, 227, 203,
    211, 207, 243, 215, 235, 223, 251, 239, 247]"

definition kSinTable1024 :: "int list" where
  "kSinTable1024 = [
    0, 201, 402, 603, 804, 1005, 1206, 1406, 1607, 1808, 2009, 2209, 2410, 2610, 2811, 3011, 3211, 3411, 3611,
    3811, 4011, 4210, 4409, 4608, 4807, 5006, 5205, 5403, 5601, 5799, 5997, 6195, 6392, 6589, 6786, 6982,
    7179, 7375, 7571, 7766, 7961, 8156, 8351, 8545, 8739, 8932, 9126, 9319, 9511, 9703, 9895, 10087, 10278,
    10469, 10659, 10849, 11038, 11227, 11416, 11604, 11792, 11980, 12166, 12353, 12539, 12724, 12909, 13094,
    13278, 13462, 13645, 13827, 14009, 14191, 14372, 14552, 14732, 14911, 15090, 15268, 15446, 15623, 15799,
    15975, 16150, 16325, 16499, 16672, 16845, 17017, 17189, 17360, 17530, 17699, 17868, 18036, 18204, 18371,
    18537, 18702, 18867, 19031, 19194, 19357, 19519, 19680, 19840, 20000, 20159, 20317, 20474, 20631, 20787,
    20942, 21096, 21249, 21402, 21554, 21705, 21855, 22004, 22153, 22301, 22448, 22594, 22739, 22883, 23027,
    23169, 23311, 23452, 23592, 23731, 23869, 24006, 24143, 24278, 24413, 24546, 24679, 24811, 24942, 25072,
    25201, 25329, 25456, 25582, 25707, 25831, 25954, 26077, 26198, 26318, 26437, 26556, 26673, 26789, 26905,
    27019, 27132, 27244, 27355, 27466, 27575, 27683, 27790, 27896, 28001, 28105, 28208, 28309, 28410, 28510,
    28608, 28706, 28802, 28897, 28992, 29085, 29177, 29268, 29358, 29446, 29534, 29621, 29706, 29790, 29873,
    29955, 30036, 30116, 30195, 30272, 30349, 30424, 30498, 30571, 30643, 30713, 30783, 30851, 30918, 30984,
    31049, 31113, 31175, 31236, 31297, 31356, 31413, 31470, 31525, 31580, 31633, 31684, 31735, 31785, 31833,
    31880, 31926, 31970, 32014, 32056, 32097, 32137, 32176, 32213, 32249, 32284, 32318, 32350, 32382, 32412,
    32441, 32468, 32495, 32520, 32544, 32567, 32588, 32609, 32628, 32646, 32662, 32678, 32692, 32705, 32717,
    32727, 32736, 32744, 32751, 32757, 32761, 32764, 32766, 32767, 32766, 32764, 32761, 32757, 32751, 32744,
    32736, 32727, 32717, 32705, 32692, 32678, 32662, 32646, 32628, 32609, 32588, 32567, 32544, 32520, 32495,
    32468, 32441, 32412, 32382, 32350, 32318, 32284, 32249, 32213, 32176, 32137, 32097, 32056, 32014, 31970,
    31926, 31880, 31833, 31785, 31735, 31684, 31633, 31580, 31525, 31470, 31413, 31356, 31297, 31236, 31175,
    31113, 31049, 30984, 30918, 30851, 30783, 30713, 30643, 30571, 30498, 30424, 30349, 30272, 30195, 30116,
    30036, 29955, 29873, 29790, 29706, 29621, 29534, 29446, 29358, 29268, 29177, 29085, 28992, 28897, 28802,
    28706, 28608, 28510, 28410, 28309, 28208, 28105, 28001, 27896, 27790, 27683, 27575, 27466, 27355, 27244,
    27132, 27019, 26905, 26789, 26673, 26556, 26437, 26318, 26198, 26077, 25954, 25831, 25707, 25582, 25456,
    25329, 25201, 25072, 24942, 24811, 24679, 24546, 24413, 24278, 24143, 24006, 23869, 23731, 23592, 23452,
    23311, 23169, 23027, 22883, 22739, 22594, 22448, 22301, 22153, 22004, 21855, 21705, 21554, 21402, 21249,
    21096, 20942, 20787, 20631, 20474, 20317, 20159, 20000, 19840, 19680, 19519, 19357, 19194, 19031, 18867,
    18702, 18537, 18371, 18204, 18036, 17868, 17699, 17530, 17360, 17189, 17017, 16845, 16672, 16499, 16325,
    16150, 15975, 15799, 15623, 15446, 15268, 15090, 14911, 14732, 14552, 14372, 14191, 14009, 13827, 13645,
    13462, 13278, 13094, 12909, 12724, 12539, 12353, 12166, 11980, 11792, 11604, 11416, 11227, 11038, 10849,
    10659, 10469, 10278, 10087, 9895, 9703, 9511, 9319, 9126, 8932, 8739, 8545, 8351, 8156, 7961, 7766, 7571,
    7375, 7179, 6982, 6786, 6589, 6392, 6195, 5997, 5799, 5601, 5403, 5205, 5006, 4807, 4608, 4409, 4210,
    4011, 3811, 3611, 3411, 3211, 3011, 2811, 2610, 2410, 2209, 2009, 1808, 1607, 1406, 1206, 1005, 804, 603,
    402, 201, 0, - 201, - 402, - 603, - 804, - 1005, - 1206, - 1406, - 1607, - 1808, - 2009, - 2209, - 2410, -
    2610, - 2811, - 3011, - 3211, - 3411, - 3611, - 3811, - 4011, - 4210, - 4409, - 4608, - 4807, - 5006, -
    5205, - 5403, - 5601, - 5799, - 5997, - 6195, - 6392, - 6589, - 6786, - 6982, - 7179, - 7375, - 7571, -
    7766, - 7961, - 8156, - 8351, - 8545, - 8739, - 8932, - 9126, - 9319, - 9511, - 9703, - 9895, - 10087, -
    10278, - 10469, - 10659, - 10849, - 11038, - 11227, - 11416, - 11604, - 11792, - 11980, - 12166, - 12353,
    - 12539, - 12724, - 12909, - 13094, - 13278, - 13462, - 13645, - 13827, - 14009, - 14191, - 14372, -
    14552, - 14732, - 14911, - 15090, - 15268, - 15446, - 15623, - 15799, - 15975, - 16150, - 16325, - 16499,
    - 16672, - 16845, - 17017, - 17189, - 17360, - 17530, - 17699, - 17868, - 18036, - 18204, - 18371, -
    18537, - 18702, - 18867, - 19031, - 19194, - 19357, - 19519, - 19680, - 19840, - 20000, - 20159, - 20317,
    - 20474, - 20631, - 20787, - 20942, - 21096, - 21249, - 21402, - 21554, - 21705, - 21855, - 22004, -
    22153, - 22301, - 22448, - 22594, - 22739, - 22883, - 23027, - 23169, - 23311, - 23452, - 23592, - 23731,
    - 23869, - 24006, - 24143, - 24278, - 24413, - 24546, - 24679, - 24811, - 24942, - 25072, - 25201, -
    25329, - 25456, - 25582, - 25707, - 25831, - 25954, - 26077, - 26198, - 26318, - 26437, - 26556, - 26673,
    - 26789, - 26905, - 27019, - 27132, - 27244, - 27355, - 27466, - 27575, - 27683, - 27790, - 27896, -
    28001, - 28105, - 28208, - 28309, - 28410, - 28510, - 28608, - 28706, - 28802, - 28897, - 28992, - 29085,
    - 29177, - 29268, - 29358, - 29446, - 29534, - 29621, - 29706, - 29790, - 29873, - 29955, - 30036, -
    30116, - 30195, - 30272, - 30349, - 30424, - 30498, - 30571, - 30643, - 30713, - 30783, - 30851, - 30918,
    - 30984, - 31049, - 31113, - 31175, - 31236, - 31297, - 31356, - 31413, - 31470, - 31525, - 31580, -
    31633, - 31684, - 31735, - 31785, - 31833, - 31880, - 31926, - 31970, - 32014, - 32056, - 32097, - 32137,
    - 32176, - 32213, - 32249, - 32284, - 32318, - 32350, - 32382, - 32412, - 32441, - 32468, - 32495, -
    32520, - 32544, - 32567, - 32588, - 32609, - 32628, - 32646, - 32662, - 32678, - 32692, - 32705, - 32717,
    - 32727, - 32736, - 32744, - 32751, - 32757, - 32761, - 32764, - 32766, - 32767, - 32766, - 32764, -
    32761, - 32757, - 32751, - 32744, - 32736, - 32727, - 32717, - 32705, - 32692, - 32678, - 32662, - 32646,
    - 32628, - 32609, - 32588, - 32567, - 32544, - 32520, - 32495, - 32468, - 32441, - 32412, - 32382, -
    32350, - 32318, - 32284, - 32249, - 32213, - 32176, - 32137, - 32097, - 32056, - 32014, - 31970, - 31926,
    - 31880, - 31833, - 31785, - 31735, - 31684, - 31633, - 31580, - 31525, - 31470, - 31413, - 31356, -
    31297, - 31236, - 31175, - 31113, - 31049, - 30984, - 30918, - 30851, - 30783, - 30713, - 30643, - 30571,
    - 30498, - 30424, - 30349, - 30272, - 30195, - 30116, - 30036, - 29955, - 29873, - 29790, - 29706, -
    29621, - 29534, - 29446, - 29358, - 29268, - 29177, - 29085, - 28992, - 28897, - 28802, - 28706, - 28608,
    - 28510, - 28410, - 28309, - 28208, - 28105, - 28001, - 27896, - 27790, - 27683, - 27575, - 27466, -
    27355, - 27244, - 27132, - 27019, - 26905, - 26789, - 26673, - 26556, - 26437, - 26318, - 26198, - 26077,
    - 25954, - 25831, - 25707, - 25582, - 25456, - 25329, - 25201, - 25072, - 24942, - 24811, - 24679, -
    24546, - 24413, - 24278, - 24143, - 24006, - 23869, - 23731, - 23592, - 23452, - 23311, - 23169, - 23027,
    - 22883, - 22739, - 22594, - 22448, - 22301, - 22153, - 22004, - 21855, - 21705, - 21554, - 21402, -
    21249, - 21096, - 20942, - 20787, - 20631, - 20474, - 20317, - 20159, - 20000, - 19840, - 19680, - 19519,
    - 19357, - 19194, - 19031, - 18867, - 18702, - 18537, - 18371, - 18204, - 18036, - 17868, - 17699, -
    17530, - 17360, - 17189, - 17017, - 16845, - 16672, - 16499, - 16325, - 16150, - 15975, - 15799, - 15623,
    - 15446, - 15268, - 15090, - 14911, - 14732, - 14552, - 14372, - 14191, - 14009, - 13827, - 13645, -
    13462, - 13278, - 13094, - 12909, - 12724, - 12539, - 12353, - 12166, - 11980, - 11792, - 11604, - 11416,
    - 11227, - 11038, - 10849, - 10659, - 10469, - 10278, - 10087, - 9895, - 9703, - 9511, - 9319, - 9126, -
    8932, - 8739, - 8545, - 8351, - 8156, - 7961, - 7766, - 7571, - 7375, - 7179, - 6982, - 6786, - 6589, -
    6392, - 6195, - 5997, - 5799, - 5601, - 5403, - 5205, - 5006, - 4807, - 4608, - 4409, - 4210, - 4011, -
    3811, - 3611, - 3411, - 3211, - 3011, - 2811, - 2610, - 2410, - 2209, - 2009, - 1808, - 1607, - 1406, -
    1206, - 1005, - 804, - 603, - 402, - 201]"

section \<open>Bit reversal\<close>

definition swap_complex :: "nat \<Rightarrow> nat \<Rightarrow> int list \<Rightarrow> int list" where
  "swap_complex a b x =
     (let re = x ! (2 * a); im = x ! (2 * a + 1);
          x = x[2 * a := x ! (2 * b), 2 * a + 1 := x ! (2 * b + 1)]
      in x[2 * b := re, 2 * b + 1 := im])"

text \<open>The \<open>do\<close> loop \<open>l >>= 1\<close> while \<open>l > limit\<close>, and the next reversed index.\<close>

function halve_while :: "nat \<Rightarrow> nat \<Rightarrow> nat" where
  "halve_while limit l = (let l = l div 2 in if l > limit then halve_while limit l else l)"
  by pat_completeness auto
termination
  by (relation "measure snd") auto

definition next_reversed :: "nat \<Rightarrow> nat \<Rightarrow> nat" where
  "next_reversed n mr = (let l = halve_while (n - 1 - mr) n in (mr AND (l - 1)) + l)"

definition bit_reverse_tables :: "nat \<Rightarrow> int list \<Rightarrow> int list" where
  "bit_reverse_tables stages x =
     (let len = (if stages = 8 then 240 else 112);
          index = (if stages = 8 then index_8 else index_7)
      in fold (\<lambda>h. swap_complex (index ! (2 * h)) (index ! (2 * h + 1))) [0..<len div 2] x)"

definition bit_reverse_loop :: "nat \<Rightarrow> int list \<Rightarrow> int list" where
  "bit_reverse_loop stages x =
     (let n = 2 ^ stages
      in snd (fold (\<lambda>m (mr, x). let mr = next_reversed n mr
                                in (mr, if mr \<le> m then x else swap_complex m mr x))
                [1..<n] (0, x)))"

definition WebRtcSpl_ComplexBitReverse :: "int list \<Rightarrow> nat \<Rightarrow> int list" where
  "WebRtcSpl_ComplexBitReverse complex_data stages =
     (if stages = 7 \<or> stages = 8 then bit_reverse_tables stages complex_data
      else bit_reverse_loop stages complex_data)"

section \<open>Complex transforms\<close>

text \<open>The index sequence of \<open>for (i = m; i < n; i += istep)\<close>, and the assignment of a complex element.\<close>

definition strided :: "nat \<Rightarrow> nat \<Rightarrow> nat \<Rightarrow> nat list" where
  "strided m n istep = map (\<lambda>q. m + istep * q) [0..<(n - m + istep - 1) div istep]"

definition put_complex :: "nat \<Rightarrow> int \<Rightarrow> int \<Rightarrow> int list \<Rightarrow> int list" where
  "put_complex i re im x = x[2 * i := re, 2 * i + 1 := im]"

text \<open>One butterfly on the elements \<open>i\<close> and \<open>i + l\<close>.\<close>

definition fft_butterfly :: "int \<Rightarrow> int \<Rightarrow> int \<Rightarrow> nat \<Rightarrow> nat \<Rightarrow> int list \<Rightarrow> int list" where
  "fft_butterfly mode wr wi l i frfi =
     (let j = i + l in
      if mode = 0 then
        let tr32 = shr (to_i32 (wr * frfi ! (2 * j) - wi * frfi ! (2 * j + 1))) 15;
            ti32 = shr (to_i32 (wr * frfi ! (2 * j + 1) + wi * frfi ! (2 * j))) 15;
            qr32 = frfi ! (2 * i);
            qi32 = frfi ! (2 * i + 1);
            frfi = put_complex j (to_i16 (shr (qr32 - tr32) 1)) (to_i16 (shr (qi32 - ti32) 1)) frfi
        in put_complex i (to_i16 (shr (qr32 + tr32) 1)) (to_i16 (shr (qi32 + ti32) 1)) frfi
      else
        let tr32 = shr (to_i32 (wr * frfi ! (2 * j) - wi * frfi ! (2 * j + 1) + 1)) 1;
            ti32 = shr (to_i32 (wr * frfi ! (2 * j + 1) + wi * frfi ! (2 * j) + 1)) 1;
            qr32 = shl (frfi ! (2 * i)) 14;
            qi32 = shl (frfi ! (2 * i + 1)) 14;
            frfi = put_complex j (to_i16 (shr (to_i32 (qr32 - tr32 + 16384)) 15))
                                 (to_i16 (shr (to_i32 (qi32 - ti32 + 16384)) 15)) frfi
        in put_complex i (to_i16 (shr (to_i32 (qr32 + tr32 + 16384)) 15))
                         (to_i16 (shr (to_i32 (qi32 + ti32 + 16384)) 15)) frfi)"

text \<open>One pass of the outer loop: \<open>l\<close> is half the distance of the blocks, \<open>k\<close> the step in the sine table.\<close>

definition fft_stage :: "int \<Rightarrow> nat \<Rightarrow> nat \<Rightarrow> nat \<Rightarrow> int list \<Rightarrow> int list" where
  "fft_stage mode n l k frfi =
     fold (\<lambda>m frfi.
       let j = m * 2 ^ k;
           wr = kSinTable1024 ! (j + 256);
           wi = to_i16 (- (kSinTable1024 ! j))
       in fold (fft_butterfly mode wr wi l) (strided m n (2 * l)) frfi) [0..<l] frfi"

text \<open>The loop \<open>while (l < n)\<close> doubles \<open>l\<close> and decrements \<open>k\<close>, from 1 and 9: in its pass \<open>s\<close> they are
  \<open>2 ^ s\<close> and \<open>9 - s\<close>, and there are \<open>stages\<close> passes as \<open>n = 2 ^ stages\<close>.\<close>

definition WebRtcSpl_ComplexFFT :: "int list \<Rightarrow> nat \<Rightarrow> int \<Rightarrow> int list \<times> int" where
  "WebRtcSpl_ComplexFFT frfi stages mode =
     (let n = 2 ^ stages in
      if n > (1024 :: nat) then (frfi, - 1)
      else (fold (\<lambda>s. fft_stage mode n (2 ^ s) (9 - s)) [0..<stages] frfi, 0))"

definition ifft_butterfly ::
    "int \<Rightarrow> nat \<Rightarrow> int \<Rightarrow> int \<Rightarrow> int \<Rightarrow> nat \<Rightarrow> nat \<Rightarrow> int list \<Rightarrow> int list" where
  "ifft_butterfly mode shift round2 wr wi l i frfi =
     (let j = i + l in
      if mode = 0 then
        let tr32 = shr (to_i32 (wr * frfi ! (2 * j) - wi * frfi ! (2 * j + 1))) 15;
            ti32 = shr (to_i32 (wr * frfi ! (2 * j + 1) + wi * frfi ! (2 * j))) 15;
            qr32 = frfi ! (2 * i);
            qi32 = frfi ! (2 * i + 1);
            frfi = put_complex j (to_i16 (shr (qr32 - tr32) shift)) (to_i16 (shr (qi32 - ti32) shift)) frfi
        in put_complex i (to_i16 (shr (qr32 + tr32) shift)) (to_i16 (shr (qi32 + ti32) shift)) frfi
      else
        let tr32 = shr (to_i32 (wr * frfi ! (2 * j) - wi * frfi ! (2 * j + 1) + 1)) 1;
            ti32 = shr (to_i32 (wr * frfi ! (2 * j + 1) + wi * frfi ! (2 * j) + 1)) 1;
            qr32 = shl (frfi ! (2 * i)) 14;
            qi32 = shl (frfi ! (2 * i + 1)) 14;
            frfi = put_complex j (to_i16 (shr (to_i32 (qr32 - tr32 + round2)) (shift + 14)))
                                 (to_i16 (shr (to_i32 (qi32 - ti32 + round2)) (shift + 14))) frfi
        in put_complex i (to_i16 (shr (to_i32 (qr32 + tr32 + round2)) (shift + 14)))
                         (to_i16 (shr (to_i32 (qi32 + ti32 + round2)) (shift + 14))) frfi)"

text \<open>The scaling of a pass: the shift and the rounding constant from the largest magnitude.\<close>

definition ifft_shift :: "int \<Rightarrow> nat \<times> int" where
  "ifft_shift tmp32 =
     (let (shift, round2) = (0, 8192);
          (shift, round2) = (if tmp32 > 13573 then (shift + 1, 2 * round2) else (shift, round2));
          (shift, round2) = (if tmp32 > 27146 then (shift + 1, 2 * round2) else (shift, round2))
      in (shift, round2))"

definition ifft_stage :: "int \<Rightarrow> nat \<Rightarrow> nat \<Rightarrow> nat \<Rightarrow> int list \<times> int \<Rightarrow> int list \<times> int" where
  "ifft_stage mode n l k = (\<lambda>(frfi, scale).
     let tmp32 = WebRtcSpl_MaxAbsValueW16C frfi (2 * n);
         (shift, round2) = ifft_shift tmp32
     in (fold (\<lambda>m frfi.
           let j = m * 2 ^ k;
               wr = kSinTable1024 ! (j + 256);
               wi = kSinTable1024 ! j
           in fold (ifft_butterfly mode shift round2 wr wi l) (strided m n (2 * l)) frfi) [0..<l] frfi,
         scale + int shift))"

definition WebRtcSpl_ComplexIFFT :: "int list \<Rightarrow> nat \<Rightarrow> int \<Rightarrow> int list \<times> int" where
  "WebRtcSpl_ComplexIFFT frfi stages mode =
     (let n = 2 ^ stages in
      if n > (1024 :: nat) then (frfi, - 1)
      else fold (\<lambda>s. ifft_stage mode n (2 ^ s) (9 - s)) [0..<stages] (frfi, 0))"

section \<open>Real transforms\<close>

definition kMaxFFTOrder :: int where
  "kMaxFFTOrder = 10"

record RealFFT =
  order :: int

text \<open>\<open>malloc\<close> tells whether the allocation succeeds.\<close>

definition WebRtcSpl_CreateRealFFT :: "bool \<Rightarrow> int \<Rightarrow> RealFFT option" where
  "WebRtcSpl_CreateRealFFT malloc ord =
     (if ord > kMaxFFTOrder \<or> ord < 0 then None
      else if \<not> malloc then None
      else Some \<lparr>order = ord\<rparr>)"

text \<open>The local buffer of both functions is not initialised: \<open>raw\<close> is what it holds.\<close>

definition WebRtcSpl_RealForwardFFT ::
    "int list \<Rightarrow> RealFFT \<Rightarrow> int list \<Rightarrow> int list \<Rightarrow> int list \<times> int" where
  "WebRtcSpl_RealForwardFFT raw self real_data_in complex_data_out =
     (let n = 2 ^ nat (order self);
          complex_buffer = fold (\<lambda>i b. b[2 * i := real_data_in ! i, 2 * i + 1 := 0]) [0..<n] raw;
          complex_buffer = WebRtcSpl_ComplexBitReverse complex_buffer (nat (order self));
          (complex_buffer, result) = WebRtcSpl_ComplexFFT complex_buffer (nat (order self)) 1
      in (blit 0 (take (n + 2) complex_buffer) complex_data_out, result))"

definition WebRtcSpl_RealInverseFFT ::
    "int list \<Rightarrow> RealFFT \<Rightarrow> int list \<Rightarrow> int list \<Rightarrow> int list \<times> int" where
  "WebRtcSpl_RealInverseFFT raw self complex_data_in real_data_out =
     (let n = 2 ^ nat (order self);
          complex_buffer = blit 0 (take (n + 2) complex_data_in) raw;
          complex_buffer =
            fold (\<lambda>i b. b[i := complex_data_in ! (2 * n - i),
                          i + 1 := to_i16 (- (complex_data_in ! (2 * n - i + 1)))])
              (strided (n + 2) (2 * n) 2) complex_buffer;
          complex_buffer = WebRtcSpl_ComplexBitReverse complex_buffer (nat (order self));
          (complex_buffer, result) = WebRtcSpl_ComplexIFFT complex_buffer (nat (order self)) 1
      in (fold (\<lambda>i out. out[i := complex_buffer ! (2 * i)]) [0..<n] real_data_out, result))"


section \<open>The bit reversal permutation\<close>

text \<open>The reference: the lowest \<open>k\<close> bits in the opposite order.\<close>

fun bitrev :: "nat \<Rightarrow> nat \<Rightarrow> nat" where
  "bitrev 0 x = 0"
| "bitrev (Suc k) x = (x mod 2) * 2 ^ k + bitrev k (x div 2)"

lemma bitrev_less: "bitrev k x < 2 ^ k"
proof (induction k arbitrary: x)
  case (Suc k)
  have "(x mod 2) * 2 ^ k \<le> 1 * (2 ^ k :: nat)" by (intro mult_le_mono1) simp
  with Suc [of "x div 2"] show ?case unfolding bitrev.simps power_Suc by linarith
qed simp

lemma bitrev_high:
  "bitrev (Suc k) x = 2 * bitrev k (x mod 2 ^ k) + x div 2 ^ k mod 2"
proof (induction k arbitrary: x)
  case (Suc k)
  have "bitrev (Suc (Suc k)) x = (x mod 2) * 2 ^ Suc k + (2 * bitrev k (x div 2 mod 2 ^ k) + x div 2 div 2 ^ k mod 2)"
    using Suc [of "x div 2"] by simp
  moreover have "x mod 2 ^ Suc k mod 2 = x mod 2" "x mod 2 ^ Suc k div 2 = x div 2 mod 2 ^ k"
    by (simp_all add: mod_mod_cancel mod_mult2_eq)
  ultimately show ?case by (simp add: div_mult2_eq)
qed simp

lemma bitrev_bitrev: "x < 2 ^ k \<Longrightarrow> bitrev k (bitrev k x) = x"
proof (induction k arbitrary: x)
  case (Suc k)
  define y where "y = bitrev k (x div 2)"
  have y: "y < 2 ^ k" by (simp add: y_def bitrev_less)
  have "bitrev k y = x div 2" using Suc by (simp add: y_def less_mult_imp_div_less mult.commute)
  moreover have "((x mod 2) * 2 ^ k + y) mod 2 ^ k = y" "((x mod 2) * 2 ^ k + y) div 2 ^ k = x mod 2"
    using y by simp_all
  ultimately have "bitrev (Suc k) ((x mod 2) * 2 ^ k + y) = x"
    unfolding bitrev_high by simp
  then show ?case by (simp add: y_def)
qed simp

declare halve_while.simps [simp del]

lemma halve_while_le: "halve_while limit l \<le> l div 2"
proof (induction limit l rule: halve_while.induct)
  case (1 limit l)
  show ?case
    using 1 by (subst halve_while.simps) (auto simp: Let_def intro: le_trans)
qed

lemma and_low: "b < 2 ^ k \<Longrightarrow> (2 ^ k + a) AND b = a AND (b :: nat)"
proof -
  assume "b < 2 ^ k"
  then have b: "take_bit k b = b" by (simp add: take_bit_nat_eq_self)
  have "take_bit k ((2 ^ k + a) AND b) = take_bit k (a AND b)"
    by (simp only: take_bit_and) (simp add: take_bit_eq_mod)
  moreover have "take_bit k (c AND b) = c AND b" for c
    by (metis b and.assoc take_bit_eq_mask)
  ultimately show ?thesis by metis
qed

lemma next_reversed_bitrev:
  "0 < m \<Longrightarrow> m < 2 ^ k \<Longrightarrow> next_reversed (2 ^ k) (bitrev k (m - 1)) = bitrev k m"
proof (induction k arbitrary: m)
  case (Suc k)
  show ?case
  proof (cases "even m")
    case False
    then obtain q where m: "m = 2 * q + 1" by (elim oddE)
    define mr where "mr = bitrev k q"
    have mr: "mr < 2 ^ k" by (simp add: mr_def bitrev_less)
    have "\<not> 2 * 2 ^ k - Suc mr < 2 ^ k" using mr by linarith
    then have "halve_while (2 ^ Suc k - 1 - mr) (2 ^ Suc k) = 2 ^ k"
      by (subst halve_while.simps) (simp add: Let_def)
    moreover have "mr AND (2 ^ k - 1) = mr"
      using mr by (metis mask_eq_exp_minus_1 take_bit_eq_mask take_bit_nat_eq_self)
    ultimately show ?thesis
      by (simp add: m next_reversed_def mr_def [symmetric])
  next
    case True
    then obtain q where m: "m = 2 * q" by (elim evenE)
    with Suc.prems have q: "0 < q" "q < 2 ^ k" by simp_all
    have pred: "(m - 1) mod 2 = 1" "(m - 1) div 2 = q - 1" using q m by (simp_all) presburger+
    define mr where "mr = bitrev k (q - 1)"
    define l where "l = halve_while (2 ^ k - 1 - mr) (2 ^ k)"
    have mr: "mr < 2 ^ k" by (simp add: mr_def bitrev_less)
    have "halve_while (2 ^ Suc k - 1 - (2 ^ k + mr)) (2 ^ Suc k) = l"
      using mr unfolding l_def by (subst halve_while.simps) (simp add: Let_def)
    moreover have "l - 1 < 2 ^ k"
      using halve_while_le [of "2 ^ k - 1 - mr" "2 ^ k"] q
      by (metis l_def One_nat_def diff_le_self div_le_dividend le_trans less_one diff_less order_le_less order_less_le_trans nat_less_le le_eq_less_or_eq zero_less_numeral zero_less_power)
    ultimately have "next_reversed (2 ^ Suc k) (2 ^ k + mr) = (mr AND (l - 1)) + l"
      by (simp add: next_reversed_def and_low)
    moreover have "(mr AND (l - 1)) + l = bitrev k q"
      using Suc.IH [OF q] by (simp add: next_reversed_def mr_def l_def Let_def)
    ultimately show ?thesis using pred by (simp add: m mr_def)
  qed
qed simp

subsection \<open>Exchanges\<close>

definition celem :: "int list \<Rightarrow> nat \<Rightarrow> int \<times> int" where
  "celem x i = (x ! (2 * i), x ! (2 * i + 1))"

lemma length_swap_complex [simp]: "length (swap_complex a b x) = length x"
  by (simp add: swap_complex_def Let_def)

lemma even_odd_ne [simp]: "Suc (2 * a) \<noteq> 2 * b" "2 * b \<noteq> Suc (2 * a)"
  by presburger+

lemma celem_swap_complex:
  assumes "2 * a + 1 < length x" "2 * b + 1 < length x" "2 * i + 1 < length x"
  shows "celem (swap_complex a b x) i = celem x (if i = b then a else if i = a then b else i)"
  using assms by (simp add: celem_def swap_complex_def Let_def nth_list_update)

definition swap_up :: "(nat \<Rightarrow> nat) \<Rightarrow> nat \<Rightarrow> int list \<Rightarrow> int list" where
  "swap_up r m x = (if r m \<le> m then x else swap_complex m (r m) x)"

lemma swap_up_fold:
  assumes inv: "\<And>i. i < n \<Longrightarrow> r i < n \<and> r (r i) = i" and len: "2 * n \<le> length x"
  shows "length (fold (swap_up r) [0..<n] x) = length x \<and>
    (\<forall>i<n. celem (fold (swap_up r) [0..<n] x) i = celem x (r i))"
proof -
  define P where "P k y \<longleftrightarrow> length y = length x \<and>
    (\<forall>i<n. celem y i = celem x (if i < k \<or> r i < k then r i else i))" for k y
  have "P n (fold (swap_up r) [0..<n] x)"
  proof (rule fold_upt_inv)
    show "P 0 x" by (simp add: P_def)
  next
    fix k y assume k: "k < n" and y: "P k y"
    show "P (Suc k) (swap_up r k y)"
    proof (cases "r k \<le> k")
      case True
      have "i < k \<or> r i < k \<longleftrightarrow> i < Suc k \<or> r i < Suc k \<or> r i = i" if "i < n" "i \<noteq> r i" for i
      proof -
        have "i = k \<Longrightarrow> r i < k" using True that by simp
        moreover have "r i = k \<Longrightarrow> i < k" using True that inv [of i] by force
        ultimately show ?thesis using that(2) by (auto simp: less_Suc_eq)
      qed
      then have "(if i < k \<or> r i < k then r i else i) = (if i < Suc k \<or> r i < Suc k then r i else i)"
        if "i < n" for i using that by (cases "i = r i") auto
      with y True show ?thesis by (simp add: P_def swap_up_def)
    next
      case False
      have bounds: "r k < n" "2 * k + 1 < length y" "2 * r k + 1 < length y"
        using inv [OF k] k len y by (auto simp: P_def)
      have "celem (swap_complex k (r k) y) i = celem x (if i < Suc k \<or> r i < Suc k then r i else i)"
        if i: "i < n" for i
      proof -
        have leni: "2 * i + 1 < length y" using i len y by (simp add: P_def)
        have ri: "r i = k \<longleftrightarrow> i = r k" using inv [OF k] inv [OF i] by auto
        have "celem (swap_complex k (r k) y) i
            = celem y (if i = r k then k else if i = k then r k else i)"
          using bounds leni by (intro celem_swap_complex)
        then show ?thesis
          using y False i ri k bounds(1) inv [OF k] by (auto simp: P_def less_Suc_eq)
      qed
      then show ?thesis using False y by (simp add: P_def swap_up_def)
    qed
  qed simp
  moreover have "i < n \<or> r i < n" if "i < n" for i using that by simp
  ultimately show ?thesis by (auto simp: P_def)
qed

lemma bit_reverse_loop_eq:
  "bit_reverse_loop stages x = fold (swap_up (bitrev stages)) [0..<2 ^ stages] x"
proof -
  let ?f = "\<lambda>m (mr, x). let mr = next_reversed (2 ^ stages) mr
                                in (mr, if mr \<le> m then x else swap_complex m mr x)"
  let ?g = "swap_up (bitrev stages)"
  have z: "bitrev k 0 = 0" for k by (induction k) simp_all
  have "fold ?f [1..<2 ^ stages] (0, x) = (bitrev stages (2 ^ stages - 1), fold ?g [1..<2 ^ stages] x)"
  proof -
    have "fold ?f [1..<b] (0, x) = (bitrev stages (b - 1), fold ?g [1..<b] x)"
      if "1 \<le> b" "b \<le> 2 ^ stages" for b
      using that
    proof (induction rule: dec_induct)
      case base
      then show ?case by (simp add: z)
    next
      case (step b)
      then show ?case
        using next_reversed_bitrev [of b stages] by (simp add: Let_def swap_up_def del: One_nat_def)
    qed
    then show ?thesis by simp
  qed
  moreover have "[0..<2 ^ stages] = 0 # [1..<2 ^ stages :: nat]"
    by (simp add: upt_conv_Cons)
  ultimately show ?thesis by (simp add: bit_reverse_loop_def swap_up_def z)
qed

fun flatten_pairs :: "('a \<times> 'a) list \<Rightarrow> 'a list" where
  "flatten_pairs [] = []"
| "flatten_pairs ((a, b) # ps) = a # b # flatten_pairs ps"

lemma flatten_pairs_nth:
  "h < length ps \<Longrightarrow> (flatten_pairs ps ! (2 * h), flatten_pairs ps ! (2 * h + 1)) = ps ! h"
proof (induction ps arbitrary: h rule: flatten_pairs.induct)
  case (2 a b ps)
  then show ?case by (cases h) auto
qed simp

definition reversal_pairs :: "nat \<Rightarrow> (nat \<times> nat) list" where
  "reversal_pairs k = [(m, bitrev k m). m \<leftarrow> [0..<2 ^ k], m < bitrev k m]"

lemma bitrev_numeral:
  "bitrev (numeral k) x = (x mod 2) * 2 ^ pred_numeral k + bitrev (pred_numeral k) (x div 2)"
  by (simp add: numeral_eq_Suc)

lemma upt_two: "2 < n \<Longrightarrow> [0..<n] = 0 # 1 # [2..<n]"
  by (simp add: upt_rec [of 0] upt_rec [of "Suc 0"] numeral_2_eq_2)

lemma reversal_pairs_two:
  "0 < k \<Longrightarrow> reversal_pairs (Suc k) = [(m, bitrev (Suc k) m). m \<leftarrow> 0 # 1 # [2..<2 ^ Suc k], m < bitrev (Suc k) m]"
  using one_less_power [of "2 :: nat" k] unfolding reversal_pairs_def by (subst upt_two) simp_all

lemma index_7_pairs: "index_7 = flatten_pairs (reversal_pairs 7)" "length (reversal_pairs 7) = 56"
  using reversal_pairs_two [of 6] by (simp_all add: index_7_def bitrev_numeral upt_rec_numeral)

lemma index_8_pairs: "index_8 = flatten_pairs (reversal_pairs 8)" "length (reversal_pairs 8) = 120"
  using reversal_pairs_two [of 7] by (simp_all add: index_8_def bitrev_numeral upt_rec_numeral)

lemma fold_swap_pairs:
  "fold (\<lambda>(a, b). swap_complex a b) [(m, r m). m \<leftarrow> ms, m < r m] x = fold (swap_up r) ms x"
  by (induction ms arbitrary: x) (simp_all add: swap_up_def)

lemma fold_flatten_pairs:
  "fold (\<lambda>h. swap_complex (flatten_pairs ps ! (2 * h)) (flatten_pairs ps ! (2 * h + 1))) [0..<length ps] x
   = fold (\<lambda>(a, b). swap_complex a b) ps x"
proof -
  have "fold (\<lambda>h. swap_complex (flatten_pairs ps ! (2 * h)) (flatten_pairs ps ! (2 * h + 1))) [0..<length ps] x
      = fold (\<lambda>h. case ps ! h of (a, b) \<Rightarrow> swap_complex a b) [0..<length ps] x"
    by (rule fold_cong) (auto simp flip: flatten_pairs_nth)
  also have "\<dots> = fold (\<lambda>(a, b). swap_complex a b) (take (length ps) ps) x"
    by (rule fold_upt_nth) simp
  finally show ?thesis by simp
qed

lemma fold_reversal_pairs:
  "fold (\<lambda>(a, b). swap_complex a b) (reversal_pairs k) x = fold (swap_up (bitrev k)) [0..<2 ^ k] x"
  unfolding reversal_pairs_def by (rule fold_swap_pairs)

lemma bit_reverse_tables_eq:
  "stages = 7 \<or> stages = 8 \<Longrightarrow>
   bit_reverse_tables stages x = fold (swap_up (bitrev stages)) [0..<2 ^ stages] x"
  using fold_flatten_pairs [of "reversal_pairs stages" x]
  by (auto simp: bit_reverse_tables_def index_7_pairs index_8_pairs Let_def fold_reversal_pairs)

lemma ComplexBitReverse_spec:
  assumes "2 * 2 ^ stages \<le> length x"
  shows "length (WebRtcSpl_ComplexBitReverse x stages) = length x \<and>
    (\<forall>i < 2 ^ stages. celem (WebRtcSpl_ComplexBitReverse x stages) i = celem x (bitrev stages i))"
proof -
  have "WebRtcSpl_ComplexBitReverse x stages = fold (swap_up (bitrev stages)) [0..<2 ^ stages] x"
    by (auto simp: WebRtcSpl_ComplexBitReverse_def bit_reverse_loop_eq bit_reverse_tables_eq)
  then show ?thesis
    using swap_up_fold [of "2 ^ stages" "bitrev stages" x] assms by (simp add: bitrev_less bitrev_bitrev)
qed


section \<open>Passes of butterflies\<close>

lemma strided_blocks:
  "0 < l \<Longrightarrow> m < l \<Longrightarrow> strided m (2 * l * c) (2 * l) = map (\<lambda>q. m + 2 * l * q) [0..<c]"
proof -
  assume m: "m < l"
  have "(2 * l * c - m + 2 * l - 1) div (2 * l) = c"
  proof (cases c)
    case (Suc c')
    then have "2 * l * c - m + 2 * l - 1 = 2 * l * c + (2 * l - 1 - m)"
      using m by (simp add: algebra_simps)
    moreover have "(2 * l * c + (2 * l - 1 - m)) div (2 * l) = c + (2 * l - 1 - m) div (2 * l)"
      using m by (intro div_mult_self4) simp
    moreover have "(2 * l - 1 - m) div (2 * l) = 0" using m by simp
    ultimately show ?thesis by (simp only: add_0_right)
  qed (use m in simp)
  then show ?thesis by (simp add: strided_def)
qed

lemma celem_put_pair:
  assumes "i \<noteq> j" "2 * i + 1 < length x" "2 * j + 1 < length x"
  shows "celem (put_complex i a b (put_complex j c d x)) i = (a, b)"
    "celem (put_complex i a b (put_complex j c d x)) j = (c, d)"
    "k \<noteq> i \<Longrightarrow> k \<noteq> j \<Longrightarrow> celem (put_complex i a b (put_complex j c d x)) k = celem x k"
  using assms by (simp_all add: celem_def put_complex_def nth_list_update)

lemma length_put_complex [simp]: "length (put_complex i a b x) = length x"
  by (simp add: put_complex_def)

text \<open>Each pass works on every element once: a butterfly that finds \<open>Pre\<close> in its two elements, agrees with \<open>g\<close>
  there and leaves \<open>Post\<close>, makes the passes agree.\<close>

definition pass_of :: "(nat \<Rightarrow> nat \<Rightarrow> int list \<Rightarrow> int list) \<Rightarrow> nat \<Rightarrow> nat \<Rightarrow> int list \<Rightarrow> int list" where
  "pass_of f n l x = fold (\<lambda>m. fold (f m) (strided m n (2 * l))) [0..<l] x"

definition pass_step ::
    "(nat \<Rightarrow> nat \<Rightarrow> int list \<Rightarrow> int list) \<Rightarrow> (nat \<Rightarrow> nat \<Rightarrow> int list \<Rightarrow> int list) \<Rightarrow>
     nat \<Rightarrow> nat \<Rightarrow> (int \<times> int \<Rightarrow> bool) \<Rightarrow> (int \<times> int \<Rightarrow> bool) \<Rightarrow> bool" where
  "pass_step f g n l Pre Post \<longleftrightarrow>
     (\<forall>m i y. m < l \<longrightarrow> i + l < n \<longrightarrow> 2 * n \<le> length y \<longrightarrow> Pre (celem y i) \<longrightarrow> Pre (celem y (i + l)) \<longrightarrow>
       g m i y = f m i y \<and> length (f m i y) = length y \<and>
       Post (celem (f m i y) i) \<and> Post (celem (f m i y) (i + l)) \<and>
       (\<forall>j. j \<noteq> i \<longrightarrow> j \<noteq> i + l \<longrightarrow> celem (f m i y) j = celem y j))"

lemma pass_index:
  assumes "0 < l" "m < (l :: nat)"
  shows "j mod l = m \<and> j div (2 * l) = q \<longleftrightarrow> j = m + 2 * l * q \<or> j = m + 2 * l * q + l"
proof
  assume j: "j mod l = m \<and> j div (2 * l) = q"
  have "j div (2 * l) = j div l div 2" by (simp add: div_mult2_eq mult.commute)
  then have "j div l = 2 * q \<or> j div l = 2 * q + 1" using j by linarith
  moreover have "j = j div l * l + m" using j div_mult_mod_eq [of j l] by simp
  ultimately show "j = m + 2 * l * q \<or> j = m + 2 * l * q + l"
    by (auto simp: algebra_simps)
next
  assume "j = m + 2 * l * q \<or> j = m + 2 * l * q + l"
  moreover have "(m + 2 * l * q) mod l = m" "(m + 2 * l * q + l) mod l = m"
    using assms by (simp_all add: mult.assoc mult.left_commute [of _ l])
  moreover have "(m + 2 * l * q) div (2 * l) = q" "(m + 2 * l * q + l) div (2 * l) = q"
    using assms div_mult_self2 [of "2 * l" m q] div_mult_self2 [of "2 * l" "m + l" q] by (simp_all add: ac_simps)
  ultimately show "j mod l = m \<and> j div (2 * l) = q" by metis
qed

definition pass_done ::
    "(int \<times> int \<Rightarrow> bool) \<Rightarrow> (int \<times> int \<Rightarrow> bool) \<Rightarrow> nat \<Rightarrow> nat \<Rightarrow> nat \<Rightarrow> nat \<Rightarrow> int list \<Rightarrow> bool" where
  "pass_done Pre Post n l m q y \<longleftrightarrow> 2 * n \<le> length y \<and>
     (\<forall>j<n. if j mod l < m \<or> j mod l = m \<and> j div (2 * l) < q then Post (celem y j) else Pre (celem y j))"

lemma pass_done_next:
  assumes "pass_step f g n l Pre Post" "n = 2 * l * c" "m < l" "q < c" "pass_done Pre Post n l m q y"
  shows "g m (m + 2 * l * q) y = f m (m + 2 * l * q) y"
    "pass_done Pre Post n l m (Suc q) (f m (m + 2 * l * q) y)"
proof -
  define i where "i = m + 2 * l * q"
  have l: "0 < l" using assms(3) by simp
  note idx = pass_index [OF l assms(3)]
  have "2 * l * Suc q \<le> 2 * l * c" using assms(4) by (intro mult_le_mono2) simp
  then have il: "i + l < n" using assms(2,3) by (simp add: i_def)
  have "i mod l = m \<and> i div (2 * l) = q" "(i + l) mod l = m \<and> (i + l) div (2 * l) = q"
    unfolding idx by (simp_all add: i_def)
  moreover have "Pre (celem y j)" if "j < n" "j mod l = m" "j div (2 * l) = q" for j
    using assms(5) that by (simp add: pass_done_def)
  ultimately have "Pre (celem y i)" "Pre (celem y (i + l))" using il by simp_all
  then have s: "g m i y = f m i y \<and> length (f m i y) = length y \<and>
       Post (celem (f m i y) i) \<and> Post (celem (f m i y) (i + l)) \<and>
       (\<forall>j. j \<noteq> i \<longrightarrow> j \<noteq> i + l \<longrightarrow> celem (f m i y) j = celem y j)"
    using assms(1) [unfolded pass_step_def, rule_format, OF assms(3) il, of y] assms(5)
    unfolding pass_done_def by blast
  then show "g m (m + 2 * l * q) y = f m (m + 2 * l * q) y" by (simp add: i_def)
  have "if j mod l < m \<or> j mod l = m \<and> j div (2 * l) < Suc q then Post (celem (f m i y) j)
        else Pre (celem (f m i y) j)" if "j < n" for j
  proof (cases "j = i \<or> j = i + l")
    case True
    then have "j mod l = m \<and> j div (2 * l) = q" unfolding idx by (simp add: i_def)
    then show ?thesis using True s by auto
  next
    case False
    then have "\<not> (j mod l = m \<and> j div (2 * l) = q)" unfolding idx by (simp add: i_def)
    then show ?thesis using False s assms(5) that by (auto simp: pass_done_def less_Suc_eq)
  qed
  then show "pass_done Pre Post n l m (Suc q) (f m (m + 2 * l * q) y)"
    using s assms(5) unfolding pass_done_def i_def [symmetric] by simp
qed

lemma pass_done_inner:
  assumes "pass_step f g n l Pre Post" "n = 2 * l * c" "m < l" "pass_done Pre Post n l m 0 y"
  shows "fold (g m) (strided m n (2 * l)) y = fold (f m) (strided m n (2 * l)) y \<and>
    pass_done Pre Post n l (Suc m) 0 (fold (f m) (strided m n (2 * l)) y)"
proof -
  have "fold (g m) (map (\<lambda>q. m + 2 * l * q) [0..<b]) y = fold (f m) (map (\<lambda>q. m + 2 * l * q) [0..<b]) y \<and>
     pass_done Pre Post n l m b (fold (f m) (map (\<lambda>q. m + 2 * l * q) [0..<b]) y)" if "b \<le> c" for b
    using that
  proof (induction b)
    case 0
    then show ?case using assms(4) by simp
  next
    case (Suc b)
    then show ?case using pass_done_next [OF assms(1-3), of b "fold (f m) (map (\<lambda>q. m + 2 * l * q) [0..<b]) y"]
      by auto
  qed
  from this [OF order_refl]
  have "fold (g m) (strided m n (2 * l)) y = fold (f m) (strided m n (2 * l)) y \<and>
     pass_done Pre Post n l m c (fold (f m) (strided m n (2 * l)) y)"
    using strided_blocks [of l m c] assms(2,3) by auto
  moreover have "j div (2 * l) < c" if "j < n" for j
    using that assms(2,3) by (simp add: less_mult_imp_div_less mult.commute mult.left_commute)
  ultimately show ?thesis by (simp add: pass_done_def less_Suc_eq)
qed

lemma pass_exact:
  assumes "pass_step f g n l Pre Post" "n = 2 * l * c" "0 < l" "2 * n \<le> length x"
    and "\<forall>j<n. Pre (celem x j)"
  shows "pass_of g n l x = pass_of f n l x \<and> 2 * n \<le> length (pass_of f n l x) \<and>
    (\<forall>j<n. Post (celem (pass_of f n l x) j))"
proof -
  let ?F = "\<lambda>h b. fold (\<lambda>m. fold (h m) (strided m n (2 * l))) [0..<b] x"
  have "?F g b = ?F f b \<and> pass_done Pre Post n l b 0 (?F f b)" if "b \<le> l" for b
    using that
  proof (induction b)
    case 0
    then show ?case using assms(4,5) by (simp add: pass_done_def)
  next
    case (Suc b)
    then have "?F g b = ?F f b" "pass_done Pre Post n l b 0 (?F f b)" "b < l" by simp_all
    then show ?case using pass_done_inner [OF assms(1,2), of b "?F f b"] by auto
  qed
  from this [OF order_refl] show ?thesis
    using assms(3) by (simp add: pass_of_def pass_done_def)
qed

section \<open>Twiddle factors\<close>

lemma twiddle_table:
  "list_all (\<lambda>(c, s). \<bar>c\<bar> + \<bar>s\<bar> \<le> 46338 \<and> c * c + s * s \<le> 1073676289) (zip (take 512 (drop 256 kSinTable1024)) (take 512 kSinTable1024))"
  "length kSinTable1024 = 1024"
  unfolding kSinTable1024_def by simp_all

lemma twiddle_bounds:
  assumes "j < 512"
  shows "\<bar>kSinTable1024 ! (j + 256)\<bar> + \<bar>kSinTable1024 ! j\<bar> \<le> 46338"
    "kSinTable1024 ! (j + 256) * kSinTable1024 ! (j + 256) + kSinTable1024 ! j * kSinTable1024 ! j \<le> 1073676289"
  using twiddle_table assms by (auto simp: list_all_length add.commute)

lemma twiddle_index:
  assumes "m < 2 ^ s" "s < 10" shows "m * 2 ^ (9 - s) < (512 :: nat)"
proof -
  have "m * 2 ^ (9 - s) < 2 ^ s * (2 ^ (9 - s) :: nat)" using assms by simp
  also have "\<dots> = 2 ^ 9" using assms by (simp flip: power_add)
  finally show ?thesis by simp
qed


section \<open>The inverse transform stays in range\<close>

text \<open>The reference: the same passes on unbounded integers, with no conversion to a narrower type.\<close>

definition ifft_butterfly_exact ::
    "int \<Rightarrow> nat \<Rightarrow> int \<Rightarrow> int \<Rightarrow> int \<Rightarrow> nat \<Rightarrow> nat \<Rightarrow> int list \<Rightarrow> int list" where
  "ifft_butterfly_exact mode shift round2 wr wi l i x =
     (let (ar, ai) = celem x i; (br, bi) = celem x (i + l);
          tr = wr * br - wi * bi; ti = wr * bi + wi * br
      in if mode = 0 then
           put_complex i ((ar + tr div 2 ^ 15) div 2 ^ shift) ((ai + ti div 2 ^ 15) div 2 ^ shift)
             (put_complex (i + l) ((ar - tr div 2 ^ 15) div 2 ^ shift) ((ai - ti div 2 ^ 15) div 2 ^ shift) x)
         else
           let tr = (tr + 1) div 2; ti = (ti + 1) div 2 in
           put_complex i ((2 ^ 14 * ar + tr + round2) div 2 ^ (shift + 14))
               ((2 ^ 14 * ai + ti + round2) div 2 ^ (shift + 14))
             (put_complex (i + l) ((2 ^ 14 * ar - tr + round2) div 2 ^ (shift + 14))
               ((2 ^ 14 * ai - ti + round2) div 2 ^ (shift + 14)) x))"

definition ifft_stage_exact :: "int \<Rightarrow> nat \<Rightarrow> nat \<Rightarrow> nat \<Rightarrow> int list \<times> int \<Rightarrow> int list \<times> int" where
  "ifft_stage_exact mode n l k = (\<lambda>(x, scale).
     let (shift, round2) = ifft_shift (min 32767 (Max (abs ` set (take (2 * n) x))))
     in (pass_of (\<lambda>m. ifft_butterfly_exact mode shift round2
           (kSinTable1024 ! (m * 2 ^ k + 256)) (kSinTable1024 ! (m * 2 ^ k)) l) n l x, scale + int shift))"

definition ifft_exact :: "int list \<Rightarrow> nat \<Rightarrow> int \<Rightarrow> int list \<times> int" where
  "ifft_exact x stages mode =
     fold (\<lambda>s. ifft_stage_exact mode (2 ^ stages) (2 ^ s) (9 - s)) [0..<stages] (x, 0)"

lemma rotate_bound:
  assumes "\<bar>wr\<bar> + \<bar>wi\<bar> \<le> W" "\<bar>a\<bar> \<le> M" "\<bar>b\<bar> \<le> (M :: int)"
  shows "\<bar>wr * a - wi * b\<bar> \<le> W * M" "\<bar>wr * a + wi * b\<bar> \<le> W * M"
proof -
  have M: "0 \<le> M" using assms(2) by linarith
  have "\<bar>wr * a\<bar> \<le> \<bar>wr\<bar> * M" "\<bar>wi * b\<bar> \<le> \<bar>wi\<bar> * M"
    using assms by (simp_all add: abs_mult mult_left_mono)
  moreover have "\<bar>wr\<bar> * M + \<bar>wi\<bar> * M \<le> W * M"
    using mult_right_mono [OF assms(1) M] by (simp add: distrib_right)
  ultimately show "\<bar>wr * a - wi * b\<bar> \<le> W * M" "\<bar>wr * a + wi * b\<bar> \<le> W * M" by linarith+
qed

text \<open>The three cases of the variable scaling: shift and largest magnitude.\<close>

definition ifft_level :: "nat \<Rightarrow> int \<Rightarrow> bool" where
  "ifft_level s M \<longleftrightarrow> s = 0 \<and> M = 13573 \<or> s = 1 \<and> M = 27146 \<or> s = 2 \<and> M = 32768"

lemma ifft_store_accurate:
  assumes "ifft_level s M" "\<bar>u\<bar> \<le> 46338 * M" "\<bar>c\<bar> \<le> M"
  defines "v \<equiv> (u + 1) div 2" and "r \<equiv> 8192 * 2 ^ s"
  shows "shr (to_i32 (u + 1)) 1 = v"
    "to_i16 (shr (to_i32 (shl c 14 + v + r)) (s + 14)) = (2 ^ 14 * c + v + r) div 2 ^ (s + 14)"
    "to_i16 (shr (to_i32 (shl c 14 - v + r)) (s + 14)) = (2 ^ 14 * c - v + r) div 2 ^ (s + 14)"
    "is_i16 ((2 ^ 14 * c + v + r) div 2 ^ (s + 14))" "is_i16 ((2 ^ 14 * c - v + r) div 2 ^ (s + 14))"
proof -
  have v: "\<bar>v\<bar> \<le> 23169 * M + 1" using assms(2) unfolding v_def by linarith
  have "is_i32 (u + 1)" using assms(1,2) by (auto simp: ifft_level_def is_i32_def)
  then show "shr (to_i32 (u + 1)) 1 = v" by (simp add: to_i32_id shr_def v_def)
  have *: "to_i16 (shr (to_i32 (shl c 14 + w + r)) (s + 14)) = (2 ^ 14 * c + w + r) div 2 ^ (s + 14)
      \<and> is_i16 ((2 ^ 14 * c + w + r) div 2 ^ (s + 14))" if w: "\<bar>w\<bar> \<le> 23169 * M + 1" for w
  proof -
    define z where "z = 2 ^ 14 * c + w + r"
    have "- 32768 * 2 ^ (s + 14) \<le> z" "z < 32768 * 2 ^ (s + 14)" "is_i32 z"
      using assms(1,3) w by (auto simp: ifft_level_def is_i32_def r_def z_def)
    moreover from this have "- 32768 \<le> z div 2 ^ (s + 14)" "z div 2 ^ (s + 14) < 32768"
      by (simp_all only: int_le_div int_div_less zero_less_power zero_less_numeral)
    ultimately show ?thesis
      by (simp add: z_def shr_def shl_def to_i32_id to_i16_id is_i16_def mult.commute [of c])
  qed
  show "to_i16 (shr (to_i32 (shl c 14 + v + r)) (s + 14)) = (2 ^ 14 * c + v + r) div 2 ^ (s + 14)"
    "is_i16 ((2 ^ 14 * c + v + r) div 2 ^ (s + 14))"
    using * [OF v] by simp_all
  show "to_i16 (shr (to_i32 (shl c 14 - v + r)) (s + 14)) = (2 ^ 14 * c - v + r) div 2 ^ (s + 14)"
    "is_i16 ((2 ^ 14 * c - v + r) div 2 ^ (s + 14))"
    using * [of "- v"] v by simp_all
qed

lemma ifft_store_fast:
  assumes "ifft_level s M" "\<bar>u\<bar> \<le> 46338 * M" "\<bar>c\<bar> \<le> M"
  defines "v \<equiv> u div 2 ^ 15"
  shows "shr (to_i32 u) 15 = v"
    "to_i16 (shr (c + v) s) = (c + v) div 2 ^ s" "to_i16 (shr (c - v) s) = (c - v) div 2 ^ s"
    "is_i16 ((c + v) div 2 ^ s)" "is_i16 ((c - v) div 2 ^ s)"
proof -
  have v: "- (46338 * M + 32767) \<le> 32768 * v" "32768 * v \<le> 46338 * M"
    using assms(2) unfolding v_def by simp_all
  then have v': "32768 * \<bar>v\<bar> \<le> 46338 * M + 32767" using assms(2) by (simp add: abs_if)
  have "is_i32 u" using assms(1,2) by (auto simp: ifft_level_def is_i32_def)
  then show "shr (to_i32 u) 15 = v" by (simp add: to_i32_id shr_def v_def)
  have *: "to_i16 (shr z s) = z div 2 ^ s \<and> is_i16 (z div 2 ^ s)"
    if z: "32768 * \<bar>z\<bar> \<le> 32768 * M + 46338 * M + 32767" for z
  proof -
    have "- 32768 * 2 ^ s \<le> z" "z < 32768 * 2 ^ s"
      using assms(1) z by (auto simp: ifft_level_def)
    then have "- 32768 \<le> z div 2 ^ s" "z div 2 ^ s < 32768"
      by (simp_all only: int_le_div int_div_less zero_less_power zero_less_numeral)
    then show ?thesis by (simp add: shr_def to_i16_id is_i16_def)
  qed
  have "32768 * \<bar>c + v\<bar> \<le> 32768 * M + 46338 * M + 32767" "32768 * \<bar>c - v\<bar> \<le> 32768 * M + 46338 * M + 32767"
    using v' assms(3) abs_triangle_ineq [of c v] abs_triangle_ineq4 [of c v] by simp_all
  from * [OF this(1)] * [OF this(2)]
  show "to_i16 (shr (c + v) s) = (c + v) div 2 ^ s" "to_i16 (shr (c - v) s) = (c - v) div 2 ^ s"
    "is_i16 ((c + v) div 2 ^ s)" "is_i16 ((c - v) div 2 ^ s)" by simp_all
qed

definition elem_within :: "int \<Rightarrow> int \<times> int \<Rightarrow> bool" where
  "elem_within M = (\<lambda>(a, b). \<bar>a\<bar> \<le> M \<and> \<bar>b\<bar> \<le> M)"

definition elem_i16 :: "int \<times> int \<Rightarrow> bool" where
  "elem_i16 = (\<lambda>(a, b). is_i16 a \<and> is_i16 b)"

lemma celem_put_complex:
  "2 * i + 1 < length x \<Longrightarrow> celem (put_complex i a b x) j = (if j = i then (a, b) else celem x j)"
  by (auto simp: celem_def put_complex_def nth_list_update)


lemma ifft_butterfly_cases:
  assumes "celem y i = (ar, ai)" "celem y (i + l) = (br, bi)"
  shows "ifft_butterfly mode s r wr wi l i y =
    (if mode = 0 then
       let tr = shr (to_i32 (wr * br - wi * bi)) 15; ti = shr (to_i32 (wr * bi + wi * br)) 15 in
       put_complex i (to_i16 (shr (ar + tr) s)) (to_i16 (shr (ai + ti) s))
         (put_complex (i + l) (to_i16 (shr (ar - tr) s)) (to_i16 (shr (ai - ti) s)) y)
     else
       let tr = shr (to_i32 (wr * br - wi * bi + 1)) 1; ti = shr (to_i32 (wr * bi + wi * br + 1)) 1 in
       put_complex i (to_i16 (shr (to_i32 (shl ar 14 + tr + r)) (s + 14)))
           (to_i16 (shr (to_i32 (shl ai 14 + ti + r)) (s + 14)))
         (put_complex (i + l) (to_i16 (shr (to_i32 (shl ar 14 - tr + r)) (s + 14)))
           (to_i16 (shr (to_i32 (shl ai 14 - ti + r)) (s + 14))) y))"
proof -
  have "y ! (2 * i) = ar" "y ! (2 * i + 1) = ai" "y ! (2 * (i + l)) = br" "y ! (2 * (i + l) + 1) = bi"
    using assms by (simp_all add: celem_def)
  then show ?thesis unfolding ifft_butterfly_def Let_def by (simp only:)
qed

lemma pass_step_pairs:
  assumes "2 * n \<le> length y" "i + l < n" "0 < (l :: nat)"
    and "x = put_complex i a b (put_complex (i + l) c d y)" "elem_ok (a, b)" "elem_ok (c, d)"
  shows "length x = length y \<and> elem_ok (celem x i) \<and> elem_ok (celem x (i + l)) \<and>
    (\<forall>j. j \<noteq> i \<longrightarrow> j \<noteq> i + l \<longrightarrow> celem x j = celem y j)"
  using assms by (simp add: celem_put_complex)

lemma ifft_butterfly_pass_step:
  assumes lev: "ifft_level s M" and l: "0 < l" and w: "\<And>m. m < l \<Longrightarrow> \<bar>wr m\<bar> + \<bar>wi m\<bar> \<le> 46338"
  shows "pass_step (\<lambda>m. ifft_butterfly mode s (8192 * 2 ^ s) (wr m) (wi m) l)
    (\<lambda>m. ifft_butterfly_exact mode s (8192 * 2 ^ s) (wr m) (wi m) l) n l (elem_within M) elem_i16"
  unfolding pass_step_def
proof (intro allI impI)
  fix m i and y :: "int list"
  assume m: "m < l" and il: "i + l < n" and len: "2 * n \<le> length y"
    and pre: "elem_within M (celem y i)" "elem_within M (celem y (i + l))"
  obtain ar ai br bi where e: "celem y i = (ar, ai)" "celem y (i + l) = (br, bi)" by fastforce
  have b: "\<bar>ar\<bar> \<le> M" "\<bar>ai\<bar> \<le> M" "\<bar>br\<bar> \<le> M" "\<bar>bi\<bar> \<le> M" using pre e by (simp_all add: elem_within_def)
  note r1 = rotate_bound(1) [OF w [OF m] b(3,4)] and r2 = rotate_bound(2) [OF w [OF m] b(4,3)]
  note acc = ifft_store_accurate [OF lev r1 b(1)] ifft_store_accurate [OF lev r2 b(2)]
  note fast = ifft_store_fast [OF lev r1 b(1)] ifft_store_fast [OF lev r2 b(2)]
  let ?f = "ifft_butterfly mode s (8192 * 2 ^ s) (wr m) (wi m) l i y"
  let ?g = "ifft_butterfly_exact mode s (8192 * 2 ^ s) (wr m) (wi m) l i y"
  show "?g = ?f \<and> length ?f = length y \<and> elem_i16 (celem ?f i) \<and> elem_i16 (celem ?f (i + l)) \<and>
    (\<forall>j. j \<noteq> i \<longrightarrow> j \<noteq> i + l \<longrightarrow> celem ?f j = celem y j)"
  proof (cases "mode = 0")
    case True
    note f = ifft_butterfly_cases [OF e, of mode s "8192 * 2 ^ s" "wr m" "wi m", unfolded if_P [OF True] Let_def fast]
    have "?g = ?f"
      unfolding f ifft_butterfly_exact_def e prod.case Let_def if_P [OF True] ..
    moreover have "length ?f = length y \<and> elem_i16 (celem ?f i) \<and> elem_i16 (celem ?f (i + l)) \<and>
        (\<forall>j. j \<noteq> i \<longrightarrow> j \<noteq> i + l \<longrightarrow> celem ?f j = celem y j)"
      by (rule pass_step_pairs [OF len il l f]) (simp_all only: elem_i16_def prod.case fast)
    ultimately show ?thesis by (rule conjI)
  next
    case False
    note f = ifft_butterfly_cases [OF e, of mode s "8192 * 2 ^ s" "wr m" "wi m", unfolded if_not_P [OF False] Let_def acc]
    have "?g = ?f"
      unfolding f ifft_butterfly_exact_def e prod.case Let_def if_not_P [OF False] ..
    moreover have "length ?f = length y \<and> elem_i16 (celem ?f i) \<and> elem_i16 (celem ?f (i + l)) \<and>
        (\<forall>j. j \<noteq> i \<longrightarrow> j \<noteq> i + l \<longrightarrow> celem ?f j = celem y j)"
      by (rule pass_step_pairs [OF len il l f]) (simp_all only: elem_i16_def prod.case acc)
    ultimately show ?thesis by (rule conjI)
  qed
qed


lemma MaxAbsValueW16C_prefix:
  assumes "0 < n" "n \<le> length x" "\<forall>i<n. is_i16 (x ! i)"
  shows "WebRtcSpl_MaxAbsValueW16C x n = min 32767 (Max (abs ` set (take n x)))"
    "\<forall>i<n. \<bar>x ! i\<bar> \<le> Max (abs ` set (take n x))" "Max (abs ` set (take n x)) \<le> 32768"
proof -
  have "WebRtcSpl_MaxAbsValueW16C x n = WebRtcSpl_MaxAbsValueW16C (take n x) n"
    unfolding WebRtcSpl_MaxAbsValueW16C_def
    by (intro arg_cong [where f = "\<lambda>m. let maximum = m in let maximum = if maximum > 32767 then 32767 else maximum in to_i16 maximum"]
        fold_cong) auto
  moreover have i16: "all_i16 (take n x)"
    using assms(2,3) by (simp add: all_i16_def set_conv_nth) auto
  ultimately show "WebRtcSpl_MaxAbsValueW16C x n = min 32767 (Max (abs ` set (take n x)))"
    using MaxAbsValueW16C_eq [of "take n x" n] assms(1,2) by simp
  have ne: "set (take n x) \<noteq> {}" by (rule set_take_nonempty [OF assms(1,2)])
  have "\<bar>x ! i\<bar> \<in> abs ` set (take n x)" if "i < n" for i
    using that assms(2) by (auto simp: set_conv_nth intro!: imageI exI [of _ i])
  then show "\<forall>i<n. \<bar>x ! i\<bar> \<le> Max (abs ` set (take n x))" by (simp add: Max_ge)
  show "Max (abs ` set (take n x)) \<le> 32768"
    using ne i16 by (auto simp: all_i16_def is_i16_def)
qed

lemma elem_all_nth:
  "(\<forall>j<n. elem_i16 (celem x j)) \<longleftrightarrow> (\<forall>i<2 * n. is_i16 (x ! i))"
proof
  assume e: "\<forall>j<n. elem_i16 (celem x j)"
  have "is_i16 (x ! i)" if "i < 2 * n" for i
  proof (cases "even i")
    case True
    then obtain j where "i = 2 * j" by (elim evenE)
    with e that show ?thesis by (auto simp: elem_i16_def celem_def)
  next
    case False
    then obtain j where "i = 2 * j + 1" by (elim oddE)
    with e that show ?thesis by (auto simp: elem_i16_def celem_def)
  qed
  then show "\<forall>i<2 * n. is_i16 (x ! i)" by simp
qed (simp add: elem_i16_def celem_def)

lemma ifft_shift_level:
  assumes "0 \<le> Mx" "Mx \<le> 32768"
  shows "\<exists>s M. ifft_shift (min 32767 Mx) = (s, 8192 * 2 ^ s) \<and> ifft_level s M \<and> Mx \<le> M \<and> s \<le> 2"
proof -
  consider "Mx \<le> 13573" | "13573 < Mx" "Mx \<le> 27146" | "27146 < Mx" by linarith
  then show ?thesis
  proof cases
    case 1
    then have "ifft_shift (min 32767 Mx) = (0, 8192 * 2 ^ 0)" by (simp add: ifft_shift_def)
    moreover have "ifft_level 0 13573" by (simp add: ifft_level_def)
    ultimately show ?thesis using 1 by blast
  next
    case 2
    then have "ifft_shift (min 32767 Mx) = (1, 8192 * 2 ^ 1)" by (simp add: ifft_shift_def)
    moreover have "ifft_level 1 27146" by (simp add: ifft_level_def)
    ultimately show ?thesis using 2 by (metis one_le_numeral)
  next
    case 3
    then have "ifft_shift (min 32767 Mx) = (2, 8192 * 2 ^ 2)" by (simp add: ifft_shift_def)
    moreover have "ifft_level 2 32768" by (simp add: ifft_level_def)
    ultimately show ?thesis using assms(2) by blast
  qed
qed

lemma ifft_stage_pass:
  "ifft_stage mode n l k (x, sc) =
     (let (shift, round2) = ifft_shift (WebRtcSpl_MaxAbsValueW16C x (2 * n))
      in (pass_of (\<lambda>m. ifft_butterfly mode shift round2
           (kSinTable1024 ! (m * 2 ^ k + 256)) (kSinTable1024 ! (m * 2 ^ k)) l) n l x, sc + int shift))"
  by (simp add: ifft_stage_def pass_of_def Let_def split_beta)

lemma half_blocks: "s < stages \<Longrightarrow> (2 :: nat) ^ stages = 2 * 2 ^ s * 2 ^ (stages - Suc s)"
  by (simp flip: power_Suc power_add)

lemma ifft_stage_in_range:
  assumes s: "s < stages" "stages \<le> 10" and x: "2 * 2 ^ stages \<le> length x" "\<forall>i < 2 * 2 ^ stages. is_i16 (x ! i)"
    and y_def: "y = ifft_stage mode (2 ^ stages) (2 ^ s) (9 - s) (x, sc)"
  shows "ifft_stage_exact mode (2 ^ stages) (2 ^ s) (9 - s) (x, sc) = y"
    "2 * 2 ^ stages \<le> length (fst y)" "\<forall>i < 2 * 2 ^ stages. is_i16 (fst y ! i)" "sc \<le> snd y" "snd y \<le> sc + 2"
proof -
  define n :: nat where "n = 2 ^ stages"
  note mx = MaxAbsValueW16C_prefix [of "2 * n" x]
  have n: "0 < 2 * n" "2 * n \<le> length x" "\<forall>i < 2 * n. is_i16 (x ! i)" using x by (simp_all add: n_def)
  define Mx where "Mx = Max (abs ` set (take (2 * n) x))"
  note mx = MaxAbsValueW16C_prefix [OF n, folded Mx_def]
  have "0 \<le> Mx" using mx(2) n(1) by (meson abs_ge_zero order_trans)
  then obtain sh M where lev: "ifft_shift (min 32767 Mx) = (sh, 8192 * 2 ^ sh)" "ifft_level sh M" "Mx \<le> M" "sh \<le> 2"
    using ifft_shift_level mx(3) by blast
  have pre: "\<forall>j<n. elem_within M (celem x j)"
  proof (intro allI impI)
    fix j assume "j < n"
    then have "\<bar>x ! (2 * j)\<bar> \<le> Mx" "\<bar>x ! (2 * j + 1)\<bar> \<le> Mx" using mx(2) by simp_all
    then show "elem_within M (celem x j)" using lev(3) by (simp add: elem_within_def celem_def)
  qed
  have w: "\<bar>kSinTable1024 ! (m * 2 ^ (9 - s) + 256)\<bar> + \<bar>kSinTable1024 ! (m * 2 ^ (9 - s))\<bar> \<le> 46338" if "m < 2 ^ s" for m
    by (rule twiddle_bounds, rule twiddle_index) (use that s in simp_all)
  note p = pass_exact [OF ifft_butterfly_pass_step [OF lev(2) _ w, where mode = mode and n = n]
      half_blocks [OF s(1), folded n_def] _ n(2) pre, simplified]
  show "ifft_stage_exact mode (2 ^ stages) (2 ^ s) (9 - s) (x, sc) = y"
    using p by (simp add: y_def ifft_stage_exact_def ifft_stage_pass n_def [symmetric] Mx_def [symmetric] mx(1) lev(1))
  show "2 * 2 ^ stages \<le> length (fst y)" "\<forall>i < 2 * 2 ^ stages. is_i16 (fst y ! i)"
    using p by (simp_all add: y_def ifft_stage_pass n_def [symmetric] mx(1) lev(1) elem_all_nth)
  show "sc \<le> snd y" "snd y \<le> sc + 2"
    using lev(4) by (simp_all add: y_def ifft_stage_pass n_def [symmetric] mx(1) lev(1))
qed

lemma ComplexIFFT_in_range:
  assumes "stages \<le> 10" "2 * 2 ^ stages \<le> length x" "\<forall>i < 2 * 2 ^ stages. is_i16 (x ! i)"
    and y_def: "y = WebRtcSpl_ComplexIFFT x stages mode"
  shows "y = ifft_exact x stages mode" "2 * 2 ^ stages \<le> length (fst y)"
    "\<forall>i < 2 * 2 ^ stages. is_i16 (fst y ! i)" "0 \<le> snd y" "snd y \<le> 2 * int stages"
proof -
  let ?F = "\<lambda>s. ifft_stage mode (2 ^ stages) (2 ^ s) (9 - s)"
  let ?G = "\<lambda>s. ifft_stage_exact mode (2 ^ stages) (2 ^ s) (9 - s)"
  have run: "fold ?G [0..<b] (x, 0) = fold ?F [0..<b] (x, 0) \<and>
      2 * 2 ^ stages \<le> length (fst (fold ?F [0..<b] (x, 0))) \<and>
      (\<forall>i < 2 * 2 ^ stages. is_i16 (fst (fold ?F [0..<b] (x, 0)) ! i)) \<and>
      0 \<le> snd (fold ?F [0..<b] (x, 0)) \<and> snd (fold ?F [0..<b] (x, 0)) \<le> 2 * int b" if "b \<le> stages" for b
    using that
  proof (induction b)
    case 0
    then show ?case using assms by simp
  next
    case (Suc b)
    obtain x' sc where e: "fold ?F [0..<b] (x, 0) = (x', sc)" by fastforce
    with Suc have "2 * 2 ^ stages \<le> length x'" "\<forall>i < 2 * 2 ^ stages. is_i16 (x' ! i)"
      "fold ?G [0..<b] (x, 0) = (x', sc)" "0 \<le> sc" "sc \<le> 2 * int b" by simp_all
    then show ?case
      using ifft_stage_in_range [of b stages x' _ mode sc, OF _ _ _ _ refl] Suc.prems assms(1) e by simp
  qed
  have "\<not> (2 :: nat) ^ stages > 2 ^ 10" using assms(1) by (simp add: not_less del: power_numeral)
  then have "y = fold ?F [0..<stages] (x, 0)" by (simp add: y_def WebRtcSpl_ComplexIFFT_def)
  with run [OF order_refl] show "y = ifft_exact x stages mode" "2 * 2 ^ stages \<le> length (fst y)"
    "\<forall>i < 2 * 2 ^ stages. is_i16 (fst y ! i)" "0 \<le> snd y" "snd y \<le> 2 * int stages"
    by (simp_all add: ifft_exact_def)
qed


section \<open>The forward transform stays in range\<close>

definition fft_butterfly_exact :: "int \<Rightarrow> int \<Rightarrow> nat \<Rightarrow> nat \<Rightarrow> int list \<Rightarrow> int list" where
  "fft_butterfly_exact wr wi l i x =
     (let (ar, ai) = celem x i; (br, bi) = celem x (i + l);
          tr = (wr * br - wi * bi + 1) div 2; ti = (wr * bi + wi * br + 1) div 2
      in put_complex i ((2 ^ 14 * ar + tr + 2 ^ 14) div 2 ^ 15) ((2 ^ 14 * ai + ti + 2 ^ 14) div 2 ^ 15)
           (put_complex (i + l) ((2 ^ 14 * ar - tr + 2 ^ 14) div 2 ^ 15) ((2 ^ 14 * ai - ti + 2 ^ 14) div 2 ^ 15) x))"

definition fft_exact :: "int list \<Rightarrow> nat \<Rightarrow> int list" where
  "fft_exact x stages =
     fold (\<lambda>s. pass_of (\<lambda>m. fft_butterfly_exact (kSinTable1024 ! (m * 2 ^ (9 - s) + 256))
       (- (kSinTable1024 ! (m * 2 ^ (9 - s)))) (2 ^ s)) (2 ^ stages) (2 ^ s)) [0..<stages] x"

definition cnorm :: "int \<times> int \<Rightarrow> real" where
  "cnorm = (\<lambda>(a, b). cmod (Complex (real_of_int a) (real_of_int b)))"

lemma cnorm_square: "0 \<le> B \<Longrightarrow> cnorm (a, b) \<le> real_of_int B \<longleftrightarrow> a * a + b * b \<le> B * B"
proof -
  assume B: "0 \<le> B"
  have "cnorm (a, b) \<le> real_of_int B \<longleftrightarrow> (real_of_int a)\<^sup>2 + (real_of_int b)\<^sup>2 \<le> (real_of_int B)\<^sup>2"
    using B by (auto simp: cnorm_def cmod_def dest: sqrt_le_D intro: real_le_lsqrt)
  also have "\<dots> \<longleftrightarrow> real_of_int (a * a + b * b) \<le> real_of_int (B * B)"
    by (simp add: power2_eq_square)
  finally show ?thesis by (simp only: of_int_le_iff)
qed

lemma cnorm_components: "\<bar>real_of_int a\<bar> \<le> cnorm (a, b)" "\<bar>real_of_int b\<bar> \<le> cnorm (a, b)"
  using abs_Re_le_cmod [of "Complex (real_of_int a) (real_of_int b)"]
    abs_Im_le_cmod [of "Complex (real_of_int a) (real_of_int b)"] by (simp_all add: cnorm_def)

text \<open>The rounding of one output of a butterfly.\<close>

lemma rounding_scaled:
  "\<bar>65536 * y - 32768 * a - t\<bar> \<le> (32769 :: int) \<Longrightarrow>
   \<bar>real_of_int y - (real_of_int a / 2 + real_of_int t / 65536)\<bar> \<le> 32769 / 65536"
proof -
  assume "\<bar>65536 * y - 32768 * a - t\<bar> \<le> (32769 :: int)"
  then have "real_of_int (65536 * y - 32768 * a - t) \<le> 32769" "- 32769 \<le> real_of_int (65536 * y - 32768 * a - t)"
    by linarith+
  then show ?thesis unfolding abs_le_iff of_int_diff of_int_mult of_int_numeral by linarith
qed

lemma butterfly_rounding:
  fixes a t :: int
  shows "\<bar>real_of_int ((2 ^ 14 * a + (t + 1) div 2 + 2 ^ 14) div 2 ^ 15) - (real_of_int a / 2 + real_of_int t / 65536)\<bar>
           \<le> 32769 / 65536"
    "\<bar>real_of_int ((2 ^ 14 * a - (t + 1) div 2 + 2 ^ 14) div 2 ^ 15) - (real_of_int a / 2 - real_of_int t / 65536)\<bar>
           \<le> 32769 / 65536"
proof -
  show "\<bar>real_of_int ((2 ^ 14 * a + (t + 1) div 2 + 2 ^ 14) div 2 ^ 15) - (real_of_int a / 2 + real_of_int t / 65536)\<bar>
           \<le> 32769 / 65536" by (rule rounding_scaled) simp
  have "\<bar>65536 * ((2 ^ 14 * a - (t + 1) div 2 + 2 ^ 14) div 2 ^ 15) - 32768 * a - (- t)\<bar> \<le> 32769" by simp
  from rounding_scaled [OF this]
  show "\<bar>real_of_int ((2 ^ 14 * a - (t + 1) div 2 + 2 ^ 14) div 2 ^ 15) - (real_of_int a / 2 - real_of_int t / 65536)\<bar>
           \<le> 32769 / 65536" by simp
qed

lemma rounding_norm:
  assumes "\<bar>x - Re z\<bar> \<le> 32769 / 65536" "\<bar>y - Im z\<bar> \<le> 32769 / 65536"
  shows "cmod (Complex x y) \<le> cmod z + 3 / 4"
proof -
  define e where "e = Complex (x - Re z) (y - Im z)"
  have "cmod e \<le> 3 / 4"
  proof -
    have "(Re e)\<^sup>2 \<le> (32769 / 65536)\<^sup>2" "(Im e)\<^sup>2 \<le> (32769 / 65536)\<^sup>2"
      using assms by (simp_all only: e_def complex.sel power2_le_iff_abs_le)
    then have "(Re e)\<^sup>2 + (Im e)\<^sup>2 \<le> (3 / 4)\<^sup>2" by (simp add: power2_eq_square)
    then show ?thesis unfolding cmod_def by (intro real_le_lsqrt) simp_all
  qed
  moreover have "Complex x y = z + e" by (simp add: e_def complex_eq_iff)
  ultimately show ?thesis using norm_triangle_ineq [of z e] by simp
qed

lemma butterfly_norm:
  assumes "cnorm (ar, ai) \<le> B" "cnorm (br, bi) \<le> B" "wr * wr + wi * wi \<le> 1073676289"
  shows "cnorm ((2 ^ 14 * ar + (wr * br - wi * bi + 1) div 2 + 2 ^ 14) div 2 ^ 15,
                (2 ^ 14 * ai + (wr * bi + wi * br + 1) div 2 + 2 ^ 14) div 2 ^ 15) \<le> B + 3 / 4"
    "cnorm ((2 ^ 14 * ar - (wr * br - wi * bi + 1) div 2 + 2 ^ 14) div 2 ^ 15,
            (2 ^ 14 * ai - (wr * bi + wi * br + 1) div 2 + 2 ^ 14) div 2 ^ 15) \<le> B + 3 / 4"
proof -
  define a b w where "a = Complex (real_of_int ar) (real_of_int ai)"
    and "b = Complex (real_of_int br) (real_of_int bi)" and "w = Complex (real_of_int wr) (real_of_int wi)"
  have norms: "cmod a \<le> B" "cmod b \<le> B" using assms(1,2) by (simp_all add: cnorm_def a_def b_def)
  have "cmod w \<le> 32767" using assms(3) cnorm_square [of 32767 wr wi] by (simp add: cnorm_def w_def)
  then have "cmod (w * b) \<le> 32767 * B"
    unfolding norm_mult using norms by (intro mult_mono) simp_all
  then have wb: "cmod (w * b / 65536) \<le> B / 2" using norms
    by (simp add: norm_divide) (smt (verit, best) norm_ge_zero)
  have half: "cmod (a / 2) \<le> B / 2" using norms by (simp add: norm_divide)
  have "cmod (a / 2 + w * b / 65536) \<le> B" "cmod (a / 2 - w * b / 65536) \<le> B"
    using norm_triangle_ineq [of "a / 2" "w * b / 65536"] norm_triangle_ineq4 [of "a / 2" "w * b / 65536"] wb half
    by linarith+
  moreover have re: "Re (a / 2 + w * b / 65536) = real_of_int ar / 2 + real_of_int (wr * br - wi * bi) / 65536"
    "Im (a / 2 + w * b / 65536) = real_of_int ai / 2 + real_of_int (wr * bi + wi * br) / 65536"
    "Re (a / 2 - w * b / 65536) = real_of_int ar / 2 - real_of_int (wr * br - wi * bi) / 65536"
    "Im (a / 2 - w * b / 65536) = real_of_int ai / 2 - real_of_int (wr * bi + wi * br) / 65536"
    by (simp_all add: a_def b_def w_def)
  ultimately show "cnorm ((2 ^ 14 * ar + (wr * br - wi * bi + 1) div 2 + 2 ^ 14) div 2 ^ 15,
                (2 ^ 14 * ai + (wr * bi + wi * br + 1) div 2 + 2 ^ 14) div 2 ^ 15) \<le> B + 3 / 4"
    "cnorm ((2 ^ 14 * ar - (wr * br - wi * bi + 1) div 2 + 2 ^ 14) div 2 ^ 15,
            (2 ^ 14 * ai - (wr * bi + wi * br + 1) div 2 + 2 ^ 14) div 2 ^ 15) \<le> B + 3 / 4"
    using rounding_norm [of _ "a / 2 + w * b / 65536", unfolded re, OF butterfly_rounding(1) butterfly_rounding(1)]
      rounding_norm [of _ "a / 2 - w * b / 65536", unfolded re, OF butterfly_rounding(2) butterfly_rounding(2)]
    unfolding cnorm_def prod.case by linarith+
qed


definition elem_norm :: "real \<Rightarrow> int \<times> int \<Rightarrow> bool" where
  "elem_norm B p \<longleftrightarrow> cnorm p \<le> B"

lemma fft_butterfly_cases:
  assumes "celem y i = (ar, ai)" "celem y (i + l) = (br, bi)" "mode \<noteq> 0"
  shows "fft_butterfly mode wr wi l i y =
    (let tr = shr (to_i32 (wr * br - wi * bi + 1)) 1; ti = shr (to_i32 (wr * bi + wi * br + 1)) 1 in
     put_complex i (to_i16 (shr (to_i32 (shl ar 14 + tr + 16384)) 15))
         (to_i16 (shr (to_i32 (shl ai 14 + ti + 16384)) 15))
       (put_complex (i + l) (to_i16 (shr (to_i32 (shl ar 14 - tr + 16384)) 15))
         (to_i16 (shr (to_i32 (shl ai 14 - ti + 16384)) 15)) y))"
proof -
  have "y ! (2 * i) = ar" "y ! (2 * i + 1) = ai" "y ! (2 * (i + l)) = br" "y ! (2 * (i + l) + 1) = bi"
    using assms by (simp_all add: celem_def)
  then show ?thesis unfolding fft_butterfly_def Let_def if_not_P [OF assms(3)] by (simp only:)
qed

lemma norm_elem_i16:
  assumes "cnorm (a, b) < 32768" shows "is_i16 a" "is_i16 b" "\<bar>a\<bar> \<le> 32768" "\<bar>b\<bar> \<le> 32768"
proof -
  have "\<bar>a\<bar> < 32768" "\<bar>b\<bar> < 32768"
    using cnorm_components(1) [of a b] cnorm_components(2) [of b a] assms by linarith+
  then show "is_i16 a" "is_i16 b" "\<bar>a\<bar> \<le> 32768" "\<bar>b\<bar> \<le> 32768" by (auto simp: is_i16_def)
qed

lemma fft_store:
  assumes "\<bar>u\<bar> \<le> 46338 * 32768" "\<bar>c\<bar> \<le> 32768"
  shows "shr (to_i32 (u + 1)) 1 = (u + 1) div 2"
    "to_i16 (shr (to_i32 (shl c 14 + (u + 1) div 2 + 16384)) 15) = to_i16 ((2 ^ 14 * c + (u + 1) div 2 + 2 ^ 14) div 2 ^ 15)"
    "to_i16 (shr (to_i32 (shl c 14 - (u + 1) div 2 + 16384)) 15) = to_i16 ((2 ^ 14 * c - (u + 1) div 2 + 2 ^ 14) div 2 ^ 15)"
proof -
  have "is_i32 (u + 1)" using assms by (auto simp: is_i32_def)
  then show "shr (to_i32 (u + 1)) 1 = (u + 1) div 2" by (simp add: to_i32_id shr_def)
  define v where "v = (u + 1) div 2"
  have "\<bar>v\<bar> \<le> 23169 * 32768 + 1" using assms(1) unfolding v_def by simp
  then have "is_i32 (2 ^ 14 * c + v + 2 ^ 14)" "is_i32 (2 ^ 14 * c - v + 2 ^ 14)"
    using assms(2) by (simp_all add: is_i32_def abs_le_iff)
  then show "to_i16 (shr (to_i32 (shl c 14 + (u + 1) div 2 + 16384)) 15) = to_i16 ((2 ^ 14 * c + (u + 1) div 2 + 2 ^ 14) div 2 ^ 15)"
    "to_i16 (shr (to_i32 (shl c 14 - (u + 1) div 2 + 16384)) 15) = to_i16 ((2 ^ 14 * c - (u + 1) div 2 + 2 ^ 14) div 2 ^ 15)"
    by (simp_all add: v_def [symmetric] to_i32_id shr_def shl_def mult.commute [of c])
qed

lemma fft_butterfly_pass_step:
  assumes "mode \<noteq> 0" and l: "0 < l" and B: "B + 3 / 4 < 32768"
    and w: "\<And>m. m < l \<Longrightarrow> \<bar>wr m\<bar> + \<bar>wi m\<bar> \<le> 46338 \<and> wr m * wr m + wi m * wi m \<le> 1073676289"
  shows "pass_step (\<lambda>m. fft_butterfly mode (wr m) (wi m) l) (\<lambda>m. fft_butterfly_exact (wr m) (wi m) l) n l
    (elem_norm B) (elem_norm (B + 3 / 4))"
  unfolding pass_step_def
proof (intro allI impI)
  fix m i and y :: "int list"
  assume m: "m < l" and il: "i + l < n" and len: "2 * n \<le> length y"
    and pre: "elem_norm B (celem y i)" "elem_norm B (celem y (i + l))"
  obtain ar ai br bi where e: "celem y i = (ar, ai)" "celem y (i + l) = (br, bi)" by fastforce
  have a: "cnorm (ar, ai) \<le> B" "cnorm (br, bi) \<le> B" using pre e by (simp_all add: elem_norm_def)
  then have "cnorm (ar, ai) < 32768" "cnorm (br, bi) < 32768" using B by linarith+
  note ia = norm_elem_i16 [OF this(1)] and ib = norm_elem_i16 [OF this(2)]
  note wm = conjunct1 [OF w [OF m]]
  note st = fft_store [OF rotate_bound(1) [OF wm ib(3,4)] ia(3)] fft_store [OF rotate_bound(2) [OF wm ib(4,3)] ia(4)]
  note bn = butterfly_norm [OF a conjunct2 [OF w [OF m]]]
  note lt = le_less_trans [OF bn(1) B] le_less_trans [OF bn(2) B]
  note id = to_i16_id [OF norm_elem_i16(1) [OF lt(1)]] to_i16_id [OF norm_elem_i16(2) [OF lt(1)]]
    to_i16_id [OF norm_elem_i16(1) [OF lt(2)]] to_i16_id [OF norm_elem_i16(2) [OF lt(2)]]
  note f = fft_butterfly_cases [OF e assms(1), of "wr m" "wi m", unfolded Let_def st id]
  let ?f = "fft_butterfly mode (wr m) (wi m) l i y" and ?g = "fft_butterfly_exact (wr m) (wi m) l i y"
  have "?g = ?f" unfolding f fft_butterfly_exact_def e prod.case Let_def ..
  moreover have "length ?f = length y \<and> elem_norm (B + 3 / 4) (celem ?f i) \<and> elem_norm (B + 3 / 4) (celem ?f (i + l)) \<and>
      (\<forall>j. j \<noteq> i \<longrightarrow> j \<noteq> i + l \<longrightarrow> celem ?f j = celem y j)"
    by (rule pass_step_pairs [OF len il l f]) (simp_all only: elem_norm_def bn)
  ultimately show "?g = ?f \<and> length ?f = length y \<and> elem_norm (B + 3 / 4) (celem ?f i) \<and>
    elem_norm (B + 3 / 4) (celem ?f (i + l)) \<and> (\<forall>j. j \<noteq> i \<longrightarrow> j \<noteq> i + l \<longrightarrow> celem ?f j = celem y j)"
    by (rule conjI)
qed

lemma twiddle_neg: "j < 1024 \<Longrightarrow> to_i16 (- (kSinTable1024 ! j)) = - (kSinTable1024 ! j)"
proof -
  assume "j < 1024"
  moreover have "list_all (\<lambda>s. to_i16 (- s) = - s) kSinTable1024"
    unfolding kSinTable1024_def by (simp add: to_i16_def)
  ultimately show ?thesis using twiddle_table(2) by (simp add: list_all_length)
qed

lemma ComplexFFT_in_range:
  assumes "stages \<le> 10" "2 * 2 ^ stages \<le> length x" "\<forall>i < 2 ^ stages. elem_norm B (celem x i)" "mode \<noteq> 0"
    and B: "B + real stages * 3 / 4 < 32768"
  shows "WebRtcSpl_ComplexFFT x stages mode = (fft_exact x stages, 0)"
    "2 * 2 ^ stages \<le> length (fft_exact x stages)"
    "\<forall>i < 2 ^ stages. elem_norm (B + real stages * 3 / 4) (celem (fft_exact x stages) i)"
proof -
  let ?F = "\<lambda>s. fft_stage mode (2 ^ stages) (2 ^ s) (9 - s)"
  let ?G = "\<lambda>s. pass_of (\<lambda>m. fft_butterfly_exact (kSinTable1024 ! (m * 2 ^ (9 - s) + 256))
       (- (kSinTable1024 ! (m * 2 ^ (9 - s)))) (2 ^ s)) (2 ^ stages) (2 ^ s)"
  have run: "fold ?G [0..<b] x = fold ?F [0..<b] x \<and> 2 * 2 ^ stages \<le> length (fold ?F [0..<b] x) \<and>
      (\<forall>i < 2 ^ stages. elem_norm (B + real b * 3 / 4) (celem (fold ?F [0..<b] x) i))" if "b \<le> stages" for b
    using that
  proof (induction b)
    case 0
    then show ?case using assms by simp
  next
    case (Suc b)
    define y where "y = fold ?F [0..<b] x"
    have y: "fold ?G [0..<b] x = y" "2 * 2 ^ stages \<le> length y"
      "\<forall>i < 2 ^ stages. elem_norm (B + real b * 3 / 4) (celem y i)" using Suc by (simp_all add: y_def)
    have Bb: "B + real b * 3 / 4 + 3 / 4 < 32768" using B Suc.prems by (simp add: field_simps)
    have tw: "m * 2 ^ (9 - b) < 512" if "m < 2 ^ b" for m :: nat
      by (rule twiddle_index) (use that Suc.prems assms(1) in simp_all)
    have w: "\<bar>kSinTable1024 ! (m * 2 ^ (9 - b) + 256)\<bar> + \<bar>- (kSinTable1024 ! (m * 2 ^ (9 - b)))\<bar> \<le> 46338 \<and>
        kSinTable1024 ! (m * 2 ^ (9 - b) + 256) * kSinTable1024 ! (m * 2 ^ (9 - b) + 256) +
        - (kSinTable1024 ! (m * 2 ^ (9 - b))) * - (kSinTable1024 ! (m * 2 ^ (9 - b))) \<le> 1073676289"
      if "m < 2 ^ b" for m :: nat
      using twiddle_bounds [OF tw [OF that]] by simp
    have F: "?F b y = pass_of (\<lambda>m. fft_butterfly mode (kSinTable1024 ! (m * 2 ^ (9 - b) + 256))
       (- (kSinTable1024 ! (m * 2 ^ (9 - b)))) (2 ^ b)) (2 ^ stages) (2 ^ b) y"
      unfolding fft_stage_def pass_of_def Let_def
    proof (rule fold_cong [OF refl refl])
      fix m :: nat assume "m \<in> set [0..<2 ^ b]"
      then have "m * 2 ^ (9 - b) < 1024" using tw [of m] by simp
      from twiddle_neg [OF this]
      show "fold (fft_butterfly mode (kSinTable1024 ! (m * 2 ^ (9 - b) + 256))
          (to_i16 (- kSinTable1024 ! (m * 2 ^ (9 - b)))) (2 ^ b)) (strided m (2 ^ stages) (2 * 2 ^ b)) =
        fold (fft_butterfly mode (kSinTable1024 ! (m * 2 ^ (9 - b) + 256))
          (- kSinTable1024 ! (m * 2 ^ (9 - b))) (2 ^ b)) (strided m (2 ^ stages) (2 * 2 ^ b))" by simp
    qed
    have "b < stages" "(0 :: nat) < 2 ^ b" using Suc.prems by simp_all
    note step = fft_butterfly_pass_step [where wr = "\<lambda>m. kSinTable1024 ! (m * 2 ^ (9 - b) + 256)"
        and wi = "\<lambda>m. - (kSinTable1024 ! (m * 2 ^ (9 - b)))", OF assms(4) this(2) Bb w]
    have eq: "B + real (Suc b) * 3 / 4 = B + real b * 3 / 4 + 3 / 4" by (simp add: field_simps)
    have "?G b y = ?F b y \<and> 2 * 2 ^ stages \<le> length (?F b y) \<and>
        (\<forall>i < 2 ^ stages. elem_norm (B + real (Suc b) * 3 / 4) (celem (?F b y) i))"
      unfolding F eq
      by (rule pass_exact [OF step half_blocks [OF \<open>b < stages\<close>] \<open>0 < 2 ^ b\<close> y(2,3)])
    then show ?case using y(1) by (simp add: y_def [symmetric])
  qed
  have "\<not> (2 :: nat) ^ stages > 2 ^ 10" using assms(1) by (simp add: not_less del: power_numeral)
  then show "WebRtcSpl_ComplexFFT x stages mode = (fft_exact x stages, 0)"
    "2 * 2 ^ stages \<le> length (fft_exact x stages)"
    "\<forall>i < 2 ^ stages. elem_norm (B + real stages * 3 / 4) (celem (fft_exact x stages) i)"
    using run [OF order_refl] by (simp_all add: WebRtcSpl_ComplexFFT_def fft_exact_def)
qed


section \<open>The transforms on arrays of 16-bit numbers\<close>

lemma all_i16_list_update [simp]: "all_i16 xs \<Longrightarrow> is_i16 v \<Longrightarrow> all_i16 (xs[i := v])"
  using set_update_subset_insert [of xs i v] by (auto simp: all_i16_def)

lemma all_i16_blit [simp]: "all_i16 xs \<Longrightarrow> all_i16 ys \<Longrightarrow> all_i16 (blit i xs ys)"
  by (auto simp: all_i16_def blit_def dest: in_set_takeD in_set_dropD)

lemma all_i16_take [simp]: "all_i16 xs \<Longrightarrow> all_i16 (take n xs)"
  by (auto simp: all_i16_def dest: in_set_takeD)

lemma all_i16_put_complex [simp]:
  "all_i16 xs \<Longrightarrow> is_i16 a \<Longrightarrow> is_i16 b \<Longrightarrow> all_i16 (put_complex i a b xs)"
  by (simp add: put_complex_def)

definition i16_array :: "nat \<Rightarrow> int list \<Rightarrow> bool" where
  "i16_array n xs \<longleftrightarrow> length xs = n \<and> all_i16 xs"

lemma i16_arrayD: "i16_array n xs \<Longrightarrow> length xs = n" "i16_array n xs \<Longrightarrow> i < n \<Longrightarrow> is_i16 (xs ! i)"
  by (simp_all add: i16_array_def all_i16_nth)

lemma i16_array_upd [simp]: "i16_array n xs \<Longrightarrow> is_i16 v \<Longrightarrow> i16_array n (xs[i := v])"
  by (simp add: i16_array_def)

lemma i16_array_put: "i16_array n xs \<Longrightarrow> is_i16 a \<Longrightarrow> is_i16 b \<Longrightarrow> i16_array n (put_complex i a b xs)"
  by (simp add: i16_array_def)

lemma i16_array_if: "i16_array n a \<Longrightarrow> i16_array n b \<Longrightarrow> i16_array n (if c then a else b)"
  by simp

lemma i16_array_swap:
  "i16_array n x \<Longrightarrow> 2 * a + 1 < n \<Longrightarrow> 2 * b + 1 < n \<Longrightarrow> i16_array n (swap_complex a b x)"
  by (simp add: swap_complex_def Let_def i16_array_def all_i16_nth)

lemma i16_array_bit_reverse:
  assumes "i16_array n x" "2 * 2 ^ stages \<le> n"
  shows "i16_array n (WebRtcSpl_ComplexBitReverse x stages)"
proof -
  have "WebRtcSpl_ComplexBitReverse x stages = fold (swap_up (bitrev stages)) [0..<2 ^ stages] x"
    by (auto simp: WebRtcSpl_ComplexBitReverse_def bit_reverse_loop_eq bit_reverse_tables_eq)
  moreover have "i16_array n (fold (swap_up (bitrev stages)) [0..<2 ^ stages] x)"
    using assms(1)
  proof (rule fold_pres)
    fix m y assume "m \<in> set [0..<2 ^ stages]" "i16_array n y"
    then show "i16_array n (swap_up (bitrev stages) m y)"
      using bitrev_less [of stages m] assms(2) by (simp add: swap_up_def i16_array_swap)
  qed
  ultimately show ?thesis by simp
qed

lemma i16_array_fold:
  "(\<And>i y. i16_array n y \<Longrightarrow> i16_array n (f i y)) \<Longrightarrow> i16_array n x \<Longrightarrow> i16_array n (fold f is x)"
  by (induction "is" arbitrary: x) simp_all

lemma i16_array_fft_butterfly: "i16_array n y \<Longrightarrow> i16_array n (fft_butterfly mode wr wi l i y)"
  unfolding fft_butterfly_def Let_def
  by (rule i16_array_if; rule i16_array_put; (rule is_i16_to_i16)?; rule i16_array_put; (assumption | rule is_i16_to_i16))

lemma i16_array_ifft_butterfly: "i16_array n y \<Longrightarrow> i16_array n (ifft_butterfly mode s r wr wi l i y)"
  unfolding ifft_butterfly_def Let_def
  by (rule i16_array_if; rule i16_array_put; (rule is_i16_to_i16)?; rule i16_array_put; (assumption | rule is_i16_to_i16))

lemma i16_array_fft:
  assumes "i16_array n x" shows "i16_array n (fst (WebRtcSpl_ComplexFFT x stages mode))"
proof -
  have "i16_array n (fft_stage mode m l k y)" if "i16_array n y" for m l k y
    unfolding fft_stage_def Let_def
    by (rule i16_array_fold, rule i16_array_fold, rule i16_array_fft_butterfly, assumption, assumption, rule that)
  then have "i16_array n (fold (\<lambda>s. fft_stage mode (2 ^ stages) (2 ^ s) (9 - s)) [0..<stages] x)"
    using assms by (rule i16_array_fold)
  then show ?thesis using assms unfolding WebRtcSpl_ComplexFFT_def Let_def by (simp split: if_split)
qed

lemma i16_array_ifft_stage:
  assumes "i16_array n (fst ysc)" shows "i16_array n (fst (ifft_stage mode m l k ysc))"
  unfolding ifft_stage_def Let_def split_beta fst_conv
  by (rule i16_array_fold, rule i16_array_fold, rule i16_array_ifft_butterfly, assumption, assumption, rule assms)

lemma i16_array_ifft:
  assumes "i16_array n x" shows "i16_array n (fst (WebRtcSpl_ComplexIFFT x stages mode))"
proof -
  let ?F = "\<lambda>s. ifft_stage mode (2 ^ stages) (2 ^ s) (9 - s)"
  have "i16_array n (fst (fold ?F js ysc))" if "i16_array n (fst ysc)" for js ysc
    using that by (induction js arbitrary: ysc) (simp_all add: i16_array_ifft_stage)
  then have "i16_array n (fst (fold ?F [0..<stages] (x, 0)))" using assms by simp
  then show ?thesis using assms unfolding WebRtcSpl_ComplexIFFT_def Let_def by (simp split: if_split)
qed

lemma real_forward_array:
  assumes "i16_array 2048 raw" "i16_array n x" "2 ^ nat (order self) \<le> n" "i16_array m out"
    "2 ^ nat (order self) + 2 \<le> m" "2 * 2 ^ nat (order self) \<le> (2048 :: nat)"
  shows "i16_array m (fst (WebRtcSpl_RealForwardFFT raw self x out))"
proof -
  let ?n = "2 ^ nat (order self) :: nat"
  define b0 where "b0 = fold (\<lambda>i b. b[2 * i := x ! i, 2 * i + 1 := 0]) [0..<?n] raw"
  have z: "is_i16 0" by (simp add: is_i16_def)
  have "i16_array 2048 b0"
    unfolding b0_def using assms(1)
    by (rule fold_pres) (use assms(2,3) in \<open>simp add: i16_arrayD(2) z\<close>)
  then have "i16_array 2048 (fst (WebRtcSpl_ComplexFFT (WebRtcSpl_ComplexBitReverse b0 (nat (order self))) (nat (order self)) 1))"
    by (intro i16_array_fft i16_array_bit_reverse assms(6))
  then show ?thesis
    using assms(4-6) unfolding WebRtcSpl_RealForwardFFT_def Let_def split_beta b0_def [symmetric] fst_conv i16_array_def
    by (simp add: length_blit)
qed

lemma real_inverse_array:
  assumes "i16_array 2048 raw" "i16_array m x" "2 ^ nat (order self) + 2 \<le> m" "i16_array n out"
    "2 \<le> nat (order self)" "nat (order self) \<le> 10"
  shows "i16_array n (fst (WebRtcSpl_RealInverseFFT raw self x out))"
    "0 \<le> snd (WebRtcSpl_RealInverseFFT raw self x out)"
    "snd (WebRtcSpl_RealInverseFFT raw self x out) \<le> 2 * order self"
proof -
  let ?k = "nat (order self)"
  let ?n = "2 ^ ?k :: nat"
  define b0 where "b0 = fold (\<lambda>i b. b[i := x ! (2 * ?n - i), i + 1 := to_i16 (- (x ! (2 * ?n - i + 1)))])
              (strided (?n + 2) (2 * ?n) 2) (blit 0 (take (?n + 2) x) raw)"
  have "(2 :: nat) ^ ?k \<le> 2 ^ 10" by (rule power_increasing) (use assms(6) in simp_all)
  then have n10: "?n \<le> 1024" by simp
  have "(2 :: nat) ^ 2 \<le> 2 ^ ?k" by (rule power_increasing) (use assms(5) in simp_all)
  then have n2: "2 \<le> ?n" by simp
  have "i16_array 2048 (blit 0 (take (?n + 2) x) raw)"
    using assms(1-3) n10 n2 by (simp add: i16_array_def length_blit)
  then have b0: "i16_array 2048 b0"
    unfolding b0_def
  proof (rule fold_pres)
    fix i and b :: "int list"
    assume "i \<in> set (strided (?n + 2) (2 * ?n) 2)" "i16_array 2048 b"
    moreover from this have "2 * ?n - i < ?n" using n2 by (auto simp: strided_def)
    ultimately show "i16_array 2048 (b[i := x ! (2 * ?n - i), i + 1 := to_i16 (- (x ! (2 * ?n - i + 1)))])"
      using assms(2,3) by (simp add: i16_arrayD(2))
  qed
  define c where "c = WebRtcSpl_ComplexBitReverse b0 ?k"
  have c: "i16_array 2048 c" unfolding c_def by (rule i16_array_bit_reverse [OF b0]) (use n10 in simp)
  then have ci: "2 * 2 ^ ?k \<le> length c" "\<forall>i < 2 * 2 ^ ?k. is_i16 (c ! i)"
    using n10 by (auto simp: i16_arrayD)
  note r = ComplexIFFT_in_range [OF assms(6) ci, of _ 1, OF refl]
  have "i16_array 2048 (fst (WebRtcSpl_ComplexIFFT c ?k 1))" by (rule i16_array_ifft [OF c])
  note i = i16_arrayD(2) [OF this]
  have "i16_array n (fold (\<lambda>i out. out[i := fst (WebRtcSpl_ComplexIFFT c ?k 1) ! (2 * i)]) [0..<?n] out)"
    using assms(4) by (rule fold_pres) (use n10 i in simp)
  then show "i16_array n (fst (WebRtcSpl_RealInverseFFT raw self x out))"
    "0 \<le> snd (WebRtcSpl_RealInverseFFT raw self x out)"
    "snd (WebRtcSpl_RealInverseFFT raw self x out) \<le> 2 * order self"
    using r(4,5) assms(5)
    unfolding WebRtcSpl_RealInverseFFT_def Let_def split_beta fst_conv snd_conv b0_def [symmetric] c_def [symmetric]
    by (simp_all split: if_splits)
qed

lemma all_nat_less_2: "(\<forall>i < 2 :: nat. P i) \<longleftrightarrow> P 0 \<and> P 1"
  by (auto simp: less_2_cases_iff)

lemma all_nat_less_4: "(\<forall>i < 4 :: nat. P i) \<longleftrightarrow> P 0 \<and> P 1 \<and> P 2 \<and> P 3"
proof -
  have "i < 4 \<longleftrightarrow> i = 0 \<or> i = 1 \<or> i = 2 \<or> i = 3" for i :: nat by linarith
  then show ?thesis by auto
qed

section \<open>Properties\<close>

text \<open>C29: \<open>WebRtcSpl_ComplexBitReverse\<close>, by its tables for 7 and 8 stages and by its incremental search of the next
  reversed index otherwise, moves to every position \<open>i\<close> the complex number whose index has the \<open>stages\<close> bits of \<open>i\<close> in
  the opposite order, and applied twice gives the array back.\<close>

theorem bit_reversal_correct:
  assumes "2 * 2 ^ stages \<le> length x"
  shows "\<forall>i < 2 ^ stages.
      celem (WebRtcSpl_ComplexBitReverse x stages) i = celem x (bitrev stages i) \<and>
      celem (WebRtcSpl_ComplexBitReverse (WebRtcSpl_ComplexBitReverse x stages) stages) i = celem x i"
proof (intro allI impI)
  fix i :: nat assume i: "i < 2 ^ stages"
  have "2 * 2 ^ stages \<le> length (WebRtcSpl_ComplexBitReverse x stages)"
    using ComplexBitReverse_spec [OF assms] assms by simp
  from ComplexBitReverse_spec [OF this] ComplexBitReverse_spec [OF assms] i
  show "celem (WebRtcSpl_ComplexBitReverse x stages) i = celem x (bitrev stages i) \<and>
      celem (WebRtcSpl_ComplexBitReverse (WebRtcSpl_ComplexBitReverse x stages) stages) i = celem x i"
    by (simp add: bitrev_less bitrev_bitrev)
qed

theorem bit_reversal_correct_witness:
  "celem (WebRtcSpl_ComplexBitReverse [0, 1, 10, 11, 20, 21, 30, 31] 2) 1 = (20, 21)"
proof -
  have "\<forall>i < 2 ^ 2. celem (WebRtcSpl_ComplexBitReverse [0, 1, 10, 11, 20, 21, 30, 31] 2) i
      = celem [0, 1, 10, 11, 20, 21, 30, 31] (bitrev 2 i)"
    using bit_reversal_correct [of 2 "[0, 1, 10, 11, 20, 21, 30, 31]"] by simp
  from this [rule_format, of 1] show ?thesis by (simp add: bitrev_numeral celem_def)
qed

text \<open>C30: The data-dependent scaling of \<open>WebRtcSpl_ComplexIFFT\<close> is sufficient in both modes: for every 16-bit input and
  every size up to 1024 the transform computes what the same passes compute on unbounded integers, so no store into an
  \<open>int16_t\<close> and no 32-bit intermediate overflows. The returned scale is between 0 and two per stage.\<close>

theorem inverse_fft_never_overflows:
  assumes "stages \<le> 10" "2 * 2 ^ stages \<le> length x" "\<forall>i < 2 * 2 ^ stages. is_i16 (x ! i)"
  shows "WebRtcSpl_ComplexIFFT x stages mode = ifft_exact x stages mode \<and>
    0 \<le> snd (WebRtcSpl_ComplexIFFT x stages mode) \<and>
    snd (WebRtcSpl_ComplexIFFT x stages mode) \<le> 2 * int stages \<and>
    (\<forall>i < 2 * 2 ^ stages. is_i16 (fst (WebRtcSpl_ComplexIFFT x stages mode) ! i))"
  using ComplexIFFT_in_range [OF assms refl] by simp_all

theorem inverse_fft_never_overflows_witness:
  "WebRtcSpl_ComplexIFFT [32767, -32768, -32768, 32767] 1 1 = ifft_exact [32767, -32768, -32768, 32767] 1 1"
  using inverse_fft_never_overflows [of 1 "[32767, -32768, -32768, 32767]" 1]
  by (simp add: all_nat_less_4 is_i16_def)

text \<open>C31: The high-accuracy mode of \<open>WebRtcSpl_ComplexFFT\<close> does not overflow when no input has a magnitude above 32760, as
  for a real signal below 32760: it computes what the passes compute on unbounded integers, although a pass adds
  two numbers, because each halves its result and the twiddle factors do not lengthen a vector.\<close>

theorem forward_fft_in_range:
  assumes "stages \<le> 10" "2 * 2 ^ stages \<le> length x" "mode \<noteq> 0"
    and "\<forall>i < 2 ^ stages. (x ! (2 * i)) * (x ! (2 * i)) + (x ! (2 * i + 1)) * (x ! (2 * i + 1)) \<le> 32760 * 32760"
  shows "WebRtcSpl_ComplexFFT x stages mode = (fft_exact x stages, 0) \<and>
    (\<forall>i < 2 * 2 ^ stages. is_i16 (fst (WebRtcSpl_ComplexFFT x stages mode) ! i))"
proof -
  have B: "32760 + real stages * 3 / 4 < 32768" using assms(1) by simp
  have "\<forall>i < 2 ^ stages. elem_norm 32760 (celem x i)"
    using assms(4) cnorm_square [of 32760] by (simp add: elem_norm_def celem_def)
  note r = ComplexFFT_in_range [OF assms(1,2) this assms(3) B]
  have "\<forall>i < 2 ^ stages. elem_i16 (celem (fft_exact x stages) i)"
  proof (intro allI impI)
    fix i :: nat assume "i < 2 ^ stages"
    then have "cnorm (celem (fft_exact x stages) i) < 32768" using r(3) B by (auto simp: elem_norm_def)
    then show "elem_i16 (celem (fft_exact x stages) i)"
      using norm_elem_i16 by (cases "celem (fft_exact x stages) i") (simp add: elem_i16_def)
  qed
  then show ?thesis unfolding elem_all_nth r(1) by simp
qed

theorem forward_fft_in_range_witness:
  "WebRtcSpl_ComplexFFT [32760, 0, -32760, 0] 1 1 = (fft_exact [32760, 0, -32760, 0] 1, 0)"
  using forward_fft_in_range [of 1 "[32760, 0, -32760, 0]" 1] by (simp add: all_nat_less_2)

end
