(* ===== verification/Float32.thy ===== *)
theory Float32
  imports Complex_Main SplInline
begin

text \<open>
  The single-precision arithmetic that a few fixed-point modules use for a ratio or a weight. A value of type
  \<open>float\<close> is the rational number it stands for, and every operation of the code is followed by \<open>fl32\<close>, the rounding
  to 24 significant bits, ties to even, of IEEE 754. Exponents are not bounded: the modules that use this theory
  stay far from overflow and from subnormal numbers. The compilers are assumed to evaluate \<open>float\<close> expressions in single
  precision, without contracting a product and a sum.
\<close>

definition pow2 :: "int \<Rightarrow> rat" where
  "pow2 e = (if 0 \<le> e then 2 ^ nat e else 1 / 2 ^ nat (- e))"

definition round_half_even :: "rat \<Rightarrow> int" where
  "round_half_even x =
     (let f = \<lfloor>x\<rfloor>; d = x - of_int f
      in if d < 1 / 2 then f else if d > 1 / 2 then f + 1 else if even f then f else f + 1)"

text \<open>The exponent: the integer \<open>e\<close> with \<open>2 ^ e \<le> x < 2 ^ (e + 1)\<close>, for positive \<open>x\<close>.\<close>

definition binary_exponent :: "rat \<Rightarrow> int" where
  "binary_exponent x =
     (if 1 \<le> x then int (bit_size (nat \<lfloor>x\<rfloor>)) - 1 else - int (bit_size (nat (\<lceil>1 / x\<rceil> - 1))))"

definition fl32 :: "rat \<Rightarrow> rat" where
  "fl32 x =
     (if x = 0 then 0
      else let e = binary_exponent \<bar>x\<bar> - 23 in of_int (round_half_even (x / pow2 e)) * pow2 e)"

lemma pow2_pos: "0 < pow2 e"
  by (simp add: pow2_def)

lemma pow2_add: "pow2 (a + b) = pow2 a * pow2 b"
proof -
  have *: "(2 :: rat) ^ nat (- b) * 2 ^ nat (a + b) = 2 ^ nat a" if "b < 0" "0 \<le> a + b" for a b :: int
  proof -
    have "nat (- b) + nat (a + b) = nat a" using that by linarith
    then show ?thesis by (simp flip: power_add)
  qed
  have **: "(2 :: rat) ^ nat (- (a + b)) * 2 ^ nat a = 2 ^ nat (- b)" if "0 \<le> a" "a + b < 0" for a b :: int
  proof -
    have "nat (- (a + b)) + nat a = nat (- b)" using that by linarith
    then show ?thesis by (simp flip: power_add)
  qed
  have "0 \<le> a \<Longrightarrow> 0 \<le> b \<Longrightarrow> ?thesis" by (simp add: pow2_def nat_add_distrib power_add)
  moreover have "a < 0 \<Longrightarrow> b < 0 \<Longrightarrow> ?thesis"
  proof -
    assume "a < 0" "b < 0"
    then have "nat (- (a + b)) = nat (- a) + nat (- b)" by linarith
    with \<open>a < 0\<close> \<open>b < 0\<close> show ?thesis by (simp add: pow2_def power_add)
  qed
  moreover have "0 \<le> a \<Longrightarrow> b < 0 \<Longrightarrow> ?thesis"
    using * [of b a] ** [of a b] by (simp add: pow2_def field_simps)
  moreover have "a < 0 \<Longrightarrow> 0 \<le> b \<Longrightarrow> ?thesis"
    using * [of a b] ** [of b a] by (simp add: pow2_def field_simps add.commute)
  ultimately show ?thesis by linarith
qed

lemma round_half_even_of_int: "round_half_even (of_int k) = k"
  by (simp add: round_half_even_def)

lemma round_half_even_bounds: "\<lfloor>x\<rfloor> \<le> round_half_even x" "round_half_even x \<le> \<lceil>x\<rceil>"
proof -
  have "\<lceil>x\<rceil> = \<lfloor>x\<rfloor> + 1" if "x - of_int \<lfloor>x\<rfloor> \<noteq> 0" using that by (simp add: ceiling_altdef)
  then show "\<lfloor>x\<rfloor> \<le> round_half_even x" "round_half_even x \<le> \<lceil>x\<rceil>"
    by (auto simp: round_half_even_def Let_def floor_le_ceiling)
qed

lemma fl32_0 [simp]: "fl32 0 = 0"
  by (simp add: fl32_def)

text \<open>Rounding keeps the sign.\<close>

lemma fl32_nonneg: "0 \<le> x \<Longrightarrow> 0 \<le> fl32 x"
proof -
  assume "0 \<le> x"
  then have "0 \<le> \<lfloor>x / pow2 e\<rfloor>" for e using pow2_pos [of e] by simp
  then have "0 \<le> round_half_even (x / pow2 e)" for e using round_half_even_bounds(1) order_trans by blast
  then show ?thesis using pow2_pos by (simp add: fl32_def Let_def less_imp_le)
qed

end
