(* ===== verification/DelayEstimator.thy ===== *)
theory DelayEstimator
  imports Float32
begin

text \<open>
  The delay estimator of the echo cancellers: \<open>utility/delay_estimator.cc\<close> and the fixed-point part of
  \<open>utility/delay_estimator_wrapper.cc\<close>. A spectrum becomes 32 bits, one per band, by a comparison with its running mean;
  the bits of the near end are compared with those of the last \<open>history_size\<close> far-end blocks, and the delay with the
  smallest smoothed number of different bits is the candidate.

  The far-end object is shared by pointer between the far-end wrapper and the estimators: here every function that
  reads it takes it as an argument. The histogram of the robust validation has type \<open>float\<close>, see theory Float32. An
  array access outside its array is the result \<open>None\<close>.
\<close>

section \<open>State\<close>

definition kMaxBitCountsQ9 :: int where "kMaxBitCountsQ9 = 16384"
definition kShiftsAtZero :: int where "kShiftsAtZero = 13"
definition kShiftsLinearSlope :: int where "kShiftsLinearSlope = 3"
definition kProbabilityOffset :: int where "kProbabilityOffset = 1024"
definition kProbabilityLowerLimit :: int where "kProbabilityLowerLimit = 8704"
definition kProbabilityMinSpread :: int where "kProbabilityMinSpread = 2816"
definition kHistogramMax :: rat where "kHistogramMax = 3000"
definition kLastHistogramMax :: rat where "kLastHistogramMax = 250"
definition kMinHistogramThreshold :: rat where "kMinHistogramThreshold = 3 / 2"
definition kMinRequiredHits :: int where "kMinRequiredHits = 10"
definition kMaxHitsWhenPossiblyNonCausal :: int where "kMaxHitsWhenPossiblyNonCausal = 10"
definition kMaxHitsWhenPossiblyCausal :: int where "kMaxHitsWhenPossiblyCausal = 1000"
definition kQ14Scaling :: rat where "kQ14Scaling = 1 / 16384"
definition kFractionSlope :: rat where "kFractionSlope = fl32 (5 / 100)"
definition kMinFractionWhenPossiblyCausal :: rat where "kMinFractionWhenPossiblyCausal = 1 / 2"
definition kMinFractionWhenPossiblyNonCausal :: rat where "kMinFractionWhenPossiblyNonCausal = 1 / 4"

record BinaryDelayEstimatorFarend =
  far_bit_counts :: "int list"
  binary_far_history :: "int list"
  far_history_size :: int

record BinaryDelayEstimator =
  mean_bit_counts :: "int list"
  bit_counts :: "int list"
  binary_near_history :: "int list"
  near_history_size :: int
  history_size :: int
  minimum_probability :: int
  last_delay_probability :: int
  last_delay :: int
  robust_validation_enabled :: int
  allowed_offset :: int
  last_candidate_delay :: int
  compare_delay :: int
  candidate_hits :: int
  histogram :: "rat list"
  last_delay_histogram :: rat
  lookahead :: int

section \<open>Bit counts\<close>

definition BitCount :: "int \<Rightarrow> int" where
  "BitCount u32 =
     (let tmp = to_u32 (u32 - (shr u32 1 AND 0xDB6DB6DB) - (shr u32 2 AND 0x49249249));
          tmp = to_u32 (tmp + shr tmp 3) AND 0xC71C71C7;
          tmp = to_u32 (tmp + shr tmp 6);
          tmp = to_u32 (tmp + shr tmp 12 + shr tmp 24) AND 63
      in tmp)"

definition BitCountComparison :: "int \<Rightarrow> int list \<Rightarrow> int \<Rightarrow> int list \<Rightarrow> int list" where
  "BitCountComparison binary_vector binary_matrix matrix_size counts =
     fold (\<lambda>n counts. counts[n := BitCount (binary_vector XOR binary_matrix ! n)]) [0..<nat matrix_size] counts"

definition WebRtc_MeanEstimatorFix :: "int \<Rightarrow> nat \<Rightarrow> int \<Rightarrow> int" where
  "WebRtc_MeanEstimatorFix new_value factor mean_value =
     (let diff = to_i32 (new_value - mean_value);
          diff = (if diff < 0 then - shr (- diff) factor else shr diff factor)
      in to_i32 (mean_value + diff))"

section \<open>Robust validation\<close>

text \<open>The update of one bin: what is subtracted, and the limit at zero.\<close>

definition histogram_bin :: "int \<Rightarrow> int \<Rightarrow> rat \<Rightarrow> rat \<Rightarrow> int \<Rightarrow> rat \<Rightarrow> rat" where
  "histogram_bin candidate_delay last_set valley_depth decrease_in_last_set i h =
     (let is_in_last_set = i \<ge> last_set - 2 \<and> i \<le> last_set + 1 \<and> i \<noteq> candidate_delay;
          is_in_candidate_set = i \<ge> candidate_delay - 2 \<and> i \<le> candidate_delay + 1;
          h = fl32 (h - fl32 (fl32 (decrease_in_last_set * (if is_in_last_set then 1 else 0)) +
                              fl32 (valley_depth * (if \<not> is_in_last_set \<and> \<not> is_in_candidate_set then 1 else 0))))
      in if h < 0 then 0 else h)"

definition UpdateRobustValidationStatistics ::
    "BinaryDelayEstimator \<Rightarrow> int \<Rightarrow> int \<Rightarrow> int \<Rightarrow> BinaryDelayEstimator option" where
  "UpdateRobustValidationStatistics self candidate_delay valley_depth_q14 valley_level_q14 =
     (if candidate_delay < 0 \<or> int (length (histogram self)) \<le> candidate_delay then None
      else
        let valley_depth = fl32 (fl32 (of_int valley_depth_q14) * kQ14Scaling);
            max_hits_for_slow_change =
              (if candidate_delay < last_delay self then kMaxHitsWhenPossiblyNonCausal
               else kMaxHitsWhenPossiblyCausal);
            self = (if candidate_delay \<noteq> last_candidate_delay self
                    then self\<lparr>candidate_hits := 0, last_candidate_delay := candidate_delay\<rparr> else self);
            self = self\<lparr>candidate_hits := to_i32 (candidate_hits self + 1)\<rparr>;
            c = nat candidate_delay;
            h = fl32 (histogram self ! c + valley_depth);
            hist = (histogram self)[c := if h > kHistogramMax then kHistogramMax else h];
            decrease_in_last_set =
              (if candidate_hits self < max_hits_for_slow_change
               then fl32 (fl32 (of_int (mean_bit_counts self ! nat (compare_delay self) - valley_level_q14)) * kQ14Scaling)
               else valley_depth);
            hist = fold (\<lambda>i hist. hist[i := histogram_bin candidate_delay (last_delay self) valley_depth
                                             decrease_in_last_set (int i) (hist ! i)])
                     [0..<nat (history_size self)] hist
        in Some (self\<lparr>histogram := hist\<rparr>))"

definition HistogramBasedValidation :: "BinaryDelayEstimator \<Rightarrow> int \<Rightarrow> bool" where
  "HistogramBasedValidation self candidate_delay =
     (let histogram_threshold = histogram self ! nat (compare_delay self);
          delay_difference = candidate_delay - last_delay self;
          fraction =
            (if delay_difference > allowed_offset self then
               let fraction = fl32 (1 - fl32 (kFractionSlope * fl32 (of_int (delay_difference - allowed_offset self))))
               in if fraction > kMinFractionWhenPossiblyCausal then fraction else kMinFractionWhenPossiblyCausal
             else if delay_difference < 0 then
               let fraction = fl32 (kMinFractionWhenPossiblyNonCausal -
                                    fl32 (kFractionSlope * fl32 (of_int delay_difference)))
               in if fraction > 1 then 1 else fraction
             else 1);
          histogram_threshold = fl32 (histogram_threshold * fraction);
          histogram_threshold =
            (if histogram_threshold > kMinHistogramThreshold then histogram_threshold else kMinHistogramThreshold)
      in histogram self ! nat candidate_delay \<ge> histogram_threshold \<and> candidate_hits self > kMinRequiredHits)"

definition RobustValidation :: "BinaryDelayEstimator \<Rightarrow> int \<Rightarrow> bool \<Rightarrow> bool \<Rightarrow> bool" where
  "RobustValidation self candidate_delay is_instantaneous_valid is_histogram_valid =
     (let is_robust = last_delay self < 0 \<and> (is_instantaneous_valid \<or> is_histogram_valid);
          is_robust = (is_robust \<or> is_instantaneous_valid \<and> is_histogram_valid)
      in is_robust \<or> is_histogram_valid \<and> histogram self ! nat candidate_delay > last_delay_histogram self)"

section \<open>Far end\<close>

text \<open>\<open>realloc\<close> returns a block of the requested size whose prefix is the old contents, or null.\<close>

definition WebRtc_AllocateFarendBufferMemory ::
    "(int list \<Rightarrow> nat \<Rightarrow> int list option) \<Rightarrow> (int list \<Rightarrow> nat \<Rightarrow> int list option) \<Rightarrow>
     BinaryDelayEstimatorFarend \<Rightarrow> int \<Rightarrow> BinaryDelayEstimatorFarend \<times> int" where
  "WebRtc_AllocateFarendBufferMemory realloc1 realloc2 self hsize =
     (let p = realloc1 (binary_far_history self) (nat hsize);
          q = realloc2 (far_bit_counts self) (nat hsize);
          hsize = (if p = None \<or> q = None then 0 else hsize);
          old = nat (far_history_size self);
          zeros = replicate (nat hsize - old) 0;
          clear = (\<lambda>xs. if hsize > far_history_size self then blit old zeros xs else xs)
      in (self\<lparr>binary_far_history := clear (case p of None \<Rightarrow> [] | Some xs \<Rightarrow> xs),
               far_bit_counts := clear (case q of None \<Rightarrow> [] | Some xs \<Rightarrow> xs),
               far_history_size := hsize\<rparr>, hsize))"

definition WebRtc_CreateBinaryDelayEstimatorFarend ::
    "bool \<Rightarrow> (int list \<Rightarrow> nat \<Rightarrow> int list option) \<Rightarrow> (int list \<Rightarrow> nat \<Rightarrow> int list option) \<Rightarrow> int \<Rightarrow>
     BinaryDelayEstimatorFarend option" where
  "WebRtc_CreateBinaryDelayEstimatorFarend malloc realloc1 realloc2 hsize =
     (if \<not> (hsize > 1 \<and> malloc) then None
      else let self = \<lparr>far_bit_counts = [], binary_far_history = [], far_history_size = 0\<rparr>;
               (self, r) = WebRtc_AllocateFarendBufferMemory realloc1 realloc2 self hsize
           in if r = 0 then None else Some self)"

definition WebRtc_InitBinaryDelayEstimatorFarend :: "BinaryDelayEstimatorFarend \<Rightarrow> BinaryDelayEstimatorFarend" where
  "WebRtc_InitBinaryDelayEstimatorFarend self =
     self\<lparr>binary_far_history := blit 0 (replicate (nat (far_history_size self)) 0) (binary_far_history self),
          far_bit_counts := blit 0 (replicate (nat (far_history_size self)) 0) (far_bit_counts self)\<rparr>"

text \<open>\<open>memmove\<close> of a part of an array, then \<open>memset\<close> of another part.\<close>

definition shift_array :: "nat \<Rightarrow> nat \<Rightarrow> nat \<Rightarrow> nat \<Rightarrow> nat \<Rightarrow> int list \<Rightarrow> int list" where
  "shift_array dest src sz pad n xs = blit pad (replicate n 0) (blit dest (take sz (drop src xs)) xs)"

definition WebRtc_SoftResetBinaryDelayEstimatorFarend ::
    "BinaryDelayEstimatorFarend \<Rightarrow> int \<Rightarrow> BinaryDelayEstimatorFarend" where
  "WebRtc_SoftResetBinaryDelayEstimatorFarend self delay_shift =
     (let abs_shift = \<bar>delay_shift\<bar>;
          shift_size = far_history_size self - abs_shift
      in if delay_shift = 0 then self
         else
           let dest_index = (if delay_shift > 0 then abs_shift else 0);
               src_index = (if delay_shift > 0 then 0 else abs_shift);
               padding_index = (if delay_shift > 0 then 0 else shift_size);
               mv = shift_array (nat dest_index) (nat src_index) (nat shift_size) (nat padding_index) (nat abs_shift)
           in self\<lparr>binary_far_history := mv (binary_far_history self), far_bit_counts := mv (far_bit_counts self)\<rparr>)"

definition WebRtc_AddBinaryFarSpectrum :: "BinaryDelayEstimatorFarend \<Rightarrow> int \<Rightarrow> BinaryDelayEstimatorFarend" where
  "WebRtc_AddBinaryFarSpectrum handle binary_far_spectrum =
     (let n = nat (far_history_size handle) - 1;
          hist = blit 1 (take n (binary_far_history handle)) (binary_far_history handle);
          counts = blit 1 (take n (far_bit_counts handle)) (far_bit_counts handle)
      in handle\<lparr>binary_far_history := hist[0 := binary_far_spectrum],
                far_bit_counts := counts[0 := BitCount binary_far_spectrum]\<rparr>)"

section \<open>Near end\<close>

definition WebRtc_AllocateHistoryBufferMemory ::
    "(int list \<Rightarrow> nat \<Rightarrow> int list option) \<Rightarrow> (int list \<Rightarrow> nat \<Rightarrow> int list option) \<Rightarrow>
     (int list \<Rightarrow> nat \<Rightarrow> int list option) \<Rightarrow> (int list \<Rightarrow> nat \<Rightarrow> int list option) \<Rightarrow>
     (rat list \<Rightarrow> nat \<Rightarrow> rat list option) \<Rightarrow> BinaryDelayEstimatorFarend \<Rightarrow> BinaryDelayEstimator \<Rightarrow> int \<Rightarrow>
     BinaryDelayEstimatorFarend \<times> BinaryDelayEstimator \<times> int" where
  "WebRtc_AllocateHistoryBufferMemory realloc1 realloc2 realloc3 realloc4 realloc5 far self hsize =
     (let (far, hsize) = (if hsize \<noteq> far_history_size far
                          then WebRtc_AllocateFarendBufferMemory realloc1 realloc2 far hsize else (far, hsize));
          p = realloc3 (mean_bit_counts self) (nat hsize + 1);
          q = realloc4 (bit_counts self) (nat hsize);
          r = realloc5 (histogram self) (nat hsize + 1);
          hsize = (if p = None \<or> q = None \<or> r = None then 0 else hsize);
          old = nat (history_size self);
          size_diff = nat hsize - old;
          grown = hsize > history_size self;
          contents = (\<lambda>x. case x of None \<Rightarrow> [] | Some xs \<Rightarrow> xs);
          clear = (\<lambda>xs. if grown then blit old (replicate size_diff 0) xs else xs)
      in (far, self\<lparr>mean_bit_counts := clear (contents p), bit_counts := clear (contents q),
                    histogram := (let xs = (case r of None \<Rightarrow> [] | Some xs \<Rightarrow> xs)
                                  in if grown then blit old (replicate size_diff 0) xs else xs),
                    history_size := hsize\<rparr>, hsize))"

text \<open>\<open>fresh\<close> is the memory \<open>malloc\<close> returns, \<open>near\<close> the array of the near-end history.\<close>

definition WebRtc_CreateBinaryDelayEstimator ::
    "BinaryDelayEstimator option \<Rightarrow> int list option \<Rightarrow>
     (int list \<Rightarrow> nat \<Rightarrow> int list option) \<Rightarrow> (int list \<Rightarrow> nat \<Rightarrow> int list option) \<Rightarrow>
     (rat list \<Rightarrow> nat \<Rightarrow> rat list option) \<Rightarrow> BinaryDelayEstimatorFarend option \<Rightarrow> int \<Rightarrow>
     BinaryDelayEstimator option" where
  "WebRtc_CreateBinaryDelayEstimator fresh near realloc3 realloc4 realloc5 farend max_lookahead =
     (case (farend, fresh) of
        (Some far, Some self) \<Rightarrow>
          if max_lookahead < 0 then None
          else
            let self = self\<lparr>near_history_size := max_lookahead + 1, history_size := 0,
                            robust_validation_enabled := 0, allowed_offset := 0, lookahead := max_lookahead,
                            mean_bit_counts := [], bit_counts := [], histogram := []\<rparr>
            in (case near of
                  None \<Rightarrow> None
                | Some xs \<Rightarrow>
                    let (far, self, r) = WebRtc_AllocateHistoryBufferMemory (\<lambda>_ _. None) (\<lambda>_ _. None)
                          realloc3 realloc4 realloc5 far (self\<lparr>binary_near_history := xs\<rparr>) (far_history_size far)
                    in if r = 0 then None else Some self)
      | _ \<Rightarrow> None)"

definition WebRtc_InitBinaryDelayEstimator :: "BinaryDelayEstimator \<Rightarrow> BinaryDelayEstimator" where
  "WebRtc_InitBinaryDelayEstimator self =
     (let n = nat (history_size self)
      in self\<lparr>bit_counts := blit 0 (replicate n 0) (bit_counts self),
              binary_near_history := blit 0 (replicate (nat (near_history_size self)) 0) (binary_near_history self),
              mean_bit_counts := blit 0 (replicate (n + 1) 10240) (mean_bit_counts self),
              histogram := blit 0 (replicate (n + 1) 0) (histogram self),
              minimum_probability := kMaxBitCountsQ9,
              last_delay_probability := kMaxBitCountsQ9,
              last_delay := - 2,
              last_candidate_delay := - 2,
              compare_delay := history_size self,
              candidate_hits := 0,
              last_delay_histogram := 0\<rparr>)"

definition WebRtc_SoftResetBinaryDelayEstimator :: "BinaryDelayEstimator \<Rightarrow> int \<Rightarrow> BinaryDelayEstimator \<times> int" where
  "WebRtc_SoftResetBinaryDelayEstimator self delay_shift =
     (let old = lookahead self;
          l = lookahead self - delay_shift;
          l = (if l < 0 then 0 else l);
          l = (if l > near_history_size self - 1 then near_history_size self - 1 else l)
      in (self\<lparr>lookahead := l\<rparr>, old - l))"

text \<open>The parts of \<open>WebRtc_ProcessBinarySpectrum\<close>: the look-ahead queue of the near end, the smoothing of the
  counts, the search, the thresholds, and the update of the estimate.\<close>

definition near_lookahead :: "BinaryDelayEstimator \<Rightarrow> int \<Rightarrow> BinaryDelayEstimator \<times> int" where
  "near_lookahead self binary_near_spectrum =
     (if near_history_size self > 1 then
        let hist = blit 1 (take (nat (near_history_size self) - 1) (binary_near_history self)) (binary_near_history self);
            hist = hist[0 := binary_near_spectrum]
        in (self\<lparr>binary_near_history := hist\<rparr>, hist ! nat (lookahead self))
      else (self, binary_near_spectrum))"

definition smooth_bit_counts :: "BinaryDelayEstimatorFarend \<Rightarrow> BinaryDelayEstimator \<Rightarrow> BinaryDelayEstimator" where
  "smooth_bit_counts far self =
     self\<lparr>mean_bit_counts :=
       fold (\<lambda>i means.
         let bit_count = shl (bit_counts self ! i) 9
         in if far_bit_counts far ! i > 0 then
              let shifts = kShiftsAtZero - shr (kShiftsLinearSlope * far_bit_counts far ! i) 4
              in means[i := WebRtc_MeanEstimatorFix bit_count (nat shifts) (means ! i)]
            else means) [0..<nat (history_size self)] (mean_bit_counts self)\<rparr>"

definition search_candidate :: "BinaryDelayEstimator \<Rightarrow> int \<times> int \<times> int" where
  "search_candidate self =
     fold (\<lambda>i (candidate_delay, value_best_candidate, value_worst_candidate).
       let m = mean_bit_counts self ! i;
           (candidate_delay, value_best_candidate) =
             (if m < value_best_candidate then (int i, m) else (candidate_delay, value_best_candidate));
           value_worst_candidate = (if m > value_worst_candidate then m else value_worst_candidate)
       in (candidate_delay, value_best_candidate, value_worst_candidate))
     [0..<nat (history_size self)] (- 1, kMaxBitCountsQ9, 0)"

definition update_minimum_probability :: "BinaryDelayEstimator \<Rightarrow> int \<Rightarrow> int \<Rightarrow> BinaryDelayEstimator" where
  "update_minimum_probability self valley_depth value_best_candidate =
     (if minimum_probability self > kProbabilityLowerLimit \<and> valley_depth > kProbabilityMinSpread then
        let threshold = value_best_candidate + kProbabilityOffset;
            threshold = (if threshold < kProbabilityLowerLimit then kProbabilityLowerLimit else threshold)
        in if minimum_probability self > threshold then self\<lparr>minimum_probability := threshold\<rparr> else self
      else self)"

definition accept_candidate :: "BinaryDelayEstimator \<Rightarrow> int \<Rightarrow> int \<Rightarrow> BinaryDelayEstimator" where
  "accept_candidate self candidate_delay value_best_candidate =
     (let self =
        (if candidate_delay \<noteq> last_delay self then
           let h = histogram self ! nat candidate_delay;
               self = self\<lparr>last_delay_histogram := if h > kLastHistogramMax then kLastHistogramMax else h\<rparr>
           in if h < histogram self ! nat (compare_delay self)
              then self\<lparr>histogram := (histogram self)[nat (compare_delay self) := h]\<rparr> else self
         else self);
          self = self\<lparr>last_delay := candidate_delay\<rparr>;
          self = (if value_best_candidate < last_delay_probability self
                  then self\<lparr>last_delay_probability := value_best_candidate\<rparr> else self)
      in self\<lparr>compare_delay := last_delay self\<rparr>)"

definition robust_valid :: "BinaryDelayEstimator \<Rightarrow> int \<Rightarrow> bool \<Rightarrow> bool" where
  "robust_valid self candidate_delay valid_candidate =
     (if robust_validation_enabled self \<noteq> 0
      then RobustValidation self candidate_delay valid_candidate (HistogramBasedValidation self candidate_delay)
      else valid_candidate)"

definition update_estimate ::
    "BinaryDelayEstimatorFarend \<Rightarrow> BinaryDelayEstimator \<Rightarrow> int \<Rightarrow> int \<Rightarrow> int \<Rightarrow> (BinaryDelayEstimator \<times> int) option" where
  "update_estimate far self candidate_delay value_best_candidate value_worst_candidate =
     (let valley_depth = value_worst_candidate - value_best_candidate;
          self = update_minimum_probability self valley_depth value_best_candidate;
          self = self\<lparr>last_delay_probability := to_i32 (last_delay_probability self + 1)\<rparr>;
          valid_candidate = (valley_depth > kProbabilityOffset \<and>
            (value_best_candidate < minimum_probability self \<or> value_best_candidate < last_delay_probability self));
          non_stationary_farend = list_ex (\<lambda>a. a > 0) (take (nat (history_size self)) (far_bit_counts far))
      in (case (if non_stationary_farend
                then UpdateRobustValidationStatistics self candidate_delay valley_depth value_best_candidate
                else Some self) of
            None \<Rightarrow> None
          | Some self \<Rightarrow>
              if robust_validation_enabled self \<noteq> 0 \<and> candidate_delay < 0 then None
              else
                let self = (if non_stationary_farend \<and> robust_valid self candidate_delay valid_candidate
                            then accept_candidate self candidate_delay value_best_candidate else self)
                in Some (self, last_delay self)))"

definition WebRtc_ProcessBinarySpectrum ::
    "BinaryDelayEstimatorFarend \<Rightarrow> BinaryDelayEstimator \<Rightarrow> int \<Rightarrow> (BinaryDelayEstimator \<times> int) option" where
  "WebRtc_ProcessBinarySpectrum far self binary_near_spectrum =
     (if far_history_size far \<noteq> history_size self then Some (self, - 1)
      else
        let (self, near) = near_lookahead self binary_near_spectrum;
            self = self\<lparr>bit_counts := BitCountComparison near (binary_far_history far) (history_size self) (bit_counts self)\<rparr>;
            self = smooth_bit_counts far self;
            (candidate_delay, value_best_candidate, value_worst_candidate) = search_candidate self
        in update_estimate far self candidate_delay value_best_candidate value_worst_candidate)"

definition WebRtc_binary_last_delay :: "BinaryDelayEstimator \<Rightarrow> int" where
  "WebRtc_binary_last_delay self = last_delay self"

definition WebRtc_binary_last_delay_quality :: "BinaryDelayEstimator \<Rightarrow> rat" where
  "WebRtc_binary_last_delay_quality self =
     (if robust_validation_enabled self \<noteq> 0 then
        fl32 (histogram self ! nat (compare_delay self) / kHistogramMax)
      else
        let quality = fl32 (fl32 (of_int (kMaxBitCountsQ9 - last_delay_probability self)) / fl32 (of_int kMaxBitCountsQ9))
        in if quality < 0 then 0 else quality)"


section \<open>The wrapper for spectra\<close>

definition kBandFirst :: nat where "kBandFirst = 12"
definition kBandLast :: nat where "kBandLast = 43"

text \<open>The union \<open>SpectrumType\<close> holds an \<open>int32_t\<close> in the fixed-point functions.\<close>

record DelayEstimatorFarend =
  mean_far_spectrum :: "int list"
  far_spectrum_initialized :: int
  far_spectrum_size :: int
  binary_farend :: BinaryDelayEstimatorFarend

record DelayEstimator =
  mean_near_spectrum :: "int list"
  near_spectrum_initialized :: int
  spectrum_size :: int
  binary_handle :: BinaryDelayEstimator

definition SetBit :: "int \<Rightarrow> nat \<Rightarrow> int" where
  "SetBit i pos = i OR to_u32 (shl 1 pos)"

text \<open>The thresholds start at half the first spectrum; the result of \<open>BinarySpectrumFix\<close> is the bits, the thresholds
  and the flag.\<close>

definition threshold_start :: "int list \<Rightarrow> nat \<Rightarrow> int list \<Rightarrow> int list \<times> int" where
  "threshold_start spectrum sh thresholds =
     fold (\<lambda>i (thresholds, flag).
       if spectrum ! i > 0 then
         let spectrum_q15 = to_i32 (shl (spectrum ! i) sh) in (thresholds[i := shr spectrum_q15 1], 1)
       else (thresholds, flag)) [kBandFirst..<kBandLast + 1] (thresholds, 0)"

definition BinarySpectrumFix :: "int list \<Rightarrow> int list \<Rightarrow> int \<Rightarrow> int \<Rightarrow> int \<times> int list \<times> int" where
  "BinarySpectrumFix spectrum threshold_spectrum q_domain threshold_initialized =
     (let sh = nat (15 - q_domain);
          (threshold_spectrum, threshold_initialized) =
            (if threshold_initialized = 0 then threshold_start spectrum sh threshold_spectrum
             else (threshold_spectrum, threshold_initialized));
          (out, threshold_spectrum) =
            fold (\<lambda>i (out, thresholds).
              let spectrum_q15 = to_i32 (shl (spectrum ! i) sh);
                  thresholds = thresholds[i := WebRtc_MeanEstimatorFix spectrum_q15 6 (thresholds ! i)]
              in (if spectrum_q15 > thresholds ! i then SetBit out (i - kBandFirst) else out, thresholds))
            [kBandFirst..<kBandLast + 1] (0, threshold_spectrum)
      in (out, threshold_spectrum, threshold_initialized))"

definition WebRtc_CreateDelayEstimatorFarend ::
    "DelayEstimatorFarend option \<Rightarrow> BinaryDelayEstimatorFarend option \<Rightarrow> int list option \<Rightarrow> int \<Rightarrow>
     DelayEstimatorFarend option" where
  "WebRtc_CreateDelayEstimatorFarend fresh farend mean sz =
     (if sz < int kBandLast then None
      else (case (fresh, farend, mean) of
              (Some self, Some far, Some xs) \<Rightarrow>
                Some (self\<lparr>binary_farend := far, mean_far_spectrum := xs, far_spectrum_size := sz\<rparr>)
            | _ \<Rightarrow> None))"

definition WebRtc_InitDelayEstimatorFarend :: "DelayEstimatorFarend option \<Rightarrow> DelayEstimatorFarend option \<times> int" where
  "WebRtc_InitDelayEstimatorFarend handle =
     (case handle of
        None \<Rightarrow> (None, - 1)
      | Some self \<Rightarrow>
          (Some (self\<lparr>binary_farend := WebRtc_InitBinaryDelayEstimatorFarend (binary_farend self),
                      mean_far_spectrum := blit 0 (replicate (nat (far_spectrum_size self)) 0) (mean_far_spectrum self),
                      far_spectrum_initialized := 0\<rparr>), 0))"

definition WebRtc_SoftResetDelayEstimatorFarend :: "DelayEstimatorFarend \<Rightarrow> int \<Rightarrow> DelayEstimatorFarend" where
  "WebRtc_SoftResetDelayEstimatorFarend self delay_shift =
     self\<lparr>binary_farend := WebRtc_SoftResetBinaryDelayEstimatorFarend (binary_farend self) delay_shift\<rparr>"

definition WebRtc_AddFarSpectrumFix ::
    "DelayEstimatorFarend option \<Rightarrow> int list option \<Rightarrow> int \<Rightarrow> int \<Rightarrow> DelayEstimatorFarend option \<times> int" where
  "WebRtc_AddFarSpectrumFix handle far_spectrum sz far_q =
     (case (handle, far_spectrum) of
        (Some self, Some spectrum) \<Rightarrow>
          if sz \<noteq> far_spectrum_size self then (handle, - 1)
          else if far_q > 15 then (handle, - 1)
          else
            let (binary_spectrum, thresholds, flag) =
                  BinarySpectrumFix spectrum (mean_far_spectrum self) far_q (far_spectrum_initialized self)
            in (Some (self\<lparr>mean_far_spectrum := thresholds, far_spectrum_initialized := flag,
                           binary_farend := WebRtc_AddBinaryFarSpectrum (binary_farend self) binary_spectrum\<rparr>), 0)
      | _ \<Rightarrow> (handle, - 1))"

definition WebRtc_CreateDelayEstimator ::
    "DelayEstimator option \<Rightarrow> DelayEstimatorFarend option \<Rightarrow> BinaryDelayEstimator option \<Rightarrow> int list option \<Rightarrow>
     DelayEstimator option" where
  "WebRtc_CreateDelayEstimator fresh farend_handle binary mean =
     (case (fresh, farend_handle, binary, mean) of
        (Some self, Some farend, Some b, Some xs) \<Rightarrow>
          Some (self\<lparr>binary_handle := b, mean_near_spectrum := xs, spectrum_size := far_spectrum_size farend\<rparr>)
      | _ \<Rightarrow> None)"

definition WebRtc_InitDelayEstimator :: "DelayEstimator option \<Rightarrow> DelayEstimator option \<times> int" where
  "WebRtc_InitDelayEstimator handle =
     (case handle of
        None \<Rightarrow> (None, - 1)
      | Some self \<Rightarrow>
          (Some (self\<lparr>binary_handle := WebRtc_InitBinaryDelayEstimator (binary_handle self),
                      mean_near_spectrum := blit 0 (replicate (nat (spectrum_size self)) 0) (mean_near_spectrum self),
                      near_spectrum_initialized := 0\<rparr>), 0))"

definition WebRtc_SoftResetDelayEstimator :: "DelayEstimator \<Rightarrow> int \<Rightarrow> DelayEstimator \<times> int" where
  "WebRtc_SoftResetDelayEstimator self delay_shift =
     (let (b, r) = WebRtc_SoftResetBinaryDelayEstimator (binary_handle self) delay_shift
      in (self\<lparr>binary_handle := b\<rparr>, r))"

definition WebRtc_history_size :: "BinaryDelayEstimatorFarend \<Rightarrow> DelayEstimator option \<Rightarrow> int" where
  "WebRtc_history_size far handle =
     (case handle of
        None \<Rightarrow> - 1
      | Some self \<Rightarrow> if far_history_size far \<noteq> history_size (binary_handle self) then - 1
                     else history_size (binary_handle self))"

definition WebRtc_set_lookahead :: "DelayEstimator \<Rightarrow> int \<Rightarrow> DelayEstimator \<times> int" where
  "WebRtc_set_lookahead self l =
     (if l > near_history_size (binary_handle self) - 1 \<or> l < 0 then (self, - 1)
      else (self\<lparr>binary_handle := (binary_handle self)\<lparr>lookahead := l\<rparr>\<rparr>, l))"

definition WebRtc_lookahead :: "DelayEstimator \<Rightarrow> int" where
  "WebRtc_lookahead self = lookahead (binary_handle self)"

definition WebRtc_set_allowed_offset :: "DelayEstimator option \<Rightarrow> int \<Rightarrow> DelayEstimator option \<times> int" where
  "WebRtc_set_allowed_offset handle offset =
     (case handle of
        None \<Rightarrow> (None, - 1)
      | Some self \<Rightarrow> if offset < 0 then (handle, - 1)
                     else (Some (self\<lparr>binary_handle := (binary_handle self)\<lparr>allowed_offset := offset\<rparr>\<rparr>), 0))"

definition WebRtc_get_allowed_offset :: "DelayEstimator option \<Rightarrow> int" where
  "WebRtc_get_allowed_offset handle =
     (case handle of None \<Rightarrow> - 1 | Some self \<Rightarrow> allowed_offset (binary_handle self))"

definition WebRtc_enable_robust_validation :: "DelayEstimator option \<Rightarrow> int \<Rightarrow> DelayEstimator option \<times> int" where
  "WebRtc_enable_robust_validation handle enable =
     (case handle of
        None \<Rightarrow> (None, - 1)
      | Some self \<Rightarrow>
          if enable < 0 \<or> enable > 1 then (handle, - 1)
          else (Some (self\<lparr>binary_handle := (binary_handle self)\<lparr>robust_validation_enabled := enable\<rparr>\<rparr>), 0))"

definition WebRtc_is_robust_validation_enabled :: "DelayEstimator option \<Rightarrow> int" where
  "WebRtc_is_robust_validation_enabled handle =
     (case handle of None \<Rightarrow> - 1 | Some self \<Rightarrow> robust_validation_enabled (binary_handle self))"

definition WebRtc_DelayEstimatorProcessFix ::
    "BinaryDelayEstimatorFarend \<Rightarrow> DelayEstimator option \<Rightarrow> int list option \<Rightarrow> int \<Rightarrow> int \<Rightarrow>
     (DelayEstimator option \<times> int) option" where
  "WebRtc_DelayEstimatorProcessFix far handle near_spectrum sz near_q =
     (case (handle, near_spectrum) of
        (Some self, Some spectrum) \<Rightarrow>
          if sz \<noteq> spectrum_size self then Some (handle, - 1)
          else if near_q > 15 then Some (handle, - 1)
          else
            let (binary_spectrum, thresholds, flag) =
                  BinarySpectrumFix spectrum (mean_near_spectrum self) near_q (near_spectrum_initialized self)
            in (case WebRtc_ProcessBinarySpectrum far (binary_handle self) binary_spectrum of
                  None \<Rightarrow> None
                | Some (b, r) \<Rightarrow>
                    Some (Some (self\<lparr>mean_near_spectrum := thresholds, near_spectrum_initialized := flag,
                                     binary_handle := b\<rparr>), r))
      | _ \<Rightarrow> Some (handle, - 1))"

definition WebRtc_last_delay :: "DelayEstimator option \<Rightarrow> int" where
  "WebRtc_last_delay handle =
     (case handle of None \<Rightarrow> - 1 | Some self \<Rightarrow> WebRtc_binary_last_delay (binary_handle self))"

definition WebRtc_last_delay_quality :: "DelayEstimator \<Rightarrow> rat" where
  "WebRtc_last_delay_quality self = WebRtc_binary_last_delay_quality (binary_handle self)"

definition WebRtc_set_history_size ::
    "(int list \<Rightarrow> nat \<Rightarrow> int list option) \<Rightarrow> (int list \<Rightarrow> nat \<Rightarrow> int list option) \<Rightarrow>
     (int list \<Rightarrow> nat \<Rightarrow> int list option) \<Rightarrow> (int list \<Rightarrow> nat \<Rightarrow> int list option) \<Rightarrow>
     (rat list \<Rightarrow> nat \<Rightarrow> rat list option) \<Rightarrow> BinaryDelayEstimatorFarend \<Rightarrow> DelayEstimator option \<Rightarrow> int \<Rightarrow>
     BinaryDelayEstimatorFarend \<times> DelayEstimator option \<times> int" where
  "WebRtc_set_history_size realloc1 realloc2 realloc3 realloc4 realloc5 far handle hsize =
     (case handle of
        None \<Rightarrow> (far, None, - 1)
      | Some self \<Rightarrow>
          if hsize \<le> 1 then (far, handle, - 1)
          else let (far, b, r) = WebRtc_AllocateHistoryBufferMemory realloc1 realloc2 realloc3 realloc4 realloc5
                                   far (binary_handle self) hsize
               in (far, Some (self\<lparr>binary_handle := b\<rparr>), r))"


section \<open>The bit count\<close>

text \<open>The reference: the sum of the lowest \<open>k\<close> bits.\<close>

fun bit_sum :: "nat \<Rightarrow> int \<Rightarrow> int" where
  "bit_sum 0 u = 0"
| "bit_sum (Suc k) u = u mod 2 + bit_sum k (u div 2)"

lemma bit_sum_bounds: "0 \<le> bit_sum k u" "bit_sum k u \<le> int k"
proof -
  have "0 \<le> bit_sum k u \<and> bit_sum k u \<le> int k"
  proof (induction k arbitrary: u)
    case (Suc k)
    have "0 \<le> u mod 2" "u mod 2 \<le> 1" by simp_all
    with Suc [of "u div 2"] show ?case by simp
  qed simp
  then show "0 \<le> bit_sum k u" "bit_sum k u \<le> int k" by simp_all
qed

lemma bit_sum_add: "bit_sum (j + k) u = bit_sum j u + bit_sum k (u div 2 ^ j)"
  by (induction j arbitrary: u) (simp_all add: div_mult2_eq zdiv_zmult2_eq)

lemma bit_sum_mod: "bit_sum k (u mod 2 ^ k) = bit_sum k u"
proof (induction k arbitrary: u)
  case (Suc k)
  have "u mod 2 ^ Suc k mod 2 = u mod 2" "u mod 2 ^ Suc k div 2 = u div 2 mod 2 ^ k"
    by (simp_all add: mod_mod_cancel zmod_zmult2_eq)
  then show ?case using Suc [of "u div 2"] by simp
qed simp

text \<open>Octal digits: the masks of the code work digit by digit.\<close>

lemma and_low_bit:
  "x = 0 \<or> x = 1 \<Longrightarrow> y = 0 \<or> y = 1 \<Longrightarrow> (x + 2 * a) AND (y + 2 * b) = (x AND y) + 2 * (a AND (b :: int))"
  by (auto simp: and_int_rec [of "x + 2 * a"])

lemma three_bits:
  "0 \<le> r \<Longrightarrow> r < 8 \<Longrightarrow> \<exists>a b c. r = a + 2 * (b + 2 * (c + 2 * (0 :: int))) \<and> (a = 0 \<or> a = 1) \<and> (b = 0 \<or> b = 1) \<and> (c = 0 \<or> c = 1)"
  by (rule exI [of _ "r mod 2"], rule exI [of _ "r div 2 mod 2"], rule exI [of _ "r div 4"]) presburger

lemma and_octal:
  assumes "0 \<le> r" "r < 8" "0 \<le> s" "s < 8"
  shows "(8 * q + r) AND (8 * m + s) = 8 * (q AND m) + (r AND (s :: int))"
proof -
  obtain a b c where r: "r = a + 2 * (b + 2 * (c + 2 * 0))" and abc: "a = 0 \<or> a = 1" "b = 0 \<or> b = 1" "c = 0 \<or> c = 1"
    using three_bits [OF assms(1,2)] by blast
  obtain d e f where s: "s = d + 2 * (e + 2 * (f + 2 * 0))" and "def": "d = 0 \<or> d = 1" "e = 0 \<or> e = 1" "f = 0 \<or> f = 1"
    using three_bits [OF assms(3,4)] by blast
  note step = and_low_bit [OF abc(1) def(1)] and_low_bit [OF abc(2) def(2)] and_low_bit [OF abc(3) def(3)]
  have "8 * q + r = a + 2 * (b + 2 * (c + 2 * q))" "8 * m + s = d + 2 * (e + 2 * (f + 2 * m))" using r s by simp_all
  then have "(8 * q + r) AND (8 * m + s) = (a AND d) + 2 * ((b AND e) + 2 * ((c AND f) + 2 * (q AND m)))"
    by (simp only: step)
  moreover have "r AND s = (a AND d) + 2 * ((b AND e) + 2 * ((c AND f) + 2 * (0 AND 0)))"
    unfolding r s by (simp only: step)
  ultimately show ?thesis by simp
qed

fun octal_mask :: "int \<Rightarrow> nat \<Rightarrow> int" where
  "octal_mask d 0 = 0"
| "octal_mask d (Suc k) = 8 * octal_mask d k + d"

fun octal_weights :: "nat \<Rightarrow> int \<Rightarrow> int" where
  "octal_weights 0 u = 0"
| "octal_weights (Suc k) u = 8 * octal_weights k (u div 8) + bit_sum 3 (u mod 8)"

lemma bit_sum_3: "0 \<le> r \<Longrightarrow> r < 8 \<Longrightarrow> bit_sum 3 r = r - r div 2 - r div 4"
proof -
  assume "0 \<le> r" "r < 8"
  then have "r = 0 \<or> r = 1 \<or> r = 2 \<or> r = 3 \<or> r = 4 \<or> r = 5 \<or> r = 6 \<or> r = 7" by linarith
  then show ?thesis by (elim disjE) (simp_all add: numeral_3_eq_3)
qed

lemma low_mask: "x AND 63 = x mod (64 :: int)" "x AND 7 = x mod (8 :: int)" "x AND 3 = x mod (4 :: int)" "x AND 1 = x mod (2 :: int)"
  using take_bit_eq_mask [of 6 x] take_bit_eq_mask [of 3 x] take_bit_eq_mask [of 2 x] take_bit_eq_mask [of 1 x]
  unfolding take_bit_eq_mod mask_eq_exp_minus_1 by simp_all

lemma small_and:
  "0 \<le> x \<Longrightarrow> x < 8 \<Longrightarrow> x AND 3 = x mod (4 :: int)" "0 \<le> x \<Longrightarrow> x < 8 \<Longrightarrow> x AND 1 = x mod (2 :: int)"
  "0 \<le> x \<Longrightarrow> x < 8 \<Longrightarrow> x AND 7 = (x :: int)"
  by (simp_all add: low_mask)

lemma octal_weights_eq:
  "0 \<le> u \<Longrightarrow> u < 8 ^ k \<Longrightarrow>
   u - (u div 2 AND octal_mask 3 k) - (u div 4 AND octal_mask 1 k) = octal_weights k u"
proof (induction k arbitrary: u)
  case (Suc k)
  define q r where "q = u div 8" and "r = u mod 8"
  have u: "u = 8 * q + r" and r: "0 \<le> r" "r < 8" by (simp_all add: q_def r_def)
  have q: "0 \<le> q" "q < 8 ^ k" using Suc.prems by (simp_all add: q_def int_div_less)
  have h2: "u div 2 = 8 * (q div 2) + (4 * (q mod 2) + r div 2)" and h4: "u div 4 = 8 * (q div 4) + (2 * (q mod 4) + r div 4)"
  proof -
    have "u div 2 = 4 * q + r div 2" "u div 4 = 2 * q + r div 4" unfolding u by simp_all
    moreover have "q = 2 * (q div 2) + q mod 2" "q = 4 * (q div 4) + q mod 4" by simp_all
    ultimately show "u div 2 = 8 * (q div 2) + (4 * (q mod 2) + r div 2)" "u div 4 = 8 * (q div 4) + (2 * (q mod 4) + r div 4)"
      by linarith+
  qed
  have "(u div 2) AND (8 * octal_mask 3 k + 3) = 8 * (q div 2 AND octal_mask 3 k) + r div 2"
  proof -
    have "0 \<le> r div 2" "r div 2 < 4" "0 \<le> q mod 2" "q mod 2 \<le> 1" using r by simp_all
    then have b: "0 \<le> 4 * (q mod 2) + r div 2" "4 * (q mod 2) + r div 2 < 8" "(4 * (q mod 2) + r div 2) mod 4 = r div 2"
      by simp_all
    have c: "(0 :: int) \<le> 3" "(3 :: int) < 8" by simp_all
    show ?thesis unfolding h2 and_octal [OF b(1,2) c] small_and(1) [OF b(1,2)] b(3) ..
  qed
  moreover have "(u div 4) AND (8 * octal_mask 1 k + 1) = 8 * (q div 4 AND octal_mask 1 k) + r div 4"
  proof -
    have "0 \<le> r div 4" "r div 4 < 2" "0 \<le> q mod 4" "q mod 4 \<le> 3" using r by simp_all
    then have b: "0 \<le> 2 * (q mod 4) + r div 4" "2 * (q mod 4) + r div 4 < 8" "(2 * (q mod 4) + r div 4) mod 2 = r div 4"
      by simp_all
    have c: "(0 :: int) \<le> 1" "(1 :: int) < 8" by simp_all
    show ?thesis unfolding h4 and_octal [OF b(1,2) c] small_and(2) [OF b(1,2)] b(3) ..
  qed
  moreover have d: "u div 8 = q" "u mod 8 = r" by (simp_all add: q_def r_def)
  ultimately show ?case
    unfolding octal_mask.simps octal_weights.simps d using Suc.IH [OF q] bit_sum_3 [OF r] u by linarith
qed simp

lemma octal_digits:
  "octal_weights 11 u = bit_sum 3 (u mod 8) + 8 * (bit_sum 3 (u div 8 mod 8) + 8 * (bit_sum 3 (u div 64 mod 8) +
     8 * (bit_sum 3 (u div 512 mod 8) + 8 * (bit_sum 3 (u div 4096 mod 8) + 8 * (bit_sum 3 (u div 32768 mod 8) +
     8 * (bit_sum 3 (u div 262144 mod 8) + 8 * (bit_sum 3 (u div 2097152 mod 8) + 8 * (bit_sum 3 (u div 16777216 mod 8) +
     8 * (bit_sum 3 (u div 134217728 mod 8) + 8 * bit_sum 3 (u div 1073741824 mod 8))))))))))"
proof -
  have "(11 :: nat) = Suc (Suc (Suc (Suc (Suc (Suc (Suc (Suc (Suc (Suc (Suc 0))))))))))" by simp
  then show ?thesis by (simp only: octal_weights.simps zdiv_zmult2_eq [symmetric]) (simp flip: zdiv_zmult2_eq)
qed

lemma bit_sum_digits:
  "bit_sum 33 u = bit_sum 3 (u mod 8) + (bit_sum 3 (u div 8 mod 8) + (bit_sum 3 (u div 64 mod 8) +
     (bit_sum 3 (u div 512 mod 8) + (bit_sum 3 (u div 4096 mod 8) + (bit_sum 3 (u div 32768 mod 8) +
     (bit_sum 3 (u div 262144 mod 8) + (bit_sum 3 (u div 2097152 mod 8) + (bit_sum 3 (u div 16777216 mod 8) +
     (bit_sum 3 (u div 134217728 mod 8) + bit_sum 3 (u div 1073741824 mod 8))))))))))"
proof -
  have m: "bit_sum 3 (v mod 8) = bit_sum 3 v" for v using bit_sum_mod [of 3 v] by simp
  have step: "bit_sum (3 + k) v = bit_sum 3 v + bit_sum k (v div 8)" for k v using bit_sum_add [of 3 k v] by simp
  have "bit_sum 33 u = bit_sum (3 + (3 + (3 + (3 + (3 + (3 + (3 + (3 + (3 + (3 + 3)))))))))) u" by simp
  then show ?thesis by (simp only: step m) (simp flip: zdiv_zmult2_eq)
qed

lemma digit_div: "0 \<le> p \<Longrightarrow> p < 8 \<Longrightarrow> (p + 8 * q) div 8 = (q :: int)"
  by simp

lemma digit_div64: "0 \<le> p \<Longrightarrow> p < 64 \<Longrightarrow> (p + 64 * q) div 64 = (q :: int)"
  by simp

lemma div64: "x div 4096 = x div 64 div (64 :: int)" "x div 16777216 = x div 4096 div 64 div (64 :: int)"
  by (simp_all flip: zdiv_zmult2_eq)

text \<open>The sums of the second half, on the eleven digits.\<close>

lemma pair_sums:
  fixes p0 p1 p2 p3 p4 p5 p6 p7 p8 p9 p10 :: int
  assumes "\<And>p. p \<in> {p0, p1, p2, p3, p4, p5, p6, p7, p8, p9, p10} \<Longrightarrow> 0 \<le> p \<and> p \<le> 3" "p10 \<le> 2"
  defines "t \<equiv> p0 + 8 * (p1 + 8 * (p2 + 8 * (p3 + 8 * (p4 + 8 * (p5 + 8 * (p6 + 8 * (p7 + 8 * (p8 + 8 * (p9 + 8 * p10)))))))))"
  shows "(t + t div 8) AND 0xC71C71C7 =
    (p0 + p1) + 64 * ((p2 + p3) + 64 * ((p4 + p5) + 64 * ((p6 + p7) + 64 * ((p8 + p9) + 64 * p10))))"
proof -
  have b: "0 \<le> p0" "p0 \<le> 3" "0 \<le> p1" "p1 \<le> 3" "0 \<le> p2" "p2 \<le> 3" "0 \<le> p3" "p3 \<le> 3" "0 \<le> p4" "p4 \<le> 3"
    "0 \<le> p5" "p5 \<le> 3" "0 \<le> p6" "p6 \<le> 3" "0 \<le> p7" "p7 \<le> 3" "0 \<le> p8" "p8 \<le> 3" "0 \<le> p9" "p9 \<le> 3" "0 \<le> p10"
    using assms(1) by simp_all
  have d: "t div 8 = p1 + 8 * (p2 + 8 * (p3 + 8 * (p4 + 8 * (p5 + 8 * (p6 + 8 * (p7 + 8 * (p8 + 8 * (p9 + 8 * p10))))))))"
    unfolding t_def by (rule digit_div) (use b in linarith)+
  have s: "t + t div 8 = 8 * (8 * (8 * (8 * (8 * (8 * (8 * (8 * (8 * (8 * p10 + (p9 + p10)) + (p8 + p9)) + (p7 + p8)) +
     (p6 + p7)) + (p5 + p6)) + (p4 + p5)) + (p3 + p4)) + (p2 + p3)) + (p1 + p2)) + (p0 + p1)"
    unfolding d unfolding t_def by simp
  have m: "(0xC71C71C7 :: int) = 8 * (8 * (8 * (8 * (8 * (8 * (8 * (8 * (8 * (8 * 3 + 0) + 7) + 0) + 7) + 0) + 7) + 0) + 7) + 0) + 7"
    by simp
  have "p10 = 0 \<or> p10 = 1 \<or> p10 = 2" using b assms(2) by linarith
  then have "p10 AND 3 = p10" by auto
  then show ?thesis unfolding s m
    by (subst and_octal, use b assms(2) in linarith, use b assms(2) in linarith, simp, simp)+
      (use b assms(2) in \<open>simp add: small_and\<close>)
qed


lemma BitCount_bit_sum:
  assumes "is_u32 u" shows "BitCount u = bit_sum 32 u"
proof -
  have u: "0 \<le> u" "u < 2 ^ 32" using assms by (simp_all add: is_u32_def)
  define p where "p i = bit_sum 3 (u div 8 ^ i mod 8)" for i :: nat
  have p: "0 \<le> p i \<and> p i \<le> 3" for i using bit_sum_bounds [of 3] by (simp add: p_def)
  have p10: "p 10 \<le> 2"
  proof -
    have "0 \<le> u div 8 ^ 10" "u div 8 ^ 10 < 4" using u by (simp_all add: int_div_less)
    then have "u div 8 ^ 10 = 0 \<or> u div 8 ^ 10 = 1 \<or> u div 8 ^ 10 = 2 \<or> u div 8 ^ 10 = 3" by linarith
    then show ?thesis unfolding p_def by (elim disjE) (simp_all only:, simp_all add: numeral_3_eq_3)
  qed
  define t where "t = octal_weights 11 u"
  have t: "t = p 0 + 8 * (p 1 + 8 * (p 2 + 8 * (p 3 + 8 * (p 4 + 8 * (p 5 + 8 * (p 6 + 8 * (p 7 + 8 * (p 8 + 8 * (p 9 + 8 * p 10)))))))))"
    unfolding t_def octal_digits p_def by simp
  have masks: "octal_mask 3 11 = 0xDB6DB6DB" "octal_mask 1 11 = 0x49249249" by (simp_all add: numeral_eq_Suc)
  have "u < 8 ^ 11" using u(2) by simp
  then have t1: "u - (u div 2 AND 0xDB6DB6DB) - (u div 4 AND 0x49249249) = t"
    using octal_weights_eq [OF u(1), of 11] by (simp only: masks t_def)
  define w where "w = (p 0 + p 1) + 64 * ((p 2 + p 3) + 64 * ((p 4 + p 5) + 64 * ((p 6 + p 7) + 64 * ((p 8 + p 9) + 64 * p 10))))"
  have t2: "(t + t div 8) AND 0xC71C71C7 = w"
    unfolding t w_def by (rule pair_sums) (use p p10 in auto)
  note b = p [of 0] p [of 1] p [of 2] p [of 3] p [of 4] p [of 5] p [of 6] p [of 7] p [of 8] p [of 9] p [of 10] p10
  have "0 \<le> t" "t < 3221225472"
    using b unfolding t by simp_all
  then have tr: "0 \<le> t" "t + t div 8 < 2 ^ 32" by simp_all
  have "0 \<le> w" "w < 3221225472" using b unfolding w_def by simp_all
  then have wr: "0 \<le> w" "w + w div 64 < 2 ^ 32" by simp_all
  define v where "v = w + w div 64"
  have v: "v = (p 0 + p 1 + p 2 + p 3) + 64 * ((p 2 + p 3 + p 4 + p 5) + 64 * ((p 4 + p 5 + p 6 + p 7) +
      64 * ((p 6 + p 7 + p 8 + p 9) + 64 * ((p 8 + p 9 + p 10) + 64 * p 10))))"
  proof -
    have "w div 64 = (p 2 + p 3) + 64 * ((p 4 + p 5) + 64 * ((p 6 + p 7) + 64 * ((p 8 + p 9) + 64 * p 10)))"
      unfolding w_def by (rule digit_div64) (use b in linarith)+
    then show ?thesis unfolding v_def unfolding w_def by simp
  qed
  have v12: "v div 4096 = (p 4 + p 5 + p 6 + p 7) + 64 * ((p 6 + p 7 + p 8 + p 9) + 64 * ((p 8 + p 9 + p 10) + 64 * p 10))"
    unfolding div64(1) [of v] unfolding v by (subst digit_div64, (use b in linarith)+)+
  have v24: "v div 16777216 = (p 8 + p 9 + p 10) + 64 * p 10"
    unfolding div64(2) [of v] v12 by (subst digit_div64, (use b in linarith)+)+
  define total where "total = p 0 + (p 1 + (p 2 + (p 3 + (p 4 + (p 5 + (p 6 + (p 7 + (p 8 + (p 9 + p 10)))))))))"
  define z where "z = (p 2 + p 3 + p 4 + p 5) + 64 * ((p 4 + p 5 + p 6 + p 7) +
      64 * ((p 6 + p 7 + p 8 + p 9) + 64 * ((p 8 + p 9 + p 10) + 64 * p 10))) +
      (p 6 + p 7 + p 8 + p 9) + 64 * ((p 8 + p 9 + p 10) + 64 * p 10) + p 10"
  have "v + v div 4096 + v div 16777216 = total + 64 * z"
    unfolding v12 v24 unfolding v total_def z_def by simp
  moreover have "0 \<le> total" "total < 64" using b unfolding total_def by simp_all
  ultimately have m64: "(v + v div 4096 + v div 16777216) mod 64 = total" by simp
  have v32: "v + v div 4096 + v div 16777216 < 2 ^ 32" "0 \<le> v"
    using b unfolding v12 v24 unfolding v by simp_all
  have "total = bit_sum 33 u" unfolding total_def bit_sum_digits p_def by simp
  moreover have "bit_sum 33 u = bit_sum 32 u"
  proof -
    have "bit_sum (32 + 1) u = bit_sum 32 u + bit_sum 1 (u div 2 ^ 32)" by (rule bit_sum_add)
    moreover have "u div 2 ^ 32 = 0" using u by simp
    ultimately show ?thesis by simp
  qed
  ultimately have total: "total = bit_sum 32 u" by simp
  have e1: "to_u32 (u - (shr u 1 AND 0xDB6DB6DB) - (shr u 2 AND 0x49249249)) = t"
    using t1 tr by (simp add: shr_def to_u32_def)
  have e2: "to_u32 (t + shr t 3) AND 0xC71C71C7 = w"
    using t2 tr by (simp add: shr_def to_u32_def)
  have e3: "to_u32 (w + shr w 6) = v"
    using wr by (simp add: shr_def to_u32_def v_def)
  have e4: "to_u32 (v + shr v 12 + shr v 24) AND 63 = total"
    using v32 m64 by (simp add: shr_def to_u32_def low_mask)
  show ?thesis unfolding BitCount_def Let_def e1 e2 e3 e4 by (rule total)
qed


section \<open>Well-formed estimators\<close>

definition all_u32 :: "int list \<Rightarrow> bool" where
  "all_u32 xs \<longleftrightarrow> (\<forall>x \<in> set xs. is_u32 x)"

definition farend_ok :: "BinaryDelayEstimatorFarend \<Rightarrow> bool" where
  "farend_ok far \<longleftrightarrow> 1 < far_history_size far \<and>
     length (binary_far_history far) = nat (far_history_size far) \<and> all_u32 (binary_far_history far) \<and>
     far_bit_counts far = map BitCount (binary_far_history far)"

definition estimator_ok :: "BinaryDelayEstimator \<Rightarrow> bool" where
  "estimator_ok self \<longleftrightarrow> 1 < history_size self \<and> 0 < near_history_size self \<and>
     length (mean_bit_counts self) = nat (history_size self) + 1 \<and>
     length (bit_counts self) = nat (history_size self) \<and>
     length (histogram self) = nat (history_size self) + 1 \<and>
     length (binary_near_history self) = nat (near_history_size self) \<and> all_u32 (binary_near_history self) \<and>
     0 \<le> lookahead self \<and> lookahead self < near_history_size self \<and>
     (\<forall>m \<in> set (mean_bit_counts self). 0 \<le> m \<and> m < kMaxBitCountsQ9) \<and>
     (last_delay self = - 2 \<and> compare_delay self = history_size self \<or>
      0 \<le> last_delay self \<and> last_delay self < history_size self \<and> compare_delay self = last_delay self)"

lemma all_u32_nth: "all_u32 xs \<Longrightarrow> i < length xs \<Longrightarrow> is_u32 (xs ! i)"
  by (simp add: all_u32_def)

lemma all_u32_simps [simp]: "all_u32 []" "all_u32 (x # xs) \<longleftrightarrow> is_u32 x \<and> all_u32 xs"
  "all_u32 (xs @ ys) \<longleftrightarrow> all_u32 xs \<and> all_u32 ys" "all_u32 xs \<Longrightarrow> all_u32 (take n xs)"
  by (auto simp: all_u32_def dest: in_set_takeD)

lemma BitCount_bounds: "is_u32 u \<Longrightarrow> 0 \<le> BitCount u \<and> BitCount u \<le> 32"
  using bit_sum_bounds [of 32 u] by (simp add: BitCount_bit_sum)

lemma is_u32_xor: "is_u32 a \<Longrightarrow> is_u32 b \<Longrightarrow> is_u32 (a XOR b)"
  using XOR_upper [of a 32 b] by (simp add: is_u32_def)

text \<open>A queue of fixed length: the shift by one and the new head.\<close>

lemma shift_in:
  assumes "length xs = n" "0 < n"
  shows "(blit 1 (take (n - 1) xs) xs)[0 := x] = x # take (n - 1) xs"
proof -
  obtain y ys where "xs = y # ys" using assms by (cases xs) auto
  then show ?thesis using assms by (simp add: blit_def)
qed

lemma farend_add_ok:
  assumes "farend_ok far" "is_u32 s"
  shows "farend_ok (WebRtc_AddBinaryFarSpectrum far s)"
    "binary_far_history (WebRtc_AddBinaryFarSpectrum far s) = s # take (nat (far_history_size far) - 1) (binary_far_history far)"
    "far_history_size (WebRtc_AddBinaryFarSpectrum far s) = far_history_size far"
proof -
  define k where "k = nat (far_history_size far) - 1"
  obtain counts hist n where far: "far = \<lparr>far_bit_counts = counts, binary_far_history = hist, far_history_size = n\<rparr>"
    by (cases far)
  have n: "1 < n" "length hist = nat n" "all_u32 hist" "counts = map BitCount hist" "nat n - 1 = k"
    using assms(1) by (simp_all add: farend_ok_def far k_def)
  then have k: "nat n = Suc k" "length hist = Suc k" "length counts = Suc k" by simp_all
  have eq: "WebRtc_AddBinaryFarSpectrum far s =
      \<lparr>far_bit_counts = BitCount s # take k counts, binary_far_history = s # take k hist, far_history_size = n\<rparr>"
    using shift_in [of hist "Suc k" s] shift_in [of counts "Suc k" "BitCount s"] k
    by (simp add: WebRtc_AddBinaryFarSpectrum_def far)
  have "BitCount s # take k counts = map BitCount (s # take k hist)" by (simp add: n(4) take_map)
  moreover have "length (s # take k hist) = nat n" "all_u32 (s # take k hist)" using k n(3) assms(2) by simp_all
  ultimately show "farend_ok (WebRtc_AddBinaryFarSpectrum far s)"
    unfolding farend_ok_def eq BinaryDelayEstimatorFarend.select_convs using n(1) by blast
  show "binary_far_history (WebRtc_AddBinaryFarSpectrum far s) = s # take (nat (far_history_size far) - 1) (binary_far_history far)"
    "far_history_size (WebRtc_AddBinaryFarSpectrum far s) = far_history_size far"
    unfolding eq unfolding far BinaryDelayEstimatorFarend.select_convs n(5) by (rule refl)+
qed

lemma farend_init_ok:
  assumes "1 < far_history_size far" "length (binary_far_history far) = nat (far_history_size far)"
    "length (far_bit_counts far) = nat (far_history_size far)"
  shows "farend_ok (WebRtc_InitBinaryDelayEstimatorFarend far)"
proof -
  have "is_u32 0" by (simp add: is_u32_def)
  moreover have "bit_sum k 0 = 0" for k by (induction k) simp_all
  then have "BitCount 0 = 0" using BitCount_bit_sum [of 0] calculation by simp
  ultimately show ?thesis
    using assms by (simp add: farend_ok_def WebRtc_InitBinaryDelayEstimatorFarend_def blit_def all_u32_def)
qed

lemma estimator_init_ok:
  assumes "1 < history_size self" "0 < near_history_size self"
    "length (mean_bit_counts self) = nat (history_size self) + 1" "length (bit_counts self) = nat (history_size self)"
    "length (histogram self) = nat (history_size self) + 1"
    "length (binary_near_history self) = nat (near_history_size self)"
    "0 \<le> lookahead self" "lookahead self < near_history_size self"
  shows "estimator_ok (WebRtc_InitBinaryDelayEstimator self)"
  using assms
  by (simp add: estimator_ok_def WebRtc_InitBinaryDelayEstimator_def Let_def blit_def all_u32_def is_u32_def kMaxBitCountsQ9_def)

section \<open>One block\<close>

text \<open>The smoothed value moves towards the new one and does not pass it.\<close>

lemma MeanEstimatorFix_between:
  assumes "0 \<le> m" "m < 2147483648" "0 \<le> v" "v < 2147483648"
  shows "min m v \<le> WebRtc_MeanEstimatorFix v k m" "WebRtc_MeanEstimatorFix v k m \<le> max m v"
    "0 < k \<Longrightarrow> m < v \<Longrightarrow> WebRtc_MeanEstimatorFix v k m < v"
proof -
  have d: "to_i32 (v - m) = v - m" using assms by (intro to_i32_id) (simp add: is_i32_def)
  define e where "e = (if v - m < 0 then - shr (m - v) k else shr (v - m) k)"
  have e: "if v < m then v - m \<le> e \<and> e \<le> 0 else 0 \<le> e \<and> e \<le> v - m"
    using shr_nonneg [of "m - v" k] shr_nonneg [of "v - m" k] shr_le [of "m - v" k] shr_le [of "v - m" k]
    by (auto simp: e_def)
  have "to_i32 (m + e) = m + e" using e assms by (intro to_i32_id) (auto simp: is_i32_def split: if_splits)
  then have r: "WebRtc_MeanEstimatorFix v k m = m + e"
    by (cases "v < m") (simp_all add: WebRtc_MeanEstimatorFix_def d e_def)
  show "min m v \<le> WebRtc_MeanEstimatorFix v k m" "WebRtc_MeanEstimatorFix v k m \<le> max m v"
    using e unfolding r by (auto split: if_splits)
  assume k: "0 < k" "m < v"
  have "shr (v - m) k < v - m"
  proof -
    have "(v - m) * 1 < (v - m) * 2 ^ k" using k by (intro mult_strict_left_mono) (simp_all add: one_less_power)
    then have "(v - m) div 2 ^ k < v - m" by (intro int_div_less) simp_all
    then show ?thesis by (simp add: shr_def)
  qed
  then show "WebRtc_MeanEstimatorFix v k m < v" using k unfolding r e_def by simp
qed

lemma near_lookahead_ok:
  assumes "estimator_ok self" "is_u32 near"
  shows "\<exists>hist v. near_lookahead self near = (self\<lparr>binary_near_history := hist\<rparr>, v) \<and> is_u32 v \<and> all_u32 hist \<and>
    length hist = nat (near_history_size self)"
proof (cases "near_history_size self > 1")
  case True
  let ?n = "nat (near_history_size self)" and ?h = "binary_near_history self"
  have n: "length ?h = ?n" "0 < ?n" using assms True by (simp_all add: estimator_ok_def)
  define hist where "hist = near # take (?n - 1) ?h"
  have "all_u32 hist" "length hist = ?n" using assms n by (simp_all add: hist_def estimator_ok_def)
  moreover have "is_u32 (hist ! nat (lookahead self))"
    using assms calculation by (intro all_u32_nth) (simp_all add: estimator_ok_def)
  ultimately show ?thesis
    using True unfolding near_lookahead_def Let_def shift_in [OF n] hist_def by auto
next
  case False
  then show ?thesis
    using assms by (auto simp: near_lookahead_def estimator_ok_def intro!: exI [of _ "binary_near_history self"])
qed

lemma BitCountComparison_eq:
  assumes "length counts = nat n" "nat n \<le> length mat"
  shows "BitCountComparison v mat n counts = map (\<lambda>i. BitCount (v XOR mat ! i)) [0..<nat n]"
proof -
  have "fold (\<lambda>n counts. counts[n := BitCount (v XOR mat ! n)]) [0..<b] counts
      = map (\<lambda>i. BitCount (v XOR mat ! i)) [0..<b] @ drop b counts" if "b \<le> nat n" for b
    using that
  proof (induction b)
    case (Suc b)
    then have "drop b counts = counts ! b # drop (Suc b) counts" using assms by (simp add: Cons_nth_drop_Suc)
    with Suc show ?case by (simp add: list_update_append)
  qed simp
  from this [of "nat n"] assms show ?thesis by (simp add: BitCountComparison_def)
qed


lemma smooth_bit_counts_ok:
  assumes "farend_ok far" "estimator_ok self" "far_history_size far = history_size self"
    and "\<forall>c \<in> set (bit_counts self). 0 \<le> c \<and> c \<le> 32"
  shows "estimator_ok (smooth_bit_counts far self)"
proof -
  define n where "n = nat (history_size self)"
  let ?P = "\<lambda>ms. length ms = n + 1 \<and> (\<forall>m \<in> set ms. 0 \<le> m \<and> m < kMaxBitCountsQ9)"
  let ?f = "\<lambda>i means. let bit_count = shl (bit_counts self ! i) 9
         in if far_bit_counts far ! i > 0 then
              let shifts = kShiftsAtZero - shr (kShiftsLinearSlope * far_bit_counts far ! i) 4
              in means[i := WebRtc_MeanEstimatorFix bit_count (nat shifts) (means ! i)]
            else means"
  have "?P (fold ?f [0..<n] (mean_bit_counts self))"
  proof (rule fold_pres)
    show "?P (mean_bit_counts self)" using assms(2) by (simp add: estimator_ok_def n_def)
  next
    fix i ms assume i: "i \<in> set [0..<n]" and ms: "?P ms"
    have c: "0 \<le> bit_counts self ! i" "bit_counts self ! i \<le> 32"
      using assms(2,4) i by (auto simp: estimator_ok_def n_def)
    have far: "0 \<le> far_bit_counts far ! i \<and> far_bit_counts far ! i \<le> 32"
      using assms(1,3) i by (auto simp: farend_ok_def n_def intro!: BitCount_bounds all_u32_nth)
    then have "shr (3 * far_bit_counts far ! i) 4 \<le> shr 96 4" by (intro shr_mono) simp
    then have k: "0 < nat (kShiftsAtZero - shr (kShiftsLinearSlope * far_bit_counts far ! i) 4)"
      by (simp add: kShiftsAtZero_def kShiftsLinearSlope_def shr_def)
    have "ms ! i \<in> set ms" using i ms by simp
    then have m: "0 \<le> ms ! i" "ms ! i < 16384" using ms by (auto simp: kMaxBitCountsQ9_def)
    define v where "v = shl (bit_counts self ! i) 9"
    have v: "0 \<le> v" "v \<le> 16384" using c by (simp_all add: v_def shl_def)
    define r where "r = WebRtc_MeanEstimatorFix v (nat (kShiftsAtZero - shr (kShiftsLinearSlope * far_bit_counts far ! i) 4)) (ms ! i)"
    have "min (ms ! i) v \<le> r" "r \<le> max (ms ! i) v" "ms ! i < v \<longrightarrow> r < v"
      unfolding r_def using MeanEstimatorFix_between [of "ms ! i" v] k m v by simp_all
    then have "0 \<le> r \<and> r < kMaxBitCountsQ9" using m v by (auto simp: kMaxBitCountsQ9_def)
    then have "?P (ms[i := r])" using ms set_update_subset_insert [of ms i r] by auto
    then show "?P (?f i ms)" using ms by (simp add: Let_def r_def v_def)
  qed
  then show ?thesis using assms(2) by (simp add: smooth_bit_counts_def estimator_ok_def n_def)
qed

lemma search_candidate_min:
  assumes "estimator_ok self" and "search_candidate self = (c, best, worst)"
  shows "0 \<le> c" "c < history_size self" "best = mean_bit_counts self ! nat c"
    "\<forall>j < nat (history_size self). best \<le> mean_bit_counts self ! j \<and> mean_bit_counts self ! j \<le> worst"
    "0 \<le> best" "best < kMaxBitCountsQ9"
proof -
  let ?m = "mean_bit_counts self" and ?n = "nat (history_size self)"
  define P where "P i s = (case s of (c, best, worst) \<Rightarrow>
    if i = 0 then c = - 1 \<and> best = kMaxBitCountsQ9 \<and> worst = 0
    else 0 \<le> c \<and> c < int i \<and> best = ?m ! nat c \<and> (\<forall>j<i. best \<le> ?m ! j \<and> ?m ! j \<le> worst))" for i and s :: "int \<times> int \<times> int"
  have m: "0 \<le> ?m ! i \<and> ?m ! i < kMaxBitCountsQ9" if "i < ?n" for i
  proof -
    have "?m ! i \<in> set ?m" using that assms(1) by (simp add: estimator_ok_def)
    then show ?thesis using assms(1) by (simp add: estimator_ok_def)
  qed
  have "P ?n (search_candidate self)"
    unfolding search_candidate_def
  proof (rule fold_upt_inv)
    show "P 0 (- 1, kMaxBitCountsQ9, 0)" by (simp add: P_def)
  next
    fix i s assume i: "i < ?n" and s: "P i s"
    obtain c b w where e: "s = (c, b, w)" by (metis prod_cases3)
    show "P (Suc i) ((\<lambda>(candidate_delay, value_best_candidate, value_worst_candidate).
       let m = ?m ! i;
           (candidate_delay, value_best_candidate) =
             (if m < value_best_candidate then (int i, m) else (candidate_delay, value_best_candidate));
           value_worst_candidate = (if m > value_worst_candidate then m else value_worst_candidate)
       in (candidate_delay, value_best_candidate, value_worst_candidate)) s)"
      using s m [OF i] by (cases "i = 0") (auto simp: e P_def Let_def less_Suc_eq)
  qed simp
  then have "P ?n (c, best, worst)" by (simp add: assms(2))
  then show r: "0 \<le> c" "c < history_size self" "best = ?m ! nat c"
    "\<forall>j < ?n. best \<le> ?m ! j \<and> ?m ! j \<le> worst"
    using assms(1) by (auto simp: P_def estimator_ok_def)
  show "0 \<le> best" "best < kMaxBitCountsQ9" using m [of "nat c"] r(1,2,3) by simp_all
qed

definition same_estimate :: "BinaryDelayEstimator \<Rightarrow> BinaryDelayEstimator \<Rightarrow> bool" where
  "same_estimate s s' \<longleftrightarrow> estimator_ok s' \<and> history_size s' = history_size s \<and> last_delay s' = last_delay s \<and>
     mean_bit_counts s' = mean_bit_counts s"

lemma length_fold_each:
  "length (fold (\<lambda>i hist. hist[i := f i hist]) is xs) = length xs"
  by (induction "is" arbitrary: xs) simp_all

lemma UpdateRobustValidationStatistics_ok:
  assumes "estimator_ok self" "0 \<le> c" "c < history_size self"
  shows "\<exists>s. UpdateRobustValidationStatistics self c depth level = Some s \<and> same_estimate self s"
proof -
  have "\<not> (c < 0 \<or> int (length (histogram self)) \<le> c)" using assms by (simp add: estimator_ok_def)
  then show ?thesis
    using assms(1) unfolding UpdateRobustValidationStatistics_def Let_def same_estimate_def
    by (simp add: length_fold_each estimator_ok_def)
qed

lemma accept_candidate_ok:
  assumes "estimator_ok self" "0 \<le> c" "c < history_size self"
  shows "estimator_ok (accept_candidate self c best)" "last_delay (accept_candidate self c best) = c"
    "history_size (accept_candidate self c best) = history_size self"
    "mean_bit_counts (accept_candidate self c best) = mean_bit_counts self"
  using assms by (simp_all add: accept_candidate_def Let_def estimator_ok_def)

lemma update_minimum_probability_keeps:
  "\<exists>p. update_minimum_probability self d b = self\<lparr>minimum_probability := p\<rparr>"
  unfolding update_minimum_probability_def Let_def
  by (metis BinaryDelayEstimator.surjective BinaryDelayEstimator.update_convs(6))

lemma update_estimate_ok:
  assumes s2: "estimator_ok s2" and cand: "0 \<le> c" "c < history_size s2"
  shows "\<exists>s'. update_estimate far s2 c best worst = Some (s', last_delay s') \<and> estimator_ok s' \<and>
    history_size s' = history_size s2 \<and> mean_bit_counts s' = mean_bit_counts s2 \<and>
    (last_delay s' = last_delay s2 \<or> last_delay s' = c) \<and>
    ((\<forall>a \<in> set (far_bit_counts far). a \<le> 0) \<longrightarrow> last_delay s' = last_delay s2)"
proof -
  obtain p where mp: "update_minimum_probability s2 (worst - best) best = s2\<lparr>minimum_probability := p\<rparr>"
    using update_minimum_probability_keeps by blast
  define s3 where "s3 = s2\<lparr>minimum_probability := p, last_delay_probability := to_i32 (last_delay_probability s2 + 1)\<rparr>"
  have s3: "estimator_ok s3" "history_size s3 = history_size s2" "last_delay s3 = last_delay s2" "mean_bit_counts s3 = mean_bit_counts s2"
    using s2 by (simp_all add: s3_def estimator_ok_def)
  define stat where "stat = list_ex (\<lambda>a. a > 0) (take (nat (history_size s3)) (far_bit_counts far))"
  define valid where "valid = (worst - best > kProbabilityOffset \<and> (best < minimum_probability s3 \<or> best < last_delay_probability s3))"
  obtain s4 where s4: "(if stat then UpdateRobustValidationStatistics s3 c (worst - best) best else Some s3) = Some s4"
    "same_estimate s3 s4"
    using UpdateRobustValidationStatistics_ok [OF s3(1) cand(1), of "worst - best" best] cand(2) s3
    by (cases stat) (auto simp: same_estimate_def)
  define s5 where "s5 = (if stat \<and> robust_valid s4 c valid then accept_candidate s4 c best else s4)"
  have s3eq: "s2\<lparr>minimum_probability := p, last_delay_probability := to_i32 (last_delay_probability (s2\<lparr>minimum_probability := p\<rparr>) + 1)\<rparr> = s3"
    by (simp add: s3_def)
  have "update_estimate far s2 c best worst = Some (s5, last_delay s5)"
    unfolding update_estimate_def Let_def mp s3eq stat_def [symmetric] valid_def [symmetric] s4(1) option.case s5_def
    using cand(1) by simp
  moreover have c4: "c < history_size s4" and ok4: "estimator_ok s4" using cand(2) s3 s4(2) by (simp_all add: same_estimate_def)
  note acc = accept_candidate_ok [OF ok4 cand(1) c4, of best]
  moreover have "estimator_ok s5" "history_size s5 = history_size s2" "mean_bit_counts s5 = mean_bit_counts s2"
    "last_delay s5 = last_delay s2 \<or> last_delay s5 = c"
    using acc s4(2) s3 by (simp_all add: s5_def same_estimate_def)
  moreover have "last_delay s5 = last_delay s2" if "\<forall>a \<in> set (far_bit_counts far). a \<le> 0"
  proof -
    have "\<not> stat" using that by (force simp: stat_def list_ex_iff dest: in_set_takeD)
    then show ?thesis using s4(2) s3 by (simp add: s5_def same_estimate_def)
  qed
  ultimately show ?thesis by (intro exI [of _ s5]) blast
qed

lemma process_binary_spectrum_ok:
  assumes far: "farend_ok far" and self: "estimator_ok self" and eq: "far_history_size far = history_size self"
    and near: "is_u32 near"
  shows "\<exists>self'. WebRtc_ProcessBinarySpectrum far self near = Some (self', last_delay self') \<and>
    estimator_ok self' \<and> history_size self' = history_size self \<and>
    (last_delay self' = last_delay self \<or>
     (\<forall>j < nat (history_size self). mean_bit_counts self' ! nat (last_delay self') \<le> mean_bit_counts self' ! j)) \<and>
    ((\<forall>a \<in> set (far_bit_counts far). a \<le> 0) \<longrightarrow> last_delay self' = last_delay self)"
proof -
  obtain hist v where nl: "near_lookahead self near = (self\<lparr>binary_near_history := hist\<rparr>, v)"
    and v: "is_u32 v" and hist: "all_u32 hist" "length hist = nat (near_history_size self)"
    using near_lookahead_ok [OF self near] by blast
  let ?n = "nat (history_size self)"
  define counts where "counts = BitCountComparison v (binary_far_history far) (history_size self) (bit_counts self)"
  have lens: "length (bit_counts self) = ?n" "?n \<le> length (binary_far_history far)"
    using far self eq by (simp_all add: estimator_ok_def farend_ok_def)
  have counts: "counts = map (\<lambda>i. BitCount (v XOR binary_far_history far ! i)) [0..<?n]"
    unfolding counts_def by (rule BitCountComparison_eq [OF lens])
  have c32: "\<forall>c \<in> set counts. 0 \<le> c \<and> c \<le> 32"
    unfolding counts using far lens(2) v by (auto simp: farend_ok_def intro!: BitCount_bounds is_u32_xor all_u32_nth)
  define s1 where "s1 = self\<lparr>binary_near_history := hist, bit_counts := counts\<rparr>"
  have s1: "estimator_ok s1" "far_history_size far = history_size s1" "\<forall>c \<in> set (bit_counts s1). 0 \<le> c \<and> c \<le> 32"
    using self hist c32 eq by (simp_all add: s1_def estimator_ok_def counts)
  define s2 where "s2 = smooth_bit_counts far s1"
  have s2: "estimator_ok s2" unfolding s2_def by (rule smooth_bit_counts_ok [OF far s1])
  obtain c best worst where sc: "search_candidate s2 = (c, best, worst)" by (metis prod_cases3)
  note cand = search_candidate_min [OF s2 sc]
  have keep: "history_size s2 = history_size self" "last_delay s2 = last_delay self"
    by (simp_all add: s2_def smooth_bit_counts_def s1_def)
  have "WebRtc_ProcessBinarySpectrum far self near = update_estimate far s2 c best worst"
    using eq sc by (simp add: WebRtc_ProcessBinarySpectrum_def nl counts_def [symmetric] s1_def [symmetric] s2_def [symmetric])
  then show ?thesis using update_estimate_ok [OF s2 cand(1,2), of far best worst] cand(3,4) keep by auto
qed


section \<open>The binary spectrum\<close>

definition threshold_ok :: "int list \<Rightarrow> bool" where
  "threshold_ok ts \<longleftrightarrow> kBandLast < length ts \<and> (\<forall>t \<in> set ts. 0 \<le> t \<and> t < 2147483648)"

lemma threshold_ok_update: "threshold_ok ts \<Longrightarrow> 0 \<le> v \<Longrightarrow> v < 2147483648 \<Longrightarrow> threshold_ok (ts[i := v])"
  using set_update_subset_insert [of ts i v] by (auto simp: threshold_ok_def)

lemma spectrum_q15:
  assumes "0 \<le> q" "q \<le> 15" "0 \<le> x" "x \<le> 65535"
  shows "0 \<le> to_i32 (shl x (nat (15 - q)))" "to_i32 (shl x (nat (15 - q))) < 2147483648"
proof -
  have "(2 :: int) ^ nat (15 - q) \<le> 2 ^ 15" using assms by (intro power_increasing) simp_all
  then have "x * 2 ^ nat (15 - q) \<le> 65535 * 2 ^ 15" using assms by (intro mult_mono) simp_all
  moreover have "0 \<le> x * 2 ^ nat (15 - q)" using assms by simp
  ultimately show "0 \<le> to_i32 (shl x (nat (15 - q)))" "to_i32 (shl x (nat (15 - q))) < 2147483648"
    by (simp_all add: shl_def to_i32_id is_i32_def)
qed

lemma threshold_start_ok:
  assumes "threshold_ok ts" "\<forall>i \<le> kBandLast. 0 \<le> spectrum ! i \<and> spectrum ! i \<le> 65535" "0 \<le> q" "q \<le> 15"
  shows "threshold_ok (fst (threshold_start spectrum (nat (15 - q)) ts)) \<and>
    length (fst (threshold_start spectrum (nat (15 - q)) ts)) = length ts"
proof -
  let ?P = "\<lambda>s :: int list \<times> int. threshold_ok (fst s) \<and> length (fst s) = length ts"
  show ?thesis
    unfolding threshold_start_def
  proof (rule fold_pres [where P = ?P])
    show "?P (ts, 0)" using assms(1) by simp
  next
    fix i and s :: "int list \<times> int"
    assume i: "i \<in> set [kBandFirst..<kBandLast + 1]" and s: "?P s"
    have x: "0 \<le> spectrum ! i" "spectrum ! i \<le> 65535" using i assms(2) by auto
    note q = spectrum_q15 [OF assms(3,4) x]
    have "0 \<le> shr (to_i32 (shl (spectrum ! i) (nat (15 - q)))) 1" by (rule shr_nonneg [OF q(1)])
    moreover have "shr (to_i32 (shl (spectrum ! i) (nat (15 - q)))) 1 < 2147483648"
      using shr_le [OF q(1), of 1] q(2) by linarith
    ultimately show "?P (case s of (thresholds, flag) \<Rightarrow>
       if spectrum ! i > 0 then
         let spectrum_q15 = to_i32 (shl (spectrum ! i) (nat (15 - q))) in (thresholds[i := shr spectrum_q15 1], 1)
       else (thresholds, flag))"
      using s by (cases s) (simp add: threshold_ok_update)
  qed
qed

lemma BinarySpectrumFix_ok:
  assumes "threshold_ok ts" "\<forall>i \<le> kBandLast. 0 \<le> spectrum ! i \<and> spectrum ! i \<le> 65535" "0 \<le> q" "q \<le> 15"
    and "BinarySpectrumFix spectrum ts q flag = (out, ts', flag')"
  shows "is_u32 out" "threshold_ok ts'" "length ts' = length ts"
proof -
  define ts0 where "ts0 = (if flag = 0 then fst (threshold_start spectrum (nat (15 - q)) ts) else ts)"
  have ts0: "threshold_ok ts0" "length ts0 = length ts"
    using threshold_start_ok [OF assms(1-4)] assms(1) by (simp_all add: ts0_def)
  let ?f = "\<lambda>i (out, thresholds).
              let spectrum_q15 = to_i32 (shl (spectrum ! i) (nat (15 - q)));
                  thresholds = thresholds[i := WebRtc_MeanEstimatorFix spectrum_q15 6 (thresholds ! i)]
              in (if spectrum_q15 > thresholds ! i then SetBit out (i - kBandFirst) else out, thresholds)"
  let ?P = "\<lambda>(out, ts'). is_u32 out \<and> threshold_ok ts' \<and> length ts' = length ts"
  have "?P (fold ?f [kBandFirst..<kBandLast + 1] (0, ts0))"
  proof (rule fold_pres [where P = ?P])
    show "?P (0, ts0)" using ts0 by (simp add: is_u32_def)
  next
    fix i s assume i: "i \<in> set [kBandFirst..<kBandLast + 1]" and s: "?P s"
    obtain o' t where e: "s = (o', t)" by fastforce
    have x: "0 \<le> spectrum ! i" "spectrum ! i \<le> 65535" using i assms(2) by auto
    note q = spectrum_q15 [OF assms(3,4) x]
    have "t ! i \<in> set t" using s i by (auto simp: e threshold_ok_def)
    then have ti: "0 \<le> t ! i" "t ! i < 2147483648" using s by (auto simp: e threshold_ok_def)
    define m where "m = WebRtc_MeanEstimatorFix (to_i32 (shl (spectrum ! i) (nat (15 - q)))) 6 (t ! i)"
    have "0 \<le> m" "m < 2147483648"
      using MeanEstimatorFix_between(1,2) [OF ti q, of 6] ti q by (simp_all add: m_def)
    then have "threshold_ok (t[i := m])" using s by (simp add: e threshold_ok_update)
    moreover have "is_u32 (SetBit o' (i - kBandFirst))"
      using s OR_upper [of o' 32 "to_u32 (shl 1 (i - kBandFirst))"] is_u32_to_u32 [of "shl 1 (i - kBandFirst)"]
      by (simp add: SetBit_def e is_u32_def)
    ultimately show "?P (?f i s)" using s by (simp add: e Let_def m_def)
  qed
  moreover have "fold ?f [kBandFirst..<kBandLast + 1] (0, ts0) = (out, ts')"
    using assms(5) by (auto simp: BinarySpectrumFix_def ts0_def Let_def split: prod.splits if_splits)
  ultimately show "is_u32 out" "threshold_ok ts'" "length ts' = length ts" by simp_all
qed

section \<open>Sequences of blocks\<close>

text \<open>The two calls per block of a canceller: the far-end bits are added, then the near-end bits are processed.\<close>

fun estimator_run ::
    "BinaryDelayEstimatorFarend \<Rightarrow> BinaryDelayEstimator \<Rightarrow> (int \<times> int) list \<Rightarrow>
     (BinaryDelayEstimatorFarend \<times> BinaryDelayEstimator \<times> int list) option" where
  "estimator_run far self [] = Some (far, self, [])"
| "estimator_run far self ((f, n) # bs) =
     (let far = WebRtc_AddBinaryFarSpectrum far f in
      case WebRtc_ProcessBinarySpectrum far self n of
        None \<Rightarrow> None
      | Some (self, r) \<Rightarrow>
          (case estimator_run far self bs of None \<Rightarrow> None | Some (far, self, rs) \<Rightarrow> Some (far, self, r # rs)))"

lemma estimator_run_ok:
  assumes "farend_ok far" "estimator_ok self" "far_history_size far = history_size self"
    and "\<forall>(f, n) \<in> set bs. is_u32 f \<and> is_u32 n"
  shows "\<exists>far' self' rs. estimator_run far self bs = Some (far', self', rs) \<and> farend_ok far' \<and> estimator_ok self' \<and>
    length rs = length bs \<and> (\<forall>r \<in> set rs. r = - 2 \<or> 0 \<le> r \<and> r < history_size self)"
  using assms
proof (induction bs arbitrary: far self)
  case (Cons b bs)
  obtain f n where b: "b = (f, n)" by fastforce
  have fn: "is_u32 f" "is_u32 n" using Cons.prems(4) b by auto
  define far1 where "far1 = WebRtc_AddBinaryFarSpectrum far f"
  have far1: "farend_ok far1" "far_history_size far1 = history_size self"
    using farend_add_ok [OF Cons.prems(1) fn(1)] Cons.prems(3) by (simp_all add: far1_def)
  obtain s where s: "WebRtc_ProcessBinarySpectrum far1 self n = Some (s, last_delay s)" "estimator_ok s"
    "history_size s = history_size self"
    using process_binary_spectrum_ok [OF far1(1) Cons.prems(2) far1(2) fn(2)] by blast
  have r: "last_delay s = - 2 \<or> 0 \<le> last_delay s \<and> last_delay s < history_size self"
    using s(2,3) by (auto simp: estimator_ok_def)
  have "far_history_size far1 = history_size s" "\<forall>(f, n) \<in> set bs. is_u32 f \<and> is_u32 n"
    using far1(2) s(3) Cons.prems(4) by simp_all
  from Cons.IH [OF far1(1) s(2) this]
  obtain far' self' rs where "estimator_run far1 s bs = Some (far', self', rs)" "farend_ok far'" "estimator_ok self'"
    "length rs = length bs" "\<forall>r \<in> set rs. r = - 2 \<or> 0 \<le> r \<and> r < history_size s" by blast
  then show ?case using s(1,3) r by (simp add: b far1_def [symmetric])
qed simp

lemma bit_sum_card: "bit_sum k u = int (card {i. i < k \<and> bit u i})"
proof (induction k arbitrary: u)
  case (Suc k)
  have "{i. i < Suc k \<and> bit u i} = (if bit u 0 then {0} else {}) \<union> Suc ` {i. i < k \<and> bit (u div 2) i}"
    by (auto simp: bit_Suc [symmetric] less_Suc_eq_0_disj image_iff)
  moreover have "card (Suc ` {i. i < k \<and> bit (u div 2) i}) = card {i. i < k \<and> bit (u div 2) i}"
    by (rule card_image) simp
  ultimately have "int (card {i. i < Suc k \<and> bit u i}) = u mod 2 + int (card {i. i < k \<and> bit (u div 2) i})"
    by (auto simp: bit_0 odd_iff_mod_2_eq_one even_iff_mod_2_eq_zero card_insert_if)
  then show ?case using Suc [of "u div 2"] by simp
qed simp

section \<open>Properties\<close>

text \<open>C28: The count the estimator compares, \<open>BitCount\<close> of the exclusive or of a near-end and a far-end word, is the
  number of bands in which the two binary spectra differ, although it is computed with three masks and no loop.\<close>

theorem bit_count_is_hamming_distance:
  assumes "is_u32 a" "is_u32 b"
  shows "BitCount (a XOR b) = int (card {i. i < 32 \<and> bit a i \<noteq> bit b i})"
proof -
  have "BitCount (a XOR b) = bit_sum 32 (a XOR b)" by (rule BitCount_bit_sum [OF is_u32_xor [OF assms]])
  also have "\<dots> = int (card {i. i < 32 \<and> bit (a XOR b) i})" by (rule bit_sum_card)
  also have "{i. i < 32 \<and> bit (a XOR b) i} = {i. i < 32 \<and> bit a i \<noteq> bit b i}" by (auto simp: bit_xor_iff)
  finally show ?thesis .
qed

theorem bit_count_is_hamming_distance_witness:
  "BitCount (0xFFFF0000 XOR 0x0000FFFF) = int (card {i. i < 32 \<and> bit (0xFFFF0000 :: int) i \<noteq> bit (0x0000FFFF :: int) i})"
  by (rule bit_count_is_hamming_distance) (simp_all add: is_u32_def)

text \<open>C27: For every sequence of far-end and near-end words a well-formed estimator processes every block: the search
  always finds a candidate, so the histogram is never read or written outside its array, the state stays well formed
  (every smoothed count below 32 in Q9), and every result is -2, before the first estimate, or a delay of the history.\<close>

theorem delay_estimator_total:
  assumes "farend_ok far" "estimator_ok self" "far_history_size far = history_size self"
    and "\<forall>(f, n) \<in> set bs. is_u32 f \<and> is_u32 n"
  shows "\<exists>far' self' rs. estimator_run far self bs = Some (far', self', rs) \<and> farend_ok far' \<and> estimator_ok self' \<and>
    length rs = length bs \<and> (\<forall>r \<in> set rs. r = - 2 \<or> 0 \<le> r \<and> r < history_size self)"
  by (rule estimator_run_ok [OF assms])

definition sample_farend :: BinaryDelayEstimatorFarend where
  "sample_farend = \<lparr>far_bit_counts = [0, 0], binary_far_history = [0, 0], far_history_size = 2\<rparr>"

definition sample_estimator :: BinaryDelayEstimator where
  "sample_estimator = WebRtc_InitBinaryDelayEstimator
     \<lparr>mean_bit_counts = [0, 0, 0], bit_counts = [0, 0], binary_near_history = [0], near_history_size = 1, history_size = 2,
      minimum_probability = 0, last_delay_probability = 0, last_delay = 0, robust_validation_enabled = 0,
      allowed_offset = 0, last_candidate_delay = 0, compare_delay = 0, candidate_hits = 0, histogram = [0, 0, 0],
      last_delay_histogram = 0, lookahead = 0\<rparr>"

theorem delay_estimator_total_witness:
  "\<exists>far' self' rs. estimator_run (WebRtc_InitBinaryDelayEstimatorFarend sample_farend) sample_estimator [(5, 6), (7, 8)] =
      Some (far', self', rs) \<and> farend_ok far' \<and> estimator_ok self' \<and>
    length rs = 2 \<and> (\<forall>r \<in> set rs. r = - 2 \<or> 0 \<le> r \<and> r < 2)"
proof -
  have far: "farend_ok (WebRtc_InitBinaryDelayEstimatorFarend sample_farend)"
    by (rule farend_init_ok) (simp_all add: sample_farend_def)
  have self: "estimator_ok sample_estimator"
    unfolding sample_estimator_def by (rule estimator_init_ok) simp_all
  have "far_history_size (WebRtc_InitBinaryDelayEstimatorFarend sample_farend) = history_size sample_estimator"
    "history_size sample_estimator = 2"
    by (simp_all add: sample_farend_def sample_estimator_def WebRtc_InitBinaryDelayEstimatorFarend_def
        WebRtc_InitBinaryDelayEstimator_def Let_def)
  then show ?thesis
    using delay_estimator_total [OF far self, of "[(5, 6), (7, 8)]"] by (simp add: is_u32_def numeral_2_eq_2 del: estimator_run.simps)
qed

end
