(* ===== verification/AecmChannel.thy ===== *)
theory AecmChannel
  imports RingBuffer SplFft DelayEstimator SplMath
begin

text \<open>
  The core of the mobile echo control, \<open>src/webrtc/modules/audio_processing/aecm/aecm_core.cc\<close>: its state, the history of
  far-end spectra, the energies and the echo channel of a block, the suppression gain, and the delay line of the far end.
  The transforms and the processing of blocks and frames are in the theory AecmBlock.

  The arrays of \<open>AecmCore\<close> that the code aligns inside larger buffers are modelled by the aligned part. The three function
  pointers are the C versions.
\<close>

section \<open>Parameters\<close>

named_theorems aecm_sizes \<open>the sizes of aecm_defines.h\<close>

definition FRAME_LEN :: nat where "FRAME_LEN = 80"
definition PART_LEN :: nat where "PART_LEN = 64"
definition PART_LEN_SHIFT :: int where "PART_LEN_SHIFT = 7"
definition PART_LEN1 :: nat where "PART_LEN1 = PART_LEN + 1"
definition PART_LEN2 :: nat where "PART_LEN2 = PART_LEN * 2"
definition PART_LEN4 :: nat where "PART_LEN4 = PART_LEN * 4"
definition FAR_BUF_LEN :: nat where "FAR_BUF_LEN = PART_LEN4"
definition MAX_DELAY :: nat where "MAX_DELAY = 100"
definition CONV_LEN :: int where "CONV_LEN = 512"
definition CONV_LEN2 :: int where "CONV_LEN2 = 1024"
definition MAX_BUF_LEN :: nat where "MAX_BUF_LEN = 64"
definition FAR_ENERGY_MIN :: int where "FAR_ENERGY_MIN = 1025"
definition FAR_ENERGY_DIFF :: int where "FAR_ENERGY_DIFF = 929"
definition ENERGY_DEV_OFFSET :: int where "ENERGY_DEV_OFFSET = 0"
definition ENERGY_DEV_TOL :: int where "ENERGY_DEV_TOL = 400"
definition FAR_ENERGY_VAD_REGION :: int where "FAR_ENERGY_VAD_REGION = 230"
definition MU_MIN :: int where "MU_MIN = 10"
definition MU_MAX :: int where "MU_MAX = 1"
definition MU_DIFF :: int where "MU_DIFF = 9"
definition MIN_MSE_COUNT :: nat where "MIN_MSE_COUNT = 20"
definition MIN_MSE_DIFF :: int where "MIN_MSE_DIFF = 29"
definition MSE_RESOLUTION :: nat where "MSE_RESOLUTION = 5"
definition RESOLUTION_CHANNEL16 :: int where "RESOLUTION_CHANNEL16 = 12"
definition RESOLUTION_CHANNEL32 :: int where "RESOLUTION_CHANNEL32 = 28"
definition CHANNEL_VAD :: int where "CHANNEL_VAD = 16"
definition RESOLUTION_SUPGAIN :: int where "RESOLUTION_SUPGAIN = 8"
definition SUPGAIN_DEFAULT :: int where "SUPGAIN_DEFAULT = 256"
definition SUPGAIN_ERROR_PARAM_A :: int where "SUPGAIN_ERROR_PARAM_A = 3072"
definition SUPGAIN_ERROR_PARAM_B :: int where "SUPGAIN_ERROR_PARAM_B = 1536"
definition SUPGAIN_ERROR_PARAM_D :: int where "SUPGAIN_ERROR_PARAM_D = SUPGAIN_DEFAULT"
definition SUPGAIN_EPC_DT :: int where "SUPGAIN_EPC_DT = 200"
definition ONE_Q14 :: int where "ONE_Q14 = 16384"
definition NLP_COMP_LOW :: int where "NLP_COMP_LOW = 3277"
definition NLP_COMP_HIGH :: int where "NLP_COMP_HIGH = ONE_Q14"
definition AecmFalse :: int where "AecmFalse = 0"
definition AecmTrue :: int where "AecmTrue = 1"

declare FRAME_LEN_def [aecm_sizes] PART_LEN_def [aecm_sizes] PART_LEN1_def [aecm_sizes] PART_LEN2_def [aecm_sizes]
  PART_LEN4_def [aecm_sizes] FAR_BUF_LEN_def [aecm_sizes] MAX_DELAY_def [aecm_sizes] MAX_BUF_LEN_def [aecm_sizes]

definition kChannelStored8kHz :: "int list" where
  "kChannelStored8kHz = [
    2040, 1815, 1590, 1498, 1405, 1395, 1385, 1418, 1451, 1506, 1562, 1644, 1726, 1804, 1882, 1918, 1953,
    1982, 2010, 2025, 2040, 2034, 2027, 2021, 2014, 1997, 1980, 1925, 1869, 1800, 1732, 1683, 1635, 1604,
    1572, 1545, 1517, 1481, 1444, 1405, 1367, 1331, 1294, 1270, 1245, 1239, 1233, 1247, 1260, 1282, 1303,
    1338, 1373, 1407, 1441, 1470, 1499, 1524, 1549, 1565, 1582, 1601, 1621, 1649, 1676]"

definition kChannelStored16kHz :: "int list" where
  "kChannelStored16kHz = [
    2040, 1590, 1405, 1385, 1451, 1562, 1726, 1882, 1953, 2010, 2040, 2027, 2014, 1980, 1869, 1732, 1635,
    1572, 1517, 1444, 1367, 1294, 1245, 1233, 1260, 1303, 1373, 1441, 1499, 1549, 1582, 1621, 1676, 1741,
    1802, 1861, 1921, 1983, 2040, 2102, 2170, 2265, 2375, 2515, 2651, 2781, 2922, 3075, 3253, 3471, 3738,
    3976, 4151, 4258, 4308, 4288, 4270, 4253, 4237, 4179, 4086, 3947, 3757, 3484, 3153]"

section \<open>State\<close>

record AecmCore =
  farBufWritePos :: int
  farBufReadPos :: int
  knownDelay :: int
  lastKnownDelay :: int
  firstVAD :: int
  farFrameBuf :: ring_buffer
  nearNoisyFrameBuf :: ring_buffer
  nearCleanFrameBuf :: ring_buffer
  outFrameBuf :: ring_buffer
  farBuf :: "int list"
  mult :: int
  seed :: int
  delay_estimator_farend :: DelayEstimatorFarend
  delay_estimator :: DelayEstimator
  far_history :: "int list"
  far_history_pos :: int
  far_q_domains :: "int list"
  nlpFlag :: int
  fixedDelay :: int
  totCount :: int
  dfaCleanQDomain :: int
  dfaCleanQDomainOld :: int
  dfaNoisyQDomain :: int
  dfaNoisyQDomainOld :: int
  nearLogEnergy :: "int list"
  farLogEnergy :: int
  echoAdaptLogEnergy :: "int list"
  echoStoredLogEnergy :: "int list"
  channelStored :: "int list"
  channelAdapt16 :: "int list"
  channelAdapt32 :: "int list"
  xBuf :: "int list"
  dBufClean :: "int list"
  dBufNoisy :: "int list"
  outBuf :: "int list"
  echoFilt :: "int list"
  nearFilt :: "int list"
  noiseEst :: "int list"
  noiseEstTooLowCtr :: "int list"
  noiseEstTooHighCtr :: "int list"
  noiseEstCtr :: int
  cngMode :: int
  mseAdaptOld :: int
  mseStoredOld :: int
  mseThreshold :: int
  farEnergyMin :: int
  farEnergyMax :: int
  farEnergyMaxMin :: int
  farEnergyVAD :: int
  farEnergyMSE :: int
  currentVADValue :: int
  vadUpdateCount :: int
  startupState :: int
  mseChannelCount :: int
  supGain :: int
  supGainOld :: int
  supGainErrParamA :: int
  supGainErrParamD :: int
  supGainErrParamDiffAB :: int
  supGainErrParamDiffBD :: int
  real_fft :: RealFFT

section \<open>Far-end history\<close>

definition WebRtcAecm_UpdateFarHistory :: "AecmCore \<Rightarrow> int list \<Rightarrow> int \<Rightarrow> AecmCore" where
  "WebRtcAecm_UpdateFarHistory self far_spectrum far_q =
     (let pos = far_history_pos self + 1;
          pos = (if pos \<ge> int MAX_DELAY then 0 else pos)
      in self\<lparr>far_history_pos := pos,
              far_q_domains := (far_q_domains self)[nat pos := far_q],
              far_history := blit (nat pos * PART_LEN1) (take PART_LEN1 far_spectrum) (far_history self)\<rparr>)"

text \<open>The spectrum and its Q-domain; \<open>None\<close> when the position is outside the arrays.\<close>

definition WebRtcAecm_AlignedFarend :: "AecmCore \<Rightarrow> int \<Rightarrow> (int list \<times> int) option" where
  "WebRtcAecm_AlignedFarend self delay =
     (let buffer_position = far_history_pos self - delay;
          buffer_position = (if buffer_position < 0 then buffer_position + int MAX_DELAY else buffer_position)
      in if 0 \<le> buffer_position \<and> buffer_position < int MAX_DELAY
         then Some (take PART_LEN1 (drop (nat buffer_position * PART_LEN1) (far_history self)),
                    far_q_domains self ! nat buffer_position)
         else None)"

section \<open>Initialisation\<close>

definition WebRtcAecm_InitEchoPathCore :: "AecmCore \<Rightarrow> int list \<Rightarrow> AecmCore" where
  "WebRtcAecm_InitEchoPathCore aecm echo_path =
     (let aecm = aecm\<lparr>channelStored := blit 0 (take PART_LEN1 echo_path) (channelStored aecm),
                      channelAdapt16 := blit 0 (take PART_LEN1 echo_path) (channelAdapt16 aecm)\<rparr>;
          aecm = aecm\<lparr>channelAdapt32 :=
            fold (\<lambda>i ch. ch[i := shl (channelAdapt16 aecm ! i) 16]) [0..<PART_LEN1] (channelAdapt32 aecm)\<rparr>
      in aecm\<lparr>mseAdaptOld := 1000, mseStoredOld := 1000, mseThreshold := 2147483647, mseChannelCount := 0\<rparr>)"

text \<open>The initial noise level: \<open>(noise, tmp16, tmp32)\<close>.\<close>

definition initial_noise :: "int list \<Rightarrow> int list" where
  "initial_noise noise =
     (let m = PART_LEN1 div 2 - 1;
          (noise, tmp16, tmp32) =
            fold (\<lambda>i (noise, tmp16, tmp32).
                let noise = noise[i := shl tmp32 8]; tmp16 = to_i16 (tmp16 - 1); tmp32 = tmp32 - (shl tmp16 1 + 1)
                in (noise, tmp16, tmp32))
              [0..<m] (noise, int PART_LEN1, int PART_LEN1 * int PART_LEN1)
      in fold (\<lambda>i noise. noise[i := shl tmp32 8]) [m..<PART_LEN1] noise)"

definition init_core_buffers :: "AecmCore \<Rightarrow> AecmCore" where
  "init_core_buffers aecm =
     aecm\<lparr>farBufWritePos := 0, farBufReadPos := 0, knownDelay := 0, lastKnownDelay := 0,
          farFrameBuf := WebRtc_InitBuffer (farFrameBuf aecm),
          nearNoisyFrameBuf := WebRtc_InitBuffer (nearNoisyFrameBuf aecm),
          nearCleanFrameBuf := WebRtc_InitBuffer (nearCleanFrameBuf aecm),
          outFrameBuf := WebRtc_InitBuffer (outFrameBuf aecm),
          xBuf := replicate PART_LEN2 0, dBufClean := replicate PART_LEN2 0,
          dBufNoisy := replicate PART_LEN2 0, outBuf := replicate PART_LEN 0,
          seed := 666, totCount := 0\<rparr>"

definition init_core_state :: "AecmCore \<Rightarrow> AecmCore" where
  "init_core_state aecm =
     aecm\<lparr>far_history := replicate (PART_LEN1 * MAX_DELAY) 0, far_q_domains := replicate MAX_DELAY 0,
          far_history_pos := int MAX_DELAY, nlpFlag := 1, fixedDelay := - 1,
          dfaCleanQDomain := 0, dfaCleanQDomainOld := 0, dfaNoisyQDomain := 0, dfaNoisyQDomainOld := 0,
          nearLogEnergy := replicate MAX_BUF_LEN 0, farLogEnergy := 0,
          echoAdaptLogEnergy := replicate MAX_BUF_LEN 0, echoStoredLogEnergy := replicate MAX_BUF_LEN 0\<rparr>"

definition init_core_levels :: "AecmCore \<Rightarrow> AecmCore" where
  "init_core_levels aecm =
     aecm\<lparr>echoFilt := replicate PART_LEN1 0, nearFilt := replicate PART_LEN1 0, noiseEstCtr := 0, cngMode := AecmTrue,
          noiseEstTooLowCtr := replicate PART_LEN1 0, noiseEstTooHighCtr := replicate PART_LEN1 0,
          noiseEst := initial_noise (noiseEst aecm),
          farEnergyMin := 32767, farEnergyMax := - 32768, farEnergyMaxMin := 0, farEnergyVAD := FAR_ENERGY_MIN,
          farEnergyMSE := 0, currentVADValue := 0, vadUpdateCount := 0, firstVAD := 1, startupState := 0,
          supGain := SUPGAIN_DEFAULT, supGainOld := SUPGAIN_DEFAULT,
          supGainErrParamA := SUPGAIN_ERROR_PARAM_A, supGainErrParamD := SUPGAIN_ERROR_PARAM_D,
          supGainErrParamDiffAB := SUPGAIN_ERROR_PARAM_A - SUPGAIN_ERROR_PARAM_B,
          supGainErrParamDiffBD := SUPGAIN_ERROR_PARAM_B - SUPGAIN_ERROR_PARAM_D\<rparr>"

text \<open>The two estimators exist, so their initialisation succeeds.\<close>

definition WebRtcAecm_InitCore :: "AecmCore \<Rightarrow> int \<Rightarrow> AecmCore \<times> int" where
  "WebRtcAecm_InitCore aecm samplingFreq =
     (if samplingFreq \<noteq> 8000 \<and> samplingFreq \<noteq> 16000 then (aecm, - 1)
      else
        let aecm = init_core_buffers (aecm\<lparr>mult := c_div (to_i16 samplingFreq) 8000\<rparr>);
            (farend, err1) = WebRtc_InitDelayEstimatorFarend (Some (delay_estimator_farend aecm))
        in if err1 \<noteq> 0 then (aecm, - 1)
           else
             let aecm = aecm\<lparr>delay_estimator_farend := the farend\<rparr>;
                 (estimator, err2) = WebRtc_InitDelayEstimator (Some (delay_estimator aecm))
             in if err2 \<noteq> 0 then (aecm, - 1)
                else
                  let aecm = init_core_state (aecm\<lparr>delay_estimator := the estimator\<rparr>);
                      aecm = WebRtcAecm_InitEchoPathCore aecm
                               (if samplingFreq = 8000 then kChannelStored8kHz else kChannelStored16kHz)
                  in (init_core_levels aecm, 0))"

text \<open>\<open>alloc k\<close> are the two allocations of the \<open>k\<close>-th ring buffer; the other arguments are what the allocations of the
  estimators and of the transform return. \<open>fresh\<close> is the memory of the instance.\<close>

definition WebRtcAecm_CreateCore ::
    "AecmCore \<Rightarrow> (nat \<Rightarrow> bool \<times> (nat \<Rightarrow> int list option)) \<Rightarrow> DelayEstimatorFarend option \<Rightarrow>
     BinaryDelayEstimatorFarend option \<Rightarrow> int list option \<Rightarrow> DelayEstimator option \<Rightarrow> BinaryDelayEstimator option \<Rightarrow>
     int list option \<Rightarrow> bool \<Rightarrow> AecmCore option" where
  "WebRtcAecm_CreateCore fresh alloc fresh_farend farend mean_far fresh_estimator estimator mean_near malloc_fft =
     (let create = (\<lambda>k. WebRtc_CreateBuffer (fst (alloc k)) (snd (alloc k)) (FRAME_LEN + PART_LEN) 2);
          handle_farend = WebRtc_CreateDelayEstimatorFarend fresh_farend farend mean_far (int PART_LEN1);
          handle = WebRtc_CreateDelayEstimator fresh_estimator handle_farend estimator mean_near;
          handle = fst (WebRtc_enable_robust_validation handle 0)
      in case (create 0, create 1, create 2, create 3, handle_farend, handle,
               WebRtcSpl_CreateRealFFT malloc_fft PART_LEN_SHIFT) of
           (Some b0, Some b1, Some b2, Some b3, Some f, Some e, Some fft) \<Rightarrow>
             Some (fresh\<lparr>farFrameBuf := b0, nearNoisyFrameBuf := b1, nearCleanFrameBuf := b2, outFrameBuf := b3,
                         delay_estimator_farend := f, delay_estimator := e, real_fft := fft\<rparr>)
         | _ \<Rightarrow> None)"

definition WebRtcAecm_Control :: "AecmCore \<Rightarrow> int \<Rightarrow> int \<Rightarrow> AecmCore \<times> int" where
  "WebRtcAecm_Control aecm delay nlp = (aecm\<lparr>nlpFlag := to_i16 nlp, fixedDelay := to_i16 delay\<rparr>, 0)"


section \<open>The linear echo estimate\<close>

text \<open>The sums are \<open>uint32_t\<close>: far-end energy, echo energy of the adaptive and of the stored channel.\<close>

definition CalcLinearEnergiesC ::
    "AecmCore \<Rightarrow> int list \<Rightarrow> int list \<Rightarrow> int \<Rightarrow> int \<Rightarrow> int \<Rightarrow> int list \<times> int \<times> int \<times> int" where
  "CalcLinearEnergiesC aecm far_spectrum echo_est far_energy echo_energy_adapt echo_energy_stored =
     fold (\<lambda>i (est, far, adapt, stored).
       let e = SPL_MUL_16_U16 (channelStored aecm ! i) (far_spectrum ! i)
       in (est[i := e], to_u32 (far + far_spectrum ! i),
           to_u32 (adapt + channelAdapt16 aecm ! i * far_spectrum ! i), to_u32 (stored + to_u32 e)))
     [0..<PART_LEN1] (echo_est, far_energy, echo_energy_adapt, echo_energy_stored)"

definition StoreAdaptiveChannelC :: "AecmCore \<Rightarrow> int list \<Rightarrow> int list \<Rightarrow> AecmCore \<times> int list" where
  "StoreAdaptiveChannelC aecm far_spectrum echo_est =
     (let aecm = aecm\<lparr>channelStored := blit 0 (take PART_LEN1 (channelAdapt16 aecm)) (channelStored aecm)\<rparr>;
          e = (\<lambda>i. SPL_MUL_16_U16 (channelStored aecm ! i) (far_spectrum ! i));
          echo_est = fold (\<lambda>i est. est[i := e i, i + 1 := e (i + 1), i + 2 := e (i + 2), i + 3 := e (i + 3)])
                       (strided 0 PART_LEN 4) echo_est
      in (aecm, echo_est[PART_LEN := e PART_LEN]))"

definition ResetAdaptiveChannelC :: "AecmCore \<Rightarrow> AecmCore" where
  "ResetAdaptiveChannelC aecm =
     (let aecm = aecm\<lparr>channelAdapt16 := blit 0 (take PART_LEN1 (channelStored aecm)) (channelAdapt16 aecm)\<rparr>;
          c = (\<lambda>i. shl (channelStored aecm ! i) 16);
          ch = fold (\<lambda>i ch. ch[i := c i, i + 1 := c (i + 1), i + 2 := c (i + 2), i + 3 := c (i + 3)])
                 (strided 0 PART_LEN 4) (channelAdapt32 aecm)
      in aecm\<lparr>channelAdapt32 := ch[PART_LEN := c PART_LEN]\<rparr>)"

section \<open>Log energies and voice activity\<close>

definition WebRtcAecm_AsymFilt :: "int \<Rightarrow> int \<Rightarrow> nat \<Rightarrow> nat \<Rightarrow> int" where
  "WebRtcAecm_AsymFilt filtOld inVal stepSizePos stepSizeNeg =
     (if filtOld = 32767 \<or> filtOld = - 32768 then inVal
      else if filtOld > inVal then to_i16 (filtOld - shr (filtOld - inVal) stepSizeNeg)
      else to_i16 (filtOld + shr (inVal - filtOld) stepSizePos))"

definition ExtractFractionPart :: "int \<Rightarrow> int \<Rightarrow> int" where
  "ExtractFractionPart a zeros = to_i16 (shr (to_u32 (shl a (nat zeros)) AND 0x7FFFFFFF) 23)"

definition LogOfEnergyInQ8 :: "int \<Rightarrow> int \<Rightarrow> int" where
  "LogOfEnergyInQ8 energy q_domain =
     (let kLogLowValue = shl PART_LEN_SHIFT 7
      in if energy > 0 then
           let zeros = WebRtcSpl_NormU32 energy;
               frac = ExtractFractionPart energy zeros
           in to_i16 (kLogLowValue + (shl (31 - zeros) 8 + frac - shl q_domain 8))
         else kLogLowValue)"

text \<open>A new value enters a history at the front.\<close>

definition push_front :: "int \<Rightarrow> int list \<Rightarrow> int list" where
  "push_front x xs = (blit 1 (take (MAX_BUF_LEN - 1) xs) xs)[0 := x]"

text \<open>The logarithms of the energies of the block; the second result is the echo estimate.\<close>

definition update_log_energies :: "AecmCore \<Rightarrow> int list \<Rightarrow> int \<Rightarrow> int \<Rightarrow> int list \<Rightarrow> AecmCore \<times> int list" where
  "update_log_energies aecm far_spectrum far_q nearEner echoEst =
     (let aecm = aecm\<lparr>nearLogEnergy := push_front (LogOfEnergyInQ8 nearEner (dfaNoisyQDomain aecm)) (nearLogEnergy aecm)\<rparr>;
          (echoEst, tmpFar, tmpAdapt, tmpStored) = CalcLinearEnergiesC aecm far_spectrum echoEst 0 0 0
      in (aecm\<lparr>farLogEnergy := LogOfEnergyInQ8 tmpFar far_q,
               echoAdaptLogEnergy := push_front (LogOfEnergyInQ8 tmpAdapt (RESOLUTION_CHANNEL16 + far_q)) (echoAdaptLogEnergy aecm),
               echoStoredLogEnergy := push_front (LogOfEnergyInQ8 tmpStored (RESOLUTION_CHANNEL16 + far_q)) (echoStoredLogEnergy aecm)\<rparr>,
          echoEst))"

text \<open>The width of the region of voice activity above the minimum, and the threshold in it.\<close>

definition vad_region :: "int \<Rightarrow> int" where
  "vad_region energy_min =
     (let tmp16 = to_i16 (2560 - energy_min);
          tmp16 = (if tmp16 > 0 then to_i16 (shr (tmp16 * FAR_ENERGY_VAD_REGION) 9) else 0)
      in to_i16 (tmp16 + FAR_ENERGY_VAD_REGION))"

definition update_vad_level :: "AecmCore \<Rightarrow> int \<Rightarrow> AecmCore" where
  "update_vad_level aecm tmp16 =
     (if startupState aecm = 0 \<or> vadUpdateCount aecm > 1024
      then aecm\<lparr>farEnergyVAD := to_i16 (farEnergyMin aecm + tmp16)\<rparr>
      else if farEnergyVAD aecm > farLogEnergy aecm
      then aecm\<lparr>farEnergyVAD := to_i16 (farEnergyVAD aecm + shr (farLogEnergy aecm + tmp16 - farEnergyVAD aecm) 6),
                vadUpdateCount := 0\<rparr>
      else aecm\<lparr>vadUpdateCount := to_i16 (vadUpdateCount aecm + 1)\<rparr>)"

definition update_far_levels :: "AecmCore \<Rightarrow> AecmCore" where
  "update_far_levels aecm =
     (if farLogEnergy aecm > FAR_ENERGY_MIN then
        let start = (startupState aecm = 0);
            increase_max_shifts = (if start then 2 else 4);
            decrease_max_shifts = 11;
            increase_min_shifts = (if start then 8 else 11);
            decrease_min_shifts = (if start then 2 else 3);
            aecm = aecm\<lparr>farEnergyMin := WebRtcAecm_AsymFilt (farEnergyMin aecm) (farLogEnergy aecm) increase_min_shifts decrease_min_shifts\<rparr>;
            aecm = aecm\<lparr>farEnergyMax := WebRtcAecm_AsymFilt (farEnergyMax aecm) (farLogEnergy aecm) increase_max_shifts decrease_max_shifts\<rparr>;
            aecm = aecm\<lparr>farEnergyMaxMin := to_i16 (farEnergyMax aecm - farEnergyMin aecm)\<rparr>;
            aecm = update_vad_level aecm (vad_region (farEnergyMin aecm))
        in aecm\<lparr>farEnergyMSE := to_i16 (farEnergyVAD aecm + 256)\<rparr>
      else aecm)"

definition update_vad_value :: "AecmCore \<Rightarrow> AecmCore" where
  "update_vad_value aecm =
     (if farLogEnergy aecm > farEnergyVAD aecm then
        (if startupState aecm = 0 \<or> farEnergyMaxMin aecm > FAR_ENERGY_DIFF then aecm\<lparr>currentVADValue := 1\<rparr> else aecm)
      else aecm\<lparr>currentVADValue := 0\<rparr>)"

text \<open>The first active block: an initial channel that is too strong is scaled down.\<close>

definition first_active_block :: "AecmCore \<Rightarrow> AecmCore" where
  "first_active_block aecm =
     (if currentVADValue aecm \<noteq> 0 \<and> firstVAD aecm \<noteq> 0 then
        let aecm = aecm\<lparr>firstVAD := 0\<rparr>
        in if echoAdaptLogEnergy aecm ! 0 > nearLogEnergy aecm ! 0 then
             aecm\<lparr>channelAdapt16 := fold (\<lambda>i ch. ch[i := shr (ch ! i) 3]) [0..<PART_LEN1] (channelAdapt16 aecm),
                  echoAdaptLogEnergy := (echoAdaptLogEnergy aecm)[0 := to_i16 (echoAdaptLogEnergy aecm ! 0 - shl 3 8)],
                  firstVAD := 1\<rparr>
           else aecm
      else aecm)"

definition WebRtcAecm_CalcEnergies :: "AecmCore \<Rightarrow> int list \<Rightarrow> int \<Rightarrow> int \<Rightarrow> int list \<Rightarrow> AecmCore \<times> int list" where
  "WebRtcAecm_CalcEnergies aecm far_spectrum far_q nearEner echoEst =
     (let (aecm, echoEst) = update_log_energies aecm far_spectrum far_q nearEner echoEst
      in (first_active_block (update_vad_value (update_far_levels aecm)), echoEst))"

section \<open>Channel estimation\<close>

definition WebRtcAecm_CalcStepSize :: "AecmCore \<Rightarrow> int" where
  "WebRtcAecm_CalcStepSize aecm =
     (let mu = MU_MAX
      in if currentVADValue aecm = 0 then 0
         else if startupState aecm > 0 then
           let mu = (if farEnergyMin aecm \<ge> farEnergyMax aecm then MU_MIN
                     else
                       let tmp16 = to_i16 (farLogEnergy aecm - farEnergyMin aecm);
                           tmp32 = WebRtcSpl_DivW32W16 (tmp16 * MU_DIFF) (farEnergyMaxMin aecm)
                       in to_i16 (MU_MIN - 1 - to_i16 tmp32))
           in if mu < MU_MAX then MU_MAX else mu
         else mu)"

text \<open>The product of the channel and the far end of a bin, with the shift that avoids an overflow.\<close>

definition channel_product :: "int \<Rightarrow> int \<Rightarrow> int \<times> int" where
  "channel_product ch far =
     (let zerosCh = WebRtcSpl_NormU32 (to_u32 ch);
          zerosFar = WebRtcSpl_NormU32 far
      in if zerosCh + zerosFar > 31 then (SPL_UMUL_32_16 ch far, 0)
         else let shiftChFar = 32 - zerosCh - zerosFar in (to_u32 (shr ch (nat shiftChFar) * far), shiftChFar))"

text \<open>The common Q-domain of the echo and of the near end: \<open>(xfaQ, dfaQ)\<close>.\<close>

definition channel_q_domains :: "AecmCore \<Rightarrow> int \<Rightarrow> int \<Rightarrow> int \<Rightarrow> int \<Rightarrow> int \<times> int" where
  "channel_q_domains aecm far_q dfa product shiftChFar =
     (let zerosNum = WebRtcSpl_NormU32 product;
          zerosDfa = (if dfa \<noteq> 0 then WebRtcSpl_NormU32 dfa else 32);
          tmp16no1 = to_i16 (zerosDfa - 2 + dfaNoisyQDomain aecm - RESOLUTION_CHANNEL32 - far_q + shiftChFar)
      in if zerosNum > tmp16no1 + 1 then (tmp16no1, to_i16 (zerosDfa - 2))
         else let xfaQ = to_i16 (zerosNum - 2)
              in (xfaQ, to_i16 (RESOLUTION_CHANNEL32 + far_q - dfaNoisyQDomain aecm - shiftChFar + xfaQ)))"

text \<open>The error times the far end, and the shift applied before the product.\<close>

definition channel_gradient :: "int \<Rightarrow> int \<Rightarrow> int \<times> int" where
  "channel_gradient err far =
     (let zerosNum = WebRtcSpl_NormW32 err;
          zerosFar = WebRtcSpl_NormU32 far
      in if zerosNum + zerosFar > 31 then
           (if err > 0 then to_i32 (SPL_UMUL_32_16 err far)
            else to_i32 (- to_i32 (SPL_UMUL_32_16 (to_i32 (- err)) far)), 0)
         else
           let shiftNum = 32 - (zerosNum + zerosFar)
           in (if err > 0 then to_i32 (shr err (nat shiftNum) * far)
               else to_i32 (- to_i32 (shr (to_i32 (- err)) (nat shiftNum) * far)), shiftNum))"

definition update_channel_bin :: "int list \<Rightarrow> int \<Rightarrow> int list \<Rightarrow> int \<Rightarrow> nat \<Rightarrow> AecmCore \<Rightarrow> AecmCore" where
  "update_channel_bin far_spectrum far_q dfa mu i aecm =
     (let far = far_spectrum ! i;
          ch = channelAdapt32 aecm ! i;
          (tmpU32no1, shiftChFar) = channel_product ch far;
          (xfaQ, dfaQ) = channel_q_domains aecm far_q (dfa ! i) tmpU32no1 shiftChFar;
          tmpU32no1 = SPL_SHIFT_U32 tmpU32no1 xfaQ;
          tmpU32no2 = SPL_SHIFT_U32 (dfa ! i) dfaQ;
          tmp32no1 = to_i32 (to_i32 tmpU32no2 - to_i32 tmpU32no1)
      in if tmp32no1 \<noteq> 0 \<and> far > shl CHANNEL_VAD (nat far_q) then
           let (tmp32no2, shiftNum) = channel_gradient tmp32no1 far;
               tmp32no2 = WebRtcSpl_DivW32W16 tmp32no2 (int i + 1);
               shift2ResChan = to_i16 (shiftNum + shiftChFar - xfaQ - mu - shl (30 - WebRtcSpl_NormU32 far) 1);
               tmp32no2 = (if WebRtcSpl_NormW32 tmp32no2 < shift2ResChan then 2147483647
                           else SPL_SHIFT_W32 tmp32no2 shift2ResChan);
               ch = WebRtcSpl_AddSatW32 ch tmp32no2;
               ch = (if ch < 0 then 0 else ch)
           in aecm\<lparr>channelAdapt32 := (channelAdapt32 aecm)[i := ch],
                   channelAdapt16 := (channelAdapt16 aecm)[i := to_i16 (shr ch 16)]\<rparr>
         else aecm)"

definition adapt_channel :: "AecmCore \<Rightarrow> int list \<Rightarrow> int \<Rightarrow> int list \<Rightarrow> int \<Rightarrow> AecmCore" where
  "adapt_channel aecm far_spectrum far_q dfa mu =
     (if mu \<noteq> 0 then fold (update_channel_bin far_spectrum far_q dfa mu) [0..<PART_LEN1] aecm else aecm)"

text \<open>The absolute errors of the stored and of the adaptive channel over the last blocks.\<close>

definition channel_errors :: "AecmCore \<Rightarrow> int \<times> int" where
  "channel_errors aecm =
     fold (\<lambda>i (mseStored, mseAdapt).
       (to_i32 (mseStored + SPL_ABS_W32 (echoStoredLogEnergy aecm ! i - nearLogEnergy aecm ! i)),
        to_i32 (mseAdapt + SPL_ABS_W32 (echoAdaptLogEnergy aecm ! i - nearLogEnergy aecm ! i))))
     [0..<MIN_MSE_COUNT] (0, 0)"

definition next_threshold :: "AecmCore \<Rightarrow> int \<Rightarrow> int" where
  "next_threshold aecm mseAdapt =
     (if mseThreshold aecm = 2147483647 then to_i32 (mseAdapt + mseAdaptOld aecm)
      else
        let scaled_threshold = c_div (to_i32 (mseThreshold aecm * 5)) 8
        in to_i32 (mseThreshold aecm + shr (to_i32 ((mseAdapt - scaled_threshold) * 205)) 8))"

definition validate_channel :: "AecmCore \<Rightarrow> int list \<Rightarrow> int list \<Rightarrow> AecmCore \<times> int list" where
  "validate_channel aecm far_spectrum echoEst =
     (let (mseStored, mseAdapt) = channel_errors aecm;
          (aecm, echoEst) =
            (if to_i32 (shl mseStored MSE_RESOLUTION) < to_i32 (MIN_MSE_DIFF * mseAdapt) \<and>
                to_i32 (shl (mseStoredOld aecm) MSE_RESOLUTION) < to_i32 (MIN_MSE_DIFF * mseAdaptOld aecm)
             then (ResetAdaptiveChannelC aecm, echoEst)
             else if to_i32 (MIN_MSE_DIFF * mseStored) > to_i32 (shl mseAdapt MSE_RESOLUTION) \<and>
                mseAdapt < mseThreshold aecm \<and> mseAdaptOld aecm < mseThreshold aecm
             then let (aecm, echoEst) = StoreAdaptiveChannelC aecm far_spectrum echoEst
                  in (aecm\<lparr>mseThreshold := next_threshold aecm mseAdapt\<rparr>, echoEst)
             else (aecm, echoEst))
      in (aecm\<lparr>mseChannelCount := 0, mseStoredOld := mseStored, mseAdaptOld := mseAdapt\<rparr>, echoEst))"

definition WebRtcAecm_UpdateChannel ::
    "AecmCore \<Rightarrow> int list \<Rightarrow> int \<Rightarrow> int list \<Rightarrow> int \<Rightarrow> int list \<Rightarrow> AecmCore \<times> int list" where
  "WebRtcAecm_UpdateChannel aecm far_spectrum far_q dfa mu echoEst =
     (let aecm = adapt_channel aecm far_spectrum far_q dfa mu
      in if startupState aecm = 0 \<and> currentVADValue aecm \<noteq> 0 then StoreAdaptiveChannelC aecm far_spectrum echoEst
         else
           let aecm = aecm\<lparr>mseChannelCount := (if farLogEnergy aecm < farEnergyMSE aecm then 0
                                             else to_i16 (mseChannelCount aecm + 1))\<rparr>
           in if mseChannelCount aecm \<ge> int MIN_MSE_COUNT + 10 then validate_channel aecm far_spectrum echoEst
              else (aecm, echoEst))"

section \<open>Suppression gain\<close>

definition wanted_gain :: "AecmCore \<Rightarrow> int" where
  "wanted_gain aecm =
     (if currentVADValue aecm = 0 then 0
      else
        let tmp16no1 = to_i16 (nearLogEnergy aecm ! 0 - echoStoredLogEnergy aecm ! 0 - ENERGY_DEV_OFFSET);
            dE = to_i16 (SPL_ABS_W16 tmp16no1)
        in if dE < ENERGY_DEV_TOL then
             (if dE < SUPGAIN_EPC_DT then
                let tmp32no1 = to_i32 (supGainErrParamDiffAB aecm * dE + shr SUPGAIN_EPC_DT 1);
                    tmp16no1 = to_i16 (WebRtcSpl_DivW32W16 tmp32no1 SUPGAIN_EPC_DT)
                in to_i16 (supGainErrParamA aecm - tmp16no1)
              else
                let tmp32no1 = to_i32 (supGainErrParamDiffBD aecm * (ENERGY_DEV_TOL - dE) + shr (ENERGY_DEV_TOL - SUPGAIN_EPC_DT) 1);
                    tmp16no1 = to_i16 (WebRtcSpl_DivW32W16 tmp32no1 (ENERGY_DEV_TOL - SUPGAIN_EPC_DT))
                in to_i16 (supGainErrParamD aecm + tmp16no1))
           else supGainErrParamD aecm)"

definition WebRtcAecm_CalcSuppressionGain :: "AecmCore \<Rightarrow> AecmCore \<times> int" where
  "WebRtcAecm_CalcSuppressionGain aecm =
     (let gain = wanted_gain aecm;
          tmp16no1 = (if gain > supGainOld aecm then gain else supGainOld aecm);
          aecm = aecm\<lparr>supGainOld := gain\<rparr>;
          aecm = (if tmp16no1 < supGain aecm
                  then aecm\<lparr>supGain := to_i16 (supGain aecm + to_i16 (shr (tmp16no1 - supGain aecm) 4))\<rparr>
                  else aecm\<lparr>supGain := to_i16 (supGain aecm + to_i16 (shr (tmp16no1 - supGain aecm) 4))\<rparr>)
      in (aecm, supGain aecm))"

section \<open>The delay line of the far end\<close>

text \<open>The loop \<open>while (farBufWritePos + writeLen > FAR_BUF_LEN)\<close>, on the buffer, the positions and the remaining length.
  The code passes \<open>FRAME_LEN\<close>; for more than two buffer lengths the loop does not end, because \<open>writePos\<close> and
  \<open>writeLen\<close> forget the parts before the last one.\<close>

partial_function (option) far_write_loop ::
    "int list \<Rightarrow> int \<Rightarrow> int list \<Rightarrow> int \<Rightarrow> int \<Rightarrow> int \<Rightarrow> (int list \<times> int \<times> int \<times> int) option" where
  "far_write_loop farend farLen buf pos writeLen writePos =
     (if pos + writeLen > int FAR_BUF_LEN then
        let writeLen = int FAR_BUF_LEN - pos;
            buf = blit (nat pos) (take (nat writeLen) (drop (nat writePos) farend)) buf
        in far_write_loop farend farLen buf 0 (farLen - writeLen) writeLen
      else Some (buf, pos, writeLen, writePos))"

definition WebRtcAecm_BufferFarFrame :: "AecmCore \<Rightarrow> int list \<Rightarrow> int \<Rightarrow> AecmCore option" where
  "WebRtcAecm_BufferFarFrame aecm farend farLen =
     (case far_write_loop farend farLen (farBuf aecm) (farBufWritePos aecm) farLen 0 of
        None \<Rightarrow> None
      | Some (buf, pos, writeLen, writePos) \<Rightarrow>
          Some (aecm\<lparr>farBuf := blit (nat pos) (take (nat writeLen) (drop (nat writePos) farend)) buf,
                     farBufWritePos := pos + writeLen\<rparr>))"

text \<open>The two loops that bring the read position back into the buffer.\<close>

function wrap_up :: "int \<Rightarrow> int" where
  "wrap_up pos = (if pos < 0 then wrap_up (pos + int FAR_BUF_LEN) else pos)"
  by pat_completeness auto
termination by (relation "measure (\<lambda>pos. nat (- pos))") (simp_all add: aecm_sizes)

function wrap_down :: "int \<Rightarrow> int" where
  "wrap_down pos = (if pos > int FAR_BUF_LEN - 1 then wrap_down (pos - int FAR_BUF_LEN) else pos)"
  by pat_completeness auto
termination by (relation "measure nat") (simp_all add: aecm_sizes)

declare wrap_up.simps [simp del] wrap_down.simps [simp del]

partial_function (option) far_read_loop ::
    "int list \<Rightarrow> int \<Rightarrow> int list \<Rightarrow> int \<Rightarrow> int \<Rightarrow> int \<Rightarrow> (int list \<times> int \<times> int \<times> int) option" where
  "far_read_loop buf farLen farend pos readLen readPos =
     (if pos + readLen > int FAR_BUF_LEN then
        let readLen = int FAR_BUF_LEN - pos;
            farend = blit (nat readPos) (take (nat readLen) (drop (nat pos) buf)) farend
        in far_read_loop buf farLen farend 0 (farLen - readLen) readLen
      else Some (farend, pos, readLen, readPos))"

text \<open>The result is the state and the frame, written into the array \<open>farend\<close> of the caller.\<close>

definition WebRtcAecm_FetchFarFrame :: "AecmCore \<Rightarrow> int list \<Rightarrow> int \<Rightarrow> int \<Rightarrow> (AecmCore \<times> int list) option" where
  "WebRtcAecm_FetchFarFrame aecm farend farLen delay =
     (let delayChange = to_i32 (delay - lastKnownDelay aecm);
          pos = wrap_down (wrap_up (to_i32 (farBufReadPos aecm - delayChange)))
      in case far_read_loop (farBuf aecm) farLen farend pos farLen 0 of
           None \<Rightarrow> None
         | Some (farend, pos, readLen, readPos) \<Rightarrow>
             Some (aecm\<lparr>farBufReadPos := pos + readLen, lastKnownDelay := delay\<rparr>,
                   blit (nat readPos) (take (nat readLen) (drop (nat pos) (farBuf aecm))) farend))"


section \<open>Arrays with bounded elements\<close>

definition array_of :: "nat \<Rightarrow> (int \<Rightarrow> bool) \<Rightarrow> int list \<Rightarrow> bool" where
  "array_of n P xs \<longleftrightarrow> length xs = n \<and> (\<forall>x \<in> set xs. P x)"

definition between :: "int \<Rightarrow> int \<Rightarrow> int \<Rightarrow> bool" where
  "between a b x \<longleftrightarrow> a \<le> x \<and> x \<le> b"

lemma array_of_length: "array_of n P xs \<Longrightarrow> length xs = n"
  by (simp add: array_of_def)

lemma array_of_nth: "array_of n P xs \<Longrightarrow> i < n \<Longrightarrow> P (xs ! i)"
  by (simp add: array_of_def)

lemma array_of_update [simp]: "array_of n P xs \<Longrightarrow> P v \<Longrightarrow> array_of n P (xs[i := v])"
  using set_update_subset_insert [of xs i v] by (auto simp: array_of_def)

lemma array_of_replicate [simp]: "P v \<Longrightarrow> array_of n P (replicate n v)"
  by (auto simp: array_of_def)

lemma array_of_blit [simp]:
  assumes "array_of n P xs" "array_of k P ys" "off + k \<le> n"
  shows "array_of n P (blit off ys xs)"
  using assms by (auto simp: array_of_def blit_def dest: in_set_takeD in_set_dropD)

lemma array_of_slice [simp]: "array_of n P xs \<Longrightarrow> a + k \<le> n \<Longrightarrow> array_of k P (take k (drop a xs))"
  by (auto simp: array_of_def dest: in_set_takeD in_set_dropD)

lemma array_of_take [simp]: "array_of n P xs \<Longrightarrow> k \<le> n \<Longrightarrow> array_of k P (take k xs)"
  by (auto simp: array_of_def dest: in_set_takeD)

lemma array_of_i16: "array_of n is_i16 = i16_array n"
  by (simp add: array_of_def i16_array_def all_i16_def fun_eq_iff)

lemma array_of_fold:
  assumes "array_of n P xs" "\<And>i ys. i \<in> set is \<Longrightarrow> array_of n P ys \<Longrightarrow> array_of n P (f i ys)"
  shows "array_of n P (fold f is xs)"
  using assms by (induction "is" arbitrary: xs) simp_all

section \<open>The invariant of the core\<close>

definition estimators_ok :: "AecmCore \<Rightarrow> bool" where
  "estimators_ok a \<longleftrightarrow>
     (let f = delay_estimator_farend a; e = delay_estimator a
      in farend_ok (binary_farend f) \<and> far_history_size (binary_farend f) = int MAX_DELAY \<and>
         far_spectrum_size f = int PART_LEN1 \<and> length (mean_far_spectrum f) = PART_LEN1 \<and> threshold_ok (mean_far_spectrum f) \<and>
         estimator_ok (binary_handle e) \<and> history_size (binary_handle e) = int MAX_DELAY \<and>
         spectrum_size e = int PART_LEN1 \<and> length (mean_near_spectrum e) = PART_LEN1 \<and> threshold_ok (mean_near_spectrum e))"

definition spectra_ok :: "AecmCore \<Rightarrow> bool" where
  "spectra_ok a \<longleftrightarrow>
     array_of (MAX_DELAY * PART_LEN1) (between 0 65535) (far_history a) \<and> array_of MAX_DELAY (between 0 15) (far_q_domains a) \<and>
     between 0 (int MAX_DELAY) (far_history_pos a) \<and> - 1 \<le> fixedDelay a \<and> fixedDelay a < int MAX_DELAY \<and>
     between 0 15 (dfaCleanQDomain a) \<and> between 0 15 (dfaCleanQDomainOld a) \<and>
     between 0 15 (dfaNoisyQDomain a) \<and> between 0 15 (dfaNoisyQDomainOld a) \<and>
     array_of PART_LEN2 is_i16 (xBuf a) \<and> array_of PART_LEN2 is_i16 (dBufNoisy a) \<and>
     array_of PART_LEN2 is_i16 (dBufClean a) \<and> array_of PART_LEN is_i16 (outBuf a) \<and> order (real_fft a) = 7"

definition log_energy :: "int \<Rightarrow> bool" where
  "log_energy = between (- 8000) 10000"

text \<open>A logarithm just computed, before the compensation of the first active block.\<close>

definition fresh_energy :: "int \<Rightarrow> bool" where
  "fresh_energy = between (- 6016) 9087"

definition channel_ok :: "AecmCore \<Rightarrow> bool" where
  "channel_ok a \<longleftrightarrow>
     array_of MAX_BUF_LEN log_energy (nearLogEnergy a) \<and> array_of MAX_BUF_LEN log_energy (echoAdaptLogEnergy a) \<and>
     array_of MAX_BUF_LEN log_energy (echoStoredLogEnergy a) \<and>
     array_of PART_LEN1 is_i16 (channelStored a) \<and> array_of PART_LEN1 is_i16 (channelAdapt16 a) \<and>
     array_of PART_LEN1 is_i32 (channelAdapt32 a)"

definition gain_params_ok :: "AecmCore \<Rightarrow> bool" where
  "gain_params_ok a \<longleftrightarrow>
     0 \<le> supGainErrParamD a \<and> 0 \<le> supGainErrParamDiffAB a \<and> 0 \<le> supGainErrParamDiffBD a \<and>
     supGainErrParamA a - supGainErrParamDiffAB a = supGainErrParamD a + supGainErrParamDiffBD a \<and>
     supGainErrParamA a \<le> 2 * SUPGAIN_ERROR_PARAM_A \<and>
     between 0 (supGainErrParamA a) (supGain a) \<and> between 0 (supGainErrParamA a) (supGainOld a)"

definition filters_ok :: "AecmCore \<Rightarrow> bool" where
  "filters_ok a \<longleftrightarrow>
     array_of PART_LEN1 is_i32 (echoFilt a) \<and> array_of PART_LEN1 is_i16 (nearFilt a) \<and>
     array_of PART_LEN1 (between 0 1073741824) (noiseEst a) \<and> length (noiseEstTooLowCtr a) = PART_LEN1 \<and>
     length (noiseEstTooHighCtr a) = PART_LEN1"

definition core_ok :: "AecmCore \<Rightarrow> bool" where
  "core_ok a \<longleftrightarrow> estimators_ok a \<and> spectra_ok a \<and> channel_ok a \<and> gain_params_ok a \<and> filters_ok a"

text \<open>What the processing of a block leaves alone: the frame buffers, the delay line and the sampling rate.\<close>

definition frame_part :: "AecmCore \<Rightarrow> (ring_buffer \<times> ring_buffer \<times> ring_buffer \<times> ring_buffer) \<times> int list \<times> int \<times> int \<times> int \<times> int \<times> int" where
  "frame_part a = ((farFrameBuf a, nearNoisyFrameBuf a, nearCleanFrameBuf a, outFrameBuf a),
     farBuf a, farBufWritePos a, farBufReadPos a, knownDelay a, lastKnownDelay a, mult a)"

lemmas core_parts = core_ok_def estimators_ok_def spectra_ok_def channel_ok_def gain_params_ok_def filters_ok_def

text \<open>The fields the invariant and the frame part do not speak about.\<close>

lemma core_ok_untouched [simp]:
  "core_ok (a\<lparr>firstVAD := v0\<rparr>) = core_ok a" "core_ok (a\<lparr>mult := v1\<rparr>) = core_ok a"
  "core_ok (a\<lparr>totCount := v2\<rparr>) = core_ok a" "core_ok (a\<lparr>farLogEnergy := v3\<rparr>) = core_ok a"
  "core_ok (a\<lparr>noiseEstCtr := v4\<rparr>) = core_ok a" "core_ok (a\<lparr>cngMode := v5\<rparr>) = core_ok a"
  "core_ok (a\<lparr>seed := v6\<rparr>) = core_ok a" "core_ok (a\<lparr>mseAdaptOld := v7\<rparr>) = core_ok a"
  "core_ok (a\<lparr>mseStoredOld := v8\<rparr>) = core_ok a"
  "core_ok (a\<lparr>mseThreshold := v9\<rparr>) = core_ok a"
  "core_ok (a\<lparr>farEnergyMin := v10\<rparr>) = core_ok a"
  "core_ok (a\<lparr>farEnergyMax := v11\<rparr>) = core_ok a"
  "core_ok (a\<lparr>farEnergyMaxMin := v12\<rparr>) = core_ok a"
  "core_ok (a\<lparr>farEnergyVAD := v13\<rparr>) = core_ok a"
  "core_ok (a\<lparr>farEnergyMSE := v14\<rparr>) = core_ok a"
  "core_ok (a\<lparr>currentVADValue := v15\<rparr>) = core_ok a"
  "core_ok (a\<lparr>vadUpdateCount := v16\<rparr>) = core_ok a"
  "core_ok (a\<lparr>startupState := v17\<rparr>) = core_ok a"
  "core_ok (a\<lparr>mseChannelCount := v18\<rparr>) = core_ok a"
  "core_ok (a\<lparr>nlpFlag := v19\<rparr>) = core_ok a"
  "core_ok (a\<lparr>farBufWritePos := v20\<rparr>) = core_ok a"
  "core_ok (a\<lparr>farBufReadPos := v21\<rparr>) = core_ok a"
  "core_ok (a\<lparr>knownDelay := v22\<rparr>) = core_ok a"
  "core_ok (a\<lparr>lastKnownDelay := v23\<rparr>) = core_ok a"
  "core_ok (a\<lparr>farFrameBuf := v24\<rparr>) = core_ok a"
  "core_ok (a\<lparr>nearNoisyFrameBuf := v25\<rparr>) = core_ok a"
  "core_ok (a\<lparr>nearCleanFrameBuf := v26\<rparr>) = core_ok a"
  "core_ok (a\<lparr>outFrameBuf := v27\<rparr>) = core_ok a" "core_ok (a\<lparr>farBuf := v28\<rparr>) = core_ok a"
  by (simp_all add: core_parts)

lemma frame_part_untouched [simp]:
  "frame_part (a\<lparr>firstVAD := v0\<rparr>) = frame_part a"
  "frame_part (a\<lparr>seed := v2\<rparr>) = frame_part a"
  "frame_part (a\<lparr>delay_estimator_farend := v3\<rparr>) = frame_part a"
  "frame_part (a\<lparr>delay_estimator := v4\<rparr>) = frame_part a"
  "frame_part (a\<lparr>far_history := v5\<rparr>) = frame_part a"
  "frame_part (a\<lparr>far_history_pos := v6\<rparr>) = frame_part a"
  "frame_part (a\<lparr>far_q_domains := v7\<rparr>) = frame_part a"
  "frame_part (a\<lparr>nlpFlag := v8\<rparr>) = frame_part a"
  "frame_part (a\<lparr>fixedDelay := v9\<rparr>) = frame_part a"
  "frame_part (a\<lparr>totCount := v10\<rparr>) = frame_part a"
  "frame_part (a\<lparr>dfaCleanQDomain := v11\<rparr>) = frame_part a"
  "frame_part (a\<lparr>dfaCleanQDomainOld := v12\<rparr>) = frame_part a"
  "frame_part (a\<lparr>dfaNoisyQDomain := v13\<rparr>) = frame_part a"
  "frame_part (a\<lparr>dfaNoisyQDomainOld := v14\<rparr>) = frame_part a"
  "frame_part (a\<lparr>nearLogEnergy := v15\<rparr>) = frame_part a"
  "frame_part (a\<lparr>farLogEnergy := v16\<rparr>) = frame_part a"
  "frame_part (a\<lparr>echoAdaptLogEnergy := v17\<rparr>) = frame_part a"
  "frame_part (a\<lparr>echoStoredLogEnergy := v18\<rparr>) = frame_part a"
  "frame_part (a\<lparr>channelStored := v19\<rparr>) = frame_part a"
  "frame_part (a\<lparr>channelAdapt16 := v20\<rparr>) = frame_part a"
  "frame_part (a\<lparr>channelAdapt32 := v21\<rparr>) = frame_part a"
  "frame_part (a\<lparr>xBuf := v22\<rparr>) = frame_part a"
  "frame_part (a\<lparr>dBufClean := v23\<rparr>) = frame_part a"
  "frame_part (a\<lparr>dBufNoisy := v24\<rparr>) = frame_part a"
  "frame_part (a\<lparr>outBuf := v25\<rparr>) = frame_part a"
  "frame_part (a\<lparr>echoFilt := v26\<rparr>) = frame_part a"
  "frame_part (a\<lparr>nearFilt := v27\<rparr>) = frame_part a"
  "frame_part (a\<lparr>noiseEst := v28\<rparr>) = frame_part a"
  "frame_part (a\<lparr>noiseEstTooLowCtr := v29\<rparr>) = frame_part a"
  "frame_part (a\<lparr>noiseEstTooHighCtr := v30\<rparr>) = frame_part a"
  "frame_part (a\<lparr>noiseEstCtr := v31\<rparr>) = frame_part a"
  "frame_part (a\<lparr>cngMode := v32\<rparr>) = frame_part a"
  "frame_part (a\<lparr>mseAdaptOld := v33\<rparr>) = frame_part a"
  "frame_part (a\<lparr>mseStoredOld := v34\<rparr>) = frame_part a"
  "frame_part (a\<lparr>mseThreshold := v35\<rparr>) = frame_part a"
  "frame_part (a\<lparr>farEnergyMin := v36\<rparr>) = frame_part a"
  "frame_part (a\<lparr>farEnergyMax := v37\<rparr>) = frame_part a"
  "frame_part (a\<lparr>farEnergyMaxMin := v38\<rparr>) = frame_part a"
  "frame_part (a\<lparr>farEnergyVAD := v39\<rparr>) = frame_part a"
  "frame_part (a\<lparr>farEnergyMSE := v40\<rparr>) = frame_part a"
  "frame_part (a\<lparr>currentVADValue := v41\<rparr>) = frame_part a"
  "frame_part (a\<lparr>vadUpdateCount := v42\<rparr>) = frame_part a"
  "frame_part (a\<lparr>startupState := v43\<rparr>) = frame_part a"
  "frame_part (a\<lparr>mseChannelCount := v44\<rparr>) = frame_part a"
  "frame_part (a\<lparr>supGain := v45\<rparr>) = frame_part a"
  "frame_part (a\<lparr>supGainOld := v46\<rparr>) = frame_part a"
  "frame_part (a\<lparr>supGainErrParamA := v47\<rparr>) = frame_part a"
  "frame_part (a\<lparr>supGainErrParamD := v48\<rparr>) = frame_part a"
  "frame_part (a\<lparr>supGainErrParamDiffAB := v49\<rparr>) = frame_part a"
  "frame_part (a\<lparr>supGainErrParamDiffBD := v50\<rparr>) = frame_part a"
  by (simp_all add: frame_part_def)

section \<open>Far-end history\<close>

lemma UpdateFarHistory_ok:
  assumes "core_ok a" "array_of PART_LEN1 (between 0 65535) xs" "between 0 15 q"
  shows "core_ok (WebRtcAecm_UpdateFarHistory a xs q)" "frame_part (WebRtcAecm_UpdateFarHistory a xs q) = frame_part a"
    "0 \<le> far_history_pos (WebRtcAecm_UpdateFarHistory a xs q)" "far_history_pos (WebRtcAecm_UpdateFarHistory a xs q) < int MAX_DELAY"
proof -
  define p where "p = (if far_history_pos a + 1 \<ge> int MAX_DELAY then 0 else far_history_pos a + 1)"
  have p: "0 \<le> p" "p < 100" using assms(1) by (auto simp: p_def core_parts between_def MAX_DELAY_def)
  have eq: "WebRtcAecm_UpdateFarHistory a xs q = a\<lparr>far_history_pos := p, far_q_domains := (far_q_domains a)[nat p := q],
      far_history := blit (nat p * PART_LEN1) (take PART_LEN1 xs) (far_history a)\<rparr>"
    by (simp add: WebRtcAecm_UpdateFarHistory_def p_def Let_def)
  have "nat p * PART_LEN1 + PART_LEN1 \<le> MAX_DELAY * PART_LEN1" using p by (simp add: aecm_sizes)
  then have "array_of (MAX_DELAY * PART_LEN1) (between 0 65535) (blit (nat p * PART_LEN1) (take PART_LEN1 xs) (far_history a))"
    using assms(1,2) by (intro array_of_blit) (auto simp: core_parts)
  then show "core_ok (WebRtcAecm_UpdateFarHistory a xs q)"
    using assms(1,3) p unfolding eq by (simp add: core_parts between_def MAX_DELAY_def)
  show "frame_part (WebRtcAecm_UpdateFarHistory a xs q) = frame_part a"
    "0 \<le> far_history_pos (WebRtcAecm_UpdateFarHistory a xs q)" "far_history_pos (WebRtcAecm_UpdateFarHistory a xs q) < int MAX_DELAY"
    using p unfolding eq by (simp_all add: frame_part_def MAX_DELAY_def)
qed

lemma AlignedFarend_ok:
  assumes "core_ok a" "far_history_pos a < int MAX_DELAY" "0 \<le> d" "d < int MAX_DELAY"
  shows "\<exists>xs q. WebRtcAecm_AlignedFarend a d = Some (xs, q) \<and> array_of PART_LEN1 (between 0 65535) xs \<and> between 0 15 q"
proof -
  define p where "p = (if far_history_pos a - d < 0 then far_history_pos a - d + int MAX_DELAY else far_history_pos a - d)"
  have p: "0 \<le> p" "p < int MAX_DELAY" using assms by (auto simp: p_def core_parts between_def)
  then have "nat p * PART_LEN1 + PART_LEN1 \<le> MAX_DELAY * PART_LEN1" by (simp add: aecm_sizes)
  then have "array_of PART_LEN1 (between 0 65535) (take PART_LEN1 (drop (nat p * PART_LEN1) (far_history a)))"
    using assms(1) by (intro array_of_slice) (auto simp: core_parts)
  moreover have "between 0 15 (far_q_domains a ! nat p)" using assms(1) p by (intro array_of_nth) (auto simp: core_parts)
  moreover have "WebRtcAecm_AlignedFarend a d = Some (take PART_LEN1 (drop (nat p * PART_LEN1) (far_history a)), far_q_domains a ! nat p)"
    using p unfolding WebRtcAecm_AlignedFarend_def Let_def p_def [symmetric] by simp
  ultimately show ?thesis by simp
qed

section \<open>Energies\<close>

lemma bit_ops_fraction: "is_u32 a \<Longrightarrow> 0 \<le> shr (a AND 0x7FFFFFFF) 23 \<and> shr (a AND 0x7FFFFFFF) 23 \<le> 255"
proof -
  have "0 \<le> a AND 0x7FFFFFFF" "a AND 0x7FFFFFFF \<le> 0x7FFFFFFF" by simp_all
  then have "0 \<le> shr (a AND 0x7FFFFFFF) 23" "shr (a AND 0x7FFFFFFF) 23 \<le> shr 0x7FFFFFFF 23"
    by (auto intro: shr_mono shr_nonneg)
  then show ?thesis by (simp add: shr_def)
qed

lemma NormU32_range:
  assumes "0 \<le> x" "x < 4294967296" shows "0 \<le> WebRtcSpl_NormU32 x \<and> WebRtcSpl_NormU32 x \<le> 31"
proof (cases "x = 0")
  case False
  have "bit_size (nat x) \<le> 32" using assms by (simp add: bit_size_le_iff nat_less_iff)
  moreover have "0 < bit_size (nat x)" using False assms by (simp add: bit_size_pos)
  moreover have "is_u32 x" using assms by (simp add: is_u32_def)
  ultimately show ?thesis using NormU32_eq [of x] False by simp
qed (simp add: WebRtcSpl_NormU32_def to_i16_def)

lemma LogOfEnergy_range:
  assumes "is_u32 e" "between 0 27 q" shows "fresh_energy (LogOfEnergyInQ8 e q)"
proof (cases "e > 0")
  case True
  have z: "0 \<le> WebRtcSpl_NormU32 e" "WebRtcSpl_NormU32 e \<le> 31" using NormU32_range [of e] assms(1) by (simp_all add: is_u32_def)
  have f: "0 \<le> ExtractFractionPart e (WebRtcSpl_NormU32 e)" "ExtractFractionPart e (WebRtcSpl_NormU32 e) \<le> 255"
    using bit_ops_fraction [of "to_u32 (shl e (nat (WebRtcSpl_NormU32 e)))"]
    by (simp_all add: ExtractFractionPart_def to_i16_id is_i16_def)
  then show ?thesis using True z assms(2)
    by (simp add: LogOfEnergyInQ8_def Let_def fresh_energy_def between_def PART_LEN_SHIFT_def shl_def to_i16_id is_i16_def)
qed (simp add: LogOfEnergyInQ8_def fresh_energy_def between_def PART_LEN_SHIFT_def shl_def)

lemma push_front_ok [simp]:
  assumes "array_of MAX_BUF_LEN P xs" "P x" shows "array_of MAX_BUF_LEN P (push_front x xs)"
  unfolding push_front_def using assms
  by (intro array_of_update array_of_blit [where k = "MAX_BUF_LEN - 1"]) (simp_all add: MAX_BUF_LEN_def)

lemma push_front_nth_0: "length xs = MAX_BUF_LEN \<Longrightarrow> push_front x xs ! 0 = x"
  by (simp add: push_front_def blit_def MAX_BUF_LEN_def)

lemma linear_energies_ok:
  assumes "array_of PART_LEN1 is_i32 est" "is_u32 f" "is_u32 ad" "is_u32 st"
  shows "\<exists>est' f' ad' st'. CalcLinearEnergiesC a far est f ad st = (est', f', ad', st') \<and>
    array_of PART_LEN1 is_i32 est' \<and> is_u32 f' \<and> is_u32 ad' \<and> is_u32 st'"
proof -
  let ?P = "\<lambda>s. array_of PART_LEN1 is_i32 (fst s) \<and> is_u32 (fst (snd s)) \<and> is_u32 (fst (snd (snd s))) \<and> is_u32 (snd (snd (snd s)))"
  have "?P (CalcLinearEnergiesC a far est f ad st)"
    unfolding CalcLinearEnergiesC_def using assms
    by (intro fold_pres [where P = ?P]) (auto simp: Let_def SPL_MUL_16_U16_def)
  then show ?thesis by (metis prod.collapse)
qed

lemma linear_energies_est:
  assumes "length est = PART_LEN1" "i < PART_LEN1"
  shows "fst (CalcLinearEnergiesC a far est f ad st) ! i = SPL_MUL_16_U16 (channelStored a ! i) (far ! i)"
proof -
  let ?F = "\<lambda>i (est, f, ad, st). let e = SPL_MUL_16_U16 (channelStored a ! i) (far ! i)
       in (est[i := e], to_u32 (f + far ! i), to_u32 (ad + channelAdapt16 a ! i * far ! i), to_u32 (st + to_u32 e))"
  have "k \<le> length est \<Longrightarrow> (\<forall>j < k. fst (fold ?F [0..<k] (est, f, ad, st)) ! j = SPL_MUL_16_U16 (channelStored a ! j) (far ! j)) \<and>
      length (fst (fold ?F [0..<k] (est, f, ad, st))) = length est" for k
    by (induction k) (auto simp: Let_def split_beta nth_list_update)
  from this [of PART_LEN1] assms show ?thesis by (simp add: CalcLinearEnergiesC_def)
qed

lemma is_i16_AsymFilt: "is_i16 v \<Longrightarrow> is_i16 (WebRtcAecm_AsymFilt f v p n)"
  by (simp add: WebRtcAecm_AsymFilt_def)

lemma fresh_log_energy: "fresh_energy x \<Longrightarrow> log_energy x"
  by (simp add: fresh_energy_def log_energy_def between_def)

lemma update_log_energies_ok:
  assumes "core_ok a" "array_of PART_LEN1 is_i32 est" "is_u32 e" "between 0 15 q"
  shows "\<exists>a' est'. update_log_energies a far q e est = (a', est') \<and> core_ok a' \<and> frame_part a' = frame_part a \<and>
    fresh_energy (echoAdaptLogEnergy a' ! 0) \<and> array_of PART_LEN1 is_i32 est'"
proof -
  define a1 where "a1 = a\<lparr>nearLogEnergy := push_front (LogOfEnergyInQ8 e (dfaNoisyQDomain a)) (nearLogEnergy a)\<rparr>"
  have "is_u32 0" by (simp add: is_u32_def)
  then obtain est' f ad st where l: "CalcLinearEnergiesC a1 far est 0 0 0 = (est', f, ad, st)" "array_of PART_LEN1 is_i32 est'"
      "is_u32 f" "is_u32 ad" "is_u32 st" using linear_energies_ok [OF assms(2), of 0 0 0 a1 far] by blast
  have q: "between 0 27 q" "between 0 27 (RESOLUTION_CHANNEL16 + q)" "between 0 27 (dfaNoisyQDomain a)"
    using assms(1,4) by (auto simp: between_def RESOLUTION_CHANNEL16_def core_parts)
  have f: "fresh_energy (LogOfEnergyInQ8 e (dfaNoisyQDomain a))" "fresh_energy (LogOfEnergyInQ8 ad (RESOLUTION_CHANNEL16 + q))"
    "fresh_energy (LogOfEnergyInQ8 st (RESOLUTION_CHANNEL16 + q))"
    by (rule LogOfEnergy_range, (rule assms l q)+)+
  have eq: "update_log_energies a far q e est = (a1\<lparr>farLogEnergy := LogOfEnergyInQ8 f q,
      echoAdaptLogEnergy := push_front (LogOfEnergyInQ8 ad (RESOLUTION_CHANNEL16 + q)) (echoAdaptLogEnergy a),
      echoStoredLogEnergy := push_front (LogOfEnergyInQ8 st (RESOLUTION_CHANNEL16 + q)) (echoStoredLogEnergy a)\<rparr>, est')"
    unfolding update_log_energies_def Let_def a1_def [symmetric] l by (simp add: a1_def)
  have "length (echoAdaptLogEnergy a) = MAX_BUF_LEN" using assms(1) by (simp add: core_parts array_of_def)
  then show ?thesis unfolding eq using assms(1) l(2) f [THEN fresh_log_energy] f(2)
    by (simp add: core_parts frame_part_def a1_def push_front_nth_0)
qed

lemma far_levels_keep: "core_ok a \<Longrightarrow> core_ok (update_far_levels a) \<and> frame_part (update_far_levels a) = frame_part a \<and>
    echoAdaptLogEnergy (update_far_levels a) = echoAdaptLogEnergy a"
  by (simp add: update_far_levels_def update_vad_level_def Let_def)

lemma vad_value_keeps: "core_ok a \<Longrightarrow> core_ok (update_vad_value a) \<and> frame_part (update_vad_value a) = frame_part a \<and>
    echoAdaptLogEnergy (update_vad_value a) = echoAdaptLogEnergy a"
  by (simp add: update_vad_value_def)

lemma shr_i16:
  assumes "is_i16 x" shows "is_i16 (shr x n)"
proof -
  have "shr (- 32768) n \<le> shr x n" "shr x n \<le> shr 32767 n" using assms by (auto simp: is_i16_def intro: shr_mono)
  moreover have "shr 32767 n \<le> 32767" by (rule shr_le) simp
  moreover have "(- 32768 :: int) * 2 ^ n \<le> - 32768" by simp
  then have "- 32768 \<le> shr (- 32768) n" unfolding shr_def by (intro int_le_div) simp_all
  ultimately show ?thesis unfolding is_i16_def by linarith
qed

lemma first_active_block_keeps:
  assumes "core_ok a" "fresh_energy (echoAdaptLogEnergy a ! 0)"
  shows "core_ok (first_active_block a) \<and> frame_part (first_active_block a) = frame_part a"
proof -
  have "array_of PART_LEN1 is_i16 (fold (\<lambda>i ch. ch[i := shr (ch ! i) 3]) [0..<PART_LEN1] (channelAdapt16 a))"
  proof (rule array_of_fold)
    show "array_of PART_LEN1 is_i16 (channelAdapt16 a)" using assms by (simp add: core_parts)
    fix i ys assume "i \<in> set [0..<PART_LEN1]" "array_of PART_LEN1 is_i16 ys"
    then show "array_of PART_LEN1 is_i16 (ys[i := shr (ys ! i) 3])" by (simp add: shr_i16 array_of_nth)
  qed
  moreover have "log_energy (to_i16 (echoAdaptLogEnergy a ! 0 - shl 3 8))"
    using assms(2) by (simp add: fresh_energy_def log_energy_def between_def shl_def to_i16_id is_i16_def)
  ultimately show ?thesis using assms(1) by (simp add: first_active_block_def Let_def core_parts frame_part_def)
qed

lemma CalcEnergies_ok:
  assumes "core_ok a" "array_of PART_LEN1 is_i32 est" "is_u32 e" "between 0 15 q"
  shows "\<exists>a' est'. WebRtcAecm_CalcEnergies a far q e est = (a', est') \<and> core_ok a' \<and> frame_part a' = frame_part a \<and>
    array_of PART_LEN1 is_i32 est'"
proof -
  obtain b est' where b: "update_log_energies a far q e est = (b, est')" "core_ok b" "frame_part b = frame_part a"
      "fresh_energy (echoAdaptLogEnergy b ! 0)" "array_of PART_LEN1 is_i32 est'"
    using update_log_energies_ok [OF assms] by blast
  define c where "c = update_vad_value (update_far_levels b)"
  have c: "core_ok c" "frame_part c = frame_part b" "echoAdaptLogEnergy c = echoAdaptLogEnergy b"
    using far_levels_keep [OF b(2)] vad_value_keeps [of "update_far_levels b"] by (simp_all add: c_def)
  have "core_ok (first_active_block c) \<and> frame_part (first_active_block c) = frame_part c"
    using c b by (intro first_active_block_keeps) simp_all
  then show ?thesis using b c by (simp add: WebRtcAecm_CalcEnergies_def flip: c_def)
qed

section \<open>Channel\<close>

lemma is_i32_shift: "is_i32 x \<Longrightarrow> is_i32 (SPL_SHIFT_W32 x c)"
  by (simp add: SPL_SHIFT_W32_def shr_is_i32)

lemma is_i32_div: "is_i32 (WebRtcSpl_DivW32W16 x y)"
  by (simp add: WebRtcSpl_DivW32W16_def is_i32_def [of 2147483647])

lemma is_i32_AddSat: "is_i32 a \<Longrightarrow> is_i32 b \<Longrightarrow> is_i32 (WebRtcSpl_AddSatW32 a b)"
  by (simp add: AddSatW32_clamp is_i32_def)

text \<open>The new value of the 32-bit channel in a bin that is updated.\<close>

lemma update_channel_bin_cases:
  assumes "is_i32 (channelAdapt32 a ! i)"
  obtains "update_channel_bin far q dfa mu i a = a"
  | ch where "update_channel_bin far q dfa mu i a = a\<lparr>channelAdapt32 := (channelAdapt32 a)[i := ch],
      channelAdapt16 := (channelAdapt16 a)[i := to_i16 (shr ch 16)]\<rparr>" "0 \<le> ch" "is_i32 ch" "far ! i > shl CHANNEL_VAD (nat q)"
proof (cases "update_channel_bin far q dfa mu i a = a")
  case False
  obtain p s where p: "channel_product (channelAdapt32 a ! i) (far ! i) = (p, s)" by fastforce
  obtain x d where x: "channel_q_domains a q (dfa ! i) p s = (x, d)" by fastforce
  define err where "err = to_i32 (to_i32 (SPL_SHIFT_U32 (dfa ! i) d) - to_i32 (SPL_SHIFT_U32 p x))"
  obtain g n where g: "channel_gradient err (far ! i) = (g, n)" by fastforce
  define sh where "sh = to_i16 (n + s - x - mu - shl (30 - WebRtcSpl_NormU32 (far ! i)) 1)"
  define step where "step = (if WebRtcSpl_NormW32 (WebRtcSpl_DivW32W16 g (int i + 1)) < sh then 2147483647
    else SPL_SHIFT_W32 (WebRtcSpl_DivW32W16 g (int i + 1)) sh)"
  define ch where "ch = (let c = WebRtcSpl_AddSatW32 (channelAdapt32 a ! i) step in if c < 0 then 0 else c)"
  have "is_i32 step" by (simp add: step_def is_i32_shift is_i32_div is_i32_def [of 2147483647])
  then have "0 \<le> ch" "is_i32 ch" using is_i32_AddSat [OF assms] by (auto simp: ch_def Let_def is_i32_def [of 0])
  moreover have c: "err \<noteq> 0 \<and> far ! i > shl CHANNEL_VAD (nat q)"
  proof (rule ccontr)
    assume "\<not> ?thesis"
    then have "update_channel_bin far q dfa mu i a = a"
      unfolding update_channel_bin_def Let_def p x prod.case err_def [symmetric] by (simp only: if_False)
    with False show False ..
  qed
  moreover have "update_channel_bin far q dfa mu i a = a\<lparr>channelAdapt32 := (channelAdapt32 a)[i := ch],
      channelAdapt16 := (channelAdapt16 a)[i := to_i16 (shr ch 16)]\<rparr>"
    unfolding update_channel_bin_def Let_def p x prod.case err_def [symmetric] g
    by (simp add: c ch_def step_def sh_def Let_def)
  ultimately show ?thesis using that(2) by blast
qed (use that in blast)

lemma update_channel_bin_ok:
  assumes "core_ok a" "i < PART_LEN1"
  shows "core_ok (update_channel_bin far q dfa mu i a) \<and> frame_part (update_channel_bin far q dfa mu i a) = frame_part a"
proof -
  have "is_i32 (channelAdapt32 a ! i)" using assms by (auto simp: core_parts dest: array_of_nth)
  then show ?thesis
  proof (cases rule: update_channel_bin_cases [of a i far q dfa mu])
    case 2
    then show ?thesis using assms(1) by (simp add: core_parts frame_part_def)
  qed (use assms in simp)
qed

lemma adapt_channel_ok:
  assumes "core_ok a"
  shows "core_ok (adapt_channel a far q dfa mu) \<and> frame_part (adapt_channel a far q dfa mu) = frame_part a"
proof -
  have "core_ok (fold (update_channel_bin far q dfa mu) [0..<PART_LEN1] a) \<and>
      frame_part (fold (update_channel_bin far q dfa mu) [0..<PART_LEN1] a) = frame_part a"
    by (rule fold_pres [where P = "\<lambda>b. core_ok b \<and> frame_part b = frame_part a"]) (use assms update_channel_bin_ok in auto)
  then show ?thesis using assms by (simp add: adapt_channel_def)
qed

lemma is_i32_MUL_16_U16: "is_i32 (SPL_MUL_16_U16 a b)"
  by (simp add: SPL_MUL_16_U16_def)

lemma StoreAdaptiveChannel_ok:
  assumes "core_ok a" "array_of PART_LEN1 is_i32 est"
  shows "\<exists>est'. StoreAdaptiveChannelC a far est = (a\<lparr>channelStored := channelAdapt16 a\<rparr>, est') \<and> array_of PART_LEN1 is_i32 est'"
    "core_ok (a\<lparr>channelStored := channelAdapt16 a\<rparr>)" "frame_part (a\<lparr>channelStored := channelAdapt16 a\<rparr>) = frame_part a"
proof -
  have "length (channelAdapt16 a) = PART_LEN1" "length (channelStored a) = PART_LEN1"
    using assms(1) by (auto simp: core_parts array_of_def)
  then have "blit 0 (take PART_LEN1 (channelAdapt16 a)) (channelStored a) = channelAdapt16 a" by (simp add: blit_def)
  then have store: "a\<lparr>channelStored := blit 0 (take PART_LEN1 (channelAdapt16 a)) (channelStored a)\<rparr> = a\<lparr>channelStored := channelAdapt16 a\<rparr>"
    by simp
  let ?e = "\<lambda>i. SPL_MUL_16_U16 (channelAdapt16 a ! i) (far ! i)"
  have "array_of PART_LEN1 is_i32 (fold (\<lambda>i est. est[i := ?e i, i + 1 := ?e (i + 1), i + 2 := ?e (i + 2), i + 3 := ?e (i + 3)])
      (strided 0 PART_LEN 4) est)"
    using assms(2) by (rule array_of_fold) (simp add: is_i32_MUL_16_U16)
  then have "array_of PART_LEN1 is_i32 (snd (StoreAdaptiveChannelC a far est))"
    unfolding StoreAdaptiveChannelC_def Let_def store by (simp add: is_i32_MUL_16_U16)
  moreover have "fst (StoreAdaptiveChannelC a far est) = a\<lparr>channelStored := channelAdapt16 a\<rparr>"
    unfolding StoreAdaptiveChannelC_def Let_def store by simp
  ultimately show "\<exists>est'. StoreAdaptiveChannelC a far est = (a\<lparr>channelStored := channelAdapt16 a\<rparr>, est') \<and> array_of PART_LEN1 is_i32 est'"
    by (metis prod.collapse)
qed (use assms(1) in \<open>simp_all add: core_parts frame_part_def\<close>)

lemma is_i32_shl_16: "is_i16 x \<Longrightarrow> is_i32 (shl x 16)"
  by (simp add: is_i16_def is_i32_def shl_def)

lemma ResetAdaptiveChannel_ok:
  assumes "core_ok a"
  shows "core_ok (ResetAdaptiveChannelC a)" "frame_part (ResetAdaptiveChannelC a) = frame_part a"
proof -
  have l: "length (channelAdapt16 a) = PART_LEN1" "length (channelStored a) = PART_LEN1"
    using assms(1) by (auto simp: core_parts array_of_def)
  then have b: "blit 0 (take PART_LEN1 (channelStored a)) (channelAdapt16 a) = channelStored a" by (simp add: blit_def)
  have c: "is_i32 (shl (channelStored a ! i) 16)" if "i < PART_LEN1" for i
    using assms that by (auto simp: core_parts intro!: is_i32_shl_16 dest: array_of_nth)
  have s: "j < PART_LEN1" if "i \<in> set (strided 0 PART_LEN 4)" "j \<in> {i, i + 1, i + 2, i + 3}" for i j
    using that by (auto simp: strided_def aecm_sizes)
  let ?c = "\<lambda>i. shl (channelStored a ! i) 16"
  have "array_of PART_LEN1 is_i32 (channelAdapt32 a)" using assms by (simp add: core_parts)
  then have "array_of PART_LEN1 is_i32 (fold (\<lambda>i ch. ch[i := ?c i, i + 1 := ?c (i + 1), i + 2 := ?c (i + 2), i + 3 := ?c (i + 3)])
      (strided 0 PART_LEN 4) (channelAdapt32 a))"
  proof (rule array_of_fold)
    fix i ys assume "i \<in> set (strided 0 PART_LEN 4)" "array_of PART_LEN1 is_i32 ys"
    then show "array_of PART_LEN1 is_i32 (ys[i := ?c i, i + 1 := ?c (i + 1), i + 2 := ?c (i + 2), i + 3 := ?c (i + 3)])"
      using s [of i] by (intro array_of_update c) simp_all
  qed
  then have "array_of PART_LEN1 is_i32 (channelAdapt32 (ResetAdaptiveChannelC a))"
    unfolding ResetAdaptiveChannelC_def Let_def by (simp add: b c PART_LEN1_def)
  then show "core_ok (ResetAdaptiveChannelC a)" "frame_part (ResetAdaptiveChannelC a) = frame_part a"
    using assms b unfolding ResetAdaptiveChannelC_def Let_def by (simp_all add: core_parts frame_part_def)
qed

lemma validate_channel_ok:
  assumes "core_ok a" "array_of PART_LEN1 is_i32 est"
  shows "\<exists>a' est'. validate_channel a far est = (a', est') \<and> core_ok a' \<and> frame_part a' = frame_part a \<and> array_of PART_LEN1 is_i32 est'"
proof -
  obtain m n where m: "channel_errors a = (m, n)" by fastforce
  obtain est' where st: "StoreAdaptiveChannelC a far est = (a\<lparr>channelStored := channelAdapt16 a\<rparr>, est')" "array_of PART_LEN1 is_i32 est'"
    using StoreAdaptiveChannel_ok(1) [OF assms] by blast
  show ?thesis
    using assms st(2) StoreAdaptiveChannel_ok(2,3) [OF assms] ResetAdaptiveChannel_ok [OF assms(1)]
    by (simp add: validate_channel_def Let_def m st(1))
qed

lemma UpdateChannel_ok:
  assumes "core_ok a" "array_of PART_LEN1 is_i32 est"
  shows "\<exists>a' est'. WebRtcAecm_UpdateChannel a far q dfa mu est = (a', est') \<and> core_ok a' \<and> frame_part a' = frame_part a \<and>
    array_of PART_LEN1 is_i32 est'"
proof -
  define b where "b = adapt_channel a far q dfa mu"
  have b: "core_ok b" "frame_part b = frame_part a" using adapt_channel_ok [OF assms(1)] by (simp_all add: b_def)
  define c where "c = b\<lparr>mseChannelCount := (if farLogEnergy b < farEnergyMSE b then 0 else to_i16 (mseChannelCount b + 1))\<rparr>"
  have c: "core_ok c" "frame_part c = frame_part a" using b by (simp_all add: c_def)
  obtain est' where st: "StoreAdaptiveChannelC b far est = (b\<lparr>channelStored := channelAdapt16 b\<rparr>, est')" "array_of PART_LEN1 is_i32 est'"
    using StoreAdaptiveChannel_ok(1) [OF b(1) assms(2)] by blast
  obtain c' est'' where v: "validate_channel c far est = (c', est'')" "core_ok c'" "frame_part c' = frame_part c"
      "array_of PART_LEN1 is_i32 est''" using validate_channel_ok [OF c(1) assms(2)] by blast
  have "WebRtcAecm_UpdateChannel a far q dfa mu est =
      (if startupState b = 0 \<and> currentVADValue b \<noteq> 0 then (b\<lparr>channelStored := channelAdapt16 b\<rparr>, est')
       else if mseChannelCount c \<ge> int MIN_MSE_COUNT + 10 then (c', est'') else (c, est))"
    unfolding WebRtcAecm_UpdateChannel_def Let_def b_def [symmetric] c_def [symmetric] st v ..
  then show ?thesis
    using StoreAdaptiveChannel_ok(2,3) [OF b(1) assms(2)] b c st v assms(2) by simp
qed

section \<open>Suppression gain\<close>

text \<open>What the gain aims at: nothing without far-end speech, otherwise a value that falls with the error of the echo
  estimate, from \<open>A\<close> over \<open>B\<close> to \<open>D\<close>.\<close>

lemma quotient_200:
  assumes "0 \<le> k" "k \<le> 6144" "0 \<le> d" "d \<le> 200"
  shows "to_i16 (WebRtcSpl_DivW32W16 (to_i32 (k * d + 100)) 200) = (k * d + 100) div 200"
    "0 \<le> (k * d + 100) div 200" "(k * d + 100) div 200 \<le> k"
proof -
  have "0 \<le> k * d" "k * d \<le> k * 200" using assms by (simp_all add: mult_left_mono)
  then show "0 \<le> (k * d + 100) div 200" "(k * d + 100) div 200 \<le> k" by linarith+
  with \<open>0 \<le> k * d\<close> \<open>k * d \<le> k * 200\<close> assms(2)
  show "to_i16 (WebRtcSpl_DivW32W16 (to_i32 (k * d + 100)) 200) = (k * d + 100) div 200"
    by (simp add: WebRtcSpl_DivW32W16_def to_i32_id is_i32_def c_div_pos to_i16_id is_i16_def)
qed

lemma wanted_gain_cases:
  assumes "core_ok a" and e_def: "e = \<bar>nearLogEnergy a ! 0 - echoStoredLogEnergy a ! 0\<bar>"
  shows "wanted_gain a =
    (if currentVADValue a = 0 then 0
     else if e < 200 then supGainErrParamA a - (supGainErrParamDiffAB a * e + 100) div 200
     else if e < 400 then supGainErrParamD a + (supGainErrParamDiffBD a * (400 - e) + 100) div 200
     else supGainErrParamD a)"
proof -
  have l: "log_energy (nearLogEnergy a ! 0)" "log_energy (echoStoredLogEnergy a ! 0)"
    using assms(1) by (auto simp: core_parts MAX_BUF_LEN_def intro: array_of_nth)
  have e: "to_i16 (SPL_ABS_W16 (to_i16 (nearLogEnergy a ! 0 - echoStoredLogEnergy a ! 0 - ENERGY_DEV_OFFSET))) = e" "0 \<le> e"
    using l unfolding e_def by (auto simp: log_energy_def between_def ENERGY_DEV_OFFSET_def SPL_ABS_W16_def to_i16_id is_i16_def)
  have p: "0 \<le> supGainErrParamDiffAB a" "supGainErrParamDiffAB a \<le> 6144" "0 \<le> supGainErrParamDiffBD a" "supGainErrParamDiffBD a \<le> 6144"
    "0 \<le> supGainErrParamD a" "supGainErrParamA a \<le> 6144" "supGainErrParamA a - supGainErrParamDiffAB a = supGainErrParamD a + supGainErrParamDiffBD a"
    using assms(1) by (auto simp: core_parts SUPGAIN_ERROR_PARAM_A_def)
  have sh: "shr 200 (Suc 0) = 100" by (simp add: shr_def)
  have "to_i16 (supGainErrParamA a - (supGainErrParamDiffAB a * e + 100) div 200) = supGainErrParamA a - (supGainErrParamDiffAB a * e + 100) div 200"
    if "e < 200" using quotient_200(2,3) [of "supGainErrParamDiffAB a" e] p e that by (intro to_i16_id) (simp add: is_i16_def)
  moreover have "to_i16 (supGainErrParamD a + (supGainErrParamDiffBD a * (400 - e) + 100) div 200) =
      supGainErrParamD a + (supGainErrParamDiffBD a * (400 - e) + 100) div 200" if "\<not> e < 200" "e < 400"
    using quotient_200(2,3) [of "supGainErrParamDiffBD a" "400 - e"] p e that by (intro to_i16_id) (simp add: is_i16_def)
  ultimately show ?thesis
    using quotient_200(1) [of "supGainErrParamDiffAB a" e] quotient_200(1) [of "supGainErrParamDiffBD a" "400 - e"] p e(2)
    unfolding wanted_gain_def Let_def e(1) ENERGY_DEV_TOL_def SUPGAIN_EPC_DT_def by (simp add: sh)
qed

lemma wanted_gain_range:
  assumes "core_ok a" shows "between 0 (supGainErrParamA a) (wanted_gain a)"
proof -
  define e where "e = \<bar>nearLogEnergy a ! 0 - echoStoredLogEnergy a ! 0\<bar>"
  have p: "0 \<le> supGainErrParamDiffAB a" "supGainErrParamDiffAB a \<le> 6144" "0 \<le> supGainErrParamDiffBD a" "supGainErrParamDiffBD a \<le> 6144"
    "0 \<le> supGainErrParamD a" "supGainErrParamA a - supGainErrParamDiffAB a = supGainErrParamD a + supGainErrParamDiffBD a"
    using assms by (auto simp: core_parts SUPGAIN_ERROR_PARAM_A_def)
  have e: "0 \<le> e" by (simp add: e_def)
  consider "e < 200" | "\<not> e < 200" "e < 400" | "\<not> e < 400" by linarith
  then show ?thesis
  proof cases
    case 1
    then show ?thesis using quotient_200(2,3) [of "supGainErrParamDiffAB a" e] e p
      unfolding wanted_gain_cases [OF assms e_def] by (auto simp: between_def)
  next
    case 2
    then show ?thesis using quotient_200(2,3) [of "supGainErrParamDiffBD a" "400 - e"] e p
      unfolding wanted_gain_cases [OF assms e_def] by (auto simp: between_def)
  next
    case 3
    then show ?thesis using p unfolding wanted_gain_cases [OF assms e_def] by (auto simp: between_def)
  qed
qed

text \<open>A sixteenth of the way.\<close>

lemma sixteenth:
  assumes "between 0 A g" "between 0 A t" "A \<le> 6144"
  shows "to_i16 (g + to_i16 (shr (t - g) 4)) = g + (t - g) div 16" "between 0 A (g + (t - g) div 16)"
    "between (min g t) (max g t) (g + (t - g) div 16)"
proof -
  have d: "min 0 (t - g) \<le> (t - g) div 16" "(t - g) div 16 \<le> max 0 (t - g)" by (auto simp: min_def max_def)
  then show "between (min g t) (max g t) (g + (t - g) div 16)" by (auto simp: between_def min_def max_def split: if_splits)
  then show b: "between 0 A (g + (t - g) div 16)" using assms by (auto simp: between_def min_def max_def split: if_splits)
  have "to_i16 ((t - g) div 16) = (t - g) div 16"
    using d assms by (intro to_i16_id) (auto simp: is_i16_def between_def min_def max_def split: if_splits)
  then show "to_i16 (g + to_i16 (shr (t - g) 4)) = g + (t - g) div 16"
    using b assms(3) by (simp add: shr_def) (intro to_i16_id, simp add: is_i16_def between_def)
qed

lemma CalcSuppressionGain_eq:
  assumes "core_ok a" and t_def: "t = max (wanted_gain a) (supGainOld a)" and g_def: "g = supGain a + (t - supGain a) div 16"
  shows "WebRtcAecm_CalcSuppressionGain a = (a\<lparr>supGainOld := wanted_gain a, supGain := g\<rparr>, g)"
    "core_ok (a\<lparr>supGainOld := wanted_gain a, supGain := g\<rparr>)" "between 0 (supGainErrParamA a) g" "is_i16 g"
proof -
  have b: "between 0 (supGainErrParamA a) (supGain a)" "between 0 (supGainErrParamA a) t" "supGainErrParamA a \<le> 6144"
    using assms(1) wanted_gain_range [OF assms(1)] by (auto simp: core_parts SUPGAIN_ERROR_PARAM_A_def t_def max_def)
  note s = sixteenth [OF b, folded g_def]
  have t: "(if wanted_gain a > supGainOld a then wanted_gain a else supGainOld a) = t" by (simp add: t_def)
  show "WebRtcAecm_CalcSuppressionGain a = (a\<lparr>supGainOld := wanted_gain a, supGain := g\<rparr>, g)"
    unfolding WebRtcAecm_CalcSuppressionGain_def Let_def t by (simp add: s)
  show "core_ok (a\<lparr>supGainOld := wanted_gain a, supGain := g\<rparr>)"
    using assms(1) s wanted_gain_range [OF assms(1)] by (simp add: core_parts)
  show "between 0 (supGainErrParamA a) g" "is_i16 g" using s(2) b(3) by (simp_all add: between_def is_i16_def)
qed

section \<open>Step size\<close>

lemma CalcStepSize_range:
  shows "WebRtcAecm_CalcStepSize a = 0 \<longleftrightarrow> currentVADValue a = 0" "0 \<le> WebRtcAecm_CalcStepSize a"
  by (auto simp: WebRtcAecm_CalcStepSize_def Let_def MU_MAX_def)

section \<open>The delay line of the far end\<close>

lemma wrap_up_mod: "pos < int FAR_BUF_LEN \<Longrightarrow> wrap_up pos = (if pos < 0 then pos mod int FAR_BUF_LEN else pos)"
proof (induction pos rule: wrap_up.induct)
  case (1 pos)
  show ?case
  proof (cases "pos < 0")
    case True
    then have "pos + int FAR_BUF_LEN < int FAR_BUF_LEN" by simp
    then have "wrap_up (pos + int FAR_BUF_LEN) = (pos + int FAR_BUF_LEN) mod int FAR_BUF_LEN"
      using 1 True mod_pos_pos_trivial [of "pos + int FAR_BUF_LEN" "int FAR_BUF_LEN"]
      by (cases "pos + int FAR_BUF_LEN < 0") simp_all
    then show ?thesis using True by (simp add: wrap_up.simps [of pos])
  qed (simp add: wrap_up.simps [of pos])
qed

lemma wrap_up_nonneg: "0 \<le> pos \<Longrightarrow> wrap_up pos = pos"
  by (simp add: wrap_up.simps [of pos])

lemma wrap_down_mod: "0 \<le> pos \<Longrightarrow> wrap_down pos = pos mod int FAR_BUF_LEN"
proof (induction pos rule: wrap_down.induct)
  case (1 pos)
  show ?case
  proof (cases "pos > int FAR_BUF_LEN - 1")
    case True
    then have "wrap_down (pos - int FAR_BUF_LEN) = (pos - int FAR_BUF_LEN) mod int FAR_BUF_LEN" using 1 by simp
    then show ?thesis using True by (simp add: wrap_down.simps [of pos] mod_diff_eq)
  qed (use 1 in \<open>simp add: wrap_down.simps [of pos]\<close>)
qed

text \<open>Together the two loops reduce the position modulo the length of the buffer.\<close>

lemma wrap_position: "wrap_down (wrap_up pos) = pos mod int FAR_BUF_LEN"
proof (cases "0 \<le> pos")
  case False
  then have "wrap_up pos = pos mod int FAR_BUF_LEN" using wrap_up_mod [of pos] by (simp add: aecm_sizes)
  then show ?thesis by (simp add: wrap_down_mod aecm_sizes)
qed (simp add: wrap_up_nonneg wrap_down_mod)

text \<open>A cyclic write and a cyclic read.\<close>

definition cyclic_index :: "int \<Rightarrow> nat \<Rightarrow> nat" where
  "cyclic_index pos j = (nat pos + j) mod FAR_BUF_LEN"

definition wrapped_end :: "int \<Rightarrow> int \<Rightarrow> int" where
  "wrapped_end pos n = (if pos + n > int FAR_BUF_LEN then pos + n - int FAR_BUF_LEN else pos + n)"

lemma BufferFarFrame_spec:
  assumes "0 \<le> farBufWritePos a" "farBufWritePos a \<le> int FAR_BUF_LEN" "n \<le> FAR_BUF_LEN" "n \<le> length x"
    "length (farBuf a) = FAR_BUF_LEN"
  shows "\<exists>buf. WebRtcAecm_BufferFarFrame a x (int n) =
      Some (a\<lparr>farBuf := buf, farBufWritePos := wrapped_end (farBufWritePos a) (int n)\<rparr>) \<and> length buf = FAR_BUF_LEN \<and>
    (\<forall>j < n. buf ! cyclic_index (farBufWritePos a) j = x ! j) \<and>
    (\<forall>i < FAR_BUF_LEN. (\<forall>j < n. i \<noteq> cyclic_index (farBufWritePos a) j) \<longrightarrow> buf ! i = farBuf a ! i)"
proof -
  define p where "p = nat (farBufWritePos a)"
  have p: "farBufWritePos a = int p" "p \<le> FAR_BUF_LEN" using assms by (simp_all add: p_def)
  show ?thesis
  proof (cases "p + n > FAR_BUF_LEN")
    case True
    define m where "m = FAR_BUF_LEN - p"
    have m: "m \<le> n" "p + m = FAR_BUF_LEN" "n - m \<le> p" using True p assms by (simp_all add: m_def)
    define buf1 where "buf1 = blit p (take m x) (farBuf a)"
    define buf where "buf = blit 0 (take (n - m) (drop m x)) buf1"
    have nm: "nat (int FAR_BUF_LEN - int p) = m" "int FAR_BUF_LEN - int p = int m" using m by (simp_all add: m_def)
    have "far_write_loop x (int n) (farBuf a) (int p) (int n) 0 = Some (buf1, 0, int n - int m, int m)"
      using True m assms(3) by (subst far_write_loop.simps, subst far_write_loop.simps) (simp add: buf1_def Let_def nm)
    then have eq: "WebRtcAecm_BufferFarFrame a x (int n) = Some (a\<lparr>farBuf := buf, farBufWritePos := int n - int m\<rparr>)"
      using m by (simp add: WebRtcAecm_BufferFarFrame_def p buf_def nat_diff_distrib)
    have l1: "length buf1 = FAR_BUF_LEN" "length (take m x) = m" using m assms by (simp_all add: buf1_def length_blit)
    have l: "length buf = FAR_BUF_LEN" "length (take (n - m) (drop m x)) = n - m" using m p assms l1 by (simp_all add: buf_def length_blit)
    have nth: "buf ! i = (if i < n - m then x ! (m + i) else if p \<le> i then x ! (i - p) else farBuf a ! i)" if "i < FAR_BUF_LEN" for i
      using that m p assms l l1 by (simp add: buf_def buf1_def nth_blit length_blit)
    have c: "cyclic_index (int p) j = (if j < m then p + j else j - m)" if "j < n" for j
    proof (cases "j < m")
      case False
      then have "p + j = FAR_BUF_LEN + (j - m)" "j - m < FAR_BUF_LEN" using m that assms(3) by simp_all
      then have "(p + j) mod FAR_BUF_LEN = j - m" by (metis mod_add_self1 mod_less)
      then show ?thesis using False by (simp add: cyclic_index_def)
    qed (use m in \<open>simp add: cyclic_index_def\<close>)
    have "wrapped_end (int p) (int n) = int n - int m" using True m by (simp add: wrapped_end_def)
    moreover have "buf ! cyclic_index (int p) j = x ! j" if "j < n" for j
    proof (cases "j < m")
      case False
      then have "j - m < n - m" "j - m < FAR_BUF_LEN" "m + (j - m) = j" using that assms(3) by auto
      then show ?thesis using False by (simp add: c [OF that] nth)
    qed (use that m p in \<open>simp add: c nth\<close>)
    moreover have "buf ! i = farBuf a ! i" if "i < FAR_BUF_LEN" "\<forall>j < n. i \<noteq> cyclic_index (int p) j" for i
    proof -
      have "\<not> i < n - m"
      proof
        assume "i < n - m"
        then have "m + i < n" "\<not> m + i < m" by simp_all
        with c [of "m + i"] that(2) show False by auto
      qed
      moreover have "\<not> p \<le> i"
      proof
        assume "p \<le> i"
        then have "i - p < m" "i - p < n" using that(1) m by simp_all
        with c [of "i - p"] that(2) \<open>p \<le> i\<close> show False by auto
      qed
      ultimately show ?thesis using nth [OF that(1)] by simp
    qed
    ultimately show ?thesis using eq l by (auto simp: p(1))
  next
    case False
    define buf where "buf = blit p (take n x) (farBuf a)"
    have "far_write_loop x (int n) (farBuf a) (int p) (int n) 0 = Some (farBuf a, int p, int n, 0)"
      using False by (subst far_write_loop.simps) simp
    then have eq: "WebRtcAecm_BufferFarFrame a x (int n) = Some (a\<lparr>farBuf := buf, farBufWritePos := int p + int n\<rparr>)"
      by (simp add: WebRtcAecm_BufferFarFrame_def p buf_def)
    have l: "length buf = FAR_BUF_LEN" "length (take n x) = n" using False assms by (simp_all add: buf_def length_blit)
    have nth: "buf ! i = (if p \<le> i \<and> i < p + n then x ! (i - p) else farBuf a ! i)" if "i < FAR_BUF_LEN" for i
      using that False assms by (auto simp: buf_def nth_blit)
    have c: "cyclic_index (int p) j = p + j" if "j < n" for j using that False by (simp add: cyclic_index_def)
    have "wrapped_end (int p) (int n) = int p + int n" using False by (simp add: wrapped_end_def)
    moreover have "buf ! i = farBuf a ! i" if "i < FAR_BUF_LEN" "\<forall>j < n. i \<noteq> cyclic_index (int p) j" for i
    proof -
      have "\<not> (p \<le> i \<and> i < p + n)" using that(2) c [of "i - p"] by (metis add_diff_inverse_nat less_diff_conv2 nat_add_left_cancel_less not_less)
      then show ?thesis using nth [OF that(1)] by auto
    qed
    ultimately show ?thesis using eq l False by (auto simp: p(1) c nth)
  qed
qed

text \<open>The length of the buffer divides the modulus of the \<open>int\<close> positions.\<close>

lemma wrapped_position: "to_i32 (a - to_i32 b) mod int FAR_BUF_LEN = (a - b) mod int FAR_BUF_LEN"
proof -
  have m: "to_i32 x mod int FAR_BUF_LEN = x mod int FAR_BUF_LEN" for x
  proof -
    have "to_i32 x mod int FAR_BUF_LEN = ((x + 2147483648) mod 4294967296 mod 256 - 2147483648) mod 256"
      by (simp add: to_i32_def aecm_sizes mod_diff_left_eq)
    also have "(x + 2147483648) mod 4294967296 mod 256 = (x + 2147483648) mod 256" by (rule mod_mod_cancel) simp
    finally show ?thesis by (simp add: mod_diff_left_eq aecm_sizes)
  qed
  have "(a - to_i32 b) mod int FAR_BUF_LEN = (a - to_i32 b mod int FAR_BUF_LEN) mod int FAR_BUF_LEN" by (simp add: mod_diff_right_eq)
  then show ?thesis by (simp add: m mod_diff_right_eq)
qed

lemma FetchFarFrame_spec:
  assumes "n \<le> FAR_BUF_LEN" "length x = n" "length (farBuf a) = FAR_BUF_LEN"
    and p_def: "p = (farBufReadPos a - (delay - lastKnownDelay a)) mod int FAR_BUF_LEN"
  shows "WebRtcAecm_FetchFarFrame a x (int n) delay =
    Some (a\<lparr>farBufReadPos := wrapped_end p (int n), lastKnownDelay := delay\<rparr>, map (\<lambda>j. farBuf a ! cyclic_index p j) [0..<n])"
proof -
  define q where "q = nat p"
  have q: "p = int q" "q < FAR_BUF_LEN" using p_def by (simp_all add: q_def aecm_sizes nat_less_iff)
  have pos: "wrap_down (wrap_up (to_i32 (farBufReadPos a - to_i32 (delay - lastKnownDelay a)))) = int q"
    by (simp only: wrap_position wrapped_position q(1) [symmetric] p_def)
  show ?thesis
  proof (cases "q + n > FAR_BUF_LEN")
    case True
    define m where "m = FAR_BUF_LEN - q"
    have m: "m \<le> n" "q + m = FAR_BUF_LEN" "n - m \<le> q" using True q assms(1) by (simp_all add: m_def)
    have nm: "nat (int FAR_BUF_LEN - int q) = m" "int FAR_BUF_LEN - int q = int m" "nat (int n - int m) = n - m" using m by (simp_all add: m_def)
    define x1 where "x1 = blit 0 (take m (drop q (farBuf a))) x"
    have "far_read_loop (farBuf a) (int n) x (int q) (int n) 0 = Some (x1, 0, int n - int m, int m)"
      using True m assms(1) by (subst far_read_loop.simps, subst far_read_loop.simps) (simp add: x1_def Let_def nm)
    then have eq: "WebRtcAecm_FetchFarFrame a x (int n) delay = Some (a\<lparr>farBufReadPos := int n - int m, lastKnownDelay := delay\<rparr>,
        blit m (take (n - m) (farBuf a)) x1)"
      unfolding WebRtcAecm_FetchFarFrame_def Let_def pos by (simp add: nm)
    have l: "length (take m (drop q (farBuf a))) = m" "length (take (n - m) (farBuf a)) = n - m" using m assms by simp_all
    have l1: "length x1 = n" unfolding x1_def using m l assms(2) by (subst length_blit) simp_all
    have "blit m (take (n - m) (farBuf a)) x1 = map (\<lambda>j. farBuf a ! cyclic_index p j) [0..<n]"
    proof (rule nth_equalityI)
      show "length (blit m (take (n - m) (farBuf a)) x1) = length (map (\<lambda>j. farBuf a ! cyclic_index p j) [0..<n])"
        using m l l1 by (subst length_blit) simp_all
      fix j assume "j < length (blit m (take (n - m) (farBuf a)) x1)"
      moreover have "length (blit m (take (n - m) (farBuf a)) x1) = n" using m l l1 by (subst length_blit) simp_all
      ultimately have j: "j < n" by simp
      show "blit m (take (n - m) (farBuf a)) x1 ! j = map (\<lambda>j. farBuf a ! cyclic_index p j) [0..<n] ! j"
      proof (cases "j < m")
        case True
        then have "cyclic_index p j = q + j" using m by (simp add: cyclic_index_def q(1))
        then show ?thesis using True j m l l1 assms by (simp add: nth_blit x1_def)
      next
        case False
        then have "q + j = FAR_BUF_LEN + (j - m)" "j - m < FAR_BUF_LEN" using m j assms(1) by simp_all
        then have "(q + j) mod FAR_BUF_LEN = j - m" by (metis mod_add_self1 mod_less)
        then have "cyclic_index p j = j - m" by (simp add: cyclic_index_def q(1))
        then show ?thesis using False j m l l1 by (simp add: nth_blit)
      qed
    qed
    moreover have "wrapped_end p (int n) = int n - int m" using True m by (simp add: wrapped_end_def q(1))
    ultimately show ?thesis using eq by simp
  next
    case False
    have "far_read_loop (farBuf a) (int n) x (int q) (int n) 0 = Some (x, int q, int n, 0)"
      using False by (subst far_read_loop.simps) simp
    then have eq: "WebRtcAecm_FetchFarFrame a x (int n) delay = Some (a\<lparr>farBufReadPos := int q + int n, lastKnownDelay := delay\<rparr>,
        blit 0 (take n (drop q (farBuf a))) x)"
      unfolding WebRtcAecm_FetchFarFrame_def Let_def pos by simp
    have "blit 0 (take n (drop q (farBuf a))) x = map (\<lambda>j. farBuf a ! cyclic_index p j) [0..<n]"
      using False assms(1-3) by (intro nth_equalityI) (simp_all add: blit_def cyclic_index_def q(1))
    moreover have "wrapped_end p (int n) = int q + int n" using False by (simp add: wrapped_end_def q(1))
    ultimately show ?thesis using eq by simp
  qed
qed

text \<open>With more than two buffer lengths the writing loop does not return: every round restarts with the same remaining
  length.\<close>

lemma far_write_loop_returns:
  assumes "far_write_loop x n buf pos len w = Some r"
  shows "n > 2 * int FAR_BUF_LEN \<longrightarrow> pos + len \<le> int FAR_BUF_LEN \<or> pos < 0"
proof (rule far_write_loop.raw_induct [OF _ assms, where P = "\<lambda>x n buf pos len w r.
    n > 2 * int FAR_BUF_LEN \<longrightarrow> pos + len \<le> int FAR_BUF_LEN \<or> pos < 0"])
  fix loop x n buf pos len w and r :: "int list \<times> int \<times> int \<times> int"
  assume IH: "\<And>x n buf pos len w r. loop x n buf pos len w = Some r \<Longrightarrow>
      n > 2 * int FAR_BUF_LEN \<longrightarrow> pos + len \<le> int FAR_BUF_LEN \<or> pos < 0"
    and body: "(if pos + len > int FAR_BUF_LEN then
        let writeLen = int FAR_BUF_LEN - pos;
            buf = blit (nat pos) (take (nat writeLen) (drop (nat w) x)) buf
        in loop x n buf 0 (n - writeLen) writeLen
      else Some (buf, pos, len, w)) = Some r"
  show "n > 2 * int FAR_BUF_LEN \<longrightarrow> pos + len \<le> int FAR_BUF_LEN \<or> pos < 0"
  proof (rule impI, rule ccontr)
    assume n: "n > 2 * int FAR_BUF_LEN" and c: "\<not> (pos + len \<le> int FAR_BUF_LEN \<or> pos < 0)"
    then have "loop x n (blit (nat pos) (take (nat (int FAR_BUF_LEN - pos)) (drop (nat w) x)) buf) 0
        (n - (int FAR_BUF_LEN - pos)) (int FAR_BUF_LEN - pos) = Some r" using body by (simp add: Let_def)
    from IH [OF this] n c show False by simp
  qed
qed

text \<open>One frame through the delay line, and a sequence of frames with their known delays.\<close>

definition far_line :: "AecmCore \<Rightarrow> int list \<Rightarrow> int \<Rightarrow> (AecmCore \<times> int list) option" where
  "far_line a x d =
     (case WebRtcAecm_BufferFarFrame a x (int FRAME_LEN) of
        None \<Rightarrow> None
      | Some a \<Rightarrow> WebRtcAecm_FetchFarFrame a (replicate FRAME_LEN 0) (int FRAME_LEN) d)"

fun far_line_run :: "AecmCore \<Rightarrow> (int list \<times> int) list \<Rightarrow> (AecmCore \<times> int list list) option" where
  "far_line_run a [] = Some (a, [])"
| "far_line_run a ((x, d) # ops) =
     (case far_line a x d of
        None \<Rightarrow> None
      | Some (a, y) \<Rightarrow> (case far_line_run a ops of None \<Rightarrow> None | Some (a, ys) \<Rightarrow> Some (a, y # ys)))"

text \<open>After the samples \<open>s\<close>: the positions modulo the length of the buffer, and the last 256 samples at their places.\<close>

definition far_line_ok :: "AecmCore \<Rightarrow> int list \<Rightarrow> bool" where
  "far_line_ok a s \<longleftrightarrow> length (farBuf a) = FAR_BUF_LEN \<and>
     0 \<le> farBufWritePos a \<and> farBufWritePos a \<le> int FAR_BUF_LEN \<and>
     farBufWritePos a mod int FAR_BUF_LEN = int (length s) mod int FAR_BUF_LEN \<and>
     farBufReadPos a mod int FAR_BUF_LEN = (int (length s) - lastKnownDelay a) mod int FAR_BUF_LEN \<and>
     (\<forall>t < length s. length s \<le> t + FAR_BUF_LEN \<longrightarrow> farBuf a ! (t mod FAR_BUF_LEN) = s ! t)"

lemma wrapped_end_mod:
  "0 \<le> p \<Longrightarrow> p \<le> int FAR_BUF_LEN \<Longrightarrow> 0 \<le> n \<Longrightarrow> n \<le> int FAR_BUF_LEN \<Longrightarrow>
   0 \<le> wrapped_end p n \<and> wrapped_end p n \<le> int FAR_BUF_LEN \<and> wrapped_end p n mod int FAR_BUF_LEN = (p + n) mod int FAR_BUF_LEN"
  using mod_diff_eq [of "p + n" "int FAR_BUF_LEN" "int FAR_BUF_LEN"] by (auto simp: wrapped_end_def)

lemma cyclic_index_stream:
  assumes "0 \<le> p" "p mod int FAR_BUF_LEN = int t mod int FAR_BUF_LEN"
  shows "cyclic_index p j = (t + j) mod FAR_BUF_LEN"
proof -
  have "int (nat p mod FAR_BUF_LEN) = int (t mod FAR_BUF_LEN)" using assms by (simp add: zmod_int)
  then have "nat p mod FAR_BUF_LEN = t mod FAR_BUF_LEN" by (simp only: of_nat_eq_iff)
  then show ?thesis unfolding cyclic_index_def by (metis mod_add_left_eq)
qed

lemma cyclic_distinct:
  assumes "t mod FAR_BUF_LEN = u mod FAR_BUF_LEN" "t < u" shows "t + FAR_BUF_LEN \<le> u"
proof -
  have "FAR_BUF_LEN dvd u - t" using assms mod_eq_dvd_iff_nat [of t u FAR_BUF_LEN] by (simp add: eq_commute)
  then show ?thesis using assms(2) by (auto dest!: dvd_imp_le)
qed

lemma far_line_step:
  assumes "far_line_ok a s" "length x = FRAME_LEN" "0 \<le> d" "d \<le> int (FAR_BUF_LEN - FRAME_LEN)"
  shows "\<exists>a' y. far_line a x d = Some (a', y) \<and> far_line_ok a' (s @ x) \<and> length y = FRAME_LEN \<and>
    (\<forall>j < FRAME_LEN. d \<le> int (length s + j) \<longrightarrow> y ! j = (s @ x) ! nat (int (length s + j) - d))"
proof -
  let ?L = "int FAR_BUF_LEN" and ?s = "s @ x"
  have L: "FRAME_LEN \<le> FAR_BUF_LEN" "0 < FAR_BUF_LEN" by (simp_all add: aecm_sizes)
  note A = assms(1) [unfolded far_line_ok_def]
  obtain buf where b: "WebRtcAecm_BufferFarFrame a x (int FRAME_LEN) =
        Some (a\<lparr>farBuf := buf, farBufWritePos := wrapped_end (farBufWritePos a) (int FRAME_LEN)\<rparr>)" "length buf = FAR_BUF_LEN"
      "\<And>j. j < FRAME_LEN \<Longrightarrow> buf ! cyclic_index (farBufWritePos a) j = x ! j"
      "\<And>i. i < FAR_BUF_LEN \<Longrightarrow> \<forall>j < FRAME_LEN. i \<noteq> cyclic_index (farBufWritePos a) j \<Longrightarrow> buf ! i = farBuf a ! i"
    using BufferFarFrame_spec [of a FRAME_LEN x] A L assms(2) by auto
  define a1 where "a1 = a\<lparr>farBuf := buf, farBufWritePos := wrapped_end (farBufWritePos a) (int FRAME_LEN)\<rparr>"
  define p where "p = (farBufReadPos a1 - (d - lastKnownDelay a1)) mod ?L"
  have f: "WebRtcAecm_FetchFarFrame a1 (replicate FRAME_LEN 0) (int FRAME_LEN) d =
      Some (a1\<lparr>farBufReadPos := wrapped_end p (int FRAME_LEN), lastKnownDelay := d\<rparr>, map (\<lambda>j. buf ! cyclic_index p j) [0..<FRAME_LEN])"
    using FetchFarFrame_spec [of FRAME_LEN "replicate FRAME_LEN 0" a1 p d] L b(2) by (simp add: p_def a1_def)
  have stream: "buf ! (t mod FAR_BUF_LEN) = ?s ! t" if t: "t < length ?s" "length ?s \<le> t + FAR_BUF_LEN" for t
  proof (cases "t < length s")
    case True
    have "t mod FAR_BUF_LEN \<noteq> cyclic_index (farBufWritePos a) j" if j: "j < FRAME_LEN" for j
    proof
      assume "t mod FAR_BUF_LEN = cyclic_index (farBufWritePos a) j"
      then have "t mod FAR_BUF_LEN = (length s + j) mod FAR_BUF_LEN" using A by (simp add: cyclic_index_stream)
      from cyclic_distinct [OF this] True t(2) j assms(2) show False by simp
    qed
    then have "buf ! (t mod FAR_BUF_LEN) = farBuf a ! (t mod FAR_BUF_LEN)" using L(2) by (intro b(4)) simp_all
    also have "\<dots> = s ! t" using A True t(2) by simp
    finally show ?thesis using True by (simp add: nth_append)
  next
    case False
    then have j: "t - length s < FRAME_LEN" "length s + (t - length s) = t" using t(1) assms(2) by simp_all
    then have "cyclic_index (farBufWritePos a) (t - length s) = t mod FAR_BUF_LEN" using A by (simp add: cyclic_index_stream)
    then show ?thesis using b(3) [OF j(1)] False by (simp add: nth_append)
  qed
  have p: "0 \<le> p" "p < ?L" "p mod ?L = (int (length s) - d) mod ?L"
  proof -
    show "0 \<le> p" "p < ?L" using L(2) by (simp_all add: p_def)
    have "p mod ?L = (farBufReadPos a mod ?L - (d - lastKnownDelay a)) mod ?L" by (simp add: p_def a1_def mod_diff_left_eq)
    also have "\<dots> = ((int (length s) - lastKnownDelay a) mod ?L - (d - lastKnownDelay a)) mod ?L" using A by simp
    also have "\<dots> = (int (length s) - d) mod ?L" by (simp add: mod_diff_left_eq)
    finally show "p mod ?L = (int (length s) - d) mod ?L" .
  qed
  have "far_line_ok (a1\<lparr>farBufReadPos := wrapped_end p (int FRAME_LEN), lastKnownDelay := d\<rparr>) ?s"
  proof -
    have "wrapped_end p (int FRAME_LEN) mod ?L = (p mod ?L + int FRAME_LEN) mod ?L"
      using wrapped_end_mod [of p "int FRAME_LEN"] p L by (simp add: mod_add_left_eq)
    also have "\<dots> = (int (length s) - d + int FRAME_LEN) mod ?L" by (simp add: p(3) mod_add_left_eq)
    finally have "wrapped_end p (int FRAME_LEN) mod ?L = (int (length ?s) - d) mod ?L" using assms(2) by (simp add: algebra_simps)
    moreover have "(farBufWritePos a mod ?L + int FRAME_LEN) mod ?L = (int (length s) mod ?L + int FRAME_LEN) mod ?L" using A by simp
    then have "(farBufWritePos a + int FRAME_LEN) mod ?L = int (length ?s) mod ?L"
      using assms(2) by (simp add: mod_add_left_eq)
    then have "wrapped_end (farBufWritePos a) (int FRAME_LEN) mod ?L = int (length ?s) mod ?L"
      using wrapped_end_mod [of "farBufWritePos a" "int FRAME_LEN"] A L by simp
    ultimately show ?thesis
      using wrapped_end_mod [of "farBufWritePos a" "int FRAME_LEN"] A L b(2) stream by (simp add: far_line_ok_def a1_def)
  qed
  moreover have "map (\<lambda>j. buf ! cyclic_index p j) [0..<FRAME_LEN] ! j = ?s ! nat (int (length s + j) - d)"
    if j: "j < FRAME_LEN" "d \<le> int (length s + j)" for j
  proof -
    define t where "t = nat (int (length s + j) - d)"
    have t: "int t = int (length s) - d + int j" using j by (simp add: t_def)
    have "int (cyclic_index p j) = (p mod ?L + int j) mod ?L"
      using p by (simp add: cyclic_index_def zmod_int mod_add_left_eq)
    also have "\<dots> = (int (length s) - d + int j) mod ?L" by (simp add: p(3) mod_add_left_eq)
    also have "\<dots> = int (t mod FAR_BUF_LEN)" by (simp add: t zmod_int)
    finally have "cyclic_index p j = t mod FAR_BUF_LEN" by (simp only: of_nat_eq_iff)
    moreover have "buf ! (t mod FAR_BUF_LEN) = ?s ! t"
      using t j assms L by (intro stream) (simp_all add: aecm_sizes)
    ultimately show ?thesis using j by (simp add: t_def)
  qed
  ultimately show ?thesis using b(1) f by (simp add: far_line_def flip: a1_def)
qed

lemma far_line_run_spec:
  assumes "far_line_ok a s" "\<forall>(x, d) \<in> set ops. length x = FRAME_LEN \<and> 0 \<le> d \<and> d \<le> int (FAR_BUF_LEN - FRAME_LEN)"
  shows "\<exists>a' ys. far_line_run a ops = Some (a', ys) \<and> length ys = length ops \<and> far_line_ok a' (s @ concat (map fst ops)) \<and>
    (\<forall>k < length ops. length (ys ! k) = FRAME_LEN \<and>
      (\<forall>j < FRAME_LEN. snd (ops ! k) \<le> int (length s + FRAME_LEN * k + j) \<longrightarrow>
        ys ! k ! j = (s @ concat (map fst ops)) ! nat (int (length s + FRAME_LEN * k + j) - snd (ops ! k))))"
  using assms
proof (induction ops arbitrary: a s)
  case (Cons op ops)
  obtain x d where op: "op = (x, d)" by fastforce
  have xd: "length x = FRAME_LEN" "0 \<le> d" "d \<le> int (FAR_BUF_LEN - FRAME_LEN)" using Cons.prems(2) op by auto
  obtain a1 y where y: "far_line a x d = Some (a1, y)" "far_line_ok a1 (s @ x)" "length y = FRAME_LEN"
      "\<And>j. j < FRAME_LEN \<Longrightarrow> d \<le> int (length s + j) \<Longrightarrow> y ! j = (s @ x) ! nat (int (length s + j) - d)"
    using far_line_step [OF Cons.prems(1) xd] by blast
  from Cons.IH [OF y(2)] Cons.prems(2)
  obtain a2 ys where ys: "far_line_run a1 ops = Some (a2, ys)" "length ys = length ops" "far_line_ok a2 ((s @ x) @ concat (map fst ops))"
      "\<And>k. k < length ops \<Longrightarrow> length (ys ! k) = FRAME_LEN \<and>
        (\<forall>j < FRAME_LEN. snd (ops ! k) \<le> int (length (s @ x) + FRAME_LEN * k + j) \<longrightarrow>
          ys ! k ! j = ((s @ x) @ concat (map fst ops)) ! nat (int (length (s @ x) + FRAME_LEN * k + j) - snd (ops ! k)))"
    by auto
  have "length ((y # ys) ! k) = FRAME_LEN \<and>
      (\<forall>j < FRAME_LEN. snd ((op # ops) ! k) \<le> int (length s + FRAME_LEN * k + j) \<longrightarrow>
        (y # ys) ! k ! j = (s @ concat (map fst (op # ops))) ! nat (int (length s + FRAME_LEN * k + j) - snd ((op # ops) ! k)))"
    if k: "k < length (op # ops)" for k
  proof (cases k)
    case 0
    have "y ! j = (s @ x @ concat (map fst ops)) ! nat (int (length s + j) - d)" if j: "j < FRAME_LEN" "d \<le> int (length s + j)" for j
    proof -
      have "nat (int (length s + j) - d) < length (s @ x)" using j xd by simp
      then have "((s @ x) @ concat (map fst ops)) ! nat (int (length s + j) - d) = (s @ x) ! nat (int (length s + j) - d)"
        by (rule nth_append_left)
      then show ?thesis using y(4) [OF j] by simp
    qed
    then show ?thesis using 0 y(3) op by simp
  next
    case (Suc k')
    have "length s + (FRAME_LEN + FRAME_LEN * k') = length s + length x + FRAME_LEN * k'" using xd by simp
    then show ?thesis using ys(4) [of k'] k Suc op xd by (simp add: add.assoc)
  qed
  then show ?case using op y(1) ys(1,2,3) by simp
qed simp

section \<open>The history as a sequence of spectra\<close>

lemma slice_blit_same:
  assumes "length x = n" "(p + 1) * n \<le> length h" shows "take n (drop (p * n) (blit (p * n) x h)) = x"
  using assms by (simp add: blit_def)

lemma slice_blit_other:
  assumes "length x = n" "(p + 1) * n \<le> length h" "(q + 1) * n \<le> length h" "p \<noteq> q"
  shows "take n (drop (p * n) (blit (q * n) x h)) = take n (drop (p * n) h)"
proof (rule nth_equalityI)
  have l: "length (blit (q * n) x h) = length h" using assms by (intro length_blit) simp
  then show "length (take n (drop (p * n) (blit (q * n) x h))) = length (take n (drop (p * n) h))" by simp
  fix i assume "i < length (take n (drop (p * n) (blit (q * n) x h)))"
  then have i: "i < n" by simp
  then have "p * n + i < (p + 1) * n" by simp
  then have pi: "p * n + i < length h" using assms(2) by linarith
  have "\<not> (q * n \<le> p * n + i \<and> p * n + i < q * n + n)"
  proof
    assume "q * n \<le> p * n + i \<and> p * n + i < q * n + n"
    then have "(p * n + i) div n = q" using i by (intro div_nat_eqI) (simp_all add: mult.commute)
    moreover have "(p * n + i) div n = p" using i by (intro div_nat_eqI) (simp_all add: mult.commute)
    ultimately show False using assms(4) by simp
  qed
  then show "take n (drop (p * n) (blit (q * n) x h)) ! i = take n (drop (p * n) h) ! i"
    using i pi assms l by (auto simp: nth_blit)
qed

definition far_history_holds :: "AecmCore \<Rightarrow> (int list \<times> int) list \<Rightarrow> bool" where
  "far_history_holds a h \<longleftrightarrow> MAX_DELAY \<le> length h \<and>
     length (far_history a) = MAX_DELAY * PART_LEN1 \<and> length (far_q_domains a) = MAX_DELAY \<and>
     (far_history_pos a = int ((length h - 1) mod MAX_DELAY) \<or> far_history_pos a = int MAX_DELAY \<and> length h mod MAX_DELAY = 0) \<and>
     (\<forall>m < length h. length h \<le> m + MAX_DELAY \<longrightarrow>
        (take PART_LEN1 (drop (m mod MAX_DELAY * PART_LEN1) (far_history a)), far_q_domains a ! (m mod MAX_DELAY)) = h ! m)"

lemma cyclic_delay_distinct:
  assumes "t mod MAX_DELAY = u mod MAX_DELAY" "t < u" shows "t + MAX_DELAY \<le> u"
proof -
  have "MAX_DELAY dvd u - t" using assms mod_eq_dvd_iff_nat [of t u MAX_DELAY] by (simp add: eq_commute)
  then show ?thesis using assms(2) by (auto dest!: dvd_imp_le)
qed

lemma UpdateFarHistory_holds:
  assumes "far_history_holds a h" "length x = PART_LEN1"
  shows "far_history_holds (WebRtcAecm_UpdateFarHistory a x q) (h @ [(x, q)])"
    "far_history_pos (WebRtcAecm_UpdateFarHistory a x q) = int (length h mod MAX_DELAY)"
proof -
  note A = assms(1) [unfolded far_history_holds_def]
  define p where "p = length h mod MAX_DELAY"
  have M: "0 < MAX_DELAY" "1 < MAX_DELAY" by (simp_all add: aecm_sizes)
  have p: "p < MAX_DELAY" using M by (simp add: p_def)
  then have "(p + 1) * PART_LEN1 \<le> MAX_DELAY * PART_LEN1" by (intro mult_le_mono1) simp
  note p = p this
  have pos: "(if far_history_pos a + 1 \<ge> int MAX_DELAY then 0 else far_history_pos a + 1) = int p"
  proof (cases "far_history_pos a = int ((length h - 1) mod MAX_DELAY)")
    case True
    have "length h = Suc (length h - 1)" using conjunct1 [OF A] M by linarith
    then have "p = (if Suc ((length h - 1) mod MAX_DELAY) = MAX_DELAY then 0 else Suc ((length h - 1) mod MAX_DELAY))"
      unfolding p_def by (metis mod_Suc)
    moreover have "(length h - 1) mod MAX_DELAY < MAX_DELAY" using M by simp
    ultimately show ?thesis using True by auto
  qed (use A in \<open>auto simp: p_def\<close>)
  have eq: "WebRtcAecm_UpdateFarHistory a x q = a\<lparr>far_history_pos := int p, far_q_domains := (far_q_domains a)[p := q],
      far_history := blit (p * PART_LEN1) x (far_history a)\<rparr>"
    using assms(2) unfolding WebRtcAecm_UpdateFarHistory_def Let_def pos by simp
  show "far_history_pos (WebRtcAecm_UpdateFarHistory a x q) = int (length h mod MAX_DELAY)" by (simp add: eq p_def)
  have l: "length (blit (p * PART_LEN1) x (far_history a)) = MAX_DELAY * PART_LEN1" using p A assms(2) by (subst length_blit) simp_all
  have "(take PART_LEN1 (drop (m mod MAX_DELAY * PART_LEN1) (blit (p * PART_LEN1) x (far_history a))),
      (far_q_domains a)[p := q] ! (m mod MAX_DELAY)) = (h @ [(x, q)]) ! m"
    if m: "m < length (h @ [(x, q)])" "length (h @ [(x, q)]) \<le> m + MAX_DELAY" for m
  proof (cases "m = length h")
    case True
    then show ?thesis using p A assms(2) slice_blit_same [OF assms(2), of p "far_history a"] by (simp flip: p_def)
  next
    case False
    then have ml: "m < length h" "length h \<le> m + MAX_DELAY" using m by simp_all
    have ne: "m mod MAX_DELAY \<noteq> p" using cyclic_delay_distinct [of m "length h"] ml m(2) unfolding p_def by fastforce
    have "(m mod MAX_DELAY + 1) * PART_LEN1 \<le> MAX_DELAY * PART_LEN1" using M by (intro mult_le_mono1) (simp add: Suc_leI)
    then have "take PART_LEN1 (drop (m mod MAX_DELAY * PART_LEN1) (blit (p * PART_LEN1) x (far_history a))) =
        take PART_LEN1 (drop (m mod MAX_DELAY * PART_LEN1) (far_history a))"
      using p A ne assms(2) by (intro slice_blit_other) simp_all
    then show ?thesis using A ml ne by (simp add: nth_append)
  qed
  then show "far_history_holds (WebRtcAecm_UpdateFarHistory a x q) (h @ [(x, q)])"
    using A l by (simp add: far_history_holds_def eq flip: p_def)
qed

lemma AlignedFarend_holds:
  assumes "far_history_holds a h" "far_history_pos a = int ((length h - 1) mod MAX_DELAY)" "d < MAX_DELAY"
  shows "WebRtcAecm_AlignedFarend a (int d) = Some (h ! (length h - 1 - d))"
proof -
  note A = assms(1) [unfolded far_history_holds_def]
  define m where "m = length h - 1 - d"
  have m: "m < length h" "length h \<le> m + MAX_DELAY" "m + d = length h - 1" using conjunct1 [OF A] assms(3) unfolding m_def by linarith+
  define b where "b = far_history_pos a - int d"
  have "(if b < 0 then b + int MAX_DELAY else b) = int (m mod MAX_DELAY)"
  proof -
    have "int (m mod MAX_DELAY) = (int (m + d) mod int MAX_DELAY - int d) mod int MAX_DELAY"
      by (simp add: zmod_int mod_diff_left_eq)
    also have "\<dots> = b mod int MAX_DELAY" by (simp add: b_def assms(2) m(3) zmod_int)
    also have "\<dots> = (if b < 0 then b + int MAX_DELAY else b)"
    proof -
      have "(length h - 1) mod MAX_DELAY < MAX_DELAY" using assms(3) by simp
      then have "far_history_pos a < int MAX_DELAY" "0 \<le> far_history_pos a" by (simp_all only: assms(2) of_nat_less_iff of_nat_0_le_iff)
      then have "- int MAX_DELAY < b" "b < int MAX_DELAY" using assms(3) unfolding b_def by linarith+
      then show ?thesis using mod_pos_pos_trivial [of "b + int MAX_DELAY" "int MAX_DELAY"] by simp
    qed
    finally show ?thesis by simp
  qed
  moreover have "m mod MAX_DELAY < MAX_DELAY" using assms(3) by simp
  ultimately show ?thesis using A m(1,2)
    unfolding WebRtcAecm_AlignedFarend_def Let_def b_def [symmetric] m_def [symmetric] by simp
qed

section \<open>Initialisation\<close>

text \<open>What the initialisation relies on: the sizes of the arrays and of the estimators.\<close>

definition core_memory :: "AecmCore \<Rightarrow> bool" where
  "core_memory a \<longleftrightarrow>
     (let f = delay_estimator_farend a; e = delay_estimator a; bf = binary_farend f; be = binary_handle e
      in far_history_size bf = int MAX_DELAY \<and> length (binary_far_history bf) = MAX_DELAY \<and> length (far_bit_counts bf) = MAX_DELAY \<and>
         far_spectrum_size f = int PART_LEN1 \<and> length (mean_far_spectrum f) = PART_LEN1 \<and>
         history_size be = int MAX_DELAY \<and> near_history_size be = 1 \<and> lookahead be = 0 \<and>
         length (mean_bit_counts be) = MAX_DELAY + 1 \<and> length (bit_counts be) = MAX_DELAY \<and>
         length (histogram be) = MAX_DELAY + 1 \<and> length (binary_near_history be) = 1 \<and>
         spectrum_size e = int PART_LEN1 \<and> length (mean_near_spectrum e) = PART_LEN1) \<and>
     length (channelStored a) = PART_LEN1 \<and> length (channelAdapt16 a) = PART_LEN1 \<and> length (channelAdapt32 a) = PART_LEN1 \<and>
     length (noiseEst a) = PART_LEN1 \<and> length (farBuf a) = FAR_BUF_LEN \<and> order (real_fft a) = 7"

definition start_estimators :: "AecmCore \<Rightarrow> AecmCore" where
  "start_estimators a =
     a\<lparr>delay_estimator_farend := the (fst (WebRtc_InitDelayEstimatorFarend (Some (delay_estimator_farend a)))),
       delay_estimator := the (fst (WebRtc_InitDelayEstimator (Some (delay_estimator a))))\<rparr>"

lemma InitCore_eq:
  "WebRtcAecm_InitCore a fs =
     (if fs = 8000 \<or> fs = 16000 then
        (init_core_levels (WebRtcAecm_InitEchoPathCore
           (init_core_state (start_estimators (init_core_buffers (a\<lparr>mult := c_div (to_i16 fs) 8000\<rparr>))))
           (if fs = 8000 then kChannelStored8kHz else kChannelStored16kHz)), 0)
      else (a, - 1))"
  unfolding WebRtcAecm_InitCore_def start_estimators_def WebRtc_InitDelayEstimatorFarend_def WebRtc_InitDelayEstimator_def
  by (simp add: Let_def)

lemma channel_tables:
  "array_of PART_LEN1 is_i16 kChannelStored8kHz" "array_of PART_LEN1 is_i16 kChannelStored16kHz"
  by (simp_all add: array_of_def kChannelStored8kHz_def kChannelStored16kHz_def aecm_sizes is_i16_def)

lemma fold_prefix_update:
  "k \<le> length xs \<Longrightarrow> fold (\<lambda>i ys. ys[i := g i]) [0..<k] xs = map g [0..<k] @ drop k xs"
proof (induction k)
  case (Suc k)
  then show ?case by (simp add: list_update_append Cons_nth_drop_Suc [symmetric])
qed simp

lemma fold_range_update:
  assumes "m \<le> k" "k \<le> length xs"
  shows "length (fold (\<lambda>i ys. ys[i := g i]) [m..<k] xs) = length xs \<and>
    (\<forall>i < length xs. fold (\<lambda>i ys. ys[i := g i]) [m..<k] xs ! i = (if m \<le> i \<and> i < k then g i else xs ! i))"
  using assms
proof (induction rule: dec_induct)
  case (step n)
  then show ?case by (auto simp: nth_list_update)
qed auto

lemma InitEchoPath_eq:
  assumes "length (channelStored a) = PART_LEN1" "length (channelAdapt16 a) = PART_LEN1" "length (channelAdapt32 a) = PART_LEN1"
    "length path = PART_LEN1"
  shows "WebRtcAecm_InitEchoPathCore a path = a\<lparr>channelStored := path, channelAdapt16 := path,
    channelAdapt32 := map (\<lambda>i. shl (path ! i) 16) [0..<PART_LEN1], mseAdaptOld := 1000, mseStoredOld := 1000,
    mseThreshold := 2147483647, mseChannelCount := 0\<rparr>"
proof -
  have "blit 0 (take PART_LEN1 path) (channelStored a) = path" "blit 0 (take PART_LEN1 path) (channelAdapt16 a) = path"
    using assms by (simp_all add: blit_def)
  then show ?thesis using assms by (simp add: WebRtcAecm_InitEchoPathCore_def Let_def fold_prefix_update)
qed

lemma InitEchoPath_ok:
  assumes "array_of PART_LEN1 is_i16 path" "length (channelStored a) = PART_LEN1" "length (channelAdapt16 a) = PART_LEN1"
    "length (channelAdapt32 a) = PART_LEN1"
  shows "array_of PART_LEN1 is_i32 (channelAdapt32 (WebRtcAecm_InitEchoPathCore a path))"
proof -
  have "is_i32 (shl (path ! i) 16)" if "i < PART_LEN1" for i using assms(1) that by (intro is_i32_shl_16) (auto intro: array_of_nth)
  then show ?thesis using assms by (subst InitEchoPath_eq) (auto simp: array_of_def)
qed

text \<open>The initial noise falls from 4225 to 1156 in Q8.\<close>

lemma initial_noise_loop:
  assumes "k \<le> 31"
  shows "fold (\<lambda>i (noise, tmp16, tmp32).
      let noise = noise[i := shl tmp32 8]; tmp16 = to_i16 (tmp16 - 1); tmp32 = tmp32 - (shl tmp16 1 + 1)
      in (noise, tmp16, tmp32)) [0..<k] (noise, 65, 65 * 65)
    = (fold (\<lambda>i noise. noise[i := (65 - int i) * (65 - int i) * 256]) [0..<k] noise, 65 - int k, (65 - int k) * (65 - int k))"
  using assms
proof (induction k)
  case (Suc k)
  have "to_i16 (65 - int k - 1) = 64 - int k" using Suc.prems by (simp add: to_i16_id is_i16_def)
  then show ?case using Suc by (simp add: Let_def shl_def algebra_simps)
qed simp

lemma initial_noise_eq:
  "initial_noise noise = fold (\<lambda>i noise. noise[i := 1156 * 256]) [31..<65]
     (fold (\<lambda>i noise. noise[i := (65 - int i) * (65 - int i) * 256]) [0..<31] noise)"
  using initial_noise_loop [of 31 noise]
  by (simp add: initial_noise_def Let_def PART_LEN1_def PART_LEN_def shl_def del: upt_rec_numeral)

lemma initial_noise_ok:
  assumes "length noise = PART_LEN1"
  shows "array_of PART_LEN1 (between 0 1073741824) (initial_noise noise)"
proof -
  define n0 where "n0 = fold (\<lambda>i noise. noise[i := (65 - int i) * (65 - int i) * 256]) [0..<31] noise"
  have n0: "length n0 = 65" "\<And>i. i < 31 \<Longrightarrow> n0 ! i = (65 - int i) * (65 - int i) * 256"
    using fold_range_update [of 0 31 noise "\<lambda>i. (65 - int i) * (65 - int i) * 256"] assms unfolding n0_def
    by (simp_all add: aecm_sizes)
  have n: "length (initial_noise noise) = 65" "\<And>i. i < 65 \<Longrightarrow> initial_noise noise ! i = (if 31 \<le> i then 1156 * 256 else n0 ! i)"
    using fold_range_update [of 31 65 n0 "\<lambda>i. 1156 * 256"] n0(1) unfolding initial_noise_eq n0_def [symmetric]
    by (simp_all del: upt_rec_numeral)
  have "between 0 1073741824 ((65 - int i) * (65 - int i) * 256)" if "i < 31" for i
  proof -
    have "0 \<le> (65 - int i) * (65 - int i)" "(65 - int i) * (65 - int i) \<le> 65 * 65" using that by (simp, intro mult_mono) simp_all
    then show ?thesis by (simp add: between_def)
  qed
  then have "between 0 1073741824 (initial_noise noise ! i)" if "i < 65" for i
    using that by (cases "31 \<le> i") (simp_all add: n n0(2) between_def)
  then show ?thesis using n(1) by (auto simp: array_of_def aecm_sizes in_set_conv_nth)
qed

lemma AecmInitCore_ok:
  assumes "core_memory mem" "WebRtcAecm_InitCore mem fs = (a, 0)"
  shows "core_ok a" "far_history_holds a (replicate MAX_DELAY (replicate PART_LEN1 0, 0))" "far_line_ok a []"
proof -
  note M = assms(1) [unfolded core_memory_def Let_def]
  have fs: "fs = 8000 \<or> fs = 16000" using assms(2) by (auto simp: InitCore_eq split: if_splits)
  define path where "path = (if fs = 8000 then kChannelStored8kHz else kChannelStored16kHz)"
  have path: "array_of PART_LEN1 is_i16 path" using channel_tables by (simp add: path_def)
  define b where "b = init_core_state (start_estimators (init_core_buffers (mem\<lparr>mult := c_div (to_i16 fs) 8000\<rparr>)))"
  have ch: "length (channelStored b) = PART_LEN1" "length (channelAdapt16 b) = PART_LEN1" "length (channelAdapt32 b) = PART_LEN1"
    using M by (simp_all add: b_def init_core_state_def start_estimators_def init_core_buffers_def)
  have a: "a = init_core_levels (WebRtcAecm_InitEchoPathCore b path)"
    using assms(2) fs by (simp add: InitCore_eq b_def path_def)
  have c32: "array_of PART_LEN1 is_i32 (map (\<lambda>i. shl (path ! i) 16) [0..<PART_LEN1])"
    using InitEchoPath_ok [OF path ch] by (simp add: InitEchoPath_eq [OF ch array_of_length [OF path]])
  have e: "estimators_ok b"
  proof -
    have "farend_ok (WebRtc_InitBinaryDelayEstimatorFarend (binary_farend (delay_estimator_farend mem)))"
      using M by (intro farend_init_ok) (simp_all add: MAX_DELAY_def)
    moreover have "estimator_ok (WebRtc_InitBinaryDelayEstimator (binary_handle (delay_estimator mem)))"
      using M by (intro estimator_init_ok) (simp_all add: MAX_DELAY_def)
    moreover have "threshold_ok (replicate PART_LEN1 0)" by (simp add: threshold_ok_def aecm_sizes kBandLast_def)
    ultimately show ?thesis using M
      by (simp add: estimators_ok_def Let_def b_def init_core_state_def start_estimators_def init_core_buffers_def
          WebRtc_InitDelayEstimatorFarend_def WebRtc_InitDelayEstimator_def WebRtc_InitBinaryDelayEstimatorFarend_def
          WebRtc_InitBinaryDelayEstimator_def blit_def)
  qed
  define c where "c = b\<lparr>channelStored := path, channelAdapt16 := path, channelAdapt32 := map (\<lambda>i. shl (path ! i) 16) [0..<PART_LEN1],
    mseAdaptOld := 1000, mseStoredOld := 1000, mseThreshold := 2147483647, mseChannelCount := 0\<rparr>"
  have ac: "a = init_core_levels c" unfolding a c_def by (simp only: InitEchoPath_eq [OF ch array_of_length [OF path]])
  note init = init_core_state_def start_estimators_def init_core_buffers_def
  have z: "log_energy 0" "is_i16 0" "is_i32 0" "between 0 15 0" "between 0 65535 0" "between 0 100 100"
    by (simp_all add: log_energy_def between_def is_i16_def is_i32_def)
  have sp: "spectra_ok b" using M z by (simp add: spectra_ok_def b_def init MAX_DELAY_def mult.commute)
  have lg: "array_of MAX_BUF_LEN log_energy (nearLogEnergy b)" "array_of MAX_BUF_LEN log_energy (echoAdaptLogEnergy b)"
      "array_of MAX_BUF_LEN log_energy (echoStoredLogEnergy b)" using z by (simp_all add: b_def init)
  have "estimators_ok a" "spectra_ok a" using e sp by (simp_all add: ac c_def init_core_levels_def estimators_ok_def spectra_ok_def)
  moreover have "channel_ok a" using lg c32 path by (simp add: ac c_def init_core_levels_def channel_ok_def)
  moreover have "gain_params_ok a"
    by (simp add: ac init_core_levels_def gain_params_ok_def between_def SUPGAIN_DEFAULT_def SUPGAIN_ERROR_PARAM_A_def
        SUPGAIN_ERROR_PARAM_B_def SUPGAIN_ERROR_PARAM_D_def)
  moreover have "filters_ok a"
  proof -
    have "length (noiseEst c) = PART_LEN1" using M by (simp add: c_def b_def init)
    from initial_noise_ok [OF this] show ?thesis using z by (simp add: ac init_core_levels_def filters_ok_def)
  qed
  ultimately show "core_ok a" by (simp add: core_ok_def)
  have h: "far_history a = replicate (PART_LEN1 * MAX_DELAY) 0" "far_q_domains a = replicate MAX_DELAY 0" "far_history_pos a = int MAX_DELAY"
    by (simp_all add: ac c_def b_def init init_core_levels_def)
  have "take PART_LEN1 (drop (m * PART_LEN1) (replicate (PART_LEN1 * MAX_DELAY) 0)) = replicate PART_LEN1 (0 :: int)" if "m < MAX_DELAY" for m
  proof -
    have "(m + 1) * PART_LEN1 \<le> MAX_DELAY * PART_LEN1" using that by (intro mult_le_mono1) simp
    then have "PART_LEN1 \<le> PART_LEN1 * MAX_DELAY - m * PART_LEN1" by (simp add: mult.commute)
    then show ?thesis by simp
  qed
  moreover have "m mod MAX_DELAY < MAX_DELAY" for m by (simp add: MAX_DELAY_def)
  ultimately show "far_history_holds a (replicate MAX_DELAY (replicate PART_LEN1 0, 0))"
    by (simp add: far_history_holds_def h)
  show "far_line_ok a []" using M by (simp add: ac c_def b_def init init_core_levels_def far_line_ok_def aecm_sizes)
qed

section \<open>Properties\<close>

definition zero_memory :: AecmCore where
  "zero_memory =
    \<lparr>farBufWritePos = 7, farBufReadPos = 9, knownDelay = 1, lastKnownDelay = 2, firstVAD = 0,
     farFrameBuf = \<lparr>read_pos = 3, write_pos = 5, element_count = 144, element_size = 2, rw_wrap = SAME_WRAP, data = replicate 288 0\<rparr>,
     nearNoisyFrameBuf = \<lparr>read_pos = 3, write_pos = 5, element_count = 144, element_size = 2, rw_wrap = SAME_WRAP, data = replicate 288 0\<rparr>,
     nearCleanFrameBuf = \<lparr>read_pos = 3, write_pos = 5, element_count = 144, element_size = 2, rw_wrap = SAME_WRAP, data = replicate 288 0\<rparr>,
     outFrameBuf = \<lparr>read_pos = 3, write_pos = 5, element_count = 144, element_size = 2, rw_wrap = SAME_WRAP, data = replicate 288 0\<rparr>,
     farBuf = replicate FAR_BUF_LEN 0, mult = 0, seed = 0,
     delay_estimator_farend = \<lparr>mean_far_spectrum = replicate PART_LEN1 0, far_spectrum_initialized = 0, far_spectrum_size = int PART_LEN1,
       binary_farend = \<lparr>far_bit_counts = replicate MAX_DELAY 0, binary_far_history = replicate MAX_DELAY 0, far_history_size = int MAX_DELAY\<rparr>\<rparr>,
     delay_estimator = \<lparr>mean_near_spectrum = replicate PART_LEN1 0, near_spectrum_initialized = 0, spectrum_size = int PART_LEN1,
       binary_handle = \<lparr>mean_bit_counts = replicate (MAX_DELAY + 1) 0, bit_counts = replicate MAX_DELAY 0, binary_near_history = [0],
         near_history_size = 1, history_size = int MAX_DELAY, minimum_probability = 0, last_delay_probability = 0, last_delay = 0,
         robust_validation_enabled = 0, allowed_offset = 0, last_candidate_delay = 0, compare_delay = 0, candidate_hits = 0,
         histogram = replicate (MAX_DELAY + 1) 0, last_delay_histogram = 0, lookahead = 0\<rparr>\<rparr>,
     far_history = replicate (PART_LEN1 * MAX_DELAY) 0, far_history_pos = 0, far_q_domains = replicate MAX_DELAY 0,
     nlpFlag = 0, fixedDelay = 0, totCount = 0, dfaCleanQDomain = 0, dfaCleanQDomainOld = 0, dfaNoisyQDomain = 0,
     dfaNoisyQDomainOld = 0, nearLogEnergy = [], farLogEnergy = 0, echoAdaptLogEnergy = [], echoStoredLogEnergy = [],
     channelStored = replicate PART_LEN1 0, channelAdapt16 = replicate PART_LEN1 0, channelAdapt32 = replicate PART_LEN1 0,
     xBuf = [], dBufClean = [], dBufNoisy = [], outBuf = [], echoFilt = [], nearFilt = [], noiseEst = replicate PART_LEN1 0,
     noiseEstTooLowCtr = [], noiseEstTooHighCtr = [], noiseEstCtr = 0, cngMode = 0, mseAdaptOld = 0, mseStoredOld = 0,
     mseThreshold = 0, farEnergyMin = 0, farEnergyMax = 0, farEnergyMaxMin = 0, farEnergyVAD = 0, farEnergyMSE = 0,
     currentVADValue = 0, vadUpdateCount = 0, startupState = 0, mseChannelCount = 0, supGain = 0, supGainOld = 0,
     supGainErrParamA = 0, supGainErrParamD = 0, supGainErrParamDiffAB = 0, supGainErrParamDiffBD = 0, real_fft = \<lparr>order = 7\<rparr>\<rparr>"

lemma zero_memory_ok: "core_memory zero_memory"
  by (simp add: core_memory_def zero_memory_def Let_def)

lemma init_zero_memory: "WebRtcAecm_InitCore zero_memory 8000 = (fst (WebRtcAecm_InitCore zero_memory 8000), 0)"
  by (simp add: InitCore_eq)

text \<open>C14: The delay line of the far end delays: after an initialisation, in every sequence of frames of 80 samples with known
  delays from 0 to 176, the frame fetched at the \<open>k\<close>-th call is the signal at the samples \<open>80 k - d\<close> to \<open>80 k - d + 79\<close>,
  also when the delay changes from call to call, wherever these samples are not before the start.\<close>

theorem far_delay_line:
  assumes "core_memory mem" "WebRtcAecm_InitCore mem fs = (a, 0)"
    and "\<forall>(x, d) \<in> set ops. length x = FRAME_LEN \<and> 0 \<le> d \<and> d \<le> 176"
  shows "\<exists>a' ys. far_line_run a ops = Some (a', ys) \<and> length ys = length ops \<and>
    (\<forall>k < length ops. length (ys ! k) = FRAME_LEN \<and>
      (\<forall>j < FRAME_LEN. snd (ops ! k) \<le> int (FRAME_LEN * k + j) \<longrightarrow>
        ys ! k ! j = concat (map fst ops) ! nat (int (FRAME_LEN * k + j) - snd (ops ! k))))"
proof -
  have "\<forall>(x, d) \<in> set ops. length x = FRAME_LEN \<and> 0 \<le> d \<and> d \<le> int (FAR_BUF_LEN - FRAME_LEN)"
    using assms(3) by (simp add: aecm_sizes)
  from far_line_run_spec [OF AecmInitCore_ok(3) [OF assms(1,2)] this] show ?thesis by auto
qed

theorem far_delay_line_witness:
  "\<exists>a' ys. far_line_run (fst (WebRtcAecm_InitCore zero_memory 8000)) [(replicate 80 5, 0), (replicate 80 6, 16)] = Some (a', ys) \<and>
    ys ! 1 ! 20 = 6 \<and> ys ! 1 ! 10 = 5"
proof -
  define ops :: "(int list \<times> int) list" where "ops = [(replicate 80 5, 0), (replicate 80 6, 16)]"
  have "\<forall>(x, d) \<in> set ops. length x = FRAME_LEN \<and> 0 \<le> d \<and> d \<le> 176" by (simp add: ops_def FRAME_LEN_def)
  from far_delay_line [OF zero_memory_ok init_zero_memory this] obtain a' ys
    where r: "far_line_run (fst (WebRtcAecm_InitCore zero_memory 8000)) ops = Some (a', ys)"
      and y: "\<And>k j. k < length ops \<Longrightarrow> j < FRAME_LEN \<Longrightarrow> snd (ops ! k) \<le> int (FRAME_LEN * k + j) \<Longrightarrow>
        ys ! k ! j = concat (map fst ops) ! nat (int (FRAME_LEN * k + j) - snd (ops ! k))" by blast
  have "ys ! 1 ! 20 = 6" "ys ! 1 ! 10 = 5"
    using y [of 1 20] y [of 1 10] by (simp_all add: ops_def FRAME_LEN_def nth_append)
  with r show ?thesis unfolding ops_def by blast
qed

text \<open>C15: The far-end history is a history: after an initialisation and any sequence of at least one update,
  \<open>WebRtcAecm_AlignedFarend\<close> with a delay \<open>d\<close> below 100 returns the spectrum and the Q-domain stored \<open>d\<close> updates ago, and zeros
  where there was none yet; the position wraps around without a gap.\<close>

theorem aligned_farend_history:
  assumes "core_memory mem" "WebRtcAecm_InitCore mem fs = (a, 0)"
    and "us \<noteq> []" "\<forall>(x, q) \<in> set us. length x = PART_LEN1" "d < MAX_DELAY"
  shows "WebRtcAecm_AlignedFarend (fold (\<lambda>(x, q) a. WebRtcAecm_UpdateFarHistory a x q) us a) (int d) =
    Some (if d < length us then us ! (length us - 1 - d) else (replicate PART_LEN1 0, 0))"
proof -
  let ?z = "replicate MAX_DELAY (replicate PART_LEN1 0, 0)" and ?run = "\<lambda>us. fold (\<lambda>(x, q) a. WebRtcAecm_UpdateFarHistory a x q) us a"
  have "far_history_holds (?run us) (?z @ us) \<and> (us \<noteq> [] \<longrightarrow> far_history_pos (?run us) = int ((length (?z @ us) - 1) mod MAX_DELAY))"
    using assms(4)
  proof (induction us rule: rev_induct)
    case Nil
    then show ?case using AecmInitCore_ok(2) [OF assms(1,2)] by simp
  next
    case (snoc u us)
    obtain x q where u: "u = (x, q)" by fastforce
    have x: "length x = PART_LEN1" and h: "far_history_holds (?run us) (?z @ us)" using snoc u by auto
    show ?case using UpdateFarHistory_holds [OF h x, of q] by (simp add: u)
  qed
  with assms(3) have h: "far_history_holds (?run us) (?z @ us)" "far_history_pos (?run us) = int ((length (?z @ us) - 1) mod MAX_DELAY)"
    by blast+
  have "(?z @ us) ! (length (?z @ us) - 1 - d) = (if d < length us then us ! (length us - 1 - d) else (replicate PART_LEN1 0, 0))"
    using assms(3,5) by (auto simp: nth_append)
  then show ?thesis using AlignedFarend_holds [OF h assms(5)] by simp
qed

theorem aligned_farend_history_witness:
  "WebRtcAecm_AlignedFarend (fold (\<lambda>(x, q) a. WebRtcAecm_UpdateFarHistory a x q) [(replicate PART_LEN1 7, 3), (replicate PART_LEN1 8, 4)]
     (fst (WebRtcAecm_InitCore zero_memory 8000))) 1 = Some (replicate PART_LEN1 7, 3)"
  using aligned_farend_history [OF zero_memory_ok init_zero_memory, of "[(replicate PART_LEN1 7, 3), (replicate PART_LEN1 8, 4)]" 1]
  by (simp add: MAX_DELAY_def)

text \<open>C16: The suppression gain stays in bounds: its target is 0 without far-end speech and otherwise falls with the error of
  the echo estimate, from the parameter \<open>A\<close> at no error over \<open>B\<close> at 200 to \<open>D\<close> from 400 on; the gain moves a sixteenth of the
  way to the larger of the last two targets, never past it, and stays between 0 and \<open>A\<close>, without an overflow.\<close>

theorem suppression_gain_in_range:
  assumes "core_ok a"
  shows "\<exists>a' g. WebRtcAecm_CalcSuppressionGain a = (a', g) \<and> core_ok a' \<and> supGain a' = g \<and> 0 \<le> g \<and> g \<le> supGainErrParamA a \<and>
    (let e = \<bar>nearLogEnergy a ! 0 - echoStoredLogEnergy a ! 0\<bar>;
         wanted = (if currentVADValue a = 0 then 0
           else if e < 200 then supGainErrParamA a - (supGainErrParamDiffAB a * e + 100) div 200
           else if e < 400 then supGainErrParamD a + (supGainErrParamDiffBD a * (400 - e) + 100) div 200
           else supGainErrParamD a);
         target = max wanted (supGainOld a)
     in supGainOld a' = wanted \<and> g = supGain a + (target - supGain a) div 16 \<and> min (supGain a) target \<le> g \<and> g \<le> max (supGain a) target)"
proof -
  define t where "t = max (wanted_gain a) (supGainOld a)"
  define g where "g = supGain a + (t - supGain a) div 16"
  have b: "between 0 (supGainErrParamA a) (supGain a)" "between 0 (supGainErrParamA a) t" "supGainErrParamA a \<le> 6144"
    using assms(1) wanted_gain_range [OF assms(1)] by (auto simp: core_parts SUPGAIN_ERROR_PARAM_A_def t_def max_def)
  note c = CalcSuppressionGain_eq [OF assms t_def g_def]
  show ?thesis
    unfolding c(1) Let_def wanted_gain_cases [OF assms refl, symmetric] t_def [symmetric] g_def [symmetric]
    using c(2,3) sixteenth(3) [OF b, folded g_def] by (simp add: between_def)
qed

theorem suppression_gain_in_range_witness:
  "\<exists>a' g. WebRtcAecm_CalcSuppressionGain (fst (WebRtcAecm_InitCore zero_memory 8000)) = (a', g) \<and> core_ok a' \<and> 0 \<le> g"
  using suppression_gain_in_range [OF AecmInitCore_ok(1) [OF zero_memory_ok init_zero_memory]] by blast

end
