(* ===== verification/AecmBlock.thy ===== *)
theory AecmBlock
  imports AecmChannel
begin

text \<open>
  The processing of blocks and frames of the mobile echo control: \<open>aecm_core_c.cc\<close> and \<open>WebRtcAecm_ProcessFrame\<close> of
  \<open>aecm_core.cc\<close> (\<open>src/webrtc/modules/audio_processing/aecm\<close>).

  An array of \<open>ComplexInt16\<close> is the list of its 16-bit numbers, real and imaginary parts alternating. The local arrays of
  the code are not initialised; the model starts them with zeros, and every element is written before it is read. The
  configuration is the portable one: \<open>AECM_DYNAMIC_Q\<close> is defined, \<open>AECM_WITH_ABS_APPROX\<close> and \<open>WEBRTC_ARCH_ARM_V7\<close> are not.
\<close>

section \<open>Tables\<close>

definition WebRtcAecm_kSqrtHanning :: "int list" where
  "WebRtcAecm_kSqrtHanning = [
    0, 399, 798, 1196, 1594, 1990, 2386, 2780, 3172, 3562, 3951, 4337, 4720, 5101, 5478, 5853, 6224, 6591,
    6954, 7313, 7668, 8019, 8364, 8705, 9040, 9370, 9695, 10013, 10326, 10633, 10933, 11227, 11514, 11795,
    12068, 12335, 12594, 12845, 13089, 13325, 13553, 13773, 13985, 14189, 14384, 14571, 14749, 14918, 15079,
    15231, 15373, 15506, 15631, 15746, 15851, 15947, 16034, 16111, 16179, 16237, 16286, 16325, 16354, 16373,
    16384]"

definition WebRtcAecm_kCosTable :: "int list" where
  "WebRtcAecm_kCosTable = [
    8192, 8190, 8187, 8180, 8172, 8160, 8147, 8130, 8112, 8091, 8067, 8041, 8012, 7982, 7948, 7912, 7874,
    7834, 7791, 7745, 7697, 7647, 7595, 7540, 7483, 7424, 7362, 7299, 7233, 7164, 7094, 7021, 6947, 6870,
    6791, 6710, 6627, 6542, 6455, 6366, 6275, 6182, 6087, 5991, 5892, 5792, 5690, 5586, 5481, 5374, 5265,
    5155, 5043, 4930, 4815, 4698, 4580, 4461, 4341, 4219, 4096, 3971, 3845, 3719, 3591, 3462, 3331, 3200,
    3068, 2935, 2801, 2667, 2531, 2395, 2258, 2120, 1981, 1842, 1703, 1563, 1422, 1281, 1140, 998, 856, 713,
    571, 428, 285, 142, 0, - 142, - 285, - 428, - 571, - 713, - 856, - 998, - 1140, - 1281, - 1422, - 1563, -
    1703, - 1842, - 1981, - 2120, - 2258, - 2395, - 2531, - 2667, - 2801, - 2935, - 3068, - 3200, - 3331, -
    3462, - 3591, - 3719, - 3845, - 3971, - 4095, - 4219, - 4341, - 4461, - 4580, - 4698, - 4815, - 4930, -
    5043, - 5155, - 5265, - 5374, - 5481, - 5586, - 5690, - 5792, - 5892, - 5991, - 6087, - 6182, - 6275, -
    6366, - 6455, - 6542, - 6627, - 6710, - 6791, - 6870, - 6947, - 7021, - 7094, - 7164, - 7233, - 7299, -
    7362, - 7424, - 7483, - 7540, - 7595, - 7647, - 7697, - 7745, - 7791, - 7834, - 7874, - 7912, - 7948, -
    7982, - 8012, - 8041, - 8067, - 8091, - 8112, - 8130, - 8147, - 8160, - 8172, - 8180, - 8187, - 8190, -
    8191, - 8190, - 8187, - 8180, - 8172, - 8160, - 8147, - 8130, - 8112, - 8091, - 8067, - 8041, - 8012, -
    7982, - 7948, - 7912, - 7874, - 7834, - 7791, - 7745, - 7697, - 7647, - 7595, - 7540, - 7483, - 7424, -
    7362, - 7299, - 7233, - 7164, - 7094, - 7021, - 6947, - 6870, - 6791, - 6710, - 6627, - 6542, - 6455, -
    6366, - 6275, - 6182, - 6087, - 5991, - 5892, - 5792, - 5690, - 5586, - 5481, - 5374, - 5265, - 5155, -
    5043, - 4930, - 4815, - 4698, - 4580, - 4461, - 4341, - 4219, - 4096, - 3971, - 3845, - 3719, - 3591, -
    3462, - 3331, - 3200, - 3068, - 2935, - 2801, - 2667, - 2531, - 2395, - 2258, - 2120, - 1981, - 1842, -
    1703, - 1563, - 1422, - 1281, - 1140, - 998, - 856, - 713, - 571, - 428, - 285, - 142, 0, 142, 285, 428,
    571, 713, 856, 998, 1140, 1281, 1422, 1563, 1703, 1842, 1981, 2120, 2258, 2395, 2531, 2667, 2801, 2935,
    3068, 3200, 3331, 3462, 3591, 3719, 3845, 3971, 4095, 4219, 4341, 4461, 4580, 4698, 4815, 4930, 5043,
    5155, 5265, 5374, 5481, 5586, 5690, 5792, 5892, 5991, 6087, 6182, 6275, 6366, 6455, 6542, 6627, 6710,
    6791, 6870, 6947, 7021, 7094, 7164, 7233, 7299, 7362, 7424, 7483, 7540, 7595, 7647, 7697, 7745, 7791,
    7834, 7874, 7912, 7948, 7982, 8012, 8041, 8067, 8091, 8112, 8130, 8147, 8160, 8172, 8180, 8187, 8190]"

definition WebRtcAecm_kSinTable :: "int list" where
  "WebRtcAecm_kSinTable = [
    0, 142, 285, 428, 571, 713, 856, 998, 1140, 1281, 1422, 1563, 1703, 1842, 1981, 2120, 2258, 2395, 2531,
    2667, 2801, 2935, 3068, 3200, 3331, 3462, 3591, 3719, 3845, 3971, 4095, 4219, 4341, 4461, 4580, 4698,
    4815, 4930, 5043, 5155, 5265, 5374, 5481, 5586, 5690, 5792, 5892, 5991, 6087, 6182, 6275, 6366, 6455,
    6542, 6627, 6710, 6791, 6870, 6947, 7021, 7094, 7164, 7233, 7299, 7362, 7424, 7483, 7540, 7595, 7647,
    7697, 7745, 7791, 7834, 7874, 7912, 7948, 7982, 8012, 8041, 8067, 8091, 8112, 8130, 8147, 8160, 8172,
    8180, 8187, 8190, 8191, 8190, 8187, 8180, 8172, 8160, 8147, 8130, 8112, 8091, 8067, 8041, 8012, 7982,
    7948, 7912, 7874, 7834, 7791, 7745, 7697, 7647, 7595, 7540, 7483, 7424, 7362, 7299, 7233, 7164, 7094,
    7021, 6947, 6870, 6791, 6710, 6627, 6542, 6455, 6366, 6275, 6182, 6087, 5991, 5892, 5792, 5690, 5586,
    5481, 5374, 5265, 5155, 5043, 4930, 4815, 4698, 4580, 4461, 4341, 4219, 4096, 3971, 3845, 3719, 3591,
    3462, 3331, 3200, 3068, 2935, 2801, 2667, 2531, 2395, 2258, 2120, 1981, 1842, 1703, 1563, 1422, 1281,
    1140, 998, 856, 713, 571, 428, 285, 142, 0, - 142, - 285, - 428, - 571, - 713, - 856, - 998, - 1140, -
    1281, - 1422, - 1563, - 1703, - 1842, - 1981, - 2120, - 2258, - 2395, - 2531, - 2667, - 2801, - 2935, -
    3068, - 3200, - 3331, - 3462, - 3591, - 3719, - 3845, - 3971, - 4095, - 4219, - 4341, - 4461, - 4580, -
    4698, - 4815, - 4930, - 5043, - 5155, - 5265, - 5374, - 5481, - 5586, - 5690, - 5792, - 5892, - 5991, -
    6087, - 6182, - 6275, - 6366, - 6455, - 6542, - 6627, - 6710, - 6791, - 6870, - 6947, - 7021, - 7094, -
    7164, - 7233, - 7299, - 7362, - 7424, - 7483, - 7540, - 7595, - 7647, - 7697, - 7745, - 7791, - 7834, -
    7874, - 7912, - 7948, - 7982, - 8012, - 8041, - 8067, - 8091, - 8112, - 8130, - 8147, - 8160, - 8172, -
    8180, - 8187, - 8190, - 8191, - 8190, - 8187, - 8180, - 8172, - 8160, - 8147, - 8130, - 8112, - 8091, -
    8067, - 8041, - 8012, - 7982, - 7948, - 7912, - 7874, - 7834, - 7791, - 7745, - 7697, - 7647, - 7595, -
    7540, - 7483, - 7424, - 7362, - 7299, - 7233, - 7164, - 7094, - 7021, - 6947, - 6870, - 6791, - 6710, -
    6627, - 6542, - 6455, - 6366, - 6275, - 6182, - 6087, - 5991, - 5892, - 5792, - 5690, - 5586, - 5481, -
    5374, - 5265, - 5155, - 5043, - 4930, - 4815, - 4698, - 4580, - 4461, - 4341, - 4219, - 4096, - 3971, -
    3845, - 3719, - 3591, - 3462, - 3331, - 3200, - 3068, - 2935, - 2801, - 2667, - 2531, - 2395, - 2258, -
    2120, - 1981, - 1842, - 1703, - 1563, - 1422, - 1281, - 1140, - 998, - 856, - 713, - 571, - 428, - 285, -
    142]"

definition kNoiseEstQDomain :: int where "kNoiseEstQDomain = 15"
definition kNoiseEstIncCount :: int where "kNoiseEstIncCount = 5"

section \<open>Transforms\<close>

definition WindowAndFFT :: "AecmCore \<Rightarrow> int list \<Rightarrow> int list \<Rightarrow> int list \<Rightarrow> nat \<Rightarrow> int list" where
  "WindowAndFFT aecm fft time_signal freq_signal time_signal_scaling =
     (let fft = fold (\<lambda>i fft.
            let scaled_time_signal = to_i16 (shl (time_signal ! i) time_signal_scaling);
                fft = fft[i := to_i16 (shr (scaled_time_signal * WebRtcAecm_kSqrtHanning ! i) 14)];
                scaled_time_signal = to_i16 (shl (time_signal ! (i + PART_LEN)) time_signal_scaling)
            in fft[PART_LEN + i := to_i16 (shr (scaled_time_signal * WebRtcAecm_kSqrtHanning ! (PART_LEN - i)) 14)])
          [0..<PART_LEN] fft;
          freq_signal = fst (WebRtcSpl_RealForwardFFT (replicate 2048 0) (real_fft aecm) fft freq_signal)
      in fold (\<lambda>i freq. freq[2 * i + 1 := to_i16 (- (freq ! (2 * i + 1)))]) [0..<PART_LEN] freq_signal)"

definition save_block :: "int list \<Rightarrow> int list" where
  "save_block buf = blit 0 (take PART_LEN (drop PART_LEN buf)) buf"

text \<open>One sample of the overlapping outputs: the output of this block, the part kept for the next one.\<close>

definition overlap_add :: "AecmCore \<Rightarrow> int \<Rightarrow> nat \<Rightarrow> int list \<times> int list \<times> int list \<Rightarrow> int list \<times> int list \<times> int list" where
  "overlap_add aecm outCFFT i = (\<lambda>(ifft_out, output, out_buf).
     let ifft_out = ifft_out[i := to_i16 (SPL_MUL_16_16_RSFT_WITH_ROUND (ifft_out ! i) (WebRtcAecm_kSqrtHanning ! i) 14)];
         tmp32no1 = SPL_SHIFT_W32 (ifft_out ! i) (outCFFT - dfaCleanQDomain aecm);
         output = output[i := to_i16 (SPL_SAT 32767 (to_i32 (tmp32no1 + out_buf ! i)) (- 32768))];
         tmp32no1 = shr (ifft_out ! (PART_LEN + i) * WebRtcAecm_kSqrtHanning ! (PART_LEN - i)) 14;
         tmp32no1 = SPL_SHIFT_W32 tmp32no1 (outCFFT - dfaCleanQDomain aecm)
     in (ifft_out, output, out_buf[i := to_i16 (SPL_SAT 32767 tmp32no1 (- 32768))]))"

definition InverseFFTAndWindow ::
    "AecmCore \<Rightarrow> int list \<Rightarrow> int list \<Rightarrow> int list \<Rightarrow> bool \<Rightarrow> AecmCore \<times> int list" where
  "InverseFFTAndWindow aecm fft efw output nearendClean =
     (let fft = fold (\<lambda>i fft. fft[2 * i := efw ! (2 * i), 2 * i + 1 := to_i16 (- (efw ! (2 * i + 1)))]) [1..<PART_LEN] fft;
          fft = fft[0 := efw ! 0, 1 := to_i16 (- (efw ! 1))];
          fft = fft[PART_LEN2 := efw ! (2 * PART_LEN), PART_LEN2 + 1 := to_i16 (- (efw ! (2 * PART_LEN + 1)))];
          (ifft_out, outCFFT) = WebRtcSpl_RealInverseFFT (replicate 2048 0) (real_fft aecm) fft efw;
          (ifft_out, output, out_buf) = fold (overlap_add aecm outCFFT) [0..<PART_LEN] (ifft_out, output, outBuf aecm);
          aecm = aecm\<lparr>outBuf := out_buf, xBuf := save_block (xBuf aecm), dBufNoisy := save_block (dBufNoisy aecm)\<rparr>
      in (if nearendClean then aecm\<lparr>dBufClean := save_block (dBufClean aecm)\<rparr> else aecm, output))"

definition complex_magnitude :: "int \<Rightarrow> int \<Rightarrow> int" where
  "complex_magnitude re im =
     (if re = 0 then to_u16 (SPL_ABS_W16 im)
      else if im = 0 then to_u16 (SPL_ABS_W16 re)
      else
        let tmp16no1 = to_i16 (SPL_ABS_W16 re);
            tmp16no2 = to_i16 (SPL_ABS_W16 im);
            tmp32no1 = to_i32 (tmp16no1 * tmp16no1);
            tmp32no2 = to_i32 (tmp16no2 * tmp16no2)
        in to_u16 (WebRtcSpl_SqrtFloor (WebRtcSpl_AddSatW32 tmp32no1 tmp32no2)))"

text \<open>The spectrum, its magnitudes, their sum, and the Q-domain.\<close>

definition TimeToFrequencyDomain ::
    "AecmCore \<Rightarrow> int list \<Rightarrow> int list \<Rightarrow> int list \<Rightarrow> int list \<times> int list \<times> int \<times> int" where
  "TimeToFrequencyDomain aecm time_signal freq_signal freq_signal_abs =
     (let time_signal_scaling = WebRtcSpl_NormW16 (WebRtcSpl_MaxAbsValueW16C time_signal PART_LEN2);
          freq = WindowAndFFT aecm (replicate PART_LEN4 0) time_signal freq_signal (nat time_signal_scaling);
          freq = freq[1 := 0];
          freq = freq[2 * PART_LEN + 1 := 0];
          abs = freq_signal_abs[0 := to_u16 (SPL_ABS_W16 (freq ! 0))];
          abs = abs[PART_LEN := to_u16 (SPL_ABS_W16 (freq ! (2 * PART_LEN)))];
          (abs, total) = fold (\<lambda>i (abs, total).
              let m = complex_magnitude (freq ! (2 * i)) (freq ! (2 * i + 1)) in (abs[i := m], to_u32 (total + m)))
            [1..<PART_LEN] (abs, to_u32 (abs ! 0 + abs ! PART_LEN))
      in (freq, abs, total, time_signal_scaling))"

section \<open>Wiener filter\<close>

text \<open>The smoothed echo of a bin times the suppression gain, and the Q-domain of the quotient to come.\<close>

definition smooth_echo :: "int \<Rightarrow> int \<Rightarrow> int" where
  "smooth_echo filt echo_est =
     (let tmp32no1 = to_i32 (echo_est - filt) in to_i32 (filt + shr (to_i32 (tmp32no1 * 50)) 8))"

definition gained_echo :: "int \<Rightarrow> int \<Rightarrow> int \<Rightarrow> int \<times> int" where
  "gained_echo filt gain q_diff =
     (let zeros32 = to_i16 (WebRtcSpl_NormW32 filt + 1);
          zeros16 = to_i16 (WebRtcSpl_NormW16 gain + 1)
      in if zeros32 + zeros16 > 16 then
           (SPL_UMUL_32_16 filt gain, to_i16 (14 - RESOLUTION_CHANNEL16 - RESOLUTION_SUPGAIN + q_diff))
         else
           let tmp16no1 = 17 - zeros32 - zeros16
           in (if zeros32 > tmp16no1 then SPL_UMUL_32_16 filt (shr gain (nat tmp16no1))
               else to_u32 (shr filt (nat tmp16no1) * gain),
               to_i16 (14 + tmp16no1 - RESOLUTION_CHANNEL16 - RESOLUTION_SUPGAIN + q_diff)))"

text \<open>The smoothed near-end magnitude of a bin. The test \<open>(tmp16no2) & (-qDomainDiff > zeros16)\<close> is bitwise: it looks at
  the lowest bit of \<open>tmp16no2\<close>.\<close>

definition smooth_near :: "int \<Rightarrow> int \<Rightarrow> int \<Rightarrow> int" where
  "smooth_near filt dfa q_domain_diff =
     (let zeros16 = WebRtcSpl_NormW16 filt;
          (tmp16no1, qDomainDiff, tmp16no2) =
            (if zeros16 < q_domain_diff \<and> filt \<noteq> 0 then
               let qDomainDiff = to_i16 (zeros16 - q_domain_diff)
               in (to_i16 (shl filt (nat zeros16)), qDomainDiff, to_i16 (shr dfa (nat (- qDomainDiff))))
             else (to_i16 (if q_domain_diff < 0 then shr filt (nat (- q_domain_diff)) else shl filt (nat q_domain_diff)),
                   0, to_i16 dfa));
          tmp32no1 = tmp16no2 - tmp16no1;
          tmp16no2 = to_i16 (to_i16 (shr tmp32no1 4) + tmp16no1);
          zeros16 = WebRtcSpl_NormW16 tmp16no2
      in if tmp16no2 AND (if - qDomainDiff > zeros16 then 1 else 0) \<noteq> 0 then 32767
         else if qDomainDiff < 0 then to_i16 (shl tmp16no2 (nat (- qDomainDiff)))
         else to_i16 (shr tmp16no2 (nat qDomainDiff)))"

definition wiener_coefficient :: "int \<Rightarrow> int \<Rightarrow> int \<Rightarrow> int" where
  "wiener_coefficient echoEst32Gained near resolutionDiff =
     (if echoEst32Gained = 0 then ONE_Q14
      else if near = 0 then 0
      else
        let echoEst32Gained = to_u32 (echoEst32Gained + to_u32 (shr near 1));
            tmpU32 = WebRtcSpl_DivU32U16 echoEst32Gained (to_u16 near);
            tmp32no1 = to_i32 (SPL_SHIFT_U32 tmpU32 resolutionDiff)
        in if tmp32no1 > ONE_Q14 then 0
           else if tmp32no1 < 0 then ONE_Q14
           else let h = to_i16 (ONE_Q14 - to_i16 tmp32no1) in if h < 0 then 0 else h)"

definition wiener_bin ::
    "int list \<Rightarrow> int list \<Rightarrow> int \<Rightarrow> int \<Rightarrow> nat \<Rightarrow> AecmCore \<times> int list \<times> int \<Rightarrow> AecmCore \<times> int list \<times> int" where
  "wiener_bin echoEst32 dfa gain zerosXBuf i = (\<lambda>(aecm, hnl, numPosCoef).
     let filt = smooth_echo (echoFilt aecm ! i) (echoEst32 ! i);
         (echoEst32Gained, resolutionDiff) = gained_echo filt gain (dfaCleanQDomain aecm - zerosXBuf);
         near = smooth_near (nearFilt aecm ! i) (dfa ! i) (to_i16 (dfaCleanQDomain aecm - dfaCleanQDomainOld aecm));
         h = wiener_coefficient echoEst32Gained near resolutionDiff
     in (aecm\<lparr>echoFilt := (echoFilt aecm)[i := filt], nearFilt := (nearFilt aecm)[i := near]\<rparr>,
         hnl[i := h], if h \<noteq> 0 then to_i16 (numPosCoef + 1) else numPosCoef))"

text \<open>In wideband the gains are squared and the upper bands limited by the average of the bands 4 to 24.\<close>

definition wideband_gains :: "int list \<Rightarrow> int list" where
  "wideband_gains hnl =
     (let hnl = fold (\<lambda>i hnl. hnl[i := to_i16 (shr (hnl ! i * hnl ! i) 14)]) [0..<PART_LEN1] hnl;
          avgHnl32 = c_div (fold (\<lambda>i avg. avg + hnl ! i) [4..<25] 0) 21
      in fold (\<lambda>i hnl. if hnl ! i > to_i16 avgHnl32 then hnl[i := to_i16 avgHnl32] else hnl) [24..<PART_LEN1] hnl)"

text \<open>The gain of a bin after the non-linear processing.\<close>

definition nlp_gain :: "int \<Rightarrow> int \<Rightarrow> int" where
  "nlp_gain numPosCoef h =
     (let h = (if h > NLP_COMP_HIGH then ONE_Q14 else if h < NLP_COMP_LOW then 0 else h);
          nlpGain = (if numPosCoef < 3 then 0 else ONE_Q14)
      in if h = ONE_Q14 \<and> nlpGain = ONE_Q14 then ONE_Q14 else to_i16 (shr (h * nlpGain) 14))"

text \<open>The gains are applied to the near-end spectrum: \<open>(hnl, efw)\<close>.\<close>

definition apply_bin :: "AecmCore \<Rightarrow> int \<Rightarrow> int list \<Rightarrow> nat \<Rightarrow> int list \<times> int list \<Rightarrow> int list \<times> int list" where
  "apply_bin aecm numPosCoef dfw i = (\<lambda>(hnl, efw).
     let hnl = (if nlpFlag aecm \<noteq> 0 then hnl[i := nlp_gain numPosCoef (hnl ! i)] else hnl)
     in (hnl, efw[2 * i := to_i16 (SPL_MUL_16_16_RSFT_WITH_ROUND (dfw ! (2 * i)) (hnl ! i) 14),
                  2 * i + 1 := to_i16 (SPL_MUL_16_16_RSFT_WITH_ROUND (dfw ! (2 * i + 1)) (hnl ! i) 14)]))"

section \<open>Comfort noise\<close>

text \<open>The minimum tracking of a bin: noise estimate, the counters \<open>noiseEstTooLowCtr\<close> and \<open>noiseEstTooHighCtr\<close>.\<close>

definition track_noise :: "int \<Rightarrow> nat \<Rightarrow> int \<times> int \<times> int \<Rightarrow> int \<times> int \<times> int" where
  "track_noise outLShift32 minTrackShift = (\<lambda>(noise, low, high).
     if outLShift32 < noise then
       (if noise < shl 1 minTrackShift then
          (if high + 1 \<ge> kNoiseEstIncCount then (noise - 1, 0, 0) else (noise, 0, high + 1))
        else (to_i32 (noise - shr (noise - outLShift32) minTrackShift), 0, high))
     else
       (if shr noise 19 > 0 then (to_i32 (shr noise 11 * 2049), low, 0)
        else if shr noise 11 > 0 then (shr (to_i32 (noise * 2049)) 11, low, 0)
        else if low + 1 \<ge> kNoiseEstIncCount then (to_i32 (noise + (shr noise 9 + 1)), 0, 0)
        else (noise, low + 1, 0)))"

definition track_noise_bin :: "int list \<Rightarrow> nat \<Rightarrow> nat \<Rightarrow> nat \<Rightarrow> AecmCore \<Rightarrow> AecmCore" where
  "track_noise_bin dfa sh minTrackShift i aecm =
     (let (noise, low, high) = track_noise (to_i32 (shl (dfa ! i) sh)) minTrackShift
                                 (noiseEst aecm ! i, noiseEstTooLowCtr aecm ! i, noiseEstTooHighCtr aecm ! i)
      in aecm\<lparr>noiseEst := (noiseEst aecm)[i := noise], noiseEstTooLowCtr := (noiseEstTooLowCtr aecm)[i := low],
              noiseEstTooHighCtr := (noiseEstTooHighCtr aecm)[i := high]\<rparr>)"

text \<open>The level of the noise in the domain of the near end, weighted with the suppression: \<open>(noiseEst, noiseRShift16)\<close>.\<close>

definition noise_level_bin :: "int list \<Rightarrow> nat \<Rightarrow> nat \<Rightarrow> int list \<times> int list \<Rightarrow> int list \<times> int list" where
  "noise_level_bin lambda sh i = (\<lambda>(noise, level).
     let tmp32 = shr (noise ! i) sh;
         (tmp32, noise) = (if tmp32 > 32767 then (32767, noise[i := to_i32 (shl 32767 sh)]) else (tmp32, noise));
         tmp16 = to_i16 (ONE_Q14 - lambda ! i)
     in (noise, level[i := to_i16 (shr (tmp16 * to_i16 tmp32) 14)]))"

definition noise_bin :: "int list \<Rightarrow> int list \<Rightarrow> nat \<Rightarrow> int list \<times> int list \<Rightarrow> int list \<times> int list" where
  "noise_bin randW16 noiseRShift16 i = (\<lambda>(uReal, uImag).
     let tmp16 = to_i16 (shr (359 * randW16 ! (i - 1)) 15)
     in (uReal[i := to_i16 (shr (noiseRShift16 ! i * WebRtcAecm_kCosTable ! nat tmp16) 13)],
         uImag[i := to_i16 (shr (- (noiseRShift16 ! i) * WebRtcAecm_kSinTable ! nat tmp16) 13)]))"

definition ComfortNoise :: "AecmCore \<Rightarrow> int list \<Rightarrow> int list \<Rightarrow> int list \<Rightarrow> AecmCore \<times> int list" where
  "ComfortNoise aecm dfa out lambda =
     (let sh = nat (to_i16 (kNoiseEstQDomain - dfaCleanQDomain aecm));
          (aecm, minTrackShift) =
            (if noiseEstCtr aecm < 100 then (aecm\<lparr>noiseEstCtr := to_i16 (noiseEstCtr aecm + 1)\<rparr>, 6) else (aecm, 9));
          aecm = fold (track_noise_bin dfa sh minTrackShift) [0..<PART_LEN1] aecm;
          (noise, noiseRShift16) = fold (noise_level_bin lambda sh) [0..<PART_LEN1] (noiseEst aecm, replicate PART_LEN1 0);
          (seed', randW16) = WebRtcSpl_RandUArray PART_LEN (seed aecm);
          aecm = aecm\<lparr>noiseEst := noise, seed := seed'\<rparr>;
          (uReal, uImag) = fold (noise_bin randW16 noiseRShift16) [1..<PART_LEN1] (replicate PART_LEN1 0, replicate PART_LEN1 0);
          uImag = uImag[PART_LEN := 0];
          out = fold (\<lambda>i out. out[2 * i := WebRtcSpl_AddSatW16 (out ! (2 * i)) (uReal ! i),
                                 2 * i + 1 := WebRtcSpl_AddSatW16 (out ! (2 * i + 1)) (uImag ! i)]) [0..<PART_LEN1] out
      in (aecm, out))"

section \<open>A block\<close>

definition update_startup :: "AecmCore \<Rightarrow> AecmCore" where
  "update_startup aecm =
     (if startupState aecm < 2
      then aecm\<lparr>startupState := (if totCount aecm \<ge> CONV_LEN then 1 else 0) + (if totCount aecm \<ge> CONV_LEN2 then 1 else 0)\<rparr>
      else aecm)"

definition buffer_block :: "AecmCore \<Rightarrow> int list \<Rightarrow> int list \<Rightarrow> int list option \<Rightarrow> AecmCore" where
  "buffer_block aecm farend nearendNoisy nearendClean =
     (let aecm = aecm\<lparr>xBuf := blit PART_LEN (take PART_LEN farend) (xBuf aecm),
                      dBufNoisy := blit PART_LEN (take PART_LEN nearendNoisy) (dBufNoisy aecm)\<rparr>
      in case nearendClean of
           None \<Rightarrow> aecm
         | Some clean \<Rightarrow> aecm\<lparr>dBufClean := blit PART_LEN (take PART_LEN clean) (dBufClean aecm)\<rparr>)"

text \<open>The spectra of a block: state, far-end magnitudes and Q-domain, near-end spectrum, noisy magnitudes and their sum,
  the magnitudes the Wiener filter uses.\<close>

definition block_spectra ::
    "AecmCore \<Rightarrow> bool \<Rightarrow> AecmCore \<times> int list \<times> int \<times> int list \<times> int list \<times> int \<times> int list" where
  "block_spectra aecm clean =
     (let empty = replicate PART_LEN1 0;
          (dfw, xfa, xfaSum, far_q) = TimeToFrequencyDomain aecm (xBuf aecm) (replicate (2 * PART_LEN2) 0) empty;
          (dfw, dfaNoisy, dfaNoisySum, zerosDBufNoisy) = TimeToFrequencyDomain aecm (dBufNoisy aecm) dfw empty;
          aecm = aecm\<lparr>dfaNoisyQDomainOld := dfaNoisyQDomain aecm, dfaNoisyQDomain := to_i16 zerosDBufNoisy\<rparr>
      in if \<not> clean then
           (aecm\<lparr>dfaCleanQDomainOld := dfaNoisyQDomainOld aecm, dfaCleanQDomain := dfaNoisyQDomain aecm\<rparr>,
            xfa, far_q, dfw, dfaNoisy, dfaNoisySum, dfaNoisy)
         else
           let (dfw, dfaClean, dfaCleanSum, zerosDBufClean) = TimeToFrequencyDomain aecm (dBufClean aecm) dfw empty
           in (aecm\<lparr>dfaCleanQDomainOld := dfaCleanQDomain aecm, dfaCleanQDomain := to_i16 zerosDBufClean\<rparr>,
               xfa, far_q, dfw, dfaNoisy, dfaNoisySum, dfaClean))"

text \<open>The delay estimate. The inner \<open>None\<close> stands for the error -1, the outer one for an access outside an array.\<close>

definition block_delay :: "AecmCore \<Rightarrow> int list \<Rightarrow> int \<Rightarrow> int list \<Rightarrow> (AecmCore \<times> int option) option" where
  "block_delay aecm xfa far_q dfaNoisy =
     (let aecm = WebRtcAecm_UpdateFarHistory aecm xfa far_q;
          (farend, err) = WebRtc_AddFarSpectrumFix (Some (delay_estimator_farend aecm)) (Some xfa) (int PART_LEN1) far_q;
          aecm = aecm\<lparr>delay_estimator_farend := the farend\<rparr>
      in if err = - 1 then Some (aecm, None)
         else
           case WebRtc_DelayEstimatorProcessFix (binary_farend (delay_estimator_farend aecm)) (Some (delay_estimator aecm))
                  (Some dfaNoisy) (int PART_LEN1) (dfaNoisyQDomain aecm) of
             None \<Rightarrow> None
           | Some (estimator, delay) \<Rightarrow>
               let aecm = aecm\<lparr>delay_estimator := the estimator\<rparr>
               in if delay = - 1 then Some (aecm, None)
                  else
                    let delay = (if delay = - 2 then 0 else delay);
                        delay = (if fixedDelay aecm \<ge> 0 then fixedDelay aecm else delay)
                    in Some (aecm, Some delay))"

text \<open>The echo estimate of a block, the channel and the suppression gain: \<open>(aecm, echoEst32, supGain)\<close>.\<close>

definition block_channel :: "AecmCore \<Rightarrow> int list \<Rightarrow> int \<Rightarrow> int list \<Rightarrow> int \<Rightarrow> AecmCore \<times> int list \<times> int" where
  "block_channel aecm far_spectrum zerosXBuf dfaNoisy dfaNoisySum =
     (let (aecm, echoEst32) = WebRtcAecm_CalcEnergies aecm far_spectrum zerosXBuf dfaNoisySum (replicate PART_LEN1 0);
          mu = WebRtcAecm_CalcStepSize aecm;
          aecm = aecm\<lparr>totCount := to_u32 (totCount aecm + 1)\<rparr>;
          (aecm, echoEst32) = WebRtcAecm_UpdateChannel aecm far_spectrum zerosXBuf dfaNoisy mu echoEst32;
          (aecm, gain) = WebRtcAecm_CalcSuppressionGain aecm
      in (aecm, echoEst32, gain))"

text \<open>The gains of the bins and the filtered spectrum: \<open>(aecm, hnl, efw)\<close>.\<close>

definition block_filter ::
    "AecmCore \<Rightarrow> int list \<Rightarrow> int list \<Rightarrow> int \<Rightarrow> int \<Rightarrow> int list \<Rightarrow> AecmCore \<times> int list \<times> int list" where
  "block_filter aecm echoEst32 dfaClean gain zerosXBuf dfw =
     (let (aecm, hnl, numPosCoef) = fold (wiener_bin echoEst32 dfaClean gain zerosXBuf) [0..<PART_LEN1]
                                      (aecm, replicate PART_LEN1 0, 0);
          hnl = (if mult aecm = 2 then wideband_gains hnl else hnl);
          (hnl, efw) = fold (apply_bin aecm numPosCoef dfw) [0..<PART_LEN1] (hnl, replicate (2 * PART_LEN2) 0)
      in (aecm, hnl, efw))"

definition WebRtcAecm_ProcessBlock ::
    "AecmCore \<Rightarrow> int list \<Rightarrow> int list \<Rightarrow> int list option \<Rightarrow> int list \<Rightarrow> (AecmCore \<times> int list \<times> int) option" where
  "WebRtcAecm_ProcessBlock aecm farend nearendNoisy nearendClean output =
     (let aecm = buffer_block (update_startup aecm) farend nearendNoisy nearendClean;
          (aecm, xfa, far_q, dfw, dfaNoisy, dfaNoisySum, dfaClean) = block_spectra aecm (nearendClean \<noteq> None)
      in case block_delay aecm xfa far_q dfaNoisy of
           None \<Rightarrow> None
         | Some (aecm, None) \<Rightarrow> Some (aecm, output, - 1)
         | Some (aecm, Some delay) \<Rightarrow>
             (case WebRtcAecm_AlignedFarend aecm delay of
                None \<Rightarrow> None
              | Some (far_spectrum, far_q) \<Rightarrow>
                  let zerosXBuf = to_i16 far_q;
                      (aecm, echoEst32, gain) = block_channel aecm far_spectrum zerosXBuf dfaNoisy dfaNoisySum;
                      (aecm, hnl, efw) = block_filter aecm echoEst32 dfaClean gain zerosXBuf dfw;
                      (aecm, efw) = (if cngMode aecm = AecmTrue then ComfortNoise aecm dfaClean efw hnl else (aecm, efw));
                      (aecm, output) = InverseFFTAndWindow aecm (replicate (PART_LEN4 + 2) 0) efw output (nearendClean \<noteq> None)
                  in Some (aecm, output, 0)))"

section \<open>A frame\<close>

text \<open>The frame buffers hold 16-bit samples, as pairs of bytes, the low one first.\<close>

fun i16_bytes :: "int list \<Rightarrow> int list" where
  "i16_bytes [] = []"
| "i16_bytes (x # xs) = x mod 256 # (x div 256) mod 256 # i16_bytes xs"

fun bytes_i16 :: "int list \<Rightarrow> int list" where
  "bytes_i16 (lo # hi # bs) = to_i16 (lo + 256 * hi) # bytes_i16 bs"
| "bytes_i16 bs = []"

definition write_samples :: "ring_buffer \<Rightarrow> int list \<Rightarrow> ring_buffer" where
  "write_samples b xs = the (fst (WebRtc_WriteBuffer (Some b) (Some (i16_bytes xs)) (length xs)))"

text \<open>The callers of \<open>WebRtc_ReadBuffer\<close> use all the \<open>n\<close> samples they ask for. When fewer are delivered they use memory that
  was not, which is \<open>None\<close>.\<close>

definition read_samples :: "ring_buffer \<Rightarrow> nat \<Rightarrow> (ring_buffer \<times> int list) option" where
  "read_samples b n =
     (case WebRtc_ReadBuffer (Some b) True (Some (replicate (2 * n) 0)) n of
        (b', dst, ptr, k) \<Rightarrow>
          if k = n then Some (the b', bytes_i16 (read_view (the b') (the dst) ptr (2 * n))) else None)"

text \<open>One round of the loop over the blocks; the second result is -1 when the block fails.\<close>

definition process_one_block :: "AecmCore \<Rightarrow> bool \<Rightarrow> (AecmCore \<times> int) option" where
  "process_one_block aecm nearendClean =
     (case (read_samples (farFrameBuf aecm) PART_LEN, read_samples (nearNoisyFrameBuf aecm) PART_LEN,
            if nearendClean then map_option (\<lambda>(b, xs). (b, Some xs)) (read_samples (nearCleanFrameBuf aecm) PART_LEN)
            else Some (nearCleanFrameBuf aecm, None)) of
        (Some (b1, far_block), Some (b2, near_noisy_block), Some (b3, near_clean_block)) \<Rightarrow>
          (let aecm = aecm\<lparr>farFrameBuf := b1, nearNoisyFrameBuf := b2, nearCleanFrameBuf := b3\<rparr>
           in case WebRtcAecm_ProcessBlock aecm far_block near_noisy_block near_clean_block (replicate PART_LEN 0) of
                None \<Rightarrow> None
              | Some (aecm, outBlock, r) \<Rightarrow>
                  if r = - 1 then Some (aecm, - 1)
                  else Some (aecm\<lparr>outFrameBuf := write_samples (outFrameBuf aecm) outBlock\<rparr>, 0))
      | _ \<Rightarrow> None)"

partial_function (option) process_blocks :: "AecmCore \<Rightarrow> bool \<Rightarrow> (AecmCore \<times> int) option" where
  "process_blocks aecm nearendClean =
     (if WebRtc_available_read (Some (farFrameBuf aecm)) \<ge> PART_LEN then
        (case process_one_block aecm nearendClean of
           None \<Rightarrow> None
         | Some (aecm, r) \<Rightarrow> if r = - 1 then Some (aecm, - 1) else process_blocks aecm nearendClean)
      else Some (aecm, 0))"

definition buffer_frame :: "AecmCore \<Rightarrow> int list \<Rightarrow> int list \<Rightarrow> int list option \<Rightarrow> AecmCore" where
  "buffer_frame aecm farFrame nearendNoisy nearendClean =
     (let aecm = aecm\<lparr>farFrameBuf := write_samples (farFrameBuf aecm) (take FRAME_LEN farFrame),
                      nearNoisyFrameBuf := write_samples (nearNoisyFrameBuf aecm) (take FRAME_LEN nearendNoisy)\<rparr>
      in case nearendClean of
           None \<Rightarrow> aecm
         | Some clean \<Rightarrow> aecm\<lparr>nearCleanFrameBuf := write_samples (nearCleanFrameBuf aecm) (take FRAME_LEN clean)\<rparr>)"

definition stuff_output :: "ring_buffer \<Rightarrow> ring_buffer" where
  "stuff_output b =
     (let available = to_i32 (int (WebRtc_available_read (Some b)))
      in if available < int FRAME_LEN then the (fst (WebRtc_MoveReadPtr (Some b) (available - int FRAME_LEN))) else b)"

definition WebRtcAecm_ProcessFrame ::
    "AecmCore \<Rightarrow> int list \<Rightarrow> int list \<Rightarrow> int list option \<Rightarrow> int list \<Rightarrow> (AecmCore \<times> int list \<times> int) option" where
  "WebRtcAecm_ProcessFrame aecm farend nearendNoisy nearendClean out =
     (case WebRtcAecm_BufferFarFrame aecm farend (int FRAME_LEN) of
        None \<Rightarrow> None
      | Some aecm \<Rightarrow>
          (case WebRtcAecm_FetchFarFrame aecm (replicate FRAME_LEN 0) (int FRAME_LEN) (knownDelay aecm) of
             None \<Rightarrow> None
           | Some (aecm, farFrame) \<Rightarrow>
               (case process_blocks (buffer_frame aecm farFrame nearendNoisy nearendClean) (nearendClean \<noteq> None) of
                  None \<Rightarrow> None
                | Some (aecm, r) \<Rightarrow>
                    if r = - 1 then Some (aecm, out, - 1)
                    else
                      (case read_samples (stuff_output (outFrameBuf aecm)) FRAME_LEN of
                         None \<Rightarrow> None
                       | Some (b, xs) \<Rightarrow> Some (aecm\<lparr>outFrameBuf := b\<rparr>, blit 0 xs out, 0)))))"

section \<open>Transforms of a block\<close>

lemma NormW16_range:
  assumes "0 \<le> x" "x \<le> 32767" shows "0 \<le> WebRtcSpl_NormW16 x" "WebRtcSpl_NormW16 x \<le> 15"
proof -
  have "0 \<le> WebRtcSpl_NormW16 x \<and> WebRtcSpl_NormW16 x \<le> 15"
  proof (cases "x = 0")
    case False
    have "bit_size (nat x) \<le> 15" using assms by (simp add: bit_size_le_iff nat_less_iff)
    moreover have "0 < bit_size (nat x)" using False assms by (simp add: bit_size_pos)
    moreover have "WebRtcSpl_CountLeadingZeros32 (to_u32 x) = 32 - int (bit_size (nat x))"
      using assms clz32_eq [of x] clz32_builtin [of x] by (simp add: to_u32_id is_u32_def)
    ultimately show ?thesis using False assms by (simp add: WebRtcSpl_NormW16_def to_i16_id is_i16_def)
  qed (simp add: WebRtcSpl_NormW16_def to_i16_def)
  then show "0 \<le> WebRtcSpl_NormW16 x" "WebRtcSpl_NormW16 x \<le> 15" by simp_all
qed

lemma is_i16_0 [simp]: "is_i16 0" and is_i32_0 [simp]: "is_i32 0"
  by (simp_all add: is_i16_def is_i32_def)

lemma WindowAndFFT_ok:
  assumes "order (real_fft a) = 7" "array_of PART_LEN4 is_i16 fft" "array_of (2 * PART_LEN2) is_i16 freq"
  shows "array_of (2 * PART_LEN2) is_i16 (WindowAndFFT a fft time freq sc)"
proof -
  let ?f = "\<lambda>i fft. let s = to_i16 (shl (time ! i) sc);
      fft = fft[i := to_i16 (shr (s * WebRtcAecm_kSqrtHanning ! i) 14)];
      s = to_i16 (shl (time ! (i + PART_LEN)) sc)
    in fft[PART_LEN + i := to_i16 (shr (s * WebRtcAecm_kSqrtHanning ! (PART_LEN - i)) 14)]"
  have "array_of PART_LEN4 is_i16 (fold ?f [0..<PART_LEN] fft)"
    using assms(2) by (rule array_of_fold) (simp add: Let_def)
  then have "i16_array 256 (fold ?f [0..<PART_LEN] fft)" by (simp add: array_of_i16 PART_LEN4_def PART_LEN_def)
  moreover have "i16_array 2048 (replicate 2048 0)" using array_of_replicate [of is_i16 0 2048] by (simp add: array_of_i16)
  moreover have "i16_array 256 freq" using assms(3) by (simp add: array_of_i16 PART_LEN2_def PART_LEN_def)
  ultimately have "i16_array 256 (fst (WebRtcSpl_RealForwardFFT (replicate 2048 0) (real_fft a) (fold ?f [0..<PART_LEN] fft) freq))"
    by (intro real_forward_array [where n = 256]) (simp_all add: assms(1))
  then have "array_of (2 * PART_LEN2) is_i16 (fst (WebRtcSpl_RealForwardFFT (replicate 2048 0) (real_fft a) (fold ?f [0..<PART_LEN] fft) freq))"
    by (simp add: array_of_i16 PART_LEN2_def PART_LEN_def)
  then show ?thesis unfolding WindowAndFFT_def Let_def by (rule array_of_fold) simp
qed

lemma to_u16_range: "between 0 65535 (to_u16 x)"
proof -
  have "0 \<le> x mod 65536" "x mod 65536 < 65536" by simp_all
  then show ?thesis unfolding between_def to_u16_def by linarith
qed

lemma complex_magnitude_range: "between 0 65535 (complex_magnitude re im)"
  by (simp add: complex_magnitude_def to_u16_range Let_def)

lemma MaxAbsValueW16C_range: "0 \<le> WebRtcSpl_MaxAbsValueW16C xs n" "WebRtcSpl_MaxAbsValueW16C xs n \<le> 32767"
proof -
  define m where "m = fold (\<lambda>i m. if \<bar>xs ! i\<bar> > m then \<bar>xs ! i\<bar> else m) [0..<n] 0"
  have "0 \<le> m" unfolding m_def by (rule fold_pres [where P = "\<lambda>m. 0 \<le> m"]) simp_all
  then have "WebRtcSpl_MaxAbsValueW16C xs n = min 32767 m"
    unfolding WebRtcSpl_MaxAbsValueW16C_def Let_def m_def [symmetric] by (auto simp: to_i16_id is_i16_def)
  then show "0 \<le> WebRtcSpl_MaxAbsValueW16C xs n" "WebRtcSpl_MaxAbsValueW16C xs n \<le> 32767" using \<open>0 \<le> m\<close> by simp_all
qed

lemma TimeToFrequencyDomain_ok:
  assumes "order (real_fft a) = 7" "array_of PART_LEN2 is_i16 time" "array_of (2 * PART_LEN2) is_i16 freq"
    "array_of PART_LEN1 (between 0 65535) mags"
  shows "\<exists>freq' mags' total q. TimeToFrequencyDomain a time freq mags = (freq', mags', total, q) \<and>
    array_of (2 * PART_LEN2) is_i16 freq' \<and> array_of PART_LEN1 (between 0 65535) mags' \<and> is_u32 total \<and> between 0 15 q"
proof -
  define q where "q = WebRtcSpl_NormW16 (WebRtcSpl_MaxAbsValueW16C time PART_LEN2)"
  have q: "between 0 15 q" unfolding q_def between_def by (intro conjI NormW16_range MaxAbsValueW16C_range)
  define f where "f = (WindowAndFFT a (replicate PART_LEN4 0) time freq (nat q))[1 := 0, 2 * PART_LEN + 1 := 0]"
  have f: "array_of (2 * PART_LEN2) is_i16 f" unfolding f_def using assms by (intro array_of_update WindowAndFFT_ok) simp_all
  define m where "m = mags[0 := to_u16 (SPL_ABS_W16 (f ! 0)), PART_LEN := to_u16 (SPL_ABS_W16 (f ! (2 * PART_LEN)))]"
  have m: "array_of PART_LEN1 (between 0 65535) m"
    unfolding m_def using assms by (intro array_of_update) (simp_all add: to_u16_range)
  let ?s = "fold (\<lambda>i (abs, total). let m = complex_magnitude (f ! (2 * i)) (f ! (2 * i + 1)) in (abs[i := m], to_u32 (total + m)))
      [1..<PART_LEN] (m, to_u32 (m ! 0 + m ! PART_LEN))"
  have "array_of PART_LEN1 (between 0 65535) (fst ?s) \<and> is_u32 (snd ?s)"
    by (rule fold_pres [where P = "\<lambda>s. array_of PART_LEN1 (between 0 65535) (fst s) \<and> is_u32 (snd s)"])
      (auto simp: m Let_def complex_magnitude_range)
  moreover have "TimeToFrequencyDomain a time freq mags = (f, fst ?s, snd ?s, q)"
    by (simp add: TimeToFrequencyDomain_def Let_def f_def m_def q_def split_beta)
  ultimately show ?thesis using f q by blast
qed

text \<open>The overlapping part of the output.\<close>

lemma is_i16_SAT: "is_i16 (to_i16 x)" by simp

lemma overlap_add_ok:
  assumes "array_of n is_i16 (fst s)" "array_of PART_LEN is_i16 (fst (snd s))" "array_of PART_LEN is_i16 (snd (snd s))"
  shows "array_of n is_i16 (fst (overlap_add a c i s))" "array_of PART_LEN is_i16 (fst (snd (overlap_add a c i s)))"
    "array_of PART_LEN is_i16 (snd (snd (overlap_add a c i s)))"
  using assms by (auto simp: overlap_add_def Let_def split_beta)

lemma save_block_ok: "array_of PART_LEN2 is_i16 xs \<Longrightarrow> array_of PART_LEN2 is_i16 (save_block xs)"
  unfolding save_block_def by (rule array_of_blit [where k = PART_LEN]) (simp_all add: PART_LEN2_def)

lemma InverseFFTAndWindow_ok:
  assumes "core_ok a" "array_of (PART_LEN4 + 2) is_i16 fft" "array_of (2 * PART_LEN2) is_i16 efw" "array_of PART_LEN is_i16 out"
  shows "\<exists>a' out'. InverseFFTAndWindow a fft efw out clean = (a', out') \<and> core_ok a' \<and> frame_part a' = frame_part a \<and>
    array_of PART_LEN is_i16 out'"
proof -
  define f where "f = (fold (\<lambda>i fft. fft[2 * i := efw ! (2 * i), 2 * i + 1 := to_i16 (- (efw ! (2 * i + 1)))]) [1..<PART_LEN] fft)
    [0 := efw ! 0, 1 := to_i16 (- (efw ! 1)), PART_LEN2 := efw ! (2 * PART_LEN), PART_LEN2 + 1 := to_i16 (- (efw ! (2 * PART_LEN + 1)))]"
  have e: "is_i16 (efw ! i)" if "i < 2 * PART_LEN2" for i using assms(3) that by (rule array_of_nth)
  have "array_of (PART_LEN4 + 2) is_i16 f" unfolding f_def using assms(2)
    by (intro array_of_update array_of_fold) (auto simp: aecm_sizes intro!: e)
  then have f: "i16_array 258 f" by (simp add: array_of_i16 PART_LEN4_def PART_LEN_def)
  obtain ifft c where i: "WebRtcSpl_RealInverseFFT (replicate 2048 0) (real_fft a) f efw = (ifft, c)" by fastforce
  have "i16_array 2048 (replicate 2048 0)" using array_of_replicate [of is_i16 0 2048] by (simp add: array_of_i16)
  moreover have "i16_array 256 efw" using assms(3) by (simp add: array_of_i16 PART_LEN2_def PART_LEN_def)
  moreover have o7: "order (real_fft a) = 7" using assms(1) by (simp add: core_parts)
  ultimately have "i16_array 256 ifft" using real_inverse_array(1) [of "replicate 2048 0" 258 f "real_fft a" 256 efw] f i by simp
  then have ifft: "array_of (2 * PART_LEN2) is_i16 ifft" by (simp add: array_of_i16 PART_LEN2_def PART_LEN_def)
  obtain x y z where r: "fold (overlap_add a c) [0..<PART_LEN] (ifft, out, outBuf a) = (x, y, z)" by (metis prod_cases3)
  have "array_of PART_LEN is_i16 (outBuf a)" using assms(1) by (simp add: core_parts)
  then have "array_of (2 * PART_LEN2) is_i16 (fst (x, y, z)) \<and> array_of PART_LEN is_i16 (fst (snd (x, y, z))) \<and> array_of PART_LEN is_i16 (snd (snd (x, y, z)))"
    unfolding r [symmetric] using ifft assms(4)
    by (intro fold_pres [where P = "\<lambda>s. array_of (2 * PART_LEN2) is_i16 (fst s) \<and> array_of PART_LEN is_i16 (fst (snd s)) \<and>
        array_of PART_LEN is_i16 (snd (snd s))"]) (auto intro!: overlap_add_ok)
  moreover have "InverseFFTAndWindow a fft efw out clean =
      (let a = a\<lparr>outBuf := z, xBuf := save_block (xBuf a), dBufNoisy := save_block (dBufNoisy a)\<rparr>
       in if clean then a\<lparr>dBufClean := save_block (dBufClean a)\<rparr> else a, y)"
    unfolding InverseFFTAndWindow_def Let_def f_def [symmetric] i r prod.case by (rule refl)
  ultimately show ?thesis using assms(1) by (simp add: Let_def core_parts frame_part_def save_block_ok)
qed

section \<open>Gains\<close>

lemma wiener_coefficient_range: "between 0 16384 (wiener_coefficient e n r)"
  by (simp add: wiener_coefficient_def Let_def ONE_Q14_def between_def to_i16_id is_i16_def)

lemma smooth_echo_i32: "is_i32 (smooth_echo f e)"
  by (simp add: smooth_echo_def Let_def)

lemma smooth_near_i16: "is_i16 (smooth_near f d q)"
  by (simp add: smooth_near_def Let_def split_beta is_i16_def [of 32767])

lemma wiener_bin_ok:
  assumes "core_ok (fst s)" "array_of PART_LEN1 (between 0 16384) (fst (snd s))"
  shows "core_ok (fst (wiener_bin est dfa g z i s))" "frame_part (fst (wiener_bin est dfa g z i s)) = frame_part (fst s)"
    "array_of PART_LEN1 (between 0 16384) (fst (snd (wiener_bin est dfa g z i s)))"
  using assms by (auto simp: wiener_bin_def Let_def split_beta wiener_coefficient_range core_parts frame_part_def smooth_echo_i32 smooth_near_i16)

lemma square_q14: "between 0 16384 h \<Longrightarrow> between 0 16384 (to_i16 (shr (h * h) 14))"
proof -
  assume h: "between 0 16384 h"
  then have "h * h \<le> 16384 * 16384" by (intro mult_mono) (simp_all add: between_def)
  moreover have "0 \<le> h * h" by simp
  ultimately have "0 \<le> h * h div 16384" "h * h div 16384 \<le> 16384" by linarith+
  then show ?thesis by (simp add: between_def shr_def to_i16_id is_i16_def)
qed

lemma wideband_gains_ok:
  assumes "array_of PART_LEN1 (between 0 16384) hnl"
  shows "array_of PART_LEN1 (between 0 16384) (wideband_gains hnl)"
proof -
  define h where "h = fold (\<lambda>i hnl. hnl[i := to_i16 (shr (hnl ! i * hnl ! i) 14)]) [0..<PART_LEN1] hnl"
  have h: "array_of PART_LEN1 (between 0 16384) h" unfolding h_def
    using assms by (rule array_of_fold) (auto intro!: array_of_update square_q14 dest: array_of_nth)
  define avg where "avg = c_div (fold (\<lambda>i avg. avg + h ! i) [4..<25] 0) 21"
  have "between 0 (16384 * int (k - 4)) (fold (\<lambda>i avg. avg + h ! i) [4..<k] 0)" if "4 \<le> k" "k \<le> 25" for k
    using that
  proof (induction rule: dec_induct)
    case (step n)
    then have "between 0 16384 (h ! n)" by (intro array_of_nth [OF h]) (simp add: aecm_sizes)
    then show ?case using step by (auto simp: between_def of_nat_diff)
  qed (simp add: between_def)
  from this [of 25] have "0 \<le> fold (\<lambda>i avg. avg + h ! i) [4..<25] 0" "fold (\<lambda>i avg. avg + h ! i) [4..<25] 0 \<le> 344064"
    by (simp_all add: between_def del: upt_rec_numeral)
  then have "between 0 16384 avg" unfolding avg_def between_def by (simp only: c_div_pos) linarith
  then have "between 0 16384 (to_i16 avg)" by (simp add: between_def to_i16_id is_i16_def)
  then have "array_of PART_LEN1 (between 0 16384) (fold (\<lambda>i hnl. if hnl ! i > to_i16 avg then hnl[i := to_i16 avg] else hnl) [24..<PART_LEN1] h)"
    using h by (intro array_of_fold) simp_all
  then show ?thesis unfolding wideband_gains_def Let_def h_def [symmetric] avg_def [symmetric] .
qed

lemma nlp_gain_range: "between 0 16384 h \<Longrightarrow> between 0 16384 (nlp_gain n h)"
  by (auto simp: nlp_gain_def Let_def NLP_COMP_HIGH_def NLP_COMP_LOW_def ONE_Q14_def between_def shr_def to_i16_id is_i16_def)

lemma apply_bin_ok:
  assumes "array_of PART_LEN1 (between 0 16384) (fst s)" "array_of (2 * PART_LEN2) is_i16 (snd s)" "i < PART_LEN1"
  shows "array_of PART_LEN1 (between 0 16384) (fst (apply_bin a n dfw i s))" "array_of (2 * PART_LEN2) is_i16 (snd (apply_bin a n dfw i s))"
  using assms by (auto simp: apply_bin_def Let_def split_beta nlp_gain_range array_of_nth)

lemma block_filter_gains:
  assumes "core_ok a"
  shows "\<exists>a' h n. array_of PART_LEN1 (between 0 16384) h \<and> core_ok a' \<and> frame_part a' = frame_part a \<and>
    block_filter a est dfa g z dfw = (a', fold (apply_bin a' n dfw) [0..<PART_LEN1] (h, replicate (2 * PART_LEN2) 0))"
proof -
  have z0: "array_of PART_LEN1 (between 0 16384) (replicate PART_LEN1 0)" by (simp add: between_def)
  obtain a' hnl n where r: "fold (wiener_bin est dfa g z) [0..<PART_LEN1] (a, replicate PART_LEN1 0, 0) = (a', hnl, n)" by (metis prod_cases3)
  let ?P = "\<lambda>s. core_ok (fst s) \<and> frame_part (fst s) = frame_part a \<and> array_of PART_LEN1 (between 0 16384) (fst (snd s))"
  have "?P (a', hnl, n)" unfolding r [symmetric]
    by (rule fold_pres [where P = ?P]) (use assms z0 wiener_bin_ok in auto)
  then have a': "core_ok a'" "frame_part a' = frame_part a" "array_of PART_LEN1 (between 0 16384) hnl" by simp_all
  define h where "h = (if mult a' = 2 then wideband_gains hnl else hnl)"
  have h: "array_of PART_LEN1 (between 0 16384) h" using a' by (simp add: h_def wideband_gains_ok)
  have "block_filter a est dfa g z dfw = (a', fold (apply_bin a' n dfw) [0..<PART_LEN1] (h, replicate (2 * PART_LEN2) 0))"
    unfolding block_filter_def Let_def r prod.case h_def [symmetric] by (simp add: split_beta)
  with a' h show ?thesis by blast
qed

lemma block_filter_ok:
  assumes "core_ok a"
  shows "\<exists>a' hnl efw. block_filter a est dfa g z dfw = (a', hnl, efw) \<and> core_ok a' \<and> frame_part a' = frame_part a \<and>
    array_of PART_LEN1 (between 0 16384) hnl \<and> array_of (2 * PART_LEN2) is_i16 efw"
proof -
  obtain a' h n where f: "array_of PART_LEN1 (between 0 16384) h" "core_ok a'" "frame_part a' = frame_part a"
      "block_filter a est dfa g z dfw = (a', fold (apply_bin a' n dfw) [0..<PART_LEN1] (h, replicate (2 * PART_LEN2) 0))"
    using block_filter_gains [OF assms] by blast
  let ?s = "fold (apply_bin a' n dfw) [0..<PART_LEN1] (h, replicate (2 * PART_LEN2) 0)"
  have "array_of PART_LEN1 (between 0 16384) (fst ?s) \<and> array_of (2 * PART_LEN2) is_i16 (snd ?s)"
    by (rule fold_pres [where P = "\<lambda>s. array_of PART_LEN1 (between 0 16384) (fst s) \<and> array_of (2 * PART_LEN2) is_i16 (snd s)"])
      (use f(1) in \<open>auto intro!: apply_bin_ok\<close>)
  then show ?thesis using f by (intro exI [of _ a'] exI [of _ "fst ?s"] exI [of _ "snd ?s"]) simp
qed

section \<open>Comfort noise in bounds\<close>

text \<open>The estimate of the noise of a bin stays between 0 and \<open>2 ^ 30\<close> from block to block; in between it may grow by a
  fraction of 1/2048, so that no step overflows 32 bits.\<close>

lemma noise_growth:
  assumes "0 \<le> (n :: int)" "n < 524288" shows "0 \<le> n * 2049 div 2048" "n * 2049 div 2048 \<le> 1074266112"
proof -
  have "0 \<le> n * 2049" "n * 2049 \<le> 1074266112" using assms by simp_all
  then show "0 \<le> n * 2049 div 2048" "n * 2049 div 2048 \<le> 1074266112" by linarith+
qed

lemma track_noise_range:
  assumes "between 0 1073741824 n" "0 \<le> out"
  shows "between 0 1074266112 (fst (track_noise out k (n, low, high)))"
proof -
  consider "out < n" "n < 2 ^ k" | "out < n" "2 ^ k \<le> n" | "n \<le> out" by linarith
  then show ?thesis
  proof cases
    case 1
    then show ?thesis using assms by (simp add: track_noise_def shl_def between_def)
  next
    case 2
    have "0 \<le> shr (n - out) k" "shr (n - out) k \<le> n - out" using 2(1) by (simp_all add: shr_nonneg shr_le)
    then have "to_i32 (n - shr (n - out) k) = n - shr (n - out) k" "between 0 1074266112 (n - shr (n - out) k)"
      using assms 2 by (simp_all add: to_i32_id is_i32_def between_def)
    then show ?thesis using 2 by (simp add: track_noise_def shl_def)
  next
    case 3
    have n: "0 \<le> n" "n \<le> 1073741824" using assms by (simp_all add: between_def)
    consider "shr n 19 > 0" | "\<not> shr n 19 > 0" "shr n 11 > 0" | "\<not> shr n 19 > 0" "\<not> shr n 11 > 0" by blast
    then show ?thesis
    proof cases
      case 1
      have "0 \<le> shr n 11" "shr n 11 \<le> 524288" using n by (simp_all add: shr_def)
      then have "to_i32 (shr n 11 * 2049) = shr n 11 * 2049" "between 0 1074266112 (shr n 11 * 2049)"
        by (simp_all add: to_i32_id is_i32_def between_def)
      then show ?thesis using 1 3 by (simp add: track_noise_def)
    next
      case 2
      then have "n < 524288" using n by (simp add: shr_def)
      then have "to_i32 (n * 2049) = n * 2049" "between 0 1074266112 (shr (n * 2049) 11)"
        using n noise_growth [of n] by (simp_all add: to_i32_id is_i32_def between_def shr_def)
      then show ?thesis using 2 3 by (simp add: track_noise_def)
    next
      case 3
      have "n < 2048" using 3 n by (simp add: shr_def)
      moreover from this n have "0 \<le> shr n 9" "shr n 9 \<le> 4" by (simp_all add: shr_def)
      ultimately have "to_i32 (n + (shr n 9 + 1)) = n + (shr n 9 + 1)" "between 0 1074266112 (n + (shr n 9 + 1))"
        using n by (simp_all add: to_i32_id is_i32_def between_def)
      then show ?thesis using 3 \<open>n \<le> out\<close> n by (simp add: track_noise_def between_def)
    qed
  qed
qed

lemma track_noise_fold:
  assumes "core_ok a" "\<forall>i < PART_LEN1. 0 \<le> dfa ! i \<and> dfa ! i \<le> 65535" "sh \<le> 15"
  shows "\<exists>ns lo hi. fold (track_noise_bin dfa sh k) [0..<PART_LEN1] a =
      a\<lparr>noiseEst := ns, noiseEstTooLowCtr := lo, noiseEstTooHighCtr := hi\<rparr> \<and>
    array_of PART_LEN1 (between 0 1074266112) ns \<and> length lo = PART_LEN1 \<and> length hi = PART_LEN1"
proof -
  let ?I = "\<lambda>i b. \<exists>ns lo hi. b = a\<lparr>noiseEst := ns, noiseEstTooLowCtr := lo, noiseEstTooHighCtr := hi\<rparr> \<and>
      length ns = PART_LEN1 \<and> length lo = PART_LEN1 \<and> length hi = PART_LEN1 \<and>
      (\<forall>j < PART_LEN1. between 0 (if i \<le> j then 1073741824 else 1074266112) (ns ! j))"
  have A: "length (noiseEst a) = PART_LEN1" "\<forall>j < PART_LEN1. between 0 1073741824 (noiseEst a ! j)"
      "length (noiseEstTooLowCtr a) = PART_LEN1" "length (noiseEstTooHighCtr a) = PART_LEN1"
    using assms(1) by (auto simp: core_parts array_of_def)
  have "?I PART_LEN1 (fold (track_noise_bin dfa sh k) [0..<PART_LEN1] a)"
  proof (rule fold_upt_inv [where P = ?I])
    show "?I 0 a" using A by (intro exI [of _ "noiseEst a"] exI [of _ "noiseEstTooLowCtr a"] exI [of _ "noiseEstTooHighCtr a"]) simp
  next
    fix i b assume i: "0 \<le> i" "i < PART_LEN1" and "?I i b"
    then obtain ns lo hi where b: "b = a\<lparr>noiseEst := ns, noiseEstTooLowCtr := lo, noiseEstTooHighCtr := hi\<rparr>"
        "length ns = PART_LEN1" "length lo = PART_LEN1" "length hi = PART_LEN1"
        "\<And>j. j < PART_LEN1 \<Longrightarrow> between 0 (if i \<le> j then 1073741824 else 1074266112) (ns ! j)" by blast
    have d: "0 \<le> dfa ! i" "dfa ! i \<le> 65535" using assms(2) i(2) by auto
    have "(2 :: int) ^ sh \<le> 2 ^ 15" using assms(3) by (intro power_increasing) simp_all
    then have "dfa ! i * 2 ^ sh \<le> 65535 * 2 ^ 15" using d by (intro mult_mono) simp_all
    moreover have "0 \<le> dfa ! i * 2 ^ sh" using d by simp
    ultimately have "to_i32 (shl (dfa ! i) sh) = shl (dfa ! i) sh" "0 \<le> shl (dfa ! i) sh" by (simp_all add: to_i32_id is_i32_def shl_def)
    moreover obtain x l h where t: "track_noise (to_i32 (shl (dfa ! i) sh)) k (ns ! i, lo ! i, hi ! i) = (x, l, h)" by (metis prod_cases3)
    ultimately have x: "between 0 1074266112 x"
      using track_noise_range [of "ns ! i" "to_i32 (shl (dfa ! i) sh)" k "lo ! i" "hi ! i"] b(5) [OF i(2)] by simp
    have eq: "track_noise_bin dfa sh k i b = a\<lparr>noiseEst := ns[i := x], noiseEstTooLowCtr := lo[i := l], noiseEstTooHighCtr := hi[i := h]\<rparr>"
      unfolding track_noise_bin_def b(1) by (simp add: t)
    have "between 0 (if Suc i \<le> j then 1073741824 else 1074266112) (ns[i := x] ! j)" if "j < PART_LEN1" for j
      using b(5) [OF that] x b(2) that by (auto simp: nth_list_update between_def split: if_splits)
    then show "?I (Suc i) (track_noise_bin dfa sh k i b)" unfolding eq using b(2-4)
      by (intro exI [of _ "ns[i := x]"] exI [of _ "lo[i := l]"] exI [of _ "hi[i := h]"]) simp
  qed simp
  then obtain ns lo hi where r: "fold (track_noise_bin dfa sh k) [0..<PART_LEN1] a = a\<lparr>noiseEst := ns, noiseEstTooLowCtr := lo, noiseEstTooHighCtr := hi\<rparr>"
      "length ns = PART_LEN1" "length lo = PART_LEN1" "length hi = PART_LEN1" "\<forall>j < PART_LEN1. between 0 1074266112 (ns ! j)"
    by auto
  then have "array_of PART_LEN1 (between 0 1074266112) ns" by (auto simp: array_of_def in_set_conv_nth)
  with r show ?thesis by blast
qed

lemma noise_level_bin_ok:
  assumes "array_of PART_LEN1 (between 0 1074266112) (fst s)" "array_of PART_LEN1 is_i16 (snd s)" "sh \<le> 15" "i < PART_LEN1"
  shows "\<exists>x. fst (noise_level_bin lam sh i s) = (fst s)[i := x] \<and> between 0 1073741824 x"
    "array_of PART_LEN1 is_i16 (snd (noise_level_bin lam sh i s))"
proof -
  show "array_of PART_LEN1 is_i16 (snd (noise_level_bin lam sh i s))"
    using assms(2) by (simp add: noise_level_bin_def split_beta Let_def)
  have n: "between 0 1074266112 (fst s ! i)" using assms(1,4) by (rule array_of_nth)
  have p: "(2 :: int) ^ sh \<le> 32768" using power_increasing [of sh 15 "2 :: int"] assms(3) by simp
  show "\<exists>x. fst (noise_level_bin lam sh i s) = (fst s)[i := x] \<and> between 0 1073741824 x"
  proof (cases "shr (fst s ! i) sh > 32767")
    case True
    define q :: int where "q = 2 ^ sh"
    have "0 \<le> q" "q \<le> 32768" using p by (simp_all add: q_def)
    then have "to_i32 (32767 * q) = 32767 * q" "between 0 1073741824 (32767 * q)" by (simp_all add: to_i32_id is_i32_def between_def)
    then have "between 0 1073741824 (to_i32 (shl 32767 sh))" by (simp add: shl_def q_def)
    then show ?thesis using True by (auto simp: noise_level_bin_def split_beta Let_def)
  next
    case False
    define q :: int where "q = 2 ^ sh"
    have q: "0 < q" "q \<le> 32768" using p by (simp_all add: q_def)
    have "fst s ! i div q \<le> 32767" using False by (simp add: shr_def q_def)
    then have "(fst s ! i div q) * q \<le> 32767 * q" using q(1) by (intro mult_right_mono) simp_all
    moreover have "fst s ! i = (fst s ! i div q) * q + fst s ! i mod q" by simp
    moreover have "fst s ! i mod q < q" using q(1) by simp
    ultimately have "fst s ! i < 32768 * q" by linarith
    also have "\<dots> \<le> 32768 * 32768" using q(2) by (intro mult_left_mono) simp_all
    finally have "between 0 1073741824 (fst s ! i)" using n by (simp add: between_def)
    moreover have "fst (noise_level_bin lam sh i s) = (fst s)[i := fst s ! i]" using False by (simp add: noise_level_bin_def split_beta Let_def)
    ultimately show ?thesis by blast
  qed
qed

lemma noise_level_fold:
  assumes "array_of PART_LEN1 (between 0 1074266112) ns" "sh \<le> 15"
  shows "\<exists>ns' lev. fold (noise_level_bin lam sh) [0..<PART_LEN1] (ns, replicate PART_LEN1 0) = (ns', lev) \<and>
    array_of PART_LEN1 (between 0 1073741824) ns' \<and> array_of PART_LEN1 is_i16 lev"
proof -
  let ?I = "\<lambda>i s. array_of PART_LEN1 (between 0 1074266112) (fst s) \<and> array_of PART_LEN1 is_i16 (snd s) \<and>
      (\<forall>j < i. between 0 1073741824 (fst s ! j))"
  have "?I PART_LEN1 (fold (noise_level_bin lam sh) [0..<PART_LEN1] (ns, replicate PART_LEN1 0))"
  proof (rule fold_upt_inv [where P = ?I])
    show "?I 0 (ns, replicate PART_LEN1 0)" using assms(1) by (simp add: is_i16_def)
  next
    fix i s assume i: "0 \<le> i" "i < PART_LEN1" and I: "?I i s"
    obtain x where x: "fst (noise_level_bin lam sh i s) = (fst s)[i := x]" "between 0 1073741824 x"
        "array_of PART_LEN1 is_i16 (snd (noise_level_bin lam sh i s))"
      using noise_level_bin_ok [of s sh i lam] I assms(2) i(2) by blast
    have "between 0 1074266112 x" using x(2) by (simp add: between_def)
    then have "array_of PART_LEN1 (between 0 1074266112) ((fst s)[i := x])" using I by (intro array_of_update) simp_all
    moreover have "i < length (fst s)" using I i(2) by (simp add: array_of_def)
    then have "\<forall>j < Suc i. between 0 1073741824 ((fst s)[i := x] ! j)"
      using I x(2) by (simp add: nth_list_update less_Suc_eq)
    ultimately show "?I (Suc i) (noise_level_bin lam sh i s)" unfolding x(1) using x(3) by (intro conjI)
  qed simp
  moreover obtain ns' lev where e: "fold (noise_level_bin lam sh) [0..<PART_LEN1] (ns, replicate PART_LEN1 0) = (ns', lev)" by (metis surj_pair)
  ultimately have r: "array_of PART_LEN1 (between 0 1074266112) ns'" "array_of PART_LEN1 is_i16 lev" "\<forall>j < PART_LEN1. between 0 1073741824 (ns' ! j)"
    unfolding e by simp_all
  then have "array_of PART_LEN1 (between 0 1073741824) ns'" by (auto simp: array_of_def in_set_conv_nth)
  with e r(2) show ?thesis by blast
qed

lemma ComfortNoise_ok:
  assumes "core_ok a" "\<forall>i < PART_LEN1. 0 \<le> dfa ! i \<and> dfa ! i \<le> 65535" "array_of (2 * PART_LEN2) is_i16 out"
  shows "\<exists>a' out'. ComfortNoise a dfa out lam = (a', out') \<and> core_ok a' \<and> frame_part a' = frame_part a \<and>
    array_of (2 * PART_LEN2) is_i16 out'"
proof -
  define sh where "sh = nat (to_i16 (kNoiseEstQDomain - dfaCleanQDomain a))"
  have "0 \<le> dfaCleanQDomain a" "dfaCleanQDomain a \<le> 15" using assms(1) by (auto simp: core_parts between_def)
  then have sh: "sh \<le> 15" by (simp add: sh_def kNoiseEstQDomain_def to_i16_id is_i16_def)
  define b k where "b = (if noiseEstCtr a < 100 then a\<lparr>noiseEstCtr := to_i16 (noiseEstCtr a + 1)\<rparr> else a)"
    and "k = (if noiseEstCtr a < 100 then 6 else 9 :: nat)"
  have b: "core_ok b" "frame_part b = frame_part a" using assms(1) by (simp_all add: b_def)
  obtain ns lo hi where t: "fold (track_noise_bin dfa sh k) [0..<PART_LEN1] b = b\<lparr>noiseEst := ns, noiseEstTooLowCtr := lo, noiseEstTooHighCtr := hi\<rparr>"
      "array_of PART_LEN1 (between 0 1074266112) ns" "length lo = PART_LEN1" "length hi = PART_LEN1"
    using track_noise_fold [OF b(1) assms(2) sh] by blast
  obtain ns' lev where l: "fold (noise_level_bin lam sh) [0..<PART_LEN1] (ns, replicate PART_LEN1 0) = (ns', lev)"
      "array_of PART_LEN1 (between 0 1073741824) ns'" "array_of PART_LEN1 is_i16 lev" using noise_level_fold [OF t(2) sh] by blast
  obtain sd rnd where r: "WebRtcSpl_RandUArray PART_LEN (seed b) = (sd, rnd)" by fastforce
  obtain re im where n: "fold (noise_bin rnd lev) [1..<PART_LEN1] (replicate PART_LEN1 0, replicate PART_LEN1 0) = (re, im)" by fastforce
  define a' where "a' = b\<lparr>noiseEstTooLowCtr := lo, noiseEstTooHighCtr := hi, noiseEst := ns', seed := sd\<rparr>"
  let ?out = "fold (\<lambda>i out. out[2 * i := WebRtcSpl_AddSatW16 (out ! (2 * i)) (re ! i),
      2 * i + 1 := WebRtcSpl_AddSatW16 (out ! (2 * i + 1)) (im[PART_LEN := 0] ! i)]) [0..<PART_LEN1] out"
  have bk: "(if noiseEstCtr a < 100 then (a\<lparr>noiseEstCtr := to_i16 (noiseEstCtr a + 1)\<rparr>, 6) else (a, 9)) = (b, k)"
    by (simp add: b_def k_def)
  have "ComfortNoise a dfa out lam = (a', ?out)"
    unfolding ComfortNoise_def Let_def sh_def [symmetric] bk prod.case t(1) by (simp add: l(1) r n [unfolded One_nat_def] a'_def)
  moreover have "core_ok a'" "frame_part a' = frame_part a"
    using b t(3,4) l(2) by (simp_all add: a'_def core_parts frame_part_def)
  moreover have "array_of (2 * PART_LEN2) is_i16 ?out"
    using assms(3) by (rule array_of_fold) (simp add: WebRtcSpl_AddSatW16_def)
  ultimately show ?thesis by blast
qed

section \<open>A block\<close>

lemma buffer_block_ok:
  assumes "core_ok a" "array_of PART_LEN is_i16 far" "array_of PART_LEN is_i16 noisy" "clean \<noteq> None \<longrightarrow> array_of PART_LEN is_i16 (the clean)"
  shows "core_ok (buffer_block (update_startup a) far noisy clean)" "frame_part (buffer_block (update_startup a) far noisy clean) = frame_part a"
proof -
  have u: "core_ok (update_startup a)" "frame_part (update_startup a) = frame_part a" using assms(1) by (simp_all add: update_startup_def)
  have B: "array_of PART_LEN2 is_i16 (blit PART_LEN (take PART_LEN ys) xs)" if "array_of PART_LEN2 is_i16 xs" "array_of PART_LEN is_i16 ys" for xs ys
    using that by (intro array_of_blit [where k = PART_LEN]) (simp_all add: PART_LEN2_def)
  show "core_ok (buffer_block (update_startup a) far noisy clean)" "frame_part (buffer_block (update_startup a) far noisy clean) = frame_part a"
    using u assms B by (cases clean; simp add: buffer_block_def Let_def core_parts frame_part_def)+
qed

lemma block_spectra_ok:
  assumes "core_ok a"
  shows "\<exists>a' xfa q dfw noisy total clean. block_spectra a c = (a', xfa, q, dfw, noisy, total, clean) \<and> core_ok a' \<and> frame_part a' = frame_part a \<and>
    array_of PART_LEN1 (between 0 65535) xfa \<and> between 0 15 q \<and> array_of PART_LEN1 (between 0 65535) noisy \<and> is_u32 total \<and>
    array_of PART_LEN1 (between 0 65535) clean"
proof -
  have o: "order (real_fft a) = 7" "array_of PART_LEN2 is_i16 (xBuf a)" "array_of PART_LEN2 is_i16 (dBufNoisy a)" "array_of PART_LEN2 is_i16 (dBufClean a)"
    using assms by (simp_all add: core_parts)
  have e: "array_of PART_LEN1 (between 0 65535) (replicate PART_LEN1 0)" by (simp add: between_def)
  obtain f1 xfa t1 q where 1: "TimeToFrequencyDomain a (xBuf a) (replicate (2 * PART_LEN2) 0) (replicate PART_LEN1 0) = (f1, xfa, t1, q)"
      "array_of (2 * PART_LEN2) is_i16 f1" "array_of PART_LEN1 (between 0 65535) xfa" "between 0 15 q"
    using TimeToFrequencyDomain_ok [OF o(1,2) _ e, of "replicate (2 * PART_LEN2) 0"] by auto
  obtain f2 noisy t2 q2 where 2: "TimeToFrequencyDomain a (dBufNoisy a) f1 (replicate PART_LEN1 0) = (f2, noisy, t2, q2)"
      "array_of (2 * PART_LEN2) is_i16 f2" "array_of PART_LEN1 (between 0 65535) noisy" "is_u32 t2" "between 0 15 q2"
    using TimeToFrequencyDomain_ok [OF o(1,3) 1(2) e] by blast
  define b where "b = a\<lparr>dfaNoisyQDomainOld := dfaNoisyQDomain a, dfaNoisyQDomain := to_i16 q2\<rparr>"
  have q2: "to_i16 q2 = q2" using 2(5) by (simp add: between_def to_i16_id is_i16_def)
  obtain f3 cl t3 q3 where 3: "TimeToFrequencyDomain b (dBufClean b) f2 (replicate PART_LEN1 0) = (f3, cl, t3, q3)"
      "array_of PART_LEN1 (between 0 65535) cl" "between 0 15 q3"
    using TimeToFrequencyDomain_ok [of b "dBufClean b", OF _ _ 2(2) e] o by (auto simp: b_def)
  have q3: "to_i16 q3 = q3" using 3(3) by (simp add: between_def to_i16_id is_i16_def)
  have "block_spectra a c = (if \<not> c then (b\<lparr>dfaCleanQDomainOld := dfaNoisyQDomainOld b, dfaCleanQDomain := dfaNoisyQDomain b\<rparr>, xfa, q, f2, noisy, t2, noisy)
      else (b\<lparr>dfaCleanQDomainOld := dfaCleanQDomain b, dfaCleanQDomain := to_i16 q3\<rparr>, xfa, q, f3, noisy, t2, cl))"
    unfolding block_spectra_def Let_def 1(1) 2(1) prod.case b_def [symmetric] 3(1) ..
  then show ?thesis using assms 1 2 3 q2 q3 by (cases c) (simp_all add: b_def core_parts frame_part_def)
qed

lemma block_delay_ok:
  assumes "core_ok a" "array_of PART_LEN1 (between 0 65535) xfa" "between 0 15 q" "array_of PART_LEN1 (between 0 65535) near"
  shows "\<exists>a' d. block_delay a xfa q near = Some (a', Some d) \<and> core_ok a' \<and> frame_part a' = frame_part a \<and>
    far_history_pos a' < int MAX_DELAY \<and> 0 \<le> d \<and> d < int MAX_DELAY"
proof -
  define b where "b = WebRtcAecm_UpdateFarHistory a xfa q"
  have b: "core_ok b" "frame_part b = frame_part a" "far_history_pos b < int MAX_DELAY"
    using UpdateFarHistory_ok [OF assms(1-3)] by (simp_all add: b_def)
  define f e where "f = delay_estimator_farend b" and "e = delay_estimator b"
  have f: "farend_ok (binary_farend f)" "far_history_size (binary_farend f) = int MAX_DELAY" "far_spectrum_size f = int PART_LEN1"
      "length (mean_far_spectrum f) = PART_LEN1" "threshold_ok (mean_far_spectrum f)"
    and e: "estimator_ok (binary_handle e)" "history_size (binary_handle e) = int MAX_DELAY" "spectrum_size e = int PART_LEN1"
      "length (mean_near_spectrum e) = PART_LEN1" "threshold_ok (mean_near_spectrum e)"
    and z: "0 \<le> dfaNoisyQDomain b" "dfaNoisyQDomain b \<le> 15" "fixedDelay b < int MAX_DELAY"
    using b(1) by (simp_all add: f_def e_def core_parts Let_def between_def)
  have q: "0 \<le> q" "q \<le> 15" using assms(3) by (simp_all add: between_def)
  have band: "\<forall>i \<le> kBandLast. 0 \<le> xs ! i \<and> xs ! i \<le> 65535" if "array_of PART_LEN1 (between 0 65535) xs" for xs
    using array_of_nth [OF that] by (simp add: between_def kBandLast_def aecm_sizes)
  obtain fw fts fflag where fb: "BinarySpectrumFix xfa (mean_far_spectrum f) q (far_spectrum_initialized f) = (fw, fts, fflag)"
    by (metis prod_cases3)
  note fo = BinarySpectrumFix_ok [OF f(5) band [OF assms(2)] q fb]
  define f' where "f' = f\<lparr>mean_far_spectrum := fts, far_spectrum_initialized := fflag,
      binary_farend := WebRtc_AddBinaryFarSpectrum (binary_farend f) fw\<rparr>"
  have af: "WebRtc_AddFarSpectrumFix (Some f) (Some xfa) (int PART_LEN1) q = (Some f', 0)"
    using f(3) q by (simp add: WebRtc_AddFarSpectrumFix_def fb f'_def)
  have f': "farend_ok (binary_farend f')" "far_history_size (binary_farend f') = int MAX_DELAY" "far_spectrum_size f' = int PART_LEN1"
      "length (mean_far_spectrum f') = PART_LEN1" "threshold_ok (mean_far_spectrum f')"
    using farend_add_ok(1,3) [OF f(1) fo(1)] fo(2,3) f(2,3,4) by (simp_all add: f'_def)
  obtain nw nts nflag where nb: "BinarySpectrumFix near (mean_near_spectrum e) (dfaNoisyQDomain b) (near_spectrum_initialized e) = (nw, nts, nflag)"
    by (metis prod_cases3)
  note no = BinarySpectrumFix_ok [OF e(5) band [OF assms(4)] z(1,2) nb]
  obtain s where s: "WebRtc_ProcessBinarySpectrum (binary_farend f') (binary_handle e) nw = Some (s, last_delay s)" "estimator_ok s"
      "history_size s = int MAX_DELAY"
    using process_binary_spectrum_ok [OF f'(1) e(1) _ no(1)] f'(2) e(2) by auto
  have ld: "last_delay s = - 2 \<or> 0 \<le> last_delay s \<and> last_delay s < int MAX_DELAY"
    using s(2,3) by (auto simp: estimator_ok_def)
  define e' where "e' = e\<lparr>mean_near_spectrum := nts, near_spectrum_initialized := nflag, binary_handle := s\<rparr>"
  have pf: "WebRtc_DelayEstimatorProcessFix (binary_farend f') (Some e) (Some near) (int PART_LEN1) (dfaNoisyQDomain b) =
      Some (Some e', last_delay s)"
    using e(3) z(2) by (simp add: WebRtc_DelayEstimatorProcessFix_def nb s(1) e'_def)
  define a' where "a' = b\<lparr>delay_estimator_farend := f', delay_estimator := e'\<rparr>"
  define d where "d = (if fixedDelay b \<ge> 0 then fixedDelay b else if last_delay s = - 2 then 0 else last_delay s)"
  have "block_delay a xfa q near = Some (a', Some d)"
    using ld by (auto simp: block_delay_def b_def [symmetric] f_def [symmetric] e_def [symmetric] af pf a'_def d_def Let_def)
  moreover have "core_ok a'"
    using b(1) f' s e no by (simp add: a'_def e'_def core_parts Let_def)
  moreover have "frame_part a' = frame_part a" "far_history_pos a' < int MAX_DELAY" using b(2,3) by (simp_all add: a'_def)
  moreover have "0 \<le> d" "d < int MAX_DELAY" using ld z(3) by (auto simp: d_def MAX_DELAY_def)
  ultimately show ?thesis by blast
qed

lemma block_channel_ok:
  assumes "core_ok a" "between 0 15 q" "is_u32 e"
  shows "\<exists>a' est g. block_channel a far q near e = (a', est, g) \<and> core_ok a' \<and> frame_part a' = frame_part a"
proof -
  have z: "array_of PART_LEN1 is_i32 (replicate PART_LEN1 0)" by simp
  obtain b est where b: "WebRtcAecm_CalcEnergies a far q e (replicate PART_LEN1 0) = (b, est)" "core_ok b"
      "frame_part b = frame_part a" "array_of PART_LEN1 is_i32 est"
    using CalcEnergies_ok [OF assms(1) z assms(3,2)] by blast
  define c where "c = b\<lparr>totCount := to_u32 (totCount b + 1)\<rparr>"
  have c: "core_ok c" "frame_part c = frame_part a" using b by (simp_all add: c_def)
  obtain d est' where d: "WebRtcAecm_UpdateChannel c far q near (WebRtcAecm_CalcStepSize b) est = (d, est')" "core_ok d"
      "frame_part d = frame_part c"
    using UpdateChannel_ok [OF c(1) b(4)] by blast
  note g = CalcSuppressionGain_eq [OF d(2) refl refl]
  show ?thesis unfolding block_channel_def Let_def b(1) prod.case c_def [symmetric] d(1) g(1)
    using g(2) d(3) c(2) by simp
qed

lemma ProcessBlock_ok:
  assumes "core_ok a" "array_of PART_LEN is_i16 far" "array_of PART_LEN is_i16 noisy" "clean \<noteq> None \<longrightarrow> array_of PART_LEN is_i16 (the clean)"
    "array_of PART_LEN is_i16 out"
  shows "\<exists>a' out'. WebRtcAecm_ProcessBlock a far noisy clean out = Some (a', out', 0) \<and> core_ok a' \<and> frame_part a' = frame_part a \<and>
    array_of PART_LEN is_i16 out'"
proof -
  define a1 where "a1 = buffer_block (update_startup a) far noisy clean"
  have a1: "core_ok a1" "frame_part a1 = frame_part a" using buffer_block_ok [OF assms(1-4)] by (simp_all add: a1_def)
  obtain a2 xfa q dfw near total mags where s: "block_spectra a1 (clean \<noteq> None) = (a2, xfa, q, dfw, near, total, mags)" "core_ok a2"
      "frame_part a2 = frame_part a1" "array_of PART_LEN1 (between 0 65535) xfa" "between 0 15 q"
      "array_of PART_LEN1 (between 0 65535) near" "is_u32 total" "array_of PART_LEN1 (between 0 65535) mags"
    using block_spectra_ok [OF a1(1)] by blast
  obtain a3 d where d: "block_delay a2 xfa q near = Some (a3, Some d)" "core_ok a3" "frame_part a3 = frame_part a2"
      "far_history_pos a3 < int MAX_DELAY" "0 \<le> d" "d < int MAX_DELAY"
    using block_delay_ok [OF s(2,4-6)] by blast
  obtain xs fq where al: "WebRtcAecm_AlignedFarend a3 d = Some (xs, fq)" "between 0 15 fq" using AlignedFarend_ok [OF d(2,4-6)] by blast
  then have fq: "to_i16 fq = fq" by (simp add: between_def to_i16_id is_i16_def)
  obtain a4 est g where c: "block_channel a3 xs fq near total = (a4, est, g)" "core_ok a4" "frame_part a4 = frame_part a3"
    using block_channel_ok [OF d(2) al(2) s(7)] by blast
  obtain a5 hnl efw where w: "block_filter a4 est mags g fq dfw = (a5, hnl, efw)" "core_ok a5" "frame_part a5 = frame_part a4"
      "array_of PART_LEN1 (between 0 16384) hnl" "array_of (2 * PART_LEN2) is_i16 efw"
    using block_filter_ok [OF c(2)] by blast
  have m: "\<forall>i < PART_LEN1. 0 \<le> mags ! i \<and> mags ! i \<le> 65535" using array_of_nth [OF s(8)] by (simp add: between_def)
  obtain a6 efw' where n: "(if cngMode a5 = AecmTrue then ComfortNoise a5 mags efw hnl else (a5, efw)) = (a6, efw')" "core_ok a6"
      "frame_part a6 = frame_part a5" "array_of (2 * PART_LEN2) is_i16 efw'"
    using ComfortNoise_ok [OF w(2) m w(5), of hnl] w by (cases "cngMode a5 = AecmTrue") auto
  have z: "array_of (PART_LEN4 + 2) is_i16 (replicate (PART_LEN4 + 2) 0)" by (rule array_of_replicate) simp
  obtain a7 out' where o: "InverseFFTAndWindow a6 (replicate (PART_LEN4 + 2) 0) efw' out (clean \<noteq> None) = (a7, out')" "core_ok a7"
      "frame_part a7 = frame_part a6" "array_of PART_LEN is_i16 out'"
    using InverseFFTAndWindow_ok [OF n(2) z n(4) assms(5)] by blast
  have "WebRtcAecm_ProcessBlock a far noisy clean out = Some (a7, out', 0)"
    unfolding WebRtcAecm_ProcessBlock_def Let_def a1_def [symmetric] s(1) prod.case d(1) option.case al(1) fq c(1) w(1) n(1) o(1) ..
  then show ?thesis using o a1(2) s(3) d(3) c(3) w(3) n(3) by simp
qed

section \<open>The queues of samples\<close>

text \<open>What the frame level relies on. \<open>put\<close> appends samples as long as there is room, \<open>get\<close> takes the oldest ones and fails
  when there are not enough.\<close>

locale sample_queue =
  fixes put :: "'q \<Rightarrow> int list \<Rightarrow> 'q"
    and get :: "'q \<Rightarrow> nat \<Rightarrow> ('q \<times> int list) option"
    and samples :: "'q \<Rightarrow> int list"
    and ok :: "'q \<Rightarrow> bool"
    and room :: nat
  assumes put_law: "ok q \<Longrightarrow> length (samples q) + length xs \<le> room \<Longrightarrow> \<forall>x \<in> set xs. is_i16 x \<Longrightarrow>
      ok (put q xs) \<and> samples (put q xs) = samples q @ xs"
    and get_law: "ok q \<Longrightarrow> n \<le> length (samples q) \<Longrightarrow>
      \<exists>q'. get q n = Some (q', take n (samples q)) \<and> ok q' \<and> samples q' = drop n (samples q)"
    and get_short: "ok q \<Longrightarrow> length (samples q) < n \<Longrightarrow> get q n = None"
begin

lemma get_iff: "ok q \<Longrightarrow> (\<exists>q' xs. get q n = Some (q', xs)) \<longleftrightarrow> n \<le> length (samples q)"
  using get_law [of q n] get_short [of q n] by (cases "n \<le> length (samples q)") auto

lemma put_get:
  assumes "ok q" "length (samples q) + length xs \<le> room" "\<forall>x \<in> set xs. is_i16 x" "n \<le> length (samples q) + length xs"
  shows "\<exists>q'. get (put q xs) n = Some (q', take n (samples q @ xs)) \<and> ok q' \<and> samples q' = drop n (samples q @ xs)"
  using put_law [OF assms(1-3)] get_law [of "put q xs" n] assms(4) by simp

end

lemma length_i16_bytes [simp]: "length (i16_bytes xs) = 2 * length xs"
  by (induction xs) simp_all

lemma bytes_i16_append:
  assumes "even (length xs)" shows "bytes_i16 (xs @ ys) = bytes_i16 xs @ bytes_i16 ys"
  using assms by (induction xs rule: bytes_i16.induct) auto

lemma bytes_of_bytes: "\<forall>x \<in> set xs. is_i16 x \<Longrightarrow> bytes_i16 (i16_bytes xs) = xs"
proof (induction xs)
  case (Cons x xs)
  have "x mod 256 + 256 * (x div 256 mod 256) = x mod 65536" using zmod_zmult2_eq [of 256 x 256] by simp
  moreover have "to_i16 (x mod 65536) = x" using Cons.prems by (simp add: to_i16_def is_i16_def mod_add_left_eq)
  ultimately show ?case using Cons by simp
qed simp

lemma length_bytes_i16: "length (bytes_i16 bs) = length bs div 2"
  by (induction bs rule: bytes_i16.induct) auto

lemma bytes_i16_drop: "bytes_i16 (drop (2 * n) bs) = drop n (bytes_i16 bs)"
proof (induction n arbitrary: bs)
  case (Suc n)
  then show ?case by (cases bs rule: bytes_i16.cases) simp_all
qed simp

lemma bytes_i16_take: "2 * n \<le> length bs \<Longrightarrow> bytes_i16 (take (2 * n) bs) = take n (bytes_i16 bs)"
proof (induction n arbitrary: bs)
  case (Suc n)
  then show ?case by (cases bs rule: bytes_i16.cases) simp_all
qed simp

lemma is_i16_bytes_i16: "x \<in> set (bytes_i16 bs) \<Longrightarrow> is_i16 x"
  by (induction bs rule: bytes_i16.induct) auto

definition frame_room :: nat where "frame_room = FRAME_LEN + PART_LEN"

definition queue_of :: "nat \<Rightarrow> ring_buffer \<Rightarrow> bool" where
  "queue_of room b \<longleftrightarrow> rb_inv b \<and> element_size b = 2 \<and> element_count b = room"

definition frame_queue :: "ring_buffer \<Rightarrow> bool" where
  "frame_queue b \<longleftrightarrow> queue_of frame_room b"

definition queue_samples :: "ring_buffer \<Rightarrow> int list" where
  "queue_samples b = bytes_i16 (rb_content b)"

lemma length_queue_of: "queue_of room b \<Longrightarrow> length (queue_samples b) = rb_avail b"
  by (simp add: queue_of_def queue_samples_def length_bytes_i16 length_rb_content)

lemma available_queue_of: "queue_of room b \<Longrightarrow> WebRtc_available_read (Some b) = length (queue_samples b)"
  by (simp add: length_queue_of rb_avail_def)

lemma queue_of_bound: "queue_of room b \<Longrightarrow> length (queue_samples b) \<le> room"
  using rb_avail_le [of b] by (simp add: queue_of_def length_queue_of [of room])

lemmas length_queue_samples = length_queue_of [of frame_room, folded frame_queue_def]
lemmas available_queue = available_queue_of [of frame_room, folded frame_queue_def]

text \<open>A write appends what there is room for.\<close>

lemma write_samples_any:
  assumes "queue_of room b" "\<forall>x \<in> set xs. is_i16 x"
  shows "queue_of room (write_samples b xs)"
    "queue_samples (write_samples b xs) = queue_samples b @ take (room - length (queue_samples b)) xs"
proof -
  have b: "rb_inv b" "element_size b = 2" "element_count b = room" using assms(1) by (simp_all add: queue_of_def)
  define k where "k = min (element_count b - rb_avail b) (length xs)"
  obtain b' where b': "WebRtc_WriteBuffer (Some b) (Some (i16_bytes xs)) (length xs) = (Some b', k)" "rb_inv b'"
      "element_count b' = element_count b" "element_size b' = element_size b" "rb_avail b' = rb_avail b + k"
      "rb_tape b' = blit (rb_avail b * element_size b) (take (k * element_size b) (i16_bytes xs)) (rb_tape b)"
    using WriteBuffer_refines [OF b(1), of "length xs" "i16_bytes xs"] b(2) unfolding k_def by auto
  have "rb_content b' = rb_content b @ take (k * element_size b) (i16_bytes xs)"
    by (rule rb_content_write [OF b(1) b'(2) _ b'(4,3,5,6)]) (simp add: b(2) k_def)
  moreover have "even (length (rb_content b))" using b(2) by (simp add: length_rb_content [OF b(1)])
  moreover have "bytes_i16 (take (2 * k) (i16_bytes xs)) = take k xs"
    using assms(2) by (simp add: bytes_i16_take k_def bytes_of_bytes)
  ultimately have "queue_samples b' = queue_samples b @ take k xs"
    using b(2) by (simp add: queue_samples_def bytes_i16_append mult.commute)
  moreover have "take k xs = take (room - length (queue_samples b)) xs"
    using length_queue_of [OF assms(1)] b(3) by (simp add: k_def min_def)
  ultimately show "queue_of room (write_samples b xs)"
    "queue_samples (write_samples b xs) = queue_samples b @ take (room - length (queue_samples b)) xs"
    using b b'(1-4) by (simp_all add: write_samples_def queue_of_def)
qed

lemma write_samples_law:
  assumes "queue_of room b" "length (queue_samples b) + length xs \<le> room" "\<forall>x \<in> set xs. is_i16 x"
  shows "queue_of room (write_samples b xs) \<and> queue_samples (write_samples b xs) = queue_samples b @ xs"
  using write_samples_any [OF assms(1,3)] assms(2) by simp

lemma read_samples_law:
  assumes "queue_of room b"
  shows "n \<le> length (queue_samples b) \<Longrightarrow> \<exists>b'. read_samples b n = Some (b', take n (queue_samples b)) \<and> queue_of room b' \<and>
      queue_samples b' = drop n (queue_samples b)"
    "length (queue_samples b) < n \<Longrightarrow> read_samples b n = None"
proof -
  have b: "rb_inv b" "element_size b = 2" "element_count b = room" using assms(1) by (simp_all add: queue_of_def)
  obtain b' dst ptr where r: "WebRtc_ReadBuffer (Some b) True (Some (replicate (2 * n) 0)) n = (Some b', Some dst, ptr, min (rb_avail b) n)"
      "rb_inv b'" "element_count b' = element_count b" "element_size b' = element_size b"
      "rb_content b' = drop (min (rb_avail b) n * element_size b) (rb_content b)"
      "read_view b' dst ptr (min (rb_avail b) n * element_size b) = take (min (rb_avail b) n * element_size b) (rb_content b)"
    using ReadBuffer_refines [OF b(1), of n "replicate (2 * n) 0" True] b(2) by auto
  note len = length_queue_of [OF assms] length_rb_content [OF b(1)]
  show "\<exists>b'. read_samples b n = Some (b', take n (queue_samples b)) \<and> queue_of room b' \<and> queue_samples b' = drop n (queue_samples b)"
    if "n \<le> length (queue_samples b)"
  proof -
    have m: "min (rb_avail b) n = n" using that len by simp
    have "read_samples b n = Some (b', bytes_i16 (take (2 * n) (rb_content b)))"
      using r(1,6) b(2) by (simp add: read_samples_def m mult.commute)
    moreover have "bytes_i16 (take (2 * n) (rb_content b)) = take n (queue_samples b)" "bytes_i16 (drop (2 * n) (rb_content b)) = drop n (queue_samples b)"
      using len that b(2) by (simp_all add: queue_samples_def bytes_i16_take bytes_i16_drop)
    moreover have "rb_content b' = drop (2 * n) (rb_content b)" using r(5) b(2) by (simp add: m mult.commute)
    ultimately show ?thesis using r(2-4) b by (simp add: queue_of_def queue_samples_def)
  qed
  show "read_samples b n = None" if "length (queue_samples b) < n"
    using r(1) that len by (simp add: read_samples_def)
qed

interpretation frames: sample_queue write_samples read_samples queue_samples frame_queue frame_room
  unfolding frame_queue_def by unfold_locales (auto simp: write_samples_law intro: read_samples_law)

lemma move_read_keeps:
  assumes "queue_of room b" "- 1073741824 \<le> m" "m \<le> 1073741824"
  shows "queue_of room (the (fst (WebRtc_MoveReadPtr (Some b) m)))"
  using MoveReadPtr_refines [of b m] assms by (auto simp: queue_of_def)

lemma stuff_output_ok:
  assumes "frame_queue b" "length (queue_samples b) \<le> frame_room"
  shows "frame_queue (stuff_output b) \<and> length (queue_samples (stuff_output b)) = max FRAME_LEN (length (queue_samples b))"
proof (cases "length (queue_samples b) < FRAME_LEN")
  case True
  have b: "rb_inv b" "element_size b = 2" "element_count b = frame_room" using assms(1) by (simp_all add: frame_queue_def queue_of_def)
  let ?m = "int (rb_avail b) - int FRAME_LEN"
  have a: "rb_avail b < FRAME_LEN" using True length_queue_samples [OF assms(1)] by simp
  then have m: "move_clamp b ?m = ?m" "- 1073741824 \<le> ?m" "?m \<le> 1073741824"
    by (auto simp: move_clamp_def b(3) frame_room_def aecm_sizes)
  obtain b' where b': "WebRtc_MoveReadPtr (Some b) ?m = (Some b', ?m)" "rb_inv b'" "element_count b' = element_count b"
      "element_size b' = element_size b" "int (rb_avail b') = int FRAME_LEN"
    using MoveReadPtr_refines [OF b(1) m(2,3)] unfolding m(1) by auto
  have "to_i32 (int (rb_avail b)) = int (rb_avail b)" using a by (simp add: to_i32_id is_i32_def aecm_sizes)
  then have s: "stuff_output b = b'" using a b'(1) by (simp add: stuff_output_def rb_avail_def [symmetric] Let_def)
  have q: "frame_queue b'" using b' b by (simp add: frame_queue_def queue_of_def)
  then show ?thesis unfolding s using True b'(5) by (simp add: length_queue_samples)
next
  case False
  have "to_i32 (int (length (queue_samples b))) = int (length (queue_samples b))"
    using assms(2) by (simp add: to_i32_id is_i32_def frame_room_def aecm_sizes)
  then have "stuff_output b = b" using False by (simp add: stuff_output_def available_queue [OF assms(1)] Let_def)
  then show ?thesis using False assms(1) by simp
qed

section \<open>Frames\<close>

text \<open>The fill of the queues; the delay line in its bounds, with the known delay and the rate of the core.\<close>

definition queues_at :: "nat \<Rightarrow> nat \<Rightarrow> nat \<Rightarrow> AecmCore \<Rightarrow> bool" where
  "queues_at r m k a \<longleftrightarrow>
     frame_queue (farFrameBuf a) \<and> length (queue_samples (farFrameBuf a)) = r \<and>
     frame_queue (nearNoisyFrameBuf a) \<and> length (queue_samples (nearNoisyFrameBuf a)) = r \<and>
     frame_queue (nearCleanFrameBuf a) \<and> length (queue_samples (nearCleanFrameBuf a)) = m \<and>
     frame_queue (outFrameBuf a) \<and> length (queue_samples (outFrameBuf a)) = k"

definition queues_ok :: "bool \<Rightarrow> nat \<Rightarrow> nat \<Rightarrow> AecmCore \<Rightarrow> bool" where
  "queues_ok clean r k = queues_at r (if clean then r else 0) k"

definition line_ok :: "int \<times> int \<Rightarrow> AecmCore \<Rightarrow> bool" where
  "line_ok kd a \<longleftrightarrow> (knownDelay a, mult a) = kd \<and> array_of FAR_BUF_LEN is_i16 (farBuf a) \<and> 0 \<le> farBufWritePos a \<and> farBufWritePos a \<le> int FAR_BUF_LEN"

lemma line_ok_self: "line_ok kd a \<Longrightarrow> line_ok (knownDelay a, mult a) a"
  by (simp add: line_ok_def)

lemma array_of_samples: "n \<le> length (queue_samples b) \<Longrightarrow> array_of n is_i16 (take n (queue_samples b))"
  by (auto simp: array_of_def queue_samples_def is_i16_bytes_i16 dest: in_set_takeD)

lemma frame_part_queues:
  assumes "frame_part a = frame_part b"
  shows "queues_at r m k a = queues_at r m k b" "line_ok kd a = line_ok kd b" "outFrameBuf a = outFrameBuf b"
  using assms by (simp_all add: frame_part_def queues_at_def line_ok_def)

lemma queues_out:
  "queues_at r m k a \<Longrightarrow> frame_queue b \<Longrightarrow> length (queue_samples b) = k' \<Longrightarrow> queues_at r m k' (a\<lparr>outFrameBuf := b\<rparr>)"
  by (simp add: queues_at_def)

lemma process_one_block_step:
  assumes "core_ok a" "queues_at r m k a" "line_ok kd a" "PART_LEN \<le> r" "c \<longrightarrow> PART_LEN \<le> m" "k + PART_LEN \<le> frame_room"
  shows "\<exists>a'. process_one_block a c = Some (a', 0) \<and> core_ok a' \<and> queues_at (r - PART_LEN) (if c then m - PART_LEN else m) (k + PART_LEN) a' \<and> line_ok kd a'"
proof -
  note Q = assms(2) [unfolded queues_at_def]
  obtain b1 where b1: "read_samples (farFrameBuf a) PART_LEN = Some (b1, take PART_LEN (queue_samples (farFrameBuf a)))"
      "frame_queue b1" "queue_samples b1 = drop PART_LEN (queue_samples (farFrameBuf a))"
    using frames.get_law [of "farFrameBuf a" PART_LEN] Q assms(4) by auto
  obtain b2 where b2: "read_samples (nearNoisyFrameBuf a) PART_LEN = Some (b2, take PART_LEN (queue_samples (nearNoisyFrameBuf a)))"
      "frame_queue b2" "queue_samples b2 = drop PART_LEN (queue_samples (nearNoisyFrameBuf a))"
    using frames.get_law [of "nearNoisyFrameBuf a" PART_LEN] Q assms(4) by auto
  obtain b3 blk where b3: "(if c then map_option (\<lambda>(b, xs). (b, Some xs)) (read_samples (nearCleanFrameBuf a) PART_LEN)
        else Some (nearCleanFrameBuf a, None)) = Some (b3, blk)" "frame_queue b3" "length (queue_samples b3) = (if c then m - PART_LEN else m)"
      "blk \<noteq> None \<longrightarrow> array_of PART_LEN is_i16 (the blk)"
  proof (cases c)
    case True
    obtain b where "read_samples (nearCleanFrameBuf a) PART_LEN = Some (b, take PART_LEN (queue_samples (nearCleanFrameBuf a)))"
        "frame_queue b" "queue_samples b = drop PART_LEN (queue_samples (nearCleanFrameBuf a))"
      using frames.get_law [of "nearCleanFrameBuf a" PART_LEN] Q assms(5) True by auto
    then show thesis
      using True Q assms(5) by (intro that [of b "Some (take PART_LEN (queue_samples (nearCleanFrameBuf a)))"]) (simp_all add: array_of_samples)
  next
    case False
    then show thesis using Q by (intro that [of "nearCleanFrameBuf a" None]) simp_all
  qed
  define a1 where "a1 = a\<lparr>farFrameBuf := b1, nearNoisyFrameBuf := b2, nearCleanFrameBuf := b3\<rparr>"
  have a1: "core_ok a1" "queues_at (r - PART_LEN) (if c then m - PART_LEN else m) k a1" "line_ok kd a1"
    using assms(1,3) Q b1 b2 b3 by (simp_all add: a1_def queues_at_def line_ok_def)
  have x: "array_of PART_LEN is_i16 (take PART_LEN (queue_samples (farFrameBuf a)))"
      "array_of PART_LEN is_i16 (take PART_LEN (queue_samples (nearNoisyFrameBuf a)))"
    using Q assms(4) by (simp_all add: array_of_samples)
  have z: "array_of PART_LEN is_i16 (replicate PART_LEN 0)" by simp
  obtain a2 out where p: "WebRtcAecm_ProcessBlock a1 (take PART_LEN (queue_samples (farFrameBuf a)))
        (take PART_LEN (queue_samples (nearNoisyFrameBuf a))) blk (replicate PART_LEN 0) = Some (a2, out, 0)"
      "core_ok a2" "frame_part a2 = frame_part a1" "array_of PART_LEN is_i16 out"
    using ProcessBlock_ok [OF a1(1) x b3(4) z] by blast
  have q: "queues_at (r - PART_LEN) (if c then m - PART_LEN else m) k a2" "line_ok kd a2" using a1(2,3) frame_part_queues [OF p(3)] by simp_all
  define b where "b = write_samples (outFrameBuf a2) out"
  have "length out = PART_LEN" "\<forall>x \<in> set out. is_i16 x" using p(4) by (simp_all add: array_of_def)
  then have b: "frame_queue b" "length (queue_samples b) = k + PART_LEN"
    using frames.put_law [of "outFrameBuf a2" out] q(1) assms(6) by (simp_all add: b_def queues_at_def)
  have "process_one_block a c = Some (a2\<lparr>outFrameBuf := b\<rparr>, 0)"
    unfolding process_one_block_def b1(1) b2(1) b3(1) by (simp add: a1_def [symmetric] p(1) b_def)
  moreover have "queues_at (r - PART_LEN) (if c then m - PART_LEN else m) (k + PART_LEN) (a2\<lparr>outFrameBuf := b\<rparr>)" by (rule queues_out [OF q(1) b])
  moreover have "core_ok (a2\<lparr>outFrameBuf := b\<rparr>)" "line_ok kd (a2\<lparr>outFrameBuf := b\<rparr>)" using p(2) q(2) by (simp_all add: line_ok_def)
  ultimately show ?thesis by blast
qed

text \<open>Fewer clean samples than a block: the reading fails.\<close>

lemma process_one_block_short:
  assumes "queues_at r m k a" "m < PART_LEN" shows "process_one_block a True = None"
proof -
  have "read_samples (nearCleanFrameBuf a) PART_LEN = None"
    using frames.get_short [of "nearCleanFrameBuf a" PART_LEN] assms by (simp add: queues_at_def)
  then show ?thesis by (simp add: process_one_block_def split: option.split)
qed

lemma process_one_block_ok:
  assumes "core_ok a" "queues_ok c r k a" "line_ok kd a" "PART_LEN \<le> r" "k + PART_LEN \<le> frame_room"
  shows "\<exists>a'. process_one_block a c = Some (a', 0) \<and> core_ok a' \<and> queues_ok c (r - PART_LEN) (k + PART_LEN) a' \<and> line_ok kd a'"
proof -
  have c: "c \<longrightarrow> PART_LEN \<le> (if c then r else 0)" using assms(4) by simp
  have e: "(if c then (if c then r else 0) - PART_LEN else (if c then r else 0)) = (if c then r - PART_LEN else 0)" by simp
  from process_one_block_step [OF assms(1) assms(2) [unfolded queues_ok_def] assms(3,4) c assms(5)]
  show ?thesis unfolding queues_ok_def e .
qed

lemma process_blocks_ok:
  assumes "core_ok a" "queues_ok c r k a" "line_ok kd a" "k + PART_LEN * (r div PART_LEN) \<le> frame_room"
  shows "\<exists>a'. process_blocks a c = Some (a', 0) \<and> core_ok a' \<and>
    queues_ok c (r mod PART_LEN) (k + PART_LEN * (r div PART_LEN)) a' \<and> line_ok kd a'"
  using assms
proof (induction r arbitrary: a k rule: less_induct)
  case (less r)
  have av: "WebRtc_available_read (Some (farFrameBuf a)) = r" using less.prems(2) by (simp add: queues_ok_def queues_at_def available_queue)
  show ?case
  proof (cases "PART_LEN \<le> r")
    case True
    then have d: "r div PART_LEN = Suc ((r - PART_LEN) div PART_LEN)" "r mod PART_LEN = (r - PART_LEN) mod PART_LEN"
      by (simp_all add: PART_LEN_def le_div_geq le_mod_geq)
    obtain a1 where a1: "process_one_block a c = Some (a1, 0)" "core_ok a1" "queues_ok c (r - PART_LEN) (k + PART_LEN) a1" "line_ok kd a1"
      using process_one_block_ok [OF less.prems(1-3) True] less.prems(4) d(1) by auto
    have "r - PART_LEN < r" using True by (simp add: PART_LEN_def)
    from less.IH [OF this a1(2-4)] obtain a2 where "process_blocks a1 c = Some (a2, 0)" "core_ok a2"
        "queues_ok c (r mod PART_LEN) (k + PART_LEN * (r div PART_LEN)) a2" "line_ok kd a2"
      using less.prems(4) d by (auto simp: algebra_simps)
    then show ?thesis using True av a1(1) by (subst process_blocks.simps) simp
  next
    case False
    then show ?thesis using less.prems av by (subst process_blocks.simps) simp
  qed
qed

text \<open>The frame that leaves the delay line, and the queues after the frames are buffered.\<close>

lemma far_frame_ok:
  assumes "core_ok a" "queues_at r m k a" "line_ok kd a" "array_of FRAME_LEN is_i16 x"
  shows "\<exists>a1 a2 y. WebRtcAecm_BufferFarFrame a x (int FRAME_LEN) = Some a1 \<and>
    WebRtcAecm_FetchFarFrame a1 (replicate FRAME_LEN 0) (int FRAME_LEN) (knownDelay a1) = Some (a2, y) \<and>
    core_ok a2 \<and> queues_at r m k a2 \<and> line_ok kd a2 \<and> array_of FRAME_LEN is_i16 y"
proof -
  have L: "FRAME_LEN \<le> FAR_BUF_LEN" "length x = FRAME_LEN" "length (farBuf a) = FAR_BUF_LEN" "0 \<le> farBufWritePos a" "farBufWritePos a \<le> int FAR_BUF_LEN"
    using assms(3,4) by (simp_all add: aecm_sizes line_ok_def array_of_def)
  obtain buf where b: "WebRtcAecm_BufferFarFrame a x (int FRAME_LEN) =
        Some (a\<lparr>farBuf := buf, farBufWritePos := wrapped_end (farBufWritePos a) (int FRAME_LEN)\<rparr>)" "length buf = FAR_BUF_LEN"
      "\<And>j. j < FRAME_LEN \<Longrightarrow> buf ! cyclic_index (farBufWritePos a) j = x ! j"
      "\<And>i. i < FAR_BUF_LEN \<Longrightarrow> \<forall>j < FRAME_LEN. i \<noteq> cyclic_index (farBufWritePos a) j \<Longrightarrow> buf ! i = farBuf a ! i"
    using BufferFarFrame_spec [of a FRAME_LEN x] L by auto
  have "is_i16 (buf ! i)" if i: "i < FAR_BUF_LEN" for i
  proof (cases "\<exists>j < FRAME_LEN. i = cyclic_index (farBufWritePos a) j")
    case True
    then show ?thesis using b(3) assms(4) by (auto intro: array_of_nth)
  next
    case False
    then show ?thesis using b(4) [OF i] i assms(3) by (auto simp: line_ok_def intro: array_of_nth)
  qed
  then have buf: "array_of FAR_BUF_LEN is_i16 buf" using b(2) by (auto simp: array_of_def in_set_conv_nth)
  define a1 where "a1 = a\<lparr>farBuf := buf, farBufWritePos := wrapped_end (farBufWritePos a) (int FRAME_LEN)\<rparr>"
  define p where "p = (farBufReadPos a1 - (knownDelay a1 - lastKnownDelay a1)) mod int FAR_BUF_LEN"
  have len: "length (replicate FRAME_LEN (0 :: int)) = FRAME_LEN" "length (farBuf a1) = FAR_BUF_LEN" using b(2) by (simp_all add: a1_def)
  note f = FetchFarFrame_spec [OF L(1) len p_def]
  have "cyclic_index p j < FAR_BUF_LEN" for j by (simp add: cyclic_index_def aecm_sizes)
  then have y: "array_of FRAME_LEN is_i16 (map (\<lambda>j. farBuf a1 ! cyclic_index p j) [0..<FRAME_LEN])"
    using buf by (auto simp: array_of_def a1_def)
  have w: "0 \<le> wrapped_end (farBufWritePos a) (int FRAME_LEN)" "wrapped_end (farBufWritePos a) (int FRAME_LEN) \<le> int FAR_BUF_LEN"
    using wrapped_end_mod [OF L(4,5), of "int FRAME_LEN"] L(1) by simp_all
  let ?a2 = "a1\<lparr>farBufReadPos := wrapped_end p (int FRAME_LEN), lastKnownDelay := knownDelay a1\<rparr>"
  have "core_ok ?a2" "queues_at r m k ?a2" "line_ok kd ?a2"
    using assms(1-3) buf w by (simp_all add: a1_def queues_at_def line_ok_def)
  with b(1) f y show ?thesis by (auto simp: a1_def [symmetric])
qed

lemma buffer_frame_at:
  assumes "core_ok a" "queues_at r m k a" "line_ok kd a" "r + FRAME_LEN \<le> frame_room" "m + FRAME_LEN \<le> frame_room"
    "array_of FRAME_LEN is_i16 far" "array_of FRAME_LEN is_i16 noisy" "clean \<noteq> None \<longrightarrow> array_of FRAME_LEN is_i16 (the clean)"
  shows "core_ok (buffer_frame a far noisy clean)" "line_ok kd (buffer_frame a far noisy clean)"
    "queues_at (r + FRAME_LEN) (if clean = None then m else m + FRAME_LEN) k (buffer_frame a far noisy clean)"
proof -
  note Q = assms(2) [unfolded queues_at_def]
  have put: "frame_queue (write_samples b (take FRAME_LEN xs)) \<and> length (queue_samples (write_samples b (take FRAME_LEN xs))) = n + FRAME_LEN"
    if "array_of FRAME_LEN is_i16 xs" "frame_queue b" "length (queue_samples b) = n" "n + FRAME_LEN \<le> frame_room" for xs b n
    using frames.put_law [OF that(2), of xs] that by (simp add: array_of_def)
  show "core_ok (buffer_frame a far noisy clean)" using assms(1) by (simp add: buffer_frame_def Let_def split: option.split)
  show "line_ok kd (buffer_frame a far noisy clean)" using assms(3) by (simp add: buffer_frame_def line_ok_def Let_def split: option.split)
  show "queues_at (r + FRAME_LEN) (if clean = None then m else m + FRAME_LEN) k (buffer_frame a far noisy clean)"
    using Q put assms(4-8) by (cases clean) (simp_all add: buffer_frame_def queues_at_def Let_def)
qed

lemma buffer_frame_ok:
  assumes "core_ok a" "queues_ok (clean \<noteq> None) r k a" "line_ok kd a" "r + FRAME_LEN \<le> frame_room"
    "array_of FRAME_LEN is_i16 far" "array_of FRAME_LEN is_i16 noisy" "clean \<noteq> None \<longrightarrow> array_of FRAME_LEN is_i16 (the clean)"
  shows "core_ok (buffer_frame a far noisy clean)" "queues_ok (clean \<noteq> None) (r + FRAME_LEN) k (buffer_frame a far noisy clean)"
    "line_ok kd (buffer_frame a far noisy clean)"
proof -
  have m: "(if clean \<noteq> None then r else 0) + FRAME_LEN \<le> frame_room" using assms(4) by (auto simp: frame_room_def aecm_sizes)
  note b = buffer_frame_at [OF assms(1) assms(2) [unfolded queues_ok_def] assms(3,4) m assms(5-7)]
  show "core_ok (buffer_frame a far noisy clean)" "line_ok kd (buffer_frame a far noisy clean)" by (fact b)+
  show "queues_ok (clean \<noteq> None) (r + FRAME_LEN) k (buffer_frame a far noisy clean)" using b(3) by (cases clean) (simp_all add: queues_ok_def)
qed

lemma ProcessFrame_ok:
  assumes "core_ok a" "queues_ok (clean \<noteq> None) r k a" "line_ok kd a" "r + FRAME_LEN \<le> frame_room"
    "k + PART_LEN * ((r + FRAME_LEN) div PART_LEN) \<le> frame_room"
    "array_of FRAME_LEN is_i16 far" "array_of FRAME_LEN is_i16 noisy" "clean \<noteq> None \<longrightarrow> array_of FRAME_LEN is_i16 (the clean)"
    "length out = FRAME_LEN"
  shows "\<exists>a' out'. WebRtcAecm_ProcessFrame a far noisy clean out = Some (a', out', 0) \<and> array_of FRAME_LEN is_i16 out' \<and> core_ok a' \<and>
    queues_ok (clean \<noteq> None) ((r + FRAME_LEN) mod PART_LEN)
      (max FRAME_LEN (k + PART_LEN * ((r + FRAME_LEN) div PART_LEN)) - FRAME_LEN) a' \<and> line_ok kd a'"
proof -
  let ?k = "k + PART_LEN * ((r + FRAME_LEN) div PART_LEN)"
  obtain a1 a2 y where f: "WebRtcAecm_BufferFarFrame a far (int FRAME_LEN) = Some a1"
      "WebRtcAecm_FetchFarFrame a1 (replicate FRAME_LEN 0) (int FRAME_LEN) (knownDelay a1) = Some (a2, y)"
      "core_ok a2" "queues_ok (clean \<noteq> None) r k a2" "line_ok kd a2" "array_of FRAME_LEN is_i16 y"
    using far_frame_ok [OF assms(1) assms(2) [unfolded queues_ok_def] assms(3,6)] unfolding queues_ok_def by blast
  note b = buffer_frame_ok [OF f(3-5) assms(4) f(6) assms(7,8)]
  obtain a3 where p: "process_blocks (buffer_frame a2 y noisy clean) (clean \<noteq> None) = Some (a3, 0)" "core_ok a3"
      "queues_ok (clean \<noteq> None) ((r + FRAME_LEN) mod PART_LEN) ?k a3" "line_ok kd a3"
    using process_blocks_ok [OF b assms(5)] by blast
  have q: "frame_queue (outFrameBuf a3)" "length (queue_samples (outFrameBuf a3)) = ?k" using p(3) by (simp_all add: queues_ok_def queues_at_def)
  define s where "s = stuff_output (outFrameBuf a3)"
  have s: "frame_queue s" "length (queue_samples s) = max FRAME_LEN ?k" using stuff_output_ok [OF q(1)] q(2) assms(5) by (simp_all add: s_def)
  then obtain o' where o: "read_samples s FRAME_LEN = Some (o', take FRAME_LEN (queue_samples s))" "frame_queue o'"
      "length (queue_samples o') = max FRAME_LEN ?k - FRAME_LEN"
    using frames.get_law [OF s(1), of FRAME_LEN] by auto
  have x: "array_of FRAME_LEN is_i16 (take FRAME_LEN (queue_samples s))" using s(2) by (intro array_of_samples) simp
  then have bl: "blit 0 (take FRAME_LEN (queue_samples s)) out = take FRAME_LEN (queue_samples s)"
    using assms(9) by (simp add: blit_def array_of_def)
  have "WebRtcAecm_ProcessFrame a far noisy clean out = Some (a3\<lparr>outFrameBuf := o'\<rparr>, take FRAME_LEN (queue_samples s), 0)"
    unfolding WebRtcAecm_ProcessFrame_def f(1,2) option.case prod.case p(1) s_def [symmetric] o(1) bl by simp
  moreover have "core_ok (a3\<lparr>outFrameBuf := o'\<rparr>)" "line_ok kd (a3\<lparr>outFrameBuf := o'\<rparr>)" using p(2,4) by (simp_all add: line_ok_def)
  moreover note queues_out [OF p(3) [unfolded queues_ok_def] o(2,3), folded queues_ok_def]
  ultimately show ?thesis using x by blast
qed

section \<open>Sequences of frames\<close>

text \<open>A caller sets the known delay and hands over a far-end frame, the noisy and, when there is one, the clean near-end frame.\<close>

type_synonym frame_input = "int \<times> int list \<times> int list \<times> int list option"

fun process_frames :: "AecmCore \<Rightarrow> frame_input list \<Rightarrow> (AecmCore \<times> (int list \<times> int) list) option" where
  "process_frames a [] = Some (a, [])"
| "process_frames a ((d, far, noisy, clean) # fs) =
     (case WebRtcAecm_ProcessFrame (a\<lparr>knownDelay := d\<rparr>) far noisy clean (replicate FRAME_LEN 0) of
        None \<Rightarrow> None
      | Some (a, out, r) \<Rightarrow>
          (case process_frames a fs of None \<Rightarrow> None | Some (a, rs) \<Rightarrow> Some (a, (out, r) # rs)))"

definition input_ok :: "bool \<Rightarrow> frame_input \<Rightarrow> bool" where
  "input_ok c = (\<lambda>(d, far, noisy, clean). array_of FRAME_LEN is_i16 far \<and> array_of FRAME_LEN is_i16 noisy \<and>
     (clean \<noteq> None) = c \<and> (clean \<noteq> None \<longrightarrow> array_of FRAME_LEN is_i16 (the clean)))"

text \<open>The samples waiting for a block, and the output samples waiting for a frame, after \<open>n\<close> frames.\<close>

definition waiting_input :: "nat \<Rightarrow> nat" where
  "waiting_input n = (FRAME_LEN * n) mod PART_LEN"

definition waiting_output :: "nat \<Rightarrow> nat" where
  "waiting_output n = (if n < 4 then 0 else 48 - waiting_input n)"

lemma waiting_step:
  "waiting_input n + FRAME_LEN \<le> frame_room"
  "waiting_output n + PART_LEN * ((waiting_input n + FRAME_LEN) div PART_LEN) \<le> frame_room"
  "(waiting_input n + FRAME_LEN) mod PART_LEN = waiting_input (Suc n)"
  "max FRAME_LEN (waiting_output n + PART_LEN * ((waiting_input n + FRAME_LEN) div PART_LEN)) - FRAME_LEN = waiting_output (Suc n)"
proof -
  obtain q j where n: "n = 4 * q + j" "j < 4" using div_mult_mod_eq [of n 4] by (metis add.commute mult.commute mod_less_divisor zero_less_numeral)
  have "FRAME_LEN * n = 16 * j + PART_LEN * (5 * q + j)" by (simp add: n(1) aecm_sizes)
  then have "waiting_input n = 16 * j mod PART_LEN" by (simp only: waiting_input_def mod_mult_self2)
  then have w: "waiting_input n = 16 * j" using n(2) by (simp add: aecm_sizes)
  have "FRAME_LEN * Suc n = (16 * j + 80) + PART_LEN * (5 * q + j)" by (simp add: n(1) aecm_sizes)
  then have w': "waiting_input (Suc n) = (16 * j + 80) mod 64" by (simp only: waiting_input_def mod_mult_self2 PART_LEN_def)
  have o: "waiting_output n = (if q = 0 then 0 else 48 - 16 * j)"
  proof -
    have "n < 4 \<longleftrightarrow> q = 0" using n by auto
    then show ?thesis by (simp add: waiting_output_def w)
  qed
  have o': "waiting_output (Suc n) = (if q = 0 \<and> j < 3 then 0 else 48 - (16 * j + 80) mod 64)"
  proof -
    have "Suc n < 4 \<longleftrightarrow> q = 0 \<and> j < 3" using n by auto
    then show ?thesis by (simp add: waiting_output_def w')
  qed
  have j: "j = 0 \<or> j = 1 \<or> j = 2 \<or> j = 3" using n(2) by linarith
  show "waiting_input n + FRAME_LEN \<le> frame_room" using n(2) by (simp add: w frame_room_def aecm_sizes)
  show "(waiting_input n + FRAME_LEN) mod PART_LEN = waiting_input (Suc n)" by (simp add: w w' aecm_sizes)
  show "waiting_output n + PART_LEN * ((waiting_input n + FRAME_LEN) div PART_LEN) \<le> frame_room"
    "max FRAME_LEN (waiting_output n + PART_LEN * ((waiting_input n + FRAME_LEN) div PART_LEN)) - FRAME_LEN = waiting_output (Suc n)"
    using j by (elim disjE; simp add: o o' w frame_room_def aecm_sizes)+
qed

lemma process_frames_ok:
  assumes "core_ok a" "queues_ok c (waiting_input n) (waiting_output n) a" "line_ok (knownDelay a, mult a) a" "\<forall>f \<in> set fs. input_ok c f"
  shows "\<exists>a' rs. process_frames a fs = Some (a', rs) \<and> length rs = length fs \<and>
    (\<forall>(out, r) \<in> set rs. r = 0 \<and> array_of FRAME_LEN is_i16 out) \<and>
    core_ok a' \<and> queues_ok c (waiting_input (n + length fs)) (waiting_output (n + length fs)) a' \<and> line_ok (knownDelay a', mult a') a'"
  using assms
proof (induction fs arbitrary: a n)
  case (Cons f fs)
  obtain d far noisy clean where f: "f = (d, far, noisy, clean)" by (cases f)
  have i: "array_of FRAME_LEN is_i16 far" "array_of FRAME_LEN is_i16 noisy" "(clean \<noteq> None) = c"
      "clean \<noteq> None \<longrightarrow> array_of FRAME_LEN is_i16 (the clean)"
    using Cons.prems(4) by (auto simp: f input_ok_def)
  let ?a = "a\<lparr>knownDelay := d\<rparr>"
  have k: "core_ok ?a" "queues_ok (clean \<noteq> None) (waiting_input n) (waiting_output n) ?a" "line_ok (d, mult a) ?a"
    using Cons.prems(1-3) i(3) by (simp_all add: queues_ok_def queues_at_def line_ok_def)
  obtain a1 out where p: "WebRtcAecm_ProcessFrame ?a far noisy clean (replicate FRAME_LEN 0) = Some (a1, out, 0)"
      "array_of FRAME_LEN is_i16 out" "core_ok a1" "queues_ok c (waiting_input (Suc n)) (waiting_output (Suc n)) a1" "line_ok (d, mult a) a1"
    using ProcessFrame_ok [OF k waiting_step(1,2) i(1,2,4) length_replicate] unfolding waiting_step(3,4) i(3) by blast
  have "\<forall>f \<in> set fs. input_ok c f" using Cons.prems(4) by simp
  from Cons.IH [OF p(3,4) line_ok_self [OF p(5)] this] p(1,2) show ?case by (auto simp: f)
qed simp


lemma process_frames_append:
  "process_frames a (fs @ gs) =
     (case process_frames a fs of None \<Rightarrow> None
      | Some (a, rs) \<Rightarrow> (case process_frames a gs of None \<Rightarrow> None | Some (a, rs') \<Rightarrow> Some (a, rs @ rs')))"
  by (induction a fs rule: process_frames.induct) (auto split: option.splits prod.splits)

text \<open>Two blocks are due, but the clean samples are enough for one.\<close>

lemma late_clean_frame:
  assumes "core_ok a" "queues_at 48 0 0 a" "line_ok kd a" "array_of FRAME_LEN is_i16 far" "array_of FRAME_LEN is_i16 noisy"
    "array_of FRAME_LEN is_i16 clean"
  shows "WebRtcAecm_ProcessFrame a far noisy (Some clean) out = None"
proof -
  obtain a1 a2 y where f: "WebRtcAecm_BufferFarFrame a far (int FRAME_LEN) = Some a1"
      "WebRtcAecm_FetchFarFrame a1 (replicate FRAME_LEN 0) (int FRAME_LEN) (knownDelay a1) = Some (a2, y)"
      "core_ok a2" "queues_at 48 0 0 a2" "line_ok kd a2" "array_of FRAME_LEN is_i16 y"
    using far_frame_ok [OF assms(1-4)] by blast
  define b where "b = buffer_frame a2 y noisy (Some clean)"
  have m: "48 + FRAME_LEN \<le> frame_room" "0 + FRAME_LEN \<le> frame_room" "Some clean \<noteq> None \<longrightarrow> array_of FRAME_LEN is_i16 (the (Some clean))"
    using assms(6) by (simp_all add: frame_room_def aecm_sizes)
  have b: "queues_at 128 80 0 b" "core_ok b" "line_ok kd b"
    using buffer_frame_at [OF f(3-5) m(1,2) f(6) assms(5) m(3)] by (simp_all add: b_def FRAME_LEN_def)
  obtain c where c: "process_one_block b True = Some (c, 0)" "queues_at 64 16 64 c"
    using process_one_block_step [OF b(2,1,3), of True] by (auto simp: frame_room_def aecm_sizes)
  have av: "WebRtc_available_read (Some (farFrameBuf b)) \<ge> PART_LEN" "WebRtc_available_read (Some (farFrameBuf c)) \<ge> PART_LEN"
    using b(1) c(2) by (simp_all add: queues_at_def available_queue PART_LEN_def)
  have "process_one_block c True = None" using process_one_block_short [OF c(2)] by (simp add: PART_LEN_def)
  then have "process_blocks c True = None" using av(2) by (subst process_blocks.simps) simp
  then have "process_blocks b True = None" using av(1) c(1) by (subst process_blocks.simps) simp
  then show ?thesis unfolding WebRtcAecm_ProcessFrame_def f(1,2) option.case prod.case b_def [symmetric] by simp
qed
section \<open>The suppression attenuates\<close>

lemma rounded_gain_le:
  assumes "is_i16 x" "between 0 16384 h"
  shows "\<bar>to_i16 (SPL_MUL_16_16_RSFT_WITH_ROUND x h 14)\<bar> \<le> \<bar>x\<bar>"
proof -
  have x: "- 32768 \<le> x" "x \<le> 32767" and h: "0 \<le> h" "h \<le> 16384" using assms by (simp_all add: is_i16_def between_def)
  have m: "- (\<bar>x\<bar> * 16384) \<le> x * h" "x * h \<le> \<bar>x\<bar> * 16384" "x < 0 \<Longrightarrow> x * h \<le> 0" "0 \<le> x \<Longrightarrow> 0 \<le> x * h"
  proof -
    have "\<bar>x * h\<bar> = \<bar>x\<bar> * h" using h(1) by (simp add: abs_mult)
    also have "\<dots> \<le> \<bar>x\<bar> * 16384" using h(2) by (intro mult_left_mono) simp_all
    finally show "- (\<bar>x\<bar> * 16384) \<le> x * h" "x * h \<le> \<bar>x\<bar> * 16384" by linarith+
    show "x < 0 \<Longrightarrow> x * h \<le> 0" "0 \<le> x \<Longrightarrow> 0 \<le> x * h" using h(1) by (simp_all add: mult_nonpos_nonneg)
  qed
  define y where "y = (x * h + 8192) div 16384"
  have y: "\<bar>y\<bar> \<le> \<bar>x\<bar>"
  proof (cases "x < 0")
    case True
    then have "x * 16384 \<le> x * h + 8192" "x * h + 8192 \<le> 8192" using m(1,3) by linarith+
    then have "x \<le> y" "y \<le> 0" unfolding y_def by linarith+
    then show ?thesis by simp
  next
    case False
    then have "x * h + 8192 \<le> x * 16384 + 8192" "0 \<le> x * h + 8192" using m(2,4) by linarith+
    then have "y \<le> x" "0 \<le> y" unfolding y_def by linarith+
    then show ?thesis by simp
  qed
  have "is_i32 (x * h + 8192)" using m(1,2) x unfolding is_i32_def by linarith
  then have "SPL_MUL_16_16_RSFT_WITH_ROUND x h 14 = y"
    using x h by (simp add: SPL_MUL_16_16_RSFT_WITH_ROUND_def y_def shr_def shl_def to_i16_id is_i16_def to_i32_id)
  moreover have "\<bar>to_i16 y\<bar> \<le> \<bar>y\<bar>"
  proof (cases "is_i16 y")
    case False
    then have "y = 32768" using x y by (auto simp: is_i16_def)
    then show ?thesis by (simp add: to_i16_def)
  qed (simp add: to_i16_id)
  ultimately show ?thesis using y by simp
qed

lemma apply_fold:
  assumes "array_of PART_LEN1 (between 0 16384) h" "array_of (2 * PART_LEN2) is_i16 dfw" "k < 2 * PART_LEN1"
  shows "\<bar>snd (fold (apply_bin a n dfw) [0..<PART_LEN1] (h, replicate (2 * PART_LEN2) 0)) ! k\<bar> \<le> \<bar>dfw ! k\<bar>"
proof -
  let ?I = "\<lambda>i s. array_of PART_LEN1 (between 0 16384) (fst s) \<and> length (snd s) = 2 * PART_LEN2 \<and>
      (\<forall>k < 2 * i. \<bar>snd s ! k\<bar> \<le> \<bar>dfw ! k\<bar>)"
  have "?I PART_LEN1 (fold (apply_bin a n dfw) [0..<PART_LEN1] (h, replicate (2 * PART_LEN2) 0))"
  proof (rule fold_upt_inv [where P = ?I])
    fix i s assume i: "0 \<le> i" "i < PART_LEN1" and I: "?I i s"
    define g where "g = (if nlpFlag a \<noteq> 0 then (fst s)[i := nlp_gain n (fst s ! i)] else fst s)"
    have g: "array_of PART_LEN1 (between 0 16384) g"
      using I i(2) nlp_gain_range [of "fst s ! i" n] array_of_nth [of PART_LEN1 "between 0 16384" "fst s" i] by (simp add: g_def)
    then have gi: "between 0 16384 (g ! i)" using i(2) by (rule array_of_nth)
    define e where "e j = to_i16 (SPL_MUL_16_16_RSFT_WITH_ROUND (dfw ! j) (g ! i) 14)" for j
    have ij: "2 * i + 1 < 2 * PART_LEN2" using i(2) by (simp add: aecm_sizes)
    have d: "is_i16 (dfw ! (2 * i))" "is_i16 (dfw ! (2 * i + 1))" using ij by (simp_all add: array_of_nth [OF assms(2)])
    have e: "\<bar>e (2 * i)\<bar> \<le> \<bar>dfw ! (2 * i)\<bar>" "\<bar>e (2 * i + 1)\<bar> \<le> \<bar>dfw ! (2 * i + 1)\<bar>"
      unfolding e_def by (intro rounded_gain_le d gi)+
    have eq: "apply_bin a n dfw i s = (g, (snd s)[2 * i := e (2 * i), 2 * i + 1 := e (2 * i + 1)])"
      by (simp add: apply_bin_def Let_def split_beta g_def e_def)
    have "\<bar>(snd s)[2 * i := e (2 * i), 2 * i + 1 := e (2 * i + 1)] ! j\<bar> \<le> \<bar>dfw ! j\<bar>" if j: "j < 2 * Suc i" for j
    proof -
      have "j < 2 * i \<or> j = 2 * i \<or> j = 2 * i + 1" using j by auto
      then show ?thesis using I e ij by (elim disjE) simp_all
    qed
    then show "?I (Suc i) (apply_bin a n dfw i s)" unfolding eq using g I by simp
  qed (use assms(1) in simp_all)
  then show ?thesis using assms(3) by blast
qed

section \<open>Properties\<close>

definition frame_ring :: "ring_buffer \<Rightarrow> bool" where
  "frame_ring b \<longleftrightarrow> element_size b = 2 \<and> element_count b = frame_room \<and> length (data b) = 2 * frame_room"

text \<open>What the frame level needs of the memory of the instance: the buffers are those of \<open>WebRtcAecm_CreateCore\<close>.\<close>

definition frame_memory :: "AecmCore \<Rightarrow> bool" where
  "frame_memory a \<longleftrightarrow> frame_ring (farFrameBuf a) \<and> frame_ring (nearNoisyFrameBuf a) \<and> frame_ring (nearCleanFrameBuf a) \<and>
     frame_ring (outFrameBuf a) \<and> array_of FAR_BUF_LEN is_i16 (farBuf a)"

lemma init_frame_ring:
  assumes "frame_ring b" shows "frame_queue (WebRtc_InitBuffer b)" "queue_samples (WebRtc_InitBuffer b) = []"
proof -
  have inv: "rb_inv (WebRtc_InitBuffer b)" using assms
    by (simp add: frame_ring_def rb_inv_def WebRtc_InitBuffer_def blit_def sz_mul_def frame_room_def aecm_sizes)
  then show "frame_queue (WebRtc_InitBuffer b)" using assms by (simp add: frame_queue_def queue_of_def frame_ring_def WebRtc_InitBuffer_def)
  have "rb_avail (WebRtc_InitBuffer b) = 0" using rb_avail_eq [OF inv] by (simp add: WebRtc_InitBuffer_def)
  then show "queue_samples (WebRtc_InitBuffer b) = []" by (simp add: queue_samples_def rb_content_def)
qed

lemma InitCore_frames:
  assumes "frame_memory mem" "WebRtcAecm_InitCore mem fs = (a, 0)"
  shows "queues_ok c 0 0 a" "line_ok (0, c_div (to_i16 fs) 8000) a"
proof -
  have fs: "fs = 8000 \<or> fs = 16000" using assms(2) by (auto simp: InitCore_eq split: if_splits)
  define path where "path = (if fs = 8000 then kChannelStored8kHz else kChannelStored16kHz)"
  have a: "a = init_core_levels (WebRtcAecm_InitEchoPathCore (init_core_state (start_estimators (init_core_buffers
      (mem\<lparr>mult := c_div (to_i16 fs) 8000\<rparr>)))) path)"
    using assms(2) fs by (simp add: InitCore_eq path_def)
  have "farFrameBuf a = WebRtc_InitBuffer (farFrameBuf mem)" "nearNoisyFrameBuf a = WebRtc_InitBuffer (nearNoisyFrameBuf mem)"
    "nearCleanFrameBuf a = WebRtc_InitBuffer (nearCleanFrameBuf mem)" "outFrameBuf a = WebRtc_InitBuffer (outFrameBuf mem)"
    "farBuf a = farBuf mem" "farBufWritePos a = 0" "knownDelay a = 0" "mult a = c_div (to_i16 fs) 8000"
    unfolding a by (simp_all add: init_core_levels_def WebRtcAecm_InitEchoPathCore_def init_core_state_def start_estimators_def init_core_buffers_def Let_def)
  then show "queues_ok c 0 0 a" "line_ok (0, c_div (to_i16 fs) 8000) a"
    using assms(1) by (simp_all add: frame_memory_def queues_ok_def queues_at_def line_ok_def init_frame_ring)
qed

lemma zero_memory_frames: "frame_memory zero_memory"
  by (simp add: frame_memory_def zero_memory_def frame_ring_def frame_room_def aecm_sizes array_of_def is_i16_def)

lemma start_queues: "queues_ok c 0 0 a \<Longrightarrow> queues_ok c (waiting_input 0) (waiting_output 0) a"
  by (simp add: waiting_input_def waiting_output_def)

text \<open>C10: The canceller is total on frames and its delay is fixed: after an initialisation every sequence of frames, with
  any known delays, all with or all without a clean signal, is processed without an error, a read outside an array or an
  endless loop; every frame of output has 80 16-bit samples. The queues never overflow: after \<open>n\<close> frames \<open>80 n mod 64\<close>
  samples wait for a block and, from the fourth frame on, \<open>48 - 80 n mod 64\<close> output samples wait, so that the output
  is filled up with 48 samples in all, 16 in each of the first three frames.\<close>

theorem process_frames_total:
  assumes "core_memory mem" "frame_memory mem" "WebRtcAecm_InitCore mem fs = (a, 0)" "\<forall>f \<in> set inputs. input_ok c f"
  shows "\<exists>a' rs. process_frames a inputs = Some (a', rs) \<and> length rs = length inputs \<and>
    (\<forall>(out, r) \<in> set rs. r = 0 \<and> array_of FRAME_LEN is_i16 out) \<and> core_ok a' \<and>
    WebRtc_available_read (Some (farFrameBuf a')) = 80 * length inputs mod 64 \<and>
    WebRtc_available_read (Some (nearNoisyFrameBuf a')) = 80 * length inputs mod 64 \<and>
    WebRtc_available_read (Some (outFrameBuf a')) = (if length inputs < 4 then 0 else 48 - 80 * length inputs mod 64)"
proof -
  note i = InitCore_frames [OF assms(2,3)]
  from process_frames_ok [OF AecmInitCore_ok(1) [OF assms(1,3)] start_queues [OF i(1)] line_ok_self [OF i(2)] assms(4)]
  obtain a' rs where r: "process_frames a inputs = Some (a', rs)" "length rs = length inputs"
      "\<forall>(out, r) \<in> set rs. r = 0 \<and> array_of FRAME_LEN is_i16 out" "core_ok a'"
      "queues_ok c (waiting_input (length inputs)) (waiting_output (length inputs)) a'" by auto
  then have "WebRtc_available_read (Some (farFrameBuf a')) = waiting_input (length inputs)"
      "WebRtc_available_read (Some (nearNoisyFrameBuf a')) = waiting_input (length inputs)"
      "WebRtc_available_read (Some (outFrameBuf a')) = waiting_output (length inputs)"
    by (simp_all add: queues_ok_def queues_at_def available_queue)
  with r(1-4) show ?thesis by (simp add: waiting_input_def waiting_output_def FRAME_LEN_def PART_LEN_def)
qed

theorem process_frames_total_witness:
  "\<exists>a' rs. process_frames (fst (WebRtcAecm_InitCore zero_memory 8000))
      (replicate 5 (40, replicate 80 100, replicate 80 (- 7), None)) = Some (a', rs) \<and> length rs = 5 \<and>
    WebRtc_available_read (Some (outFrameBuf a')) = 32"
proof -
  have "\<forall>f \<in> set (replicate 5 (40, replicate 80 100, replicate 80 (- 7), None)). input_ok False f"
    by (simp add: input_ok_def array_of_def is_i16_def FRAME_LEN_def)
  from process_frames_total [OF zero_memory_ok zero_memory_frames init_zero_memory this] show ?thesis by auto
qed

text \<open>C11: Every block that is handed over is processed: from a state of the invariant, with 16-bit blocks and with or without
  a clean signal, no read leaves an array, no error -1 occurs, the output is a block of 16-bit samples, the invariant holds
  again, and the queues and the delay line of the frame level are not touched.\<close>

theorem process_block_total:
  assumes "core_ok a" "array_of PART_LEN is_i16 far" "array_of PART_LEN is_i16 noisy"
    "clean \<noteq> None \<longrightarrow> array_of PART_LEN is_i16 (the clean)" "array_of PART_LEN is_i16 out"
  shows "\<exists>a' out'. WebRtcAecm_ProcessBlock a far noisy clean out = Some (a', out', 0) \<and> core_ok a' \<and> frame_part a' = frame_part a \<and>
    array_of PART_LEN is_i16 out'"
  by (rule ProcessBlock_ok [OF assms])

theorem process_block_total_witness:
  "\<exists>a' out'. WebRtcAecm_ProcessBlock (fst (WebRtcAecm_InitCore zero_memory 16000)) (replicate 64 1000) (replicate 64 (- 500))
      (Some (replicate 64 3)) (replicate 64 0) = Some (a', out', 0) \<and> core_ok a'"
proof -
  have "WebRtcAecm_InitCore zero_memory 16000 = (fst (WebRtcAecm_InitCore zero_memory 16000), 0)" by (simp add: InitCore_eq)
  note c = AecmInitCore_ok(1) [OF zero_memory_ok this]
  have "array_of PART_LEN is_i16 (replicate 64 x)" if "is_i16 x" for x using that by (simp add: array_of_def PART_LEN_def)
  then have "array_of PART_LEN is_i16 (replicate 64 1000)" "array_of PART_LEN is_i16 (replicate 64 (- 500))"
      "array_of PART_LEN is_i16 (replicate 64 3)" "array_of PART_LEN is_i16 (replicate 64 0)" by (simp_all add: is_i16_def)
  with process_block_total [OF c, of "replicate 64 1000" "replicate 64 (- 500)" "Some (replicate 64 3)" "replicate 64 0"]
  show ?thesis by auto
qed

text \<open>C12: The suppression filter only attenuates: the gains are in Q14 between 0 and 1 in every bin, after the squaring and
  the limit of the wideband mode and after the non-linear processing, and neither the real nor the imaginary part of a bin of
  the filtered spectrum is larger in magnitude than that of the near end.\<close>

theorem suppression_attenuates:
  assumes "core_ok a" "array_of (2 * PART_LEN2) is_i16 dfw" "block_filter a echo mags gain q dfw = (a', hnl, efw)"
    and "k < 2 * PART_LEN1"
  shows "\<bar>efw ! k\<bar> \<le> \<bar>dfw ! k\<bar> \<and> 0 \<le> hnl ! (k div 2) \<and> hnl ! (k div 2) \<le> 16384"
proof -
  have "array_of PART_LEN1 (between 0 16384) hnl" using block_filter_ok [OF assms(1), of echo mags gain q dfw] assms(3) by auto
  moreover have "k div 2 < PART_LEN1" using assms(4) by simp
  ultimately have "between 0 16384 (hnl ! (k div 2))" by (rule array_of_nth)
  moreover obtain b h n where h: "array_of PART_LEN1 (between 0 16384) h"
      "efw = snd (fold (apply_bin b n dfw) [0..<PART_LEN1] (h, replicate (2 * PART_LEN2) 0))"
    using block_filter_gains [OF assms(1), of echo mags gain q dfw] assms(3) by (metis prod.inject snd_conv)
  moreover have "\<bar>efw ! k\<bar> \<le> \<bar>dfw ! k\<bar>" unfolding h(2) by (rule apply_fold [OF h(1) assms(2,4)])
  ultimately show ?thesis by (simp add: between_def)
qed

theorem suppression_attenuates_witness:
  "\<exists>a' hnl efw. block_filter (fst (WebRtcAecm_InitCore zero_memory 8000)) (replicate PART_LEN1 9000) (replicate PART_LEN1 70) 256 3
      (replicate (2 * PART_LEN2) (- 40)) = (a', hnl, efw) \<and> \<bar>efw ! 7\<bar> \<le> 40"
proof -
  let ?a = "fst (WebRtcAecm_InitCore zero_memory 8000)"
  note c = AecmInitCore_ok(1) [OF zero_memory_ok init_zero_memory]
  obtain a' hnl efw where e: "block_filter ?a (replicate PART_LEN1 9000) (replicate PART_LEN1 70) 256 3 (replicate (2 * PART_LEN2) (- 40))
      = (a', hnl, efw)" by (metis prod_cases3)
  have "array_of (2 * PART_LEN2) is_i16 (replicate (2 * PART_LEN2) (- 40))" by (rule array_of_replicate) (simp add: is_i16_def)
  from suppression_attenuates [OF c this e, of 7] e show ?thesis by (auto simp: aecm_sizes)
qed

text \<open>C13: The clean signal cannot be added later: when the first three frames come without a clean signal and the fourth one with
  it, the canceller asks for more clean samples than were written, so it works on memory that was not delivered. (The
  result of \<open>WebRtc_ReadBuffer\<close> is not looked at.)\<close>

theorem late_clean_signal:
  assumes "core_memory mem" "frame_memory mem" "WebRtcAecm_InitCore mem fs = (a, 0)"
    "length inputs = 3" "\<forall>f \<in> set inputs. input_ok False f" "input_ok True f"
  shows "process_frames a (inputs @ [f]) = None"
proof -
  note i = InitCore_frames [OF assms(2,3)]
  from process_frames_ok [OF AecmInitCore_ok(1) [OF assms(1,3)] start_queues [OF i(1)] line_ok_self [OF i(2)] assms(5)]
  obtain a1 rs where r: "process_frames a inputs = Some (a1, rs)" "core_ok a1" "queues_at 48 0 0 a1" "line_ok (knownDelay a1, mult a1) a1"
    using assms(4) by (auto simp: waiting_input_def waiting_output_def aecm_sizes queues_ok_def)
  obtain d far noisy clean where f: "f = (d, far, noisy, Some clean)" "array_of FRAME_LEN is_i16 far" "array_of FRAME_LEN is_i16 noisy"
      "array_of FRAME_LEN is_i16 clean"
    using assms(6) by (cases f) (auto simp: input_ok_def)
  have "WebRtcAecm_ProcessFrame (a1\<lparr>knownDelay := d\<rparr>) far noisy (Some clean) (replicate FRAME_LEN 0) = None"
    using late_clean_frame [of "a1\<lparr>knownDelay := d\<rparr>"] r(2-4) f(2-4) by (simp add: queues_at_def line_ok_def)
  then show ?thesis using r(1) by (simp add: process_frames_append f(1))
qed

theorem late_clean_signal_witness:
  "process_frames (fst (WebRtcAecm_InitCore zero_memory 8000))
     (replicate 3 (0, replicate 80 1, replicate 80 2, None) @ [(0, replicate 80 1, replicate 80 2, Some (replicate 80 3))]) = None"
  by (rule late_clean_signal [OF zero_memory_ok zero_memory_frames init_zero_memory])
    (simp_all add: input_ok_def array_of_def is_i16_def FRAME_LEN_def)
end
