(* ===== verification/AecmMobile.thy ===== *)
theory AecmMobile
  imports AecmBlock
begin

text \<open>
  The interface of the mobile echo control: \<open>echo_control_mobile.cc\<close> (\<open>src/webrtc/modules/audio_processing/aecm\<close>).

  An instance waits in a start-up phase until the reported delay of the sound card is stable and the far-end buffer holds a
  matching amount, then it passes frames of 80 samples to the core. A null pointer is \<open>None\<close>; the outer \<open>None\<close> of a
  result stands for the use of samples that were not delivered. The field \<open>scSampFreq\<close>, which no code uses, is left out. The arguments of \<open>WebRtcAecm_Process\<close> that may be the same
  array are separate lists: a frame of the output is written after the frames it may cover were read.
\<close>

section \<open>Constants and state\<close>

definition BUF_SIZE_FRAMES :: int where "BUF_SIZE_FRAMES = 50"
definition kBufSizeSamp :: nat where "kBufSizeSamp = nat BUF_SIZE_FRAMES * FRAME_LEN"
definition kSampMsNb :: int where "kSampMsNb = 8"
definition kInitCheck_aecm :: int where "kInitCheck_aecm = 42"
definition AECM_UNSPECIFIED_ERROR :: int where "AECM_UNSPECIFIED_ERROR = 12000"
definition AECM_UNINITIALIZED_ERROR :: int where "AECM_UNINITIALIZED_ERROR = 12002"
definition AECM_NULL_POINTER_ERROR :: int where "AECM_NULL_POINTER_ERROR = 12003"
definition AECM_BAD_PARAMETER_ERROR :: int where "AECM_BAD_PARAMETER_ERROR = 12004"
definition AECM_BAD_PARAMETER_WARNING :: int where "AECM_BAD_PARAMETER_WARNING = 12100"

lemmas aecm_codes = AECM_UNSPECIFIED_ERROR_def AECM_UNINITIALIZED_ERROR_def AECM_NULL_POINTER_ERROR_def
  AECM_BAD_PARAMETER_ERROR_def AECM_BAD_PARAMETER_WARNING_def

record AecmConfig =
  cngMode_cfg :: int
  echoMode_cfg :: int

record AecMobile =
  sampFreq :: int
  bufSizeStart :: int
  knownDelay_inst :: int
  farendOld :: "int list list"
  initFlag_aecm :: int
  counter :: int
  sum_inst :: int
  firstVal :: int
  checkBufSizeCtr :: int
  msInSndCardBuf :: int
  filtDelay :: int
  timeForDelayChange :: int
  ECstartup :: int
  checkBuffSize :: int
  delayChange :: int
  lastDelayDiff :: int
  echoMode :: int
  farendBuf :: ring_buffer
  aecmCore :: AecmCore

section \<open>Creation, configuration and initialisation\<close>

text \<open>The arguments are those of \<open>WebRtcAecm_CreateCore\<close>; \<open>alloc 4\<close> are the two allocations of the far-end buffer.\<close>

definition WebRtcAecm_Create ::
    "AecMobile \<Rightarrow> AecmCore \<Rightarrow> (nat \<Rightarrow> bool \<times> (nat \<Rightarrow> int list option)) \<Rightarrow> DelayEstimatorFarend option \<Rightarrow>
     BinaryDelayEstimatorFarend option \<Rightarrow> int list option \<Rightarrow> DelayEstimator option \<Rightarrow> BinaryDelayEstimator option \<Rightarrow>
     int list option \<Rightarrow> bool \<Rightarrow> AecMobile option" where
  "WebRtcAecm_Create fresh fresh_core alloc fresh_farend farend mean_far fresh_estimator estimator mean_near malloc_fft =
     (case WebRtcAecm_CreateCore fresh_core alloc fresh_farend farend mean_far fresh_estimator estimator mean_near malloc_fft of
        None \<Rightarrow> None
      | Some core \<Rightarrow>
          (case WebRtc_CreateBuffer (fst (alloc 4)) (snd (alloc 4)) kBufSizeSamp 2 of
             None \<Rightarrow> None
           | Some b \<Rightarrow> Some (fresh\<lparr>aecmCore := core, farendBuf := b, initFlag_aecm := 0\<rparr>)))"

text \<open>The assignments of one echo mode, from the scaled parameters.\<close>

definition set_sup_gain :: "AecmCore \<Rightarrow> int \<Rightarrow> int \<Rightarrow> int \<Rightarrow> int \<Rightarrow> AecmCore" where
  "set_sup_gain core gain param_a param_b param_d =
     core\<lparr>supGain := gain, supGainOld := gain, supGainErrParamA := param_a, supGainErrParamD := param_d,
          supGainErrParamDiffAB := param_a - param_b, supGainErrParamDiffBD := param_b - param_d\<rparr>"

definition sup_gain_of_mode :: "AecmCore \<Rightarrow> int \<Rightarrow> AecmCore" where
  "sup_gain_of_mode core mode =
     (if mode = 0 then set_sup_gain core (shr SUPGAIN_DEFAULT 3) (shr SUPGAIN_ERROR_PARAM_A 3) (shr SUPGAIN_ERROR_PARAM_B 3)
                         (shr SUPGAIN_ERROR_PARAM_D 3)
      else if mode = 1 then set_sup_gain core (shr SUPGAIN_DEFAULT 2) (shr SUPGAIN_ERROR_PARAM_A 2) (shr SUPGAIN_ERROR_PARAM_B 2)
                              (shr SUPGAIN_ERROR_PARAM_D 2)
      else if mode = 2 then set_sup_gain core (shr SUPGAIN_DEFAULT 1) (shr SUPGAIN_ERROR_PARAM_A 1) (shr SUPGAIN_ERROR_PARAM_B 1)
                              (shr SUPGAIN_ERROR_PARAM_D 1)
      else if mode = 3 then set_sup_gain core SUPGAIN_DEFAULT SUPGAIN_ERROR_PARAM_A SUPGAIN_ERROR_PARAM_B SUPGAIN_ERROR_PARAM_D
      else if mode = 4 then set_sup_gain core (shl SUPGAIN_DEFAULT 1) (shl SUPGAIN_ERROR_PARAM_A 1) (shl SUPGAIN_ERROR_PARAM_B 1)
                              (shl SUPGAIN_ERROR_PARAM_D 1)
      else core)"

definition WebRtcAecm_set_config :: "AecMobile option \<Rightarrow> AecmConfig \<Rightarrow> AecMobile option \<times> int" where
  "WebRtcAecm_set_config inst config =
     (case inst of
        None \<Rightarrow> (None, - 1)
      | Some aecm \<Rightarrow>
          if initFlag_aecm aecm \<noteq> kInitCheck_aecm then (Some aecm, AECM_UNINITIALIZED_ERROR)
          else if cngMode_cfg config \<noteq> AecmFalse \<and> cngMode_cfg config \<noteq> AecmTrue then (Some aecm, AECM_BAD_PARAMETER_ERROR)
          else
            let aecm = aecm\<lparr>aecmCore := (aecmCore aecm)\<lparr>cngMode := cngMode_cfg config\<rparr>\<rparr>
            in if echoMode_cfg config < 0 \<or> echoMode_cfg config > 4 then (Some aecm, AECM_BAD_PARAMETER_ERROR)
               else (Some (aecm\<lparr>echoMode := echoMode_cfg config,
                                aecmCore := sup_gain_of_mode (aecmCore aecm) (echoMode_cfg config)\<rparr>), 0))"

text \<open>\<open>memset\<close> clears 160 bytes, the first of the two frames of \<open>farendOld\<close>.\<close>

definition WebRtcAecm_Init :: "AecMobile option \<Rightarrow> int \<Rightarrow> AecMobile option \<times> int" where
  "WebRtcAecm_Init inst freq =
     (case inst of
        None \<Rightarrow> (None, - 1)
      | Some aecm \<Rightarrow>
          if freq \<noteq> 8000 \<and> freq \<noteq> 16000 then (Some aecm, AECM_BAD_PARAMETER_ERROR)
          else
            let aecm = aecm\<lparr>sampFreq := freq\<rparr>;
                (core, err) = WebRtcAecm_InitCore (aecmCore aecm) (sampFreq aecm);
                aecm = aecm\<lparr>aecmCore := core\<rparr>
            in if err = - 1 then (Some aecm, AECM_UNSPECIFIED_ERROR)
               else
                 let aecm = aecm\<lparr>farendBuf := WebRtc_InitBuffer (farendBuf aecm), initFlag_aecm := kInitCheck_aecm,
                       delayChange := 1, sum_inst := 0, counter := 0, checkBuffSize := 1, firstVal := 0, ECstartup := 1,
                       bufSizeStart := 0, checkBufSizeCtr := 0, filtDelay := 0, timeForDelayChange := 0,
                       knownDelay_inst := 0, lastDelayDiff := 0,
                       farendOld := (farendOld aecm)[0 := replicate FRAME_LEN 0]\<rparr>;
                     (inst, err) = WebRtcAecm_set_config (Some aecm) \<lparr>cngMode_cfg = AecmTrue, echoMode_cfg = 3\<rparr>
                 in if err = - 1 then (inst, AECM_UNSPECIFIED_ERROR) else (inst, 0))"

section \<open>The echo path\<close>

definition WebRtcAecm_echo_path_size_bytes :: nat where
  "WebRtcAecm_echo_path_size_bytes = PART_LEN1 * 2"

definition WebRtcAecm_InitEchoPath :: "AecMobile option \<Rightarrow> int list option \<Rightarrow> nat \<Rightarrow> AecMobile option \<times> int" where
  "WebRtcAecm_InitEchoPath inst echo_path size_bytes =
     (case inst of
        None \<Rightarrow> (None, - 1)
      | Some aecm \<Rightarrow>
          (case echo_path of
             None \<Rightarrow> (Some aecm, AECM_NULL_POINTER_ERROR)
           | Some path \<Rightarrow>
               if size_bytes \<noteq> WebRtcAecm_echo_path_size_bytes then (Some aecm, AECM_BAD_PARAMETER_ERROR)
               else if initFlag_aecm aecm \<noteq> kInitCheck_aecm then (Some aecm, AECM_UNINITIALIZED_ERROR)
               else (Some (aecm\<lparr>aecmCore := WebRtcAecm_InitEchoPathCore (aecmCore aecm) path\<rparr>), 0)))"

text \<open>The second result is the memory of the caller.\<close>

definition WebRtcAecm_GetEchoPath :: "AecMobile option \<Rightarrow> int list option \<Rightarrow> nat \<Rightarrow> int list option \<times> int" where
  "WebRtcAecm_GetEchoPath inst echo_path size_bytes =
     (case inst of
        None \<Rightarrow> (echo_path, - 1)
      | Some aecm \<Rightarrow>
          (case echo_path of
             None \<Rightarrow> (None, AECM_NULL_POINTER_ERROR)
           | Some path \<Rightarrow>
               if size_bytes \<noteq> WebRtcAecm_echo_path_size_bytes then (Some path, AECM_BAD_PARAMETER_ERROR)
               else if initFlag_aecm aecm \<noteq> kInitCheck_aecm then (Some path, AECM_UNINITIALIZED_ERROR)
               else (Some (blit 0 (take (size_bytes div 2) (channelStored (aecmCore aecm))) path), 0)))"

section \<open>The far end\<close>

text \<open>Stuffing of the far-end buffer when the delay is above what the core can handle.\<close>

definition WebRtcAecm_DelayComp :: "AecMobile \<Rightarrow> AecMobile" where
  "WebRtcAecm_DelayComp aecm =
     (let nSampFar = to_i32 (int (WebRtc_available_read (Some (farendBuf aecm))));
          maxStuffSamp = 10 * int FRAME_LEN;
          nSampSndCard = to_i32 (msInSndCardBuf aecm * kSampMsNb * mult (aecmCore aecm));
          delayNew = to_i32 (nSampSndCard - nSampFar)
      in if delayNew > int FAR_BUF_LEN - int FRAME_LEN * mult (aecmCore aecm) then
           let nSampAdd = max (to_i32 (shr nSampSndCard 1 - nSampFar)) (int FRAME_LEN);
               nSampAdd = min nSampAdd maxStuffSamp
           in aecm\<lparr>farendBuf := the (fst (WebRtc_MoveReadPtr (Some (farendBuf aecm)) (- nSampAdd))), delayChange := 1\<rparr>
         else aecm)"

definition WebRtcAecm_GetBufferFarendError :: "AecMobile option \<Rightarrow> int list option \<Rightarrow> nat \<Rightarrow> int" where
  "WebRtcAecm_GetBufferFarendError inst farend nrOfSamples =
     (case inst of
        None \<Rightarrow> - 1
      | Some aecm \<Rightarrow>
          if farend = None then AECM_NULL_POINTER_ERROR
          else if initFlag_aecm aecm \<noteq> kInitCheck_aecm then AECM_UNINITIALIZED_ERROR
          else if nrOfSamples \<noteq> 80 \<and> nrOfSamples \<noteq> 160 then AECM_BAD_PARAMETER_ERROR
          else 0)"

definition WebRtcAecm_BufferFarend :: "AecMobile option \<Rightarrow> int list option \<Rightarrow> nat \<Rightarrow> AecMobile option \<times> int" where
  "WebRtcAecm_BufferFarend inst farend nrOfSamples =
     (let err = WebRtcAecm_GetBufferFarendError inst farend nrOfSamples
      in if err \<noteq> 0 then (inst, err)
         else
           let aecm = the inst;
               aecm = (if ECstartup aecm = 0 then WebRtcAecm_DelayComp aecm else aecm)
           in (Some (aecm\<lparr>farendBuf := write_samples (farendBuf aecm) (take nrOfSamples (the farend))\<rparr>), 0))"

section \<open>The near end\<close>

text \<open>The filtered delay and the known delay, which changes when the difference has been too large for 26 calls.\<close>

definition count_delay_change :: "AecMobile \<Rightarrow> int \<Rightarrow> AecMobile" where
  "count_delay_change aecm diff =
     (if diff > 224 then
        (if lastDelayDiff aecm < 96 then aecm\<lparr>timeForDelayChange := 0\<rparr>
         else aecm\<lparr>timeForDelayChange := timeForDelayChange aecm + 1\<rparr>)
      else if diff < 96 \<and> knownDelay_inst aecm > 0 then
        (if lastDelayDiff aecm > 224 then aecm\<lparr>timeForDelayChange := 0\<rparr>
         else aecm\<lparr>timeForDelayChange := timeForDelayChange aecm + 1\<rparr>)
      else aecm\<lparr>timeForDelayChange := 0\<rparr>)"

definition WebRtcAecm_EstBufDelay :: "AecMobile \<Rightarrow> int \<Rightarrow> AecMobile" where
  "WebRtcAecm_EstBufDelay aecm ms =
     (let nSampFar = to_i16 (int (WebRtc_available_read (Some (farendBuf aecm))));
          nSampSndCard = to_i16 (ms * kSampMsNb * mult (aecmCore aecm));
          delayNew = to_i16 (nSampSndCard - nSampFar);
          (aecm, delayNew) =
            (if delayNew < int FRAME_LEN
             then (aecm\<lparr>farendBuf := the (fst (WebRtc_MoveReadPtr (Some (farendBuf aecm)) (int FRAME_LEN)))\<rparr>,
                   to_i16 (delayNew + int FRAME_LEN))
             else (aecm, delayNew));
          aecm = aecm\<lparr>filtDelay := to_i16 (max 0 (c_div (8 * filtDelay aecm + 2 * delayNew) 10))\<rparr>;
          diff = to_i16 (filtDelay aecm - knownDelay_inst aecm);
          aecm = (count_delay_change aecm diff)\<lparr>lastDelayDiff := diff\<rparr>
      in if timeForDelayChange aecm > 25 then aecm\<lparr>knownDelay_inst := max (filtDelay aecm - 160) 0\<rparr> else aecm)"

text \<open>The test \<open>abs(firstVal - ms) < MAX(0.2 * ms, 8)\<close> compares an integer with a \<open>double\<close>. The factor \<open>0.2\<close> is off by
  a relative error of \<open>2^-54\<close>: the product is rounded to \<open>ms / 5\<close> when that is an integer, and is no integer otherwise, so the
  test is the one with the exact quotient, written here without a fraction.\<close>

definition stable_delay :: "int \<Rightarrow> int \<Rightarrow> bool" where
  "stable_delay first ms \<longleftrightarrow> 5 * \<bar>first - ms\<bar> < max ms (5 * kSampMsNb)"

text \<open>The products \<open>counter * nBlocks10ms\<close> are of type \<open>size_t\<close>.\<close>

definition size_product :: "int \<Rightarrow> nat \<Rightarrow> int" where
  "size_product x n = (x * int n) mod 2 ^ 64"

text \<open>The sum of the delays that are stable compared with the first one.\<close>

definition sum_stable_delays :: "AecMobile \<Rightarrow> AecMobile" where
  "sum_stable_delays aecm =
     (let ms = msInSndCardBuf aecm;
          aecm = (if counter aecm = 0 then aecm\<lparr>firstVal := ms, sum_inst := 0\<rparr> else aecm)
      in if stable_delay (firstVal aecm) ms
         then aecm\<lparr>sum_inst := to_i16 (sum_inst aecm + ms), counter := to_i16 (counter aecm + 1)\<rparr>
         else aecm\<lparr>counter := 0\<rparr>)"

definition check_buffer_size :: "AecMobile \<Rightarrow> nat \<Rightarrow> AecMobile" where
  "check_buffer_size aecm nBlocks10ms =
     (let aecm = sum_stable_delays (aecm\<lparr>checkBufSizeCtr := to_i16 (checkBufSizeCtr aecm + 1)\<rparr>);
          aecm = (if size_product (counter aecm) nBlocks10ms \<ge> 6
                  then aecm\<lparr>bufSizeStart := to_i16 (min (c_div (3 * sum_inst aecm * mult (aecmCore aecm)) (counter aecm * 40))
                                                       BUF_SIZE_FRAMES),
                            checkBuffSize := 0\<rparr>
                  else aecm)
      in if size_product (checkBufSizeCtr aecm) nBlocks10ms > 50
         then aecm\<lparr>bufSizeStart := to_i16 (min (c_div (3 * msInSndCardBuf aecm * mult (aecmCore aecm)) 40) BUF_SIZE_FRAMES),
                   checkBuffSize := 0\<rparr>
         else aecm)"

definition startup_step :: "AecMobile \<Rightarrow> nat \<Rightarrow> AecMobile" where
  "startup_step aecm nBlocks10ms =
     (let available = int (WebRtc_available_read (Some (farendBuf aecm)));
          nmbrOfFilledBuffers = to_i16 (c_div (to_i16 available) (int FRAME_LEN));
          aecm = (if checkBuffSize aecm \<noteq> 0 then check_buffer_size aecm nBlocks10ms else aecm)
      in if checkBuffSize aecm \<noteq> 0 then aecm
         else if nmbrOfFilledBuffers = bufSizeStart aecm then aecm\<lparr>ECstartup := 0\<rparr>
         else if nmbrOfFilledBuffers > bufSizeStart aecm then
           aecm\<lparr>farendBuf := the (fst (WebRtc_MoveReadPtr (Some (farendBuf aecm))
                   (to_i32 available - bufSizeStart aecm * int FRAME_LEN))),
                ECstartup := 0\<rparr>
         else aecm)"

text \<open>The far-end frame of the \<open>i\<close>-th frame of a call: the next one, or the last one again when there is none.\<close>

definition next_far_frame :: "AecMobile \<Rightarrow> nat \<Rightarrow> (AecMobile \<times> int list) option" where
  "next_far_frame aecm i =
     (if to_i16 (c_div (to_i16 (int (WebRtc_available_read (Some (farendBuf aecm))))) (int FRAME_LEN)) > 0 then
        (case read_samples (farendBuf aecm) FRAME_LEN of
           None \<Rightarrow> None
         | Some (b, xs) \<Rightarrow> Some (aecm\<lparr>farendBuf := b, farendOld := (farendOld aecm)[i := xs]\<rparr>, xs))
      else Some (aecm, farendOld aecm ! i))"

definition cancel_frame ::
    "AecMobile \<Rightarrow> int list \<Rightarrow> int list option \<Rightarrow> nat \<Rightarrow> int list \<Rightarrow> (AecMobile \<times> int list \<times> int) option" where
  "cancel_frame aecm nearendNoisy nearendClean i out =
     (case next_far_frame aecm i of
        None \<Rightarrow> None
      | Some (aecm, farend) \<Rightarrow>
          (let frame = (\<lambda>xs. take FRAME_LEN (drop (FRAME_LEN * i) xs));
               aecm = (if i = 0 \<and> sampFreq aecm = 8000 \<or> i = 1 \<and> sampFreq aecm = 16000
                       then WebRtcAecm_EstBufDelay aecm (msInSndCardBuf aecm) else aecm)
           in case WebRtcAecm_ProcessFrame (aecmCore aecm) farend (frame nearendNoisy) (map_option frame nearendClean) (frame out) of
                None \<Rightarrow> None
              | Some (core, xs, r) \<Rightarrow> Some (aecm\<lparr>aecmCore := core\<rparr>, blit (FRAME_LEN * i) xs out, r)))"

fun cancel_frames ::
    "AecMobile \<Rightarrow> int list \<Rightarrow> int list option \<Rightarrow> nat list \<Rightarrow> int list \<Rightarrow> (AecMobile \<times> int list \<times> int) option" where
  "cancel_frames aecm noisy clean [] out = Some (aecm, out, 0)"
| "cancel_frames aecm noisy clean (i # is) out =
     (case cancel_frame aecm noisy clean i out of
        None \<Rightarrow> None
      | Some (aecm, out, r) \<Rightarrow> if r = - 1 then Some (aecm, out, - 1) else cancel_frames aecm noisy clean is out)"

text \<open>The results are the instance, the memory of the output, and the code.\<close>

definition WebRtcAecm_Process ::
    "AecMobile option \<Rightarrow> int list option \<Rightarrow> int list option \<Rightarrow> int list option \<Rightarrow> nat \<Rightarrow> int \<Rightarrow>
     (AecMobile option \<times> int list option \<times> int) option" where
  "WebRtcAecm_Process inst nearendNoisy nearendClean out nrOfSamples ms =
     (case inst of
        None \<Rightarrow> Some (None, out, - 1)
      | Some aecm \<Rightarrow>
          (case (nearendNoisy, out) of
             (Some noisy, Some dst) \<Rightarrow>
               if initFlag_aecm aecm \<noteq> kInitCheck_aecm then Some (inst, out, AECM_UNINITIALIZED_ERROR)
               else if nrOfSamples \<noteq> 80 \<and> nrOfSamples \<noteq> 160 then Some (inst, out, AECM_BAD_PARAMETER_ERROR)
               else
                 let (ms, retVal) = (if ms < 0 then (0, AECM_BAD_PARAMETER_WARNING)
                                     else if ms > 500 then (500, AECM_BAD_PARAMETER_WARNING) else (ms, 0));
                     aecm = aecm\<lparr>msInSndCardBuf := to_i16 (ms + 10)\<rparr>;
                     nFrames = nrOfSamples div FRAME_LEN;
                     nBlocks10ms = nFrames div nat (mult (aecmCore aecm))
                 in if ECstartup aecm \<noteq> 0 then
                      Some (Some (startup_step aecm nBlocks10ms),
                            Some (blit 0 (take nrOfSamples (case nearendClean of None \<Rightarrow> noisy | Some clean \<Rightarrow> clean)) dst), retVal)
                    else
                      (case cancel_frames aecm noisy nearendClean [0..<nFrames] dst of
                         None \<Rightarrow> None
                       | Some (aecm, dst, r) \<Rightarrow> Some (Some aecm, Some dst, if r = - 1 then - 1 else retVal))
           | _ \<Rightarrow> Some (inst, out, AECM_NULL_POINTER_ERROR)))"

section \<open>The invariant of an instance\<close>

text \<open>After \<open>n\<close> frames passed to the core, with a clean signal or without (\<open>c\<close>), at 8 or 16 kHz (\<open>mu\<close> is 1 or 2). The known delay of the core is 0.\<close>

definition instance_ok :: "bool \<Rightarrow> int \<Rightarrow> nat \<Rightarrow> AecMobile \<Rightarrow> bool" where
  "instance_ok c mu n a \<longleftrightarrow> initFlag_aecm a = kInitCheck_aecm \<and> is_i16 (bufSizeStart a) \<and>
     queue_of kBufSizeSamp (farendBuf a) \<and> length (farendOld a) = 2 \<and> (\<forall>x \<in> set (farendOld a). array_of FRAME_LEN is_i16 x) \<and>
     core_ok (aecmCore a) \<and> queues_ok c (waiting_input n) (waiting_output n) (aecmCore a) \<and>
     (mu = 1 \<or> mu = 2) \<and> line_ok (0, mu) (aecmCore a)"

lemma instance_ok_untouched [simp]:
  "instance_ok c mu n (a\<lparr>sampFreq := v0\<rparr>) = instance_ok c mu n a" "instance_ok c mu n (a\<lparr>counter := v1\<rparr>) = instance_ok c mu n a"
  "instance_ok c mu n (a\<lparr>sum_inst := v2\<rparr>) = instance_ok c mu n a" "instance_ok c mu n (a\<lparr>firstVal := v3\<rparr>) = instance_ok c mu n a"
  "instance_ok c mu n (a\<lparr>checkBufSizeCtr := v4\<rparr>) = instance_ok c mu n a" "instance_ok c mu n (a\<lparr>msInSndCardBuf := v5\<rparr>) = instance_ok c mu n a"
  "instance_ok c mu n (a\<lparr>filtDelay := v6\<rparr>) = instance_ok c mu n a" "instance_ok c mu n (a\<lparr>timeForDelayChange := v7\<rparr>) = instance_ok c mu n a"
  "instance_ok c mu n (a\<lparr>ECstartup := v8\<rparr>) = instance_ok c mu n a" "instance_ok c mu n (a\<lparr>checkBuffSize := v9\<rparr>) = instance_ok c mu n a"
  "instance_ok c mu n (a\<lparr>delayChange := v10\<rparr>) = instance_ok c mu n a" "instance_ok c mu n (a\<lparr>lastDelayDiff := v11\<rparr>) = instance_ok c mu n a"
  "instance_ok c mu n (a\<lparr>echoMode := v12\<rparr>) = instance_ok c mu n a" "instance_ok c mu n (a\<lparr>knownDelay_inst := v13\<rparr>) = instance_ok c mu n a"
  by (simp_all add: instance_ok_def)

lemma instance_ok_buffer [simp]:
  "instance_ok c mu n a \<Longrightarrow> queue_of kBufSizeSamp b \<Longrightarrow> instance_ok c mu n (a\<lparr>farendBuf := b\<rparr>)"
  "instance_ok c mu n a \<Longrightarrow> is_i16 v \<Longrightarrow> instance_ok c mu n (a\<lparr>bufSizeStart := v\<rparr>)"
  by (simp_all add: instance_ok_def)

lemma instance_ok_known_delay: "instance_ok c mu n a \<Longrightarrow> knownDelay (aecmCore a) = 0"
  by (auto simp: instance_ok_def line_ok_def)

lemma far_fill: "instance_ok c mu n a \<Longrightarrow> WebRtc_available_read (Some (farendBuf a)) = length (queue_samples (farendBuf a))"
  by (simp add: instance_ok_def available_queue_of [of kBufSizeSamp])

lemma far_fill_bound: "instance_ok c mu n a \<Longrightarrow> length (queue_samples (farendBuf a)) \<le> 4000"
  using queue_of_bound [of kBufSizeSamp "farendBuf a"] by (simp add: instance_ok_def kBufSizeSamp_def BUF_SIZE_FRAMES_def FRAME_LEN_def)

lemma move_far_ok:
  assumes "instance_ok c mu n a" "- 1073741824 \<le> m" "m \<le> 1073741824"
  shows "queue_of kBufSizeSamp (the (fst (WebRtc_MoveReadPtr (Some (farendBuf a)) m)))"
  using move_read_keeps [of kBufSizeSamp "farendBuf a" m] assms by (simp add: instance_ok_def)

lemma count_delay_change_ok [simp]: "instance_ok c mu n (count_delay_change a d) = instance_ok c mu n a"
  by (simp add: count_delay_change_def)

lemma EstBufDelay_ok:
  assumes "instance_ok c mu n a" shows "instance_ok c mu n (WebRtcAecm_EstBufDelay a ms)"
proof -
  let ?new = "to_i16 (to_i16 (ms * kSampMsNb * mult (aecmCore a)) - to_i16 (int (WebRtc_available_read (Some (farendBuf a)))))"
  let ?moved = "a\<lparr>farendBuf := the (fst (WebRtc_MoveReadPtr (Some (farendBuf a)) (int FRAME_LEN)))\<rparr>"
  have "queue_of kBufSizeSamp (the (fst (WebRtc_MoveReadPtr (Some (farendBuf a)) (int FRAME_LEN))))"
    by (rule move_far_ok [OF assms]) (simp_all add: FRAME_LEN_def)
  then have m: "instance_ok c mu n ?moved" using assms by simp
  obtain b d where b: "(if ?new < int FRAME_LEN then (?moved, to_i16 (?new + int FRAME_LEN)) else (a, ?new)) = (b, d)" by fastforce
  then have "instance_ok c mu n b" using m assms by (auto split: if_splits)
  then show ?thesis unfolding WebRtcAecm_EstBufDelay_def Let_def b prod.case by simp
qed

lemma DelayComp_ok:
  assumes "instance_ok c mu n a" shows "instance_ok c mu n (WebRtcAecm_DelayComp a)"
proof -
  have "queue_of kBufSizeSamp (the (fst (WebRtc_MoveReadPtr (Some (farendBuf a)) (- min (max x (int FRAME_LEN)) (10 * int FRAME_LEN)))))" for x
    by (rule move_far_ok [OF assms]) (simp_all add: FRAME_LEN_def min_def max_def)
  then show ?thesis using assms by (simp add: WebRtcAecm_DelayComp_def Let_def)
qed

lemma BufferFarend_ok:
  assumes "instance_ok c mu n a" "\<forall>x \<in> set far. is_i16 x" "length far = 80 \<or> length far = 160"
  shows "\<exists>a'. WebRtcAecm_BufferFarend (Some a) (Some far) (length far) = (Some a', 0) \<and> instance_ok c mu n a'"
proof -
  define b where "b = (if ECstartup a = 0 then WebRtcAecm_DelayComp a else a)"
  have b: "instance_ok c mu n b" using DelayComp_ok [OF assms(1)] assms(1) by (simp add: b_def)
  have "WebRtcAecm_BufferFarend (Some a) (Some far) (length far) = (Some (b\<lparr>farendBuf := write_samples (farendBuf b) far\<rparr>), 0)"
    using assms(1,3) by (auto simp: WebRtcAecm_BufferFarend_def WebRtcAecm_GetBufferFarendError_def b_def instance_ok_def Let_def)
  moreover have "queue_of kBufSizeSamp (write_samples (farendBuf b) far)"
    using b assms(2) by (intro write_samples_any) (simp_all add: instance_ok_def)
  ultimately show ?thesis using b by simp
qed

section \<open>Start-up\<close>

lemma check_buffer_size_ok: "instance_ok c mu n a \<Longrightarrow> instance_ok c mu n (check_buffer_size a k)"
  by (simp add: check_buffer_size_def sum_stable_delays_def Let_def)

lemma startup_step_ok:
  assumes "instance_ok c mu n a" shows "instance_ok c mu n (startup_step a k)"
proof -
  define b where "b = (if checkBuffSize a \<noteq> 0 then check_buffer_size a k else a)"
  have b: "instance_ok c mu n b" using assms by (simp add: b_def check_buffer_size_ok)
  define f where "f = to_i32 (int (WebRtc_available_read (Some (farendBuf a))))"
  have "0 \<le> f" "f \<le> 4000"
    using far_fill_bound [OF assms] by (simp_all add: f_def far_fill [OF assms] to_i32_id is_i32_def)
  moreover have "- 32768 \<le> bufSizeStart b" "bufSizeStart b \<le> 32767" using b by (simp_all add: instance_ok_def is_i16_def)
  ultimately have "queue_of kBufSizeSamp (the (fst (WebRtc_MoveReadPtr (Some (farendBuf b)) (f - bufSizeStart b * int FRAME_LEN))))"
    by (intro move_far_ok [OF b]) (simp_all add: FRAME_LEN_def)
  then show ?thesis using b unfolding startup_step_def Let_def b_def [symmetric] f_def [symmetric] by simp
qed

section \<open>Frames\<close>

lemma next_far_frame_ok:
  assumes "instance_ok c mu n a" "i < 2"
  shows "\<exists>a' xs. next_far_frame a i = Some (a', xs) \<and> instance_ok c mu n a' \<and> array_of FRAME_LEN is_i16 xs \<and>
    sampFreq a' = sampFreq a \<and> msInSndCardBuf a' = msInSndCardBuf a"
proof -
  let ?k = "length (queue_samples (farendBuf a))"
  have k: "?k \<le> 4000" by (rule far_fill_bound [OF assms(1)])
  have q: "queue_of kBufSizeSamp (farendBuf a)" using assms(1) by (simp add: instance_ok_def)
  have "0 \<le> int ?k div 80 \<and> int ?k div 80 \<le> 50" using k zdiv_mono1 [of "int ?k" 4000 80] by simp
  then have "to_i16 (c_div (to_i16 (int ?k)) (int FRAME_LEN)) = int ?k div 80"
    using k by (simp add: to_i16_id is_i16_def c_div_pos FRAME_LEN_def)
  then have t: "to_i16 (c_div (to_i16 (int (WebRtc_available_read (Some (farendBuf a))))) (int FRAME_LEN)) > 0 \<longleftrightarrow> 80 \<le> ?k"
    by (simp add: far_fill [OF assms(1)] pos_imp_zdiv_pos_iff)
  show ?thesis
  proof (cases "80 \<le> ?k")
    case True
    then have "FRAME_LEN \<le> ?k" by (simp add: FRAME_LEN_def)
    then obtain b where b: "read_samples (farendBuf a) FRAME_LEN = Some (b, take FRAME_LEN (queue_samples (farendBuf a)))" "queue_of kBufSizeSamp b"
        and x: "array_of FRAME_LEN is_i16 (take FRAME_LEN (queue_samples (farendBuf a)))"
      using read_samples_law(1) [OF q] array_of_samples by blast
    have "instance_ok c mu n (a\<lparr>farendBuf := b, farendOld := (farendOld a)[i := take FRAME_LEN (queue_samples (farendBuf a))]\<rparr>)"
      using assms(1) b(2) x set_update_subset_insert [of "farendOld a" i] by (auto simp: instance_ok_def)
    then show ?thesis using True t b(1) x by (simp add: next_far_frame_def)
  next
    case False
    have "farendOld a ! i \<in> set (farendOld a)" using assms by (simp add: instance_ok_def)
    then show ?thesis using False t assms(1) by (simp add: next_far_frame_def instance_ok_def)
  qed
qed

lemma frame_slice: "array_of m is_i16 xs \<Longrightarrow> FRAME_LEN * (i + 1) \<le> m \<Longrightarrow> array_of FRAME_LEN is_i16 (take FRAME_LEN (drop (FRAME_LEN * i) xs))"
  by (rule array_of_slice) (simp_all add: algebra_simps)

lemma cancel_frame_ok:
  assumes "instance_ok (clean \<noteq> None) mu n a" "i < 2" "FRAME_LEN * (i + 1) \<le> m" "array_of m is_i16 noisy"
    "clean \<noteq> None \<longrightarrow> array_of m is_i16 (the clean)" "array_of m is_i16 out"
  shows "\<exists>a' out'. cancel_frame a noisy clean i out = Some (a', out', 0) \<and> instance_ok (clean \<noteq> None) mu (Suc n) a' \<and>
    array_of m is_i16 out'"
proof -
  obtain a1 far where a1: "next_far_frame a i = Some (a1, far)" "instance_ok (clean \<noteq> None) mu n a1" "array_of FRAME_LEN is_i16 far"
    using next_far_frame_ok [OF assms(1,2)] by blast
  define a2 where "a2 = (if i = 0 \<and> sampFreq a1 = 8000 \<or> i = 1 \<and> sampFreq a1 = 16000
    then WebRtcAecm_EstBufDelay a1 (msInSndCardBuf a1) else a1)"
  have a2: "instance_ok (clean \<noteq> None) mu n a2" using a1(2) EstBufDelay_ok by (simp add: a2_def)
  then have k: "mu = 1 \<or> mu = 2" "line_ok (0, mu) (aecmCore a2)" by (auto simp: instance_ok_def)
  let ?f = "\<lambda>xs. take FRAME_LEN (drop (FRAME_LEN * i) xs)"
  have s: "array_of FRAME_LEN is_i16 (?f noisy)" by (rule frame_slice [OF assms(4,3)])
  have s': "map_option ?f clean \<noteq> None \<longrightarrow> array_of FRAME_LEN is_i16 (the (map_option ?f clean))"
    using assms(5) frame_slice [OF _ assms(3)] by (cases clean) auto
  have s'': "length (?f out) = FRAME_LEN" by (rule array_of_length [OF frame_slice [OF assms(6,3)]])
  have c: "(map_option ?f clean \<noteq> None) = (clean \<noteq> None)" by simp
  obtain core o' where p: "WebRtcAecm_ProcessFrame (aecmCore a2) far (?f noisy) (map_option ?f clean) (?f out) = Some (core, o', 0)"
      "array_of FRAME_LEN is_i16 o'" "core_ok core"
      "queues_ok (clean \<noteq> None) (waiting_input (Suc n)) (waiting_output (Suc n)) core" "line_ok (0, mu) core"
    using ProcessFrame_ok [of "aecmCore a2" "map_option ?f clean" "waiting_input n" "waiting_output n", OF _ _ k(2) waiting_step(1,2) a1(3) s s' s''] a2
    unfolding waiting_step(3,4) c by (auto simp: instance_ok_def)
  have "cancel_frame a noisy clean i out = Some (a2\<lparr>aecmCore := core\<rparr>, blit (FRAME_LEN * i) o' out, 0)"
    unfolding cancel_frame_def a1(1) option.case prod.case Let_def a2_def [symmetric] p(1) ..
  moreover have "instance_ok (clean \<noteq> None) mu (Suc n) (a2\<lparr>aecmCore := core\<rparr>)" using a2 k(1) p(3-5) by (auto simp: instance_ok_def)
  moreover have "array_of m is_i16 (blit (FRAME_LEN * i) o' out)" using assms(3,6) p(2) by (intro array_of_blit) (simp_all add: algebra_simps)
  ultimately show ?thesis by blast
qed

lemma cancel_frames_ok:
  assumes "instance_ok (clean \<noteq> None) mu n a" "array_of m is_i16 noisy" "clean \<noteq> None \<longrightarrow> array_of m is_i16 (the clean)"
    "array_of m is_i16 out" "\<forall>i \<in> set is. i < 2 \<and> FRAME_LEN * (i + 1) \<le> m"
  shows "\<exists>a' out'. cancel_frames a noisy clean is out = Some (a', out', 0) \<and> instance_ok (clean \<noteq> None) mu (n + length is) a' \<and>
    array_of m is_i16 out'"
  using assms
proof (induction "is" arbitrary: a n out)
  case (Cons i "is")
  obtain a1 o1 where c: "cancel_frame a noisy clean i out = Some (a1, o1, 0)" "instance_ok (clean \<noteq> None) mu (Suc n) a1" "array_of m is_i16 o1"
    using cancel_frame_ok [OF Cons.prems(1) _ _ Cons.prems(2-4), of i] Cons.prems(5) by auto
  from Cons.IH [OF c(2) Cons.prems(2,3) c(3)] Cons.prems(5) c(1) show ?case by auto
qed simp

text \<open>A call with a valid block of samples.\<close>

lemma Process_ok:
  assumes "instance_ok (clean \<noteq> None) mu n a" "m = 80 \<or> m = 160" "array_of m is_i16 noisy" "clean \<noteq> None \<longrightarrow> array_of m is_i16 (the clean)"
    "array_of m is_i16 out"
  shows "\<exists>a' out' n'. WebRtcAecm_Process (Some a) (Some noisy) clean (Some out) m ms =
      Some (Some a', Some out', if 0 \<le> ms \<and> ms \<le> 500 then 0 else AECM_BAD_PARAMETER_WARNING) \<and>
    instance_ok (clean \<noteq> None) mu n' a' \<and> array_of m is_i16 out'"
proof -
  define ms' where "ms' = (if ms < 0 then 0 else if ms > 500 then 500 else ms)"
  define ret where "ret = (if 0 \<le> ms \<and> ms \<le> 500 then 0 else AECM_BAD_PARAMETER_WARNING)"
  have mr: "(if ms < 0 then (0, AECM_BAD_PARAMETER_WARNING) else if ms > 500 then (500, AECM_BAD_PARAMETER_WARNING) else (ms, 0)) = (ms', ret)"
    by (simp add: ms'_def ret_def)
  define b where "b = a\<lparr>msInSndCardBuf := to_i16 (ms' + 10)\<rparr>"
  have b: "instance_ok (clean \<noteq> None) mu n b" "initFlag_aecm a = kInitCheck_aecm" using assms(1) by (simp_all add: b_def instance_ok_def)
  show ?thesis
  proof (cases "ECstartup b = 0")
    case False
    let ?src = "case clean of None \<Rightarrow> noisy | Some clean \<Rightarrow> clean"
    have "array_of m is_i16 ?src" using assms(3,4) by (cases clean) simp_all
    then have "array_of m is_i16 (blit 0 (take m ?src) out)" using assms(5) by (intro array_of_blit [where k = m]) simp_all
    moreover have "WebRtcAecm_Process (Some a) (Some noisy) clean (Some out) m ms =
        Some (Some (startup_step b (m div FRAME_LEN div nat (mult (aecmCore b)))), Some (blit 0 (take m ?src) out), ret)"
      using False assms(2) b(2) unfolding WebRtcAecm_Process_def option.case prod.case mr Let_def b_def [symmetric] by auto
    ultimately show ?thesis using startup_step_ok [OF b(1)] unfolding ret_def by blast
  next
    case True
    have "\<forall>i \<in> set [0..<m div FRAME_LEN]. i < 2 \<and> FRAME_LEN * (i + 1) \<le> m" using assms(2) by (auto simp: FRAME_LEN_def)
    from cancel_frames_ok [OF b(1) assms(3-5) this] obtain a' out' where
      c: "cancel_frames b noisy clean [0..<m div FRAME_LEN] out = Some (a', out', 0)"
         "instance_ok (clean \<noteq> None) mu (n + length [0..<m div FRAME_LEN]) a'" "array_of m is_i16 out'" by blast
    have "WebRtcAecm_Process (Some a) (Some noisy) clean (Some out) m ms = Some (Some a', Some out', ret)"
      using True assms(2) b(2) unfolding WebRtcAecm_Process_def option.case prod.case mr Let_def b_def [symmetric] c(1) by auto
    then show ?thesis using c(2,3) unfolding ret_def by blast
  qed
qed

section \<open>Configuration and echo path\<close>

lemma sup_gain_of_mode_ok:
  assumes "core_ok a" shows "core_ok (sup_gain_of_mode a mode)" "frame_part (sup_gain_of_mode a mode) = frame_part a"
proof -
  have g: "core_ok (set_sup_gain a g pa pb pd)" "frame_part (set_sup_gain a g pa pb pd) = frame_part a"
    if "0 \<le> pd" "pd \<le> pb" "pb \<le> pa" "pa \<le> 6144" "0 \<le> g" "g \<le> pa" for g pa pb pd
    using assms that by (simp_all add: set_sup_gain_def core_parts between_def SUPGAIN_ERROR_PARAM_A_def)
  note p = SUPGAIN_DEFAULT_def SUPGAIN_ERROR_PARAM_A_def SUPGAIN_ERROR_PARAM_B_def SUPGAIN_ERROR_PARAM_D_def shr_def shl_def
  show "core_ok (sup_gain_of_mode a mode)" "frame_part (sup_gain_of_mode a mode) = frame_part a"
    using assms by (simp_all add: sup_gain_of_mode_def g p)
qed

lemma frame_part_keeps:
  assumes "frame_part b = frame_part a" "core_ok b" "instance_ok c mu n (s\<lparr>aecmCore := a\<rparr>)"
  shows "instance_ok c mu n (s\<lparr>aecmCore := b\<rparr>)"
proof -
  note q = frame_part_queues(1,2) [OF assms(1)]
  show ?thesis using assms(2,3) by (simp add: instance_ok_def queues_ok_def q)
qed

lemma instance_ok_core: "instance_ok c mu n a \<Longrightarrow> frame_part b = frame_part (aecmCore a) \<Longrightarrow> core_ok b \<Longrightarrow> instance_ok c mu n (a\<lparr>aecmCore := b\<rparr>)"
  using frame_part_keeps [of b "aecmCore a" c mu n a] by simp

lemma set_config_ok:
  assumes "instance_ok c mu n a"
  shows "\<exists>a' r. WebRtcAecm_set_config (Some a) cfg = (Some a', r) \<and> instance_ok c mu n a' \<and> (r = 0 \<or> r = AECM_BAD_PARAMETER_ERROR)"
proof -
  define b where "b = a\<lparr>aecmCore := (aecmCore a)\<lparr>cngMode := cngMode_cfg cfg\<rparr>\<rparr>"
  have k: "core_ok (aecmCore a)" "initFlag_aecm a = kInitCheck_aecm" using assms by (simp_all add: instance_ok_def)
  then have b: "instance_ok c mu n b" using assms by (simp add: b_def instance_ok_core)
  then have "instance_ok c mu n (b\<lparr>aecmCore := sup_gain_of_mode (aecmCore b) (echoMode_cfg cfg)\<rparr>)"
    by (intro instance_ok_core sup_gain_of_mode_ok) (simp_all add: instance_ok_def)
  then have "instance_ok c mu n (b\<lparr>echoMode := echoMode_cfg cfg, aecmCore := sup_gain_of_mode (aecmCore b) (echoMode_cfg cfg)\<rparr>)"
    by (simp add: instance_ok_def)
  then show ?thesis using assms b k(2)
    by (auto simp: WebRtcAecm_set_config_def Let_def b_def [symmetric])
qed

lemma InitEchoPathCore_ok:
  assumes "core_ok a" "array_of PART_LEN1 is_i16 path"
  shows "core_ok (WebRtcAecm_InitEchoPathCore a path)" "frame_part (WebRtcAecm_InitEchoPathCore a path) = frame_part a"
    "channelStored (WebRtcAecm_InitEchoPathCore a path) = path"
proof -
  have l: "length (channelStored a) = PART_LEN1" "length (channelAdapt16 a) = PART_LEN1" "length (channelAdapt32 a) = PART_LEN1"
    using assms(1) by (auto simp: core_parts array_of_def)
  note e = InitEchoPath_eq [OF l array_of_length [OF assms(2)]]
  have "array_of PART_LEN1 is_i32 (map (\<lambda>i. shl (path ! i) 16) [0..<PART_LEN1])"
    using InitEchoPath_ok [OF assms(2) l] by (simp add: e)
  then show "core_ok (WebRtcAecm_InitEchoPathCore a path)" using assms unfolding e by (simp add: core_parts)
  show "frame_part (WebRtcAecm_InitEchoPathCore a path) = frame_part a" "channelStored (WebRtcAecm_InitEchoPathCore a path) = path"
    unfolding e by (simp_all add: frame_part_def)
qed

section \<open>Sessions\<close>

datatype aecm_call = Farend "int list" | Nearend "int list" "int list option" int | Configure AecmConfig | EchoPath "int list"

definition aecm_step :: "AecMobile \<Rightarrow> aecm_call \<Rightarrow> (AecMobile \<times> int) option" where
  "aecm_step a call =
     (case call of
        Farend xs \<Rightarrow> (case WebRtcAecm_BufferFarend (Some a) (Some xs) (length xs) of (a, r) \<Rightarrow> Some (the a, r))
      | Nearend noisy clean ms \<Rightarrow>
          map_option (\<lambda>(a, out, r). (the a, r))
            (WebRtcAecm_Process (Some a) (Some noisy) clean (Some (replicate (length noisy) 0)) (length noisy) ms)
      | Configure cfg \<Rightarrow> (case WebRtcAecm_set_config (Some a) cfg of (a, r) \<Rightarrow> Some (the a, r))
      | EchoPath path \<Rightarrow>
          (case WebRtcAecm_InitEchoPath (Some a) (Some path) WebRtcAecm_echo_path_size_bytes of (a, r) \<Rightarrow> Some (the a, r)))"

fun aecm_session :: "AecMobile \<Rightarrow> aecm_call list \<Rightarrow> (AecMobile \<times> int list) option" where
  "aecm_session a [] = Some (a, [])"
| "aecm_session a (c # cs) =
     (case aecm_step a c of
        None \<Rightarrow> None
      | Some (a, r) \<Rightarrow> (case aecm_session a cs of None \<Rightarrow> None | Some (a, rs) \<Rightarrow> Some (a, r # rs)))"

definition samples_ok :: "int list \<Rightarrow> bool" where
  "samples_ok xs \<longleftrightarrow> (length xs = 80 \<or> length xs = 160) \<and> (\<forall>x \<in> set xs. is_i16 x)"

fun aecm_call_ok :: "bool \<Rightarrow> aecm_call \<Rightarrow> bool" where
  "aecm_call_ok c (Farend xs) = samples_ok xs"
| "aecm_call_ok c (Nearend noisy clean ms) = (samples_ok noisy \<and> (case clean of None \<Rightarrow> \<not> c | Some xs \<Rightarrow> c \<and> samples_ok xs \<and> length xs = length noisy))"
| "aecm_call_ok c (Configure cfg) = True"
| "aecm_call_ok c (EchoPath path) = array_of PART_LEN1 is_i16 path"

fun code_ok :: "aecm_call \<Rightarrow> int \<Rightarrow> bool" where
  "code_ok (Nearend noisy clean ms) r = (r = (if 0 \<le> ms \<and> ms \<le> 500 then 0 else AECM_BAD_PARAMETER_WARNING))"
| "code_ok (Configure cfg) r = (r = 0 \<or> r = AECM_BAD_PARAMETER_ERROR)"
| "code_ok _ r = (r = 0)"

lemma aecm_step_ok:
  assumes "instance_ok c mu n a" "aecm_call_ok c call"
  shows "\<exists>a' r n'. aecm_step a call = Some (a', r) \<and> code_ok call r \<and> instance_ok c mu n' a'"
proof (cases call)
  case (Farend xs)
  then show ?thesis using BufferFarend_ok [OF assms(1), of xs] assms(2) by (auto simp: aecm_step_def samples_ok_def)
next
  case (Nearend noisy clean ms)
  let ?m = "length noisy"
  have a: "?m = 80 \<or> ?m = 160" "array_of ?m is_i16 noisy" "clean \<noteq> None \<longrightarrow> array_of ?m is_i16 (the clean)" "(clean \<noteq> None) = c"
    using assms(2) Nearend by (cases clean; simp add: samples_ok_def array_of_def)+
  have z: "array_of ?m is_i16 (replicate ?m 0)" by (rule array_of_replicate) simp
  from Process_ok [OF assms(1) [folded a(4)] a(1-3) z, of ms]
  show ?thesis unfolding a(4) by (auto simp: aecm_step_def Nearend)
next
  case (Configure cfg)
  then show ?thesis using set_config_ok [OF assms(1), of cfg] by (auto simp: aecm_step_def)
next
  case (EchoPath path)
  have "core_ok (aecmCore a)" "initFlag_aecm a = kInitCheck_aecm" using assms(1) by (simp_all add: instance_ok_def)
  moreover have "array_of PART_LEN1 is_i16 path" using assms(2) EchoPath by simp
  ultimately have "instance_ok c mu n (a\<lparr>aecmCore := WebRtcAecm_InitEchoPathCore (aecmCore a) path\<rparr>)"
    by (intro instance_ok_core [OF assms(1)] InitEchoPathCore_ok)
  then show ?thesis using \<open>initFlag_aecm a = kInitCheck_aecm\<close> by (auto simp: aecm_step_def EchoPath WebRtcAecm_InitEchoPath_def)
qed

lemma aecm_session_ok:
  assumes "instance_ok c mu n a" "\<forall>call \<in> set calls. aecm_call_ok c call"
  shows "\<exists>a' rs n'. aecm_session a calls = Some (a', rs) \<and> list_all2 code_ok calls rs \<and> instance_ok c mu n' a'"
  using assms
proof (induction calls arbitrary: a n)
  case (Cons call calls)
  obtain a1 r n1 where s: "aecm_step a call = Some (a1, r)" "code_ok call r" "instance_ok c mu n1 a1"
    using aecm_step_ok [OF Cons.prems(1), of call] Cons.prems(2) by auto
  from Cons.IH [OF s(3)] Cons.prems(2) s(1,2) show ?case by auto
qed auto

section \<open>Initialisation\<close>

definition instance_memory :: "AecMobile \<Rightarrow> bool" where
  "instance_memory a \<longleftrightarrow> core_memory (aecmCore a) \<and> frame_memory (aecmCore a) \<and>
     element_size (farendBuf a) = 2 \<and> element_count (farendBuf a) = kBufSizeSamp \<and> length (data (farendBuf a)) = 2 * kBufSizeSamp \<and>
     length (farendOld a) = 2 \<and> (\<forall>x \<in> set (farendOld a). array_of FRAME_LEN is_i16 x)"

lemma Init_ok:
  assumes "instance_memory mem" "WebRtcAecm_Init (Some mem) fs = (Some a, 0)"
  shows "instance_ok c (fs div 8000) 0 a" "ECstartup a = 1" "checkBuffSize a = 1" "counter a = 0" "checkBufSizeCtr a = 0"
    "bufSizeStart a = 0" "sum_inst a = 0"
proof -
  have fs: "fs = 8000 \<or> fs = 16000" using assms(2) by (auto simp: WebRtcAecm_Init_def AECM_BAD_PARAMETER_ERROR_def split: if_splits)
  obtain core where i: "WebRtcAecm_InitCore (aecmCore mem) fs = (core, 0)" using fs by (simp add: InitCore_eq)
  note M = assms(1) [unfolded instance_memory_def]
  have core: "core_ok core" "queues_ok c 0 0 core" "line_ok (0, c_div (to_i16 fs) 8000) core"
    using AecmInitCore_ok(1) [OF _ i] InitCore_frames [OF _ i] M by simp_all
  have m: "c_div (to_i16 fs) 8000 = fs div 8000" "fs div 8000 = 1 \<or> fs div 8000 = 2" using fs by (auto simp: to_i16_id is_i16_def c_div_pos)
  define b where "b = mem\<lparr>sampFreq := fs, aecmCore := core, farendBuf := WebRtc_InitBuffer (farendBuf mem), initFlag_aecm := kInitCheck_aecm,
                       delayChange := 1, sum_inst := 0, counter := 0, checkBuffSize := 1, firstVal := 0, ECstartup := 1,
                       bufSizeStart := 0, checkBufSizeCtr := 0, filtDelay := 0, timeForDelayChange := 0,
                       knownDelay_inst := 0, lastDelayDiff := 0,
                       farendOld := (farendOld mem)[0 := replicate FRAME_LEN 0]\<rparr>"
  have "array_of FRAME_LEN is_i16 (replicate FRAME_LEN 0)" by (rule array_of_replicate) simp
  then have o: "\<forall>x \<in> set ((farendOld mem)[0 := replicate FRAME_LEN 0]). array_of FRAME_LEN is_i16 x"
    using M set_update_subset_insert [of "farendOld mem" 0] by blast
  have r: "rb_inv (WebRtc_InitBuffer (farendBuf mem))" using M
    by (simp add: rb_inv_def WebRtc_InitBuffer_def blit_def sz_mul_def kBufSizeSamp_def BUF_SIZE_FRAMES_def FRAME_LEN_def)
  have "instance_ok c (fs div 8000) 0 b" using core m M o r start_queues [OF core(2)]
    by (auto simp: instance_ok_def b_def queue_of_def WebRtc_InitBuffer_def)
  moreover from set_config_ok [OF this, of "\<lparr>cngMode_cfg = AecmTrue, echoMode_cfg = 3\<rparr>"]
  obtain a' where a': "WebRtcAecm_set_config (Some b) \<lparr>cngMode_cfg = AecmTrue, echoMode_cfg = 3\<rparr> = (Some a', 0)" "instance_ok c (fs div 8000) 0 a'"
    using \<open>instance_ok c (fs div 8000) 0 b\<close> by (auto simp: WebRtcAecm_set_config_def Let_def AECM_BAD_PARAMETER_ERROR_def instance_ok_def)
  have "WebRtcAecm_Init (Some mem) fs = (Some a', 0)"
    using fs i a'(1) by (auto simp: WebRtcAecm_Init_def Let_def b_def)
  then have e: "a = a'" using assms(2) by simp
  show "instance_ok c (fs div 8000) 0 a" using a'(2) by (simp add: e)
  show "ECstartup a = 1" "checkBuffSize a = 1" "counter a = 0" "checkBufSizeCtr a = 0" "bufSizeStart a = 0" "sum_inst a = 0"
    using a'(1) by (auto simp: e WebRtcAecm_set_config_def b_def Let_def split: if_splits)
qed

section \<open>The end of the start-up\<close>

definition startup_part :: "AecMobile \<Rightarrow> int \<times> int \<times> int \<times> int \<times> int \<times> int" where
  "startup_part a = (ECstartup a, checkBuffSize a, bufSizeStart a, checkBufSizeCtr a, counter a, sum_inst a)"

lemma startup_part_untouched [simp]:
  "startup_part (a\<lparr>farendBuf := b\<rparr>) = startup_part a" "startup_part (a\<lparr>farendOld := old\<rparr>) = startup_part a"
  "startup_part (a\<lparr>aecmCore := core\<rparr>) = startup_part a" "startup_part (a\<lparr>filtDelay := v0\<rparr>) = startup_part a"
  "startup_part (a\<lparr>timeForDelayChange := v1\<rparr>) = startup_part a" "startup_part (a\<lparr>lastDelayDiff := v2\<rparr>) = startup_part a"
  "startup_part (a\<lparr>knownDelay_inst := v3\<rparr>) = startup_part a" "startup_part (a\<lparr>delayChange := v4\<rparr>) = startup_part a"
  "startup_part (a\<lparr>echoMode := v5\<rparr>) = startup_part a" "startup_part (a\<lparr>msInSndCardBuf := v6\<rparr>) = startup_part a"
  by (simp_all add: startup_part_def)

lemma startup_part_count [simp]: "startup_part (count_delay_change a d) = startup_part a"
  by (simp add: count_delay_change_def)

lemma startup_part_EstBufDelay [simp]: "startup_part (WebRtcAecm_EstBufDelay a ms) = startup_part a"
proof -
  let ?new = "to_i16 (to_i16 (ms * kSampMsNb * mult (aecmCore a)) - to_i16 (int (WebRtc_available_read (Some (farendBuf a)))))"
  let ?moved = "a\<lparr>farendBuf := the (fst (WebRtc_MoveReadPtr (Some (farendBuf a)) (int FRAME_LEN)))\<rparr>"
  obtain b d where b: "(if ?new < int FRAME_LEN then (?moved, to_i16 (?new + int FRAME_LEN)) else (a, ?new)) = (b, d)" by fastforce
  then have "startup_part b = startup_part a" by (auto split: if_splits)
  then show ?thesis unfolding WebRtcAecm_EstBufDelay_def Let_def b prod.case by simp
qed

lemma cancel_frame_startup: "cancel_frame a noisy clean i out = Some (a', out', r) \<Longrightarrow> startup_part a' = startup_part a"
  by (auto simp: cancel_frame_def next_far_frame_def Let_def split: option.splits if_splits prod.splits)

lemma cancel_frames_startup: "cancel_frames a noisy clean is out = Some (a', out', r) \<Longrightarrow> startup_part a' = startup_part a"
proof (induction "is" arbitrary: a out)
  case (Cons i "is")
  then show ?case by (auto split: option.splits prod.splits if_splits dest!: cancel_frame_startup)
qed simp

lemma BufferFarend_startup: "WebRtcAecm_BufferFarend (Some a) far n = (Some a', r) \<Longrightarrow> startup_part a' = startup_part a"
  by (auto simp: WebRtcAecm_BufferFarend_def WebRtcAecm_DelayComp_def Let_def split: if_splits)

lemma set_config_startup: "WebRtcAecm_set_config (Some a) cfg = (Some a', r) \<Longrightarrow> startup_part a' = startup_part a"
  by (auto simp: WebRtcAecm_set_config_def Let_def split: if_splits)

lemma size_product_1 [simp]: "0 \<le> x \<Longrightarrow> x < 2 ^ 64 \<Longrightarrow> size_product x (Suc 0) = x"
  and size_product_0 [simp]: "size_product x 0 = 0"
  by (simp_all add: size_product_def)

text \<open>The check has ended, or it has been made in \<open>k\<close> calls.\<close>

definition checked :: "nat \<Rightarrow> AecMobile \<Rightarrow> bool" where
  "checked k a \<longleftrightarrow> (case startup_part a of (e, chk, start, ctr, cnt, s) \<Rightarrow>
     chk = 0 \<and> start \<le> BUF_SIZE_FRAMES \<or>
     chk = 1 \<and> e = 1 \<and> ctr = int k \<and> k \<le> 50 \<and> 0 \<le> cnt \<and> cnt \<le> 5 \<and> 0 \<le> s \<and> (cnt \<noteq> 0 \<longrightarrow> s \<le> 510 * cnt))"

lemma checked_cong: "startup_part a' = startup_part a \<Longrightarrow> checked k a \<Longrightarrow> checked k a'"
  by (simp add: checked_def)

lemma start_size_bound:
  assumes "0 \<le> x" "0 < y" shows "to_i16 (min (c_div x y) BUF_SIZE_FRAMES) \<le> BUF_SIZE_FRAMES"
proof -
  have "0 \<le> c_div x y" using assms by (simp add: c_div_pos pos_imp_zdiv_nonneg_iff)
  then have "to_i16 (min (c_div x y) BUF_SIZE_FRAMES) = min (c_div x y) BUF_SIZE_FRAMES"
    by (simp add: to_i16_id is_i16_def BUF_SIZE_FRAMES_def min_def)
  then show ?thesis by simp
qed

lemma check_buffer_size_counts:
  assumes "checked k a" "checkBuffSize a \<noteq> 0" "10 \<le> msInSndCardBuf a" "msInSndCardBuf a \<le> 510" "0 \<le> mult (aecmCore a)"
  shows "checked (Suc k) (check_buffer_size a 1)"
proof -
  let ?ms = "msInSndCardBuf a"
  have a: "checkBuffSize a = 1" "ECstartup a = 1" "checkBufSizeCtr a = int k" "k \<le> 50" "0 \<le> counter a" "counter a \<le> 5" "0 \<le> sum_inst a"
      "counter a \<noteq> 0 \<Longrightarrow> sum_inst a \<le> 510 * counter a"
    using assms(1,2) by (simp_all add: checked_def startup_part_def)
  define a0 where "a0 = a\<lparr>checkBufSizeCtr := to_i16 (checkBufSizeCtr a + 1)\<rparr>"
  define b where "b = sum_stable_delays a0"
  define b' where "b' = (if size_product (counter b) 1 \<ge> 6 then b\<lparr>bufSizeStart := to_i16 (min (c_div (3 * sum_inst b * mult (aecmCore b)) (counter b * 40))
      BUF_SIZE_FRAMES), checkBuffSize := 0\<rparr> else b)"
  have t: "to_i16 (int k + 1) = int k + 1" "to_i16 (counter a + 1) = counter a + 1" "to_i16 ?ms = ?ms"
      "counter a \<noteq> 0 \<Longrightarrow> to_i16 (sum_inst a + ?ms) = sum_inst a + ?ms"
    using a assms(3,4) by (simp_all add: to_i16_id is_i16_def)
  have keep: "msInSndCardBuf (sum_stable_delays x) = msInSndCardBuf x" "aecmCore (sum_stable_delays x) = aecmCore x"
    "checkBufSizeCtr (sum_stable_delays x) = checkBufSizeCtr x" "checkBuffSize (sum_stable_delays x) = checkBuffSize x"
    "ECstartup (sum_stable_delays x) = ECstartup x" for x
    by (simp_all add: sum_stable_delays_def Let_def)
  have bc: "0 \<le> counter b \<and> counter b \<le> 6 \<and> 0 \<le> sum_inst b \<and> (counter b \<noteq> 0 \<longrightarrow> sum_inst b \<le> 510 * counter b)"
  proof (cases "counter a = 0")
    case True
    then show ?thesis using t assms(3,4) by (simp add: b_def a0_def sum_stable_delays_def Let_def)
  next
    case False
    then show ?thesis using t a(5-8) assms(3,4) by (simp add: b_def a0_def sum_stable_delays_def Let_def)
  qed
  then have bc: "0 \<le> counter b" "counter b \<le> 6" "0 \<le> sum_inst b" "counter b \<noteq> 0 \<longrightarrow> sum_inst b \<le> 510 * counter b"
      "checkBufSizeCtr b = int k + 1" "mult (aecmCore b) = mult (aecmCore a)" "checkBuffSize b = 1" "ECstartup b = 1" "msInSndCardBuf b = ?ms"
    using a t(1) by (simp_all add: b_def a0_def keep)
  have cb: "check_buffer_size a 1 = (if size_product (checkBufSizeCtr b') 1 > 50
      then b'\<lparr>bufSizeStart := to_i16 (min (c_div (3 * ?ms * mult (aecmCore b')) 40) BUF_SIZE_FRAMES), checkBuffSize := 0\<rparr> else b')"
    using bc(9) unfolding check_buffer_size_def Let_def a0_def [symmetric] b_def [symmetric] b'_def [symmetric] by (simp add: b'_def)
  have b': "checkBufSizeCtr b' = int k + 1" "mult (aecmCore b') = mult (aecmCore a)" by (simp_all add: b'_def bc(5,6))
  show ?thesis
  proof (cases "int k + 1 > 50")
    case True
    then have "bufSizeStart (check_buffer_size a 1) \<le> BUF_SIZE_FRAMES" "checkBuffSize (check_buffer_size a 1) = 0"
      using start_size_bound [of "3 * ?ms * mult (aecmCore a)" 40] assms(3,5) a(4) unfolding cb b' by simp_all
    then show ?thesis by (simp add: checked_def startup_part_def)
  next
    case False
    then have e: "check_buffer_size a 1 = b'" using b' a(4) unfolding cb by simp
    show ?thesis
    proof (cases "counter b \<ge> 6")
      case True
      then have "bufSizeStart b' \<le> BUF_SIZE_FRAMES" "checkBuffSize b' = 0"
        using start_size_bound [of "3 * sum_inst b * mult (aecmCore b)" "counter b * 40"] bc assms(5) by (simp_all add: b'_def)
      then show ?thesis unfolding e by (simp add: checked_def startup_part_def)
    next
      case False
      then have "b' = b" using bc by (simp add: b'_def)
      then show ?thesis using False \<open>\<not> int k + 1 > 50\<close> bc unfolding e by (simp add: checked_def startup_part_def)
    qed
  qed
qed

lemma startup_step_counts:
  assumes "checked k a" "10 \<le> msInSndCardBuf a" "msInSndCardBuf a \<le> 510" "0 \<le> mult (aecmCore a)"
  shows "checked (Suc k) (startup_step a 1)"
proof -
  define b where "b = (if checkBuffSize a \<noteq> 0 then check_buffer_size a 1 else a)"
  have b: "checked (Suc k) b"
    using check_buffer_size_counts [OF assms(1) _ assms(2-4)] assms(1) by (auto simp: b_def checked_def startup_part_def)
  then show ?thesis unfolding startup_step_def Let_def b_def [symmetric] by (auto simp: checked_def startup_part_def)
qed

text \<open>With the check done, the start-up ends when the far-end buffer holds the required frames.\<close>

lemma startup_step_enables:
  assumes "instance_ok c mu n a" "checkBuffSize a = 0" "bufSizeStart a * 80 \<le> int (WebRtc_available_read (Some (farendBuf a)))"
  shows "ECstartup (startup_step a k) = 0"
proof -
  let ?k = "length (queue_samples (farendBuf a))"
  have k: "?k \<le> 4000" by (rule far_fill_bound [OF assms(1)])
  have "0 \<le> int ?k div 80 \<and> int ?k div 80 \<le> 50" using k zdiv_mono1 [of "int ?k" 4000 80] by simp
  then have "to_i16 (c_div (to_i16 (int ?k)) (int FRAME_LEN)) = int ?k div 80"
    using k by (simp add: to_i16_id is_i16_def c_div_pos FRAME_LEN_def)
  moreover have "bufSizeStart a \<le> int ?k div 80" using assms(3) by (simp add: far_fill [OF assms(1)])
  ultimately show ?thesis using assms(2) by (simp add: startup_step_def far_fill [OF assms(1)] Let_def)
qed

text \<open>A call with one block of 10 ms counts, the other calls do not.\<close>

definition block_calls :: "aecm_call list \<Rightarrow> nat" where
  "block_calls calls = length (filter (\<lambda>c. case c of Nearend noisy clean ms \<Rightarrow> True | _ \<Rightarrow> False) calls)"

definition one_block :: "int \<Rightarrow> aecm_call \<Rightarrow> bool" where
  "one_block mu c = (case c of Nearend noisy clean ms \<Rightarrow> int (length noisy) = 80 * mu | _ \<Rightarrow> True)"

lemma Process_startup:
  assumes "instance_ok c mu n a" "m = 80 \<or> m = 160" "WebRtcAecm_Process (Some a) (Some noisy) clean (Some out) m ms = Some (Some a', out', r)"
  shows "startup_part a' = startup_part a \<and> ECstartup a = 0 \<or>
    (\<exists>b. a' = startup_step b (m div FRAME_LEN div nat mu) \<and> startup_part b = startup_part a \<and> mult (aecmCore b) = mu \<and> 10 \<le> msInSndCardBuf b \<and> msInSndCardBuf b \<le> 510)"
proof -
  have i: "initFlag_aecm a = kInitCheck_aecm" "mult (aecmCore a) = mu" "mu = 1 \<or> mu = 2" using assms(1) by (auto simp: instance_ok_def line_ok_def)
  define v where "v = (if ms < 0 then (0 :: int) else if ms > 500 then 500 else ms)"
  define b where "b = a\<lparr>msInSndCardBuf := to_i16 (v + 10)\<rparr>"
  have v: "to_i16 (v + 10) = v + 10" "0 \<le> v" "v \<le> 500" by (simp_all add: v_def to_i16_id is_i16_def)
  then have b: "startup_part b = startup_part a" "mult (aecmCore b) = mu" "10 \<le> msInSndCardBuf b" "msInSndCardBuf b \<le> 510"
    using i(2) by (simp_all add: b_def)
  show ?thesis
  proof (cases "ECstartup a = 0")
    case True
    then have "\<exists>is. \<exists>o' r'. cancel_frames b noisy clean is out = Some (a', o', r')"
      using assms(2,3) i(1) by (auto simp: WebRtcAecm_Process_def b_def v_def Let_def split: option.splits prod.splits if_splits)
    then show ?thesis using True b(1) cancel_frames_startup by metis
  next
    case False
    then have "a' = startup_step b (m div FRAME_LEN div nat mu)"
      using assms(2,3) i(1,2) by (auto simp: WebRtcAecm_Process_def b_def v_def Let_def split: option.splits prod.splits if_splits)
    then show ?thesis using b by blast
  qed
qed

lemma aecm_step_counts:
  assumes "instance_ok c mu n a" "aecm_call_ok c call" "one_block mu call" "checked k a" "aecm_step a call = Some (a', r)"
  shows "checked (k + block_calls [call]) a'"
proof (cases call)
  case (Farend xs)
  obtain b where b: "WebRtcAecm_BufferFarend (Some a) (Some xs) (length xs) = (Some b, 0)"
    using BufferFarend_ok [OF assms(1), of xs] assms(2) Farend by (auto simp: samples_ok_def)
  then have "a' = b" using assms(5) by (simp add: aecm_step_def Farend)
  then show ?thesis using checked_cong [OF BufferFarend_startup [OF b] assms(4)] by (simp add: block_calls_def Farend)
next
  case (Nearend noisy clean ms)
  have m: "int (length noisy) = 80 * mu" using assms(3) by (simp add: one_block_def Nearend)
  let ?m = "length noisy"
  have a: "?m = 80 \<or> ?m = 160" "array_of ?m is_i16 noisy" "clean \<noteq> None \<longrightarrow> array_of ?m is_i16 (the clean)" "(clean \<noteq> None) = c"
    using assms(2) Nearend by (cases clean; simp add: samples_ok_def array_of_def)+
  have z: "array_of ?m is_i16 (replicate ?m 0)" by (rule array_of_replicate) simp
  from Process_ok [OF assms(1) [folded a(4)] a(1-3) z, of ms] obtain b out' s where
    b: "WebRtcAecm_Process (Some a) (Some noisy) clean (Some (replicate ?m 0)) ?m ms = Some (Some b, out', s)" by blast
  then have e: "a' = b" using assms(5) by (simp add: aecm_step_def Nearend)
  have mu: "mu = 1 \<or> mu = 2" using assms(1) by (simp add: instance_ok_def)
  then have n: "?m div FRAME_LEN div nat mu = 1" using m by (auto simp: FRAME_LEN_def)
  from Process_startup [OF assms(1) a(1) b, unfolded n] show ?thesis
  proof (elim disjE exE conjE)
    assume "startup_part b = startup_part a" "ECstartup a = 0"
    then show ?thesis using assms(4) by (simp add: e checked_def startup_part_def)
  next
    fix d assume d: "b = startup_step d 1" "startup_part d = startup_part a" "mult (aecmCore d) = mu" "10 \<le> msInSndCardBuf d" "msInSndCardBuf d \<le> 510"
    have "checked (Suc k) (startup_step d 1)" using checked_cong [OF d(2) assms(4)] d(3-5) mu by (intro startup_step_counts) auto
    then show ?thesis by (simp add: e d(1) block_calls_def Nearend)
  qed
next
  case (Configure cfg)
  obtain b s where b: "WebRtcAecm_set_config (Some a) cfg = (Some b, s)" using set_config_ok [OF assms(1)] by blast
  then have "a' = b" using assms(5) by (simp add: aecm_step_def Configure)
  then show ?thesis using checked_cong [OF set_config_startup [OF b] assms(4)] by (simp add: block_calls_def Configure)
next
  case (EchoPath path)
  have "initFlag_aecm a = kInitCheck_aecm" using assms(1) by (simp add: instance_ok_def)
  then have "startup_part a' = startup_part a" using assms(5) by (auto simp: aecm_step_def EchoPath WebRtcAecm_InitEchoPath_def)
  then show ?thesis using checked_cong [OF _ assms(4)] by (simp add: block_calls_def EchoPath)
qed

lemma aecm_session_counts:
  assumes "instance_ok c mu n a" "\<forall>call \<in> set calls. aecm_call_ok c call \<and> one_block mu call" "checked k a" "aecm_session a calls = Some (a', rs)"
  shows "checked (k + block_calls calls) a'"
  using assms
proof (induction calls arbitrary: a n k rs)
  case Nil
  then show ?case by (simp add: block_calls_def)
next
  case (Cons call calls)
  obtain a1 r n1 where s: "aecm_step a call = Some (a1, r)" "instance_ok c mu n1 a1"
    using aecm_step_ok [OF Cons.prems(1), of call] Cons.prems(2) by auto
  have k: "checked (k + block_calls [call]) a1"
    using aecm_step_counts [OF Cons.prems(1) _ _ Cons.prems(3) s(1)] Cons.prems(2) by simp
  obtain rs' where "aecm_session a1 calls = Some (a', rs')" using Cons.prems(4) s(1) by (auto split: option.splits)
  from Cons.IH [OF s(2) _ k this] Cons.prems(2) have "checked (k + block_calls [call] + block_calls calls) a'" by simp
  moreover have "block_calls (call # calls) = block_calls [call] + block_calls calls" by (simp add: block_calls_def)
  ultimately show ?case by (simp add: add.assoc)
qed

text \<open>With no whole block of 10 ms in a call the check never ends.\<close>

lemma startup_step_stays:
  assumes "ECstartup b = 1" "checkBuffSize b = 1"
  shows "ECstartup (startup_step b 0) = 1" "checkBuffSize (startup_step b 0) = 1"
  using assms by (simp_all add: startup_step_def check_buffer_size_def sum_stable_delays_def Let_def)

definition short_block :: "aecm_call \<Rightarrow> bool" where
  "short_block c = (case c of Nearend noisy clean ms \<Rightarrow> length noisy = 80 | _ \<Rightarrow> True)"

lemma aecm_step_stays:
  assumes "instance_ok c 2 n a" "aecm_call_ok c call" "short_block call" "ECstartup a = 1" "checkBuffSize a = 1" "aecm_step a call = Some (a', r)"
  shows "ECstartup a' = 1 \<and> checkBuffSize a' = 1"
proof (cases call)
  case (Farend xs)
  obtain b where b: "WebRtcAecm_BufferFarend (Some a) (Some xs) (length xs) = (Some b, 0)"
    using BufferFarend_ok [OF assms(1), of xs] assms(2) Farend by (auto simp: samples_ok_def)
  then have "a' = b" using assms(6) by (simp add: aecm_step_def Farend)
  then show ?thesis using BufferFarend_startup [OF b] assms(4,5) by (simp add: startup_part_def)
next
  case (Nearend noisy clean ms)
  have m: "length noisy = 80" using assms(3) by (simp add: short_block_def Nearend)
  have a: "array_of 80 is_i16 noisy" "clean \<noteq> None \<longrightarrow> array_of 80 is_i16 (the clean)" "(clean \<noteq> None) = c"
    using assms(2) Nearend m by (cases clean; simp add: samples_ok_def array_of_def)+
  have z: "array_of 80 is_i16 (replicate 80 0)" by (rule array_of_replicate) simp
  from Process_ok [OF assms(1) [folded a(3)] _ a(1,2) z, of ms] obtain b out' s where
    b: "WebRtcAecm_Process (Some a) (Some noisy) clean (Some (replicate 80 0)) 80 ms = Some (Some b, out', s)" by auto
  then have e: "a' = b" using assms(6) by (simp add: aecm_step_def Nearend m)
  have n: "80 div FRAME_LEN div nat 2 = 0" by (simp add: FRAME_LEN_def)
  from Process_startup [OF assms(1) _ b, unfolded n] assms(4)
  obtain d where d: "b = startup_step d 0" "startup_part d = startup_part a" by auto
  then show ?thesis using startup_step_stays [of d] assms(4,5) by (simp add: e startup_part_def)
next
  case (Configure cfg)
  obtain b s where b: "WebRtcAecm_set_config (Some a) cfg = (Some b, s)" using set_config_ok [OF assms(1)] by blast
  then have "a' = b" using assms(6) by (simp add: aecm_step_def Configure)
  then show ?thesis using set_config_startup [OF b] assms(4,5) by (simp add: startup_part_def)
next
  case (EchoPath path)
  have "initFlag_aecm a = kInitCheck_aecm" using assms(1) by (simp add: instance_ok_def)
  then show ?thesis using assms(4-6) by (auto simp: aecm_step_def EchoPath WebRtcAecm_InitEchoPath_def)
qed

lemma aecm_session_stays:
  assumes "instance_ok c 2 n a" "\<forall>call \<in> set calls. aecm_call_ok c call \<and> short_block call" "ECstartup a = 1" "checkBuffSize a = 1"
    "aecm_session a calls = Some (a', rs)"
  shows "ECstartup a' = 1"
  using assms
proof (induction calls arbitrary: a n rs)
  case (Cons call calls)
  obtain a1 r n1 where s: "aecm_step a call = Some (a1, r)" "instance_ok c 2 n1 a1"
    using aecm_step_ok [OF Cons.prems(1), of call] Cons.prems(2) by auto
  have k: "ECstartup a1 = 1" "checkBuffSize a1 = 1"
    using aecm_step_stays [OF Cons.prems(1) _ _ Cons.prems(3,4) s(1)] Cons.prems(2) by simp_all
  obtain rs' where "aecm_session a1 calls = Some (a', rs')" using Cons.prems(5) s(1) by (auto split: option.splits)
  from Cons.IH [OF s(2) _ k this] Cons.prems(2) show ?case by simp
qed simp

section \<open>Properties\<close>

definition zero_instance :: AecMobile where
  "zero_instance = \<lparr>sampFreq = 0, bufSizeStart = 0, knownDelay_inst = 0, farendOld = [replicate 80 0, replicate 80 7], initFlag_aecm = 0,
     counter = 0, sum_inst = 0, firstVal = 0, checkBufSizeCtr = 0, msInSndCardBuf = 0, filtDelay = 0, timeForDelayChange = 0,
     ECstartup = 0, checkBuffSize = 0, delayChange = 0, lastDelayDiff = 0, echoMode = 0,
     farendBuf = \<lparr>read_pos = 0, write_pos = 0, element_count = 4000, element_size = 2, rw_wrap = SAME_WRAP, data = replicate 8000 0\<rparr>,
     aecmCore = zero_memory\<rparr>"

lemma zero_instance_ok: "instance_memory zero_instance"
  by (simp add: instance_memory_def zero_instance_def zero_memory_ok zero_memory_frames kBufSizeSamp_def BUF_SIZE_FRAMES_def FRAME_LEN_def
      array_of_def is_i16_def)

lemma Init_returns:
  assumes "instance_memory mem" "fs = 8000 \<or> fs = 16000"
  shows "WebRtcAecm_Init (Some mem) fs = (Some (the (fst (WebRtcAecm_Init (Some mem) fs))), 0)"
proof -
  obtain core where "WebRtcAecm_InitCore (aecmCore mem) fs = (core, 0)" using assms(2) by (simp add: InitCore_eq)
  then show ?thesis using assms(2) by (auto simp: WebRtcAecm_Init_def WebRtcAecm_set_config_def Let_def AecmTrue_def AecmFalse_def)
qed

text \<open>C5: Every session of an initialised instance in which either all near-end calls bring a clean signal or none does, with
  blocks of 80 or 160 16-bit samples, goes through: whatever the order of far-end blocks, near-end blocks with any reported
  delay, configurations and echo paths, with full and empty far-end buffers, no queue is asked for more samples than it
  holds (the outcome \<open>None\<close>); a near-end call returns 0, or the warning when the delay is outside 0 to 500; a configuration
  is accepted or refused as a bad parameter; the core keeps its invariant. The restriction on the clean signal is needed: a
  clean signal that first comes later makes the core read past its queue. The result does not say that the far end used was
  delivered: where none arrived, a near-end call repeats the frame kept in \<open>farendOld\<close>, and the second of the two frames kept
  there is not cleared by \<open>WebRtcAecm_Init\<close>, so that it can be what the memory held before.\<close>

theorem aecm_session_total:
  assumes "instance_memory mem" "WebRtcAecm_Init (Some mem) fs = (Some a, 0)" "\<forall>call \<in> set calls. aecm_call_ok c call"
  shows "\<exists>a' rs. aecm_session a calls = Some (a', rs) \<and> list_all2 code_ok calls rs \<and> core_ok (aecmCore a')"
  using aecm_session_ok [OF Init_ok(1) [OF assms(1,2)] assms(3)] by (auto simp: instance_ok_def)

theorem aecm_session_total_witness:
  "\<exists>a' rs. aecm_session (the (fst (WebRtcAecm_Init (Some zero_instance) 16000)))
      [Farend (replicate 160 1000), Nearend (replicate 160 500) None 700, Configure \<lparr>cngMode_cfg = 0, echoMode_cfg = 4\<rparr>] = Some (a', rs) \<and>
    rs ! 1 = AECM_BAD_PARAMETER_WARNING"
proof -
  let ?calls = "[Farend (replicate 160 1000), Nearend (replicate 160 500) None 700, Configure \<lparr>cngMode_cfg = 0, echoMode_cfg = 4\<rparr>]"
  have "\<forall>call \<in> set ?calls. aecm_call_ok False call" by (simp add: samples_ok_def is_i16_def)
  from aecm_session_total [OF zero_instance_ok Init_returns [OF zero_instance_ok] this, of 16000]
  show ?thesis by (auto simp: list_all2_Cons1)
qed

text \<open>C9: The known delay does not reach the core: in no session (all its near-end calls with a clean signal, or all without)
  does any call store the delay the interface estimates
  (\<open>knownDelay\<close> of the instance) into the core, whose own \<open>knownDelay\<close>, the delay by which the far-end frames are
  fetched, is 0 after every sequence of calls.\<close>

theorem known_delay_never_used:
  assumes "instance_memory mem" "WebRtcAecm_Init (Some mem) fs = (Some a, 0)" "\<forall>call \<in> set calls. aecm_call_ok c call"
    and "aecm_session a calls = Some (a', rs)"
  shows "knownDelay (aecmCore a') = 0"
proof -
  obtain n where "instance_ok c (fs div 8000) n a'" using aecm_session_ok [OF Init_ok(1) [OF assms(1,2)] assms(3)] assms(4) by auto
  then show ?thesis by (rule instance_ok_known_delay)
qed

text \<open>A session in which the canceller leaves the start-up and processes: far end and near end alternate.\<close>

theorem known_delay_never_used_witness:
  "\<exists>a' rs. aecm_session (the (fst (WebRtcAecm_Init (Some zero_instance) 8000)))
      (concat (replicate 99 [Farend (replicate 80 1000), Nearend (replicate 80 500) None 400])) = Some (a', rs) \<and>
    knownDelay (aecmCore a') = 0"
proof -
  let ?calls = "concat (replicate 99 [Farend (replicate 80 1000), Nearend (replicate 80 500) None 400])"
  have c: "\<forall>call \<in> set ?calls. aecm_call_ok False call" by (simp add: samples_ok_def is_i16_def)
  note i = Init_returns [OF zero_instance_ok, of 8000, simplified]
  obtain a' rs n where s: "aecm_session (the (fst (WebRtcAecm_Init (Some zero_instance) 8000))) ?calls = Some (a', rs)"
    using aecm_session_ok [OF Init_ok(1) [OF zero_instance_ok i] c] by blast
  with known_delay_never_used [OF zero_instance_ok i c s] show ?thesis by blast
qed

text \<open>C6: The start-up ends: when the near-end calls come all with or all without a clean signal and each brings one block of 10 ms (80 samples at 8 kHz, 160 at 16 kHz), the check
  of the delay is over after at most 51 of them, whatever delays are reported and whatever calls come in between; the required
  size is at most the capacity of the far-end buffer, and the first near-end call that finds it filled enables the canceller.\<close>

theorem startup_ends:
  assumes "instance_memory mem" "WebRtcAecm_Init (Some mem) fs = (Some a, 0)"
    and "\<forall>call \<in> set calls. aecm_call_ok c call \<and> one_block (fs div 8000) call" "51 \<le> block_calls calls"
  shows "\<exists>a' rs. aecm_session a calls = Some (a', rs) \<and> checkBuffSize a' = 0 \<and> bufSizeStart a' \<le> BUF_SIZE_FRAMES \<and>
    (bufSizeStart a' * 80 \<le> int (WebRtc_available_read (Some (farendBuf a'))) \<longrightarrow> ECstartup (startup_step a' 1) = 0)"
proof -
  note i = Init_ok [OF assms(1,2)]
  obtain a' rs n where s: "aecm_session a calls = Some (a', rs)" "instance_ok c (fs div 8000) n a'"
    using aecm_session_ok [OF i(1)] assms(3) by blast
  have "checked 0 a" using i by (simp add: checked_def startup_part_def)
  from aecm_session_counts [OF i(1) assms(3) this s(1)] have "checkBuffSize a' = 0" "bufSizeStart a' \<le> BUF_SIZE_FRAMES"
    using assms(4) by (auto simp: checked_def startup_part_def)
  with s startup_step_enables [OF s(2)] show ?thesis by blast
qed

theorem startup_ends_witness:
  "\<exists>a' rs. aecm_session (the (fst (WebRtcAecm_Init (Some zero_instance) 8000)))
      (replicate 51 (Nearend (replicate 80 500) None 400)) = Some (a', rs) \<and> checkBuffSize a' = 0"
proof -
  let ?calls = "replicate 51 (Nearend (replicate 80 500) None 400)"
  have c: "\<forall>call \<in> set ?calls. aecm_call_ok False call \<and> one_block (8000 div 8000) call" "51 \<le> block_calls ?calls"
    by (simp_all add: samples_ok_def is_i16_def one_block_def block_calls_def)
  from startup_ends [OF zero_instance_ok Init_returns [OF zero_instance_ok, of 8000, simplified] c] show ?thesis by blast
qed

text \<open>C7: At 16 kHz the start-up never ends for calls with 80 samples, which the interface accepts: a call holds no whole block of
  10 ms, the counters are multiplied by 0, and every call copies the near end to the output, in every session whose near-end calls come all with or all without a clean
  signal.\<close>

theorem short_blocks_never_start:
  assumes "instance_memory mem" "WebRtcAecm_Init (Some mem) 16000 = (Some a, 0)"
    and "\<forall>call \<in> set calls. aecm_call_ok c call \<and> short_block call" "aecm_session a calls = Some (a', rs)"
    and "length noisy = 80" "length out = 80"
  shows "\<exists>b r. WebRtcAecm_Process (Some a') (Some noisy) None (Some out) 80 ms = Some (Some b, Some noisy, r) \<and> 0 \<le> r"
proof -
  note i = Init_ok [OF assms(1,2)]
  have i1: "instance_ok c 2 0 a" using i(1) [of c] by simp
  have e: "ECstartup a' = 1" using aecm_session_stays [OF i1 assms(3) _ _ assms(4)] i by (simp add: startup_part_def)
  obtain n where "instance_ok c 2 n a'" using aecm_session_ok [OF i1] assms(3,4) by force
  then have "initFlag_aecm a' = kInitCheck_aecm" by (simp add: instance_ok_def)
  moreover have "blit 0 (take 80 noisy) out = noisy" using assms(5,6) by (simp add: blit_def)
  ultimately show ?thesis using e by (simp add: WebRtcAecm_Process_def Let_def AECM_BAD_PARAMETER_WARNING_def)
qed

theorem short_blocks_never_start_witness:
  "\<exists>a' rs b r. aecm_session (the (fst (WebRtcAecm_Init (Some zero_instance) 16000)))
      (replicate 99 (Nearend (replicate 80 500) None 40)) = Some (a', rs) \<and>
    WebRtcAecm_Process (Some a') (Some (replicate 80 500)) None (Some (replicate 80 0)) 80 40 = Some (Some b, Some (replicate 80 500), r)"
proof -
  let ?calls = "replicate 99 (Nearend (replicate 80 500) None 40)"
  have c: "\<forall>call \<in> set ?calls. aecm_call_ok False call \<and> short_block call" by (simp add: samples_ok_def is_i16_def short_block_def)
  note i = Init_returns [OF zero_instance_ok, of 16000, simplified]
  obtain a' rs where s: "aecm_session (the (fst (WebRtcAecm_Init (Some zero_instance) 16000))) ?calls = Some (a', rs)"
    using aecm_session_ok [OF Init_ok(1) [OF zero_instance_ok i], of ?calls False] c by blast
  from short_blocks_never_start [OF zero_instance_ok i c s, of "replicate 80 500" "replicate 80 0" 40] s show ?thesis by auto
qed

text \<open>C8: The echo path survives the round trip: in every session (its near-end calls all with or all without a clean signal) \<open>WebRtcAecm_GetEchoPath\<close> after \<open>WebRtcAecm_InitEchoPath\<close> returns
  the path that was set; both refuse every size but that of 65 samples, without a change.\<close>

theorem echo_path_round_trip:
  assumes "instance_memory mem" "WebRtcAecm_Init (Some mem) fs = (Some a, 0)" "\<forall>call \<in> set calls. aecm_call_ok c call"
    and "array_of PART_LEN1 is_i16 path" "length dst = PART_LEN1"
  shows "\<exists>a' rs b. aecm_session a calls = Some (a', rs) \<and>
    WebRtcAecm_InitEchoPath (Some a') (Some path) sz = (if sz = 130 then (Some b, 0) else (Some a', AECM_BAD_PARAMETER_ERROR)) \<and>
    WebRtcAecm_GetEchoPath (Some b) (Some dst) sz = (if sz = 130 then (Some path, 0) else (Some dst, AECM_BAD_PARAMETER_ERROR))"
proof -
  obtain a' rs n where s: "aecm_session a calls = Some (a', rs)" "instance_ok c (fs div 8000) n a'"
    using aecm_session_ok [OF Init_ok(1) [OF assms(1,2)] assms(3)] by blast
  have k: "core_ok (aecmCore a')" "initFlag_aecm a' = kInitCheck_aecm" using s(2) by (simp_all add: instance_ok_def)
  have sz: "WebRtcAecm_echo_path_size_bytes = 130" by (simp add: WebRtcAecm_echo_path_size_bytes_def aecm_sizes)
  define b where "b = a'\<lparr>aecmCore := WebRtcAecm_InitEchoPathCore (aecmCore a') path\<rparr>"
  have "length path = 65" "length dst = 65" using assms(4,5) by (simp_all add: array_of_def aecm_sizes)
  then have "blit 0 (take (130 div 2) (channelStored (aecmCore b))) dst = path"
    using InitEchoPathCore_ok(3) [OF k(1) assms(4)] by (simp add: b_def blit_def)
  then show ?thesis using s(1) k(2)
    by (intro exI [of _ a'] exI [of _ rs] exI [of _ b]) (simp add: WebRtcAecm_InitEchoPath_def WebRtcAecm_GetEchoPath_def sz b_def)
qed

theorem echo_path_round_trip_witness:
  "\<exists>a' rs b. aecm_session (the (fst (WebRtcAecm_Init (Some zero_instance) 8000))) [Farend (replicate 80 3)] = Some (a', rs) \<and>
    WebRtcAecm_InitEchoPath (Some a') (Some (replicate 65 9)) 130 = (Some b, 0) \<and>
    WebRtcAecm_GetEchoPath (Some b) (Some (replicate 65 0)) 130 = (Some (replicate 65 9), 0)"
proof -
  have c: "\<forall>call \<in> set [Farend (replicate 80 3)]. aecm_call_ok False call" by (simp add: samples_ok_def is_i16_def)
  have p: "array_of PART_LEN1 is_i16 (replicate 65 9)" "length (replicate 65 (0 :: int)) = PART_LEN1"
    by (simp_all add: array_of_def is_i16_def aecm_sizes)
  from echo_path_round_trip [OF zero_instance_ok Init_returns [OF zero_instance_ok, of 8000, simplified] c p, of 130]
  show ?thesis by simp
qed

text \<open>A refused echo mode has already changed the comfort noise mode.\<close>

lemma refused_config_changes_noise:
  assumes "initFlag_aecm a = kInitCheck_aecm" "cngMode_cfg cfg = AecmFalse \<or> cngMode_cfg cfg = AecmTrue" "echoMode_cfg cfg > 4"
  shows "WebRtcAecm_set_config (Some a) cfg =
    (Some (a\<lparr>aecmCore := (aecmCore a)\<lparr>cngMode := cngMode_cfg cfg\<rparr>\<rparr>), AECM_BAD_PARAMETER_ERROR)"
  using assms by (auto simp: WebRtcAecm_set_config_def Let_def)

end
