(* ===== verification/AgcVad.thy ===== *)
theory AgcVad
  imports SplKernels
begin

text \<open>
  The voice activity measure of the gain control (\<open>agc/legacy/digital_agc.h\<close>, \<open>digital_agc.c\<close>): a frame of
  10 ms is brought down to 4 kHz, high-pass filtered, its energy turned into a level in dB, and the level
  compared with its short-term and long-term statistics.
\<close>

section \<open>State\<close>

record AgcVad =
  downState :: "int list"
  HPstate :: int
  counter :: int
  logRatio :: int
  meanLongTerm :: int
  varianceLongTerm :: int
  stdLongTerm :: int
  meanShortTerm :: int
  varianceShortTerm :: int
  stdShortTerm :: int

definition kAvgDecayTime :: int where "kAvgDecayTime = 250"

definition WebRtcAgc_InitVad :: "AgcVad \<Rightarrow> AgcVad" where
  "WebRtcAgc_InitVad state = state\<lparr>HPstate := 0, logRatio := 0, meanLongTerm := shl 15 10,
     varianceLongTerm := shl 500 8, stdLongTerm := 0, meanShortTerm := shl 15 10,
     varianceShortTerm := shl 500 8, stdShortTerm := 0, counter := 3, downState := replicate 8 0\<rparr>"

section \<open>Energy of a frame\<close>

text \<open>One sub-frame of 1 ms, on \<open>(downState, HPstate, nrg)\<close>: 16 samples are averaged in pairs first.\<close>

definition vad_highpass :: "int \<Rightarrow> int \<times> int \<Rightarrow> int \<times> int" where
  "vad_highpass x s =
     (let (hp, nrg) = s;
          out = x + hp;
          hp = to_i16 (shr (to_i32 (600 * out)) 10 - x)
      in (hp, to_i32 (nrg + shr (to_i32 (out * out)) 6)))"

definition vad_subframe :: "int list \<Rightarrow> nat \<Rightarrow> nat \<Rightarrow> int list \<times> int \<times> int \<Rightarrow> int list \<times> int \<times> int" where
  "vad_subframe in_data nrSamples subfr s =
     (let (ds, hp, nrg) = s;
          (buf2, ds) = (if nrSamples = 160
            then WebRtcSpl_DownsampleBy2
                   (map (\<lambda>k. to_i16 (shr (in_data ! (16 * subfr + 2 * k) + in_data ! (16 * subfr + 2 * k + 1)) 1)) [0..<8]) 8 ds
            else WebRtcSpl_DownsampleBy2 (drop (8 * subfr) in_data) 8 ds);
          (hp, nrg) = fold (\<lambda>k. vad_highpass (buf2 ! k)) [0..<4] (hp, nrg)
      in (ds, hp, nrg))"

text \<open>The number of leading zeros, by bisection.\<close>

definition vad_zeros :: "int \<Rightarrow> int" where
  "vad_zeros nrg =
     (let n = to_u32 nrg;
          zeros = (if 0xFFFF0000 AND n = 0 then 16 else 0 :: nat);
          zeros = (if 0xFF000000 AND to_u32 (shl n zeros) = 0 then zeros + 8 else zeros);
          zeros = (if 0xF0000000 AND to_u32 (shl n zeros) = 0 then zeros + 4 else zeros);
          zeros = (if 0xC0000000 AND to_u32 (shl n zeros) = 0 then zeros + 2 else zeros);
          zeros = (if 0x80000000 AND to_u32 (shl n zeros) = 0 then zeros + 1 else zeros)
      in int zeros)"

section \<open>Statistics\<close>

definition vad_count :: "AgcVad \<Rightarrow> AgcVad" where
  "vad_count s = (if counter s < kAvgDecayTime then s\<lparr>counter := to_i16 (counter s + 1)\<rparr> else s)"

definition vad_short_term :: "int \<Rightarrow> AgcVad \<Rightarrow> AgcVad" where
  "vad_short_term dB s =
     (let s = s\<lparr>meanShortTerm := to_i16 (shr (to_i32 (meanShortTerm s * 15 + dB)) 4)\<rparr>;
          tmp32 = to_i32 (shr (dB * dB) 12 + varianceShortTerm s * 15);
          s = s\<lparr>varianceShortTerm := c_div tmp32 16\<rparr>;
          tmp32 = to_i32 (shl (varianceShortTerm s) 12 - meanShortTerm s * meanShortTerm s)
      in s\<lparr>stdShortTerm := to_i16 (WebRtcSpl_Sqrt tmp32)\<rparr>)"

definition vad_long_term :: "int \<Rightarrow> AgcVad \<Rightarrow> AgcVad" where
  "vad_long_term dB s =
     (let den = WebRtcSpl_AddSatW16 (counter s) 1;
          s = s\<lparr>meanLongTerm := WebRtcSpl_DivW32W16ResW16 (to_i32 (meanLongTerm s * counter s + dB)) den\<rparr>;
          tmp32 = to_i32 (shr (dB * dB) 12 + varianceLongTerm s * counter s);
          s = s\<lparr>varianceLongTerm := WebRtcSpl_DivW32W16 tmp32 den\<rparr>;
          tmp32 = to_i32 (shl (varianceLongTerm s) 12 - meanLongTerm s * meanLongTerm s)
      in s\<lparr>stdLongTerm := to_i16 (WebRtcSpl_Sqrt tmp32)\<rparr>)"

definition vad_log_ratio :: "int \<Rightarrow> AgcVad \<Rightarrow> AgcVad" where
  "vad_log_ratio dB s =
     (let tmp32 = to_i32 (shl 3 12 * to_i16 (dB - meanLongTerm s));
          tmp32 = WebRtcSpl_DivW32W16 tmp32 (stdLongTerm s);
          tmp32b = to_i32 (logRatio s * to_u16 (shl 13 12));
          tmp32 = to_i32 (tmp32 + shr tmp32b 10);
          r = to_i16 (shr tmp32 6);
          r = (if r > 2048 then 2048 else r);
          r = (if r < - 2048 then - 2048 else r)
      in s\<lparr>logRatio := r\<rparr>)"

definition WebRtcAgc_ProcessVad :: "AgcVad \<Rightarrow> int list \<Rightarrow> nat \<Rightarrow> int \<times> AgcVad" where
  "WebRtcAgc_ProcessVad state in_data nrSamples =
     (let (ds, hp, nrg) = fold (vad_subframe in_data nrSamples) [0..<10] (downState state, HPstate state, 0);
          state = state\<lparr>downState := ds, HPstate := hp\<rparr>;
          dB = to_i16 (shl (15 - vad_zeros nrg) 11);
          state = vad_log_ratio dB (vad_long_term dB (vad_short_term dB (vad_count state)))
      in (logRatio state, state))"

end
