(* ===== verification/AgcDigital.thy ===== *)
theory AgcDigital
  imports AgcVad
begin

text \<open>
  The digital part of the gain control (\<open>agc/legacy/digital_agc.h\<close>, \<open>digital_agc.c\<close>): the table that maps the
  level of the signal to a gain in Q16, two envelope followers, the gate that lowers the gain in silence, the limiter,
  and the interpolated gain applied to the ten sub-frames of 1 ms of a frame.

  \<open>None\<close> is an access outside a table, a division by zero, or a limiter loop that does not end.
\<close>

section \<open>State\<close>

record DigitalAgc =
  capacitorSlow :: int
  capacitorFast :: int
  gain :: int
  gainTable :: "int list"
  gatePrevious :: int
  agcMode :: int
  vadNearend :: AgcVad
  vadFarend :: AgcVad

definition kAgcModeUnchanged :: int where "kAgcModeUnchanged = 0"
definition kAgcModeAdaptiveAnalog :: int where "kAgcModeAdaptiveAnalog = 1"
definition kAgcModeAdaptiveDigital :: int where "kAgcModeAdaptiveDigital = 2"
definition kAgcModeFixedDigital :: int where "kAgcModeFixedDigital = 3"

definition AGC_MUL32 :: "int \<Rightarrow> int \<Rightarrow> int" where
  "AGC_MUL32 A B = to_i32 (to_i32 (shr B 13 * A) + shr (to_i32 ((0x1FFF AND B) * A)) 13)"

definition AGC_SCALEDIFF32 :: "int \<Rightarrow> int \<Rightarrow> int \<Rightarrow> int" where
  "AGC_SCALEDIFF32 A B C = to_i32 (C + to_i32 (shr B 16 * A) + shr (to_i32 ((0xFFFF AND B) * A)) 16)"

section \<open>Gain table\<close>

definition kGenFuncTable :: "int list" where
  "kGenFuncTable = [
  256, 485, 786, 1126, 1484, 1849, 2217, 2586, 2955, 3324, 3693, 4063, 4432, 4801, 5171, 5540,
  5909, 6279, 6648, 7017, 7387, 7756, 8125, 8495, 8864, 9233, 9603, 9972, 10341, 10711, 11080, 11449,
  11819, 12188, 12557, 12927, 13296, 13665, 14035, 14404, 14773, 15143, 15512, 15881, 16251, 16620, 16989, 17359,
  17728, 18097, 18466, 18836, 19205, 19574, 19944, 20313, 20682, 21052, 21421, 21790, 22160, 22529, 22898, 23268,
  23637, 24006, 24376, 24745, 25114, 25484, 25853, 26222, 26592, 26961, 27330, 27700, 28069, 28438, 28808, 29177,
  29546, 29916, 30285, 30654, 31024, 31393, 31762, 32132, 32501, 32870, 33240, 33609, 33978, 34348, 34717, 35086,
  35456, 35825, 36194, 36564, 36933, 37302, 37672, 38041, 38410, 38780, 39149, 39518, 39888, 40257, 40626, 40996,
  41365, 41734, 42104, 42473, 42842, 43212, 43581, 43950, 44320, 44689, 45058, 45428, 45797, 46166, 46536, 46905
  ]"

definition kLog10 :: int where "kLog10 = 54426"
definition kLog10_2 :: int where "kLog10_2 = 49321"
definition kLogE_1 :: int where "kLogE_1 = 23637"

text \<open>\<open>log2(1 + 2^x)\<close> in Q14 for an input level in Q14, by table and interpolation; \<open>None\<close> past the table.\<close>

definition gain_log_approx :: "int \<Rightarrow> int option" where
  "gain_log_approx inLevel =
     (let absInLevel = to_u32 (if inLevel \<ge> 0 then inLevel else - inLevel);
          intPart = nat (to_u16 (shr absInLevel 14));
          fracPart = absInLevel AND 0x3FFF
      in if intPart + 1 < length kGenFuncTable
         then let tmpU16 = to_u16 (kGenFuncTable ! (intPart + 1) - kGenFuncTable ! intPart);
                  tmpU32no1 = to_u32 (to_u32 (tmpU16 * fracPart) + to_u32 (shl (kGenFuncTable ! intPart) 14))
              in if inLevel < 0
                 then let zeros = nat (WebRtcSpl_NormU32 absInLevel);
                          (tmpU32no1, tmpU32no2, zerosScale) =
                            (if zeros < 15
                             then let t = to_u32 (shr absInLevel (15 - zeros) * kLogE_1)
                                  in if zeros < 9 then (shr tmpU32no1 (9 - zeros), t, 9 - zeros)
                                     else (tmpU32no1, shr t (zeros - 9), 0)
                             else (tmpU32no1, shr (to_u32 (absInLevel * kLogE_1)) 6, 0))
                      in Some (if tmpU32no2 < tmpU32no1 then shr (tmpU32no1 - tmpU32no2) (8 - zerosScale) else 0)
                 else Some (shr tmpU32no1 8)
         else None)"

text \<open>The gain \<open>2^(tmp32 + 16)\<close> in Q16 from an exponent in Q14, piecewise linear.\<close>

definition gain_power :: "int \<Rightarrow> int" where
  "gain_power tmp32 =
     (if tmp32 > 0
      then let intPart = to_u16 (to_i16 (shr tmp32 14));
               fracPart = to_u16 (tmp32 AND 0x3FFF);
               tmp32no2 = (if shr fracPart 13 \<noteq> 0
                 then shl 1 14 - shr (to_i32 ((shl 1 14 - fracPart) * to_i16 (shl 2 14 - 22817))) 13
                 else shr (to_i32 (fracPart * to_i16 (22817 - shl 1 14))) 13);
               fracPart = to_u16 tmp32no2
           in to_i32 (to_i32 (2 ^ nat intPart) + SPL_SHIFT_W32 fracPart (intPart - 14))
      else 0)"

definition gain_entry :: "int \<Rightarrow> int \<Rightarrow> int \<Rightarrow> int \<Rightarrow> int \<Rightarrow> int \<Rightarrow> nat \<Rightarrow> int option" where
  "gain_entry maxGain diffGain constMaxGain limiterEnable limiterIdx limiterLvl i =
     (let den = 20 * constMaxGain;
          tmp16 = to_i16 (2 * (int i - 1));
          tmp32 = to_i32 (tmp16 * kLog10_2 + 1);
          inLevel = to_i32 (diffGain * shl 1 14 - WebRtcSpl_DivW32W16 tmp32 3)
      in case gain_log_approx inLevel of None \<Rightarrow> None
         | Some logApprox \<Rightarrow>
             (let numFIX = to_i32 (to_i32 (maxGain * constMaxGain) * shl 1 6);
                  numFIX = to_i32 (numFIX - to_i32 (to_i32 logApprox * diffGain));
                  zeros = (if numFIX > shr den 8 \<or> - numFIX > shr den 8 then WebRtcSpl_NormW32 numFIX
                           else WebRtcSpl_NormW32 den + 8);
                  numFIX = to_i32 (numFIX * 2 ^ nat zeros);
                  tmp32no1 = SPL_SHIFT_W32 den (zeros - 9)
              in if tmp32no1 = 0 then None
                 else let y32 = to_i32 (c_div numFIX tmp32no1);
                          y32 = (if y32 \<ge> 0 then shr (to_i32 (y32 + 1)) 1 else - shr (to_i32 (- y32 + 1)) 1);
                          y32 = (if limiterEnable \<noteq> 0 \<and> int i < limiterIdx
                                 then WebRtcSpl_DivW32W16
                                        (to_i32 (to_i32 (to_i32 ((int i - 1) * kLog10_2) - to_i32 (limiterLvl * shl 1 14)) + 10)) 20
                                 else y32);
                          tmp32 = (if y32 > 39000 then shr (to_i32 (to_i32 (shr y32 1 * kLog10) + 4096)) 13
                                   else shr (to_i32 (to_i32 (y32 * kLog10) + 8192)) 14);
                          tmp32 = to_i32 (tmp32 + shl 16 14)
                      in Some (gain_power tmp32)))"

text \<open>All entries in turn; the first access outside a table ends the computation.\<close>

fun gain_entries :: "(nat \<Rightarrow> int option) \<Rightarrow> nat list \<Rightarrow> int list option" where
  "gain_entries f [] = Some []"
| "gain_entries f (i # is) =
     (case f i of None \<Rightarrow> None | Some g \<Rightarrow> map_option (\<lambda>gs. g # gs) (gain_entries f is))"

text \<open>The return value and the table. (\<open>zeroGainLvl\<close> of the code is never read; the limiter offset is 0.)\<close>

definition WebRtcAgc_CalculateGainTable ::
    "int list \<Rightarrow> int \<Rightarrow> int \<Rightarrow> int \<Rightarrow> int \<Rightarrow> (int \<times> int list) option" where
  "WebRtcAgc_CalculateGainTable table digCompGaindB targetLevelDbfs limiterEnable analogTarget =
     (let kCompRatio = 3; limiterOffset = 0;
          tmp32no1 = (digCompGaindB - analogTarget) * (kCompRatio - 1);
          tmp16no1 = to_i16 (analogTarget - targetLevelDbfs);
          tmp16no1 = to_i16 (tmp16no1 + WebRtcSpl_DivW32W16ResW16 (tmp32no1 + shr kCompRatio 1) kCompRatio);
          maxGain = to_i16 (if tmp16no1 > analogTarget - targetLevelDbfs then tmp16no1 else analogTarget - targetLevelDbfs);
          diffGain = WebRtcSpl_DivW32W16ResW16 (digCompGaindB * (kCompRatio - 1) + shr kCompRatio 1) kCompRatio
      in if diffGain < 0 \<or> diffGain \<ge> 128 then Some (- 1, table)
         else let limiterLvlX = to_i16 (analogTarget - limiterOffset);
                  limiterIdx = to_i16 (2 + WebRtcSpl_DivW32W16ResW16 (to_i32 (limiterLvlX * shl 1 13)) (c_div kLog10_2 2));
                  limiterLvl = targetLevelDbfs + WebRtcSpl_DivW32W16ResW16 (limiterOffset + shr kCompRatio 1) kCompRatio
              in map_option (Pair 0)
                   (gain_entries (gain_entry maxGain diffGain (kGenFuncTable ! nat diffGain) limiterEnable limiterIdx limiterLvl)
                      [0..<32]))"

section \<open>Initialisation and far end\<close>

definition WebRtcAgc_InitDigital :: "DigitalAgc \<Rightarrow> int \<Rightarrow> int \<times> DigitalAgc" where
  "WebRtcAgc_InitDigital stt mode =
     (let stt = stt\<lparr>capacitorSlow := (if mode = kAgcModeFixedDigital then 0 else 134217728)\<rparr>;
          stt = stt\<lparr>capacitorFast := 0, gain := 65536, gatePrevious := 0, agcMode := mode\<rparr>;
          stt = stt\<lparr>vadNearend := WebRtcAgc_InitVad (vadNearend stt)\<rparr>
      in (0, stt\<lparr>vadFarend := WebRtcAgc_InitVad (vadFarend stt)\<rparr>))"

definition WebRtcAgc_AddFarendToDigital :: "DigitalAgc \<Rightarrow> int list \<Rightarrow> nat \<Rightarrow> int \<times> DigitalAgc" where
  "WebRtcAgc_AddFarendToDigital stt in_far nrSamples =
     (0, stt\<lparr>vadFarend := snd (WebRtcAgc_ProcessVad (vadFarend stt) in_far nrSamples)\<rparr>)"

section \<open>Processing\<close>

text \<open>The decay of the slow envelope follower, from the activity measures.\<close>

definition digital_decay :: "DigitalAgc \<Rightarrow> int \<Rightarrow> int \<Rightarrow> int" where
  "digital_decay stt logratio lowlevelSignal =
     (let logratio = (if counter (vadFarend stt) > 10
            then to_i16 (shr (3 * logratio - logRatio (vadFarend stt)) 2) else logratio);
          upper_thr = 1024; lower_thr = 0;
          decay = (if logratio > upper_thr then - 65
                   else if logratio < lower_thr then 0
                   else to_i16 (shr ((lower_thr - logratio) * 65) 10))
      in if agcMode stt \<noteq> kAgcModeFixedDigital
         then let sl = stdLongTerm (vadNearend stt);
                  decay = (if sl < 4000 then 0
                           else if sl < 8096 then to_i16 (shr ((sl - 4000) * decay) 12) else decay)
              in if lowlevelSignal \<noteq> 0 then 0 else decay
         else decay)"

text \<open>The largest energy of a sample of sub-frame \<open>k\<close>.\<close>

definition envelope :: "nat \<Rightarrow> int list \<Rightarrow> nat \<Rightarrow> int" where
  "envelope L xs k =
     fold (\<lambda>n max_nrg. let nrg = xs ! (k * L + n) * xs ! (k * L + n) in if nrg > max_nrg then nrg else max_nrg) [0..<L] 0"

text \<open>The envelope followers, on \<open>(capacitorFast, capacitorSlow)\<close>, and the gain of a level by table and interpolation:
  the result is the gain with the position \<open>zeros\<close>, \<open>frac\<close> in the table.\<close>

definition follow_envelope :: "int \<Rightarrow> int \<Rightarrow> int \<times> int \<Rightarrow> int \<times> int" where
  "follow_envelope decay env s =
     (let (fast, slow) = s;
          fast = AGC_SCALEDIFF32 (- 1000) fast fast;
          fast = (if env > fast then env else fast);
          slow = (if env > slow then AGC_SCALEDIFF32 500 (to_i32 (env - slow)) slow
                  else AGC_SCALEDIFF32 decay slow slow)
      in (fast, slow))"

definition level_zeros :: "int \<Rightarrow> int" where
  "level_zeros x = (if x = 0 then 31 else WebRtcSpl_NormU32 (to_u32 x))"

definition level_mantissa :: "int \<Rightarrow> int" where
  "level_mantissa x = to_i32 (shl x (nat (level_zeros x))) AND 0x7FFFFFFF"

definition level_gain :: "int list \<Rightarrow> int \<Rightarrow> (int \<times> int \<times> int) option" where
  "level_gain table cur_level =
     (let zeros = level_zeros cur_level;
          frac = to_i16 (shr (level_mantissa cur_level) 19)
      in if 1 \<le> zeros \<and> zeros < int (length table)
         then let tmp32 = to_i32 (to_i32 (table ! nat (zeros - 1) - table ! nat zeros) * frac)
              in Some (to_i32 (table ! nat zeros + shr tmp32 12), zeros, frac)
         else None)"

text \<open>The gains of the sub-frames, with the position of the last level, and the capacitors after the frame.\<close>

fun subframe_gains :: "int list \<Rightarrow> int \<Rightarrow> int list \<Rightarrow> int \<times> int \<Rightarrow> int \<times> int
    \<Rightarrow> (int list \<times> (int \<times> int) \<times> int \<times> int) option" where
  "subframe_gains table decay [] s z = Some ([], s, z)"
| "subframe_gains table decay (env # envs) s z =
     (let s = follow_envelope decay env s
      in case level_gain table (if fst s > snd s then fst s else snd s) of None \<Rightarrow> None
         | Some (g, z) \<Rightarrow> map_option (\<lambda>(gs, s, z). (g # gs, s, z)) (subframe_gains table decay envs s z))"

text \<open>The gate, and what it does to a gain.\<close>

definition gate_value :: "int \<Rightarrow> int \<Rightarrow> int \<Rightarrow> int \<Rightarrow> int \<Rightarrow> int \<times> int" where
  "gate_value zeros frac fast std gatePrev =
     (let zeros = to_i16 (shl zeros 9 - shr frac 3);
          zeros_fast = to_i16 (shl (level_zeros fast) 9);
          zeros_fast = to_i16 (zeros_fast - to_i16 (shr (level_mantissa fast) 22));
          gate = to_i16 (1000 + zeros_fast - zeros - std)
      in if gate < 0 then (gate, 0)
         else let gate = to_i16 (shr (gate + gatePrev * 7) 3) in (gate, gate))"

definition gate_gain :: "int \<Rightarrow> int \<Rightarrow> int \<Rightarrow> int" where
  "gate_gain gate g0 g =
     (if gate > 0
      then let gain_adj = (if gate < 2500 then shr (2500 - gate) 5 else 0);
               tmp32 = (if to_i32 (g - g0) > 8388608
                        then to_i32 (shr (to_i32 (g - g0)) 8 * (178 + gain_adj))
                        else shr (to_i32 (to_i32 (g - g0) * (178 + gain_adj))) 8)
           in to_i32 (g0 + tmp32)
      else g)"

text \<open>The limiter: the gain is reduced by 0.1 dB until the energy of the sub-frame times its square stays
  below the threshold.\<close>

definition gain_square :: "int \<Rightarrow> int \<Rightarrow> int" where
  "gain_square zeros g = (let gain32 = to_i32 (shr g (nat zeros) + 1) in to_i32 (gain32 * gain32))"

partial_function (option) limit_loop :: "int \<Rightarrow> int \<Rightarrow> int \<Rightarrow> int option" where
  "limit_loop zeros env g =
     (if AGC_MUL32 (shr env 12 + 1) (gain_square zeros g) > SPL_SHIFT_W32 32767 (2 * (1 - zeros + 10))
      then limit_loop zeros env (if g > 8388607 then to_i32 (c_div g 256 * 253) else c_div (to_i32 (g * 253)) 256)
      else Some g)"

declare limit_loop.simps [code]

definition limit_gain :: "int \<Rightarrow> int \<Rightarrow> int option" where
  "limit_gain env g = limit_loop (if g > 47453132 then to_i16 (16 - WebRtcSpl_NormW32 g) else 10) env g"

fun limit_gains :: "int list \<Rightarrow> int list \<Rightarrow> int list option" where
  "limit_gains (env # envs) (g # gs) =
     (case limit_gain env g of None \<Rightarrow> None | Some g \<Rightarrow> map_option (\<lambda>gs. g # gs) (limit_gains envs gs))"
| "limit_gains envs gs = Some gs"

text \<open>A reduction takes effect one sub-frame earlier; \<open>gains[0]\<close> stays.\<close>

definition early_reductions :: "int list \<Rightarrow> int list" where
  "early_reductions gains =
     fold (\<lambda>k gains. if gains ! k > gains ! (k + 1) then gains[k := gains ! (k + 1)] else gains) [1..<10] gains"

text \<open>Applying the gain, in Q20 and interpolated over the sub-frame. In the first sub-frame the product is
  saturated; in the others the limiter has made sure that it fits.\<close>

definition first_sample :: "int \<Rightarrow> int \<Rightarrow> int" where
  "first_sample gain32 x =
     (let out_tmp = shr (to_i32 (x * shr (to_i32 (gain32 + 127)) 7)) 16
      in if out_tmp > 4095 then 32767
         else if out_tmp < - 4096 then - 32768
         else to_i16 (shr (to_i32 (x * shr gain32 4)) 16))"

definition later_sample :: "int \<Rightarrow> int \<Rightarrow> int" where
  "later_sample gain32 x = to_i16 (shr (to_i32 (x * shr gain32 4)) 16)"

definition apply_subframe :: "(int \<Rightarrow> int \<Rightarrow> int) \<Rightarrow> nat \<Rightarrow> nat \<Rightarrow> int \<Rightarrow> int \<Rightarrow> nat \<Rightarrow> int list list \<Rightarrow> int list list" where
  "apply_subframe f L L2 g0 g1 k out =
     (let delta = to_i32 (to_i32 (g1 - g0) * 2 ^ (4 - L2))
      in fst (fold (\<lambda>n (out, gain32). (map (\<lambda>b. b[k * L + n := f gain32 (b ! (k * L + n))]) out, to_i32 (gain32 + delta)))
           [0..<L] (out, to_i32 (g0 * 2 ^ 4))))"

definition apply_gains :: "nat \<Rightarrow> nat \<Rightarrow> int list \<Rightarrow> int list list \<Rightarrow> int list list" where
  "apply_gains L L2 gains out =
     fold (\<lambda>k. apply_subframe later_sample L L2 (gains ! k) (gains ! (k + 1)) k) [1..<10]
       (apply_subframe first_sample L L2 (gains ! 0) (gains ! 1) 0 out)"

text \<open>The number of samples per millisecond and its logarithm.\<close>

definition digital_rate :: "int \<Rightarrow> (nat \<times> nat) option" where
  "digital_rate FS = (if FS = 8000 then Some (8, 3)
     else if FS = 16000 \<or> FS = 32000 \<or> FS = 48000 then Some (16, 4) else None)"

text \<open>The return value, the first \<open>10 * L\<close> samples of the output bands, and the new state.\<close>

definition WebRtcAgc_ProcessDigital ::
    "DigitalAgc \<Rightarrow> int list list \<Rightarrow> int \<Rightarrow> int \<Rightarrow> (int \<times> int list list \<times> DigitalAgc) option" where
  "WebRtcAgc_ProcessDigital stt in_near FS lowlevelSignal =
     (case digital_rate FS of None \<Rightarrow> Some (- 1, [], stt)
      | Some (L, L2) \<Rightarrow>
          (let out = map (take (10 * L)) in_near;
               (logratio, vad) = WebRtcAgc_ProcessVad (vadNearend stt) (out ! 0) (L * 10);
               stt = stt\<lparr>vadNearend := vad\<rparr>;
               decay = digital_decay stt logratio lowlevelSignal;
               env = map (envelope L (out ! 0)) [0..<10]
           in case subframe_gains (gainTable stt) decay env (capacitorFast stt, capacitorSlow stt) (0, 0) of None \<Rightarrow> None
              | Some (gs, (fast, slow), zeros, frac) \<Rightarrow>
                  (let (gate, gatePrev) = gate_value zeros frac fast (stdShortTerm vad) (gatePrevious stt);
                       gs = map (gate_gain gate (gainTable stt ! 0)) gs
                   in case limit_gains env gs of None \<Rightarrow> None
                      | Some gs \<Rightarrow>
                          (let gains = early_reductions (gain stt # gs);
                               stt = stt\<lparr>capacitorFast := fast, capacitorSlow := slow, gatePrevious := gatePrev,
                                         gain := gains ! 10\<rparr>
                           in Some (0, apply_gains L L2 gains out, stt)))))"


section \<open>Arithmetic\<close>

lemma and_mask: "x AND 0xFFFF = x mod 65536" "0xFFFF AND x = x mod 65536" "0x1FFF AND x = x mod 8192"
  "x AND 0x7FFFFFFF = x mod 2147483648" for x :: int
  using take_bit_eq_mask [of 16 x] take_bit_eq_mask [of 13 x] take_bit_eq_mask [of 31 x]
  unfolding take_bit_eq_mod mask_eq_exp_minus_1 by (simp_all add: and.commute)

lemma split_product:
  assumes "0 < d" shows "B div d * A + (B mod d * A) div d = A * B div (d :: int)"
proof -
  have "A * B = B mod d * A + B div d * A * d"
    using div_mult_mod_eq [of B d] by (metis add.commute distrib_right mult.assoc mult.commute)
  then show ?thesis using assms by simp
qed

lemma product_bound:
  assumes "\<bar>a\<bar> \<le> (m :: int)" "\<bar>b\<bar> \<le> n" shows "\<bar>a * b\<bar> \<le> m * n"
  using assms by (simp add: abs_mult mult_mono)

lemma mult_range:
  assumes "0 \<le> a" "a \<le> m" "0 \<le> b" "b \<le> (n :: int)" shows "0 \<le> a * b" "a * b \<le> m * n"
  using assms by (auto intro: mult_mono)

lemma AGC_MUL32_eq:
  assumes "0 \<le> A" "A \<le> 262145" "0 \<le> B" "B \<le> 20000000"
  shows "AGC_MUL32 A B = A * B div 8192"
proof -
  define h l where "h = B div 8192" and "l = B mod 8192"
  have h: "0 \<le> h" "h \<le> 2442" using assms(3,4) by (simp_all add: h_def pos_imp_zdiv_nonneg_iff)
  have l: "0 \<le> l" "l \<le> 8191" by (simp_all add: l_def)
  note hA = mult_range [OF h assms(1,2)] and lA = mult_range [OF l assms(1,2)]
  have d: "0 \<le> l * A div 8192" "l * A div 8192 \<le> l * A"
    using lA by (simp_all add: pos_imp_zdiv_nonneg_iff int_div_le)
  have "l * A div 8192 < 300000" using lA by (intro int_div_less) auto
  then have "AGC_MUL32 A B = h * A + l * A div 8192"
    using hA lA d unfolding AGC_MUL32_def and_mask shr_def by (simp add: h_def [symmetric] l_def [symmetric] to_i32_def)
  then show ?thesis using split_product [of 8192 B A] by (simp add: h_def l_def)
qed

lemma AGC_SCALEDIFF32_eq:
  assumes "\<bar>A\<bar> \<le> 1000" "0 \<le> B" "B \<le> 1073741824" "0 \<le> C" "C \<le> 1073741824"
  shows "AGC_SCALEDIFF32 A B C = C + A * B div 65536"
proof -
  define h l where "h = B div 65536" and "l = B mod 65536"
  have h: "\<bar>h\<bar> \<le> 16384" using assms(2,3) by (simp add: h_def pos_imp_zdiv_nonneg_iff)
  have l: "\<bar>l\<bar> \<le> 65535" by (simp add: l_def)
  have hA: "\<bar>h * A\<bar> \<le> 16384 * 1000" and lA: "\<bar>l * A\<bar> \<le> 65535 * 1000"
    using product_bound [OF h assms(1)] product_bound [OF l assms(1)] by auto
  have "- 1000 \<le> l * A div 65536" using lA by (intro int_le_div) auto
  moreover have "l * A div 65536 < 1000" using lA by (intro int_div_less) auto
  ultimately have "AGC_SCALEDIFF32 A B C = C + h * A + l * A div 65536"
    using hA lA assms(4,5) unfolding AGC_SCALEDIFF32_def and_mask shr_def
    by (simp add: h_def [symmetric] l_def [symmetric] to_i32_def)
  then show ?thesis using split_product [of 65536 B A] by (simp add: h_def l_def)
qed

text \<open>A step towards the input, or a decay, stays between its ends.\<close>

lemma scalediff_rise:
  assumes "0 \<le> slow" "slow \<le> env" "env \<le> 1073741824"
  shows "slow \<le> AGC_SCALEDIFF32 500 (to_i32 (env - slow)) slow" "AGC_SCALEDIFF32 500 (to_i32 (env - slow)) slow \<le> env"
proof -
  have t: "to_i32 (env - slow) = env - slow" using assms by (simp add: to_i32_def)
  have "AGC_SCALEDIFF32 500 (to_i32 (env - slow)) slow = slow + 500 * (env - slow) div 65536"
    unfolding t using assms by (intro AGC_SCALEDIFF32_eq) auto
  moreover have "0 \<le> 500 * (env - slow) div 65536" using assms by (simp add: pos_imp_zdiv_nonneg_iff)
  moreover have "500 * (env - slow) div 65536 \<le> 65536 * (env - slow) div 65536"
    using assms by (intro zdiv_mono1) auto
  then have "500 * (env - slow) div 65536 \<le> env - slow" by simp
  ultimately show "slow \<le> AGC_SCALEDIFF32 500 (to_i32 (env - slow)) slow"
    "AGC_SCALEDIFF32 500 (to_i32 (env - slow)) slow \<le> env" by linarith+
qed

lemma scalediff_decay:
  assumes "0 \<le> c" "c \<le> 1073741824" "- 1000 \<le> d" "d \<le> 0"
  shows "0 \<le> AGC_SCALEDIFF32 d c c" "AGC_SCALEDIFF32 d c c \<le> c"
proof -
  have e: "AGC_SCALEDIFF32 d c c = c + d * c div 65536" using assms by (intro AGC_SCALEDIFF32_eq) auto
  have "- 1000 * c \<le> d * c" using assms by (intro mult_right_mono) auto
  then have "- 65536 * c \<le> d * c" using assms(1) by linarith
  then have "- c \<le> d * c div 65536" by (intro int_le_div) auto
  moreover have "d * c \<le> 0" using assms by (simp add: mult_nonpos_nonneg)
  then have "d * c div 65536 \<le> 0" using div_nonpos_pos_le0 by simp
  ultimately show "0 \<le> AGC_SCALEDIFF32 d c c" "AGC_SCALEDIFF32 d c c \<le> c" using e by linarith+
qed

section \<open>Invariant\<close>

definition table_ok :: "int list \<Rightarrow> bool" where
  "table_ok T \<longleftrightarrow> length T = 32 \<and> (\<forall>z < 32. 0 \<le> T ! z \<and> T ! z \<le> 4194304) \<and>
     (\<forall>z < 31. \<bar>T ! z - T ! (z + 1)\<bar> \<le> 524287)"

lemma table_ok_code [code]:
  "table_ok T \<longleftrightarrow> length T = 32 \<and> list_all (\<lambda>z. 0 \<le> T ! z \<and> T ! z \<le> 4194304) [0..<32] \<and>
     list_all (\<lambda>z. \<bar>T ! z - T ! (z + 1)\<bar> \<le> 524287) [0..<31]"
  by (auto simp: table_ok_def list_all_iff)

definition level_ok :: "int \<Rightarrow> bool" where
  "level_ok x \<longleftrightarrow> 0 \<le> x \<and> x \<le> 1073741824"

definition gain_ok :: "int \<Rightarrow> bool" where
  "gain_ok g \<longleftrightarrow> 0 \<le> g \<and> g \<le> 4194304"

definition digital_ok :: "DigitalAgc \<Rightarrow> bool" where
  "digital_ok s \<longleftrightarrow> table_ok (gainTable s) \<and> level_ok (capacitorFast s) \<and> level_ok (capacitorSlow s) \<and> gain_ok (gain s)"

lemma digital_decay_range: "- 65 \<le> digital_decay stt lr low" "digital_decay stt lr low \<le> 0"
proof -
  define r where "r = (if counter (vadFarend stt) > 10 then to_i16 (shr (3 * lr - logRatio (vadFarend stt)) 2) else lr)"
  define d where "d = (if r > 1024 then - 65 else if r < 0 then 0 else to_i16 (shr ((0 - r) * 65) 10))"
  have d: "- 65 \<le> d" "d \<le> 0"
  proof -
    have "- 65 \<le> (0 - r) * 65 div 1024" "(0 - r) * 65 div 1024 < 1" if "0 \<le> r" "r \<le> 1024"
      using that by (auto intro: int_le_div int_div_less)
    then show "- 65 \<le> d" "d \<le> 0" by (auto simp: d_def shr_def to_i16_def)
  qed
  have s: "- 65 \<le> to_i16 (shr (x * d) 12) \<and> to_i16 (shr (x * d) 12) \<le> 0" if "0 \<le> x" "x \<le> 4095" for x
  proof -
    have "x * d \<le> 0" using that(1) d(2) by (simp add: mult_nonneg_nonpos)
    moreover have "x * - 65 \<le> x * d" using that(1) d(1) by (intro mult_left_mono) auto
    then have "- 65 * 4096 \<le> x * d" using that(2) by linarith
    ultimately have "- 65 \<le> x * d div 4096" "x * d div 4096 < 1" by (auto intro: int_le_div int_div_less)
    then show ?thesis by (simp add: shr_def to_i16_def)
  qed
  have "digital_decay stt lr low = (if agcMode stt \<noteq> kAgcModeFixedDigital
      then if low \<noteq> 0 then 0 else if stdLongTerm (vadNearend stt) < 4000 then 0
           else if stdLongTerm (vadNearend stt) < 8096 then to_i16 (shr ((stdLongTerm (vadNearend stt) - 4000) * d) 12) else d
      else d)"
    by (simp add: digital_decay_def r_def [symmetric] d_def [symmetric] Let_def)
  then show "- 65 \<le> digital_decay stt lr low" "digital_decay stt lr low \<le> 0"
    using d s [of "stdLongTerm (vadNearend stt) - 4000"] by auto
qed

lemma follow_envelope_ok:
  assumes "level_ok (fst s)" "level_ok (snd s)" "level_ok env" "- 65 \<le> d" "d \<le> 0"
  shows "level_ok (fst (follow_envelope d env s))" "level_ok (snd (follow_envelope d env s))"
    "env \<le> fst (follow_envelope d env s)"
  using assms scalediff_decay [of "fst s" "- 1000"] scalediff_decay [of "snd s" d] scalediff_rise [of "snd s" env]
  by (auto simp: follow_envelope_def level_ok_def Let_def split: prod.splits)


section \<open>Gain of a level\<close>

lemma level_zeros_range:
  assumes "level_ok x" shows "1 \<le> level_zeros x" "level_zeros x \<le> 31"
proof -
  have "1 \<le> level_zeros x \<and> level_zeros x \<le> 31"
  proof (cases "x = 0")
    case False
    have x: "is_u32 x" "nat x \<noteq> 0" "nat x < 2 ^ 31" using assms False by (auto simp: level_ok_def is_u32_def)
    have "level_zeros x = 32 - int (bit_size (nat x))"
      using False NormU32_eq [OF x(1)] by (simp add: level_zeros_def to_u32_id x(1))
    moreover have "0 < bit_size (nat x)" "bit_size (nat x) \<le> 31"
      using x by (simp_all add: bit_size_pos bit_size_le_iff)
    ultimately show ?thesis by simp
  qed (simp add: level_zeros_def)
  then show "1 \<le> level_zeros x" "level_zeros x \<le> 31" by simp_all
qed

lemma level_frac_range: "0 \<le> shr (level_mantissa x) 19" "shr (level_mantissa x) 19 \<le> 4095"
proof -
  have "0 \<le> level_mantissa x" "level_mantissa x < 2147483648" by (simp_all add: level_mantissa_def and_mask)
  then show "0 \<le> shr (level_mantissa x) 19" "shr (level_mantissa x) 19 \<le> 4095"
    using int_div_less [of "level_mantissa x" 4096 524288] by (auto simp: shr_def pos_imp_zdiv_nonneg_iff)
qed

lemma interpolate:
  assumes "0 \<le> a" "a \<le> m" "0 \<le> b" "b \<le> (m :: int)" "0 \<le> f" "f \<le> D" "0 < D"
  shows "0 \<le> a + (b - a) * f div D" "a + (b - a) * f div D \<le> m"
proof -
  have "a * f \<le> a * D" "0 \<le> b * f" using assms by (auto intro: mult_left_mono)
  then have "- a * D \<le> (b - a) * f" unfolding left_diff_distrib by linarith
  then have "- a \<le> (b - a) * f div D" using assms by (intro int_le_div) auto
  then show "0 \<le> a + (b - a) * f div D" by simp
  have "(b - a) * f \<le> (m - a) * f" using assms by (intro mult_right_mono) auto
  also have "\<dots> \<le> (m - a) * D" using assms by (intro mult_left_mono) auto
  finally have "(b - a) * f \<le> (m - a) * D" .
  then have "(b - a) * f div D \<le> (m - a) * D div D" using assms by (intro zdiv_mono1) auto
  then show "a + (b - a) * f div D \<le> m" using assms by simp
qed

lemma level_gain_ok:
  assumes T: "table_ok T" and x: "level_ok x"
  obtains g z f where "level_gain T x = Some (g, z, f)" "gain_ok g"
proof -
  define z where "z = nat (level_zeros x)"
  define f where "f = shr (level_mantissa x) 19"
  have z: "1 \<le> z" "z \<le> 31" "level_zeros x = int z" using level_zeros_range [OF x] by (simp_all add: z_def)
  have f: "0 \<le> f" "f \<le> 4095" using level_frac_range by (simp_all add: f_def)
  have fi: "to_i16 f = f" using f by (intro to_i16_id) (simp add: is_i16_def)
  have zz: "nat (int z - 1) = z - 1" using z(1) by linarith
  have T1: "0 \<le> T ! z" "T ! z \<le> 4194304" "0 \<le> T ! (z - 1)" "T ! (z - 1) \<le> 4194304"
    using T z by (auto simp: table_ok_def)
  have "\<bar>T ! (z - 1) - T ! (z - 1 + 1)\<bar> \<le> 524287" using T z(2) unfolding table_ok_def by (metis One_nat_def less_Suc_eq_le
    Suc_pred numeral_eq_Suc pred_numeral_simps(3) z(1) Suc_le_eq)
  then have T2: "\<bar>T ! (z - 1) - T ! z\<bar> \<le> 524287" using z(1) by simp
  note p = product_bound [OF T2, of f 4095]
  have d: "to_i32 (T ! (z - 1) - T ! z) = T ! (z - 1) - T ! z" using T2 by (intro to_i32_id) (auto simp: is_i32_def)
  have e: "to_i32 ((T ! (z - 1) - T ! z) * f) = (T ! (z - 1) - T ! z) * f"
    using p f by (intro to_i32_id) (auto simp: is_i32_def)
  have i: "0 \<le> T ! z + (T ! (z - 1) - T ! z) * f div 4096" "T ! z + (T ! (z - 1) - T ! z) * f div 4096 \<le> 4194304"
    using interpolate [OF T1 f(1), of 4096] f(2) by auto
  then have q: "to_i32 (T ! z + shr ((T ! (z - 1) - T ! z) * f) 12) = T ! z + (T ! (z - 1) - T ! z) * f div 4096"
    unfolding shr_def by (simp add: to_i32_id is_i32_def)
  have "level_gain T x = Some (T ! z + (T ! (z - 1) - T ! z) * f div 4096, int z, f)"
    using z T q by (simp add: level_gain_def Let_def f_def [symmetric] fi zz d e table_ok_def del: One_nat_def)
  then show ?thesis using that i by (auto simp: gain_ok_def)
qed

lemma subframe_gains_ok:
  assumes "table_ok T" "\<forall>e \<in> set envs. level_ok e" "level_ok (fst s)" "level_ok (snd s)" "- 65 \<le> d" "d \<le> 0"
  shows "\<exists>gs fast slow z. subframe_gains T d envs s z0 = Some (gs, (fast, slow), z) \<and>
    length gs = length envs \<and> (\<forall>g \<in> set gs. gain_ok g) \<and> level_ok fast \<and> level_ok slow"
  using assms(2-4)
proof (induction envs arbitrary: s z0)
  case Nil
  then show ?case by (cases s) auto
next
  case (Cons env envs)
  obtain fast slow where s: "follow_envelope d env s = (fast, slow)" by fastforce
  have ok: "level_ok fast" "level_ok slow"
    using follow_envelope_ok [of s env d] Cons.prems s assms(5,6) by auto
  then have "level_ok (if fast > slow then fast else slow)" by simp
  from level_gain_ok [OF assms(1) this] obtain g z f where
    g: "level_gain T (if fast > slow then fast else slow) = Some (g, z, f)" "gain_ok g" by blast
  from Cons.IH [of "(fast, slow)" "(z, f)"] ok Cons.prems obtain gs f' s' z' where
    r: "subframe_gains T d envs (fast, slow) (z, f) = Some (gs, (f', s'), z')"
    "length gs = length envs" "\<forall>g \<in> set gs. gain_ok g" "level_ok f'" "level_ok s'" by auto
  have "subframe_gains T d (env # envs) s z0 = Some (g # gs, (f', s'), z')" using s g(1) r(1)
    by (cases "slow < fast") (simp_all add: Let_def)
  then show ?case using r g(2) by (intro exI [of _ "g # gs"] exI [of _ f'] exI [of _ s'] exI [of _ z']) simp
qed


section \<open>Gate and limiter\<close>

lemma gate_gain_ok:
  assumes "gain_ok g0" "gain_ok g" shows "gain_ok (gate_gain gate g0 g)"
proof (cases "gate > 0")
  case True
  define k where "k = 178 + (if gate < 2500 then shr (2500 - gate) 5 else 0)"
  have k: "0 \<le> k" "k \<le> 256"
    using True int_div_less [of "2500 - gate" 79 32] by (auto simp: k_def shr_def pos_imp_zdiv_nonneg_iff)
  have r: "0 \<le> g0" "g0 \<le> 4194304" "0 \<le> g" "g \<le> 4194304" using assms by (auto simp: gain_ok_def)
  have d: "to_i32 (g - g0) = g - g0" using r by (intro to_i32_id) (auto simp: is_i32_def)
  have "\<bar>(g - g0) * k\<bar> \<le> 4194304 * 256" using r k by (intro product_bound) auto
  then have e: "to_i32 ((g - g0) * k) = (g - g0) * k" by (intro to_i32_id) (auto simp: is_i32_def)
  have i: "0 \<le> g0 + (g - g0) * k div 256" "g0 + (g - g0) * k div 256 \<le> 4194304"
    using interpolate [OF r k] by auto
  have "\<not> g - g0 > 8388608" using r by linarith
  then have "gate_gain gate g0 g = to_i32 (g0 + shr ((g - g0) * k) 8)"
    using True by (simp add: gate_gain_def Let_def d k_def [symmetric] e)
  also have "\<dots> = g0 + (g - g0) * k div 256"
    using i by (simp add: shr_def to_i32_id is_i32_def)
  finally show ?thesis using i by (simp add: gain_ok_def)
qed (simp add: gate_gain_def assms)

text \<open>The product of a 16-bit sample of the sub-frame with the limited gain fits 32 bits.\<close>

definition limited :: "int \<Rightarrow> int \<Rightarrow> bool" where
  "limited env g \<longleftrightarrow> env * (g * g) < 4611686018427387904"

lemma limit_test:
  assumes "gain_ok g" "level_ok env"
  shows "AGC_MUL32 (shr env 12 + 1) (gain_square 10 g) = (env div 4096 + 1) * ((g div 1024 + 1) * (g div 1024 + 1)) div 8192"
proof -
  have a: "0 \<le> env div 4096" "env div 4096 < 262145" and b: "0 \<le> g div 1024" "g div 1024 < 4097"
    using assms by (auto simp: gain_ok_def level_ok_def pos_imp_zdiv_nonneg_iff intro: int_div_less)
  have "0 \<le> (g div 1024 + 1) * (g div 1024 + 1)" "(g div 1024 + 1) * (g div 1024 + 1) \<le> 4097 * 4097"
    using mult_range [of "g div 1024 + 1" 4097 "g div 1024 + 1" 4097] b by auto
  moreover from this have "to_i32 ((g div 1024 + 1) * (g div 1024 + 1)) = (g div 1024 + 1) * (g div 1024 + 1)"
    by (intro to_i32_id) (unfold is_i32_def, linarith)
  then have "gain_square 10 g = (g div 1024 + 1) * (g div 1024 + 1)"
    using b to_i32_id [of "g div 1024 + 1"] by (simp add: gain_square_def Let_def shr_def is_i32_def)
  ultimately show ?thesis using a AGC_MUL32_eq [of "env div 4096 + 1" "gain_square 10 g"] by (simp add: shr_def)
qed

lemma limit_exit:
  assumes "gain_ok g" "level_ok env" "\<not> AGC_MUL32 (shr env 12 + 1) (gain_square 10 g) > 131068"
  shows "limited env g"
proof -
  define A B where "A = env div 4096 + 1" and "B = g div 1024 + 1"
  have "A * (B * B) div 8192 < 131069" using assms(3) limit_test [OF assms(1,2)] by (simp add: A_def B_def)
  then have AB: "A * (B * B) < 131069 * 8192" by (metis int_le_div linorder_not_le zero_less_numeral)
  have e: "0 \<le> env" "env \<le> 4096 * A" and g: "0 \<le> g" "g \<le> 1024 * B"
    using assms(1,2) by (auto simp: A_def B_def gain_ok_def level_ok_def)
  have "env * (g * g) \<le> (4096 * A) * ((1024 * B) * (1024 * B))"
    using e g by (intro mult_mono) auto
  also have "\<dots> = 4294967296 * (A * (B * B))" by simp
  also have "\<dots> < 4294967296 * (131069 * 8192)" using AB by simp
  finally show ?thesis by (simp add: limited_def)
qed

lemma limit_step:
  assumes "gain_ok g" shows "c_div (to_i32 (g * 253)) 256 = g * 253 div 256" "gain_ok (g * 253 div 256)"
    "g * 253 div 256 \<le> g" "0 < g \<Longrightarrow> g * 253 div 256 < g"
proof -
  have "0 \<le> g * 253" "g * 253 \<le> 4194304 * 253" using assms by (auto simp: gain_ok_def)
  then show "c_div (to_i32 (g * 253)) 256 = g * 253 div 256" by (simp add: to_i32_id is_i32_def c_div_pos)
  show "g * 253 div 256 \<le> g" using assms zdiv_mono1 [of "g * 253" "g * 256" 256] by (simp add: gain_ok_def)
  then show "gain_ok (g * 253 div 256)" using assms by (auto simp: gain_ok_def pos_imp_zdiv_nonneg_iff)
  show "g * 253 div 256 < g" if "0 < g" using that by (intro int_div_less) auto
qed

lemma limit_loop_ok:
  assumes "gain_ok g" "level_ok env"
  shows "\<exists>g'. limit_loop 10 env g = Some g' \<and> gain_ok g' \<and> g' \<le> g \<and> limited env g'"
  using assms(1)
proof (induction "nat g" arbitrary: g rule: less_induct)
  case less
  have t: "SPL_SHIFT_W32 32767 2 = 131068" by (simp add: SPL_SHIFT_W32_def to_i32_id is_i32_def)
  show ?case
  proof (cases "AGC_MUL32 (shr env 12 + 1) (gain_square 10 g) > 131068")
    case False
    then show ?thesis using limit_exit [OF less.prems assms(2)] less.prems
      by (subst limit_loop.simps) (simp add: t)
  next
    case True
    have "0 < g"
    proof (rule ccontr)
      assume "\<not> 0 < g"
      then have "g = 0" using less.prems by (simp add: gain_ok_def)
      moreover have "(env div 4096 + 1) div 8192 < 131069" using assms(2)
        by (intro int_div_less) (auto simp: level_ok_def intro!: int_div_less [of _ "1073000000", THEN order_less_le_trans])
      ultimately show False using True limit_test [OF less.prems assms(2)] by simp
    qed
    note st = limit_step [OF less.prems] 
    obtain g' where g': "limit_loop 10 env (g * 253 div 256) = Some g'" "gain_ok g'" "g' \<le> g * 253 div 256" "limited env g'"
      using less.hyps [of "g * 253 div 256"] st(2) st(4) [OF \<open>0 < g\<close>] \<open>0 < g\<close> by auto
    have "\<not> g > 8388607" using less.prems by (simp add: gain_ok_def)
    then have "limit_loop 10 env g = limit_loop 10 env (g * 253 div 256)"
      using True st(1) by (subst limit_loop.simps) (simp add: t)
    then show ?thesis using g' st(3) by auto
  qed
qed

lemma limit_gain_ok:
  assumes "gain_ok g" "level_ok env"
  shows "\<exists>g'. limit_gain env g = Some g' \<and> gain_ok g' \<and> g' \<le> g \<and> limited env g'"
  using limit_loop_ok [OF assms] assms(1) by (simp add: limit_gain_def gain_ok_def)

lemma limit_gains_ok:
  assumes "length envs = length gs" "\<forall>g \<in> set gs. gain_ok g" "\<forall>e \<in> set envs. level_ok e"
  shows "\<exists>gs'. limit_gains envs gs = Some gs' \<and> length gs' = length gs \<and>
    (\<forall>k < length gs. gain_ok (gs' ! k) \<and> gs' ! k \<le> gs ! k \<and> limited (envs ! k) (gs' ! k))"
  using assms
proof (induction envs gs rule: limit_gains.induct)
  case (1 env envs g gs)
  obtain g' where g': "limit_gain env g = Some g'" "gain_ok g'" "g' \<le> g" "limited env g'"
    using limit_gain_ok [of g env] 1 by auto
  obtain gs' where gs': "limit_gains envs gs = Some gs'" "length gs' = length gs"
    "\<forall>k < length gs. gain_ok (gs' ! k) \<and> gs' ! k \<le> gs ! k \<and> limited (envs ! k) (gs' ! k)"
    using 1(1) [OF g'(1)] 1(2-4) by auto
  show ?case using g' gs' by (intro exI [of _ "g' # gs'"]) (auto simp: nth_Cons split: nat.split)
qed auto


section \<open>Application of the gain\<close>

lemma early_reductions_nth:
  assumes "length gs = 11"
  shows "length (early_reductions gs) = 11"
    "k < 11 \<Longrightarrow> early_reductions gs ! k = (if 1 \<le> k \<and> k < 10 then min (gs ! k) (gs ! (k + 1)) else gs ! k)"
proof -
  define P where "P j s \<longleftrightarrow> length s = 11 \<and>
    (\<forall>k < 11. s ! k = (if 1 \<le> k \<and> k < j then min (gs ! k) (gs ! (k + 1)) else gs ! k))" for j and s :: "int list"
  have "P 10 (early_reductions gs)"
    unfolding early_reductions_def
    by (rule fold_upt_inv) (auto simp: P_def assms nth_list_update min_def less_Suc_eq)
  then show "length (early_reductions gs) = 11"
    "k < 11 \<Longrightarrow> early_reductions gs ! k = (if 1 \<le> k \<and> k < 10 then min (gs ! k) (gs ! (k + 1)) else gs ! k)"
    by (simp_all add: P_def)
qed

lemma convex_bounds:
  assumes "0 \<le> n" "n \<le> D" "a \<le> m" "b \<le> m" "0 \<le> a" "0 \<le> (b :: int)"
  shows "0 \<le> D * a + n * (b - a)" "D * a + n * (b - a) \<le> D * m"
proof -
  have e: "D * a + n * (b - a) = (D - n) * a + n * b" by (simp add: algebra_simps)
  have "0 \<le> (D - n) * a" "0 \<le> n * b" using assms by auto
  then show "0 \<le> D * a + n * (b - a)" unfolding e by linarith
  have "(D - n) * a \<le> (D - n) * m" "n * b \<le> n * m" using assms by (auto intro: mult_left_mono)
  then have "(D - n) * a + n * b \<le> (D - n) * m + n * m" by linarith
  then show "D * a + n * (b - a) \<le> D * m" unfolding e by (simp add: algebra_simps)
qed

text \<open>The interpolated gain, in Q20.\<close>

definition gain_at :: "nat \<Rightarrow> int \<Rightarrow> int \<Rightarrow> nat \<Rightarrow> int" where
  "gain_at L2 g0 g1 n = 16 * g0 + int n * 2 ^ (4 - L2) * (g1 - g0)"

lemma gain_at_range:
  assumes "0 \<le> g0" "g0 \<le> m" "0 \<le> g1" "g1 \<le> m" "L2 \<le> 4" "n \<le> 2 ^ L2"
  shows "0 \<le> gain_at L2 g0 g1 n" "gain_at L2 g0 g1 n \<le> 16 * m"
proof -
  have "int n \<le> 2 ^ L2" using assms(6) by (metis of_nat_le_iff of_nat_numeral of_nat_power)
  then have "int n * 2 ^ (4 - L2) \<le> 2 ^ L2 * 2 ^ (4 - L2)" by (intro mult_right_mono) auto
  also have "\<dots> = (16 :: int)" using assms(5) by (simp add: power_add [symmetric])
  finally have "int n * 2 ^ (4 - L2) \<le> 16" .
  then show "0 \<le> gain_at L2 g0 g1 n" "gain_at L2 g0 g1 n \<le> 16 * m"
    unfolding gain_at_def using assms by (intro convex_bounds; simp)+
qed

lemma fold_map_update:
  "fold (\<lambda>n out. map (F n) out) ns out = map (fold F ns) out"
  by (induction ns arbitrary: out) simp_all

lemma fold_index_update:
  assumes "m \<le> L" "a + L \<le> length b" "i < length b"
  shows "fold (\<lambda>n b. b[a + n := f n (b ! (a + n))]) [0..<m] b ! i = (if a \<le> i \<and> i < a + m then f (i - a) (b ! i) else b ! i)"
    "length (fold (\<lambda>n b. b[a + n := f n (b ! (a + n))]) [0..<m] b) = length b"
  using assms(1)
proof (induction m)
  case (Suc m)
  { case 1
    then show ?case using Suc assms(2,3) by (auto simp: nth_list_update) }
  { case 2
    then show ?case using Suc by simp }
qed auto

lemma apply_subframe_eq:
  assumes "gain_ok g0" "gain_ok g1" "L = 2 ^ L2" "L2 \<le> 4" "3 \<le> L2"
  shows "apply_subframe f L L2 g0 g1 k out =
    map (fold (\<lambda>n b. b[k * L + n := f (gain_at L2 g0 g1 n) (b ! (k * L + n))]) [0..<L]) out"
proof -
  define d where "d = (g1 - g0) * 2 ^ (4 - L2)"
  define S where "S n = (\<lambda>b. b[k * L + n := f (gain_at L2 g0 g1 n) (b ! (k * L + n))])" for n
  define body where "body = (\<lambda>n (out, gain32). (map (\<lambda>b. b[k * L + n := f gain32 (b ! (k * L + n))]) out, to_i32 (gain32 + d)))"
  have r: "0 \<le> g0" "g0 \<le> 4194304" "0 \<le> g1" "g1 \<le> 4194304" using assms by (auto simp: gain_ok_def)
  have L2: "L2 = 3 \<or> L2 = 4" using assms(4,5) by linarith
  have e: "to_i32 (to_i32 (g1 - g0) * 2 ^ (4 - L2)) = d"
    using L2 r by (auto simp: d_def to_i32_id is_i32_def)
  have z: "to_i32 (g0 * 2 ^ 4) = gain_at L2 g0 g1 0" using r by (simp add: gain_at_def to_i32_id is_i32_def)
  have step: "to_i32 (gain_at L2 g0 g1 n + d) = gain_at L2 g0 g1 (Suc n)" if "n < L" for n
  proof -
    have "gain_at L2 g0 g1 n + d = gain_at L2 g0 g1 (Suc n)" by (simp add: gain_at_def d_def algebra_simps)
    moreover have "is_i32 (gain_at L2 g0 g1 (Suc n))"
      using gain_at_range [OF r assms(4), of "Suc n"] that assms(3) by (simp add: is_i32_def)
    ultimately show ?thesis by (simp add: to_i32_id)
  qed
  have "fold body [0..<m] (out, gain_at L2 g0 g1 0) = (map (fold S [0..<m]) out, gain_at L2 g0 g1 m)" if "m \<le> L" for m
    using that by (induction m) (simp_all add: body_def S_def step del: upt_Suc add: upt_Suc_append comp_def)
  then have "fst (fold body [0..<L] (out, gain_at L2 g0 g1 0)) = map (fold S [0..<L]) out" by simp
  then show ?thesis unfolding apply_subframe_def Let_def e z body_def S_def .
qed

text \<open>Every sample of every band is the function of its sub-frame at its interpolated gain.\<close>

definition gain_of_sample :: "int list \<Rightarrow> nat \<Rightarrow> nat \<Rightarrow> nat \<Rightarrow> int" where
  "gain_of_sample gains L L2 i = gain_at L2 (gains ! (i div L)) (gains ! (i div L + 1)) (i mod L)"

lemma subframe_index:
  assumes "0 < L" "k * L \<le> i" "i < k * L + L" shows "i div L = k" "i - k * L = i mod (L :: nat)"
proof -
  show d: "i div L = k" using assms by (metis add.commute div_nat_eqI mult.commute mult_Suc_right)
  show "i - k * L = i mod L" unfolding d [symmetric] by (simp add: minus_div_mult_eq_mod)
qed

lemma apply_gains_nth:
  assumes "length gains = 11" "\<forall>g \<in> set gains. gain_ok g" "L = 2 ^ L2" "L2 \<le> 4" "3 \<le> L2"
    "j < length out" "length (out ! j) = 10 * L" "i < 10 * L"
  shows "length (apply_gains L L2 gains out) = length out"
    "length (apply_gains L L2 gains out ! j) = 10 * L"
    "apply_gains L L2 gains out ! j ! i =
       (if i < L then first_sample else later_sample) (gain_of_sample gains L L2 i) (out ! j ! i)"
proof -
  define F where "F i = (if i < L then first_sample else later_sample) (gain_of_sample gains L L2 i) (out ! j ! i)" for i
  define P where "P m s \<longleftrightarrow> length s = length out \<and> length (s ! j) = 10 * L \<and>
    (\<forall>i < 10 * L. s ! j ! i = (if i < m * L then F i else out ! j ! i))" for m and s :: "int list list"
  have L: "0 < L" using assms(3) by simp
  have sub: "P (Suc k) (apply_subframe f L L2 (gains ! k) (gains ! (k + 1)) k s)"
    if "P k s" "k < 10" "f = (if k = 0 then first_sample else later_sample)" for k s f
  proof -
    have g: "gain_ok (gains ! k)" "gain_ok (gains ! (k + 1))" using assms(1,2) that(2) by auto
    have kL: "k * L + L \<le> 10 * L" using that(2) mult_le_mono1 [of "Suc k" 10 L] by simp
    have n: "fold (\<lambda>n b. b[k * L + n := f (gain_at L2 (gains ! k) (gains ! (k + 1)) n) (b ! (k * L + n))]) [0..<L] (s ! j) ! i
        = (if i < Suc k * L then F i else out ! j ! i)" (is "?X = _") if i: "i < 10 * L" for i
    proof -
      have X: "?X = (if k * L \<le> i \<and> i < k * L + L
          then f (gain_at L2 (gains ! k) (gains ! (k + 1)) (i - k * L)) (s ! j ! i) else s ! j ! i)"
        by (rule fold_index_update(1) [OF order_refl]) (use \<open>P k s\<close> kL i in \<open>simp_all add: P_def\<close>)
      show ?thesis
      proof (cases "k * L \<le> i \<and> i < k * L + L")
        case True
        then have "i div L = k" "i - k * L = i mod L" using subframe_index [OF L] by auto
        moreover have "i < L \<longleftrightarrow> k = 0" using True L by (cases k) auto
        ultimately show ?thesis
          unfolding X using True \<open>P k s\<close> i by (simp add: P_def F_def gain_of_sample_def \<open>f = _\<close>)
      next
        case False
        then show ?thesis unfolding X using \<open>P k s\<close> i by (auto simp: P_def)
      qed
    qed
    show ?thesis
      unfolding apply_subframe_eq [OF g assms(3-5)] using n \<open>P k s\<close> kL assms(6) L
        fold_index_update(2) [OF order_refl, of "k * L" L "s ! j" 0]
      by (simp add: P_def)
  qed
  have "P 0 out" using assms by (simp add: P_def)
  then have "P 1 (apply_subframe first_sample L L2 (gains ! 0) (gains ! 1) 0 out)" using sub [of 0 out first_sample] by simp
  then have "P 10 (apply_gains L L2 gains out)"
    unfolding apply_gains_def by (rule fold_upt_inv) (simp_all add: sub del: One_nat_def)
  then show "length (apply_gains L L2 gains out) = length out" "length (apply_gains L L2 gains out ! j) = 10 * L"
    "apply_gains L L2 gains out ! j ! i =
       (if i < L then first_sample else later_sample) (gain_of_sample gains L L2 i) (out ! j ! i)"
    using assms(8) by (simp_all add: P_def F_def)
qed


section \<open>Envelope\<close>

lemma envelope_eq:
  "envelope L xs k = Max (insert 0 ((\<lambda>n. xs ! (k * L + n) * xs ! (k * L + n)) ` {..<L}))"
proof -
  have "envelope L xs k = fold (\<lambda>x m. if m < x then x else m) (map (\<lambda>n. xs ! (k * L + n) * xs ! (k * L + n)) [0..<L]) 0"
    by (simp add: envelope_def fold_map comp_def Let_def)
  then show ?thesis by (simp add: fold_max_spec atLeast0LessThan)
qed

lemma envelope_ge: "n < L \<Longrightarrow> xs ! (k * L + n) * xs ! (k * L + n) \<le> envelope L xs k"
  unfolding envelope_eq by (intro Max_ge) auto

lemma square_i16: "is_i16 x \<Longrightarrow> x * x \<le> 1073741824"
  using product_bound [of x 32768 x 32768] by (simp add: is_i16_def abs_le_iff)

lemma envelope_ok:
  assumes "\<forall>x \<in> set xs. is_i16 x" "k < 10" "10 * L \<le> length xs"
  shows "level_ok (envelope L xs k)"
proof -
  have "xs ! (k * L + n) * xs ! (k * L + n) \<le> 1073741824" if "n < L" for n
  proof (intro square_i16)
    have "k * L + L \<le> 10 * L" using assms(2) mult_le_mono1 [of "Suc k" 10 L] by simp
    then have "k * L + n < length xs" using assms(3) that by linarith
    then show "is_i16 (xs ! (k * L + n))" using assms(1) by simp
  qed
  then have "envelope L xs k \<le> 1073741824" unfolding envelope_eq by (intro Max.boundedI) auto
  moreover have "0 \<le> envelope L xs k" unfolding envelope_eq by (intro Max_ge) auto
  ultimately show ?thesis by (simp add: level_ok_def)
qed

lemma limited_product:
  assumes "limited env g" "x * x \<le> env" "0 \<le> h" "h \<le> g"
  shows "\<bar>x * h\<bar> < 2147483648"
proof -
  have "(x * h) * (x * h) = (x * x) * (h * h)" by simp
  also have "\<dots> \<le> env * (g * g)" using assms by (intro mult_mono) (auto intro: order_trans [of 0 "x * x"])
  also have "\<dots> < 2147483648 * 2147483648" using assms(1) by (simp add: limited_def)
  finally have "\<not> 2147483648 \<le> \<bar>x * h\<bar>"
    using abs_le_square_iff [of 2147483648 "x * h"] by (simp add: power2_eq_square)
  then show ?thesis by simp
qed

lemma later_sample_exact:
  assumes "\<bar>x * shr g 4\<bar> < 2147483648"
  shows "later_sample g x = x * (g div 16) div 65536" "is_i16 (later_sample g x)"
proof -
  define p where "p = x * (g div 16)"
  have p: "- 2147483648 \<le> p" "p < 2147483648" using assms by (auto simp: p_def shr_def)
  have "- 32768 \<le> p div 65536" "p div 65536 < 32768" using p by (auto intro: int_le_div int_div_less)
  then show "later_sample g x = x * (g div 16) div 65536" "is_i16 (later_sample g x)"
    using p unfolding later_sample_def by (simp_all add: shr_def p_def [symmetric] to_i32_id is_i32_def to_i16_id is_i16_def)
qed

text \<open>The gain of every sample after the first sub-frame is below the limited gain of its own sub-frame, at
  both ends of the interpolation.\<close>

lemma limited_gains_reduced:
  assumes "length gs = 10" "gain_ok g" "\<And>k. k < 10 \<Longrightarrow> gain_ok (gs ! k)"
  shows "length (early_reductions (g # gs)) = 11" "early_reductions (g # gs) ! 0 = g"
    "k < 11 \<Longrightarrow> gain_ok (early_reductions (g # gs) ! k)"
    "1 \<le> k \<Longrightarrow> k < 10 \<Longrightarrow> early_reductions (g # gs) ! k \<le> gs ! k \<and> early_reductions (g # gs) ! (k + 1) \<le> gs ! k"
proof -
  have n: "length (g # gs) = 11" using assms(1) by simp
  note e = early_reductions_nth [OF n]
  have o: "gain_ok ((g # gs) ! k)" if "k < 11" for k
    using that assms by (cases k) auto
  show "length (early_reductions (g # gs)) = 11" "early_reductions (g # gs) ! 0 = g" by (simp_all add: e)
  show "gain_ok (early_reductions (g # gs) ! k)" if "k < 11"
  proof -
    have mn: "gain_ok (min a b)" if "gain_ok a" "gain_ok b" for a b using that by (simp add: min_def)
    show ?thesis
    proof (cases "1 \<le> k \<and> k < 10")
      case True
      then show ?thesis unfolding e(2) [OF that] if_P [OF True] by (intro mn o) auto
    next
      case False
      show ?thesis unfolding e(2) [OF that] if_not_P [OF False] by (rule o [OF that])
    qed
  qed
  show "early_reductions (g # gs) ! k \<le> gs ! k \<and> early_reductions (g # gs) ! (k + 1) \<le> gs ! k" if "1 \<le> k" "k < 10"
    using that e(2) [of k] e(2) [of "k + 1"] by simp
qed

lemma limited_sample:
  assumes "L = 2 ^ L2" "L2 \<le> 4" "G ! (i div L) \<le> g" "G ! (i div L + 1) \<le> g" "gain_ok (G ! (i div L))"
    "gain_ok (G ! (i div L + 1))" "gain_ok g" "limited env g" "x * x \<le> env"
  obtains h where "gain_ok h" "is_i32 (x * h)" "later_sample (gain_of_sample G L L2 i) x = x * h div 65536"
    "is_i16 (later_sample (gain_of_sample G L L2 i) x)"
proof -
  define q where "q = gain_of_sample G L L2 i"
  have "i mod L \<le> 2 ^ L2" using assms(1) by (simp add: less_imp_le)
  then have q: "0 \<le> q" "q \<le> 16 * g"
    unfolding q_def gain_of_sample_def using assms(2-6) by (intro gain_at_range; simp add: gain_ok_def)+
  have h: "0 \<le> q div 16" "q div 16 \<le> g" using q zdiv_mono1 [of q "16 * g" 16] by (auto simp: pos_imp_zdiv_nonneg_iff)
  have p: "\<bar>x * (q div 16)\<bar> < 2147483648" using limited_product [OF assms(8,9) h] .
  show ?thesis
  proof (rule that [of "q div 16"])
    show "gain_ok (q div 16)" using h assms(7) by (simp add: gain_ok_def)
    show "is_i32 (x * (q div 16))" using p by (auto simp: is_i32_def)
    show "later_sample (gain_of_sample G L L2 i) x = x * (q div 16) div 65536"
      "is_i16 (later_sample (gain_of_sample G L L2 i) x)"
      using later_sample_exact [of x q] p by (simp_all add: shr_def q_def)
  qed
qed

section \<open>The limiter keeps every product in range\<close>

text \<open>The stages of a frame: the gains it applies, those after the first below the limited gain of their sub-frame.\<close>

lemma digital_stages:
  assumes "digital_ok s" "digital_rate FS = Some (L, L2)" "\<forall>x \<in> set xs. is_i16 x" "10 * L \<le> length xs"
  shows "\<exists>G s'. WebRtcAgc_ProcessDigital s (xs # bands) FS low =
      Some (0, apply_gains L L2 G (map (take (10 * L)) (xs # bands)), s') \<and> digital_ok s' \<and> length G = 11 \<and> G ! 0 = gain s \<and>
    (\<forall>g \<in> set G. gain_ok g) \<and>
    (\<forall>k. 1 \<le> k \<and> k < 10 \<longrightarrow> (\<exists>g. gain_ok g \<and> limited (envelope L (take (10 * L) xs) k) g \<and> G ! k \<le> g \<and> G ! (k + 1) \<le> g))"
proof -
  define xs' where "xs' = take (10 * L) xs"
  define env where "env = map (envelope L xs') [0..<10]"
  obtain lr vad where v: "WebRtcAgc_ProcessVad (vadNearend s) xs' (L * 10) = (lr, vad)" by fastforce
  define d where "d = digital_decay (s\<lparr>vadNearend := vad\<rparr>) lr low"
  have xs': "length xs' = 10 * L" "\<forall>x \<in> set xs'. is_i16 x" using assms(3,4) by (auto simp: xs'_def dest: in_set_takeD)
  have env: "\<forall>e \<in> set env. level_ok e" "length env = 10" using envelope_ok [OF xs'(2)] xs'(1) by (auto simp: env_def)
  have ok: "table_ok (gainTable s)" "level_ok (capacitorFast s)" "level_ok (capacitorSlow s)" "gain_ok (gain s)"
    using assms(1) by (auto simp: digital_ok_def)
  obtain gs fast slow zeros frac where
    sg: "subframe_gains (gainTable s) d env (capacitorFast s, capacitorSlow s) (0, 0) = Some (gs, (fast, slow), zeros, frac)"
      "length gs = 10" "\<forall>g \<in> set gs. gain_ok g" "level_ok fast" "level_ok slow"
    using subframe_gains_ok [OF ok(1) env(1), of "(capacitorFast s, capacitorSlow s)" d "(0, 0)"] ok env(2)
      digital_decay_range by (auto simp: d_def)
  obtain gate gatePrev where gv: "gate_value zeros frac fast (stdShortTerm vad) (gatePrevious s) = (gate, gatePrev)" by fastforce
  define gs1 where "gs1 = map (gate_gain gate (gainTable s ! 0)) gs"
  have "gain_ok (gainTable s ! 0)" using ok(1) by (simp add: table_ok_def gain_ok_def)
  then have gs1: "length gs1 = 10" "\<forall>g \<in> set gs1. gain_ok g" using sg by (auto simp: gs1_def gate_gain_ok)
  obtain gs2 where gs2: "limit_gains env gs1 = Some gs2" "length gs2 = 10"
    "\<And>k. k < 10 \<Longrightarrow> gain_ok (gs2 ! k) \<and> limited (env ! k) (gs2 ! k)"
    using limit_gains_ok [of env gs1] gs1 env by auto
  define G where "G = early_reductions (gain s # gs2)"
  define s' where "s' = s\<lparr>vadNearend := vad, capacitorFast := fast, capacitorSlow := slow, gatePrevious := gatePrev, gain := G ! 10\<rparr>"
  have "WebRtcAgc_ProcessDigital s (xs # bands) FS low = Some (0, apply_gains L L2 G (map (take (10 * L)) (xs # bands)), s')"
    using v sg(1) gv gs2(1)
    by (simp add: WebRtcAgc_ProcessDigital_def assms(2) Let_def d_def [symmetric] env_def xs'_def gs1_def G_def s'_def)
  moreover note G = limited_gains_reduced [OF gs2(2) ok(4) conjunct1 [OF gs2(3)], folded G_def]
  moreover have "digital_ok s'" using ok sg(4,5) G(3) by (simp add: digital_ok_def s'_def)
  moreover have "\<forall>g \<in> set G. gain_ok g" using G(1,3) by (metis in_set_conv_nth)
  moreover have "\<exists>g. gain_ok g \<and> limited (envelope L xs' k) g \<and> G ! k \<le> g \<and> G ! (k + 1) \<le> g" if "1 \<le> k \<and> k < 10" for k
    using gs2(3) [of k] G(4) [of k] that by (intro exI [of _ "gs2 ! k"]) (simp add: env_def)
  ultimately show ?thesis unfolding xs'_def by blast
qed

text \<open>C22: The digital gain control never overflows after the first millisecond of a frame. In a state whose
  table is bounded and smooth and whose envelope followers are in range, a frame of 16-bit samples is processed without
  failing: the limiter loop ends, no access is outside an array, and the new state is again of this form. Every sample of
  the sub-frames 1 to 9 of the lowest band is the input times a gain in Q16, and although the code saturates neither
  the 32-bit product nor the conversion to 16 bits, both are exact.\<close>

theorem digital_limiter_exact:
  assumes "digital_ok s" "digital_rate FS = Some (L, L2)" "\<forall>x \<in> set xs. is_i16 x" "10 * L \<le> length xs"
  shows "\<exists>out s'. WebRtcAgc_ProcessDigital s (xs # bands) FS low = Some (0, out, s') \<and> digital_ok s' \<and>
    (\<forall>i. L \<le> i \<and> i < 10 * L \<longrightarrow>
      (\<exists>g. gain_ok g \<and> is_i32 (xs ! i * g) \<and> out ! 0 ! i = xs ! i * g div 65536 \<and> is_i16 (out ! 0 ! i)))"
proof -
  have L: "L = 2 ^ L2" "L2 \<le> 4" "3 \<le> L2" using assms(2) by (auto simp: digital_rate_def split: if_splits)
  define xs' where "xs' = take (10 * L) xs"
  from digital_stages [OF assms] obtain G s' where
    P: "WebRtcAgc_ProcessDigital s (xs # bands) FS low = Some (0, apply_gains L L2 G (map (take (10 * L)) (xs # bands)), s')"
      "digital_ok s'" "length G = 11" "\<forall>g \<in> set G. gain_ok g"
    and lim: "\<And>k. 1 \<le> k \<Longrightarrow> k < 10 \<Longrightarrow> \<exists>g. gain_ok g \<and> limited (envelope L xs' k) g \<and> G ! k \<le> g \<and> G ! (k + 1) \<le> g"
    unfolding xs'_def by blast
  have "\<exists>g. gain_ok g \<and> is_i32 (xs ! i * g) \<and> apply_gains L L2 G (map (take (10 * L)) (xs # bands)) ! 0 ! i = xs ! i * g div 65536
      \<and> is_i16 (apply_gains L L2 G (map (take (10 * L)) (xs # bands)) ! 0 ! i)" if i: "L \<le> i" "i < 10 * L" for i
  proof -
    have e: "apply_gains L L2 G (map (take (10 * L)) (xs # bands)) ! 0 ! i = later_sample (gain_of_sample G L L2 i) (xs ! i)"
      using apply_gains_nth(3) [OF P(3,4) L, of 0 "map (take (10 * L)) (xs # bands)" i] assms(4) i by simp
    have k: "1 \<le> i div L" "i div L < 10" using i L(1) by (simp_all add: less_mult_imp_div_less div_greater_zero_iff Suc_le_eq)
    from lim [OF k] obtain g where g: "gain_ok g" "limited (envelope L xs' (i div L)) g" "G ! (i div L) \<le> g" "G ! (i div L + 1) \<le> g"
      by blast
    have x: "xs ! i * xs ! i \<le> envelope L xs' (i div L)"
      using envelope_ge [of "i mod L" L xs' "i div L"] L(1) i div_mult_mod_eq [of i L] by (simp add: xs'_def)
    have "gain_ok (G ! (i div L))" "gain_ok (G ! (i div L + 1))" using P(3,4) k by auto
    from limited_sample [OF L(1,2) g(3,4) this g(1,2) x] show ?thesis unfolding e by metis
  qed
  then show ?thesis using P(1,2) by blast
qed


text \<open>A concrete state: the table that \<open>webrtc.cc\<close> configures (compression 20 dB, target 3 dB, limiter on,
  fixed digital mode), the gain that a silent frame leaves.\<close>

definition table_of_webrtc :: "int list" where
  "table_of_webrtc = [32814, 45708, 65620, 91416, 131256, 182824, 262496, 365648, 524992,
     636096, 653632, 656384, 656736, 656800, 656736, 656800, 656800, 656736,
     656800, 656800, 656736, 656800, 656800, 656736, 656800, 656800, 656736,
     656800, 656800, 656736, 656800, 656736]"

lemma table_of_webrtc_computed: "WebRtcAgc_CalculateGainTable t 23 3 1 23 = Some (0, table_of_webrtc)"
  by code_simp


definition webrtc_digital :: DigitalAgc where
  "webrtc_digital =
     (let vad = \<lparr>downState = replicate 8 0, HPstate = 0, counter = 3, logRatio = 0, meanLongTerm = 15360,
             varianceLongTerm = 128000, stdLongTerm = 0, meanShortTerm = 15360, varianceShortTerm = 128000, stdShortTerm = 0\<rparr>
      in \<lparr>capacitorSlow = 0, capacitorFast = 0, gain = 656736, gainTable = table_of_webrtc, gatePrevious = 0,
           agcMode = kAgcModeFixedDigital, vadNearend = vad, vadFarend = vad\<rparr>)"

lemma table_of_webrtc_ok: "table_ok table_of_webrtc"
  by code_simp

lemma webrtc_digital_ok: "digital_ok webrtc_digital"
  using table_of_webrtc_ok by (simp add: digital_ok_def webrtc_digital_def level_ok_def gain_ok_def Let_def)

section \<open>The first sub-frame\<close>

lemma first_sample_negative:
  assumes "0 \<le> g" "g \<le> 983040"
  shows "0 < first_sample (16 * g) (- 32768) \<longleftrightarrow> 524288 < g"
proof -
  define p where "p = (16 * g + 127) div 128"
  have p: "128 * p \<le> 16 * g + 127" "16 * g \<le> 128 * p"
    using div_mult_mod_eq [of "16 * g + 127" 128] pos_mod_bound [of 128 "16 * g + 127"] pos_mod_sign [of 128 "16 * g + 127"]
    unfolding p_def by auto
  have P: "shr (to_i32 (16 * g + 127)) 7 = p" using assms by (simp add: to_i32_id is_i32_def shr_def p_def)
  have q: "shr (16 * g) 4 = g" by (simp add: shr_def)
  have F: "first_sample (16 * g) (- 32768) = (let out_tmp = to_i32 (- (32768 * p)) div 65536
      in if out_tmp > 4095 then 32767 else if out_tmp < - 4096 then - 32768 else to_i16 (to_i32 (- (32768 * g)) div 65536))"
    unfolding first_sample_def P q by (simp add: shr_def Let_def)
  show ?thesis
  proof (cases "524288 < g")
    case True
    then have "65536 < p" "p \<le> 122880" using p assms by linarith+
    then have "(6442450944 - 32768 * p) mod 4294967296 = 6442450944 - 32768 * p" by (intro mod_pos_pos_trivial) auto
    then have "to_i32 (- (32768 * p)) = 32768 * (131072 - p)"
      using mod_add_self2 [of "2147483648 - 32768 * p" 4294967296] by (simp add: to_i32_def)
    moreover have "4096 \<le> 32768 * (131072 - p) div 65536" using \<open>p \<le> 122880\<close> by (intro int_le_div) auto
    ultimately show ?thesis using True by (simp add: F)
  next
    case False
    then have "p \<le> 65536" "0 \<le> p" using p assms by linarith+
    then have e: "to_i32 (- (32768 * p)) = - (32768 * p)" by (simp add: to_i32_id is_i32_def)
    show ?thesis
    proof (cases "8192 < p")
      case True
      have "- (32768 * p) div 65536 < - 4096" using True by (intro int_div_less) auto
      then show ?thesis using False by (simp add: F e)
    next
      case p': False
      have "g \<le> 65536" using p p' by linarith
      then have "to_i32 (- (32768 * g)) = - (32768 * g)" "- 32768 \<le> - (32768 * g) div 65536" "- (32768 * g) div 65536 < 1"
        using assms by (auto simp: to_i32_id is_i32_def intro!: int_le_div int_div_less)
      moreover have "- (32768 * p) div 65536 < 1" using \<open>0 \<le> p\<close> by (intro int_div_less) auto
      ultimately show ?thesis using False by (simp add: F e to_i16_id is_i16_def Let_def)
    qed
  qed
qed

text \<open>C24: At the start of a frame the gain control can invert a full-scale sample. The first millisecond of a frame
  is not protected by the limiter but by a saturation whose own test multiplies in 32 bits. When the first sample of the
  frame is -32768 and the gain in force is at most 15.0, the output is positive exactly when that gain exceeds 8.0
  (18 dB); below, the sign is kept. With the configuration of \<open>webrtc.cc\<close> (20 dB) all the gains of the table for low levels
  (up to 656800, that is 10.02) are in the failing range.\<close>

theorem onset_sign_flips_above_8:
  assumes "digital_ok s" "digital_rate FS = Some (L, L2)" "\<forall>x \<in> set xs. is_i16 x" "10 * L \<le> length xs"
    "xs ! 0 = - 32768" "gain s \<le> 983040"
  shows "\<exists>out s'. WebRtcAgc_ProcessDigital s (xs # bands) FS low = Some (0, out, s') \<and> (0 < out ! 0 ! 0 \<longleftrightarrow> 524288 < gain s)"
proof -
  have L: "L = 2 ^ L2" "L2 \<le> 4" "3 \<le> L2" using assms(2) by (auto simp: digital_rate_def split: if_splits)
  from digital_stages [OF assms(1-4)] obtain G s' where
    P: "WebRtcAgc_ProcessDigital s (xs # bands) FS low = Some (0, apply_gains L L2 G (map (take (10 * L)) (xs # bands)), s')"
      "length G = 11" "\<forall>g \<in> set G. gain_ok g" "G ! 0 = gain s" by blast
  have "apply_gains L L2 G (map (take (10 * L)) (xs # bands)) ! 0 ! 0 = first_sample (16 * gain s) (xs ! 0)"
    using apply_gains_nth(3) [OF P(2,3) L, of 0 "map (take (10 * L)) (xs # bands)" 0] assms(4) L(1) P(4)
    by (simp add: gain_of_sample_def gain_at_def)
  then show ?thesis
    using P(1) first_sample_negative [of "gain s"] assms(1,5,6) by (simp add: digital_ok_def gain_ok_def)
qed

lemma onset_sign_flips_above_8_witness:
  "524288 < gain webrtc_digital \<and>
   (\<exists>out s'. WebRtcAgc_ProcessDigital webrtc_digital [replicate 80 (- 32768)] 8000 0 = Some (0, out, s') \<and> 0 < out ! 0 ! 0)"
  using onset_sign_flips_above_8 [OF webrtc_digital_ok, of 8000 8 3 "replicate 80 (- 32768)" "[]" 0]
  by (simp add: digital_rate_def is_i16_def webrtc_digital_def Let_def)

lemma digital_limiter_exact_witness:
  "\<exists>out s'. WebRtcAgc_ProcessDigital webrtc_digital [replicate 160 32767] 16000 0 = Some (0, out, s') \<and> digital_ok s' \<and>
    (\<forall>i. 16 \<le> i \<and> i < 160 \<longrightarrow> (\<exists>g. gain_ok g \<and> out ! 0 ! i = 32767 * g div 65536 \<and> is_i16 (out ! 0 ! i)))"
  using digital_limiter_exact [OF webrtc_digital_ok, of 16000 16 4 "replicate 160 32767" "[]" 0]
  by (fastforce simp: digital_rate_def is_i16_def)


section \<open>Outcome of the gain table computation\<close>

lemma kGenFuncTable_length [simp]: "length kGenFuncTable = 128"
  by (simp add: kGenFuncTable_def)

lemma kGenFuncTable_range:
  assumes "i < 128" shows "256 \<le> kGenFuncTable ! i" "kGenFuncTable ! i \<le> 46905"
proof -
  have "\<forall>x \<in> set kGenFuncTable. 256 \<le> x \<and> x \<le> 46905" by (simp add: kGenFuncTable_def)
  then show "256 \<le> kGenFuncTable ! i" "kGenFuncTable ! i \<le> 46905" using assms by auto
qed

lemma gain_log_approx_total:
  assumes "\<bar>x\<bar> < 127 * 16384" shows "\<exists>v. gain_log_approx x = Some v"
proof -
  have "0 \<le> \<bar>x\<bar> div 16384" "\<bar>x\<bar> div 16384 < 127" using assms by (auto simp: pos_imp_zdiv_nonneg_iff intro: int_div_less)
  then have "nat (to_u16 (shr \<bar>x\<bar> 14)) + 1 < 128" by (simp add: to_u16_def shr_def)
  moreover have "to_u32 (if x \<ge> 0 then x else - x) = \<bar>x\<bar>" using assms by (auto simp: to_u32_id is_u32_def)
  ultimately show ?thesis by (simp add: gain_log_approx_def Let_def split: prod.split)
qed

lemma gain_log_approx_past_table:
  assumes "127 * 16384 \<le> x" "x < 1073741824" shows "gain_log_approx x = None"
proof -
  have "127 \<le> x div 16384" "x div 16384 < 65536" using assms by (auto intro: int_le_div int_div_less)
  then have "\<not> nat (to_u16 (shr x 14)) + 1 < 128" by (simp add: to_u16_def shr_def nat_less_iff)
  moreover have "to_u32 (if x \<ge> 0 then x else - x) = x" using assms by (auto simp: to_u32_id is_u32_def)
  ultimately show ?thesis by (simp add: gain_log_approx_def Let_def)
qed

text \<open>The divisor of an entry: normalising the numerator shifts it out of neither side.\<close>

lemma norm_times:
  assumes "is_i32 a" "a \<noteq> 0" shows "\<bar>a\<bar> * 2 ^ nat (WebRtcSpl_NormW32 a) \<le> 4294967296"
proof (cases "a = - 1")
  case True
  have "nat (WebRtcSpl_NormW32 a) \<le> 31" using NormW32_bounds [OF assms(1)] by simp
  from power_increasing [OF this, of "2 :: int"] show ?thesis using True by simp
next
  case False
  have "\<bar>a * 2 ^ nat (WebRtcSpl_NormW32 a)\<bar> \<le> 2147483648"
    using NormW32_largest(1) [OF assms False] by (auto simp: is_i32_def)
  then show ?thesis by (simp add: abs_mult)
qed

lemma to_i32_positive: "0 < x \<Longrightarrow> x \<le> 2147483648 \<Longrightarrow> to_i32 x \<noteq> 0"
  by (cases "x = 2147483648") (auto simp: to_i32_def)

lemma entry_divisor_nonzero:
  assumes den: "5120 \<le> den" "den \<le> 1000000" and num: "is_i32 num"
  defines "z \<equiv> (if num > shr den 8 \<or> - num > shr den 8 then WebRtcSpl_NormW32 num else WebRtcSpl_NormW32 den + 8)"
  shows "SPL_SHIFT_W32 den (z - 9) \<noteq> 0"
proof -
  have i: "is_i32 den" "den \<noteq> 0" using den by (auto simp: is_i32_def)
  have sd: "0 \<le> shr den 8" using den by (simp add: shr_def pos_imp_zdiv_nonneg_iff)
  have z: "0 \<le> z" using NormW32_bounds(1) [OF num] NormW32_bounds(1) [OF i(1)] by (simp add: z_def)
  have b: "den * 2 ^ nat z \<le> 256 * 4294967296"
  proof (cases "num > shr den 8 \<or> - num > shr den 8")
    case True
    then have "num \<noteq> 0" "shr den 8 + 1 \<le> \<bar>num\<bar>" using sd by auto
    then have "den \<le> 256 * \<bar>num\<bar>" using div_mult_mod_eq [of den 256] pos_mod_bound [of 256 den] by (simp add: shr_def)
    then have "den * 2 ^ nat z \<le> 256 * (\<bar>num\<bar> * 2 ^ nat z)" by simp
    also have "\<bar>num\<bar> * 2 ^ nat z \<le> 4294967296" using norm_times [OF num \<open>num \<noteq> 0\<close>] True by (simp add: z_def)
    finally show ?thesis by simp
  next
    case False
    then have "2 ^ nat z = 256 * (2 :: int) ^ nat (WebRtcSpl_NormW32 den)"
      using NormW32_bounds(1) [OF i(1)] by (simp add: z_def nat_add_distrib power_add)
    then show ?thesis using norm_times [OF i] den by simp
  qed
  show ?thesis
  proof (cases "9 \<le> z")
    case True
    have "2 ^ nat z = (2 :: int) ^ (nat (z - 9) + 9)" using True by (intro arg_cong [of _ _ "\<lambda>n. 2 ^ n"]) linarith
    then have "2 ^ nat z = 512 * (2 :: int) ^ nat (z - 9)" by (simp only: power_add) simp
    then have "den * 2 ^ nat (z - 9) \<le> 2147483648" using b by simp
    moreover have "0 < den * 2 ^ nat (z - 9)" using den by simp
    ultimately show ?thesis using True to_i32_positive by (auto simp: SPL_SHIFT_W32_def)
  next
    case False
    then have "(2 :: int) ^ nat (- (z - 9)) \<le> 2 ^ 9" using z by (intro power_increasing) auto
    then have "1 \<le> den div 2 ^ nat (- (z - 9))" using den by (intro int_le_div) auto
    then show ?thesis using False by (simp add: SPL_SHIFT_W32_def shr_def)
  qed
qed

lemma entry_level_range:
  assumes "i < 32"
  shows "- 32880 \<le> WebRtcSpl_DivW32W16 (to_i32 (to_i16 (2 * (int i - 1)) * kLog10_2 + 1)) 3"
    "WebRtcSpl_DivW32W16 (to_i32 (to_i16 (2 * (int i - 1)) * kLog10_2 + 1)) 3 \<le> 990000"
proof -
  have "\<forall>i \<in> {0..<32}. - 32880 \<le> WebRtcSpl_DivW32W16 (to_i32 (to_i16 (2 * (int i - 1)) * kLog10_2 + 1)) 3 \<and>
    WebRtcSpl_DivW32W16 (to_i32 (to_i16 (2 * (int i - 1)) * kLog10_2 + 1)) 3 \<le> 990000" by code_simp
  then show "- 32880 \<le> WebRtcSpl_DivW32W16 (to_i32 (to_i16 (2 * (int i - 1)) * kLog10_2 + 1)) 3"
    "WebRtcSpl_DivW32W16 (to_i32 (to_i16 (2 * (int i - 1)) * kLog10_2 + 1)) 3 \<le> 990000" using assms by auto
qed

lemma gain_entry_total:
  assumes "0 \<le> diff" "diff \<le> 124" "256 \<le> c" "c \<le> 46905" "i < 32"
  shows "\<exists>g. gain_entry maxGain diff c lim idx lvl i = Some g"
proof -
  define q where "q = WebRtcSpl_DivW32W16 (to_i32 (to_i16 (2 * (int i - 1)) * kLog10_2 + 1)) 3"
  have "- 32880 \<le> q" "q \<le> 990000" unfolding q_def using entry_level_range [OF assms(5)] by auto
  then have "to_i32 (diff * shl 1 14 - q) = diff * 16384 - q" "\<bar>diff * 16384 - q\<bar> < 127 * 16384"
    using assms by (auto simp: to_i32_id is_i32_def shl_def)
  with gain_log_approx_total obtain v where v: "gain_log_approx (to_i32 (diff * shl 1 14 - q)) = Some v" by metis
  define num where "num = to_i32 (to_i32 (to_i32 (maxGain * c) * shl 1 6) - to_i32 (to_i32 v * diff))"
  have d: "5120 \<le> 20 * c" "20 * c \<le> 1000000" using assms by auto
  have "is_i32 num" by (simp add: num_def)
  from entry_divisor_nonzero [OF d this] show ?thesis
    using v unfolding gain_entry_def q_def num_def Let_def by (simp del: to_i32_diff_left)
qed

lemma gain_entry_past_table:
  assumes "125 \<le> diff" "diff \<le> 127" shows "gain_entry maxGain diff c lim idx lvl 0 = None"
proof -
  have q: "WebRtcSpl_DivW32W16 (to_i32 (to_i16 (2 * (int 0 - 1)) * kLog10_2 + 1)) 3 = - 32880" by code_simp
  have "to_i32 (diff * shl 1 14 - - 32880) = diff * 16384 + 32880" using assms by (simp add: to_i32_id is_i32_def shl_def)
  then have "gain_log_approx (to_i32 (diff * shl 1 14 - - 32880)) = None"
    using assms by (simp add: gain_log_approx_past_table)
  then show ?thesis unfolding gain_entry_def Let_def q by simp
qed

lemma gain_entries_total:
  assumes "\<forall>i \<in> set is. \<exists>g. f i = Some g" shows "\<exists>gs. gain_entries f is = Some gs \<and> length gs = length is"
  using assms by (induction "is") auto

lemma compression_third:
  assumes "is_i16 dig"
  shows "WebRtcSpl_DivW32W16ResW16 (dig * (3 - 1) + shr 3 1) 3 = c_div (2 * dig + 1) 3"
proof -
  have "\<bar>2 * dig + 1\<bar> div 3 \<le> 22000" using assms by (intro zle_add1_eq_le [THEN iffD1] int_div_less) (auto simp: is_i16_def)
  moreover have "\<bar>c_div x 3\<bar> = \<bar>x\<bar> div 3" for x
    by (cases x rule: linorder_cases [of _ 0]) (simp_all add: c_div_def abs_mult pos_imp_zdiv_nonneg_iff)
  ultimately have "\<bar>c_div (2 * dig + 1) 3\<bar> \<le> 22000" by simp
  moreover have e: "dig * (3 - 1) + shr 3 1 = 2 * dig + 1" by (simp add: shr_def)
  ultimately show ?thesis unfolding e
    by (simp add: WebRtcSpl_DivW32W16ResW16_def to_i32_id to_i16_id is_i32_def is_i16_def abs_le_iff)
qed

text \<open>The outcome for every compression gain, whatever the other settings are: refused, past the end of the generator
  table, or 32 entries.\<close>

lemma gain_table_outcome:
  assumes "is_i16 dig"
  shows "if dig < - 1 \<or> 191 < dig then WebRtcAgc_CalculateGainTable T dig target limiter analog = Some (- 1, T)
    else if 187 \<le> dig then WebRtcAgc_CalculateGainTable T dig target limiter analog = None
    else \<exists>T'. WebRtcAgc_CalculateGainTable T dig target limiter analog = Some (0, T') \<and> length T' = 32"
proof -
  define diff where "diff = c_div (2 * dig + 1) 3"
  note D = compression_third [OF assms, folded diff_def]
  have r: "diff < 0 \<longleftrightarrow> dig < - 1" "128 \<le> diff \<longleftrightarrow> 191 < dig" "125 \<le> diff \<longleftrightarrow> 187 \<le> dig"
  proof -
    have "diff = (if 0 \<le> dig then (2 * dig + 1) div 3 else - ((- 2 * dig - 1) div 3))"
      by (simp add: diff_def c_div_def sgn_if)
    then show "diff < 0 \<longleftrightarrow> dig < - 1" "128 \<le> diff \<longleftrightarrow> 191 < dig" "125 \<le> diff \<longleftrightarrow> 187 \<le> dig" by presburger+
  qed
  show ?thesis
  proof (cases "dig < - 1 \<or> 191 < dig")
    case True
    then show ?thesis using r unfolding WebRtcAgc_CalculateGainTable_def Let_def D by auto
  next
    case False
    then have n: "\<not> (diff < 0 \<or> diff \<ge> 128)" using r by auto
    obtain c m li lv where e: "WebRtcAgc_CalculateGainTable T dig target limiter analog =
      map_option (Pair 0) (gain_entries (gain_entry m diff c limiter li lv) [0..<32])" "c = kGenFuncTable ! nat diff"
      unfolding WebRtcAgc_CalculateGainTable_def Let_def D if_not_P [OF n] by blast
    show ?thesis
    proof (cases "187 \<le> dig")
      case True
      have "[0..<32] = 0 # [1..<32 :: nat]" by (simp add: upt_rec)
      then show ?thesis using False True e r n by (simp add: gain_entry_past_table)
    next
      case past: False
      have c: "256 \<le> c" "c \<le> 46905" using kGenFuncTable_range [of "nat diff"] n e(2) by auto
      have "\<exists>gs. gain_entries (gain_entry m diff c limiter li lv) [0..<32] = Some gs \<and> length gs = length [0..<32]"
        using gain_entry_total [of diff c] c n r(3) past by (intro gain_entries_total) auto
      then show ?thesis using False past e by auto
    qed
  qed
qed

end
