(* ===== verification/AgcAnalog.thy ===== *)
theory AgcAnalog
  imports AgcDigital
begin

text \<open>
  The gain control as a whole (\<open>agc/legacy/analog_agc.h\<close>, \<open>analog_agc.c\<close>, \<open>gain_control.h\<close>): the analog part that
  steers the level of a microphone, the emulation of a microphone, the configuration, and the processing of a frame
  by the digital and the analog part. \<open>MIC_LEVEL_FEEDBACK\<close> and \<open>WEBRTC_AGC_DEBUG_DUMP\<close> are not defined in the builds of
  the repository, and their code is left out.

  \<open>None\<close> as the result of an operation is an access outside a table or a division by zero; a handle is an option,
  \<open>None\<close> the null pointer.
\<close>

section \<open>State\<close>

record WebRtcAgcConfig =
  targetLevelDbfs_cfg :: int
  compressionGaindB_cfg :: int
  limiterEnable_cfg :: int

record LegacyAgc =
  fs :: int
  compressionGaindB :: int
  targetLevelDbfs :: int
  agcMode_ana :: int
  limiterEnable :: int
  defaultConfig :: WebRtcAgcConfig
  usedConfig :: WebRtcAgcConfig
  initFlag :: int
  lastError :: int
  analogTargetLevel :: int
  startUpperLimit :: int
  startLowerLimit :: int
  upperPrimaryLimit :: int
  lowerPrimaryLimit :: int
  upperSecondaryLimit :: int
  lowerSecondaryLimit :: int
  targetIdx :: int
  analogTarget :: int
  filterState :: "int list"
  upperLimit :: int
  lowerLimit :: int
  Rxx160w32 :: int
  Rxx16_LPw32 :: int
  Rxx160_LPw32 :: int
  Rxx16_LPw32Max :: int
  Rxx16_vectorw32 :: "int list"
  Rxx16w32_array :: "int list list"
  env_rows :: "int list list"
  Rxx16pos :: int
  envSum :: int
  vadThreshold :: int
  inActive :: int
  msTooLow :: int
  msTooHigh :: int
  changeToSlowMode :: int
  firstCall :: int
  msZero :: int
  msecSpeechOuterChange :: int
  msecSpeechInnerChange :: int
  activeSpeech :: int
  muteGuardMs :: int
  inQueue :: int
  micRef :: int
  gainTableIdx :: int
  micGainIdx :: int
  micVol :: int
  maxLevel :: int
  maxAnalog :: int
  maxInit :: int
  minLevel :: int
  minOutput :: int
  zeroCtrlMax :: int
  lastInMicLevel :: int
  scale :: int
  vadMic :: AgcVad
  digitalAgc :: DigitalAgc
  lowLevelSignal :: int

definition RXX_BUFFER_LEN :: int where "RXX_BUFFER_LEN = 10"
definition kMsecSpeechInner :: int where "kMsecSpeechInner = 520"
definition kMsecSpeechOuter :: int where "kMsecSpeechOuter = 340"
definition kNormalVadThreshold :: int where "kNormalVadThreshold = 400"
definition kAlphaShortTerm :: nat where "kAlphaShortTerm = 6"
definition kAlphaLongTerm :: nat where "kAlphaLongTerm = 10"

definition kSlope1 :: "int list" where "kSlope1 = [21793, 12517, 7189, 4129, 2372, 1362, 472, 78]"
definition kOffset1 :: "int list" where "kOffset1 = [25395, 23911, 22206, 20737, 19612, 18805, 17951, 17367]"
definition kSlope2 :: "int list" where "kSlope2 = [2063, 1731, 1452, 1218, 1021, 857, 597, 337]"
definition kOffset2 :: "int list" where "kOffset2 = [18432, 18379, 18290, 18177, 18052, 17920, 17670, 17286]"

definition kMuteGuardTimeMs :: int where "kMuteGuardTimeMs = 8000"
definition kInitCheck :: int where "kInitCheck = 42"

definition AGC_UNSPECIFIED_ERROR :: int where "AGC_UNSPECIFIED_ERROR = 18000"
definition AGC_UNINITIALIZED_ERROR :: int where "AGC_UNINITIALIZED_ERROR = 18002"
definition AGC_NULL_POINTER_ERROR :: int where "AGC_NULL_POINTER_ERROR = 18003"
definition AGC_BAD_PARAMETER_ERROR :: int where "AGC_BAD_PARAMETER_ERROR = 18004"
definition kAgcFalse :: int where "kAgcFalse = 0"
definition kAgcTrue :: int where "kAgcTrue = 1"

definition kGainTableAnalog :: "int list" where
  "kGainTableAnalog = [
  4096, 4251, 4412, 4579, 4752, 4932, 5118, 5312, 5513, 5722, 5938, 6163, 6396, 6638, 6889, 7150,
  7420, 7701, 7992, 8295, 8609, 8934, 9273, 9623, 9987, 10365, 10758, 11165, 11587, 12025, 12480, 12953
  ]"

definition kGainTableVirtualMic :: "int list" where
  "kGainTableVirtualMic = [
  1052, 1081, 1110, 1141, 1172, 1204, 1237, 1271, 1305, 1341, 1378, 1416, 1454, 1494, 1535, 1577,
  1620, 1664, 1710, 1757, 1805, 1854, 1905, 1957, 2010, 2065, 2122, 2180, 2239, 2301, 2364, 2428,
  2495, 2563, 2633, 2705, 2779, 2855, 2933, 3013, 3096, 3180, 3267, 3357, 3449, 3543, 3640, 3739,
  3842, 3947, 4055, 4166, 4280, 4397, 4517, 4640, 4767, 4898, 5032, 5169, 5311, 5456, 5605, 5758,
  5916, 6078, 6244, 6415, 6590, 6770, 6956, 7146, 7341, 7542, 7748, 7960, 8178, 8402, 8631, 8867,
  9110, 9359, 9615, 9878, 10148, 10426, 10711, 11004, 11305, 11614, 11932, 12258, 12593, 12938, 13292, 13655,
  14029, 14412, 14807, 15212, 15628, 16055, 16494, 16945, 17409, 17885, 18374, 18877, 19393, 19923, 20468, 21028,
  21603, 22194, 22801, 23425, 24065, 24724, 25400, 26095, 26808, 27541, 28295, 29069, 29864, 30681, 31520, 32382
  ]"

definition kSuppressionTableVirtualMic :: "int list" where
  "kSuppressionTableVirtualMic = [
  1024, 1006, 988, 970, 952, 935, 918, 902, 886, 870, 854, 839, 824, 809, 794, 780,
  766, 752, 739, 726, 713, 700, 687, 675, 663, 651, 639, 628, 616, 605, 594, 584,
  573, 563, 553, 543, 533, 524, 514, 505, 496, 487, 478, 470, 461, 453, 445, 437,
  429, 421, 414, 406, 399, 392, 385, 378, 371, 364, 358, 351, 345, 339, 333, 327,
  321, 315, 309, 304, 298, 293, 288, 283, 278, 273, 268, 263, 258, 254, 249, 244,
  240, 236, 232, 227, 223, 219, 215, 211, 208, 204, 200, 197, 193, 190, 186, 183,
  180, 176, 173, 170, 167, 164, 161, 158, 155, 153, 150, 147, 145, 142, 139, 137,
  134, 132, 130, 127, 125, 123, 121, 118, 116, 114, 112, 110, 108, 106, 104, 102
  ]"

definition kTargetLevelTable :: "int list" where
  "kTargetLevelTable = [
  134209536, 106606424, 84680493, 67264106, 53429779, 42440782, 33711911, 26778323, 21270778, 16895980, 13420954, 10660642, 8468049, 6726411, 5342978, 4244078,
  3371191, 2677832, 2127078, 1689598, 1342095, 1066064, 846805, 672641, 534298, 424408, 337119, 267783, 212708, 168960, 134210, 106606,
  84680, 67264, 53430, 42441, 33712, 26778, 21271, 16896, 13421, 10661, 8468, 6726, 5343, 4244, 3371, 2678,
  2127, 1690, 1342, 1066, 847, 673, 534, 424, 337, 268, 213, 169, 134, 107, 85, 67
  ]"

section \<open>Microphone and far end\<close>

text \<open>The slowly varying digital gain: the new \<open>gainTableIdx\<close> and, when a gain applies, its value in Q12.\<close>

definition mic_gain :: "LegacyAgc \<Rightarrow> (int \<times> int option) option" where
  "mic_gain stt =
     (if micVol stt > maxAnalog stt
      then let tmp16 = to_i16 (micVol stt - maxAnalog stt);
               tmp32 = 31 * tmp16;
               tmp16 = to_i16 (maxLevel stt - maxAnalog stt)
           in if tmp16 = 0 then None
              else let targetGainIdx = to_u16 (c_div tmp32 tmp16);
                       idx = (if gainTableIdx stt < targetGainIdx then to_u16 (gainTableIdx stt + 1)
                              else if gainTableIdx stt > targetGainIdx then gainTableIdx stt - 1 else gainTableIdx stt)
                   in if nat idx < length kGainTableAnalog then Some (idx, Some (kGainTableAnalog ! nat idx)) else None
      else Some (0, None))"

definition clamp16 :: "int \<Rightarrow> int" where
  "clamp16 x = (if x > 32767 then 32767 else if x < - 32768 then - 32768 else to_i16 x)"

definition scale_band :: "int \<Rightarrow> nat \<Rightarrow> int list \<Rightarrow> int list" where
  "scale_band g n xs = map (\<lambda>x. clamp16 (shr (x * g) 12)) (take n xs) @ drop n xs"

text \<open>The energies of five blocks of 16 samples; at 16 kHz after downsampling by two.\<close>

definition mic_energies :: "int \<Rightarrow> int list \<Rightarrow> int list \<Rightarrow> int list \<times> int list" where
  "mic_energies rate xs fstate =
     fold (\<lambda>i (es, fstate).
       let (tmp_speech, fstate) = (if rate = 16000 then WebRtcSpl_DownsampleBy2 (drop (i * 32) xs) 32 fstate
             else (take 16 (drop (i * 16) xs), fstate))
       in (es @ [WebRtcSpl_DotProductWithScale tmp_speech tmp_speech 16 4], fstate)) [0..<5] ([], fstate)"

definition WebRtcAgc_AddMic :: "LegacyAgc \<Rightarrow> int list list \<Rightarrow> nat \<Rightarrow> (int \<times> int list list \<times> LegacyAgc) option" where
  "WebRtcAgc_AddMic stt in_mic samples =
     (let L = (if fs stt = 8000 then 8 else 16)
      in if samples \<noteq> L * 10 then Some (- 1, in_mic, stt)
         else case mic_gain stt of None \<Rightarrow> None
           | Some (idx, g) \<Rightarrow>
               (let in_mic = (case g of None \<Rightarrow> in_mic | Some g \<Rightarrow> map (scale_band g samples) in_mic);
                    row = (if inQueue stt > 0 then 1 else 0);
                    (energies, fstate) = mic_energies (fs stt) (in_mic ! 0) (filterState stt)
                in Some (0, in_mic, stt\<lparr>gainTableIdx := idx,
                     env_rows := (env_rows stt)[row := map (envelope L (in_mic ! 0)) [0..<10]],
                     Rxx16w32_array := (Rxx16w32_array stt)[row := energies],
                     filterState := fstate,
                     inQueue := (if inQueue stt = 0 then 1 else 2),
                     vadMic := snd (WebRtcAgc_ProcessVad (vadMic stt) (in_mic ! 0) samples)\<rparr>)))"

definition WebRtcAgc_GetAddFarendError :: "LegacyAgc option \<Rightarrow> nat \<Rightarrow> int" where
  "WebRtcAgc_GetAddFarendError state samples =
     (case state of None \<Rightarrow> - 1
      | Some stt \<Rightarrow>
          if fs stt = 8000 then (if samples \<noteq> 80 then - 1 else 0)
          else if fs stt = 16000 \<or> fs stt = 32000 \<or> fs stt = 48000 then (if samples \<noteq> 160 then - 1 else 0)
          else - 1)"

definition WebRtcAgc_AddFarend :: "LegacyAgc option \<Rightarrow> int list \<Rightarrow> nat \<Rightarrow> int \<times> LegacyAgc option" where
  "WebRtcAgc_AddFarend state in_far samples =
     (let err = WebRtcAgc_GetAddFarendError state samples
      in if err \<noteq> 0 then (err, state)
         else case state of None \<Rightarrow> (err, None)
           | Some stt \<Rightarrow> (let (ret, d) = WebRtcAgc_AddFarendToDigital (digitalAgc stt) in_far samples
                         in (ret, Some (stt\<lparr>digitalAgc := d\<rparr>))))"

section \<open>Virtual microphone\<close>

text \<open>The decision whether the frame is a low-level signal, from its energy (summed up to the limit) and its zero
  crossings.\<close>

definition frame_energy :: "int \<Rightarrow> int list \<Rightarrow> nat \<Rightarrow> int" where
  "frame_energy limit xs samples =
     fold (\<lambda>k nrg. if nrg < limit then to_u32 (nrg + xs ! k * xs ! k) else nrg) [1..<samples] (xs ! 0 * xs ! 0)"

definition zero_crossings :: "int list \<Rightarrow> nat \<Rightarrow> int" where
  "zero_crossings xs samples =
     fold (\<lambda>k n. to_i16 (n + (if (xs ! k XOR xs ! (k - 1)) < 0 then 1 else 0))) [1..<samples] 0"

definition low_level_signal :: "int \<Rightarrow> int \<Rightarrow> int \<Rightarrow> int" where
  "low_level_signal limit frameNrg crossings =
     (if frameNrg < 500 \<or> crossings \<le> 5 then 1
      else if crossings \<le> 15 then 0
      else if frameNrg \<le> limit then 1
      else if crossings \<ge> 20 then 1 else 0)"

text \<open>The gain of a position: \<open>first_gain\<close> before the loop, \<open>next_gain\<close> after a step down. The two do not agree on the
  index above 127.\<close>

definition first_gain :: "int \<Rightarrow> int option" where
  "first_gain gainIdx =
     (if gainIdx > 127
      then if nat (gainIdx - 128) < length kGainTableVirtualMic then Some (kGainTableVirtualMic ! nat (gainIdx - 128)) else None
      else if nat (127 - gainIdx) < length kSuppressionTableVirtualMic
           then Some (kSuppressionTableVirtualMic ! nat (127 - gainIdx)) else None)"

definition next_gain :: "int \<Rightarrow> int option" where
  "next_gain gainIdx =
     (if gainIdx \<ge> 127
      then if nat (gainIdx - 127) < length kGainTableVirtualMic then Some (kGainTableVirtualMic ! nat (gainIdx - 127)) else None
      else if nat (127 - gainIdx) < length kSuppressionTableVirtualMic
           then Some (kSuppressionTableVirtualMic ! nat (127 - gainIdx)) else None)"

definition mic_sample :: "int \<Rightarrow> int \<Rightarrow> int" where
  "mic_sample g x = clamp16 (shr (x * g) 10)"

definition mic_overload :: "int \<Rightarrow> int \<Rightarrow> bool" where
  "mic_overload g x \<longleftrightarrow> shr (x * g) 10 > 32767 \<or> shr (x * g) 10 < - 32768"

text \<open>The loop over the samples: an overload of the lowest band lowers the position. The first band is sampled with the
  gain before, the others with the gain after the step.\<close>

fun virtual_mic_loop :: "nat list \<Rightarrow> int \<Rightarrow> int \<Rightarrow> int list list \<Rightarrow> (int \<times> int list list) option" where
  "virtual_mic_loop [] gainIdx g bands = Some (gainIdx, bands)"
| "virtual_mic_loop (ii # iis) gainIdx g bands =
     (let x = hd bands ! ii;
          gainIdx' = (if mic_overload g x then to_i32 (gainIdx - 1) else gainIdx)
      in case (if mic_overload g x then next_gain gainIdx' else Some g) of None \<Rightarrow> None
         | Some g' \<Rightarrow>
             virtual_mic_loop iis gainIdx' g'
               ((hd bands)[ii := mic_sample g x] # map (\<lambda>b. b[ii := mic_sample g' (b ! ii)]) (tl bands)))"

text \<open>Before the loop: the low-level decision, and the position, which restarts when the physical level has changed.\<close>

definition virtual_mic_start :: "LegacyAgc \<Rightarrow> int list \<Rightarrow> nat \<Rightarrow> int \<Rightarrow> LegacyAgc \<times> int" where
  "virtual_mic_start stt xs samples micLevelIn =
     (let limit = (if fs stt \<noteq> 8000 then 11000 else 5500);
          low = low_level_signal limit (frame_energy limit xs samples) (zero_crossings xs samples);
          micLevelTmp = to_i32 (shl micLevelIn (nat (scale stt)));
          gainIdx = (if micVol stt > maxAnalog stt then maxAnalog stt else micVol stt)
      in if micLevelTmp \<noteq> micRef stt
         then (stt\<lparr>lowLevelSignal := low, micRef := micLevelTmp, micVol := 127, micGainIdx := 127\<rparr>, 127)
         else (stt\<lparr>lowLevelSignal := low\<rparr>, gainIdx))"

definition WebRtcAgc_VirtualMic ::
    "LegacyAgc \<Rightarrow> int list list \<Rightarrow> nat \<Rightarrow> int \<Rightarrow> (int \<times> int \<times> int list list \<times> LegacyAgc) option" where
  "WebRtcAgc_VirtualMic stt in_near samples micLevelIn =
     (let (stt, gainIdx) = virtual_mic_start stt (in_near ! 0) samples micLevelIn
      in case first_gain gainIdx of None \<Rightarrow> None
         | Some g \<Rightarrow>
             (case virtual_mic_loop [0..<samples] gainIdx g in_near of None \<Rightarrow> None
              | Some (gainIdx, in_near) \<Rightarrow>
                  (let stt = stt\<lparr>micGainIdx := gainIdx\<rparr>;
                       micLevelOut = shr gainIdx (nat (scale stt))
                   in case WebRtcAgc_AddMic stt in_near samples of None \<Rightarrow> None
                      | Some (ret, in_near, stt) \<Rightarrow> Some (if ret \<noteq> 0 then - 1 else 0, micLevelOut, in_near, stt))))"

section \<open>Controls of the analog part\<close>

definition WebRtcAgc_UpdateAgcThresholds :: "LegacyAgc \<Rightarrow> LegacyAgc" where
  "WebRtcAgc_UpdateAgcThresholds stt =
     (let tmp16 = to_i16 (5 * compressionGaindB stt + 5);
          tmp16 = WebRtcSpl_DivW32W16ResW16 tmp16 11;
          target = to_i16 (4 + tmp16);
          target = (if target < 4 then 4 else target);
          target = (if agcMode_ana stt = kAgcModeFixedDigital then compressionGaindB stt else target);
          stt = stt\<lparr>analogTarget := target, targetIdx := 11 + 9\<rparr>;
          level = (\<lambda>k. RXX_BUFFER_LEN * kTargetLevelTable ! nat (targetIdx stt + k));
          stt = stt\<lparr>analogTargetLevel := level 0, startUpperLimit := level (- 1), startLowerLimit := level 1,
                   upperPrimaryLimit := level (- 2), lowerPrimaryLimit := level 2,
                   upperSecondaryLimit := level (- 5), lowerSecondaryLimit := level 5\<rparr>
      in stt\<lparr>upperLimit := startUpperLimit stt, lowerLimit := startLowerLimit stt\<rparr>)"

definition WebRtcAgc_SaturationCtrl :: "LegacyAgc \<Rightarrow> int \<Rightarrow> int list \<Rightarrow> int \<times> LegacyAgc" where
  "WebRtcAgc_SaturationCtrl stt saturated env =
     (let sum = fold (\<lambda>i sum. let tmpW16 = to_i16 (shr (env ! i) 20)
                              in if tmpW16 > 875 then to_i16 (sum + tmpW16) else sum) [0..<10] (envSum stt);
          (saturated, sum) = (if sum > 25000 then (1, 0) else (saturated, sum))
      in (saturated, stt\<lparr>envSum := to_i16 (shr (sum * 32440) 15)\<rparr>))"

text \<open>The result is the new microphone level with the state.\<close>

definition WebRtcAgc_ZeroCtrl :: "LegacyAgc \<Rightarrow> int \<Rightarrow> int list \<Rightarrow> int \<times> LegacyAgc" where
  "WebRtcAgc_ZeroCtrl stt inMicLevel env =
     (let tmp = fold (\<lambda>i tmp. tmp + env ! i) [0..<10] 0;
          stt = stt\<lparr>msZero := (if tmp < 500 then to_i16 (msZero stt + 10) else 0)\<rparr>;
          stt = (if muteGuardMs stt > 0 then stt\<lparr>muteGuardMs := to_i16 (muteGuardMs stt - 10)\<rparr> else stt)
      in if msZero stt > 500
         then let stt = stt\<lparr>msZero := 0\<rparr>;
                  midVal = c_div (to_i32 (maxAnalog stt + minLevel stt + 1)) 2;
                  (inMicLevel, stt) =
                    (if inMicLevel < midVal
                     then let v = shr (to_i32 (1126 * inMicLevel)) 10;
                              v = (if v < zeroCtrlMax stt then v else zeroCtrlMax stt)
                          in (v, stt\<lparr>micVol := v\<rparr>)
                     else (inMicLevel, stt))
              in (inMicLevel, stt\<lparr>activeSpeech := 0, Rxx16_LPw32Max := 0, muteGuardMs := kMuteGuardTimeMs\<rparr>)
         else (inMicLevel, stt))"

definition WebRtcAgc_SpeakerInactiveCtrl :: "LegacyAgc \<Rightarrow> LegacyAgc" where
  "WebRtcAgc_SpeakerInactiveCtrl stt =
     (let sl = stdLongTerm (vadMic stt)
      in if sl < 2500 then stt\<lparr>vadThreshold := 1500\<rparr>
         else let vadThresh = (if sl < 4500 then to_i16 (kNormalVadThreshold + c_div (4500 - sl) 2) else kNormalVadThreshold);
                  tmp32 = vadThresh + 31 * vadThreshold stt
              in stt\<lparr>vadThreshold := to_i16 (shr tmp32 5)\<rparr>)"

definition WebRtcAgc_ExpCurve :: "int \<Rightarrow> nat" where
  "WebRtcAgc_ExpCurve volume =
     (if volume > 5243
      then if volume > 7864
           then if volume > 12124 then 7 else 6
           else if volume > 6554 then 5 else 4
      else if volume > 2621
           then if volume > 3932 then 3 else 2
           else if volume > 1311 then 1 else 0)"

section \<open>Level of the microphone\<close>

text \<open>The level handed in is reconciled with the level of the last frame (\<open>tmp\<close> is \<open>inMicLevelTmp\<close>); the result is the level
  with the state.\<close>

definition start_volume :: "LegacyAgc \<Rightarrow> int" where
  "start_volume stt = to_i32 (minLevel stt + shr (to_i32 (to_i32 (maxLevel stt - minLevel stt) * 51)) 9)"

definition mic_first_call :: "int \<times> LegacyAgc \<Rightarrow> int \<times> LegacyAgc" where
  "mic_first_call s =
     (let (tmp, stt) = s
      in if firstCall stt = 0
         then let tmp = (if tmp < start_volume stt \<and> agcMode_ana stt = kAgcModeAdaptiveAnalog then start_volume stt else tmp)
              in (tmp, stt\<lparr>firstCall := 1, micVol := tmp\<rparr>)
         else (tmp, stt))"

text \<open>The previous level when there is digital input gain; a level set very low by hand is raised; a level that does not
  follow a request; a level above the maximum.\<close>

definition mic_restore :: "int \<times> LegacyAgc \<Rightarrow> int \<times> LegacyAgc" where
  "mic_restore s =
     (let (tmp, stt) = s in (if tmp = maxAnalog stt \<and> micVol stt > maxAnalog stt then micVol stt else tmp, stt))"

definition mic_raise_low :: "int \<times> LegacyAgc \<Rightarrow> int \<times> LegacyAgc" where
  "mic_raise_low s =
     (let (tmp, stt) = s
      in if tmp \<noteq> micVol stt \<and> tmp < minOutput stt
         then (start_volume stt, stt\<lparr>micVol := start_volume stt\<rparr>) else (tmp, stt))"

definition mic_follow :: "int \<Rightarrow> int \<times> LegacyAgc \<Rightarrow> int \<times> LegacyAgc" where
  "mic_follow inMicLevel s =
     (let (tmp, stt) = s
      in if tmp \<noteq> micVol stt
         then if inMicLevel = lastInMicLevel stt then (micVol stt, stt) else (tmp, stt\<lparr>micVol := tmp\<rparr>)
         else (tmp, stt))"

definition mic_store :: "int \<Rightarrow> int \<times> LegacyAgc \<Rightarrow> int \<times> LegacyAgc" where
  "mic_store inMicLevel s =
     (let (tmp, stt) = s;
          stt = (if tmp > maxLevel stt then stt\<lparr>maxLevel := tmp\<rparr> else stt)
      in (tmp, stt\<lparr>lastInMicLevel := inMicLevel\<rparr>))"

definition mic_reconcile :: "int \<Rightarrow> int \<times> LegacyAgc \<Rightarrow> int \<times> LegacyAgc" where
  "mic_reconcile inMicLevel s =
     mic_store inMicLevel (mic_follow inMicLevel (mic_raise_low (mic_restore (mic_first_call s))))"

text \<open>Lowering and raising the level: a factor in Q15, a weight in Q14 from one of two curves, and a least step from the
  level of the last frame.\<close>

definition lower_mic :: "int \<Rightarrow> int \<Rightarrow> int \<Rightarrow> int \<times> LegacyAgc \<Rightarrow> int \<times> LegacyAgc" where
  "lower_mic factor step lastMicVol s =
     (let (tmp, stt) = s;
          tmpU32 = to_u32 (factor * to_u32 (to_i32 (tmp - minLevel stt)));
          v = to_i32 (shr tmpU32 15 + minLevel stt);
          v = (if v > to_i32 (lastMicVol - step) then to_i32 (lastMicVol - step) else v)
      in (v, stt\<lparr>micVol := v\<rparr>))"

definition raise_weight :: "int list \<Rightarrow> int list \<Rightarrow> LegacyAgc \<Rightarrow> int \<Rightarrow> int" where
  "raise_weight kOffset kSlope stt tmp =
     (let tmp32 = to_i32 (shl (to_i32 (tmp - minLevel stt)) 14);
          volNormFIX = (if maxInit stt \<noteq> minLevel stt
            then to_i16 (c_div tmp32 (to_i32 (maxInit stt - minLevel stt))) else 16384);
          index = WebRtcAgc_ExpCurve volNormFIX
      in to_i16 (kOffset ! index - to_i16 (shr (kSlope ! index * volNormFIX) 13)))"

definition raise_mic :: "int list \<Rightarrow> int list \<Rightarrow> int \<Rightarrow> int \<Rightarrow> int \<times> LegacyAgc \<Rightarrow> int \<times> LegacyAgc" where
  "raise_mic kOffset kSlope step lastMicVol s =
     (let (tmp, stt) = s;
          weightFIX = raise_weight kOffset kSlope stt tmp;
          stt = stt\<lparr>Rxx160_LPw32 := to_i32 (c_div (Rxx160_LPw32 stt) 64 * 67)\<rparr>;
          tmpU32 = to_u32 (to_u32 weightFIX * to_u32 (to_i32 (tmp - minLevel stt)));
          v = to_i32 (shr tmpU32 14 + minLevel stt);
          v = (if v < to_i32 (lastMicVol + step) then to_i32 (lastMicVol + step) else v)
      in (v, stt\<lparr>micVol := v\<rparr>))"

text \<open>A saturated signal.\<close>

definition mic_saturated :: "int \<Rightarrow> int \<Rightarrow> int \<times> LegacyAgc \<Rightarrow> int \<times> int \<times> LegacyAgc" where
  "mic_saturated lastMicVol saturationWarning s =
     (let (tmp, stt) = s;
          stt = stt\<lparr>Rxx160_LPw32 := to_i32 (c_div (Rxx160_LPw32 stt) 8 * 7), zeroCtrlMax := micVol stt\<rparr>;
          (tmp, stt) = lower_mic 29591 2 lastMicVol (tmp, stt);
          saturationWarning = (if micVol stt < minOutput stt then 1 else saturationWarning)
      in (saturationWarning, tmp, stt\<lparr>msTooHigh := - 100, activeSpeech := 0, Rxx16_LPw32Max := 0,
            msecSpeechInnerChange := kMsecSpeechInner, msecSpeechOuterChange := kMsecSpeechOuter, changeToSlowMode := 0,
            muteGuardMs := 0, upperLimit := startUpperLimit stt, lowerLimit := startLowerLimit stt\<rparr>))"

section \<open>One block of a frame\<close>

definition block_energy :: "nat \<Rightarrow> LegacyAgc \<Rightarrow> LegacyAgc" where
  "block_energy i stt =
     (let Rxx16w32 = Rxx16w32_array stt ! 0 ! i;
          pos = nat (Rxx16pos stt);
          tmp32 = shr (to_i32 (Rxx16w32 - Rxx16_vectorw32 stt ! pos)) 3;
          stt = stt\<lparr>Rxx160w32 := to_i32 (Rxx160w32 stt + tmp32), Rxx16_vectorw32 := (Rxx16_vectorw32 stt)[pos := Rxx16w32]\<rparr>;
          stt = stt\<lparr>Rxx16pos := to_i16 (Rxx16pos stt + 1)\<rparr>;
          stt = (if Rxx16pos stt = RXX_BUFFER_LEN then stt\<lparr>Rxx16pos := 0\<rparr> else stt);
          tmp32 = shr (to_i32 (Rxx16w32 - Rxx16_LPw32 stt)) kAlphaShortTerm
      in stt\<lparr>Rxx16_LPw32 := to_i32 (Rxx16_LPw32 stt + tmp32)\<rparr>)"

definition speech_energy :: "LegacyAgc \<Rightarrow> LegacyAgc" where
  "speech_energy stt =
     (let stt =
        (if activeSpeech stt < 250
         then let stt = stt\<lparr>activeSpeech := to_i16 (activeSpeech stt + 2)\<rparr>
              in if Rxx16_LPw32 stt > Rxx16_LPw32Max stt then stt\<lparr>Rxx16_LPw32Max := Rxx16_LPw32 stt\<rparr> else stt
         else if activeSpeech stt = 250
         then stt\<lparr>activeSpeech := to_i16 (activeSpeech stt + 2),
                  Rxx160_LPw32 := to_i32 (shr (Rxx16_LPw32Max stt) 3 * RXX_BUFFER_LEN)\<rparr>
         else stt);
          tmp32 = shr (to_i32 (Rxx160w32 stt - Rxx160_LPw32 stt)) kAlphaLongTerm
      in stt\<lparr>Rxx160_LPw32 := to_i32 (Rxx160_LPw32 stt + tmp32)\<rparr>)"

text \<open>The reduction of the maximal level that goes with lowering the level.\<close>

definition lower_max :: "LegacyAgc \<Rightarrow> LegacyAgc" where
  "lower_max stt =
     (let m = c_div (to_i32 (15 * maxLevel stt + micVol stt)) 16;
          m = (if m > maxAnalog stt then m else maxAnalog stt)
      in stt\<lparr>maxLevel := m, zeroCtrlMax := micVol stt\<rparr>)"

definition too_high :: "LegacyAgc \<Rightarrow> LegacyAgc" where
  "too_high stt = stt\<lparr>msTooHigh := to_i16 (msTooHigh stt + 2), msTooLow := 0, changeToSlowMode := 0\<rparr>"

definition too_low :: "LegacyAgc \<Rightarrow> LegacyAgc" where
  "too_low stt = stt\<lparr>msTooHigh := 0, changeToSlowMode := 0, msTooLow := to_i16 (msTooLow stt + 2)\<rparr>"

definition speech_level :: "int \<Rightarrow> int \<times> LegacyAgc \<Rightarrow> int \<times> LegacyAgc" where
  "speech_level lastMicVol s =
     (let (tmp, stt) = s
      in if Rxx160_LPw32 stt > upperSecondaryLimit stt
         then let stt = too_high stt
              in if msTooHigh stt > msecSpeechOuterChange stt
                 then let stt = stt\<lparr>msTooHigh := 0, Rxx160_LPw32 := to_i32 (shr (Rxx160_LPw32 stt) 6 * 53)\<rparr>;
                          (tmp, stt) = lower_mic 31130 1 lastMicVol (tmp, lower_max stt)
                      in (tmp, stt\<lparr>activeSpeech := 0, Rxx16_LPw32Max := 0\<rparr>)
                 else (tmp, stt)
         else if Rxx160_LPw32 stt > upperLimit stt
         then let stt = too_high stt
              in if msTooHigh stt > msecSpeechInnerChange stt
                 then let stt = stt\<lparr>msTooHigh := 0, Rxx160_LPw32 := to_i32 (c_div (Rxx160_LPw32 stt) 64 * 53)\<rparr>
                      in lower_mic 31621 1 lastMicVol (tmp, lower_max stt)
                 else (tmp, stt)
         else if Rxx160_LPw32 stt < lowerSecondaryLimit stt
         then let stt = too_low stt
              in if msTooLow stt > msecSpeechOuterChange stt
                 then raise_mic kOffset1 kSlope1 2 lastMicVol (tmp, stt\<lparr>msTooLow := 0\<rparr>)
                 else (tmp, stt)
         else if Rxx160_LPw32 stt < lowerLimit stt
         then let stt = too_low stt
              in if msTooLow stt > msecSpeechInnerChange stt
                 then raise_mic kOffset2 kSlope2 1 lastMicVol (tmp, stt\<lparr>msTooLow := 0\<rparr>)
                 else (tmp, stt)
         else let stt = (if changeToSlowMode stt > 4000
                then stt\<lparr>msecSpeechInnerChange := 1000, msecSpeechOuterChange := 500,
                         upperLimit := upperPrimaryLimit stt, lowerLimit := lowerPrimaryLimit stt\<rparr>
                else stt\<lparr>changeToSlowMode := to_i16 (changeToSlowMode stt + 2)\<rparr>)
              in (tmp, stt\<lparr>msTooLow := 0, msTooHigh := 0, micVol := tmp\<rparr>))"

definition analog_block :: "int \<Rightarrow> int \<Rightarrow> nat \<Rightarrow> int \<times> LegacyAgc \<Rightarrow> int \<times> LegacyAgc" where
  "analog_block vadLogRatio lastMicVol i s =
     (let (tmp, stt) = s;
          stt = block_energy i stt
      in if vadLogRatio > vadThreshold stt then speech_level lastMicVol (tmp, speech_energy stt) else (tmp, stt))"

section \<open>Analog processing of a frame\<close>

text \<open>The last steps: no increase with echo or after a mute event, and the limits of the level.\<close>

definition limit_mic :: "int \<Rightarrow> int \<Rightarrow> LegacyAgc \<Rightarrow> LegacyAgc" where
  "limit_mic echo lastMicVol stt =
     (let stt = (if (echo = 1 \<or> muteGuardMs stt > 0 \<and> muteGuardMs stt < kMuteGuardTimeMs) \<and> micVol stt > lastMicVol
            then stt\<lparr>micVol := lastMicVol\<rparr> else stt)
      in if micVol stt > maxLevel stt then stt\<lparr>micVol := maxLevel stt\<rparr>
         else if micVol stt < minOutput stt then stt\<lparr>micVol := minOutput stt\<rparr> else stt)"

text \<open>The return value, \<open>*outMicLevel\<close>, \<open>*saturationWarning\<close> and the state.\<close>

definition WebRtcAgc_ProcessAnalog ::
    "LegacyAgc \<Rightarrow> int \<Rightarrow> int \<Rightarrow> int \<Rightarrow> int \<Rightarrow> int \<Rightarrow> int \<times> int \<times> int \<times> LegacyAgc" where
  "WebRtcAgc_ProcessAnalog stt inMicLevel outMicLevel vadLogRatio echo saturationWarning =
     (let tmp = to_i32 (shl inMicLevel (nat (scale stt)))
      in if tmp > maxAnalog stt \<or> tmp < minLevel stt then (- 1, outMicLevel, saturationWarning, stt)
         else let (tmp, stt) = mic_reconcile inMicLevel (tmp, stt);
                  lastMicVol = micVol stt;
                  (saturated, stt) = WebRtcAgc_SaturationCtrl stt 0 (env_rows stt ! 0);
                  (saturationWarning, tmp, stt) =
                    (if saturated = 1 then mic_saturated lastMicVol saturationWarning (tmp, stt)
                     else (saturationWarning, tmp, stt));
                  (tmp, stt) = WebRtcAgc_ZeroCtrl stt tmp (env_rows stt ! 0);
                  stt = WebRtcAgc_SpeakerInactiveCtrl stt;
                  (tmp, stt) = fold (analog_block vadLogRatio lastMicVol) [0..<5] (tmp, stt);
                  stt = limit_mic echo lastMicVol stt;
                  m = (if micVol stt < maxAnalog stt then micVol stt else maxAnalog stt)
              in (0, shr m (nat (scale stt)), saturationWarning, stt))"

section \<open>Configuration\<close>

definition WebRtcAgc_set_config :: "LegacyAgc option \<Rightarrow> WebRtcAgcConfig \<Rightarrow> (int \<times> LegacyAgc option) option" where
  "WebRtcAgc_set_config handle agcConfig =
     (case handle of None \<Rightarrow> Some (- 1, None)
      | Some stt \<Rightarrow>
          if initFlag stt \<noteq> kInitCheck then Some (- 1, Some (stt\<lparr>lastError := AGC_UNINITIALIZED_ERROR\<rparr>))
          else if limiterEnable_cfg agcConfig \<noteq> kAgcFalse \<and> limiterEnable_cfg agcConfig \<noteq> kAgcTrue
          then Some (- 1, Some (stt\<lparr>lastError := AGC_BAD_PARAMETER_ERROR\<rparr>))
          else let stt = stt\<lparr>limiterEnable := limiterEnable_cfg agcConfig,
                            compressionGaindB := compressionGaindB_cfg agcConfig\<rparr>
               in if targetLevelDbfs_cfg agcConfig < 0 \<or> targetLevelDbfs_cfg agcConfig > 31
                  then Some (- 1, Some (stt\<lparr>lastError := AGC_BAD_PARAMETER_ERROR\<rparr>))
                  else let stt = stt\<lparr>targetLevelDbfs := targetLevelDbfs_cfg agcConfig\<rparr>;
                           stt = (if agcMode_ana stt = kAgcModeFixedDigital
                             then stt\<lparr>compressionGaindB := to_i16 (compressionGaindB stt + targetLevelDbfs_cfg agcConfig)\<rparr>
                             else stt);
                           stt = WebRtcAgc_UpdateAgcThresholds stt
                       in case WebRtcAgc_CalculateGainTable (gainTable (digitalAgc stt)) (compressionGaindB stt)
                              (targetLevelDbfs stt) (limiterEnable stt) (analogTarget stt) of None \<Rightarrow> None
                          | Some (ret, table) \<Rightarrow>
                              (let stt = stt\<lparr>digitalAgc := (digitalAgc stt)\<lparr>gainTable := table\<rparr>\<rparr>
                               in if ret = - 1 then Some (- 1, Some stt)
                                  else Some (0, Some (stt\<lparr>usedConfig := agcConfig\<rparr>))))"

text \<open>The second argument says whether \<open>config\<close> is a pointer or null.\<close>

definition WebRtcAgc_get_config ::
    "LegacyAgc option \<Rightarrow> WebRtcAgcConfig option \<Rightarrow> int \<times> WebRtcAgcConfig option \<times> LegacyAgc option" where
  "WebRtcAgc_get_config handle config =
     (case handle of None \<Rightarrow> (- 1, config, None)
      | Some stt \<Rightarrow>
          (case config of None \<Rightarrow> (- 1, None, Some (stt\<lparr>lastError := AGC_NULL_POINTER_ERROR\<rparr>))
           | Some c \<Rightarrow>
               if initFlag stt \<noteq> kInitCheck then (- 1, Some c, Some (stt\<lparr>lastError := AGC_UNINITIALIZED_ERROR\<rparr>))
               else (0, Some (usedConfig stt), Some stt)))"

section \<open>Initialisation\<close>

text \<open>\<open>malloc\<close> returns a block with some content, or null; null is dereferenced, which is the result \<open>None\<close>.\<close>

definition WebRtcAgc_Create :: "LegacyAgc option \<Rightarrow> LegacyAgc option" where
  "WebRtcAgc_Create malloc = map_option (\<lambda>stt. stt\<lparr>initFlag := 0, lastError := 0\<rparr>) malloc"

text \<open>The assignments to the fields of the analog part.\<close>

definition init_levels :: "LegacyAgc \<Rightarrow> int \<Rightarrow> int \<Rightarrow> LegacyAgc" where
  "init_levels stt minL maxL =
     (let max_add = c_div (to_i32 (maxL - minL)) 4;
          stt = stt\<lparr>minLevel := minL, maxAnalog := maxL, maxLevel := to_i32 (maxL + max_add)\<rparr>;
          stt = stt\<lparr>maxInit := maxLevel stt, zeroCtrlMax := maxAnalog stt, lastInMicLevel := 0,
                    micVol := (if agcMode_ana stt = kAgcModeAdaptiveDigital then 127 else maxAnalog stt)\<rparr>;
          stt = stt\<lparr>micRef := micVol stt, micGainIdx := 127\<rparr>;
          tmp32 = shr (to_i32 (to_i32 (maxLevel stt - minLevel stt) * 10)) 8
      in stt\<lparr>minOutput := to_i32 (minLevel stt + tmp32)\<rparr>)"

definition init_counters :: "LegacyAgc \<Rightarrow> LegacyAgc" where
  "init_counters stt = stt\<lparr>msTooLow := 0, msTooHigh := 0, changeToSlowMode := 0, firstCall := 0, msZero := 0,
     muteGuardMs := 0, gainTableIdx := 0, msecSpeechInnerChange := kMsecSpeechInner, msecSpeechOuterChange := kMsecSpeechOuter,
     activeSpeech := 0, Rxx16_LPw32Max := 0, vadThreshold := kNormalVadThreshold, inActive := 0,
     Rxx16_vectorw32 := replicate 10 1000, Rxx160w32 := 125 * RXX_BUFFER_LEN, Rxx16pos := 0, Rxx16_LPw32 := 16284,
     Rxx16w32_array := (Rxx16w32_array stt)[0 := replicate 5 0],
     env_rows := [replicate 10 0, replicate 10 0], inQueue := 0, filterState := replicate 8 0, initFlag := kInitCheck,
     defaultConfig := \<lparr>targetLevelDbfs_cfg = 3, compressionGaindB_cfg = 9, limiterEnable_cfg = kAgcTrue\<rparr>\<rparr>"

text \<open>(The code computes a \<open>scale\<close> from the norm of \<open>maxLevel\<close> and overwrites it by 0 at once.)\<close>

definition WebRtcAgc_Init :: "LegacyAgc \<Rightarrow> int \<Rightarrow> int \<Rightarrow> int \<Rightarrow> int \<Rightarrow> (int \<times> LegacyAgc) option" where
  "WebRtcAgc_Init stt minL maxL mode rate =
     (let (ret, d) = WebRtcAgc_InitDigital (digitalAgc stt) mode;
          stt = stt\<lparr>digitalAgc := d\<rparr>
      in if ret \<noteq> 0 then Some (- 1, stt\<lparr>lastError := AGC_UNINITIALIZED_ERROR\<rparr>)
         else let stt = stt\<lparr>envSum := 0\<rparr>
              in if mode < kAgcModeUnchanged \<or> mode > kAgcModeFixedDigital then Some (- 1, stt)
                 else let stt = stt\<lparr>agcMode_ana := mode, fs := rate, vadMic := WebRtcAgc_InitVad (vadMic stt), scale := 0\<rparr>;
                          (minL, maxL) = (if agcMode_ana stt = kAgcModeAdaptiveDigital then (0, 255) else (minL, maxL));
                          stt = init_counters (init_levels stt minL maxL)
                      in case WebRtcAgc_set_config (Some stt) (defaultConfig stt) of None \<Rightarrow> None
                         | Some (ret, None) \<Rightarrow> None
                         | Some (ret, Some stt) \<Rightarrow>
                             if ret = - 1 then Some (- 1, stt\<lparr>lastError := AGC_UNSPECIFIED_ERROR\<rparr>)
                             else let stt = stt\<lparr>Rxx160_LPw32 := analogTargetLevel stt, lowLevelSignal := 0\<rparr>
                                  in Some (if minL \<ge> maxL \<or> to_u32 maxL AND 0xFC000000 \<noteq> 0 then - 1 else 0, stt))"

section \<open>Processing of a frame\<close>

text \<open>The return value, the output bands (\<open>[]\<close> when nothing was written), \<open>*outMicLevel\<close>, \<open>*saturationWarning\<close> and the
  handle.\<close>

definition WebRtcAgc_Process ::
    "LegacyAgc option \<Rightarrow> int list list \<Rightarrow> nat \<Rightarrow> int \<Rightarrow> int \<Rightarrow> int \<Rightarrow> int
     \<Rightarrow> (int \<times> int list list \<times> int \<times> int \<times> LegacyAgc option) option" where
  "WebRtcAgc_Process handle in_near samples inMicLevel outMicLevel echo saturationWarning =
     (if WebRtcAgc_GetAddFarendError handle samples \<noteq> 0 then Some (- 1, [], outMicLevel, saturationWarning, handle)
      else case handle of None \<Rightarrow> Some (- 1, [], outMicLevel, saturationWarning, None)
        | Some stt \<Rightarrow>
            (case WebRtcAgc_ProcessDigital (digitalAgc stt) in_near (fs stt) (lowLevelSignal stt) of None \<Rightarrow> None
             | Some (ret, out, d) \<Rightarrow>
                 (let stt = stt\<lparr>digitalAgc := d\<rparr>
                  in if ret = - 1 then Some (- 1, out, inMicLevel, 0, Some stt)
                     else let (ret, outMicLevel, saturationWarning, stt) =
                            (if agcMode_ana stt < kAgcModeFixedDigital
                                \<and> (lowLevelSignal stt = 0 \<or> agcMode_ana stt \<noteq> kAgcModeAdaptiveDigital)
                             then WebRtcAgc_ProcessAnalog stt inMicLevel inMicLevel (logRatio (vadMic stt)) echo 0
                             else (0, inMicLevel, 0, stt))
                          in if ret = - 1 then Some (- 1, out, outMicLevel, saturationWarning, Some stt)
                             else let stt = (if inQueue stt > 1
                                    then stt\<lparr>env_rows := (env_rows stt)[0 := env_rows stt ! 1],
                                             Rxx16w32_array := (Rxx16w32_array stt)[0 := Rxx16w32_array stt ! 1]\<rparr>
                                    else stt);
                                      stt = (if inQueue stt > 0 then stt\<lparr>inQueue := inQueue stt - 1\<rparr> else stt)
                                  in Some (0, out, outMicLevel, saturationWarning, Some stt))))"


section \<open>What the analog part keeps\<close>

definition analog_keeps :: "LegacyAgc \<Rightarrow> LegacyAgc \<Rightarrow> bool" where
  "analog_keeps stt stt' \<longleftrightarrow>
     minLevel stt' = minLevel stt \<and> minOutput stt' = minOutput stt \<and> maxAnalog stt' = maxAnalog stt \<and> scale stt' = scale stt \<and>
     fs stt' = fs stt \<and> agcMode_ana stt' = agcMode_ana stt \<and> digitalAgc stt' = digitalAgc stt \<and> inQueue stt' = inQueue stt \<and>
     env_rows stt' = env_rows stt \<and> Rxx16w32_array stt' = Rxx16w32_array stt \<and> vadMic stt' = vadMic stt \<and>
     initFlag stt' = initFlag stt \<and> gainTableIdx stt' = gainTableIdx stt \<and> filterState stt' = filterState stt \<and>
     length (Rxx16_vectorw32 stt') = length (Rxx16_vectorw32 stt) \<and>
     (0 \<le> Rxx16pos stt \<and> Rxx16pos stt < 10 \<longrightarrow> 0 \<le> Rxx16pos stt' \<and> Rxx16pos stt' < 10) \<and>
     (maxAnalog stt \<le> maxLevel stt \<longrightarrow> maxAnalog stt \<le> maxLevel stt')"

lemma analog_keeps_refl [simp, intro]: "analog_keeps stt stt"
  by (simp add: analog_keeps_def)

lemma analog_keeps_trans: "analog_keeps a b \<Longrightarrow> analog_keeps b c \<Longrightarrow> analog_keeps a c"
  by (simp add: analog_keeps_def)

named_theorems keeps \<open>operations of the analog part and what they keep\<close>

lemma mic_first_call_keeps [keeps]: "analog_keeps (snd s) (snd (mic_first_call s))"
  by (simp add: mic_first_call_def analog_keeps_def Let_def split: prod.split)

lemma mic_stages_keep [keeps]:
  "analog_keeps (snd s) (snd (mic_restore s))" "analog_keeps (snd s) (snd (mic_raise_low s))"
  "analog_keeps (snd s) (snd (mic_follow i s))" "analog_keeps (snd s) (snd (mic_store i s))"
  by (simp_all add: mic_restore_def mic_raise_low_def mic_follow_def mic_store_def analog_keeps_def Let_def split: prod.split)

lemma mic_reconcile_keeps [keeps]: "analog_keeps (snd s) (snd (mic_reconcile i s))"
  unfolding mic_reconcile_def
  by (rule analog_keeps_trans [OF _ mic_stages_keep(4)], rule analog_keeps_trans [OF _ mic_stages_keep(3)],
      rule analog_keeps_trans [OF _ mic_stages_keep(2)], rule analog_keeps_trans [OF _ mic_stages_keep(1)],
      rule mic_first_call_keeps)

lemma SaturationCtrl_keeps [keeps]: "analog_keeps stt (snd (WebRtcAgc_SaturationCtrl stt sat env))"
  by (simp add: WebRtcAgc_SaturationCtrl_def analog_keeps_def Let_def split: prod.split)

lemma ZeroCtrl_keeps [keeps]: "analog_keeps stt (snd (WebRtcAgc_ZeroCtrl stt tmp env))"
  by (simp add: WebRtcAgc_ZeroCtrl_def analog_keeps_def Let_def split: prod.split)

lemma SpeakerInactiveCtrl_keeps [keeps]: "analog_keeps stt (WebRtcAgc_SpeakerInactiveCtrl stt)"
  by (simp add: WebRtcAgc_SpeakerInactiveCtrl_def analog_keeps_def Let_def)

lemma lower_mic_keeps [keeps]: "analog_keeps (snd s) (snd (lower_mic f d v s))"
  by (simp add: lower_mic_def analog_keeps_def Let_def split: prod.split)

lemma raise_mic_keeps [keeps]: "analog_keeps (snd s) (snd (raise_mic ko ks d v s))"
  by (simp add: raise_mic_def analog_keeps_def Let_def split: prod.split)

lemma lower_max_keeps [keeps]: "analog_keeps stt (lower_max stt)"
  by (simp add: lower_max_def analog_keeps_def Let_def)

lemma mic_saturated_keeps [keeps]: "analog_keeps (snd s) (snd (snd (mic_saturated v w s)))"
  by (simp add: mic_saturated_def lower_mic_def analog_keeps_def Let_def split: prod.split)

lemma block_energy_keeps [keeps]: "analog_keeps stt (block_energy i stt)"
  by (auto simp: block_energy_def analog_keeps_def Let_def RXX_BUFFER_LEN_def to_i16_def)

lemma speech_energy_keeps [keeps]: "analog_keeps stt (speech_energy stt)"
  by (simp add: speech_energy_def analog_keeps_def Let_def)


lemma speech_level_keeps [keeps]: "analog_keeps (snd s) (snd (speech_level v s))"
  by (simp add: speech_level_def too_high_def too_low_def lower_mic_def lower_max_def raise_mic_def analog_keeps_def Let_def
      split: prod.split)

lemma analog_block_keeps [keeps]: "analog_keeps (snd s) (snd (analog_block r v i s))"
proof -
  obtain tmp stt where s: "s = (tmp, stt)" by fastforce
  have "analog_keeps stt (speech_energy (block_energy i stt))"
    by (rule analog_keeps_trans [OF block_energy_keeps speech_energy_keeps])
  then show ?thesis
    using speech_level_keeps [of "(tmp, speech_energy (block_energy i stt))" v] block_energy_keeps [of stt i]
    by (auto simp: s analog_block_def Let_def intro: analog_keeps_trans)
qed

lemma analog_blocks_keep [keeps]: "analog_keeps (snd s) (snd (fold (analog_block r v) is s))"
  by (rule fold_pres [where P = "\<lambda>s'. analog_keeps (snd s) (snd s')"]) (auto intro: analog_keeps_trans analog_block_keeps)

lemma limit_mic_keeps [keeps]: "analog_keeps stt (limit_mic echo v stt)"
  by (simp add: limit_mic_def analog_keeps_def Let_def)

text \<open>The limits of the microphone level.\<close>

definition levels_ok :: "LegacyAgc \<Rightarrow> bool" where
  "levels_ok stt \<longleftrightarrow> minLevel stt \<le> minOutput stt \<and> minOutput stt \<le> maxAnalog stt \<and> maxAnalog stt \<le> maxLevel stt \<and>
     scale stt = 0 \<and> length (Rxx16_vectorw32 stt) = 10 \<and> 0 \<le> Rxx16pos stt \<and> Rxx16pos stt < 10"

lemma levels_ok_keeps: "levels_ok stt \<Longrightarrow> analog_keeps stt stt' \<Longrightarrow> levels_ok stt'"
  by (auto simp: levels_ok_def analog_keeps_def)

lemma limit_mic_range:
  assumes "minOutput stt \<le> maxLevel stt"
  shows "minOutput stt \<le> micVol (limit_mic echo v stt)" "micVol (limit_mic echo v stt) \<le> maxLevel stt"
    "echo = 1 \<Longrightarrow> micVol (limit_mic echo v stt) \<le> max v (minOutput stt)"
    "maxLevel (limit_mic echo v stt) = maxLevel stt"
  using assms by (auto simp: limit_mic_def Let_def)

lemma ProcessAnalog_rejects:
  assumes "is_i32 inMic" "scale stt = 0" "maxAnalog stt < inMic \<or> inMic < minLevel stt"
  shows "WebRtcAgc_ProcessAnalog stt inMic out r echo w = (- 1, out, w, stt)"
  using assms by (auto simp: WebRtcAgc_ProcessAnalog_def shl_def to_i32_id)

lemma ProcessAnalog_accepts:
  assumes "is_i32 inMic" "levels_ok stt" "minLevel stt \<le> inMic" "inMic \<le> maxAnalog stt"
  shows "\<exists>w' stt'. WebRtcAgc_ProcessAnalog stt inMic out r echo w = (0, min (micVol stt') (maxAnalog stt), w', stt') \<and>
    analog_keeps stt stt' \<and> minOutput stt \<le> micVol stt' \<and> micVol stt' \<le> maxLevel stt' \<and>
    (echo = 1 \<longrightarrow> micVol stt' \<le> max (micVol (snd (mic_reconcile inMic (inMic, stt)))) (minOutput stt))"
proof -
  obtain t1 s1 where 1: "mic_reconcile inMic (inMic, stt) = (t1, s1)" by fastforce
  obtain sat s2 where 2: "WebRtcAgc_SaturationCtrl s1 0 (env_rows s1 ! 0) = (sat, s2)" by fastforce
  obtain w' t3 s3 where 3: "(if sat = 1 then mic_saturated (micVol s1) w (t1, s2) else (w, t1, s2)) = (w', t3, s3)"
    by (metis prod_cases3)
  obtain t4 s4 where 4: "WebRtcAgc_ZeroCtrl s3 t3 (env_rows s3 ! 0) = (t4, s4)" by fastforce
  obtain t5 s5 where 5: "fold (analog_block r (micVol s1)) [0..<5] (t4, WebRtcAgc_SpeakerInactiveCtrl s4) = (t5, s5)" by fastforce
  define s6 where "s6 = limit_mic echo (micVol s1) s5"
  have k1: "analog_keeps stt s1" using mic_reconcile_keeps [of "(inMic, stt)" inMic] 1 by simp
  have "analog_keeps s1 s2" using SaturationCtrl_keeps [of s1 0 "env_rows s1 ! 0"] 2 by simp
  moreover have "analog_keeps s2 s3"
    using mic_saturated_keeps [of "(t1, s2)" "micVol s1" w] 3 by (auto split: if_splits)
  moreover have "analog_keeps s3 s4" using ZeroCtrl_keeps [of s3 t3 "env_rows s3 ! 0"] 4 by simp
  moreover have "analog_keeps s4 s5"
    using analog_keeps_trans [OF SpeakerInactiveCtrl_keeps] analog_blocks_keep [of "(t4, WebRtcAgc_SpeakerInactiveCtrl s4)"] 5
    by (metis snd_conv)
  ultimately have k5: "analog_keeps stt s5" using k1 by (blast intro: analog_keeps_trans)
  then have l: "minOutput s5 \<le> maxLevel s5" "minOutput s5 = minOutput stt" "maxAnalog s5 = maxAnalog stt" "scale s5 = 0"
    using assms(2) by (auto simp: levels_ok_def analog_keeps_def)
  have k6: "analog_keeps stt s6" unfolding s6_def by (rule analog_keeps_trans [OF k5 limit_mic_keeps])
  then have "scale s6 = 0" "maxAnalog s6 = maxAnalog stt" using assms(2) by (auto simp: levels_ok_def analog_keeps_def)
  moreover have "to_i32 (shl inMic (nat (scale stt))) = inMic" using assms(1,2) by (simp add: levels_ok_def shl_def to_i32_id)
  ultimately have "WebRtcAgc_ProcessAnalog stt inMic out r echo w = (0, min (micVol s6) (maxAnalog stt), w', s6)"
    using assms(3,4) 1 2 3 4 5 by (simp add: WebRtcAgc_ProcessAnalog_def Let_def s6_def [symmetric] min_def)
  then show ?thesis
    using k6 limit_mic_range [OF l(1), of echo "micVol s1"] l(2) 1 unfolding s6_def [symmetric] by auto
qed


section \<open>The gain control as a whole\<close>

definition queue_shape :: "LegacyAgc \<Rightarrow> bool" where
  "queue_shape stt \<longleftrightarrow> length (env_rows stt) = 2 \<and> (\<forall>row \<in> set (env_rows stt). length row = 10) \<and>
     length (Rxx16w32_array stt) = 2 \<and> (\<forall>row \<in> set (Rxx16w32_array stt). length row = 5) \<and> 0 \<le> inQueue stt \<and> inQueue stt \<le> 2"

definition agc_ok :: "LegacyAgc \<Rightarrow> bool" where
  "agc_ok stt \<longleftrightarrow> levels_ok stt \<and> digital_ok (digitalAgc stt) \<and> queue_shape stt \<and>
     (fs stt = 8000 \<or> fs stt = 16000 \<or> fs stt = 32000 \<or> fs stt = 48000)"

definition frame_size :: "LegacyAgc \<Rightarrow> nat" where
  "frame_size stt = (if fs stt = 8000 then 80 else 160)"

definition runs_analog :: "LegacyAgc \<Rightarrow> bool" where
  "runs_analog stt \<longleftrightarrow> agcMode_ana stt < kAgcModeFixedDigital
     \<and> (lowLevelSignal stt = 0 \<or> agcMode_ana stt \<noteq> kAgcModeAdaptiveDigital)"

definition next_queue :: "LegacyAgc \<Rightarrow> LegacyAgc" where
  "next_queue stt =
     (let stt = (if inQueue stt > 1
            then stt\<lparr>env_rows := (env_rows stt)[0 := env_rows stt ! 1],
                     Rxx16w32_array := (Rxx16w32_array stt)[0 := Rxx16w32_array stt ! 1]\<rparr>
            else stt)
      in if inQueue stt > 0 then stt\<lparr>inQueue := inQueue stt - 1\<rparr> else stt)"

lemma queue_shape_update:
  assumes "queue_shape stt" "k < 2" "length e = 10" "length r = 5" "q = 0 \<or> q = 1 \<or> q = 2"
  shows "queue_shape (stt\<lparr>env_rows := (env_rows stt)[k := e], Rxx16w32_array := (Rxx16w32_array stt)[k := r], inQueue := q\<rparr>)"
  using assms by (auto simp: queue_shape_def dest!: set_update_subset_insert [THEN subsetD])

lemma next_queue_ok:
  assumes "agc_ok stt" shows "agc_ok (next_queue stt)"
proof -
  have s: "queue_shape stt" using assms by (simp add: agc_ok_def)
  then have r: "length (env_rows stt ! 1) = 10" "length (Rxx16w32_array stt ! 1) = 5" "0 \<le> inQueue stt" "inQueue stt \<le> 2"
    by (simp_all add: queue_shape_def)
  have "queue_shape (next_queue stt)"
  proof (cases "inQueue stt > 1")
    case True
    then have "next_queue stt = stt\<lparr>env_rows := (env_rows stt)[0 := env_rows stt ! 1],
        Rxx16w32_array := (Rxx16w32_array stt)[0 := Rxx16w32_array stt ! 1], inQueue := 1\<rparr>"
      using r by (simp add: next_queue_def)
    then show ?thesis using queue_shape_update [OF s, of 0 "env_rows stt ! 1" "Rxx16w32_array stt ! 1" 1] r by simp
  next
    case False
    then show ?thesis using s by (auto simp: next_queue_def queue_shape_def)
  qed
  then show ?thesis using assms by (auto simp: agc_ok_def next_queue_def levels_ok_def Let_def)
qed

lemma agc_ok_keeps:
  assumes "agc_ok stt" "analog_keeps stt stt'" shows "agc_ok stt'"
  using assms levels_ok_keeps [of stt stt'] by (auto simp: agc_ok_def queue_shape_def analog_keeps_def)

lemma Process_eq:
  assumes "WebRtcAgc_GetAddFarendError (Some stt) samples = 0"
    "WebRtcAgc_ProcessDigital (digitalAgc stt) in_near (fs stt) (lowLevelSignal stt) = Some (0, out, d)"
    "\<not> runs_analog stt \<Longrightarrow> (r, mic, sat, stt') = (0, inMic, 0, stt\<lparr>digitalAgc := d\<rparr>)"
    "runs_analog stt \<Longrightarrow>
      WebRtcAgc_ProcessAnalog (stt\<lparr>digitalAgc := d\<rparr>) inMic inMic (logRatio (vadMic stt)) echo 0 = (r, mic, sat, stt')"
  shows "WebRtcAgc_Process (Some stt) in_near samples inMic outMic echo sw =
    Some (if r = - 1 then - 1 else 0, out, mic, sat, Some (if r = - 1 then stt' else next_queue stt'))"
proof (cases "runs_analog stt")
  case True
  with assms(4) show ?thesis
    using True by (simp add: WebRtcAgc_Process_def assms(1,2) runs_analog_def next_queue_def Let_def)
next
  case False
  with assms(3) show ?thesis
    using False by (auto simp: WebRtcAgc_Process_def assms(1,2) runs_analog_def next_queue_def Let_def)
qed

text \<open>The reconciliation of the level does not look at the digital part.\<close>

lemma mic_stages_digital:
  "mic_first_call (map_prod id (digitalAgc_update D) s) = map_prod id (digitalAgc_update D) (mic_first_call s)"
  "mic_restore (map_prod id (digitalAgc_update D) s) = map_prod id (digitalAgc_update D) (mic_restore s)"
  "mic_raise_low (map_prod id (digitalAgc_update D) s) = map_prod id (digitalAgc_update D) (mic_raise_low s)"
  "mic_follow i (map_prod id (digitalAgc_update D) s) = map_prod id (digitalAgc_update D) (mic_follow i s)"
  "mic_store i (map_prod id (digitalAgc_update D) s) = map_prod id (digitalAgc_update D) (mic_store i s)"
  by (cases s; simp add: mic_first_call_def mic_restore_def mic_raise_low_def mic_follow_def mic_store_def start_volume_def Let_def)+

lemma mic_reconcile_digital:
  "micVol (snd (mic_reconcile i (t, stt\<lparr>digitalAgc := d\<rparr>))) = micVol (snd (mic_reconcile i (t, stt)))"
proof -
  have "(t, stt\<lparr>digitalAgc := d\<rparr>) = map_prod id (digitalAgc_update (\<lambda>_. d)) (t, stt)" by simp
  then show ?thesis unfolding mic_reconcile_def by (simp only: mic_stages_digital) simp
qed

text \<open>C23: The gain control never fails on valid input and keeps its state well formed. For a well-formed instance and a
  frame of 16-bit samples of the right length, \<open>WebRtcAgc_Process\<close> accesses nothing outside a table, ends, and leaves a
  well-formed instance. It returns -1 exactly when the analog part runs and the given microphone level is outside
  its limits; otherwise the level it asks for is between the minimal output level and the analog maximum, and in the
  presence of echo it is not above the level in use (or the minimal output); without the analog part it is the level given.\<close>

theorem agc_process_total:
  assumes "agc_ok stt" "is_i32 inMic" "\<forall>x \<in> set xs. is_i16 x" "frame_size stt \<le> length xs"
  shows "\<exists>ret out mic sat stt'.
    WebRtcAgc_Process (Some stt) (xs # bands) (frame_size stt) inMic outMic echo sw = Some (ret, out, mic, sat, Some stt') \<and>
    agc_ok stt' \<and>
    ret = (if runs_analog stt \<and> (inMic < minLevel stt \<or> maxAnalog stt < inMic) then - 1 else 0) \<and>
    (if runs_analog stt
     then ret = 0 \<longrightarrow> minOutput stt \<le> mic \<and> mic \<le> maxAnalog stt \<and>
       (echo = 1 \<longrightarrow> mic \<le> max (micVol (snd (mic_reconcile inMic (inMic, stt)))) (minOutput stt))
     else mic = inMic)"
proof -
  obtain L L2 where L: "digital_rate (fs stt) = Some (L, L2)" "10 * L = frame_size stt"
    using assms(1) by (auto simp: agc_ok_def digital_rate_def frame_size_def)
  have len: "10 * L \<le> length xs" using assms(4) L(2) by simp
  have E: "WebRtcAgc_GetAddFarendError (Some stt) (frame_size stt) = 0"
    using assms(1) by (auto simp: agc_ok_def WebRtcAgc_GetAddFarendError_def frame_size_def)
  from assms(1) have "digital_ok (digitalAgc stt)" by (simp add: agc_ok_def)
  from digital_stages [OF this L(1) assms(3) len] obtain out d where
    d: "WebRtcAgc_ProcessDigital (digitalAgc stt) (xs # bands) (fs stt) (lowLevelSignal stt) = Some (0, out, d)" "digital_ok d"
    by blast
  define stt1 where "stt1 = stt\<lparr>digitalAgc := d\<rparr>"
  have ok1: "agc_ok stt1" using assms(1) d(2) by (auto simp: agc_ok_def stt1_def levels_ok_def queue_shape_def)
  have l1: "levels_ok stt1" "scale stt1 = 0" using ok1 by (simp_all add: agc_ok_def levels_ok_def)
  have f: "minLevel stt1 = minLevel stt" "maxAnalog stt1 = maxAnalog stt" "minOutput stt1 = minOutput stt"
    "micVol (snd (mic_reconcile inMic (inMic, stt1))) = micVol (snd (mic_reconcile inMic (inMic, stt)))"
    by (simp_all add: stt1_def mic_reconcile_digital)
  note P = Process_eq [OF E d(1), folded stt1_def]
  show ?thesis
  proof (cases "runs_analog stt")
    case False
    then show ?thesis using P [of 0 inMic 0 stt1 inMic echo outMic sw] next_queue_ok [OF ok1] by auto
  next
    case True
    show ?thesis
    proof (cases "inMic < minLevel stt \<or> maxAnalog stt < inMic")
      case bad: True
      then have "WebRtcAgc_ProcessAnalog stt1 inMic inMic (logRatio (vadMic stt)) echo 0 = (- 1, inMic, 0, stt1)"
        using ProcessAnalog_rejects [OF assms(2) l1(2)] f by auto
      then show ?thesis using P [of "- 1" inMic 0 stt1 inMic echo outMic sw] True bad ok1 by auto
    next
      case good: False
      then obtain w' stt2 where a:
        "WebRtcAgc_ProcessAnalog stt1 inMic inMic (logRatio (vadMic stt)) echo 0 = (0, min (micVol stt2) (maxAnalog stt), w', stt2)"
        "analog_keeps stt1 stt2" "minOutput stt \<le> micVol stt2"
        "echo = 1 \<longrightarrow> micVol stt2 \<le> max (micVol (snd (mic_reconcile inMic (inMic, stt)))) (minOutput stt)"
        using ProcessAnalog_accepts [OF assms(2) l1(1), of inMic "logRatio (vadMic stt)" echo 0] f by auto
      have "minOutput stt \<le> maxAnalog stt" using l1(1) f by (simp add: levels_ok_def)
      then show ?thesis
        using P [of 0 "min (micVol stt2) (maxAnalog stt)" w' stt2 inMic echo outMic sw] True good a
          next_queue_ok [OF agc_ok_keeps [OF ok1 a(2)]] by auto
    qed
  qed
qed


section \<open>Configuration\<close>

text \<open>A concrete instance: a block of zeros with the digital state of \<open>webrtc.cc\<close>.\<close>

definition zero_agc :: LegacyAgc where
  "zero_agc = \<lparr>fs = 0, compressionGaindB = 0, targetLevelDbfs = 0, agcMode_ana = 0, limiterEnable = 0, defaultConfig =
     \<lparr>targetLevelDbfs_cfg = 0, compressionGaindB_cfg = 0, limiterEnable_cfg = 0\<rparr>, usedConfig =
     \<lparr>targetLevelDbfs_cfg = 0, compressionGaindB_cfg = 0, limiterEnable_cfg = 0\<rparr>, initFlag = 0,
     lastError = 0, analogTargetLevel = 0, startUpperLimit = 0, startLowerLimit = 0, upperPrimaryLimit = 0,
     lowerPrimaryLimit = 0, upperSecondaryLimit = 0, lowerSecondaryLimit = 0, targetIdx = 0, analogTarget = 0,
     filterState = replicate 8 0, upperLimit = 0, lowerLimit = 0, Rxx160w32 = 0, Rxx16_LPw32 = 0, Rxx160_LPw32 = 0,
     Rxx16_LPw32Max = 0, Rxx16_vectorw32 = replicate 10 0, Rxx16w32_array = [replicate 5 0, replicate 5 0],
     env_rows = [replicate 10 0, replicate 10 0], Rxx16pos = 0, envSum = 0, vadThreshold = 0, inActive = 0,
     msTooLow = 0, msTooHigh = 0, changeToSlowMode = 0, firstCall = 0, msZero = 0, msecSpeechOuterChange = 0,
     msecSpeechInnerChange = 0, activeSpeech = 0, muteGuardMs = 0, inQueue = 0, micRef = 0, gainTableIdx = 0,
     micGainIdx = 0, micVol = 0, maxLevel = 0, maxAnalog = 0, maxInit = 0, minLevel = 0, minOutput = 0, zeroCtrlMax
     = 0, lastInMicLevel = 0, scale = 0, vadMic = vadNearend webrtc_digital, digitalAgc = webrtc_digital,
     lowLevelSignal = 0\<rparr>"

text \<open>The gain the table is computed for: in the fixed mode the target level is added.\<close>

definition effective_gain :: "LegacyAgc \<Rightarrow> WebRtcAgcConfig \<Rightarrow> int" where
  "effective_gain stt c =
     (if agcMode_ana stt = kAgcModeFixedDigital then compressionGaindB_cfg c + targetLevelDbfs_cfg c
      else compressionGaindB_cfg c)"

lemma UpdateAgcThresholds_keeps:
  "compressionGaindB (WebRtcAgc_UpdateAgcThresholds stt) = compressionGaindB stt"
  "targetLevelDbfs (WebRtcAgc_UpdateAgcThresholds stt) = targetLevelDbfs stt"
  "limiterEnable (WebRtcAgc_UpdateAgcThresholds stt) = limiterEnable stt"
  "digitalAgc (WebRtcAgc_UpdateAgcThresholds stt) = digitalAgc stt"
  "usedConfig (WebRtcAgc_UpdateAgcThresholds stt) = usedConfig stt"
  "initFlag (WebRtcAgc_UpdateAgcThresholds stt) = initFlag stt"
  "analog_keeps stt (WebRtcAgc_UpdateAgcThresholds stt)"
  by (simp_all add: WebRtcAgc_UpdateAgcThresholds_def analog_keeps_def Let_def)

text \<open>The instance with which the table is computed.\<close>

definition configured :: "LegacyAgc \<Rightarrow> WebRtcAgcConfig \<Rightarrow> LegacyAgc" where
  "configured stt c = WebRtcAgc_UpdateAgcThresholds
     (stt\<lparr>limiterEnable := limiterEnable_cfg c, compressionGaindB := to_i16 (effective_gain stt c),
          targetLevelDbfs := targetLevelDbfs_cfg c\<rparr>)"

lemma update_swap:
  "stt\<lparr>compressionGaindB := b, targetLevelDbfs := t\<rparr> = stt\<lparr>targetLevelDbfs := t, compressionGaindB := b\<rparr>"
  by simp

lemma set_config_eq:
  assumes "initFlag stt = kInitCheck" "limiterEnable_cfg c = kAgcFalse \<or> limiterEnable_cfg c = kAgcTrue"
    "0 \<le> targetLevelDbfs_cfg c" "targetLevelDbfs_cfg c \<le> 31" "is_i16 (compressionGaindB_cfg c)"
  shows "WebRtcAgc_set_config (Some stt) c =
    map_option (\<lambda>(ret, table). let stt' = (configured stt c)\<lparr>digitalAgc := (digitalAgc stt)\<lparr>gainTable := table\<rparr>\<rparr>
        in if ret = - 1 then (- 1, Some stt') else (0, Some (stt'\<lparr>usedConfig := c\<rparr>)))
      (WebRtcAgc_CalculateGainTable (gainTable (digitalAgc stt)) (to_i16 (effective_gain stt c)) (targetLevelDbfs_cfg c)
         (limiterEnable_cfg c) (analogTarget (configured stt c)))"
proof (cases "agcMode_ana stt = kAgcModeFixedDigital")
  case True
  with assms show ?thesis
    by (elim disjE) (simp_all add: WebRtcAgc_set_config_def effective_gain_def configured_def UpdateAgcThresholds_keeps Let_def
        map_option_case update_swap split: option.split)
next
  case False
  with assms show ?thesis
    by (elim disjE) (simp_all add: WebRtcAgc_set_config_def effective_gain_def configured_def UpdateAgcThresholds_keeps Let_def
        to_i16_id map_option_case split: option.split)
qed

text \<open>C25: Configuring the gain control. On an initialised instance a limiter flag other than 0 or 1 is refused and only the
  error code is stored. A target level outside 0 to 31 is refused as well, but the limiter flag and the compression gain
  of the refused configuration stay in the instance. A compression gain (with the target level in the fixed mode) below
  -1 or above 191 is refused and the stored configuration stays; from 187 to 191 the table computation reads past
  the end of its generator table. Every other configuration is accepted, gives a table of 32 gains, and is the one
  that \<open>WebRtcAgc_get_config\<close> returns.\<close>

theorem set_config_outcome:
  assumes "initFlag stt = kInitCheck" "is_i16 (compressionGaindB_cfg c)"
  shows "if limiterEnable_cfg c \<noteq> kAgcFalse \<and> limiterEnable_cfg c \<noteq> kAgcTrue
    then WebRtcAgc_set_config (Some stt) c = Some (- 1, Some (stt\<lparr>lastError := AGC_BAD_PARAMETER_ERROR\<rparr>))
    else if targetLevelDbfs_cfg c < 0 \<or> 31 < targetLevelDbfs_cfg c
    then WebRtcAgc_set_config (Some stt) c = Some (- 1, Some (stt\<lparr>limiterEnable := limiterEnable_cfg c,
      compressionGaindB := compressionGaindB_cfg c, lastError := AGC_BAD_PARAMETER_ERROR\<rparr>))
    else if effective_gain stt c < - 1 \<or> 191 < effective_gain stt c
    then \<exists>stt'. WebRtcAgc_set_config (Some stt) c = Some (- 1, Some stt') \<and> usedConfig stt' = usedConfig stt
    else if 187 \<le> effective_gain stt c then WebRtcAgc_set_config (Some stt) c = None
    else \<exists>stt'. WebRtcAgc_set_config (Some stt) c = Some (0, Some stt') \<and> length (gainTable (digitalAgc stt')) = 32 \<and>
      WebRtcAgc_get_config (Some stt') (Some c') = (0, Some c, Some stt')"
proof (cases "limiterEnable_cfg c \<noteq> kAgcFalse \<and> limiterEnable_cfg c \<noteq> kAgcTrue \<or> targetLevelDbfs_cfg c < 0 \<or> 31 < targetLevelDbfs_cfg c")
  case True
  then show ?thesis using assms(1) by (auto simp: WebRtcAgc_set_config_def Let_def)
next
  case False
  define e where "e = to_i16 (effective_gain stt c)"
  define a where "a = analogTarget (configured stt c)"
  have t: "0 \<le> targetLevelDbfs_cfg c" "targetLevelDbfs_cfg c \<le> 31" using False by auto
  have r: "e < - 1 \<or> 191 < e \<longleftrightarrow> effective_gain stt c < - 1 \<or> 191 < effective_gain stt c"
    "\<not> (e < - 1 \<or> 191 < e) \<Longrightarrow> e = effective_gain stt c"
  proof -
    have b: "- 32768 \<le> effective_gain stt c" "effective_gain stt c \<le> 32798"
      using assms(2) t by (auto simp: effective_gain_def is_i16_def)
    have "e = (if effective_gain stt c \<le> 32767 then effective_gain stt c else effective_gain stt c - 65536)"
    proof (cases "effective_gain stt c \<le> 32767")
      case False
      then have "to_i16 (effective_gain stt c - 65536) = effective_gain stt c - 65536"
        using b by (intro to_i16_id) (simp add: is_i16_def)
      then show ?thesis using False mod_add_self2 [of "effective_gain stt c - 32768" 65536]
          by (simp add: e_def to_i16_def add.commute)
    qed (use b in \<open>simp add: e_def to_i16_id is_i16_def\<close>)
    then show "e < - 1 \<or> 191 < e \<longleftrightarrow> effective_gain stt c < - 1 \<or> 191 < effective_gain stt c"
      "\<not> (e < - 1 \<or> 191 < e) \<Longrightarrow> e = effective_gain stt c" using b by (auto split: if_splits)
  qed
  note q = set_config_eq [OF assms(1) _ t assms(2), folded e_def a_def]
  have q: "WebRtcAgc_set_config (Some stt) c =
    map_option (\<lambda>(ret, table). let stt' = (configured stt c)\<lparr>digitalAgc := (digitalAgc stt)\<lparr>gainTable := table\<rparr>\<rparr>
        in if ret = - 1 then (- 1, Some stt') else (0, Some (stt'\<lparr>usedConfig := c\<rparr>)))
      (WebRtcAgc_CalculateGainTable (gainTable (digitalAgc stt)) e (targetLevelDbfs_cfg c) (limiterEnable_cfg c) a)"
    using False by (intro q) auto
  have u: "usedConfig (configured stt c) = usedConfig stt" "initFlag (configured stt c) = kInitCheck"
    using assms(1) by (simp_all add: configured_def UpdateAgcThresholds_keeps)
  have "is_i16 e" by (simp add: e_def)
  note g = gain_table_outcome [OF this, of "gainTable (digitalAgc stt)" "targetLevelDbfs_cfg c" "limiterEnable_cfg c" a]
  have f: "(limiterEnable_cfg c \<noteq> kAgcFalse \<and> limiterEnable_cfg c \<noteq> kAgcTrue) = False"
    "(targetLevelDbfs_cfg c < 0 \<or> 31 < targetLevelDbfs_cfg c) = False" using False by auto
  consider (refused) "effective_gain stt c < - 1 \<or> 191 < effective_gain stt c"
    | (past) "187 \<le> e" "\<not> (e < - 1 \<or> 191 < e)" "\<not> (effective_gain stt c < - 1 \<or> 191 < effective_gain stt c)"
    | (good) "\<not> 187 \<le> e" "\<not> (e < - 1 \<or> 191 < e)" "\<not> (effective_gain stt c < - 1 \<or> 191 < effective_gain stt c)"
    using r(1) by blast
  then show ?thesis
  proof cases
    case refused
    then have e: "e < - 1 \<or> 191 < e" using r(1) by simp
    show ?thesis unfolding f if_False if_P [OF refused] q g [unfolded if_P [OF e]] by (simp add: u(1))
  next
    case past
    then have e: "187 \<le> effective_gain stt c" using r(2) by simp
    show ?thesis
      unfolding f if_False if_not_P [OF past(3)] if_P [OF e] q g [unfolded if_not_P [OF past(2)] if_P [OF past(1)]] by simp
  next
    case good
    then have e: "\<not> 187 \<le> effective_gain stt c" using r(2) by simp
    obtain T where T: "length T = 32"
      "WebRtcAgc_CalculateGainTable (gainTable (digitalAgc stt)) e (targetLevelDbfs_cfg c) (limiterEnable_cfg c) a = Some (0, T)"
      using g [unfolded if_not_P [OF good(2)] if_not_P [OF good(1)]] by blast
    show ?thesis
      unfolding f if_False if_not_P [OF good(3)] if_not_P [OF e] q T(2)
      by (simp add: WebRtcAgc_get_config_def T(1) u(2))
  qed
qed

lemma set_config_outcome_witness:
  "WebRtcAgc_set_config (Some (zero_agc\<lparr>initFlag := kInitCheck, agcMode_ana := kAgcModeFixedDigital\<rparr>))
     \<lparr>targetLevelDbfs_cfg = 3, compressionGaindB_cfg = 184, limiterEnable_cfg = 1\<rparr> = None"
  using set_config_outcome [of "zero_agc\<lparr>initFlag := kInitCheck, agcMode_ana := kAgcModeFixedDigital\<rparr>"
    "\<lparr>targetLevelDbfs_cfg = 3, compressionGaindB_cfg = 184, limiterEnable_cfg = 1\<rparr>"]
  by (simp add: is_i16_def kAgcFalse_def kAgcTrue_def effective_gain_def)

lemma agc_process_total_witness:
  "\<exists>out mic sat stt'.
    WebRtcAgc_Process (Some (zero_agc\<lparr>fs := 8000, agcMode_ana := 1, minOutput := 12, maxAnalog := 255, maxLevel := 318\<rparr>))
      [replicate 80 (- 32768)] 80 100 0 1 0 = Some (0, out, mic, sat, Some stt') \<and> agc_ok stt' \<and> 12 \<le> mic \<and> mic \<le> 255"
proof -
  let ?s = "zero_agc\<lparr>fs := 8000, agcMode_ana := 1, minOutput := 12, maxAnalog := 255, maxLevel := 318\<rparr>"
  have ok: "agc_ok ?s" "frame_size ?s = 80" "runs_analog ?s"
    using webrtc_digital_ok
    by (simp_all add: agc_ok_def levels_ok_def queue_shape_def frame_size_def zero_agc_def runs_analog_def kAgcModeFixedDigital_def)
  have "minLevel ?s = 0" "maxAnalog ?s = 255" "minOutput ?s = 12" by (simp_all add: zero_agc_def)
  then show ?thesis
    using agc_process_total [OF ok(1), of 100 "replicate 80 (- 32768)" "[]" 0 1 0] ok(2,3)
    by (auto simp: is_i16_def is_i32_def)
qed


section \<open>Initialisation\<close>

lemma default_tables:
  "WebRtcAgc_CalculateGainTable t 9 3 1 8 = Some (0,
     [32814, 45708, 65620, 91416, 121744, 129136, 130572, 130764, 130784, 130796, 130796, 130784, 130796, 130796, 130784, 130796,
      130796, 130784, 130796, 130796, 130784, 130796, 130796, 130784, 130796, 130796, 130784, 130796, 130796, 130796, 130796, 130796])"
  "WebRtcAgc_CalculateGainTable t 12 3 1 12 = Some (0,
     [32814, 45708, 65620, 91416, 131256, 170336, 179856, 181696, 181968, 181984, 182008, 182008, 181984, 182008, 182008, 181984,
      182008, 181984, 181984, 182008, 182008, 181984, 182008, 181984, 181968, 182008, 181984, 181984, 182008, 181984, 182008, 182008])"
  by code_simp+

lemma default_tables_ok:
  "table_ok [32814, 45708, 65620, 91416, 121744, 129136, 130572, 130764, 130784, 130796, 130796, 130784, 130796, 130796, 130784, 130796,
      130796, 130784, 130796, 130796, 130784, 130796, 130796, 130784, 130796, 130796, 130784, 130796, 130796, 130796, 130796, 130796]"
  "table_ok [32814, 45708, 65620, 91416, 131256, 170336, 179856, 181696, 181968, 181984, 182008, 182008, 181984, 182008, 182008, 181984,
      182008, 181984, 181984, 182008, 182008, 181984, 182008, 181984, 181968, 182008, 181984, 181984, 182008, 181984, 182008, 182008]"
  by code_simp+

lemma default_table:
  assumes "analogTarget s = (if e = 12 then 12 else 8)" "e = 9 \<or> e = 12"
  shows "\<exists>T. WebRtcAgc_CalculateGainTable t e 3 1 (analogTarget s) = Some (0, T) \<and> table_ok T"
  using assms(2) default_tables default_tables_ok unfolding assms(1) by auto

text \<open>The default configuration is accepted.\<close>

lemma set_default_config:
  assumes "initFlag stt = kInitCheck"
    and c: "c = \<lparr>targetLevelDbfs_cfg = 3, compressionGaindB_cfg = 9, limiterEnable_cfg = kAgcTrue\<rparr>"
  shows "\<exists>stt' T. WebRtcAgc_set_config (Some stt) c = Some (0, Some stt') \<and> table_ok T \<and> usedConfig stt' = c \<and>
    digitalAgc stt' = (digitalAgc stt)\<lparr>gainTable := T\<rparr> \<and> analog_keeps (stt\<lparr>digitalAgc := digitalAgc stt'\<rparr>) stt'"
proof -
  define e where "e = to_i16 (effective_gain stt c)"
  have e: "e = (if agcMode_ana stt = kAgcModeFixedDigital then 12 else 9)"
    by (simp add: e_def effective_gain_def c to_i16_id is_i16_def)
  have "analogTarget (configured stt c) = (if e = 12 then 12 else 8)"
    unfolding configured_def e_def [symmetric] WebRtcAgc_UpdateAgcThresholds_def Let_def
    by (simp add: e to_i16_id is_i16_def WebRtcSpl_DivW32W16ResW16_def c_div_def to_i32_id is_i32_def)
  from default_table [OF this, of "gainTable (digitalAgc stt)"] e obtain T where
    T: "WebRtcAgc_CalculateGainTable (gainTable (digitalAgc stt)) e 3 1 (analogTarget (configured stt c)) = Some (0, T)" "table_ok T"
    by (auto split: if_splits)
  have "WebRtcAgc_set_config (Some stt) c =
      Some (0, Some ((configured stt c)\<lparr>digitalAgc := (digitalAgc stt)\<lparr>gainTable := T\<rparr>, usedConfig := c\<rparr>))"
    using set_config_eq [OF assms(1), of c] T(1) unfolding e_def [symmetric] by (simp add: c kAgcTrue_def is_i16_def)
  moreover have "analog_keeps (stt\<lparr>digitalAgc := (digitalAgc stt)\<lparr>gainTable := T\<rparr>\<rparr>)
      ((configured stt c)\<lparr>digitalAgc := (digitalAgc stt)\<lparr>gainTable := T\<rparr>, usedConfig := c\<rparr>)"
    using UpdateAgcThresholds_keeps(7) [of "stt\<lparr>limiterEnable := limiterEnable_cfg c, compressionGaindB := e, targetLevelDbfs := targetLevelDbfs_cfg c\<rparr>"]
    by (simp add: configured_def e_def [symmetric] analog_keeps_def)
  ultimately show ?thesis using T(2) by auto
qed

lemma init_levels_ok:
  assumes "0 \<le> minL" "minL < maxL" "maxL < 67108864"
  shows "minLevel (init_levels stt minL maxL) \<le> minOutput (init_levels stt minL maxL)"
    "minOutput (init_levels stt minL maxL) \<le> maxAnalog (init_levels stt minL maxL)"
    "maxAnalog (init_levels stt minL maxL) \<le> maxLevel (init_levels stt minL maxL)"
    "fs (init_levels stt minL maxL) = fs stt" "scale (init_levels stt minL maxL) = scale stt"
    "digitalAgc (init_levels stt minL maxL) = digitalAgc stt" "agcMode_ana (init_levels stt minL maxL) = agcMode_ana stt"
    "Rxx16w32_array (init_levels stt minL maxL) = Rxx16w32_array stt"
proof -
  define d where "d = (maxL - minL) div 4"
  have d: "0 \<le> d" "4 * d \<le> maxL - minL" using assms by (auto simp: d_def pos_imp_zdiv_nonneg_iff)
  have c: "c_div (to_i32 (maxL - minL)) 4 = d" using assms by (simp add: to_i32_id is_i32_def c_div_pos d_def)
  define m where "m = (maxL + d - minL) * 10 div 256"
  have m: "0 \<le> m" "256 * m \<le> (maxL + d - minL) * 10" using assms d by (auto simp: m_def pos_imp_zdiv_nonneg_iff)
  have m2: "(maxL * 10 + d * 10 - minL * 10) div 256 = m" by (simp add: m_def algebra_simps)
  have l: "to_i32 (maxL + d) = maxL + d" "to_i32 (maxL + d - minL) = maxL + d - minL"
    "to_i32 ((maxL + d - minL) * 10) = (maxL + d - minL) * 10" "to_i32 (minL + m) = minL + m"
    using assms d m by (simp_all add: to_i32_id is_i32_def)
  have e: "minLevel (init_levels stt minL maxL) = minL" "maxAnalog (init_levels stt minL maxL) = maxL"
    "maxLevel (init_levels stt minL maxL) = maxL + d" "minOutput (init_levels stt minL maxL) = minL + m"
    using l m2 by (simp_all add: init_levels_def c shr_def Let_def)
  show "minLevel (init_levels stt minL maxL) \<le> minOutput (init_levels stt minL maxL)"
    "minOutput (init_levels stt minL maxL) \<le> maxAnalog (init_levels stt minL maxL)"
    "maxAnalog (init_levels stt minL maxL) \<le> maxLevel (init_levels stt minL maxL)"
    using d m assms unfolding e by simp_all
qed (simp_all add: init_levels_def Let_def)

lemma high_bits_zero:
  assumes "0 \<le> x" "x < 67108864" shows "to_u32 x AND 0xFC000000 = 0"
proof -
  have x: "to_u32 x = x" "take_bit 26 x = x" using assms by (simp_all add: to_u32_def take_bit_eq_mod)
  have "x AND 0xFC000000 = take_bit 26 x AND 0xFC000000" by (simp only: x)
  also have "\<dots> = take_bit 26 (x AND 0xFC000000)"
    by (simp only: take_bit_eq_mask and.assoc and.commute [of "0xFC000000"])
  also have "\<dots> = take_bit 26 x AND take_bit 26 0xFC000000" by (rule take_bit_and)
  also have "take_bit 26 (0xFC000000 :: int) = 0" by (simp add: take_bit_eq_mod)
  finally show ?thesis by (simp add: x(1))
qed

text \<open>Initialising the gain control. For a mode from 0 to 3, a supported rate and levels with
  0 <= minLevel < maxLevel < 2^26 the result is 0, whatever the memory held before; the instance is well formed (the state that
  processing keeps), holds the mode and the rate, and its configuration is the default one.\<close>

theorem agc_init_ok:
  assumes "kAgcModeUnchanged \<le> mode" "mode \<le> kAgcModeFixedDigital" "rate = 8000 \<or> rate = 16000 \<or> rate = 32000 \<or> rate = 48000"
    "0 \<le> minL" "minL < maxL" "maxL < 67108864" "length (Rxx16w32_array stt) = 2" "length (Rxx16w32_array stt ! 1) = 5"
  shows "\<exists>stt'. WebRtcAgc_Init stt minL maxL mode rate = Some (0, stt') \<and> agc_ok stt' \<and> agcMode_ana stt' = mode \<and> fs stt' = rate \<and>
    WebRtcAgc_get_config (Some stt') (Some c) =
      (0, Some \<lparr>targetLevelDbfs_cfg = 3, compressionGaindB_cfg = 9, limiterEnable_cfg = kAgcTrue\<rparr>, Some stt')"
proof -
  define lo hi where "lo = (if mode = kAgcModeAdaptiveDigital then 0 else minL)"
    and "hi = (if mode = kAgcModeAdaptiveDigital then 255 else maxL)"
  have lh: "0 \<le> lo" "lo < hi" "hi < 67108864" using assms by (auto simp: lo_def hi_def)
  define s0 where "s0 = stt\<lparr>digitalAgc := snd (WebRtcAgc_InitDigital (digitalAgc stt) mode), envSum := 0, agcMode_ana := mode,
    fs := rate, vadMic := WebRtcAgc_InitVad (vadMic stt), scale := 0\<rparr>"
  define s1 where "s1 = init_counters (init_levels s0 lo hi)"
  note l = init_levels_ok [OF lh, of s0]
  have s1: "initFlag s1 = kInitCheck" "defaultConfig s1 = \<lparr>targetLevelDbfs_cfg = 3, compressionGaindB_cfg = 9, limiterEnable_cfg = kAgcTrue\<rparr>"
    by (simp_all add: s1_def init_counters_def)
  from set_default_config [OF s1] obtain s2 T where
    c: "WebRtcAgc_set_config (Some s1) (defaultConfig s1) = Some (0, Some s2)" "table_ok T" "usedConfig s2 = defaultConfig s1"
      "digitalAgc s2 = (digitalAgc s1)\<lparr>gainTable := T\<rparr>" "analog_keeps (s1\<lparr>digitalAgc := digitalAgc s2\<rparr>) s2"
    by blast
  have "levels_ok s1" using l by (simp add: levels_ok_def s1_def init_counters_def s0_def)
  moreover have "queue_shape s1"
    using l(8) assms(7,8) by (auto simp: queue_shape_def s1_def init_counters_def s0_def length_Suc_conv numeral_2_eq_2)
  moreover have "digital_ok ((digitalAgc s1)\<lparr>gainTable := T\<rparr>)"
    using c(2) l(6) by (simp add: digital_ok_def s1_def init_counters_def s0_def WebRtcAgc_InitDigital_def level_ok_def gain_ok_def)
  moreover have "fs s1 = rate" "agcMode_ana s1 = mode" using l(4,7) by (simp_all add: s1_def init_counters_def s0_def)
  ultimately have ok1: "agc_ok (s1\<lparr>digitalAgc := digitalAgc s2\<rparr>)"
    using assms(3) c(4) by (simp add: agc_ok_def levels_ok_def queue_shape_def)
  have ok2: "agc_ok s2" by (rule agc_ok_keeps [OF ok1 c(5)])
  define s3 where "s3 = s2\<lparr>Rxx160_LPw32 := analogTargetLevel s2, lowLevelSignal := 0\<rparr>"
  have ok3: "agc_ok s3" using ok2 by (simp add: s3_def agc_ok_def levels_ok_def queue_shape_def)
  have f: "fs s3 = rate" "agcMode_ana s3 = mode" "initFlag s3 = kInitCheck" "usedConfig s3 = defaultConfig s1"
    using c(3,5) s1(1) \<open>fs s1 = rate\<close> \<open>agcMode_ana s1 = mode\<close> by (simp_all add: s3_def analog_keeps_def)
  have hi: "to_u32 hi AND 0xFC000000 = 0" by (rule high_bits_zero) (use lh in auto)
  have "WebRtcAgc_Init stt minL maxL mode rate = Some (0, s3)"
    using assms(1,2) lh(2) hi c(1)
    by (simp add: WebRtcAgc_Init_def WebRtcAgc_InitDigital_def s0_def s1_def s3_def lo_def hi_def Let_def split: if_splits)
  then show ?thesis using ok3 f s1(2) by (simp add: WebRtcAgc_get_config_def)
qed

lemma agc_init_ok_witness:
  "\<exists>stt'. WebRtcAgc_Init zero_agc 0 255 kAgcModeFixedDigital 8000 = Some (0, stt') \<and> agc_ok stt' \<and>
    agcMode_ana stt' = kAgcModeFixedDigital"
  using agc_init_ok [of kAgcModeFixedDigital 8000 0 255 zero_agc]
  by (auto simp: kAgcModeFixedDigital_def kAgcModeUnchanged_def zero_agc_def)


section \<open>Virtual microphone\<close>

lemma virtual_mic_tables:
  "length kGainTableVirtualMic = 128" "length kSuppressionTableVirtualMic = 128"
  "\<forall>g \<in> set kGainTableVirtualMic. 0 \<le> g \<and> g \<le> 32382" "\<forall>g \<in> set kSuppressionTableVirtualMic. 0 \<le> g \<and> g \<le> 1024"
  by (simp_all add: kGainTableVirtualMic_def kSuppressionTableVirtualMic_def)

text \<open>Below position 127 the gain attenuates.\<close>

definition mic_gain_ok :: "int \<Rightarrow> int \<Rightarrow> bool" where
  "mic_gain_ok k g \<longleftrightarrow> 0 \<le> k \<and> k \<le> 255 \<and> 0 \<le> g \<and> (k < 127 \<longrightarrow> g \<le> 1024)"

lemma first_gain_ok:
  assumes "0 \<le> k" "k \<le> 255" shows "\<exists>g. first_gain k = Some g \<and> mic_gain_ok k g"
proof (cases "k > 127")
  case True
  then have "nat (k - 128) < 128" using assms by simp
  then show ?thesis using True assms virtual_mic_tables by (simp add: first_gain_def mic_gain_ok_def)
next
  case False
  then have "nat (127 - k) < 128" using assms by simp
  then show ?thesis using False assms virtual_mic_tables by (simp add: first_gain_def mic_gain_ok_def)
qed

lemma next_gain_ok:
  assumes "0 \<le> k" "k \<le> 254" shows "\<exists>g. next_gain k = Some g \<and> mic_gain_ok k g"
proof (cases "k \<ge> 127")
  case True
  then have "nat (k - 127) < 128" using assms by simp
  then show ?thesis using True assms virtual_mic_tables by (simp add: next_gain_def mic_gain_ok_def)
next
  case False
  then have "nat (127 - k) < 128" using assms by simp
  then show ?thesis using False assms virtual_mic_tables by (simp add: next_gain_def mic_gain_ok_def)
qed

text \<open>The first step down does not change the gain: the two index computations differ by one.\<close>

lemma first_step_keeps_gain:
  assumes "128 \<le> k" shows "next_gain (k - 1) = first_gain k"
  using assms by (simp add: next_gain_def first_gain_def)

lemma attenuation_never_overloads:
  assumes "is_i16 x" "0 \<le> g" "g \<le> 1024" shows "\<not> mic_overload g x"
proof -
  have "x * g \<le> 32767 * g" using assms by (intro mult_right_mono) (auto simp: is_i16_def)
  moreover have "- 32768 * g \<le> x * g" using assms by (intro mult_right_mono) (auto simp: is_i16_def)
  ultimately have "- 32768 * 1024 \<le> x * g" "x * g < 32768 * 1024" using assms by linarith+
  then show ?thesis by (auto simp: mic_overload_def shr_def not_less intro: int_le_div int_div_less order_trans [of _ 32767] zle_add1_eq_le [THEN iffD1])
qed

lemma is_i16_mic_sample [simp]: "is_i16 (mic_sample g x)"
  by (simp add: mic_sample_def clamp16_def is_i16_def to_i16_bounds)

lemma virtual_mic_loop_ok:
  assumes "mic_gain_ok k g" "bands \<noteq> []" "\<forall>b \<in> set bands. (\<forall>x \<in> set b. is_i16 x) \<and> n \<le> length b" "\<forall>i \<in> set is. i < n"
  shows "\<exists>k' bands'. virtual_mic_loop is k g bands = Some (k', bands') \<and> 0 \<le> k' \<and> k' \<le> k \<and> (k' = k \<or> 126 \<le> k') \<and>
    map length bands' = map length bands \<and> (\<forall>b \<in> set bands'. (\<forall>x \<in> set b. is_i16 x) \<and> n \<le> length b)"
  using assms
proof (induction "is" arbitrary: k g bands)
  case Nil
  then show ?case by (auto simp: mic_gain_ok_def)
next
  case (Cons i "is")
  define x where "x = hd bands ! i"
  have x: "is_i16 x" using Cons.prems by (cases bands) (auto simp: x_def)
  define bs where "bs g' = (hd bands)[i := mic_sample g x] # map (\<lambda>b. b[i := mic_sample g' (b ! i)]) (tl bands)" for g'
  have bs: "bs g' \<noteq> []" "map length (bs g') = map length bands"
    "\<forall>b \<in> set (bs g'). (\<forall>x \<in> set b. is_i16 x) \<and> n \<le> length b" for g'
    using Cons.prems(2,3) by (cases bands; auto simp: bs_def dest!: set_update_subset_insert [THEN subsetD])+
  have r: "i < n" "\<forall>i \<in> set is. i < n" using Cons.prems(4) by auto
  show ?case
  proof (cases "mic_overload g x")
    case False
    then show ?thesis using Cons.IH [OF Cons.prems(1) bs(1,3) r(2), of g] bs(2)
      by (simp add: x_def [symmetric] bs_def [symmetric])
  next
    case True
    then have k: "127 \<le> k" "k \<le> 255" "to_i32 (k - 1) = k - 1"
      using attenuation_never_overloads [OF x] Cons.prems(1) by (auto simp: mic_gain_ok_def to_i32_id is_i32_def not_le)
    then obtain g' where g': "next_gain (k - 1) = Some g'" "mic_gain_ok (k - 1) g'" using next_gain_ok [of "k - 1"] by auto
    from Cons.IH [OF g'(2) bs(1,3) r(2), of g'] obtain k' bands' where
      "virtual_mic_loop is (k - 1) g' (bs g') = Some (k', bands')" "0 \<le> k'" "k' \<le> k - 1" "k' = k - 1 \<or> 126 \<le> k'"
      "map length bands' = map length bands" "\<forall>b \<in> set bands'. (\<forall>x \<in> set b. is_i16 x) \<and> n \<le> length b"
      using bs(2) by auto
    then show ?thesis using True g'(1) k
      by (intro exI [of _ k'] exI [of _ bands']) (auto simp: x_def [symmetric] bs_def [symmetric] Let_def)
  qed
qed

text \<open>Adding the frame to the queue.\<close>

definition mic_state_ok :: "LegacyAgc \<Rightarrow> bool" where
  "mic_state_ok stt \<longleftrightarrow> agc_ok stt \<and> 127 \<le> maxAnalog stt \<and> maxAnalog stt \<le> 255 \<and> 0 \<le> micVol stt \<and> micVol stt \<le> maxLevel stt \<and>
     maxLevel stt \<le> 32767 \<and> 0 \<le> gainTableIdx stt \<and> gainTableIdx stt \<le> 31"

lemma mic_gain_total:
  assumes "mic_state_ok stt" shows "\<exists>idx g. mic_gain stt = Some (idx, g) \<and> 0 \<le> idx \<and> idx \<le> 31"
proof (cases "micVol stt > maxAnalog stt")
  case True
  define a b where "a = micVol stt - maxAnalog stt" and "b = maxLevel stt - maxAnalog stt"
  have ab: "0 < a" "a \<le> b" "b \<le> 32767" using True assms by (auto simp: a_def b_def mic_state_ok_def)
  then have i: "to_i16 a = a" "to_i16 b = b" by (simp_all add: to_i16_id is_i16_def)
  have "31 * a div b \<le> 31 * b div b" using ab by (intro zdiv_mono1) auto
  then have q: "0 \<le> c_div (31 * a) b" "c_div (31 * a) b \<le> 31" using ab by (auto simp: c_div_pos pos_imp_zdiv_nonneg_iff)
  define t where "t = to_u16 (c_div (31 * a) b)"
  have t: "0 \<le> t" "t \<le> 31" using q by (simp_all add: t_def to_u16_def)
  define k where "k = (if gainTableIdx stt < t then to_u16 (gainTableIdx stt + 1)
    else if gainTableIdx stt > t then gainTableIdx stt - 1 else gainTableIdx stt)"
  have k: "0 \<le> k" "k \<le> 31" using assms t by (auto simp: k_def mic_state_ok_def to_u16_def)
  then have "nat k < length kGainTableAnalog" by (simp add: kGainTableAnalog_def)
  then have "mic_gain stt = Some (k, Some (kGainTableAnalog ! nat k))"
    using True ab(1,2)
    unfolding mic_gain_def Let_def a_def [symmetric] b_def [symmetric] i t_def [symmetric] k_def [symmetric] by simp
  then show ?thesis using k by blast
qed (simp add: mic_gain_def)

lemma mic_energies_length [simp]: "length (fst (mic_energies rate xs f)) = 5"
proof -
  have "length (fst (mic_energies rate xs f)) = 5"
    unfolding mic_energies_def
    by (rule fold_upt_inv [where P = "\<lambda>i s. length (fst s) = i"]) (auto split: prod.split)
  then show ?thesis .
qed

lemma is_i16_clamp16 [simp]: "is_i16 (clamp16 x)"
  by (simp add: clamp16_def is_i16_def to_i16_bounds)

lemma scale_band_ok:
  assumes "\<forall>x \<in> set b. is_i16 x" shows "\<forall>x \<in> set (scale_band g n b). is_i16 x" "length (scale_band g n b) = length b"
  using assms by (auto simp: scale_band_def dest: in_set_dropD)

lemma AddMic_ok:
  assumes "mic_state_ok stt" "\<forall>b \<in> set bands. \<forall>x \<in> set b. is_i16 x"
  shows "\<exists>bands' stt'. WebRtcAgc_AddMic stt bands (frame_size stt) = Some (0, bands', stt') \<and> mic_state_ok stt' \<and>
    inQueue stt' = (if inQueue stt = 0 then 1 else 2) \<and> map length bands' = map length bands \<and>
    micGainIdx stt' = micGainIdx stt \<and> (\<forall>b \<in> set bands'. \<forall>x \<in> set b. is_i16 x)"
proof -
  obtain idx g where g: "mic_gain stt = Some (idx, g)" "0 \<le> idx" "idx \<le> 31" using mic_gain_total [OF assms(1)] by blast
  define bands' where "bands' = (case g of None \<Rightarrow> bands | Some g \<Rightarrow> map (scale_band g (frame_size stt)) bands)"
  have b: "map length bands' = map length bands" "\<forall>b \<in> set bands'. \<forall>x \<in> set b. is_i16 x"
    using assms(2) scale_band_ok by (auto simp: bands'_def split: option.split)
  define L where "L = (if fs stt = 8000 then 8 else 16 :: nat)"
  define row where "row = (if inQueue stt > 0 then 1 else 0 :: nat)"
  obtain en f where e: "mic_energies (fs stt) (bands' ! 0) (filterState stt) = (en, f)" by fastforce
  then have len: "length en = 5" by (metis fst_conv mic_energies_length)
  define stt' where "stt' = stt\<lparr>gainTableIdx := idx, env_rows := (env_rows stt)[row := map (envelope L (bands' ! 0)) [0..<10]],
    Rxx16w32_array := (Rxx16w32_array stt)[row := en], filterState := f, inQueue := (if inQueue stt = 0 then 1 else 2),
    vadMic := snd (WebRtcAgc_ProcessVad (vadMic stt) (bands' ! 0) (frame_size stt))\<rparr>"
  have A: "WebRtcAgc_AddMic stt bands (frame_size stt) = Some (0, bands', stt')"
    by (simp add: WebRtcAgc_AddMic_def g(1) frame_size_def e L_def bands'_def [unfolded frame_size_def, symmetric] Let_def
        stt'_def row_def flip: bands'_def)
  have "queue_shape stt" using assms(1) by (simp add: mic_state_ok_def agc_ok_def)
  from queue_shape_update [OF this, of row "map (envelope L (bands' ! 0)) [0..<10]" en "if inQueue stt = 0 then 1 else 2"]
  have "queue_shape stt'" using len by (simp add: stt'_def row_def queue_shape_def)
  then have "mic_state_ok stt'"
    using assms(1) g by (simp add: mic_state_ok_def agc_ok_def stt'_def levels_ok_def)
  then show ?thesis using A b by (auto simp: stt'_def)
qed

text \<open>C26: The virtual microphone stays inside its tables. On a well-formed instance with levels from 0 to 255 (those of the
  digital mode that uses it; the analog maximum at least 127), a frame of 16-bit samples is processed without an access
  outside a gain table, although every overloaded sample moves the position in the tables: the position never rises
  during the frame, and falls no lower than 126 because from there on the gain attenuates. The bands stay 16-bit and keep their
  lengths, the instance stays well formed and the frame is queued.\<close>

theorem virtual_mic_in_tables:
  assumes "mic_state_ok stt" "is_i32 micIn" "bands \<noteq> []"
    "\<forall>b \<in> set bands. (\<forall>x \<in> set b. is_i16 x) \<and> frame_size stt \<le> length b"
  shows "\<exists>level bands' stt'. WebRtcAgc_VirtualMic stt bands (frame_size stt) micIn = Some (0, level, bands', stt') \<and>
    mic_state_ok stt' \<and> inQueue stt' = (if inQueue stt = 0 then 1 else 2) \<and> level = micGainIdx stt' \<and>
    (let start = (if micIn \<noteq> micRef stt then 127 else min (micVol stt) (maxAnalog stt))
     in 0 \<le> level \<and> level \<le> start \<and> (level = start \<or> 126 \<le> level)) \<and>
    map length bands' = map length bands \<and> (\<forall>b \<in> set bands'. \<forall>x \<in> set b. is_i16 x)"
proof -
  define start where "start = (if micIn \<noteq> micRef stt then 127 else min (micVol stt) (maxAnalog stt))"
  define low where "low = (let limit = (if fs stt \<noteq> 8000 then 11000 else 5500)
    in low_level_signal limit (frame_energy limit (bands ! 0) (frame_size stt)) (zero_crossings (bands ! 0) (frame_size stt)))"
  define s1 where "s1 = (if micIn \<noteq> micRef stt then stt\<lparr>lowLevelSignal := low, micRef := micIn, micVol := 127, micGainIdx := 127\<rparr>
    else stt\<lparr>lowLevelSignal := low\<rparr>)"
  have st: "0 \<le> start" "start \<le> 255" using assms(1) by (auto simp: start_def mic_state_ok_def)
  have sc: "scale stt = 0" "scale s1 = 0" "fs s1 = fs stt" "inQueue s1 = inQueue stt" using assms(1)
    by (auto simp: s1_def mic_state_ok_def agc_ok_def levels_ok_def)
  obtain g where g: "first_gain start = Some g" "mic_gain_ok start g" using first_gain_ok [OF st] by blast
  obtain k bands1 where
    v: "virtual_mic_loop [0..<frame_size stt] start g bands = Some (k, bands1)" "0 \<le> k" "k \<le> start" "k = start \<or> 126 \<le> k"
      "map length bands1 = map length bands" "\<forall>b \<in> set bands1. (\<forall>x \<in> set b. is_i16 x) \<and> frame_size stt \<le> length b"
    using virtual_mic_loop_ok [OF g(2) assms(3,4), of "[0..<frame_size stt]"] by auto
  have ok: "mic_state_ok (s1\<lparr>micGainIdx := k\<rparr>)"
    using assms(1) by (auto simp: s1_def mic_state_ok_def agc_ok_def levels_ok_def queue_shape_def)
  have fr: "frame_size (s1\<lparr>micGainIdx := k\<rparr>) = frame_size stt" using sc by (simp add: frame_size_def)
  obtain bands2 s2 where a: "WebRtcAgc_AddMic (s1\<lparr>micGainIdx := k\<rparr>) bands1 (frame_size stt) = Some (0, bands2, s2)" "mic_state_ok s2"
    "inQueue s2 = (if inQueue stt = 0 then 1 else 2)" "map length bands2 = map length bands1" "micGainIdx s2 = k"
    "\<forall>b \<in> set bands2. \<forall>x \<in> set b. is_i16 x"
    using AddMic_ok [OF ok, of bands1] v(6) sc fr by auto
  have "WebRtcAgc_VirtualMic stt bands (frame_size stt) micIn = Some (0, k, bands2, s2)"
  proof -
    have m: "to_i32 (shl micIn (nat (scale stt))) = micIn" using sc(1) assms(2) by (simp add: shl_def to_i32_id)
    have mi: "(if maxAnalog stt < micVol stt then maxAnalog stt else micVol stt) = min (micVol stt) (maxAnalog stt)" by auto
    have "virtual_mic_start stt (bands ! 0) (frame_size stt) micIn = (s1, start)"
      using m mi by (simp add: virtual_mic_start_def Let_def s1_def start_def low_def)
    then show ?thesis using g(1) v(1) a(1) sc(2) by (simp add: WebRtcAgc_VirtualMic_def Let_def)
  qed
  then show ?thesis using a v by (auto simp: start_def [symmetric] Let_def)
qed

lemma virtual_mic_in_tables_witness:
  "\<exists>level bands' stt'. WebRtcAgc_VirtualMic
     (zero_agc\<lparr>fs := 8000, agcMode_ana := kAgcModeAdaptiveDigital, minOutput := 12, maxAnalog := 255, maxLevel := 318, micVol := 300\<rparr>)
     [replicate 80 32767] 80 0 = Some (0, level, bands', stt') \<and> 126 \<le> level \<and> level \<le> 255"
proof -
  let ?s = "zero_agc\<lparr>fs := 8000, agcMode_ana := kAgcModeAdaptiveDigital, minOutput := 12, maxAnalog := 255, maxLevel := 318, micVol := 300\<rparr>"
  have "mic_state_ok ?s" "frame_size ?s = 80" "micRef ?s = 0" "min (micVol ?s) (maxAnalog ?s) = 255"
    using webrtc_digital_ok
    by (simp_all add: mic_state_ok_def agc_ok_def levels_ok_def queue_shape_def frame_size_def zero_agc_def)
  then show ?thesis
    using virtual_mic_in_tables [of ?s 0 "[replicate 80 32767]"] by (auto simp: is_i16_def is_i32_def Let_def)
qed

end
