(* ===== verification/Spec2Isabelle.thy ===== *)
theory Spec2Isabelle
  imports Prelude RingBuffer SplInline SplVectors SplMath SplFilters SplResample
    VadState VadFeatures VadCore IsacStream IsacHist IsacLogist IsacCoder
    SplKernels SplFft Float32 DelayEstimator AecmChannel AecmBlock AecmMobile AgcVad AgcDigital AgcAnalog
begin

text \<open>
  A model of the fixed-point audio core of the WebRTC runtime (the C files under
  \<open>src/webrtc/common_audio\<close>), of its gain control, and of the arithmetic coder of its iSAC codec
  (\<open>src/webrtc/modules/audio_coding/codecs/isac/fix/source\<close>) and of its mobile echo control
  (\<open>src/webrtc/modules/audio_processing/aecm\<close>), translated function by function, with the
  theorems that make it correct.

  The parts and how they interact. The ring buffer (\<open>ring_buffer.c\<close>) is the byte queue between the
  capture side and the processing modules. The signal processing library (\<open>signal_processing/\<close>, SPL)
  is a collection of integer kernels: arithmetic with saturation, vector operations, division, square
  root, correlation, filters, filter banks and resamplers. The voice activity detector (\<open>vad/\<close>)
  is built on it: a frame is resampled to 8 kHz, split into six bands, the log energies of the bands
  are tested against a Gaussian mixture model of noise and speech, the model is adapted with the help
  of a minimum tracker, and the decision is smoothed by a hangover. The iSAC arithmetic coder writes the
  parameters and the spectrum of a frame, each with its cumulative frequencies, into a stream of 16-bit words;
  the stream is terminated, sent as bytes, and read back by decoders that search the symbol of each interval.
  The mobile echo control buffers the far end in a ring buffer, cuts far end and near end into blocks of 64
  samples, transforms them with the fixed-point FFT of SPL, asks the delay estimator
  (\<open>src/webrtc/modules/audio_processing/utility\<close>) how far the echo lies behind, subtracts the echo a channel estimate
  predicts, and fills the output with comfort noise.
  The gain control (\<open>src/webrtc/modules/audio_processing/agc/legacy\<close>) is the last stage of the pipeline of
  \<open>src/webrtc/webrtc.cc\<close>, which runs it in the fixed digital mode on the frames the detector takes for speech: a table of
  gains is computed from the configuration, the level of each millisecond selects a gain, a limiter lowers it where the
  product would overflow, and in the analog mode the level of a microphone is steered from the measured energies.

  Conventions. A C integer is an \<open>int\<close> and every assignment to a narrower type is written out by
  \<open>to_i16\<close>, \<open>to_i32\<close>, \<open>to_u32\<close> (theory Prelude), so wrap-around is visible where the code can
  wrap; \<open>/\<close> is \<open>c_div\<close>, \<open>>>\<close> is the arithmetic \<open>shr\<close>. A \<open>size_t\<close> is a \<open>nat\<close> where it cannot
  underflow and \<open>sz_sub\<close>, \<open>sz_mul\<close> (modulo \<open>2 ^ 64\<close>) where it could. A C array is a list, updated
  by index; a pointer into an array is the list together with an offset; a struct is a record with
  the field names of the code; a null pointer is \<open>None\<close>. A function that writes through a pointer
  returns the new value. A loop over a fixed index range is a \<open>fold\<close> over the range; the loops whose
  end depends on data are recursive functions, with a measure (\<open>acorr_unrolled\<close>) or as
  \<open>partial_function (option)\<close> where they may not end (\<open>downsample_loop\<close>, whose step may be zero, the searches and the
  clipping of the logistic coder, the limiter, the loops over the far-end delay line and over the blocks of a frame of the
  echo control); the theorems say when they return. Where the code would access memory outside an array that its callers can
  make it reach (the filters that read behind their pointer, the bands of the filter banks, the far-end history, the queues of
  the echo control), the model's result is an \<open>option\<close> and \<open>None\<close> the access.

  The theories.
  \<^item> Prelude: fixed-width conversions, C division and shifts, folds over index ranges, list updates.
  \<^item> RingBuffer: \<open>ring_buffer.c\<close>. The locales \<open>byte_fifo\<close> and \<open>rewindable_fifo\<close> state what the
    clients rely on; the interpretation \<open>ring\<close> discharges the laws for the code's operations.
  \<^item> SplInline: \<open>spl_inl.h\<close>, \<open>spl_inl.c\<close>: leading zeros, norms, saturating arithmetic.
  \<^item> SplVectors: \<open>copy_set_operations.c\<close>, \<open>min_max_operations.c\<close>, \<open>vector_scaling_operations.c\<close>,
    \<open>ilbc_specific_functions.c\<close>.
  \<^item> SplMath: \<open>division_operations.c\<close>, \<open>spl_sqrt_floor.c\<close>, \<open>get_scaling_square.c\<close>, \<open>energy.c\<close>,
    \<open>auto_correlation.c\<close>, \<open>cross_correlation.c\<close>, \<open>randomization_functions.c\<close>,
    \<open>get_hanning_window.c\<close>.
  \<^item> SplFilters: \<open>filter_ar.c\<close>, \<open>filter_ar_fast_q12.c\<close>, \<open>filter_ma_fast_q12.c\<close>,
    \<open>downsample_fast.c\<close>, \<open>splitting_filter.c\<close>. \<open>taps_inside\<close> says which reads stay in the memory; the bands are bounded by
    \<open>kMaxBandFrameLength\<close>.
  \<^item> SplResample: \<open>resample_by_2_internal.c\<close>, \<open>resample_fractional.c\<close>, \<open>resample_48khz.c\<close>.
  \<^item> VadState: the detector record, its tables, initialisation and modes (\<open>vad_core.h\<close>,
    \<open>vad_core.c\<close>) and the Gaussian of \<open>vad_gmm.c\<close>.
  \<^item> VadFeatures: \<open>vad_sp.c\<close> (down-sampling, minimum tracking) and \<open>vad_filterbank.c\<close>. The tracker is specified on
    the sixteen (value, age) entries of a channel: \<open>aged\<close> is what the ageing loop does to them, \<open>insert_min\<close> the insertion.
  \<^item> VadCore: the rest of \<open>vad_core.c\<close> and \<open>webrtc_vad.c\<close>.
  \<^item> IsacStream: the stream records (\<open>structs.h\<close>), the carry, the renormalisation, the termination
    (\<open>arith_routines.c\<close>) and the loops shared by all coders. The locale \<open>symbol_decoder\<close> states what the
    decoder needs of a search and of a refill; inside it the decoder is shown to follow the encoder.
  \<^item> IsacHist: \<open>arith_routines_hist.c\<close>; the interpretations \<open>one_step\<close> and \<open>bisection\<close>.
  \<^item> IsacLogist: \<open>arith_routines_logist.c\<close>; the interpretation \<open>logistic\<close>.
  \<^item> IsacCoder: whole streams: set-up and payload bytes (\<open>isacfix.c\<close>, \<open>encode.c\<close>), sequences of
    calls, their round trip, and the limits of the coder.
  \<^item> SplKernels: \<open>spl_sqrt.c\<close>, \<open>resample_by_2.c\<close>, \<open>dot_product_with_scale.cc\<close>, used by the gain control.
  \<^item> SplFft: \<open>complex_bit_reverse.c\<close>, \<open>complex_fft.c\<close>, \<open>real_fft.c\<close>: the reordering, by tables and by arithmetic, is the
    bit reversal; the butterflies of both directions stay in 16 bits, the inverse one because its shifts are chosen from the
    largest magnitude (\<open>ifft_shift\<close>), the forward one because it halves in every stage.
  \<^item> Float32: single precision rounding \<open>fl32\<close> of rational numbers, without overflow and subnormals, for the few statistics
    the delay estimator keeps as \<open>float\<close>.
  \<^item> DelayEstimator: \<open>delay_estimator.cc\<close> and the fixed-point path of \<open>delay_estimator_wrapper.cc\<close>. The invariants
    \<open>farend_ok\<close>, \<open>estimator_ok\<close> and \<open>threshold_ok\<close> are kept by every operation, for every history size and look-ahead.
  \<^item> AecmChannel: \<open>aecm_core.cc\<close> of the mobile echo control without the processing of frames: its record, initialisation,
    the history of far-end spectra, the delay line of the far end, the channel estimate and the suppression gain. The
    invariant \<open>core_ok\<close> is established by the initialisation and kept by every operation; \<open>far_write_loop\<close> and
    \<open>far_read_loop\<close> are shown to return for every frame.
  \<^item> AecmBlock: \<open>aecm_core_c.cc\<close> and \<open>WebRtcAecm_ProcessFrame\<close>: transforms, suppression filter, comfort noise and output of
    a block, and the queues that turn frames of 80 samples into blocks of 64. The locale \<open>sample_queue\<close> states what the
    frame processing needs of a queue, the interpretation \<open>frames\<close> discharges it for the ring buffers; \<open>process_blocks\<close> is
    shown to return.
  \<^item> AecmMobile: \<open>echo_control_mobile.cc\<close>: creation, initialisation, configuration, far-end buffering, the start-up and the
    delay compensation. \<open>instance_ok\<close> is the invariant of an instance, \<open>aecm_session\<close> a sequence of calls.
  \<^item> AgcVad: the voice activity measure of \<open>digital_agc.c\<close>.
  \<^item> AgcDigital: the rest of \<open>digital_agc.c\<close>. The limiter loop is a \<open>partial_function (option)\<close>; it is shown to end for
    every gain and envelope of the invariant \<open>digital_ok\<close>, with the products of the later sub-frames in range.
  \<^item> AgcAnalog: \<open>analog_agc.c\<close>: microphone queue, virtual microphone, analog control, configuration, initialisation and
    the processing of a frame. \<open>analog_keeps\<close> collects what every analog operation leaves alone; \<open>agc_ok\<close> is the
    invariant of an instance.

  Not modelled. The floating-point processing (\<open>aec\<close>, \<open>aec3\<close>, \<open>ns_core.c\<close>, the classes of \<open>audio_processing\<close>, the
  floating-point iSAC, the float variants of the delay estimator), because its rounding has no faithful executable model in the
  theories imported here; the assembly and intrinsic variants (Neon, MIPS, ARMv7), of which the C versions are modelled; the
  C++ platform layer (\<open>rtc_base\<close>, \<open>system_wrappers\<close>) and the program text of \<open>webrtc.cc\<close>, which are threads, logging and
  calls of the parts modelled here; the vendored codecs (AMR, Opus, G.722, iLBC) and the signal processing of iSAC around its
  coder; the fixed-point noise suppression \<open>ns/nsx_core.c\<close>. Memory is not modelled as a heap: allocation is an argument of the
  create functions, freeing has no model, and an uninitialised field is an arbitrary initial value of the record.
\<close>

end
